(* ===== verification/Prelude.thy ===== *)
theory Prelude
  imports Main "HOL-Library.Char_ord" "HOL-Library.List_Lexorder"
begin

text \<open>
  Shared vocabulary of the development: results with errors, Rust strings as their UTF-8
  bytes with the standard-library functions the crates call on them, and the generic
  list lemmas several components need.

  A Rust \<open>String\<close> is a \<open>string\<close> (a list of 8-bit characters) holding its UTF-8
  bytes, so \<open>len()\<close> is \<open>length\<close>, comparison is the lexicographic order of
  \<open>List_Lexorder\<close>, and a character boundary is a byte that is not a continuation byte.
\<close>

named_theorems layout_simps \<open>unfolding rules of the workspace layout operations\<close>
named_theorems row_simps \<open>unfolding rules of the registry row operations\<close>
named_theorems part_simps \<open>unfolding rules of the transcript part operations\<close>

section \<open>Results\<close>

text \<open>\<open>Result<T, E>\<close> is \<open>'e + 'a\<close>; \<open>rbind\<close> is the \<open>?\<close> operator.\<close>

fun rbind :: "'e + 'a \<Rightarrow> ('a \<Rightarrow> 'e + 'b) \<Rightarrow> 'e + 'b" where
  "rbind (Inl e) f = Inl e"
| "rbind (Inr a) f = f a"

definition ok_or :: "'e \<Rightarrow> 'a option \<Rightarrow> 'e + 'a" where
  "ok_or e x = (case x of None \<Rightarrow> Inl e | Some a \<Rightarrow> Inr a)"

definition guard_or :: "'e \<Rightarrow> bool \<Rightarrow> 'e + unit" where
  "guard_or e b = (if b then Inr () else Inl e)"

lemma rbind_Inr_iff [simp]: "rbind m f = Inr b \<longleftrightarrow> (\<exists>a. m = Inr a \<and> f a = Inr b)"
  by (cases m) auto

lemma rbind_assoc: "rbind (rbind m f) g = rbind m (\<lambda>x. rbind (f x) g)"
  by (cases m) auto

lemma ok_or_simps [simp]: "ok_or e None = Inl e" "ok_or e (Some a) = Inr a"
  by (simp_all add: ok_or_def)

lemma ok_or_Inr_iff: "ok_or e x = Inr a \<longleftrightarrow> x = Some a"
  by (cases x) auto

lemma guard_or_simps [simp]: "guard_or e True = Inr ()" "guard_or e False = Inl e"
  by (simp_all add: guard_or_def)

lemma guard_or_Inr_iff: "guard_or e b = Inr u \<longleftrightarrow> b"
  by (cases b) auto

section \<open>UTF-8 bytes\<close>

text \<open>A continuation byte is \<open>10xxxxxx\<close>.\<close>

primrec is_cont :: "char \<Rightarrow> bool" where
  "is_cont (Char b0 b1 b2 b3 b4 b5 b6 b7) \<longleftrightarrow> b7 \<and> \<not> b6"

definition is_char_boundary :: "string \<Rightarrow> nat \<Rightarrow> bool" where
  "is_char_boundary s i \<longleftrightarrow>
     i = 0 \<or> i = length s \<or> (i < length s \<and> \<not> is_cont (s ! i))"

text \<open>\<open>chars().count()\<close>: one character per byte that starts one.\<close>

definition char_count :: "string \<Rightarrow> nat" where
  "char_count s = length (filter (\<lambda>c. \<not> is_cont c) s)"

text \<open>The UTF-8 encodings of the characters with the Unicode property White_Space.\<close>

definition ws_seqs :: "string list" where
  "ws_seqs =
    [[CHR 0x09], [CHR 0x0A], [CHR 0x0B], [CHR 0x0C], [CHR 0x0D], [CHR 0x20],
     [CHR 0xC2, CHR 0x85], [CHR 0xC2, CHR 0xA0], [CHR 0xE1, CHR 0x9A, CHR 0x80],
     [CHR 0xE2, CHR 0x80, CHR 0x80], [CHR 0xE2, CHR 0x80, CHR 0x81],
     [CHR 0xE2, CHR 0x80, CHR 0x82], [CHR 0xE2, CHR 0x80, CHR 0x83],
     [CHR 0xE2, CHR 0x80, CHR 0x84], [CHR 0xE2, CHR 0x80, CHR 0x85],
     [CHR 0xE2, CHR 0x80, CHR 0x86], [CHR 0xE2, CHR 0x80, CHR 0x87],
     [CHR 0xE2, CHR 0x80, CHR 0x88], [CHR 0xE2, CHR 0x80, CHR 0x89],
     [CHR 0xE2, CHR 0x80, CHR 0x8A], [CHR 0xE2, CHR 0x80, CHR 0xA8],
     [CHR 0xE2, CHR 0x80, CHR 0xA9], [CHR 0xE2, CHR 0x80, CHR 0xAF],
     [CHR 0xE2, CHR 0x81, CHR 0x9F], [CHR 0xE3, CHR 0x80, CHR 0x80]]"

definition starts_with :: "string \<Rightarrow> string \<Rightarrow> bool" where
  "starts_with s p \<longleftrightarrow> take (length p) s = p"

definition ends_with :: "string \<Rightarrow> string \<Rightarrow> bool" where
  "ends_with s p \<longleftrightarrow> starts_with (rev s) (rev p)"

lemma starts_with_drop_shorter:
  "w \<noteq> [] \<Longrightarrow> starts_with s w \<Longrightarrow> length (drop (length w) s) < length s"
  by (cases s; cases w) (auto simp: starts_with_def)

lemma find_SomeD: "List.find P xs = Some x \<Longrightarrow> P x \<and> x \<in> set xs"
  by (auto simp: find_Some_iff)

function strip_front :: "string list \<Rightarrow> string \<Rightarrow> string" where
  "strip_front ws s =
     (case List.find (\<lambda>w. w \<noteq> [] \<and> starts_with s w) ws of
        None \<Rightarrow> s
      | Some w \<Rightarrow> strip_front ws (drop (length w) s))"
  by pat_completeness auto
termination
  by (relation "measure (\<lambda>(ws, s). length s)")
     (auto dest!: find_SomeD intro: starts_with_drop_shorter simp del: length_drop)

declare strip_front.simps [simp del]

definition trim_start :: "string \<Rightarrow> string" where
  "trim_start s = strip_front ws_seqs s"

definition trim_end :: "string \<Rightarrow> string" where
  "trim_end s = rev (strip_front (map rev ws_seqs) (rev s))"

definition trim :: "string \<Rightarrow> string" where
  "trim s = trim_end (trim_start s)"

lemma strip_front_clean:
  "w \<in> set ws \<Longrightarrow> w \<noteq> [] \<Longrightarrow> \<not> starts_with (strip_front ws s) w"
proof (induction ws s rule: strip_front.induct)
  case (1 ws s)
  then show ?case
    by (subst strip_front.simps) (auto split: option.split simp: find_None_iff)
qed

lemma strip_front_id:
  "\<forall>w \<in> set ws. w \<noteq> [] \<longrightarrow> \<not> starts_with s w \<Longrightarrow> strip_front ws s = s"
  by (subst strip_front.simps) (auto simp: find_None_iff split: option.split dest: find_SomeD)

lemma strip_front_suffix: "\<exists>p. s = p @ strip_front ws s"
proof (induction ws s rule: strip_front.induct)
  case (1 ws s)
  show ?case
  proof (cases "List.find (\<lambda>w. w \<noteq> [] \<and> starts_with s w) ws")
    case None
    then show ?thesis by (subst strip_front.simps) simp
  next
    case (Some w)
    then have "strip_front ws s = strip_front ws (drop (length w) s)"
      by (subst strip_front.simps) simp
    with 1 [OF Some] show ?thesis
      by (metis append_assoc append_take_drop_id)
  qed
qed

lemma starts_with_prefix: "starts_with t w \<Longrightarrow> starts_with (t @ u) w"
  by (auto simp: starts_with_def) (metis length_take min.absorb_iff2 take_append)

lemma ws_seqs_nonempty: "w \<in> set ws_seqs \<Longrightarrow> w \<noteq> []"
  by (auto simp: ws_seqs_def)

lemma trim_end_prefix: "\<exists>u. s = trim_end s @ u"
proof -
  obtain p where "rev s = p @ strip_front (map rev ws_seqs) (rev s)"
    using strip_front_suffix by blast
  then have "s = rev (strip_front (map rev ws_seqs) (rev s)) @ rev p"
    by (metis rev_append rev_rev_ident)
  then show ?thesis by (auto simp: trim_end_def)
qed

lemma trim_start_clean: "w \<in> set ws_seqs \<Longrightarrow> \<not> starts_with (trim_start s) w"
  by (simp add: trim_start_def strip_front_clean ws_seqs_nonempty)

lemma trim_clean: "w \<in> set ws_seqs \<Longrightarrow> \<not> starts_with (trim s) w"
  by (metis starts_with_prefix trim_def trim_end_prefix trim_start_clean)

lemma trim_end_idem: "trim_end (trim_end s) = trim_end s"
proof -
  let ?ws = "map rev ws_seqs"
  have "\<forall>w \<in> set ?ws. w \<noteq> [] \<longrightarrow> \<not> starts_with (strip_front ?ws (rev s)) w"
    by (intro ballI impI) (rule strip_front_clean)
  then show ?thesis by (simp add: trim_end_def strip_front_id del: set_map)
qed

lemma trim_start_id: "\<forall>w \<in> set ws_seqs. \<not> starts_with s w \<Longrightarrow> trim_start s = s"
  by (simp add: trim_start_def strip_front_id)

lemma trim_idem [simp]: "trim (trim s) = trim s"
proof -
  have "trim_start (trim s) = trim s" by (simp add: trim_start_id trim_clean)
  then show ?thesis by (simp add: trim_def trim_end_idem)
qed

lemma trim_Nil [simp]: "trim [] = []"
  by (metis append_is_Nil_conv strip_front_suffix trim_def trim_end_prefix trim_start_def)

section \<open>Decimal formatting\<close>

definition digit :: "nat \<Rightarrow> char" where
  "digit d = char_of (48 + d)"

fun decimal :: "nat \<Rightarrow> string" where
  "decimal n = (if n < 10 then [digit n] else decimal (n div 10) @ [digit (n mod 10)])"

declare decimal.simps [simp del]

text \<open>\<open>{:0w}\<close>: zero padding to a total width, after the sign of a negative number.\<close>

definition pad0 :: "nat \<Rightarrow> string \<Rightarrow> string" where
  "pad0 w s = replicate (w - length s) (CHR ''0'') @ s"

definition fmt_pad :: "nat \<Rightarrow> int \<Rightarrow> string" where
  "fmt_pad w i =
     (if i < 0 then ''-'' @ pad0 (w - 1) (decimal (nat (- i))) else pad0 w (decimal (nat i)))"

text \<open>Fixed-width digits, and their agreement with the padded decimal.\<close>

primrec fixed :: "nat \<Rightarrow> nat \<Rightarrow> string" where
  "fixed 0 n = []"
| "fixed (Suc w) n = fixed w (n div 10) @ [digit (n mod 10)]"

lemma length_fixed [simp]: "length (fixed w n) = w"
  by (induction w arbitrary: n) auto

lemma fixed_0: "fixed w 0 = replicate w (CHR ''0'')"
proof (induction w)
  case (Suc w)
  have "digit 0 = CHR ''0''" by (simp add: digit_def char_of_def bit_iff_odd)
  with Suc show ?case by (simp add: replicate_append_same)
qed simp

lemma dec_fixed: "n < 10 ^ w \<Longrightarrow> 0 < w \<Longrightarrow> length (decimal n) \<le> w \<and> pad0 w (decimal n) = fixed w n"
proof (induction n arbitrary: w rule: decimal.induct)
  case (1 n)
  obtain v where w: "w = Suc v" using "1.prems" by (cases w) auto
  show ?case
  proof (cases "n < 10")
    case True
    then have "fixed w n = replicate v (CHR ''0'') @ [digit n]"
      by (simp add: w fixed_0)
    moreover have "decimal n = [digit n]" using True by (simp add: decimal.simps)
    ultimately show ?thesis by (simp add: w pad0_def)
  next
    case False
    then have d: "decimal n = decimal (n div 10) @ [digit (n mod 10)]" by (simp add: decimal.simps)
    have "n div 10 < 10 ^ v" using "1.prems" w by (simp add: less_mult_imp_div_less mult.commute)
    moreover from False this have "0 < v" by (cases v) auto
    ultimately have "length (decimal (n div 10)) \<le> v" "pad0 v (decimal (n div 10)) = fixed v (n div 10)"
      using "1.IH" False by blast+
    then show ?thesis by (simp add: d w pad0_def)
  qed
qed

lemma snoc_less_snoc:
  fixes xs ys :: "'a::order list"
  assumes "length xs = length ys"
  shows "xs @ [x] < ys @ [y] \<longleftrightarrow> xs < ys \<or> (xs = ys \<and> x < y)"
  using assms by (induction xs ys rule: list_induct2) auto

lemma append_less_append:
  fixes xs ys :: "'a::order list"
  assumes "length xs = length ys"
  shows "xs @ us < ys @ vs \<longleftrightarrow> xs < ys \<or> (xs = ys \<and> us < vs)"
  using assms by (induction xs ys rule: list_induct2) auto

lemma digit_less: "a < 10 \<Longrightarrow> b < 10 \<Longrightarrow> digit a < digit b \<longleftrightarrow> a < b"
  by (simp add: digit_def less_char_def)

lemma digit_inj: "a < 10 \<Longrightarrow> b < 10 \<Longrightarrow> digit a = digit b \<Longrightarrow> a = b"
  by (metis digit_less linorder_neq_iff)

lemma fixed_inj: "a < 10 ^ w \<Longrightarrow> b < 10 ^ w \<Longrightarrow> fixed w a = fixed w b \<Longrightarrow> a = b"
proof (induction w arbitrary: a b)
  case (Suc w)
  then have "a div 10 = b div 10"
    by (simp add: less_mult_imp_div_less mult.commute)
  moreover have "a mod 10 = b mod 10"
    using Suc.prems(3) digit_inj [of "a mod 10" "b mod 10"] by simp
  ultimately show ?case by (metis div_mult_mod_eq)
qed simp

lemma div_mod_less:
  fixes p q r t :: nat
  assumes "r < 10" "t < 10"
  shows "10 * p + r < 10 * q + t \<longleftrightarrow> p < q \<or> (p = q \<and> r < t)"
  using assms by arith

lemma fixed_less: "a < 10 ^ w \<Longrightarrow> b < 10 ^ w \<Longrightarrow> fixed w a < fixed w b \<longleftrightarrow> a < b"
proof (induction w arbitrary: a b)
  case (Suc w)
  define p q r t where defs: "p = a div 10" "q = b div 10" "r = a mod 10" "t = b mod 10"
  have bounds: "p < 10 ^ w" "q < 10 ^ w"
    using Suc.prems by (simp_all add: defs less_mult_imp_div_less mult.commute)
  have digits: "r < 10" "t < 10" by (simp_all add: defs)
  have eq: "fixed w p = fixed w q \<longleftrightarrow> p = q"
    by (auto dest: fixed_inj [OF bounds])
  have "fixed (Suc w) a = fixed w p @ [digit r]" "fixed (Suc w) b = fixed w q @ [digit t]"
    by (simp_all add: defs)
  then have "fixed (Suc w) a < fixed (Suc w) b \<longleftrightarrow> p < q \<or> (p = q \<and> r < t)"
    by (simp only: snoc_less_snoc length_fixed Suc.IH [OF bounds] eq digit_less [OF digits])
  moreover have "a = 10 * p + r" "b = 10 * q + t" by (simp_all add: defs)
  ultimately show ?case by (simp only: div_mod_less [OF digits])
qed simp

lemma less_power_10: "n < 10 ^ Suc (n + k)"
  by (induction n) auto

lemma decimal_inj: "decimal a = decimal b \<Longrightarrow> a = b"
proof -
  assume eq: "decimal a = decimal b"
  let ?w = "Suc (a + b)"
  have lt: "a < 10 ^ ?w" "b < 10 ^ ?w"
    using less_power_10 [of a b] less_power_10 [of b a] by (simp_all add: add.commute)
  then have "fixed ?w a = pad0 ?w (decimal a)" "fixed ?w b = pad0 ?w (decimal b)"
    by (simp_all add: dec_fixed del: fixed.simps)
  with eq have "fixed ?w a = fixed ?w b" by simp
  with lt show ?thesis by (intro fixed_inj)
qed

lemma decimal_eq_iff [simp]: "decimal a = decimal b \<longleftrightarrow> a = b"
  by (auto dest: decimal_inj)

lemma distinct_count_list: "distinct xs \<Longrightarrow> count_list xs x = (if x \<in> set xs then 1 else 0)"
  by (induction xs) auto

end
