(* ===== verification/Ordered_Map.thy ===== *)
theory Ordered_Map
  imports Prelude
begin

text \<open>
  The finite maps of the crates. \<open>key_map\<close> states what a client of a map relies on (what
  a lookup returns after an insert or a removal, and that the operations keep the
  representation invariant) and proves the client lemmas once; \<open>canonical_map\<close> adds that
  a map is determined by its lookups, which makes updates commute as equations.

  \<open>BTreeMap\<close> is a list of pairs strictly sorted by key, which is also its iteration order;
  \<open>binsert\<close>, \<open>bremove\<close> and \<open>map_of\<close> are \<open>insert\<close>, \<open>remove\<close> and \<open>get\<close>.
\<close>

section \<open>The interface\<close>

locale key_map =
  fixes empty :: "'m"
    and get :: "'m \<Rightarrow> 'k \<Rightarrow> 'v option"
    and ins :: "'k \<Rightarrow> 'v \<Rightarrow> 'm \<Rightarrow> 'm"
    and rem :: "'k \<Rightarrow> 'm \<Rightarrow> 'm"
    and inv :: "'m \<Rightarrow> bool"
  assumes get_empty: "get empty k = None"
    and get_ins: "inv m \<Longrightarrow> get (ins k v m) k' = (if k' = k then Some v else get m k')"
    and get_rem: "inv m \<Longrightarrow> get (rem k m) k' = (if k' = k then None else get m k')"
    and inv_empty: "inv empty"
    and inv_ins: "inv m \<Longrightarrow> inv (ins k v m)"
    and inv_rem: "inv m \<Longrightarrow> inv (rem k m)"
begin

text \<open>\<open>extend\<close>: the entries in order, later ones overwriting earlier ones.\<close>

lemma inv_fold_ins: "inv m \<Longrightarrow> inv (fold (\<lambda>(k, v). ins k v) kvs m)"
  by (induction kvs arbitrary: m) (auto simp: inv_ins)

lemma get_fold_ins:
  "inv m \<Longrightarrow> get (fold (\<lambda>(k, v). ins k v) kvs m) k =
     (case map_of (rev kvs) k of None \<Rightarrow> get m k | Some v \<Rightarrow> Some v)"
  by (induction kvs arbitrary: m)
     (auto simp: inv_ins get_ins map_add_def split: option.split)

lemma get_ins_present: "inv m \<Longrightarrow> get m k \<noteq> None \<Longrightarrow> get (ins k' v m) k \<noteq> None"
  by (simp add: get_ins)

end

locale canonical_map = key_map +
  assumes ext: "inv m \<Longrightarrow> inv m' \<Longrightarrow> (\<And>k. get m k = get m' k) \<Longrightarrow> m = m'"
begin

lemma ins_same: "inv m \<Longrightarrow> get m k = Some v \<Longrightarrow> ins k v m = m"
  by (rule ext) (auto simp: inv_ins get_ins)

lemma ins_ins: "inv m \<Longrightarrow> ins k v (ins k w m) = ins k v m"
  by (rule ext) (auto simp: inv_ins get_ins)

lemma ins_commute: "inv m \<Longrightarrow> k \<noteq> k' \<Longrightarrow> ins k v (ins k' w m) = ins k' w (ins k v m)"
  by (rule ext) (auto simp: inv_ins get_ins)

lemma rem_absent: "inv m \<Longrightarrow> get m k = None \<Longrightarrow> rem k m = m"
  by (rule ext) (auto simp: inv_rem get_rem)

lemma rem_ins: "inv m \<Longrightarrow> get m k = None \<Longrightarrow> rem k (ins k v m) = m"
  by (rule ext) (auto simp: inv_ins inv_rem get_rem get_ins)

lemma ins_rem: "inv m \<Longrightarrow> get m k = Some v \<Longrightarrow> ins k v (rem k m) = m"
  by (rule ext) (auto simp: inv_ins inv_rem get_rem get_ins)

end

section \<open>\<open>BTreeMap\<close>\<close>

type_synonym ('k, 'v) bmap = "('k \<times> 'v) list"

definition bwf :: "('k::linorder, 'v) bmap \<Rightarrow> bool" where
  "bwf m \<longleftrightarrow> sorted_wrt (<) (map fst m)"

fun binsert :: "'k::linorder \<Rightarrow> 'v \<Rightarrow> ('k, 'v) bmap \<Rightarrow> ('k, 'v) bmap" where
  "binsert k v [] = [(k, v)]"
| "binsert k v ((a, b) # m) =
     (if k < a then (k, v) # (a, b) # m
      else if k = a then (k, v) # m
      else (a, b) # binsert k v m)"

definition bremove :: "'k \<Rightarrow> ('k, 'v) bmap \<Rightarrow> ('k, 'v) bmap" where
  "bremove k m = filter (\<lambda>p. fst p \<noteq> k) m"

abbreviation bkeys :: "('k, 'v) bmap \<Rightarrow> 'k list" where
  "bkeys m \<equiv> map fst m"

definition bcontains :: "('k, 'v) bmap \<Rightarrow> 'k \<Rightarrow> bool" where
  "bcontains m k \<longleftrightarrow> k \<in> set (bkeys m)"

text \<open>\<open>BTreeMap::from_iter\<close> and \<open>extend\<close>.\<close>

definition bextend :: "('k::linorder \<times> 'v) list \<Rightarrow> ('k, 'v) bmap \<Rightarrow> ('k, 'v) bmap" where
  "bextend kvs m = fold (\<lambda>(k, v). binsert k v) kvs m"

lemma bwf_Nil [simp]: "bwf []" by (simp add: bwf_def)

lemma bwf_single [simp]: "bwf [p]" by (simp add: bwf_def)

lemma bwf_Cons: "bwf ((a, b) # m) \<longleftrightarrow> (\<forall>k \<in> set (bkeys m). a < k) \<and> bwf m"
  by (auto simp: bwf_def)

lemma bwf_distinct: "bwf m \<Longrightarrow> distinct (bkeys m)"
  by (simp add: bwf_def strict_sorted_iff)

lemma bkeys_binsert [simp]: "set (bkeys (binsert k v m)) = insert k (set (bkeys m))"
  by (induction k v m rule: binsert.induct) auto

lemma bkeys_bremove [simp]: "set (bkeys (bremove k m)) = set (bkeys m) - {k}"
  by (auto simp: bremove_def)

lemma bwf_binsert: "bwf m \<Longrightarrow> bwf (binsert k v m)"
  by (induction k v m rule: binsert.induct) (auto simp: bwf_Cons simp del: set_map)

lemma bwf_bremove: "bwf m \<Longrightarrow> bwf (bremove k m)"
  by (induction m) (auto simp: bwf_Cons bremove_def)

lemma map_of_binsert: "map_of (binsert k v m) k' = (if k' = k then Some v else map_of m k')"
  by (induction k v m rule: binsert.induct) auto

lemma map_of_bremove: "map_of (bremove k m) k' = (if k' = k then None else map_of m k')"
  by (induction m) (auto simp: bremove_def)

lemma bcontains_iff: "bcontains m k \<longleftrightarrow> map_of m k \<noteq> None"
  by (auto simp: bcontains_def map_of_eq_None_iff)

lemma bwf_ext:
  assumes "bwf m" "bwf m'" "\<And>k. map_of m k = map_of m' k"
  shows "m = m'"
proof -
  have "map_of m = map_of m'" using assms(3) by blast
  then have "set m = set m'"
    using assms(1,2) by (metis bwf_distinct map_of_inject_set)
  moreover have "sorted (bkeys m)" "sorted (bkeys m')" "distinct (bkeys m)" "distinct (bkeys m')"
    using assms(1,2) by (simp_all add: bwf_def strict_sorted_iff)
  ultimately show ?thesis
    by (intro map_sorted_distinct_set_unique [of fst]) (auto simp: distinct_map)
qed

interpretation bm: canonical_map "[]" map_of binsert bremove bwf
  by unfold_locales
     (auto simp: map_of_binsert map_of_bremove bwf_binsert bwf_bremove intro: bwf_ext)

lemmas bmap_simps = map_of_binsert map_of_bremove bcontains_iff

lemma bwf_bextend: "bwf m \<Longrightarrow> bwf (bextend kvs m)"
  by (simp add: bextend_def bm.inv_fold_ins)

lemma map_of_bextend:
  "bwf m \<Longrightarrow> map_of (bextend kvs m) k =
     (case map_of (rev kvs) k of None \<Rightarrow> map_of m k | Some v \<Rightarrow> Some v)"
  by (simp add: bextend_def bm.get_fold_ins)

lemma length_bremove: "bwf m \<Longrightarrow> map_of m k = Some v \<Longrightarrow> Suc (length (bremove k m)) = length m"
proof (induction m)
  case (Cons p m)
  obtain a b where p: "p = (a, b)" by (cases p)
  show ?case
  proof (cases "a = k")
    case True
    then have "bremove k m = m"
      using Cons.prems by (auto simp: p bwf_Cons bremove_def intro!: filter_True)
    with True show ?thesis by (simp add: p bremove_def)
  next
    case False
    with Cons show ?thesis by (simp add: p bwf_Cons bremove_def)
  qed
qed simp

lemma length_binsert:
  "bwf m \<Longrightarrow> length (binsert k v m) = (if map_of m k = None then Suc (length m) else length m)"
proof (induction m)
  case (Cons p m)
  obtain a b where p: "p = (a, b)" by (cases p)
  show ?case
  proof (cases "k < a")
    case True
    then have "map_of m k = None"
      using Cons.prems by (auto simp: p bwf_Cons map_of_eq_None_iff)
    with True show ?thesis by (simp add: p)
  next
    case False
    with Cons show ?thesis by (auto simp: p bwf_Cons)
  qed
qed simp

end
