(* ===== verification/Commands.thy ===== *)
theory Commands
  imports Prelude
begin

text \<open>
  \<open>crates/doc/src/commands.rs\<close>: the durable command ledger. Entries are append-only and
  immutable; the host evaluates each pending entry with \<open>evaluate_command\<close> and writes the
  outcome.
  The \<open>RunRequest\<close> of a \<open>Run\<close> payload is carried and never inspected here: it is the type
  parameter \<open>'req\<close>. Timestamps are \<open>i64\<close> epoch milliseconds; the one addition on them
  wraps as in the release profile (no \<open>overflow-checks\<close>).
\<close>

section \<open>Data\<close>

datatype SessionCommandKind = KRun | KSteer | KInterrupt | KRespondInput | KRespondPermission

datatype SessionCommandStatus =
  StPending | StApplied | StRejected | StExpired | StSuperseded | StCancelled

record UserInputAnswer =
  question_id :: string
  labels :: "string list"

datatype 'req SessionCommandPayload =
  PRun 'req string
| PSteer string "string option"
| PInterrupt
| PRespondInput string "UserInputAnswer list"
| PRespondPermission string string

fun payload_kind :: "'req SessionCommandPayload \<Rightarrow> SessionCommandKind" where
  "payload_kind (PRun _ _) = KRun"
| "payload_kind (PSteer _ _) = KSteer"
| "payload_kind PInterrupt = KInterrupt"
| "payload_kind (PRespondInput _ _) = KRespondInput"
| "payload_kind (PRespondPermission _ _) = KRespondPermission"

record CommandBasedOn =
  turn_id :: "string option"
  frontier :: "string option"

record 'req SessionCommandEntry =
  cmd_id :: string
  payload :: "'req SessionCommandPayload"
  issued_by :: string
  issued_at :: int
  based_on :: "CommandBasedOn option"
  expires_at :: "int option"
  cmd_status :: SessionCommandStatus
  resolution :: "string option"

definition COMMAND_DEFAULT_TTL_MS :: int where
  "COMMAND_DEFAULT_TTL_MS = 24 * 60 * 60 * 1000"

text \<open>Two's complement \<open>i64\<close>.\<close>

definition wrap_i64 :: "int \<Rightarrow> int" where
  "wrap_i64 i = (i + 2 ^ 63) mod 2 ^ 64 - 2 ^ 63"

definition entry_kind :: "'req SessionCommandEntry \<Rightarrow> SessionCommandKind" where
  "entry_kind e = payload_kind (payload e)"

definition effective_expiry :: "'req SessionCommandEntry \<Rightarrow> int" where
  "effective_expiry e =
     (case expires_at e of Some t \<Rightarrow> t
      | None \<Rightarrow> wrap_i64 (issued_at e + COMMAND_DEFAULT_TTL_MS))"

definition can_composer_cancel :: "'req SessionCommandEntry \<Rightarrow> string \<Rightarrow> bool" where
  "can_composer_cancel e device \<longleftrightarrow> cmd_status e = StPending \<and> issued_by e = device"

section \<open>Evaluation\<close>

datatype CommandDisposition = Skip | Expired | Superseded | Execute

record 'req EvaluationContext =
  is_processed :: "string \<Rightarrow> bool"
  now_ms :: int
  entries :: "'req SessionCommandEntry list"
  current_turn_id :: "string option"
  turn_is_past :: "string \<Rightarrow> bool"

definition has_newer_same_kind ::
  "'req SessionCommandEntry \<Rightarrow> 'req EvaluationContext \<Rightarrow> bool" where
  "has_newer_same_kind e cx \<longleftrightarrow>
     list_ex (\<lambda>other. cmd_id other \<noteq> cmd_id e \<and> entry_kind other = entry_kind e \<and>
       cmd_status other = StPending \<and> issued_at e < issued_at other) (entries cx)"

definition aimed_at_past_turn ::
  "'req SessionCommandEntry \<Rightarrow> 'req EvaluationContext \<Rightarrow> bool" where
  "aimed_at_past_turn e cx \<longleftrightarrow>
     (case based_on e of None \<Rightarrow> False
      | Some b \<Rightarrow> (case turn_id b of None \<Rightarrow> False
          | Some t \<Rightarrow> current_turn_id cx \<noteq> Some t \<and> turn_is_past cx t))"

definition evaluate_command ::
  "'req SessionCommandEntry \<Rightarrow> 'req EvaluationContext \<Rightarrow> CommandDisposition" where
  "evaluate_command e cx =
     (if is_processed cx (cmd_id e) then Skip
      else if effective_expiry e \<le> now_ms cx then Expired
      else if entry_kind e = KInterrupt \<and> has_newer_same_kind e cx then Superseded
      else if entry_kind e = KInterrupt \<and> aimed_at_past_turn e cx then Superseded
      else Execute)"

section \<open>Interrupt coalescing\<close>

lemma newest_exists:
  assumes "finite A" "A \<noteq> {}" "inj_on f A"
  shows "\<exists>!x. x \<in> A \<and> (\<forall>y \<in> A. f y \<le> (f x :: int))"
proof -
  have "Max (f ` A) \<in> f ` A" using assms(1,2) by simp
  then obtain x where x: "x \<in> A" "f x = Max (f ` A)" by (metis imageE)
  have top: "f y \<le> f x" if "y \<in> A" for y using that assms(1) x(2) by simp
  have "y = x" if "y \<in> A" "\<forall>z \<in> A. f z \<le> f y" for y
    using that x(1) top [OF that(1)] assms(3) by (meson antisym inj_onD)
  with x(1) top show ?thesis by blast
qed

definition pending_interrupts :: "'req EvaluationContext \<Rightarrow> 'req SessionCommandEntry list" where
  "pending_interrupts cx =
     filter (\<lambda>e. entry_kind e = KInterrupt \<and> cmd_status e = StPending) (entries cx)"

definition live :: "'req EvaluationContext \<Rightarrow> 'req SessionCommandEntry \<Rightarrow> bool" where
  "live cx e \<longleftrightarrow> \<not> is_processed cx (cmd_id e) \<and> now_ms cx < effective_expiry e \<and>
     \<not> aimed_at_past_turn e cx"

lemma interrupt_executes_iff:
  assumes "e \<in> set (pending_interrupts cx)" "live cx e" "inj_on cmd_id (set (pending_interrupts cx))"
  shows "evaluate_command e cx = Execute \<longleftrightarrow>
     (\<forall>o' \<in> set (pending_interrupts cx). issued_at o' \<le> issued_at e)"
proof -
  have "has_newer_same_kind e cx \<longleftrightarrow>
      (\<exists>o' \<in> set (pending_interrupts cx). issued_at e < issued_at o')"
    (is "_ \<longleftrightarrow> ?newer")
  proof
    assume ?newer
    then obtain o' where o': "o' \<in> set (pending_interrupts cx)" "issued_at e < issued_at o'"
      by blast
    with assms(1,3) have "cmd_id o' \<noteq> cmd_id e" by (auto dest: inj_onD)
    with o' assms(1) show "has_newer_same_kind e cx"
      by (auto simp: has_newer_same_kind_def list_ex_iff pending_interrupts_def)
  qed (use assms(1) in \<open>auto simp: has_newer_same_kind_def list_ex_iff pending_interrupts_def\<close>)
  with assms(1,2) show ?thesis
    by (auto simp: evaluate_command_def live_def pending_interrupts_def not_less not_le)
qed

text \<open>a burst of interrupts takes effect once: of the pending interrupts of a document
  (distinct ids and issue times, none processed, expired or aimed at a past turn) exactly the
  newest evaluates to \<open>Execute\<close>; the others are superseded, in whatever order they are
  listed.\<close>

theorem interrupts_coalesce:
  assumes "pending_interrupts cx \<noteq> []" "\<forall>e \<in> set (pending_interrupts cx). live cx e"
    "inj_on cmd_id (set (pending_interrupts cx))"
    "inj_on issued_at (set (pending_interrupts cx))"
  shows "\<exists>!e. e \<in> set (pending_interrupts cx) \<and> evaluate_command e cx = Execute \<and>
     (\<forall>o' \<in> set (pending_interrupts cx). o' \<noteq> e \<longrightarrow>
        issued_at o' < issued_at e \<and> evaluate_command o' cx = Superseded)"
proof -
  let ?I = "set (pending_interrupts cx)"
  obtain e where e: "e \<in> ?I" "\<forall>o' \<in> ?I. issued_at o' \<le> issued_at e"
    using newest_exists [of ?I issued_at] assms(1,4) by auto
  have older: "issued_at o' < issued_at e" if "o' \<in> ?I" "o' \<noteq> e" for o'
    using e that assms(4) by (fastforce simp: inj_on_def order_le_less)
  have lost: "evaluate_command o' cx = Superseded" if "o' \<in> ?I" "o' \<noteq> e" for o'
  proof -
    have "evaluate_command o' cx \<noteq> Execute"
      using interrupt_executes_iff [OF that(1)] assms(2,3) that(1) older [OF that] e(1) by force
    then show ?thesis
      using assms(2) that(1) by (auto simp: evaluate_command_def live_def split: if_splits)
  qed
  have "evaluate_command e cx = Execute"
    using interrupt_executes_iff [OF e(1)] assms(2,3) e by blast
  with e(1) older lost show ?thesis by (intro ex1I [of _ e]) auto
qed

definition demo_interrupt :: "string \<Rightarrow> int \<Rightarrow> nat SessionCommandEntry" where
  "demo_interrupt i t = \<lparr>cmd_id = i, payload = PInterrupt, issued_by = ''dev'', issued_at = t,
     based_on = None, expires_at = None, cmd_status = StPending, resolution = None\<rparr>"

definition demo_cx :: "nat EvaluationContext" where
  "demo_cx = \<lparr>is_processed = (\<lambda>_. False), now_ms = 9,
     entries = [demo_interrupt ''a'' 7, demo_interrupt ''b'' 8],
     current_turn_id = None, turn_is_past = (\<lambda>_. False)\<rparr>"

lemma demo_cx_interrupts:
  "pending_interrupts demo_cx = [demo_interrupt ''a'' 7, demo_interrupt ''b'' 8]"
  by (simp add: pending_interrupts_def demo_cx_def demo_interrupt_def entry_kind_def)

lemma interrupts_coalesce_witness:
  "\<exists>!e. e \<in> set (pending_interrupts demo_cx) \<and> evaluate_command e demo_cx = Execute \<and>
     (\<forall>o' \<in> set (pending_interrupts demo_cx). o' \<noteq> e \<longrightarrow>
        issued_at o' < issued_at e \<and> evaluate_command o' demo_cx = Superseded)"
proof (rule interrupts_coalesce)
  show "\<forall>e \<in> set (pending_interrupts demo_cx). live demo_cx e"
    unfolding demo_cx_interrupts
    by (simp add: demo_interrupt_def live_def demo_cx_def effective_expiry_def
        COMMAND_DEFAULT_TTL_MS_def wrap_i64_def aimed_at_past_turn_def)
qed (simp_all add: demo_cx_interrupts, simp_all add: demo_interrupt_def)

end
