(* ===== verification/Command_Drain.thy ===== *)
theory Command_Drain
  imports Commands
begin

text \<open>
  The host's command executor, \<open>crates/engine/src/doc_host.rs\<close>: \<open>drain_commands\<close> and
  \<open>ingest_relayed_command\<close>, with the processed ledger of \<open>crates/sync/src/store.rs\<close>.

  \<open>drain_commands\<close> is a loop that reads the clock, the transcript and the ledger anew on
  every turn; \<open>drain_env\<close> gives what the \<open>n\<close>-th turn reads, and what the parts of the engine
  that are not modelled answer: whether the attachments of an entry are missing, whether a
  ledger read or write fails, and the outcome \<open>execute\<close> returns (an \<open>Err\<close> is already the
  \<open>Rejected\<close> outcome the loop maps it to). \<open>exec_log\<close> is a ghost: the ids handed to
  \<open>execute\<close>, in order.

  The loop runs on fuel, one unit per turn; \<open>drain_returns\<close> shows how much is enough.
\<close>

section \<open>The ledger and the outcome write\<close>

record 'req drain_state =
  doc_cmds :: "'req SessionCommandEntry list"
  ledger :: "string list"
  executing :: "string list"
  skipped :: "string list"
  exec_log :: "string list"

record 'req drain_env =
  clock :: "nat \<Rightarrow> int"
  message_ids :: "nat \<Rightarrow> string list"
  missing :: "nat \<Rightarrow> 'req SessionCommandEntry \<Rightarrow> bool"
  read_ok :: "nat \<Rightarrow> string \<Rightarrow> bool"
  write_ok :: "nat \<Rightarrow> string \<Rightarrow> bool"
  run_outcome :: "'req SessionCommandEntry \<Rightarrow> SessionCommandStatus \<times> string option"

definition ATTACHMENT_WAIT_MAX_MS :: int where
  "ATTACHMENT_WAIT_MAX_MS = 15 * 60 * 1000"

definition sat_sub_i64 :: "int \<Rightarrow> int \<Rightarrow> int" where
  "sat_sub_i64 a b = max (- (2 ^ 63)) (min (2 ^ 63 - 1) (a - b))"

text \<open>\<open>is_processed(id).unwrap_or(false)\<close>: a failed read answers \<open>false\<close>.\<close>

definition ledger_read :: "'req drain_env \<Rightarrow> nat \<Rightarrow> string list \<Rightarrow> string \<Rightarrow> bool" where
  "ledger_read env n l i \<longleftrightarrow> read_ok env n i \<and> i \<in> set l"

text \<open>\<open>INSERT OR IGNORE\<close>: the new ledger, and whether this call claimed the id.\<close>

definition mark_processed :: "string \<Rightarrow> string list \<Rightarrow> string list \<times> bool" where
  "mark_processed i l = (if i \<in> set l then (l, False) else (l @ [i], True))"

text \<open>\<open>set_command_status\<close> writes the first entry with the id, and fails when none has it.\<close>

fun set_command_status ::
  "string \<Rightarrow> SessionCommandStatus \<Rightarrow> string option \<Rightarrow>
   'req SessionCommandEntry list \<Rightarrow> 'req SessionCommandEntry list option" where
  "set_command_status i st r [] = None"
| "set_command_status i st r (e # es) =
     (if cmd_id e = i
      then Some (e\<lparr>cmd_status := st,
                   resolution := (case r of None \<Rightarrow> resolution e | Some _ \<Rightarrow> r)\<rparr> # es)
      else map_option ((#) e) (set_command_status i st r es))"

definition resolve_command ::
  "string \<Rightarrow> SessionCommandStatus \<Rightarrow> string option \<Rightarrow> 'req drain_state \<Rightarrow> 'req drain_state" where
  "resolve_command i st r s =
     (case set_command_status i st r (doc_cmds s) of
        None \<Rightarrow> s
      | Some es \<Rightarrow> s\<lparr>doc_cmds := es\<rparr>)"

text \<open>An appended row carries no resolution yet.\<close>

definition queue_command :: "'req SessionCommandEntry \<Rightarrow> 'req drain_state \<Rightarrow> 'req drain_state" where
  "queue_command e s = s\<lparr>doc_cmds := doc_cmds s @ [e\<lparr>resolution := None\<rparr>]\<rparr>"

definition interrupted_resolution :: string where
  "interrupted_resolution =
     ''interrupted before completion '' @ [CHR 0xE2, CHR 0x80, CHR 0x94] @
     '' retry to send again''"

section \<open>One turn of the drain loop\<close>

text \<open>The sweep of entries that are consumed but were never resolved.\<close>

definition sweep_one ::
  "'req drain_env \<Rightarrow> nat \<Rightarrow> 'req SessionCommandEntry \<Rightarrow> 'req drain_state \<Rightarrow> 'req drain_state" where
  "sweep_one env n c s =
     (if cmd_status c = StPending \<and> cmd_id c \<notin> set (skipped s) \<and>
         ledger_read env n (ledger s) (cmd_id c) \<and> cmd_id c \<notin> set (executing s)
      then (let s' = resolve_command (cmd_id c) StRejected (Some interrupted_resolution) s
            in s'\<lparr>skipped := cmd_id c # skipped s'\<rparr>)
      else s)"

definition sweep :: "'req drain_env \<Rightarrow> nat \<Rightarrow> 'req drain_state \<Rightarrow> 'req drain_state" where
  "sweep env n s = fold (sweep_one env n) (doc_cmds s) s"

definition eligible ::
  "'req drain_env \<Rightarrow> nat \<Rightarrow> 'req drain_state \<Rightarrow> 'req SessionCommandEntry \<Rightarrow> bool" where
  "eligible env n s c \<longleftrightarrow> cmd_status c = StPending \<and> cmd_id c \<notin> set (skipped s) \<and>
     \<not> ledger_read env n (ledger s) (cmd_id c)"

definition drain_context ::
  "'req drain_env \<Rightarrow> nat \<Rightarrow> 'req SessionCommandEntry list \<Rightarrow> 'req drain_state \<Rightarrow>
   'req EvaluationContext" where
  "drain_context env n cmds s =
     \<lparr>is_processed = ledger_read env n (ledger s), now_ms = clock env n, entries = cmds,
      current_turn_id = (if message_ids env n = [] then None else Some (last (message_ids env n))),
      turn_is_past = (\<lambda>t. t \<in> set (message_ids env n))\<rparr>"

datatype 's turn = Return 's | Continue 's

text \<open>\<open>outcome\<close> is the \<open>match disposition\<close> of the loop, after the mark.\<close>

definition outcome ::
  "'req drain_env \<Rightarrow> 'req SessionCommandEntry \<Rightarrow> CommandDisposition \<Rightarrow>
   'req drain_state \<Rightarrow> 'req drain_state" where
  "outcome env e d s =
     (case d of
        Skip \<Rightarrow> s\<lparr>skipped := cmd_id e # skipped s\<rparr>
      | Expired \<Rightarrow> resolve_command (cmd_id e) StExpired None s
      | Superseded \<Rightarrow> resolve_command (cmd_id e) StSuperseded None s
      | Execute \<Rightarrow>
          (case run_outcome env e of (st, r) \<Rightarrow>
             resolve_command (cmd_id e) st r (s\<lparr>exec_log := exec_log s @ [cmd_id e]\<rparr>)))"

definition claim_and_run ::
  "'req drain_env \<Rightarrow> nat \<Rightarrow> 'req SessionCommandEntry \<Rightarrow> CommandDisposition \<Rightarrow>
   'req drain_state \<Rightarrow> 'req drain_state turn" where
  "claim_and_run env n e d s =
     (if cmd_id e \<in> set (executing s)
      then Continue (s\<lparr>skipped := cmd_id e # skipped s\<rparr>)
      else if \<not> write_ok env n (cmd_id e) then Return s
      else
        (let s1 = s\<lparr>executing := cmd_id e # executing s,
                    ledger := fst (mark_processed (cmd_id e) (ledger s))\<rparr>;
             s2 = outcome env e d s1
         in Continue (s2\<lparr>executing := removeAll (cmd_id e) (executing s2)\<rparr>)))"

definition drain_turn ::
  "'req drain_env \<Rightarrow> nat \<Rightarrow> 'req drain_state \<Rightarrow> 'req drain_state turn" where
  "drain_turn env n s0 =
     (let cmds = doc_cmds s0; s = sweep env n s0 in
      case List.find (eligible env n s) cmds of
        None \<Rightarrow> Return s
      | Some e \<Rightarrow>
          (let d = evaluate_command e (drain_context env n cmds s) in
           if d = Execute \<and> missing env n e then
             (if sat_sub_i64 (clock env n) (issued_at e) < ATTACHMENT_WAIT_MAX_MS
              then Return s
              else if \<not> write_ok env n (cmd_id e) then Return s
              else Continue
                (resolve_command (cmd_id e) StRejected (Some ''attachments never arrived'')
                  (s\<lparr>ledger := fst (mark_processed (cmd_id e) (ledger s))\<rparr>)))
           else claim_and_run env n e d s))"

fun drain_loop ::
  "'req drain_env \<Rightarrow> nat \<Rightarrow> nat \<Rightarrow> 'req drain_state \<Rightarrow> 'req drain_state option" where
  "drain_loop env n 0 s = None"
| "drain_loop env n (Suc fuel) s =
     (case drain_turn env n s of
        Return s' \<Rightarrow> Some s'
      | Continue s' \<Rightarrow> drain_loop env (Suc n) fuel s')"

text \<open>A pass starts with an empty \<open>skipped\<close> set and only on the chat's host with a wired,
  admitting executor.\<close>

definition drain_commands ::
  "bool \<Rightarrow> 'req drain_env \<Rightarrow> nat \<Rightarrow> 'req drain_state \<Rightarrow> 'req drain_state option" where
  "drain_commands may_drain env fuel s =
     (if \<not> may_drain then Some s else drain_loop env 0 fuel (s\<lparr>skipped := []\<rparr>))"

text \<open>A crash keeps what is durable: the document and the ledger.\<close>

definition crash :: "'req drain_state \<Rightarrow> 'req drain_state" where
  "crash s = s\<lparr>executing := [], skipped := []\<rparr>"

section \<open>The relayed road\<close>

datatype relay_reply = Duplicate | ReplyExpired | ReplySuperseded | Executed | RelayError

definition ingest_relayed_command ::
  "'req drain_env \<Rightarrow> nat \<Rightarrow> bool \<Rightarrow> 'req SessionCommandEntry \<Rightarrow> 'req drain_state \<Rightarrow>
   relay_reply \<times> 'req drain_state" where
  "ingest_relayed_command env n exec_ok e s =
     (if missing env n e then (RelayError, s)
      else
        (let d = evaluate_command e (drain_context env n (doc_cmds s) s) in
         if d = Skip then (Duplicate, s)
         else if cmd_id e \<in> set (executing s) then (Duplicate, s)
         else if \<not> write_ok env n (cmd_id e) then (RelayError, s)
         else
           (case mark_processed (cmd_id e) (ledger s) of (l, claimed) \<Rightarrow>
              (let s1 = s\<lparr>ledger := l\<rparr> in
               if \<not> claimed then (Duplicate, s1)
               else case d of
                  Skip \<Rightarrow> (Duplicate, s1)
                | Expired \<Rightarrow> (ReplyExpired, s1)
                | Superseded \<Rightarrow> (ReplySuperseded, s1)
                | Execute \<Rightarrow>
                    (if exec_ok then Executed else RelayError,
                     s1\<lparr>exec_log := exec_log s1 @ [cmd_id e]\<rparr>)))))"

section \<open>Frame and measure lemmas\<close>

named_theorems drain_simps \<open>what the steps of a drain turn leave alone\<close>

lemma set_command_status_ids:
  "set_command_status i st r es = Some es' \<Longrightarrow> map cmd_id es' = map cmd_id es"
  by (induction es arbitrary: es') (auto split: if_splits)

lemma set_command_status_other:
  "set_command_status i st r es = Some es' \<Longrightarrow> c \<in> set es' \<Longrightarrow> cmd_id c \<noteq> i \<Longrightarrow> c \<in> set es"
  by (induction es arbitrary: es') (auto split: if_splits)

lemma set_command_status_keep:
  "set_command_status i st r es = Some es' \<Longrightarrow> c \<in> set es \<Longrightarrow> cmd_id c \<noteq> i \<Longrightarrow> c \<in> set es'"
  by (induction es arbitrary: es') (auto split: if_splits)

lemma set_command_status_hit:
  "i \<in> cmd_id ` set es \<Longrightarrow>
     \<exists>es' c. set_command_status i st r es = Some es' \<and> c \<in> set es' \<and>
       cmd_id c = i \<and> cmd_status c = st"
proof (induction es)
  case (Cons e es)
  show ?case
  proof (cases "cmd_id e = i")
    case True
    then show ?thesis by auto
  next
    case False
    with Cons show ?thesis by force
  qed
qed simp

lemma resolve_frame [drain_simps]:
  "ledger (resolve_command i st r s) = ledger s"
  "executing (resolve_command i st r s) = executing s"
  "skipped (resolve_command i st r s) = skipped s"
  "exec_log (resolve_command i st r s) = exec_log s"
  by (simp_all add: resolve_command_def split: option.split)

lemma resolve_ids [drain_simps]:
  "map cmd_id (doc_cmds (resolve_command i st r s)) = map cmd_id (doc_cmds s)"
  by (auto simp: resolve_command_def set_command_status_ids split: option.split)

lemma resolve_other:
  "c \<in> set (doc_cmds (resolve_command i st r s)) \<Longrightarrow> cmd_id c \<noteq> i \<Longrightarrow> c \<in> set (doc_cmds s)"
  by (auto simp: resolve_command_def split: option.splits intro: set_command_status_other)

lemma resolve_keep:
  "c \<in> set (doc_cmds s) \<Longrightarrow> cmd_id c \<noteq> i \<Longrightarrow> c \<in> set (doc_cmds (resolve_command i st r s))"
  by (auto simp: resolve_command_def split: option.splits intro: set_command_status_keep)

lemma resolve_hit:
  assumes "i \<in> cmd_id ` set (doc_cmds s)"
  shows "\<exists>c \<in> set (doc_cmds (resolve_command i st r s)). cmd_id c = i \<and> cmd_status c = st"
  using set_command_status_hit [OF assms, of st r] by (auto simp: resolve_command_def)

text \<open>The pending ids of a document, and those a pass still has to handle.\<close>

definition pending_ids :: "'req drain_state \<Rightarrow> string set" where
  "pending_ids s = {cmd_id c | c. c \<in> set (doc_cmds s) \<and> cmd_status c = StPending}"

lemma pending_ids_frame [drain_simps]:
  "pending_ids (s\<lparr>ledger := l\<rparr>) = pending_ids s"
  "pending_ids (s\<lparr>executing := x\<rparr>) = pending_ids s"
  "pending_ids (s\<lparr>skipped := x\<rparr>) = pending_ids s"
  "pending_ids (s\<lparr>exec_log := x\<rparr>) = pending_ids s"
  by (simp_all add: pending_ids_def)

definition open_ids :: "'req drain_state \<Rightarrow> string set" where
  "open_ids s = pending_ids s - set (skipped s) - set (ledger s)"

lemma finite_open_ids [simp]: "finite (open_ids s)"
  by (simp add: open_ids_def pending_ids_def)

lemma pending_resolve:
  "i' \<in> pending_ids (resolve_command i st r s) \<Longrightarrow> i' \<noteq> i \<Longrightarrow> i' \<in> pending_ids s"
  unfolding pending_ids_def by (auto dest: resolve_other)

text \<open>A sweep only touches ids the ledger holds.\<close>

lemma sweep_one_frame [drain_simps]:
  "ledger (sweep_one env n c s) = ledger s"
  "executing (sweep_one env n c s) = executing s"
  "exec_log (sweep_one env n c s) = exec_log s"
  "map cmd_id (doc_cmds (sweep_one env n c s)) = map cmd_id (doc_cmds s)"
  by (simp_all add: sweep_one_def Let_def drain_simps)

lemma fold_frame:
  assumes "\<And>c s. f (g c s) = f s"
  shows "f (fold g cs s) = f s"
  using assms by (induction cs arbitrary: s) simp_all

lemma sweep_frame [drain_simps]:
  "ledger (sweep env n s) = ledger s"
  "executing (sweep env n s) = executing s"
  "exec_log (sweep env n s) = exec_log s"
  "map cmd_id (doc_cmds (sweep env n s)) = map cmd_id (doc_cmds s)"
  unfolding sweep_def by (rule fold_frame, simp add: drain_simps)+

lemma sweep_one_skipped:
  "set (skipped s) \<subseteq> set (skipped (sweep_one env n c s)) \<and>
   set (skipped (sweep_one env n c s)) \<subseteq> set (skipped s) \<union> set (ledger s)"
  by (auto simp: sweep_one_def Let_def drain_simps ledger_read_def)

lemma fold_sweep_skipped:
  "set (skipped s) \<subseteq> set (skipped (fold (sweep_one env n) cs s)) \<and>
   set (skipped (fold (sweep_one env n) cs s)) \<subseteq> set (skipped s) \<union> set (ledger s)"
proof (induction cs arbitrary: s)
  case (Cons c cs)
  from Cons [of "sweep_one env n c s"] sweep_one_skipped [of s env n c]
  show ?case by (auto simp: drain_simps)
qed simp

lemma sweep_skipped:
  "set (skipped s) \<subseteq> set (skipped (sweep env n s))"
  "set (skipped (sweep env n s)) \<subseteq> set (skipped s) \<union> set (ledger s)"
  using fold_sweep_skipped [of s env n "doc_cmds s"] by (auto simp: sweep_def)

lemma sweep_one_keep:
  "c \<in> set (doc_cmds s) \<Longrightarrow> cmd_id c \<notin> set (ledger s) \<Longrightarrow>
   c \<in> set (doc_cmds (sweep_one env n d s))"
  by (auto simp: sweep_one_def Let_def ledger_read_def intro!: resolve_keep)

lemma fold_sweep_keep:
  "c \<in> set (doc_cmds s) \<Longrightarrow> cmd_id c \<notin> set (ledger s) \<Longrightarrow>
   c \<in> set (doc_cmds (fold (sweep_one env n) cs s))"
  by (induction cs arbitrary: s) (simp_all add: sweep_one_keep drain_simps)

lemma sweep_keep:
  "c \<in> set (doc_cmds s) \<Longrightarrow> cmd_id c \<notin> set (ledger s) \<Longrightarrow>
   c \<in> set (doc_cmds (sweep env n s))"
  by (simp add: sweep_def fold_sweep_keep)

lemma pending_sweep_one:
  "i \<in> pending_ids (sweep_one env n c s) \<Longrightarrow> i \<notin> set (ledger s) \<Longrightarrow> i \<in> pending_ids s"
proof -
  assume a: "i \<in> pending_ids (sweep_one env n c s)" "i \<notin> set (ledger s)"
  show "i \<in> pending_ids s"
  proof (cases "sweep_one env n c s = s")
    case False
    then have "cmd_id c \<in> set (ledger s)"
      by (auto simp: sweep_one_def ledger_read_def split: if_splits)
    with a False have "i \<in> pending_ids (resolve_command (cmd_id c) StRejected (Some interrupted_resolution) s)"
      "i \<noteq> cmd_id c"
      by (auto simp: sweep_one_def Let_def pending_ids_def split: if_splits)
    then show ?thesis by (rule pending_resolve)
  qed (use a in simp)
qed

lemma pending_fold_sweep:
  "i \<in> pending_ids (fold (sweep_one env n) cs s) \<Longrightarrow> i \<notin> set (ledger s) \<Longrightarrow> i \<in> pending_ids s"
proof (induction cs arbitrary: s)
  case (Cons c cs)
  then have "i \<in> pending_ids (sweep_one env n c s)" by (simp add: drain_simps)
  then show ?case using Cons.prems(2) by (rule pending_sweep_one)
qed simp

lemma open_sweep: "open_ids (sweep env n s) \<subseteq> open_ids s"
  using sweep_skipped(1) [of s env n]
  by (auto simp: open_ids_def drain_simps sweep_def [symmetric]
      dest: pending_fold_sweep [where s = s and env = env and n = n and cs = "doc_cmds s",
        folded sweep_def])

section \<open>One turn\<close>

definition reads_ok :: "'req drain_env \<Rightarrow> bool" where
  "reads_ok env \<longleftrightarrow> (\<forall>n i. read_ok env n i)"

definition writes_ok :: "'req drain_env \<Rightarrow> bool" where
  "writes_ok env \<longleftrightarrow> (\<forall>n i. write_ok env n i)"

lemma ledger_read_iff: "reads_ok env \<Longrightarrow> ledger_read env n l i \<longleftrightarrow> i \<in> set l"
  by (simp add: reads_ok_def ledger_read_def)

lemma mark_processed_set [drain_simps]: "set (fst (mark_processed i l)) = insert i (set l)"
  by (auto simp: mark_processed_def)

lemma outcome_frame [drain_simps]:
  "ledger (outcome env e d s) = ledger s"
  "executing (outcome env e d s) = executing s"
  "set (skipped s) \<subseteq> set (skipped (outcome env e d s))"
  "exec_log (outcome env e d s) = exec_log s @ (if d = Execute then [cmd_id e] else [])"
  by (auto simp: outcome_def drain_simps split: CommandDisposition.split prod.split)

lemma pending_outcome:
  "i \<in> pending_ids (outcome env e d s) \<Longrightarrow> i \<noteq> cmd_id e \<Longrightarrow> i \<in> pending_ids s"
  by (cases d; cases "run_outcome env e")
     (auto simp: outcome_def drain_simps dest!: pending_resolve)

lemma outcome_keep:
  "c \<in> set (doc_cmds s) \<Longrightarrow> cmd_id c \<noteq> cmd_id e \<Longrightarrow> c \<in> set (doc_cmds (outcome env e d s))"
  by (cases d; cases "run_outcome env e") (auto simp: outcome_def intro!: resolve_keep)

text \<open>What a continuing turn did: the entry it took, and the state it left.\<close>

lemma drain_turn_ContinueE:
  assumes "drain_turn env n s0 = Continue s'"
  obtains e s d where
    "s = sweep env n s0" "e \<in> set (doc_cmds s0)" "eligible env n s e"
    "d = evaluate_command e (drain_context env n (doc_cmds s0) s)"
    "(d = Execute \<and> missing env n e \<and>
        s' = resolve_command (cmd_id e) StRejected (Some ''attachments never arrived'')
               (s\<lparr>ledger := fst (mark_processed (cmd_id e) (ledger s))\<rparr>)) \<or>
     (\<not> (d = Execute \<and> missing env n e) \<and> cmd_id e \<in> set (executing s) \<and>
        s' = s\<lparr>skipped := cmd_id e # skipped s\<rparr>) \<or>
     (\<not> (d = Execute \<and> missing env n e) \<and> cmd_id e \<notin> set (executing s) \<and>
        s' = (let s2 = outcome env e d (s\<lparr>executing := cmd_id e # executing s,
                ledger := fst (mark_processed (cmd_id e) (ledger s))\<rparr>)
              in s2\<lparr>executing := removeAll (cmd_id e) (executing s2)\<rparr>))"
proof -
  let ?s = "sweep env n s0"
  obtain e where find: "List.find (eligible env n ?s) (doc_cmds s0) = Some e"
    using assms by (cases "List.find (eligible env n ?s) (doc_cmds s0)") (auto simp: drain_turn_def)
  from find_SomeD [OF find] have e: "e \<in> set (doc_cmds s0)" "eligible env n ?s e" by auto
  show thesis
    using assms find
    by (intro that [OF refl e refl])
       (auto simp: drain_turn_def claim_and_run_def Let_def split: if_splits)
qed

text \<open>A continuing turn handles one open id and opens none.\<close>

lemma drain_turn_open:
  assumes "reads_ok env" "drain_turn env n s0 = Continue s'"
  shows "open_ids s' \<subset> open_ids s0"
  using assms(2)
proof (cases rule: drain_turn_ContinueE)
  case (1 e s d)
  have e_open: "cmd_id e \<in> open_ids s0"
    using 1(2,3) assms(1) sweep_skipped(1) [of s0 env n]
    by (auto simp: 1(1) open_ids_def pending_ids_def eligible_def ledger_read_iff drain_simps)
  have "open_ids s' \<subseteq> open_ids s - {cmd_id e}"
    using 1(5)
  proof (elim disjE conjE)
    assume "s' = resolve_command (cmd_id e) StRejected (Some ''attachments never arrived'')
      (s\<lparr>ledger := fst (mark_processed (cmd_id e) (ledger s))\<rparr>)"
    then show ?thesis
      by (auto simp: open_ids_def drain_simps dest!: pending_resolve)
  next
    assume "s' = s\<lparr>skipped := cmd_id e # skipped s\<rparr>"
    then show ?thesis by (auto simp: open_ids_def drain_simps)
  next
    let ?s1 = "s\<lparr>executing := cmd_id e # executing s,
                ledger := fst (mark_processed (cmd_id e) (ledger s))\<rparr>"
    assume s': "s' = (let s2 = outcome env e d ?s1
              in s2\<lparr>executing := removeAll (cmd_id e) (executing s2)\<rparr>)"
    show ?thesis
    proof
      fix i assume i: "i \<in> open_ids s'"
      then have "i \<noteq> cmd_id e" "i \<notin> set (ledger s)" "i \<notin> set (skipped s)"
        "i \<in> pending_ids (outcome env e d ?s1)"
        using outcome_frame(3) [of ?s1 env e d]
        by (auto simp: s' Let_def open_ids_def drain_simps)
      moreover from this have "i \<in> pending_ids s"
        by (auto dest!: pending_outcome simp: drain_simps)
      ultimately show "i \<in> open_ids s - {cmd_id e}" by (simp add: open_ids_def)
    qed
  qed
  with e_open open_sweep [of env n s0] 1(1) show ?thesis by blast
qed

text \<open>No id is handed to \<open>execute\<close> twice, and an executed id is in the ledger.\<close>

definition once :: "'req drain_state \<Rightarrow> bool" where
  "once s \<longleftrightarrow> distinct (exec_log s) \<and> set (exec_log s) \<subseteq> set (ledger s)"

lemma sweep_once: "once (sweep env n s) = once s"
  by (simp add: once_def drain_simps)

lemma drain_turn_once_Continue:
  assumes "reads_ok env" "drain_turn env n s0 = Continue s'" "once s0"
  shows "once s'"
  using assms(2)
proof (cases rule: drain_turn_ContinueE)
  case (1 e s d)
  have s: "once s" "cmd_id e \<notin> set (ledger s)"
    using 1(1,3) assms(1,3) by (auto simp: sweep_once eligible_def ledger_read_iff)
  show ?thesis
    using 1(5) s by (auto simp: once_def drain_simps Let_def)
qed

lemma drain_turn_once_Return:
  "drain_turn env n s0 = Return s' \<Longrightarrow> once s0 \<Longrightarrow> once s'"
  by (auto simp: drain_turn_def claim_and_run_def Let_def sweep_once split: option.splits if_splits)

section \<open>A whole pass\<close>

lemma drain_loop_once:
  "reads_ok env \<Longrightarrow> once s \<Longrightarrow> drain_loop env n fuel s = Some s' \<Longrightarrow> once s'"
proof (induction env n fuel s rule: drain_loop.induct)
  case (2 env n fuel s)
  then show ?case
    by (cases "drain_turn env n s")
       (auto dest: drain_turn_once_Return drain_turn_once_Continue)
qed simp

lemma drain_loop_returns:
  "reads_ok env \<Longrightarrow> card (open_ids s) < fuel \<Longrightarrow> \<exists>s'. drain_loop env n fuel s = Some s'"
proof (induction env n fuel s rule: drain_loop.induct)
  case (2 env n fuel s)
  show ?case
  proof (cases "drain_turn env n s")
    case (Continue s')
    then have "card (open_ids s') < card (open_ids s)"
      using 2(2) by (intro psubset_card_mono drain_turn_open) auto
    with 2 Continue show ?thesis by simp
  qed simp
qed simp

lemma open_ids_bound: "card (open_ids s) \<le> length (doc_cmds s)"
proof -
  have "open_ids s \<subseteq> cmd_id ` set (doc_cmds s)"
    by (auto simp: open_ids_def pending_ids_def)
  then have "card (open_ids s) \<le> card (cmd_id ` set (doc_cmds s))"
    by (intro card_mono) auto
  also have "\<dots> \<le> length (doc_cmds s)"
    by (metis card_image_le card_length le_trans List.finite_set)
  finally show ?thesis .
qed

section \<open>What a pass leaves behind\<close>

text \<open>Between turns nothing is in flight, and a skipped id is one the ledger holds.\<close>

definition quiet :: "'req drain_state \<Rightarrow> bool" where
  "quiet s \<longleftrightarrow> executing s = [] \<and> set (skipped s) \<subseteq> set (ledger s)"

lemma sweep_quiet: "quiet s \<Longrightarrow> quiet (sweep env n s)"
  using sweep_skipped(2) [of env n s] by (auto simp: quiet_def drain_simps)

lemma outcome_skipped: "set (skipped (outcome env e d s)) \<subseteq> insert (cmd_id e) (set (skipped s))"
  by (auto simp: outcome_def drain_simps split: CommandDisposition.splits prod.splits)

lemma drain_turn_quiet:
  assumes "drain_turn env n s0 = Continue s'" "quiet s0"
  shows "quiet s'"
  using assms(1)
proof (cases rule: drain_turn_ContinueE)
  case (1 e s d)
  have "quiet s" using 1(1) assms(2) by (simp add: sweep_quiet)
  with 1(5) show ?thesis
    by (auto simp: quiet_def drain_simps Let_def dest!: outcome_skipped [THEN subsetD]) blast+
qed

text \<open>With working storage and all attachments present, a pass stops only when nothing is
  open.\<close>

definition clear_env :: "'req drain_env \<Rightarrow> bool" where
  "clear_env env \<longleftrightarrow> reads_ok env \<and> writes_ok env \<and> (\<forall>n e. \<not> missing env n e)"

lemma drain_turn_Return_clear:
  assumes "clear_env env" "quiet s0" "drain_turn env n s0 = Return s'"
  shows "s' = sweep env n s0" "\<forall>c \<in> set (doc_cmds s0). \<not> eligible env n s' c"
proof -
  have none: "List.find (eligible env n (sweep env n s0)) (doc_cmds s0) = None"
  proof (cases "List.find (eligible env n (sweep env n s0)) (doc_cmds s0)")
    case (Some e)
    with assms show ?thesis
      by (auto simp: drain_turn_def claim_and_run_def Let_def clear_env_def writes_ok_def
          split: if_splits)
  qed simp
  then show "s' = sweep env n s0" using assms(3) by (simp add: drain_turn_def)
  with none show "\<forall>c \<in> set (doc_cmds s0). \<not> eligible env n s' c"
    by (simp add: find_None_iff)
qed

lemma drain_turn_Return_settled:
  assumes "clear_env env" "quiet s0" "drain_turn env n s0 = Return s'"
  shows "pending_ids s' \<subseteq> set (ledger s')"
proof
  fix i assume i: "i \<in> pending_ids s'"
  note s' = drain_turn_Return_clear [OF assms]
  have quiet: "quiet s'" using s'(1) assms(2) by (simp add: sweep_quiet)
  show "i \<in> set (ledger s')"
  proof (rule ccontr)
    assume no: "i \<notin> set (ledger s')"
    then have "i \<in> pending_ids s0"
      using i pending_fold_sweep [of i env n "doc_cmds s0" s0]
      by (simp add: s'(1) sweep_def [symmetric] drain_simps)
    then obtain c where "c \<in> set (doc_cmds s0)" "cmd_id c = i" "cmd_status c = StPending"
      by (auto simp: pending_ids_def)
    with s'(2) no quiet show False
      using assms(1) by (auto simp: eligible_def quiet_def clear_env_def ledger_read_iff)
  qed
qed

lemma drain_loop_settled:
  "clear_env env \<Longrightarrow> quiet s \<Longrightarrow> drain_loop env n fuel s = Some s' \<Longrightarrow>
     pending_ids s' \<subseteq> set (ledger s')"
proof (induction env n fuel s rule: drain_loop.induct)
  case (2 env n fuel s)
  then show ?case
    by (cases "drain_turn env n s")
       (auto dest: drain_turn_quiet drain_turn_Return_settled)
qed simp

text \<open>A user prompt is not lost: it stays in the document, untouched and unclaimed, until it
  is executed.\<close>

definition tracked :: "'req SessionCommandEntry \<Rightarrow> 'req drain_state \<Rightarrow> bool" where
  "tracked e s \<longleftrightarrow> (e \<in> set (doc_cmds s) \<and> cmd_id e \<notin> set (ledger s)) \<or>
     cmd_id e \<in> set (exec_log s)"

definition prompt :: "'req drain_env \<Rightarrow> 'req SessionCommandEntry \<Rightarrow> bool" where
  "prompt env e \<longleftrightarrow> entry_kind e \<noteq> KInterrupt \<and> (\<forall>n. clock env n < effective_expiry e)"

lemma same_id_same_entry:
  "distinct (map cmd_id es) \<Longrightarrow> c \<in> set es \<Longrightarrow> e \<in> set es \<Longrightarrow> cmd_id c = cmd_id e \<Longrightarrow> c = e"
  by (auto simp: distinct_map inj_on_def)

lemma drain_turn_ids:
  assumes "drain_turn env n s0 = Continue s'"
  shows "map cmd_id (doc_cmds s') = map cmd_id (doc_cmds s0)"
  using assms
proof (cases rule: drain_turn_ContinueE)
  case (1 e s d)
  have "\<And>x. map cmd_id (doc_cmds (outcome env e d x)) = map cmd_id (doc_cmds x)"
    by (cases d; cases "run_outcome env e") (simp_all add: outcome_def drain_simps)
  with 1(1,5) show ?thesis by (auto simp: drain_simps Let_def)
qed

lemma prompt_executes:
  assumes "prompt env e" "\<not> is_processed cx (cmd_id e)" "now_ms cx = clock env n"
  shows "evaluate_command e cx = Execute"
proof -
  from assms(1) have "\<not> effective_expiry e \<le> clock env n" "entry_kind e \<noteq> KInterrupt"
    by (simp_all add: prompt_def not_le)
  with assms(2,3) show ?thesis by (simp add: evaluate_command_def)
qed

lemma drain_turn_tracked:
  assumes "drain_turn env n s0 = Continue s'" "clear_env env" "quiet s0"
    "distinct (map cmd_id (doc_cmds s0))" "prompt env e" "tracked e s0"
  shows "tracked e s'"
  using assms(1)
proof (cases rule: drain_turn_ContinueE)
  case (1 c s d)
  have s: "quiet s" "\<not> missing env n c"
    using 1(1) assms(2,3) by (simp_all add: sweep_quiet clear_env_def)
  let ?s1 = "s\<lparr>executing := cmd_id c # executing s,
                ledger := fst (mark_processed (cmd_id c) (ledger s))\<rparr>"
  from s 1(5) have s': "s' = (outcome env c d ?s1)
      \<lparr>executing := removeAll (cmd_id c) (executing (outcome env c d ?s1))\<rparr>"
    by (auto simp: quiet_def Let_def)
  show ?thesis
  proof (cases "cmd_id e \<in> set (exec_log s0)")
    case True
    then show ?thesis by (simp add: tracked_def s' drain_simps 1(1))
  next
    case False
    then have e: "e \<in> set (doc_cmds s0)" "cmd_id e \<notin> set (ledger s0)"
      using assms(6) by (auto simp: tracked_def)
    show ?thesis
    proof (cases "cmd_id c = cmd_id e")
      case True
      then have "c = e" using same_id_same_entry [OF assms(4) 1(2) e(1)] by simp
      have "d = evaluate_command e (drain_context env n (doc_cmds s0) s)"
        using 1(4) \<open>c = e\<close> by simp
      also have "\<dots> = Execute"
        using e(2) 1(1) assms(2)
        by (intro prompt_executes [OF assms(5)])
           (auto simp: drain_context_def clear_env_def ledger_read_iff drain_simps)
      finally have "d = Execute" .
      with \<open>c = e\<close> show ?thesis by (simp add: tracked_def s' drain_simps)
    next
      case False
      have "e \<in> set (doc_cmds (outcome env c d ?s1))"
        using e False 1(1) by (intro outcome_keep) (auto simp: sweep_keep)
      with e False 1(1) show ?thesis by (simp add: tracked_def s' drain_simps)
    qed
  qed
qed

lemma drain_turn_Return_tracked:
  assumes "drain_turn env n s0 = Return s'" "clear_env env" "quiet s0" "tracked e s0"
  shows "tracked e s'"
  using drain_turn_Return_clear(1) [OF assms(2,3,1)] assms(4)
  by (auto simp: tracked_def drain_simps sweep_keep)

lemma drain_loop_tracked:
  "drain_loop env n fuel s = Some s' \<Longrightarrow> clear_env env \<Longrightarrow> quiet s \<Longrightarrow>
     distinct (map cmd_id (doc_cmds s)) \<Longrightarrow> prompt env e \<Longrightarrow> tracked e s \<Longrightarrow> tracked e s'"
proof (induction env n fuel s rule: drain_loop.induct)
  case (2 env n fuel s)
  show ?case
  proof (cases "drain_turn env n s")
    case (Return t)
    with 2 show ?thesis by (auto dest: drain_turn_Return_tracked)
  next
    case (Continue t)
    have "tracked e t"
      using Continue 2(3-7) by (rule drain_turn_tracked)
    moreover have "quiet t" "distinct (map cmd_id (doc_cmds t))"
      using Continue 2(4,5) by (simp_all add: drain_turn_quiet drain_turn_ids)
    ultimately show ?thesis using 2 Continue by simp
  qed
qed simp

lemma settled_tracked:
  assumes "tracked e s'" "pending_ids s' \<subseteq> set (ledger s')" "cmd_status e = StPending"
  shows "cmd_id e \<in> set (exec_log s')"
  using assms by (auto simp: tracked_def pending_ids_def)

lemma drain_turn_Return_ids:
  "drain_turn env n s0 = Return s' \<Longrightarrow> map cmd_id (doc_cmds s') = map cmd_id (doc_cmds s0)"
  by (auto simp: drain_turn_def claim_and_run_def Let_def drain_simps split: option.splits if_splits)

lemma drain_loop_ids:
  "drain_loop env n fuel s = Some s' \<Longrightarrow> map cmd_id (doc_cmds s') = map cmd_id (doc_cmds s)"
  by (induction env n fuel s rule: drain_loop.induct)
     (auto split: turn.splits dest: drain_turn_ids drain_turn_Return_ids)

lemma drain_pass_ids:
  "drain_commands b env fuel s = Some s' \<Longrightarrow> map cmd_id (doc_cmds s') = map cmd_id (doc_cmds s)"
  by (auto simp: drain_commands_def split: if_splits dest: drain_loop_ids)

lemma drain_pass_returns:
  assumes "reads_ok env" "length (doc_cmds s) < fuel"
  shows "\<exists>s'. drain_commands may_drain env fuel s = Some s'"
proof -
  have "card (open_ids (s\<lparr>skipped := []\<rparr>)) < fuel"
    using open_ids_bound [of "s\<lparr>skipped := []\<rparr>"] assms(2) by simp
  from drain_loop_returns [OF assms(1) this] show ?thesis
    by (simp add: drain_commands_def)
qed

lemma drain_pass_once:
  assumes "reads_ok env" "once s" "drain_commands may_drain env fuel s = Some s'"
  shows "once s'"
proof (cases may_drain)
  case True
  have "once (s\<lparr>skipped := []\<rparr>)" using assms(2) by (simp add: once_def)
  moreover have "drain_loop env 0 fuel (s\<lparr>skipped := []\<rparr>) = Some s'"
    using assms(3) True by (simp add: drain_commands_def)
  ultimately show ?thesis by (rule drain_loop_once [OF assms(1)])
qed (use assms in \<open>simp add: drain_commands_def\<close>)

text \<open>A small document to run the properties on.\<close>

definition demo_entry :: "string \<Rightarrow> SessionCommandStatus \<Rightarrow> nat SessionCommandEntry" where
  "demo_entry i st = \<lparr>cmd_id = i, payload = PSteer ''go'' None, issued_by = ''dev'', issued_at = 1000,
     based_on = None, expires_at = None, cmd_status = st, resolution = None\<rparr>"

definition demo_env :: "nat drain_env" where
  "demo_env = \<lparr>clock = (\<lambda>_. 2000), message_ids = (\<lambda>_. []), missing = (\<lambda>_ _. False),
     read_ok = (\<lambda>_ _. True), write_ok = (\<lambda>_ _. True), run_outcome = (\<lambda>_. (StApplied, None))\<rparr>"

definition demo_state :: "nat drain_state" where
  "demo_state = \<lparr>doc_cmds = [demo_entry ''a'' StPending, demo_entry ''b'' StPending],
     ledger = [], executing = [], skipped = [], exec_log = []\<rparr>"

lemma demo_env_clear: "reads_ok demo_env" "clear_env demo_env"
  by (simp_all add: reads_ok_def clear_env_def writes_ok_def demo_env_def)

lemma demo_pass: "\<exists>s'. drain_commands True demo_env 3 demo_state = Some s'"
  by (rule drain_pass_returns) (simp_all add: demo_env_clear demo_state_def)

section \<open>Histories of one host\<close>

text \<open>What a host does to the durable state over its life: passes, restarts, entries that
  arrive in the document, and relayed deliveries.\<close>

datatype 'req host_event =
  Pass bool "'req drain_env" nat
| Restart
| Arrive "'req SessionCommandEntry"
| Relay "'req drain_env" nat bool "'req SessionCommandEntry"

fun host_step :: "'req host_event \<Rightarrow> 'req drain_state \<Rightarrow> 'req drain_state option" where
  "host_step (Pass may_drain env fuel) s = drain_commands may_drain env fuel s"
| "host_step Restart s = Some (crash s)"
| "host_step (Arrive e) s = Some (queue_command e s)"
| "host_step (Relay env n exec_ok e) s = Some (snd (ingest_relayed_command env n exec_ok e s))"

fun host_run :: "'req host_event list \<Rightarrow> 'req drain_state \<Rightarrow> 'req drain_state option" where
  "host_run [] s = Some s"
| "host_run (v # vs) s = (case host_step v s of None \<Rightarrow> None | Some s' \<Rightarrow> host_run vs s')"

fun event_reads_ok :: "'req host_event \<Rightarrow> bool" where
  "event_reads_ok (Pass _ env _) = reads_ok env"
| "event_reads_ok _ = True"

lemma relay_once: "once s \<Longrightarrow> once (snd (ingest_relayed_command env n exec_ok e s))"
  by (auto simp: ingest_relayed_command_def mark_processed_def once_def Let_def
      split: CommandDisposition.split)

lemma host_step_once:
  "once s \<Longrightarrow> event_reads_ok v \<Longrightarrow> host_step v s = Some s' \<Longrightarrow> once s'"
  by (cases v) (auto dest: drain_pass_once relay_once simp: crash_def queue_command_def,
      auto simp: once_def)

lemma host_run_once:
  "once s \<Longrightarrow> \<forall>v \<in> set vs. event_reads_ok v \<Longrightarrow> host_run vs s = Some s' \<Longrightarrow> once s'"
  by (induction vs arbitrary: s) (auto split: option.splits dest: host_step_once)

section \<open>Properties\<close>

text \<open>C3: a drain pass always returns: whatever the entries, the clock, the outcomes and the
  failing writes are, more fuel than the document has entries is enough, as long as ledger
  reads succeed.\<close>

theorem drain_returns:
  assumes "reads_ok env" "length (doc_cmds s) < fuel"
  shows "\<exists>s'. drain_commands may_drain env fuel s = Some s'"
  using assms by (rule drain_pass_returns)

lemma drain_returns_witness:
  "\<exists>s'. drain_commands True demo_env 3 demo_state = Some s'"
  by (rule drain_returns) (simp_all add: demo_env_clear demo_state_def)



text \<open>C2: no user prompt is lost and none runs twice: with working storage and the
  attachments present, a pass over a document with distinct ids executes every pending,
  unclaimed, unexpired command other than an interrupt exactly once, however many newer
  commands are queued behind it.\<close>

theorem drain_runs_every_prompt:
  assumes "clear_env env" "executing s = []" "exec_log s = []"
    "distinct (map cmd_id (doc_cmds s))" "e \<in> set (doc_cmds s)" "cmd_status e = StPending"
    "cmd_id e \<notin> set (ledger s)" "entry_kind e \<noteq> KInterrupt"
    "\<forall>n. clock env n < effective_expiry e"
    "drain_commands True env fuel s = Some s'"
  shows "count_list (exec_log s') (cmd_id e) = 1"
proof -
  let ?s = "s\<lparr>skipped := []\<rparr>"
  have run: "drain_loop env 0 fuel ?s = Some s'" using assms(10) by (simp add: drain_commands_def)
  have reads: "reads_ok env" using assms(1) by (simp add: clear_env_def)
  have quiet: "quiet ?s" using assms(2) by (simp add: quiet_def)
  have "tracked e s'"
    using run assms(1) quiet
    by (rule drain_loop_tracked) (use assms in \<open>simp_all add: prompt_def tracked_def\<close>)
  moreover have "pending_ids s' \<subseteq> set (ledger s')"
    using assms(1) quiet run by (rule drain_loop_settled)
  ultimately have "cmd_id e \<in> set (exec_log s')"
    using assms(6) by (rule settled_tracked)
  moreover have "distinct (exec_log s')"
    using drain_loop_once [OF reads _ run] assms(3) by (simp add: once_def)
  ultimately show ?thesis by (simp add: distinct_count_list)
qed

lemma drain_runs_every_prompt_witness:
  "\<exists>s'. drain_commands True demo_env 3 demo_state = Some s' \<and>
     count_list (exec_log s') ''a'' = 1"
proof -
  obtain s' where s': "drain_commands True demo_env 3 demo_state = Some s'"
    using demo_pass by blast
  have "count_list (exec_log s') (cmd_id (demo_entry ''a'' StPending)) = 1"
    by (rule drain_runs_every_prompt [OF demo_env_clear(2) _ _ _ _ _ _ _ _ s'])
       (simp_all add: demo_state_def demo_entry_def demo_env_def entry_kind_def
         effective_expiry_def COMMAND_DEFAULT_TTL_MS_def wrap_i64_def)
  with s' show ?thesis by (simp add: demo_entry_def)
qed

lemma relay_Executed:
  assumes "ingest_relayed_command env n exec_ok e s = (Executed, s1)"
  shows "cmd_id e \<in> set (ledger s1)" "doc_cmds s1 = doc_cmds s" "executing s1 = executing s"
  using assms
  by (auto simp: ingest_relayed_command_def mark_processed_def Let_def
      split: if_splits CommandDisposition.splits)

text \<open>a relayed command whose document row arrives afterwards is not left alone by the
  drain: the pass does not run it again, but stamps the row of the command that did execute
  as rejected, "interrupted before completion".\<close>

theorem relayed_row_is_rejected:
  assumes "ingest_relayed_command env n exec_ok e s = (Executed, s1)"
    "doc_cmds s = []" "executing s = []" "cmd_status e = StPending" "reads_ok env'"
  shows "\<exists>s'. drain_commands True env' (Suc fuel) (queue_command e s1) = Some s' \<and>
     doc_cmds s' = [e\<lparr>cmd_status := StRejected, resolution := Some interrupted_resolution\<rparr>] \<and>
     exec_log s' = exec_log s1"
proof -
  note s1 = relay_Executed [OF assms(1)]
  let ?s = "(queue_command e s1)\<lparr>skipped := []\<rparr>"
  have doc: "doc_cmds ?s = [e\<lparr>resolution := None\<rparr>]" using s1(2) assms(2) by (simp add: queue_command_def)
  have swept: "sweep env' 0 ?s = ?s\<lparr>doc_cmds :=
      [e\<lparr>cmd_status := StRejected, resolution := Some interrupted_resolution\<rparr>],
      skipped := [cmd_id e]\<rparr>"
    using s1(1,3) assms(2-5) doc
    by (simp add: sweep_def sweep_one_def resolve_command_def ledger_read_iff
        queue_command_def Let_def)
  have "drain_turn env' 0 ?s = Return (sweep env' 0 ?s)"
    by (simp add: drain_turn_def swept eligible_def doc Let_def)
  moreover have "doc_cmds (sweep env' 0 ?s) =
      [e\<lparr>cmd_status := StRejected, resolution := Some interrupted_resolution\<rparr>]"
    unfolding swept by simp
  moreover have "exec_log (sweep env' 0 ?s) = exec_log s1"
    by (simp add: drain_simps queue_command_def)
  ultimately show ?thesis by (simp add: drain_commands_def)
qed

lemma relayed_row_is_rejected_witness:
  "\<exists>s1 s'. ingest_relayed_command demo_env 0 True (demo_entry ''a'' StPending)
       (demo_state\<lparr>doc_cmds := []\<rparr>) = (Executed, s1) \<and>
     drain_commands True demo_env 1 (queue_command (demo_entry ''a'' StPending) s1) = Some s' \<and>
     map cmd_status (doc_cmds s') = [StRejected]"
proof -
  obtain s1 where s1: "ingest_relayed_command demo_env 0 True (demo_entry ''a'' StPending)
       (demo_state\<lparr>doc_cmds := []\<rparr>) = (Executed, s1)"
    by (simp add: ingest_relayed_command_def demo_env_def demo_entry_def demo_state_def
        evaluate_command_def drain_context_def ledger_read_def entry_kind_def mark_processed_def
        effective_expiry_def COMMAND_DEFAULT_TTL_MS_def wrap_i64_def)
  from relayed_row_is_rejected [OF s1 _ _ _ demo_env_clear(1), of 0] s1 show ?thesis
    by (auto simp: demo_state_def demo_entry_def)
qed

end
