(* ===== verification/Command_Race.thy ===== *)
theory Command_Race
  imports Command_Drain
begin

text \<open>
  The two roads a command can take to its execution, interleaved: drain passes
  (\<open>drain_commands\<close>) and relayed deliveries (\<open>ingest_relayed_command\<close>) of
  \<open>crates/engine/src/doc_host.rs\<close> run on different workers and share the processed ledger
  and the \<open>executing\<close> set. One step is one access to that shared state. Both roads go
  through the same five accesses (read the ledger, insert into \<open>executing\<close>, mark processed,
  execute, remove from \<open>executing\<close>); they differ in one: the relay gives up when
  \<open>mark_processed\<close> answers that the id was already claimed, the drain ignores that answer.
  \<open>checks\<close> says which workers look at it.
\<close>

section \<open>Workers\<close>

datatype pc =
  Idle
| Decided string
| InFlight string
| Running string
| Finished string

record world =
  w_ledger :: "string list"
  w_executing :: "string list"
  w_log :: "string list"
  w_pcs :: "nat \<Rightarrow> pc"

definition init_world :: world where
  "init_world = \<lparr>w_ledger = [], w_executing = [], w_log = [], w_pcs = (\<lambda>_. Idle)\<rparr>"

text \<open>\<open>decide\<close>: the entry is unprocessed and evaluates to \<open>Execute\<close>. \<open>crash\<close> takes every
  worker and the in-memory set; the ledger is durable, and so is what already ran.\<close>

inductive work :: "(nat \<Rightarrow> bool) \<Rightarrow> world \<Rightarrow> world \<Rightarrow> bool" for checks where
  decide: "w_pcs w a = Idle \<Longrightarrow> i \<notin> set (w_ledger w) \<Longrightarrow>
     work checks w (w\<lparr>w_pcs := (w_pcs w)(a := Decided i)\<rparr>)"
| claim: "w_pcs w a = Decided i \<Longrightarrow> i \<notin> set (w_executing w) \<Longrightarrow>
     work checks w (w\<lparr>w_executing := i # w_executing w, w_pcs := (w_pcs w)(a := InFlight i)\<rparr>)"
| claim_lost: "w_pcs w a = Decided i \<Longrightarrow> i \<in> set (w_executing w) \<Longrightarrow>
     work checks w (w\<lparr>w_pcs := (w_pcs w)(a := Idle)\<rparr>)"
| mark: "w_pcs w a = InFlight i \<Longrightarrow> mark_processed i (w_ledger w) = (l, claimed) \<Longrightarrow>
     work checks w (w\<lparr>w_ledger := l, w_pcs := (w_pcs w)(a :=
       if checks a \<and> \<not> claimed then Finished i else Running i)\<rparr>)"
| run: "w_pcs w a = Running i \<Longrightarrow>
     work checks w (w\<lparr>w_log := w_log w @ [i], w_pcs := (w_pcs w)(a := Finished i)\<rparr>)"
| release: "w_pcs w a = Finished i \<Longrightarrow>
     work checks w (w\<lparr>w_executing := removeAll i (w_executing w), w_pcs := (w_pcs w)(a := Idle)\<rparr>)"
| crash: "work checks w (w\<lparr>w_executing := [], w_pcs := (\<lambda>_. Idle)\<rparr>)"

inductive reach :: "(nat \<Rightarrow> bool) \<Rightarrow> world \<Rightarrow> bool" for checks where
  start: "reach checks init_world"
| step: "reach checks w \<Longrightarrow> work checks w w' \<Longrightarrow> reach checks w'"

inductive_cases workE: "work checks w w'"

section \<open>Invariants\<close>

text \<open>An id runs only after it is in the ledger, and stays there.\<close>

definition marked_first :: "world \<Rightarrow> bool" where
  "marked_first w \<longleftrightarrow> set (w_log w) \<subseteq> set (w_ledger w) \<and>
     (\<forall>a i. w_pcs w a = Running i \<longrightarrow> i \<in> set (w_ledger w))"

lemma mark_processed_eq:
  "mark_processed i l = (l', claimed) \<Longrightarrow>
     set l' = insert i (set l) \<and> (claimed \<longleftrightarrow> i \<notin> set l)"
  by (auto simp: mark_processed_def split: if_splits)

lemma work_marked_first: "work checks w w' \<Longrightarrow> marked_first w \<Longrightarrow> marked_first w'"
proof (induction rule: work.induct)
  case (mark w a i l claimed)
  from mark_processed_eq [OF mark(2)] mark(3) show ?case
    by (auto simp: marked_first_def split: if_splits)
qed (auto simp: marked_first_def split: if_splits)

text \<open>When every worker looks at the answer of the mark, an id that is about to run has not
  run, and no two workers are about to run the same id.\<close>

definition exclusive :: "world \<Rightarrow> bool" where
  "exclusive w \<longleftrightarrow> distinct (w_log w) \<and>
     (\<forall>a i. w_pcs w a = Running i \<longrightarrow> i \<notin> set (w_log w)) \<and>
     (\<forall>a b i. w_pcs w a = Running i \<longrightarrow> w_pcs w b = Running i \<longrightarrow> a = b)"

lemma work_exclusive:
  assumes "work checks w w'" "\<forall>a. checks a" "marked_first w" "exclusive w"
  shows "exclusive w'"
  using assms
proof (induction rule: work.induct)
  case (mark w a i l claimed)
  from mark_processed_eq [OF mark(2)] mark(3-5) show ?case
    by (auto simp: exclusive_def marked_first_def split: if_splits)
next
  case (run w a i)
  then show ?case
    by (auto simp: exclusive_def split: if_splits)
qed (auto simp: exclusive_def split: if_splits)

lemma reach_marked_first: "reach checks w \<Longrightarrow> marked_first w"
proof (induction rule: reach.induct)
  case start
  show ?case by (simp add: marked_first_def init_world_def)
next
  case (step w w')
  then show ?case by (blast intro: work_marked_first)
qed

lemma reach_exclusive:
  assumes "reach checks w" "\<forall>a. checks a"
  shows "exclusive w"
  using assms(1)
proof (induction rule: reach.induct)
  case start
  show ?case by (simp add: exclusive_def init_world_def)
next
  case (step w w')
  then show ?case using assms(2) by (blast intro: work_exclusive reach_marked_first)
qed

section \<open>Properties\<close>

text \<open>mark before execute, under every interleaving and crash: an executed command is in
  the durable ledger, so no later pass or delivery takes it for unprocessed.\<close>

theorem executed_is_marked:
  assumes "reach checks w" "i \<in> set (w_log w)"
  shows "i \<in> set (w_ledger w)"
  using reach_marked_first [OF assms(1)] assms(2) by (auto simp: marked_first_def)


text \<open>The overlap: worker 0 decides, worker 1 takes the same command through all its steps,
  then worker 0 claims the id that worker 1 has released.\<close>

abbreviation wd :: "string list \<Rightarrow> string list \<Rightarrow> string list \<Rightarrow> (nat \<Rightarrow> pc) \<Rightarrow> world" where
  "wd l x g p \<equiv> \<lparr>w_ledger = l, w_executing = x, w_log = g, w_pcs = p\<rparr>"

lemma reach_decide:
  "reach checks (wd l x g p) \<Longrightarrow> p a = Idle \<Longrightarrow> i \<notin> set l \<Longrightarrow>
     reach checks (wd l x g (p(a := Decided i)))"
  by (erule reach.step) (use work.decide [of "wd l x g p" a i checks] in simp)

lemma reach_claim:
  "reach checks (wd l x g p) \<Longrightarrow> p a = Decided i \<Longrightarrow> i \<notin> set x \<Longrightarrow>
     reach checks (wd l (i # x) g (p(a := InFlight i)))"
  by (erule reach.step) (use work.claim [of "wd l x g p" a i checks] in simp)

lemma reach_mark_claimed:
  "reach checks (wd l x g p) \<Longrightarrow> p a = InFlight i \<Longrightarrow> i \<notin> set l \<Longrightarrow>
     reach checks (wd (l @ [i]) x g (p(a := Running i)))"
  by (erule reach.step)
     (use work.mark [of "wd l x g p" a i "l @ [i]" True checks] in \<open>simp add: mark_processed_def\<close>)

lemma reach_mark_ignored:
  "reach checks (wd l x g p) \<Longrightarrow> p a = InFlight i \<Longrightarrow> i \<in> set l \<Longrightarrow> \<not> checks a \<Longrightarrow>
     reach checks (wd l x g (p(a := Running i)))"
  by (erule reach.step)
     (use work.mark [of "wd l x g p" a i l False checks] in \<open>simp add: mark_processed_def\<close>)

lemma reach_run:
  "reach checks (wd l x g p) \<Longrightarrow> p a = Running i \<Longrightarrow>
     reach checks (wd l x (g @ [i]) (p(a := Finished i)))"
  by (erule reach.step) (use work.run [of "wd l x g p" a i checks] in simp)

lemma reach_release:
  "reach checks (wd l x g p) \<Longrightarrow> p a = Finished i \<Longrightarrow>
     reach checks (wd l (removeAll i x) g (p(a := Idle)))"
  by (erule reach.step) (use work.release [of "wd l x g p" a i checks] in simp)

lemma overlap_world:
  assumes "\<not> checks 0"
  shows "reach checks (wd [i] [i] [i, i] (\<lambda>a. if a = 0 then Finished i else Idle))"
proof -
  have "reach checks (wd [] [] [] (\<lambda>_. Idle))"
    using reach.start [of checks] by (simp add: init_world_def)
  then have "reach checks (wd [] [] [] ((\<lambda>_. Idle)(0 := Decided i)))"
    by (rule reach_decide) simp_all
  then have "reach checks (wd [] [] [] ((\<lambda>_. Idle)(0 := Decided i, 1 := Decided i)))"
    by (rule reach_decide) simp_all
  then have "reach checks (wd [] [i] [] ((\<lambda>_. Idle)(0 := Decided i, 1 := InFlight i)))"
    by (drule_tac a = 1 and i = i in reach_claim) simp_all
  then have "reach checks (wd [i] [i] [] ((\<lambda>_. Idle)(0 := Decided i, 1 := Running i)))"
    by (drule_tac a = 1 and i = i in reach_mark_claimed) simp_all
  then have "reach checks (wd [i] [i] [i] ((\<lambda>_. Idle)(0 := Decided i, 1 := Finished i)))"
    by (drule_tac a = 1 and i = i in reach_run) simp_all
  then have "reach checks (wd [i] [] [i] ((\<lambda>_. Idle)(0 := Decided i, 1 := Idle)))"
    by (drule_tac a = 1 and i = i in reach_release) simp_all
  then have "reach checks (wd [i] [i] [i] ((\<lambda>_. Idle)(0 := InFlight i, 1 := Idle)))"
    by (drule_tac a = 0 and i = i in reach_claim) (simp_all add: fun_upd_twist)
  then have "reach checks (wd [i] [i] [i] ((\<lambda>_. Idle)(0 := Running i, 1 := Idle)))"
    using assms
    by (drule_tac a = 0 and i = i in reach_mark_ignored) (simp_all add: fun_upd_twist)
  then have "reach checks (wd [i] [i] [i, i] ((\<lambda>_. Idle)(0 := Finished i, 1 := Idle)))"
    by (drule_tac a = 0 and i = i in reach_run) (simp_all add: fun_upd_twist)
  then show ?thesis
    by (simp add: fun_upd_def if_distrib cong: if_cong)
qed

text \<open>with one drain pass among the workers the command plane is not at-most-once: the
  drain ignores the answer of \<open>mark_processed\<close>, so a pass that evaluated a command before a
  relayed delivery (or another pass) took it executes it a second time.\<close>

theorem drain_overlap_executes_twice:
  assumes "\<not> checks 0"
  shows "\<exists>w. reach checks w \<and> count_list (w_log w) i = 2"
  proof (intro exI conjI)
  show "reach checks (wd [i] [i] [i, i] (\<lambda>a. if a = 0 then Finished i else Idle))"
    by (rule overlap_world [of checks i, OF assms])
qed (simp add: eval_nat_numeral)

text \<open>Closed instances.\<close>

lemma drain_overlap_executes_twice_witness:
  "\<exists>w. reach (\<lambda>a. a \<noteq> 0) w \<and> count_list (w_log w) ''c'' = 2"
  by (rule drain_overlap_executes_twice) simp

lemma relay_world: "reach (\<lambda>_. True) (wd [''c''] [''c''] [''c''] ((\<lambda>_. Idle)(0 := Finished ''c'')))"
proof -
  have "reach (\<lambda>_. True) (wd [] [] [] (\<lambda>_. Idle))"
    using reach.start [of "\<lambda>_. True"] by (simp add: init_world_def)
  then have "reach (\<lambda>_. True) (wd [] [] [] ((\<lambda>_. Idle)(0 := Decided ''c'')))"
    by (rule reach_decide) simp_all
  then have "reach (\<lambda>_. True) (wd [] [''c''] [] ((\<lambda>_. Idle)(0 := InFlight ''c'')))"
    by (drule_tac a = 0 and i = "''c''" in reach_claim) simp_all
  then have "reach (\<lambda>_. True) (wd [''c''] [''c''] [] ((\<lambda>_. Idle)(0 := Running ''c'')))"
    by (drule_tac a = 0 and i = "''c''" in reach_mark_claimed) simp_all
  then show ?thesis
    by (drule_tac a = 0 and i = "''c''" in reach_run) simp_all
qed

lemma executed_is_marked_witness: "''c'' \<in> set (w_ledger (wd [''c''] [''c''] [''c''] ((\<lambda>_. Idle)(0 := Finished ''c''))))"
  by (rule executed_is_marked [OF relay_world]) simp


end
