(* ===== verification/Json.thy ===== *)
theory Json
  imports Prelude "HOL-Library.Word" "HOL-Library.Monad_Syntax"
begin

text \<open>
  \<open>serde_json::Value\<close> and the encoders and decoders \<open>serde\<close> derives for the wire types.

  An object is a list of members in insertion order (the workspace builds \<open>serde_json\<close> with
  \<open>preserve_order\<close>). Integers are exact; a float is its 64 bits, never computed with here.
  The combinators \<open>req\<close>, \<open>opt\<close> and \<open>dflt\<close> decode one field of a derived struct: required,
  \<open>Option\<close> (absent and \<open>null\<close> are \<open>None\<close>) and \<open>#[serde(default)]\<close>. \<open>json_codec\<close> states
  what a wire type promises, and every wire type of the model interprets it. The positional
  (array) form of a struct, which \<open>serde\<close> also reads and the crates never write, is not
  decoded here.
\<close>

section \<open>Values\<close>

datatype json =
  JNull
| JBool bool
| JInt int
| JFloat "64 word"
| JStr string
| JArr "json list"
| JObj "(string \<times> json) list"

definition json_get :: "string \<Rightarrow> json \<Rightarrow> json option" where
  "json_get k v = (case v of JObj o' \<Rightarrow> map_of o' k | _ \<Rightarrow> None)"

text \<open>\<open>value["key"]\<close>: \<open>Null\<close> when absent.\<close>

definition json_index :: "json \<Rightarrow> string \<Rightarrow> json" where
  "json_index v k = (case json_get k v of None \<Rightarrow> JNull | Some x \<Rightarrow> x)"

definition as_str :: "json \<Rightarrow> string option" where
  "as_str v = (case v of JStr s \<Rightarrow> Some s | _ \<Rightarrow> None)"

definition as_bool :: "json \<Rightarrow> bool option" where
  "as_bool v = (case v of JBool b \<Rightarrow> Some b | _ \<Rightarrow> None)"

definition as_i64 :: "json \<Rightarrow> int option" where
  "as_i64 v = (case v of JInt i \<Rightarrow> if - (2 ^ 63) \<le> i \<and> i < 2 ^ 63 then Some i else None
     | _ \<Rightarrow> None)"

definition as_u64 :: "json \<Rightarrow> nat option" where
  "as_u64 v = (case v of JInt i \<Rightarrow> if 0 \<le> i \<and> i < 2 ^ 64 then Some (nat i) else None
     | _ \<Rightarrow> None)"

definition as_array :: "json \<Rightarrow> json list option" where
  "as_array v = (case v of JArr xs \<Rightarrow> Some xs | _ \<Rightarrow> None)"

definition as_object :: "json \<Rightarrow> (string \<times> json) list option" where
  "as_object v = (case v of JObj o' \<Rightarrow> Some o' | _ \<Rightarrow> None)"

lemmas json_access =
  json_get_def json_index_def as_str_def as_bool_def as_i64_def as_u64_def as_array_def
  as_object_def

section \<open>Insertion-ordered objects\<close>

text \<open>\<open>Map::insert\<close> keeps the place of a key it overwrites; \<open>oremove\<close> drops it. The same
  functions serve every insertion-ordered map of the model.\<close>

fun oinsert :: "'k \<Rightarrow> 'v \<Rightarrow> ('k \<times> 'v) list \<Rightarrow> ('k \<times> 'v) list" where
  "oinsert k v [] = [(k, v)]"
| "oinsert k v ((a, b) # m) = (if k = a then (k, v) # m else (a, b) # oinsert k v m)"

definition oremove :: "'k \<Rightarrow> ('k \<times> 'v) list \<Rightarrow> ('k \<times> 'v) list" where
  "oremove k m = filter (\<lambda>p. fst p \<noteq> k) m"

lemma map_of_oinsert [simp]:
  "map_of (oinsert k v m) k' = (if k' = k then Some v else map_of m k')"
  by (induction k v m rule: oinsert.induct) auto

lemma map_of_oremove [simp]: "map_of (oremove k m) k' = (if k' = k then None else map_of m k')"
  by (induction m) (auto simp: oremove_def)

lemma keys_oinsert: "fst ` set (oinsert k v m) = insert k (fst ` set m)"
  by (induction k v m rule: oinsert.induct) auto

lemma distinct_oinsert: "distinct (map fst m) \<Longrightarrow> distinct (map fst (oinsert k v m))"
  by (induction k v m rule: oinsert.induct) (auto simp: keys_oinsert)

lemma oinsert_fresh: "k \<notin> fst ` set m \<Longrightarrow> oinsert k v m = m @ [(k, v)]"
  by (induction k v m rule: oinsert.induct) auto

section \<open>Deriving field decoders\<close>

definition req :: "(json \<Rightarrow> 'a option) \<Rightarrow> string \<Rightarrow> json \<Rightarrow> 'a option" where
  "req dec k v = (case json_get k v of None \<Rightarrow> None | Some x \<Rightarrow> dec x)"

definition opt :: "(json \<Rightarrow> 'a option) \<Rightarrow> string \<Rightarrow> json \<Rightarrow> 'a option option" where
  "opt dec k v = (case json_get k v of None \<Rightarrow> Some None
     | Some x \<Rightarrow> if x = JNull then Some None else map_option Some (dec x))"

definition dflt :: "'a \<Rightarrow> (json \<Rightarrow> 'a option) \<Rightarrow> string \<Rightarrow> json \<Rightarrow> 'a option" where
  "dflt d dec k v = (case json_get k v of None \<Rightarrow> Some d | Some x \<Rightarrow> dec x)"

definition dec_vec :: "(json \<Rightarrow> 'a option) \<Rightarrow> json \<Rightarrow> 'a list option" where
  "dec_vec dec v = (case v of JArr xs \<Rightarrow> those (map dec xs) | _ \<Rightarrow> None)"

text \<open>A unit variant is its name, or an object holding the name alone.\<close>

definition dec_enum :: "(string \<times> 'a) list \<Rightarrow> json \<Rightarrow> 'a option" where
  "dec_enum tbl v = (case v of JStr s \<Rightarrow> map_of tbl s
     | JObj [(s, JNull)] \<Rightarrow> map_of tbl s
     | _ \<Rightarrow> None)"

definition is_obj :: "json \<Rightarrow> unit option" where
  "is_obj v = (case v of JObj _ \<Rightarrow> Some () | _ \<Rightarrow> None)"

text \<open>Members of a derived struct, and of an \<open>Option\<close> skipped when \<open>None\<close>.\<close>

definition member_opt :: "string \<Rightarrow> ('a \<Rightarrow> json) \<Rightarrow> 'a option \<Rightarrow> (string \<times> json) list" where
  "member_opt k enc x = (case x of None \<Rightarrow> [] | Some v \<Rightarrow> [(k, enc v)])"

lemma map_of_member_opt [simp]:
  "map_of (member_opt k enc x @ r) k' =
     (if k' = k \<and> x \<noteq> None then Some (enc (the x)) else map_of r k')"
  "map_of (member_opt k enc x) k' =
     (if k' = k \<and> x \<noteq> None then Some (enc (the x)) else None)"
  by (auto simp: member_opt_def split: option.split)

lemma those_map_Some: "(\<And>x. x \<in> set xs \<Longrightarrow> f x = Some (g x)) \<Longrightarrow> those (map f xs) = Some (map g xs)"
  by (induction xs) auto

named_theorems wire_simps \<open>how the field decoders read an encoded struct\<close>

lemma field_Cons [wire_simps]:
  "req dec k (JObj ((a, j) # m)) = (if k = a then dec j else req dec k (JObj m))"
  "opt dec k (JObj ((a, j) # m)) =
     (if k = a then if j = JNull then Some None else map_option Some (dec j)
      else opt dec k (JObj m))"
  "dflt d dec k (JObj ((a, j) # m)) = (if k = a then dec j else dflt d dec k (JObj m))"
  "req dec k (JObj []) = None" "opt dec k (JObj []) = Some None" "dflt d dec k (JObj []) = Some d"
  by (simp_all add: req_def opt_def dflt_def json_get_def)

lemma member_opt_simps [wire_simps]:
  "member_opt k enc None = []" "member_opt k enc (Some v) = [(k, enc v)]"
  by (simp_all add: member_opt_def)

lemma as_leaf [wire_simps]:
  "as_str (JStr s) = Some s" "as_bool (JBool b) = Some b"
  by (simp_all add: as_str_def as_bool_def)

section \<open>The contract of a wire type\<close>

locale json_codec =
  fixes enc :: "'a \<Rightarrow> json" and dec :: "json \<Rightarrow> 'a option" and ok :: "'a \<Rightarrow> bool"
  assumes dec_enc: "ok x \<Longrightarrow> dec (enc x) = Some x"
    and enc_not_null: "ok x \<Longrightarrow> enc x \<noteq> JNull"
begin

lemma dec_vec_enc: "\<forall>x \<in> set xs. ok x \<Longrightarrow> dec_vec dec (JArr (map enc xs)) = Some xs"
  by (simp add: dec_vec_def comp_def those_map_Some [where g = id] dec_enc)

lemma req_enc: "json_get k v = Some (enc x) \<Longrightarrow> ok x \<Longrightarrow> req dec k v = Some x"
  by (simp add: req_def dec_enc)

lemma opt_enc:
  "json_get k v = map_option enc x \<Longrightarrow> (\<And>y. x = Some y \<Longrightarrow> ok y) \<Longrightarrow> opt dec k v = Some x"
  by (cases x) (simp_all add: opt_def dec_enc enc_not_null)

text \<open>Two values with the same encoding are equal.\<close>

lemma enc_inj: "ok x \<Longrightarrow> ok y \<Longrightarrow> enc x = enc y \<Longrightarrow> x = y"
  using dec_enc by (metis option.inject)

end

interpretation str_codec: json_codec JStr as_str "\<lambda>_. True"
  by unfold_locales (simp_all add: as_str_def)

interpretation bool_codec: json_codec JBool as_bool "\<lambda>_. True"
  by unfold_locales (simp_all add: as_bool_def)

definition enc_u64 :: "nat \<Rightarrow> json" where
  "enc_u64 n = JInt (int n)"

interpretation u64_codec: json_codec enc_u64 as_u64 "\<lambda>n. n < 2 ^ 64"
  by unfold_locales (auto simp: as_u64_def enc_u64_def)

text \<open>A field that holds any value: \<open>null\<close> is not told apart from absent.\<close>

interpretation value_codec: json_codec "\<lambda>v. v" Some "\<lambda>v. v \<noteq> JNull"
  by unfold_locales simp_all

definition enc_strs :: "string list \<Rightarrow> json" where
  "enc_strs xs = JArr (map JStr xs)"

interpretation strs_codec: json_codec enc_strs "dec_vec as_str" "\<lambda>_. True"
  by unfold_locales (simp_all add: enc_strs_def str_codec.dec_vec_enc)

lemma dec_enum_JStr [simp]: "dec_enum tbl (JStr s) = map_of tbl s"
  by (simp add: dec_enum_def)

lemma json_get_JObj [simp]: "json_get k (JObj o') = map_of o' k"
  by (simp add: json_get_def)

lemma is_obj_JObj [simp]: "is_obj (JObj o') = Some ()"
  by (simp add: is_obj_def)

end
