(* ===== verification/Agent.thy ===== *)
theory Agent
  imports Json
begin

text \<open>
  The wire types of a run, \<open>crates/proto/src/agent.rs\<close> and \<open>runtime_policy.rs\<close>: tool calls,
  todo items, permissions, and the event every harness emits, with the \<open>serde\<close> form of the
  types that are stored in a document. Each stored type interprets \<open>json_codec\<close>.
\<close>

section \<open>Runtime policy\<close>

datatype RuntimeMode = ApprovalRequired | AutoAcceptEdits | AutoMode | FullAccess

fun mode_rank :: "RuntimeMode \<Rightarrow> nat" where
  "mode_rank ApprovalRequired = 0"
| "mode_rank AutoAcceptEdits = 1"
| "mode_rank AutoMode = 2"
| "mode_rank FullAccess = 3"

lemma mode_rank_inj: "mode_rank a = mode_rank b \<Longrightarrow> a = b"
  by (cases a; cases b) simp_all

text \<open>The derived \<open>Ord\<close>: declaration order.\<close>

instantiation RuntimeMode :: linorder
begin

definition less_eq_RuntimeMode :: "RuntimeMode \<Rightarrow> RuntimeMode \<Rightarrow> bool" where
  "less_eq_RuntimeMode a b \<longleftrightarrow> mode_rank a \<le> mode_rank b"

definition less_RuntimeMode :: "RuntimeMode \<Rightarrow> RuntimeMode \<Rightarrow> bool" where
  "less_RuntimeMode a b \<longleftrightarrow> mode_rank a < mode_rank b"

instance
  by standard (auto simp: less_eq_RuntimeMode_def less_RuntimeMode_def intro: mode_rank_inj)

end

definition permits :: "RuntimeMode \<Rightarrow> RuntimeMode \<Rightarrow> bool" where
  "permits m child \<longleftrightarrow> child \<le> m"

datatype InteractionMode = DefaultMode | PlanMode

definition interaction_permits :: "InteractionMode \<Rightarrow> InteractionMode \<Rightarrow> bool" where
  "interaction_permits m child \<longleftrightarrow> m = DefaultMode \<or> child = PlanMode"

datatype PermissionDecision = Accept | AcceptForSession | AcceptAlways | Decline | Cancel

datatype DecisionScope = Once | Session | Persistent

datatype RequestState = RsPending | RsResolved | RsExpired

record PermissionOption =
  po_id :: string
  po_label :: string
  po_decision :: PermissionDecision
  po_scope :: DecisionScope
  po_warning :: "string option"

record PermissionRequest =
  pr_id :: string
  pr_tool :: string
  pr_description :: string
  pr_options :: "PermissionOption list"
  pr_state :: RequestState
  pr_selected :: "string option"

definition default_option :: PermissionOption where
  "default_option = \<lparr>po_id = [], po_label = [], po_decision = Cancel, po_scope = Once,
     po_warning = None\<rparr>"

definition default_request :: PermissionRequest where
  "default_request = \<lparr>pr_id = [], pr_tool = [], pr_description = [], pr_options = [],
     pr_state = RsPending, pr_selected = None\<rparr>"

definition standard_request :: "string \<Rightarrow> string \<Rightarrow> bool \<Rightarrow> PermissionRequest" where
  "standard_request t d session = default_request\<lparr>pr_tool := t, pr_description := d,
     pr_options :=
       [default_option\<lparr>po_id := ''allow-once'', po_label := ''Allow once'',
          po_decision := Accept\<rparr>] @
       (if session
        then [default_option\<lparr>po_id := ''allow-session'', po_label := ''Allow for session'',
                po_decision := AcceptForSession, po_scope := Session\<rparr>]
        else []) @
       [default_option\<lparr>po_id := ''deny'', po_label := ''Deny'', po_decision := Decline\<rparr>]\<rparr>"

section \<open>Tool calls\<close>

datatype TodoStatus = TodoPending | TodoInProgress | TodoCompleted

definition todo_status_parse :: "string \<Rightarrow> TodoStatus" where
  "todo_status_parse raw =
     (if raw \<in> {''completed'', ''complete'', ''done''} then TodoCompleted
      else if raw \<in> {''in_progress'', ''inProgress'', ''in-progress'', ''active''} then TodoInProgress
      else TodoPending)"

record TodoItem =
  todo_text :: string
  todo_done :: bool
  todo_status_field :: "TodoStatus option"

definition todo_new :: "string \<Rightarrow> TodoStatus \<Rightarrow> TodoItem" where
  "todo_new t st = \<lparr>todo_text = t, todo_done = (st = TodoCompleted),
     todo_status_field = (if st = TodoInProgress then Some st else None)\<rparr>"

definition todo_status :: "TodoItem \<Rightarrow> TodoStatus" where
  "todo_status i =
     (if todo_done i then TodoCompleted
      else if todo_status_field i = Some TodoInProgress then TodoInProgress
      else TodoPending)"

lemma todo_status_new [simp]: "todo_status (todo_new t st) = st"
  by (cases st) (simp_all add: todo_status_def todo_new_def)

record ToolDiff =
  td_path :: string
  td_old :: "string option"
  td_new :: string

record UserInputQuestion =
  uq_id :: string
  uq_header :: string
  uq_question :: string
  uq_options :: "string list"
  uq_multi :: bool

datatype ToolCall =
  Exec string
| ReadFile string
| WriteFile string "string option"
| EditFile string "string option" "string option"
| ApplyPatch "string option"
| Search string "string option"
| Glob string
| WebFetch string "string option"
| WebSearch string
| Todo "TodoItem list"
| Mcp string string "json option"
| Unknown string "json option"

definition call_name :: "ToolCall \<Rightarrow> string option" where
  "call_name c = (case c of Unknown name _ \<Rightarrow> Some name | Mcp _ tool _ \<Rightarrow> Some tool | _ \<Rightarrow> None)"

definition call_input :: "ToolCall \<Rightarrow> json option" where
  "call_input c = (case c of Unknown _ i \<Rightarrow> i | Mcp _ _ i \<Rightarrow> i | _ \<Rightarrow> None)"

definition is_subagent_spawn :: "ToolCall \<Rightarrow> bool" where
  "is_subagent_spawn c = (case call_name c of None \<Rightarrow> False
     | Some n \<Rightarrow> n = ''Agent'' \<or> starts_with n ''Agent: '')"

definition SUBAGENT_MODEL_KEYS :: "string list" where
  "SUBAGENT_MODEL_KEYS = [''model'', ''modelId'', ''model_id'', ''subagent_model'']"

definition SUBAGENT_INPUT_KEEP :: "string list" where
  "SUBAGENT_INPUT_KEEP = [''description'', ''model'', ''modelId'', ''model_id'',
     ''run_in_background'', ''subagent_model'', ''subagent_type'']"

text \<open>\<open>find_map\<close>: the first \<open>Some\<close>.\<close>

fun find_map :: "('a \<Rightarrow> 'b option) \<Rightarrow> 'a list \<Rightarrow> 'b option" where
  "find_map f [] = None"
| "find_map f (x # xs) = (case f x of Some y \<Rightarrow> Some y | None \<Rightarrow> find_map f xs)"

definition subagent_model :: "ToolCall \<Rightarrow> string option" where
  "subagent_model c =
     (if \<not> is_subagent_spawn c then None
      else case call_input c of None \<Rightarrow> None
        | Some input \<Rightarrow>
            (case find_map (\<lambda>k. Option.bind (json_get k input) as_str) SUBAGENT_MODEL_KEYS of
               None \<Rightarrow> None
             | Some m \<Rightarrow> if trim m \<noteq> [] then Some (trim m) else None))"

section \<open>Events\<close>

datatype HarnessId =
  ClaudeCode | Codex | Cursor | Devin | Grok | Hermes | Pi | Opencode | Antigravity | Mock

datatype DoneStatus = Completed | Interrupted | Errored

record SlashCommand =
  sc_name :: string
  sc_description :: string
  sc_input_hint :: "string option"

record SessionTokenTotals =
  st_input :: nat
  st_output :: nat
  st_cache_read :: nat

record ContextUsage =
  cu_tokens :: "nat option"
  cu_window :: "nat option"
  cu_compact_at :: "nat option"
  cu_session :: "SessionTokenTotals option"

datatype AgentEvent =
  InputAccepted
| InputAcceptedFor string
| NativeReference string "string option"
| SessionStarted "string option" HarnessId string "string list" string string string
| TextDelta string
| GeneratedImage string string string string
| ReasoningDelta string
| AssistantMessageCompleted string
| EvToolCall string ToolCall
| ToolResult string bool "string option" "ToolDiff option"
| EvContextUsage "nat option" "nat option"
| ContextUsageSnapshot ContextUsage
| Usage nat nat
| AvailableCommands "SlashCommand list"
| EvError string
| InputRequested string "UserInputQuestion list"
| InputResolved string
| PermissionRequested PermissionRequest
| PermissionUpdated PermissionRequest
| RuntimePolicyConfigured RuntimeMode InteractionMode
| Steered "string option" "string option"
| Done DoneStatus "string option" "string option" "string option"
| UserMessage string
| Subagent string AgentEvent

section \<open>Stored form\<close>

definition decision_names :: "(string \<times> PermissionDecision) list" where
  "decision_names = [(''accept'', Accept), (''acceptForSession'', AcceptForSession),
     (''acceptAlways'', AcceptAlways), (''decline'', Decline), (''cancel'', Cancel)]"

definition scope_names :: "(string \<times> DecisionScope) list" where
  "scope_names = [(''once'', Once), (''session'', Session), (''persistent'', Persistent)]"

definition state_names :: "(string \<times> RequestState) list" where
  "state_names = [(''pending'', RsPending), (''resolved'', RsResolved), (''expired'', RsExpired)]"

definition todo_names :: "(string \<times> TodoStatus) list" where
  "todo_names = [(''pending'', TodoPending), (''inProgress'', TodoInProgress),
     (''completed'', TodoCompleted)]"

text \<open>The name a table gives a value.\<close>

definition enc_enum :: "(string \<times> 'a) list \<Rightarrow> 'a \<Rightarrow> json" where
  "enc_enum tbl x = (case List.find (\<lambda>p. snd p = x) tbl of
     Some p \<Rightarrow> JStr (fst p) | None \<Rightarrow> JNull)"

lemmas enum_tables = decision_names_def scope_names_def state_names_def todo_names_def

interpretation decision_codec:
  json_codec "enc_enum decision_names" "dec_enum decision_names" "\<lambda>_. True"
  by unfold_locales (case_tac [!] x, simp_all add: enc_enum_def decision_names_def)

interpretation scope_codec: json_codec "enc_enum scope_names" "dec_enum scope_names" "\<lambda>_. True"
  by unfold_locales (case_tac [!] x, simp_all add: enc_enum_def scope_names_def)

interpretation state_codec: json_codec "enc_enum state_names" "dec_enum state_names" "\<lambda>_. True"
  by unfold_locales (case_tac [!] x, simp_all add: enc_enum_def state_names_def)

interpretation todo_status_codec:
  json_codec "enc_enum todo_names" "dec_enum todo_names" "\<lambda>_. True"
  by unfold_locales (case_tac [!] x, simp_all add: enc_enum_def todo_names_def)

definition enc_option :: "PermissionOption \<Rightarrow> json" where
  "enc_option p = JObj ([(''id'', JStr (po_id p)), (''label'', JStr (po_label p)),
     (''decision'', enc_enum decision_names (po_decision p)),
     (''scope'', enc_enum scope_names (po_scope p))] @
     member_opt ''warning'' JStr (po_warning p))"

definition dec_option :: "json \<Rightarrow> PermissionOption option" where
  "dec_option v = do {
     is_obj v;
     i \<leftarrow> dflt [] as_str ''id'' v;
     l \<leftarrow> dflt [] as_str ''label'' v;
     d \<leftarrow> dflt Cancel (dec_enum decision_names) ''decision'' v;
     s \<leftarrow> dflt Once (dec_enum scope_names) ''scope'' v;
     w \<leftarrow> opt as_str ''warning'' v;
     Some \<lparr>po_id = i, po_label = l, po_decision = d, po_scope = s, po_warning = w\<rparr>}"

definition enc_request :: "PermissionRequest \<Rightarrow> json" where
  "enc_request r = JObj ([(''id'', JStr (pr_id r)), (''tool'', JStr (pr_tool r)),
     (''description'', JStr (pr_description r)),
     (''options'', JArr (map enc_option (pr_options r))),
     (''state'', enc_enum state_names (pr_state r))] @
     member_opt ''selectedOptionId'' JStr (pr_selected r))"

definition dec_request :: "json \<Rightarrow> PermissionRequest option" where
  "dec_request v = do {
     is_obj v;
     i \<leftarrow> dflt [] as_str ''id'' v;
     t \<leftarrow> dflt [] as_str ''tool'' v;
     d \<leftarrow> dflt [] as_str ''description'' v;
     os \<leftarrow> dflt [] (dec_vec dec_option) ''options'' v;
     s \<leftarrow> dflt RsPending (dec_enum state_names) ''state'' v;
     x \<leftarrow> opt as_str ''selectedOptionId'' v;
     Some \<lparr>pr_id = i, pr_tool = t, pr_description = d, pr_options = os, pr_state = s,
       pr_selected = x\<rparr>}"

definition enc_question :: "UserInputQuestion \<Rightarrow> json" where
  "enc_question q = JObj [(''id'', JStr (uq_id q)), (''header'', JStr (uq_header q)),
     (''question'', JStr (uq_question q)), (''options'', enc_strs (uq_options q)),
     (''multiSelect'', JBool (uq_multi q))]"

definition dec_question :: "json \<Rightarrow> UserInputQuestion option" where
  "dec_question v = do {
     is_obj v;
     i \<leftarrow> dflt [] as_str ''id'' v;
     h \<leftarrow> dflt [] as_str ''header'' v;
     q \<leftarrow> dflt [] as_str ''question'' v;
     os \<leftarrow> dflt [] (dec_vec as_str) ''options'' v;
     m \<leftarrow> dflt False as_bool ''multiSelect'' v;
     Some \<lparr>uq_id = i, uq_header = h, uq_question = q, uq_options = os, uq_multi = m\<rparr>}"

definition enc_diff :: "ToolDiff \<Rightarrow> json" where
  "enc_diff d = JObj ([(''path'', JStr (td_path d))] @ member_opt ''oldText'' JStr (td_old d) @
     [(''newText'', JStr (td_new d))])"

definition dec_diff :: "json \<Rightarrow> ToolDiff option" where
  "dec_diff v = do {
     p \<leftarrow> req as_str ''path'' v;
     old \<leftarrow> opt as_str ''oldText'' v;
     new \<leftarrow> req as_str ''newText'' v;
     Some \<lparr>td_path = p, td_old = old, td_new = new\<rparr>}"

text \<open>\<open>lenient_todo_status\<close>: an unreadable status is absent, not an error.\<close>

definition lenient_todo_status :: "json \<Rightarrow> TodoStatus option" where
  "lenient_todo_status v = (case json_get ''status'' v of None \<Rightarrow> None
     | Some x \<Rightarrow> dec_enum todo_names x)"

definition enc_todo :: "TodoItem \<Rightarrow> json" where
  "enc_todo i = JObj ([(''text'', JStr (todo_text i)), (''done'', JBool (todo_done i))] @
     member_opt ''status'' (enc_enum todo_names) (todo_status_field i))"

definition dec_todo :: "json \<Rightarrow> TodoItem option" where
  "dec_todo v = do {
     t \<leftarrow> req as_str ''text'' v;
     d \<leftarrow> req as_bool ''done'' v;
     Some \<lparr>todo_text = t, todo_done = d, todo_status_field = lenient_todo_status v\<rparr>}"

fun enc_call :: "ToolCall \<Rightarrow> json" where
  "enc_call (Exec c) = JObj [(''kind'', JStr ''exec''), (''command'', JStr c)]"
| "enc_call (ReadFile p) = JObj [(''kind'', JStr ''readFile''), (''path'', JStr p)]"
| "enc_call (WriteFile p c) =
     JObj ([(''kind'', JStr ''writeFile''), (''path'', JStr p)] @ member_opt ''content'' JStr c)"
| "enc_call (EditFile p a b) =
     JObj ([(''kind'', JStr ''editFile''), (''path'', JStr p)] @
       member_opt ''old_string'' JStr a @ member_opt ''new_string'' JStr b)"
| "enc_call (ApplyPatch p) = JObj ([(''kind'', JStr ''applyPatch'')] @ member_opt ''path'' JStr p)"
| "enc_call (Search s p) =
     JObj ([(''kind'', JStr ''search''), (''pattern'', JStr s)] @ member_opt ''path'' JStr p)"
| "enc_call (Glob s) = JObj [(''kind'', JStr ''glob''), (''pattern'', JStr s)]"
| "enc_call (WebFetch u p) =
     JObj ([(''kind'', JStr ''webFetch''), (''url'', JStr u)] @ member_opt ''prompt'' JStr p)"
| "enc_call (WebSearch q) = JObj [(''kind'', JStr ''webSearch''), (''query'', JStr q)]"
| "enc_call (Todo is) = JObj [(''kind'', JStr ''todo''), (''items'', JArr (map enc_todo is))]"
| "enc_call (Mcp s t i) =
     JObj ([(''kind'', JStr ''mcp''), (''server'', JStr s), (''tool'', JStr t)] @
       member_opt ''input'' (\<lambda>v. v) i)"
| "enc_call (Unknown n i) =
     JObj ([(''kind'', JStr ''unknown''), (''name'', JStr n)] @ member_opt ''input'' (\<lambda>v. v) i)"

text \<open>One decoder per tag.\<close>

definition call_decoders :: "(string \<times> (json \<Rightarrow> ToolCall option)) list" where
  "call_decoders =
    [(''exec'', \<lambda>v. do { c \<leftarrow> req as_str ''command'' v; Some (Exec c) }),
     (''readFile'', \<lambda>v. do { p \<leftarrow> req as_str ''path'' v; Some (ReadFile p) }),
     (''writeFile'', \<lambda>v. do { p \<leftarrow> req as_str ''path'' v; c \<leftarrow> opt as_str ''content'' v;
        Some (WriteFile p c) }),
     (''editFile'', \<lambda>v. do { p \<leftarrow> req as_str ''path'' v; a \<leftarrow> opt as_str ''old_string'' v;
        b \<leftarrow> opt as_str ''new_string'' v; Some (EditFile p a b) }),
     (''applyPatch'', \<lambda>v. do { p \<leftarrow> opt as_str ''path'' v; Some (ApplyPatch p) }),
     (''search'', \<lambda>v. do { s \<leftarrow> req as_str ''pattern'' v; p \<leftarrow> opt as_str ''path'' v;
        Some (Search s p) }),
     (''glob'', \<lambda>v. do { s \<leftarrow> req as_str ''pattern'' v; Some (Glob s) }),
     (''webFetch'', \<lambda>v. do { u \<leftarrow> req as_str ''url'' v; p \<leftarrow> opt as_str ''prompt'' v;
        Some (WebFetch u p) }),
     (''webSearch'', \<lambda>v. do { q \<leftarrow> req as_str ''query'' v; Some (WebSearch q) }),
     (''todo'', \<lambda>v. do { xs \<leftarrow> dflt [] (dec_vec dec_todo) ''items'' v; Some (Todo xs) }),
     (''mcp'', \<lambda>v. do { s \<leftarrow> req as_str ''server'' v; t \<leftarrow> req as_str ''tool'' v;
        i \<leftarrow> opt Some ''input'' v; Some (Mcp s t i) }),
     (''unknown'', \<lambda>v. do { n \<leftarrow> req as_str ''name'' v; i \<leftarrow> opt Some ''input'' v;
        Some (Unknown n i) })]"

definition dec_call :: "json \<Rightarrow> ToolCall option" where
  "dec_call v = do {
     k \<leftarrow> req as_str ''kind'' v;
     d \<leftarrow> map_of call_decoders k;
     d v}"

text \<open>A stored input is never the JSON \<open>null\<close>, which reads back as absent.\<close>

definition call_storable :: "ToolCall \<Rightarrow> bool" where
  "call_storable c \<longleftrightarrow> call_input c \<noteq> Some JNull"

section \<open>The stored types keep their contract\<close>

interpretation option_codec: json_codec enc_option dec_option "\<lambda>_. True"
proof
  fix x :: PermissionOption
  show "dec_option (enc_option x) = Some x"
    by (cases "po_warning x")
       (simp_all add: enc_option_def dec_option_def wire_simps decision_codec.dec_enc
         scope_codec.dec_enc)
qed (simp add: enc_option_def)

interpretation request_codec: json_codec enc_request dec_request "\<lambda>_. True"
proof
  fix x :: PermissionRequest
  show "dec_request (enc_request x) = Some x"
    by (cases "pr_selected x")
       (simp_all add: enc_request_def dec_request_def wire_simps state_codec.dec_enc
         option_codec.dec_vec_enc)
qed (simp add: enc_request_def)

interpretation question_codec: json_codec enc_question dec_question "\<lambda>_. True"
  by unfold_locales
     (simp_all add: enc_question_def dec_question_def wire_simps strs_codec.dec_enc)

interpretation diff_codec: json_codec enc_diff dec_diff "\<lambda>_. True"
proof
  fix x :: ToolDiff
  show "dec_diff (enc_diff x) = Some x"
    by (cases "td_old x") (simp_all add: enc_diff_def dec_diff_def wire_simps)
qed (simp add: enc_diff_def)

lemma todo_status_read:
  "lenient_todo_status (enc_todo i) = todo_status_field i"
  by (cases "todo_status_field i")
     (simp_all add: lenient_todo_status_def enc_todo_def wire_simps todo_status_codec.dec_enc)

interpretation todo_codec: json_codec enc_todo dec_todo "\<lambda>_. True"
  by unfold_locales
     (simp_all add: dec_todo_def todo_status_read, simp_all add: enc_todo_def wire_simps)

lemma dec_call_tag:
  "map_of call_decoders k = Some d \<Longrightarrow> dec_call (JObj ((''kind'', JStr k) # m)) =
     d (JObj ((''kind'', JStr k) # m))"
  by (simp add: dec_call_def wire_simps)

lemma call_roundtrip: "call_storable c \<Longrightarrow> dec_call (enc_call c) = Some c"
proof (cases c)
  case (WriteFile p x) then show ?thesis
    by (cases x) (simp_all add: dec_call_tag call_decoders_def wire_simps)
next
  case (EditFile p a b) then show ?thesis
    by (cases a; cases b) (simp_all add: dec_call_tag call_decoders_def wire_simps)
next
  case (ApplyPatch x) then show ?thesis
    by (cases x) (simp_all add: dec_call_tag call_decoders_def wire_simps)
next
  case (Search p x) then show ?thesis
    by (cases x) (simp_all add: dec_call_tag call_decoders_def wire_simps)
next
  case (WebFetch p x) then show ?thesis
    by (cases x) (simp_all add: dec_call_tag call_decoders_def wire_simps)
next
  case (Mcp p q x)
  moreover assume "call_storable c"
  ultimately show ?thesis
    by (cases x)
       (simp_all add: dec_call_tag call_decoders_def wire_simps call_storable_def call_input_def)
next
  case (Unknown p x)
  moreover assume "call_storable c"
  ultimately show ?thesis
    by (cases x)
       (simp_all add: dec_call_tag call_decoders_def wire_simps call_storable_def call_input_def)
qed (simp_all add: dec_call_tag call_decoders_def wire_simps todo_codec.dec_vec_enc)

interpretation call_codec: json_codec enc_call dec_call call_storable
  by unfold_locales (simp add: call_roundtrip, case_tac x, simp_all)

end
