(* ===== verification/Parts.thy ===== *)
theory Parts
  imports Agent
begin

text \<open>
  \<open>crates/doc/src/parts.rs\<close>: message parts, the event fold that builds the parts of a
  streaming message, the render-only privacy policy and continuation splitting; and the
  reader of the background flag of a spawn, \<open>crates/ui/src/subagents.rs\<close>.

  Two third-party functions are parameters: \<open>ld\<close>, the insert and delete counts of
  \<open>similar::TextDiff::from_lines\<close>, and \<open>jlen\<close>, the byte length of \<open>serde_json::to_vec\<close>.
\<close>

section \<open>Output summaries\<close>

definition newline :: char where "newline = CHR 0x0A"

definition strip_cr :: "string \<Rightarrow> string" where
  "strip_cr l = (if l \<noteq> [] \<and> last l = CHR 0x0D then butlast l else l)"

text \<open>\<open>str::lines\<close>: a carriage return goes with the newline it precedes, and a trailing
  newline opens no line.\<close>

fun lines_from :: "string \<Rightarrow> string \<Rightarrow> string list" where
  "lines_from acc [] = (if acc = [] then [] else [acc])"
| "lines_from acc (c # s) =
     (if c = newline then strip_cr acc # lines_from [] s else lines_from (acc @ [c]) s)"

definition str_lines :: "string \<Rightarrow> string list" where
  "str_lines s = lines_from [] s"

fun join_lines :: "string list \<Rightarrow> string" where
  "join_lines [] = []"
| "join_lines [l] = l"
| "join_lines (l # ls) = l @ newline # join_lines ls"

definition TOOL_OUTPUT_SUMMARY_MAX :: nat where
  "TOOL_OUTPUT_SUMMARY_MAX = 160"

text \<open>The bytes of the first \<open>n\<close> characters.\<close>

fun char_take :: "nat \<Rightarrow> string \<Rightarrow> string" where
  "char_take n [] = []"
| "char_take n (c # s) =
     (if is_cont c then c # char_take n s
      else case n of 0 \<Rightarrow> [] | Suc m \<Rightarrow> c # char_take m s)"

definition ellipsis :: string where
  "ellipsis = [CHR 0xE2, CHR 0x80, CHR 0xA6]"

definition summarize_tool_output :: "string \<Rightarrow> string option" where
  "summarize_tool_output text =
     (let kept = filter (\<lambda>l. \<not> starts_with (trim_start l) ''```'') (str_lines text);
          stripped = trim (join_lines kept)
      in if stripped = [] then None
         else if char_count stripped \<le> TOOL_OUTPUT_SUMMARY_MAX then Some stripped
         else (let line = trim_end (case List.find (\<lambda>l. trim l \<noteq> []) (str_lines stripped) of
                     Some l \<Rightarrow> l | None \<Rightarrow> stripped)
               in Some (char_take TOOL_OUTPUT_SUMMARY_MAX line @ ellipsis)))"

section \<open>Parts\<close>

record ToolDiffStat =
  ds_path :: string
  ds_additions :: nat
  ds_deletions :: nat

definition diff_stat :: "(string \<Rightarrow> string \<Rightarrow> nat \<times> nat) \<Rightarrow> ToolDiff \<Rightarrow> ToolDiffStat" where
  "diff_stat ld d =
     (case (case td_old d of None \<Rightarrow> (length (str_lines (td_new d)), 0)
            | Some old \<Rightarrow> ld old (td_new d)) of
        (a, r) \<Rightarrow> \<lparr>ds_path = td_path d, ds_additions = a, ds_deletions = r\<rparr>)"

datatype MessageStatus = Streaming | Complete | Aborted

datatype SubagentStatus = SubRunning | SubDone | SubFailed

record ToolPart =
  tp_id :: string
  tp_call :: ToolCall
  tp_is_error :: bool
  tp_resolved :: bool
  tp_output :: "string option"
  tp_diff :: "ToolDiff option"
  tp_output_ref :: "string option"
  tp_output_bytes :: "nat option"
  tp_diff_ref :: "string option"
  tp_diff_stats :: "ToolDiffStat list option"
  tp_subagent_ref :: "string option"
  tp_subagent_status :: "SubagentStatus option"
  tp_subagent_tail :: "string option"

datatype MessagePart =
  MpText string string
| MpImage string string string string
| MpReasoning string string
| MpTool ToolPart
| MpInput string string "UserInputQuestion list" bool
| MpPermission string PermissionRequest
| MpError string string

fun part_id :: "MessagePart \<Rightarrow> string" where
  "part_id (MpText i _) = i"
| "part_id (MpImage i _ _ _) = i"
| "part_id (MpReasoning i _) = i"
| "part_id (MpTool t) = tp_id t"
| "part_id (MpInput i _ _ _) = i"
| "part_id (MpPermission i _) = i"
| "part_id (MpError i _) = i"

definition enc_stat :: "ToolDiffStat \<Rightarrow> json" where
  "enc_stat s = JObj [(''path'', JStr (ds_path s)), (''additions'', enc_u64 (ds_additions s)),
     (''deletions'', enc_u64 (ds_deletions s))]"

definition dec_stat :: "json \<Rightarrow> ToolDiffStat option" where
  "dec_stat v = do {
     p \<leftarrow> req as_str ''path'' v;
     a \<leftarrow> req as_u64 ''additions'' v;
     d \<leftarrow> req as_u64 ''deletions'' v;
     Some \<lparr>ds_path = p, ds_additions = a, ds_deletions = d\<rparr>}"

definition stat_ok :: "ToolDiffStat \<Rightarrow> bool" where
  "stat_ok s \<longleftrightarrow> ds_additions s < 2 ^ 64 \<and> ds_deletions s < 2 ^ 64"

interpretation stat_codec: json_codec enc_stat dec_stat stat_ok
  by unfold_locales
     (simp_all add: enc_stat_def dec_stat_def stat_ok_def wire_simps u64_codec.dec_enc)

definition opt_len :: "('a \<Rightarrow> nat) \<Rightarrow> 'a option \<Rightarrow> nat" where
  "opt_len f x = (case x of None \<Rightarrow> 0 | Some v \<Rightarrow> f v)"

fun byte_len :: "(json \<Rightarrow> nat) \<Rightarrow> MessagePart \<Rightarrow> nat" where
  "byte_len jlen (MpText _ t) = length t"
| "byte_len jlen (MpReasoning _ t) = length t"
| "byte_len jlen (MpTool t) =
     jlen (enc_call (tp_call t)) + opt_len length (tp_output t) +
     opt_len (\<lambda>d. jlen (enc_diff d)) (tp_diff t) +
     opt_len (\<lambda>ss. jlen (JArr (map enc_stat ss))) (tp_diff_stats t)"
| "byte_len jlen (MpInput _ _ qs _) = jlen (JArr (map enc_question qs))"
| "byte_len jlen (MpPermission _ r) = jlen (enc_request r)"
| "byte_len jlen (MpImage i p n m) = length i + length p + length n + length m"
| "byte_len jlen (MpError _ m) = length m"

section \<open>The event fold\<close>

definition new_tool :: "string \<Rightarrow> ToolCall \<Rightarrow> ToolPart" where
  "new_tool i c = \<lparr>tp_id = i, tp_call = c, tp_is_error = False, tp_resolved = False,
     tp_output = None, tp_diff = None, tp_output_ref = None, tp_output_bytes = None,
     tp_diff_ref = None, tp_diff_stats = None, tp_subagent_ref = None,
     tp_subagent_status = None, tp_subagent_tail = None\<rparr>"

text \<open>\<open>iter_mut().find\<close>: rewrite the first element that matches.\<close>

fun update_first :: "('a \<Rightarrow> bool) \<Rightarrow> ('a \<Rightarrow> 'a) \<Rightarrow> 'a list \<Rightarrow> 'a list" where
  "update_first P f [] = []"
| "update_first P f (x # xs) = (if P x then f x # xs else x # update_first P f xs)"

fun is_tool :: "string \<Rightarrow> MessagePart \<Rightarrow> bool" where
  "is_tool i (MpTool t) \<longleftrightarrow> tp_id t = i"
| "is_tool i _ \<longleftrightarrow> False"

fun map_tool :: "(ToolPart \<Rightarrow> ToolPart) \<Rightarrow> MessagePart \<Rightarrow> MessagePart" where
  "map_tool f (MpTool t) = MpTool (f t)"
| "map_tool f p = p"

definition on_tool :: "string \<Rightarrow> (ToolPart \<Rightarrow> ToolPart) \<Rightarrow> MessagePart \<Rightarrow> MessagePart" where
  "on_tool i f p = (if is_tool i p then map_tool f p else p)"

fun is_permission :: "string \<Rightarrow> MessagePart \<Rightarrow> bool" where
  "is_permission i (MpPermission _ r) \<longleftrightarrow> pr_id r = i"
| "is_permission i _ \<longleftrightarrow> False"

fun update_permission :: "PermissionRequest \<Rightarrow> MessagePart \<Rightarrow> MessagePart" where
  "update_permission r (MpPermission i c) = MpPermission i (if pr_id c = pr_id r then r else c)"
| "update_permission r p = p"

fun resolve_input_part :: "string \<Rightarrow> MessagePart \<Rightarrow> MessagePart" where
  "resolve_input_part rid (MpInput i r qs b) = MpInput i r qs (if r = rid then True else b)"
| "resolve_input_part rid p = p"

definition tool_result ::
  "(string \<Rightarrow> string \<Rightarrow> nat \<times> nat) \<Rightarrow> bool \<Rightarrow> ToolDiff option \<Rightarrow> ToolPart \<Rightarrow> ToolPart" where
  "tool_result ld is_error diff t = t\<lparr>tp_is_error := is_error, tp_resolved := True,
     tp_output := None, tp_output_bytes := None, tp_diff := None,
     tp_diff_stats := map_option (\<lambda>d. [diff_stat ld d]) diff\<rparr>"

text \<open>What a tagged event says of the subagent's lifecycle.\<close>

fun lifecycle :: "AgentEvent \<Rightarrow> SubagentStatus option" where
  "lifecycle (Done st _ _ _) = Some (if st = Errored then SubFailed else SubDone)"
| "lifecycle (UserMessage _) = Some SubRunning"
| "lifecycle (Steered _ _) = Some SubRunning"
| "lifecycle _ = None"

definition subagent_step :: "SubagentStatus option \<Rightarrow> ToolPart \<Rightarrow> ToolPart" where
  "subagent_step st t =
     (if \<not> is_subagent_spawn (tp_call t) then t
      else case st of Some s \<Rightarrow> t\<lparr>tp_subagent_status := Some s\<rparr>
        | None \<Rightarrow>
            (if tp_subagent_status t \<in> {Some SubDone, Some SubFailed} then t
             else t\<lparr>tp_subagent_status := Some SubRunning\<rparr>))"

definition add_text :: "string \<Rightarrow> MessagePart list \<Rightarrow> MessagePart list" where
  "add_text text ps =
     (case (if ps = [] then None else Some (last ps)) of
        Some (MpText i tail) \<Rightarrow> butlast ps @ [MpText i (tail @ text)]
      | _ \<Rightarrow> ps @ [MpText (''t'' @ decimal (length ps)) text])"

definition add_reasoning :: "string \<Rightarrow> MessagePart list \<Rightarrow> MessagePart list" where
  "add_reasoning text ps =
     (case (if ps = [] then None else Some (last ps)) of
        Some (MpReasoning i tail) \<Rightarrow> butlast ps @ [MpReasoning i (tail @ text)]
      | _ \<Rightarrow> ps @ [MpReasoning (''r'' @ decimal (length ps)) text])"

definition add_error :: "string \<Rightarrow> MessagePart list \<Rightarrow> MessagePart list" where
  "add_error m ps = ps @ [MpError (''e'' @ decimal (length ps)) m]"

fun fold_event_into_parts ::
  "(string \<Rightarrow> string \<Rightarrow> nat \<times> nat) \<Rightarrow> AgentEvent \<Rightarrow> MessagePart list \<Rightarrow> MessagePart list" where
  "fold_event_into_parts ld (SessionStarted _ _ _ _ _ _ _) ps = []"
| "fold_event_into_parts ld (Steered _ _) ps = []"
| "fold_event_into_parts ld (TextDelta text) ps = add_text text ps"
| "fold_event_into_parts ld (GeneratedImage i p n m) ps =
     (if \<exists>x \<in> set ps. part_id x = i
      then update_first (\<lambda>x. part_id x = i) (\<lambda>_. MpImage i p n m) ps
      else ps @ [MpImage i p n m])"
| "fold_event_into_parts ld (ReasoningDelta text) ps =
     (if text = [] then ps else add_reasoning text ps)"
| "fold_event_into_parts ld (EvToolCall i c) ps =
     (if \<exists>x \<in> set ps. is_tool i x
      then update_first (is_tool i) (map_tool (\<lambda>t. t\<lparr>tp_call := c\<rparr>)) ps
      else ps @ [MpTool (new_tool i c)])"
| "fold_event_into_parts ld (ToolResult i is_error out diff) ps =
     map (on_tool i (tool_result ld is_error diff)) ps"
| "fold_event_into_parts ld (InputRequested rid qs) ps =
     (if \<exists>x \<in> set ps. part_id x = ''in-'' @ rid then ps
      else ps @ [MpInput (''in-'' @ rid) rid qs False])"
| "fold_event_into_parts ld (InputResolved rid) ps = map (resolve_input_part rid) ps"
| "fold_event_into_parts ld (PermissionRequested r) ps =
     (if \<exists>x \<in> set ps. is_permission (pr_id r) x then ps
      else ps @ [MpPermission (''permission-'' @ pr_id r) r])"
| "fold_event_into_parts ld (PermissionUpdated r) ps = map (update_permission r) ps"
| "fold_event_into_parts ld (EvError m) ps = add_error m ps"
| "fold_event_into_parts ld (Done _ _ e _) ps = (case e of None \<Rightarrow> ps | Some m \<Rightarrow> add_error m ps)"
| "fold_event_into_parts ld (Subagent parent ev) ps =
     map (on_tool parent (subagent_step (lifecycle ev))) ps"
| "fold_event_into_parts ld _ ps = ps"

definition fold_events ::
  "(string \<Rightarrow> string \<Rightarrow> nat \<times> nat) \<Rightarrow> AgentEvent list \<Rightarrow> MessagePart list \<Rightarrow> MessagePart list" where
  "fold_events ld evs ps = fold (fold_event_into_parts ld) evs ps"

lemma fold_events_simps [simp]:
  "fold_events ld [] ps = ps"
  "fold_events ld (e # evs) ps = fold_events ld evs (fold_event_into_parts ld e ps)"
  "fold_events ld (evs @ evs') ps = fold_events ld evs' (fold_events ld evs ps)"
  by (simp_all add: fold_events_def)

section \<open>Sidecar\<close>

definition stamp_refs :: "string \<Rightarrow> ToolPart \<Rightarrow> ToolPart" where
  "stamp_refs chat t =
     (if \<not> tp_resolved t then t
      else
        (let t1 = (if tp_output_ref t = None \<and> tp_output_bytes t \<noteq> None
                   then t\<lparr>tp_output_ref := Some (chat @ ''/'' @ tp_id t)\<rparr> else t)
         in if tp_diff_ref t1 = None \<and> tp_diff_stats t1 \<noteq> None
            then t1\<lparr>tp_diff_ref := Some (chat @ ''/'' @ tp_id t1 @ ''.diff'')\<rparr> else t1))"

definition apply_sidecar_refs :: "string \<Rightarrow> MessagePart list \<Rightarrow> MessagePart list" where
  "apply_sidecar_refs chat ps = map (map_tool (stamp_refs chat)) ps"

record SidecarPayload =
  sp_part_id :: string
  sp_output :: "string option"
  sp_diff :: "ToolDiff option"

definition sidecar_payload :: "AgentEvent \<Rightarrow> SidecarPayload option" where
  "sidecar_payload ev =
     (case ev of ToolResult i _ out diff \<Rightarrow>
        (let kept = (case out of None \<Rightarrow> None | Some o' \<Rightarrow> if trim o' \<noteq> [] then Some o' else None)
         in if kept = None \<and> diff = None then None
            else Some \<lparr>sp_part_id = i, sp_output = kept, sp_diff = diff\<rparr>)
      | _ \<Rightarrow> None)"

section \<open>The privacy policy\<close>

text \<open>\<open>filter_map\<close> over the kept keys, collected into an insertion-ordered object.\<close>

definition kept_member :: "json \<Rightarrow> string \<Rightarrow> (string \<times> json) option" where
  "kept_member input k = do {
     v \<leftarrow> json_get k input;
     s \<leftarrow> as_str v;
     if trim s \<noteq> [] then Some (k, JStr (trim s)) else None}"

definition kept_members :: "json \<Rightarrow> (string \<times> json) list" where
  "kept_members input = List.map_filter (kept_member input) SUBAGENT_INPUT_KEEP"

definition spawn_badge :: "ToolCall \<Rightarrow> json option" where
  "spawn_badge c =
     (if \<not> is_subagent_spawn c then None
      else case call_input c of None \<Rightarrow> None
        | Some input \<Rightarrow>
            (if kept_members input \<noteq> [] then Some (JObj (kept_members input)) else None))"

fun sanitize_tool_call :: "ToolCall \<Rightarrow> ToolCall" where
  "sanitize_tool_call (WriteFile p _) = WriteFile p None"
| "sanitize_tool_call (EditFile p _ _) = EditFile p None None"
| "sanitize_tool_call (WebFetch u _) = WebFetch u None"
| "sanitize_tool_call (Mcp s t i) = Mcp s t (spawn_badge (Mcp s t i))"
| "sanitize_tool_call (Unknown n i) = Unknown n (spawn_badge (Unknown n i))"
| "sanitize_tool_call c = c"

text \<open>The reader of the flag in the agents panel.\<close>

definition ascii_lower :: "char \<Rightarrow> char" where
  "ascii_lower c = (if of_char c \<in> {65..90::nat} then char_of (of_char c + 32 :: nat) else c)"

definition is_background_spawn :: "json option \<Rightarrow> bool" where
  "is_background_spawn input =
     (case Option.bind input (json_get ''run_in_background'') of
        Some (JBool flag) \<Rightarrow> flag
      | Some (JStr flag) \<Rightarrow> map ascii_lower (trim flag) = ''true''
      | _ \<Rightarrow> False)"

section \<open>Continuation splitting\<close>

definition MSG_INLINE_MAX :: nat where
  "MSG_INLINE_MAX = 256 * 1024"

definition continuation_id :: "string \<Rightarrow> nat \<Rightarrow> string" where
  "continuation_id root i = root @ ''#c'' @ decimal i"

text \<open>The inner \<open>while\<close>: back to a character boundary.\<close>

fun back_to_boundary :: "string \<Rightarrow> nat \<Rightarrow> nat" where
  "back_to_boundary s 0 = 0"
| "back_to_boundary s (Suc e) =
     (if Suc e < length s \<and> \<not> is_char_boundary s (Suc e) then back_to_boundary s e else Suc e)"

definition piece_end :: "nat \<Rightarrow> string \<Rightarrow> nat \<Rightarrow> nat" where
  "piece_end cap s start =
     (let e = back_to_boundary s (min (start + cap) (length s))
      in if e \<le> start then length s else e)"

lemma piece_end_gt: "start < length s \<Longrightarrow> start < piece_end cap s start"
  by (simp add: piece_end_def Let_def)

function text_pieces :: "nat \<Rightarrow> string \<Rightarrow> nat \<Rightarrow> string list" where
  "text_pieces cap s start =
     (if start < length s
      then take (piece_end cap s start - start) (drop start s) #
           text_pieces cap s (piece_end cap s start)
      else [])"
  by pat_completeness auto
termination
  by (relation "measure (\<lambda>(cap, s, start). length s - start)")
     (auto simp: diff_less_mono2 piece_end_gt)

declare text_pieces.simps [simp del]

definition sub_id :: "string \<Rightarrow> nat \<Rightarrow> string" where
  "sub_id i piece = (if piece = 0 then i else i @ ''~'' @ decimal piece)"

text \<open>What one part becomes: itself, or the pieces of an oversized body.\<close>

fun part_pieces :: "nat \<Rightarrow> MessagePart \<Rightarrow> MessagePart list" where
  "part_pieces cap (MpText i t) =
     (if cap < length t
      then map (\<lambda>(n, body). MpText (sub_id i n) body) (enumerate 0 (text_pieces cap t 0))
      else [MpText i t])"
| "part_pieces cap (MpReasoning i t) =
     (if cap < length t
      then map (\<lambda>(n, body). MpReasoning (sub_id i n) body) (enumerate 0 (text_pieces cap t 0))
      else [MpReasoning i t])"
| "part_pieces cap p = [p]"

text \<open>\<open>push_part\<close>: a new chunk when a non-empty one would pass the cap.\<close>

definition push_chunk ::
  "(json \<Rightarrow> nat) \<Rightarrow> nat \<Rightarrow> MessagePart \<Rightarrow> MessagePart list list \<times> nat \<Rightarrow>
   MessagePart list list \<times> nat" where
  "push_chunk jlen cap p st =
     (case st of (chunks, current) \<Rightarrow>
        (let len = byte_len jlen p;
             (chunks', current') =
               (if 0 < current \<and> cap < current + len then (chunks @ [[]], 0)
                else (chunks, current))
         in (butlast chunks' @ [last chunks' @ [p]], current' + len)))"

definition split_capped ::
  "(json \<Rightarrow> nat) \<Rightarrow> nat \<Rightarrow> MessagePart list \<Rightarrow> MessagePart list list" where
  "split_capped jlen cap ps =
     fst (fold (\<lambda>p st. fold (push_chunk jlen cap) (part_pieces cap p) st) ps ([[]], 0))"

definition split_parts :: "(json \<Rightarrow> nat) \<Rightarrow> MessagePart list \<Rightarrow> MessagePart list list" where
  "split_parts jlen ps = split_capped jlen MSG_INLINE_MAX ps"

definition join_continuations :: "MessagePart list list \<Rightarrow> MessagePart list" where
  "join_continuations chunks = concat chunks"

end
