(* ===== verification/Parts_Fold.thy ===== *)
theory Parts_Fold
  imports Parts
begin

text \<open>
  What the event fold of \<open>parts.rs\<close> guarantees of the parts it builds: their ids, the text
  they carry, what never enters them, and that re-delivered events change nothing. The
  privacy policy's fixpoint and whitelist are at the end.
\<close>

section \<open>Identities\<close>

datatype part_kind = KText | KImage | KReasoning | KTool | KInput | KPermission | KError

fun kind_of :: "MessagePart \<Rightarrow> part_kind" where
  "kind_of (MpText _ _) = KText"
| "kind_of (MpImage _ _ _ _) = KImage"
| "kind_of (MpReasoning _ _) = KReasoning"
| "kind_of (MpTool _) = KTool"
| "kind_of (MpInput _ _ _ _) = KInput"
| "kind_of (MpPermission _ _) = KPermission"
| "kind_of (MpError _ _) = KError"

text \<open>The id a generated part has at index \<open>n\<close>, or for its request.\<close>

fun id_at :: "nat \<Rightarrow> MessagePart \<Rightarrow> bool" where
  "id_at n (MpText i _) \<longleftrightarrow> i = ''t'' @ decimal n"
| "id_at n (MpReasoning i _) \<longleftrightarrow> i = ''r'' @ decimal n"
| "id_at n (MpError i _) \<longleftrightarrow> i = ''e'' @ decimal n"
| "id_at n (MpInput i rid _ _) \<longleftrightarrow> i = ''in-'' @ rid"
| "id_at n (MpPermission i r) \<longleftrightarrow> i = ''permission-'' @ pr_id r"
| "id_at n _ \<longleftrightarrow> True"

definition placed :: "MessagePart list \<Rightarrow> bool" where
  "placed ps \<longleftrightarrow> (\<forall>n < length ps. id_at n (ps ! n))"

text \<open>A later part never repeats the kind and id of an earlier one, and a later image
  repeats no id at all.\<close>

definition no_clash :: "MessagePart \<Rightarrow> MessagePart \<Rightarrow> bool" where
  "no_clash p q \<longleftrightarrow> (part_id p = part_id q \<longrightarrow> kind_of p \<noteq> kind_of q \<and> kind_of q \<noteq> KImage)"

definition tidy :: "MessagePart list \<Rightarrow> bool" where
  "tidy ps \<longleftrightarrow> placed ps \<and> sorted_wrt no_clash ps"

lemma placed_append: "placed (ps @ [p]) \<longleftrightarrow> placed ps \<and> id_at (length ps) p"
  by (auto simp: placed_def nth_append less_Suc_eq)

lemma tidy_append:
  "tidy ps \<Longrightarrow> id_at (length ps) p \<Longrightarrow> (\<And>x. x \<in> set ps \<Longrightarrow> no_clash x p) \<Longrightarrow> tidy (ps @ [p])"
  by (simp add: tidy_def placed_append sorted_wrt_append)

text \<open>A rewrite that keeps kinds, ids and request ids.\<close>

definition same_place :: "(MessagePart \<Rightarrow> MessagePart) \<Rightarrow> bool" where
  "same_place f \<longleftrightarrow> (\<forall>p. kind_of (f p) = kind_of p \<and> part_id (f p) = part_id p \<and>
     (\<forall>n. id_at n p \<longrightarrow> id_at n (f p)))"

lemma tidy_map: "same_place f \<Longrightarrow> tidy ps \<Longrightarrow> tidy (map f ps)"
  unfolding tidy_def placed_def same_place_def no_clash_def [abs_def] by (simp add: sorted_wrt_map)

lemma same_place_map_tool:
  "(\<And>t. tp_id (f t) = tp_id t) \<Longrightarrow> same_place (map_tool f)"
  unfolding same_place_def by (intro allI, case_tac p) simp_all

lemma same_place_on_tool:
  "(\<And>t. tp_id (f t) = tp_id t) \<Longrightarrow> same_place (on_tool i f)"
  using same_place_map_tool [of f] by (simp add: same_place_def on_tool_def)

lemma same_place_permission: "same_place (update_permission r)"
  unfolding same_place_def by (intro allI, case_tac p) auto

lemma same_place_input: "same_place (resolve_input_part rid)"
  unfolding same_place_def by (intro allI, case_tac p) simp_all

text \<open>Appending to the trailing text keeps its id.\<close>

lemma tidy_replace_last:
  assumes "tidy ps" "ps \<noteq> []" "kind_of p = kind_of (last ps)" "part_id p = part_id (last ps)"
    "\<And>n. id_at n (last ps) \<Longrightarrow> id_at n p"
  shows "tidy (butlast ps @ [p])"
proof -
  obtain qs q where ps: "ps = qs @ [q]" using assms(2) by (cases ps rule: rev_cases) auto
  have "tidy qs" "id_at (length qs) q" "\<forall>x \<in> set qs. no_clash x q"
    using assms(1) by (auto simp: ps tidy_def placed_append sorted_wrt_append)
  with assms(3-5) show ?thesis
    by (auto simp: ps no_clash_def intro!: tidy_append)
qed

lemma placed_at: "placed ps \<Longrightarrow> x \<in> set ps \<Longrightarrow> \<exists>n < length ps. id_at n x"
  by (auto simp: placed_def in_set_conv_nth)

lemma placed_split:
  "placed (us @ x # vs) \<longleftrightarrow> (\<forall>n < length us. id_at n (us ! n)) \<and> id_at (length us) x \<and>
     (\<forall>n < length vs. id_at (Suc (length us + n)) (vs ! n))"
proof (intro iffI conjI)
  assume p: "placed (us @ x # vs)"
  show "\<forall>n < length us. id_at n (us ! n)"
  proof (intro allI impI)
    fix n assume "n < length us"
    with p [unfolded placed_def, rule_format, of n] show "id_at n (us ! n)"
      by (simp add: nth_append)
  qed
  show "id_at (length us) x"
    using p [unfolded placed_def, rule_format, of "length us"] by (simp add: nth_append)
  show "\<forall>n < length vs. id_at (Suc (length us + n)) (vs ! n)"
  proof (intro allI impI)
    fix n assume "n < length vs"
    with p [unfolded placed_def, rule_format, of "Suc (length us + n)"]
    show "id_at (Suc (length us + n)) (vs ! n)" by (simp add: nth_append)
  qed
next
  assume q: "(\<forall>n < length us. id_at n (us ! n)) \<and> id_at (length us) x \<and>
     (\<forall>n < length vs. id_at (Suc (length us + n)) (vs ! n))"
  show "placed (us @ x # vs)"
    unfolding placed_def
  proof (intro allI impI)
    fix n assume n: "n < length (us @ x # vs)"
    show "id_at n ((us @ x # vs) ! n)"
    proof (cases "n \<le> length us")
      case True
      then show ?thesis using q by (auto simp: nth_append)
    next
      case False
      define k where "k = n - Suc (length us)"
      with False have "n = Suc (length us + k)" by simp
      then show ?thesis using q n by (simp add: nth_append)
    qed
  qed
qed

lemma placed_ids:
  assumes "placed ps" "x \<in> set ps" "kind_of x \<in> {KText, KReasoning, KError}"
  shows "\<exists>n < length ps. part_id x \<in> {''t'' @ decimal n, ''r'' @ decimal n, ''e'' @ decimal n}"
proof -
  obtain n where "n < length ps" "id_at n x" using placed_at [OF assms(1,2)] by blast
  with assms(3) show ?thesis by (cases x) auto
qed

lemma tidy_add_generated:
  assumes "tidy ps" "kind_of p \<in> {KText, KReasoning, KError}" "id_at (length ps) p"
  shows "tidy (ps @ [p])"
proof (rule tidy_append [OF assms(1,3)])
  fix x assume x: "x \<in> set ps"
  have pid: "part_id p \<in> {''t'' @ decimal (length ps), ''r'' @ decimal (length ps),
      ''e'' @ decimal (length ps)}"
    using assms(2,3) by (cases p) auto
  show "no_clash x p"
  proof (cases "kind_of x \<in> {KText, KReasoning, KError}")
    case True
    with placed_ids [OF _ x True] assms(1) obtain n where
      "n < length ps" "part_id x \<in> {''t'' @ decimal n, ''r'' @ decimal n, ''e'' @ decimal n}"
      by (auto simp: tidy_def)
    with pid show ?thesis by (auto simp: no_clash_def)
  next
    case False
    with assms(2) show ?thesis by (auto simp: no_clash_def)
  qed
qed

lemma tidy_add_text: "tidy ps \<Longrightarrow> tidy (add_text s ps)"
proof (cases ps rule: rev_cases)
  case (snoc qs q)
  moreover assume "tidy ps"
  ultimately show ?thesis
    using tidy_replace_last [of ps] tidy_add_generated [of ps "MpText (''t'' @ decimal (length ps)) s"]
    by (cases q) (auto simp: add_text_def)
qed (simp add: add_text_def tidy_def placed_def)

lemma tidy_add_reasoning: "tidy ps \<Longrightarrow> tidy (add_reasoning s ps)"
proof (cases ps rule: rev_cases)
  case (snoc qs q)
  moreover assume "tidy ps"
  ultimately show ?thesis
    using tidy_replace_last [of ps]
      tidy_add_generated [of ps "MpReasoning (''r'' @ decimal (length ps)) s"]
    by (cases q) (auto simp: add_reasoning_def)
qed (simp add: add_reasoning_def tidy_def placed_def)

lemma tidy_add_error: "tidy ps \<Longrightarrow> tidy (add_error m ps)"
  by (simp add: add_error_def tidy_add_generated)

lemma update_first_split:
  "\<exists>x \<in> set xs. P x \<Longrightarrow>
     \<exists>us x vs. xs = us @ x # vs \<and> P x \<and> (\<forall>u \<in> set us. \<not> P u) \<and>
       update_first P f xs = us @ f x # vs"
proof (induction xs)
  case (Cons a xs)
  show ?case
  proof (cases "P a")
    case True
    then show ?thesis by (intro exI [of _ "[]"]) simp
  next
    case False
    with Cons obtain us x vs where
      "xs = us @ x # vs \<and> P x \<and> (\<forall>u \<in> set us. \<not> P u) \<and> update_first P f xs = us @ f x # vs"
      by auto
    with False show ?thesis by (intro exI [of _ "a # us"]) auto
  qed
qed simp

lemma placed_middle:
  "placed (us @ x # vs) \<Longrightarrow> id_at (length us) y \<Longrightarrow> placed (us @ y # vs)"
  by (simp add: placed_split)

lemma tidy_image:
  assumes "tidy ps"
  shows "tidy (fold_event_into_parts ld (GeneratedImage i p n m) ps)"
proof (cases "\<exists>x \<in> set ps. part_id x = i")
  case True
  from update_first_split [OF True, of "\<lambda>_. MpImage i p n m"] obtain us x vs where
    *: "ps = us @ x # vs" "part_id x = i" "\<forall>u \<in> set us. part_id u \<noteq> i"
      "update_first (\<lambda>x. part_id x = i) (\<lambda>_. MpImage i p n m) ps = us @ MpImage i p n m # vs"
    by blast
  have "placed (us @ MpImage i p n m # vs)"
    using assms *(1) by (auto simp: tidy_def intro: placed_middle)
  moreover have "sorted_wrt no_clash (us @ MpImage i p n m # vs)"
    using assms *(1-3) by (auto simp: tidy_def sorted_wrt_append no_clash_def)
  ultimately show ?thesis using True *(4) by (simp add: tidy_def)
next
  case False
  then show ?thesis using assms by (auto intro!: tidy_append simp: no_clash_def)
qed

lemma update_first_map_tool:
  assumes "tidy ps" "\<exists>x \<in> set ps. is_tool i x" "\<And>t. tp_id (f t) = tp_id t"
  shows "tidy (update_first (is_tool i) (map_tool f) ps)"
proof -
  from update_first_split [OF assms(2), of "map_tool f"] obtain us x vs where
    *: "ps = us @ x # vs" "update_first (is_tool i) (map_tool f) ps = us @ map_tool f x # vs"
    by blast
  have same: "kind_of (map_tool f x) = kind_of x" "part_id (map_tool f x) = part_id x"
    "\<And>n. id_at n x \<Longrightarrow> id_at n (map_tool f x)"
    using same_place_map_tool [of f, OF assms(3)] by (simp_all add: same_place_def)
  have "id_at (length us) x" using assms(1) *(1) by (simp add: tidy_def placed_split)
  then have "placed (us @ map_tool f x # vs)"
    using assms(1) *(1) same(3) by (auto simp: tidy_def intro: placed_middle)
  moreover have "sorted_wrt no_clash (us @ map_tool f x # vs)"
    using assms(1) *(1) same(1,2) by (auto simp: tidy_def sorted_wrt_append no_clash_def)
  ultimately show ?thesis by (simp add: tidy_def *(2))
qed

lemma placed_request_ids:
  assumes "placed ps" "x \<in> set ps" "kind_of x = KPermission" "part_id x = ''permission-'' @ r"
  shows "is_permission r x"
proof -
  obtain n where "id_at n x" using placed_at [OF assms(1,2)] by blast
  with assms(3,4) show ?thesis by (cases x) auto
qed

lemma tidy_fold_event: "tidy ps \<Longrightarrow> tidy (fold_event_into_parts ld ev ps)"
proof (cases ev)
  case (SessionStarted a b c d e f g)
  then show ?thesis by (simp add: tidy_def placed_def)
next
  case (Steered a b)
  then show ?thesis by (simp add: tidy_def placed_def)
next
  case (EvToolCall i c)
  moreover assume t: "tidy ps"
  moreover have "tidy (ps @ [MpTool (new_tool i c)])" if "\<not> (\<exists>x \<in> set ps. is_tool i x)"
    using t
  proof (rule tidy_append)
    fix x assume "x \<in> set ps"
    with that show "no_clash x (MpTool (new_tool i c))"
      by (cases x) (auto simp: no_clash_def new_tool_def)
  qed simp
  ultimately show ?thesis by (auto intro: update_first_map_tool)
next
  case (InputRequested rid qs)
  moreover assume "tidy ps"
  ultimately show ?thesis by (auto intro!: tidy_append simp: no_clash_def)
next
  case (PermissionRequested r)
  moreover assume t: "tidy ps"
  moreover have "tidy (ps @ [MpPermission (''permission-'' @ pr_id r) r])"
    if "\<not> (\<exists>x \<in> set ps. is_permission (pr_id r) x)"
    using t
  proof (rule tidy_append)
    fix x assume "x \<in> set ps"
    with that t placed_request_ids [of ps x "pr_id r"]
    show "no_clash x (MpPermission (''permission-'' @ pr_id r) r)"
      by (auto simp: no_clash_def tidy_def)
  qed simp
  ultimately show ?thesis by auto
qed (auto simp: tidy_add_text tidy_add_reasoning tidy_add_error tidy_image tool_result_def
      subagent_step_def same_place_permission same_place_input
      intro!: tidy_map same_place_on_tool split: option.split simp del: fold_event_into_parts.simps(4))

lemma tidy_fold_events: "tidy ps \<Longrightarrow> tidy (fold_events ld evs ps)"
  by (induction evs arbitrary: ps) (simp_all add: tidy_fold_event)

section \<open>Re-delivered events\<close>

text \<open>Every event but the appending ones.\<close>

fun redeliverable :: "AgentEvent \<Rightarrow> bool" where
  "redeliverable (TextDelta _) \<longleftrightarrow> False"
| "redeliverable (ReasoningDelta t) \<longleftrightarrow> t = []"
| "redeliverable (EvError _) \<longleftrightarrow> False"
| "redeliverable (Done _ _ e _) \<longleftrightarrow> e = None"
| "redeliverable _ \<longleftrightarrow> True"

lemma update_first_idem:
  "(\<And>x. P x \<Longrightarrow> P (f x)) \<Longrightarrow> (\<And>x. f (f x) = f x) \<Longrightarrow>
     update_first P f (update_first P f xs) = update_first P f xs"
  by (induction xs) auto

lemma update_first_last:
  "\<not> (\<exists>x \<in> set xs. P x) \<Longrightarrow> P y \<Longrightarrow> update_first P f (xs @ [y]) = xs @ [f y]"
  by (induction xs) auto

lemma update_first_exists:
  "(\<And>x. P x \<Longrightarrow> P (f x)) \<Longrightarrow> (\<exists>x \<in> set (update_first P f xs). P x) \<longleftrightarrow> (\<exists>x \<in> set xs. P x)"
  by (induction xs) auto

lemma is_tool_map: "tp_id (f t) = tp_id t \<Longrightarrow> is_tool i (map_tool f (MpTool t)) = is_tool i (MpTool t)"
  by simp

lemma redeliver_call:
  "fold_event_into_parts ld (EvToolCall i c) (fold_event_into_parts ld (EvToolCall i c) ps) =
     fold_event_into_parts ld (EvToolCall i c) ps"
proof (cases "\<exists>x \<in> set ps. is_tool i x")
  case True
  let ?f = "map_tool (\<lambda>t. t\<lparr>tp_call := c\<rparr>)"
  have keep: "\<And>x. is_tool i x \<Longrightarrow> is_tool i (?f x)" "\<And>x. ?f (?f x) = ?f x"
    by (case_tac [!] x) simp_all
  from True show ?thesis
    by (simp add: update_first_exists [of "is_tool i" ?f, OF keep(1)] update_first_idem [of "is_tool i" ?f, OF keep])
next
  case False
  then show ?thesis by (simp add: update_first_last new_tool_def)
qed

lemma redeliver_image:
  "fold_event_into_parts ld (GeneratedImage i p n m)
     (fold_event_into_parts ld (GeneratedImage i p n m) ps) =
   fold_event_into_parts ld (GeneratedImage i p n m) ps"
proof (cases "\<exists>x \<in> set ps. part_id x = i")
  case True
  then show ?thesis by (simp add: update_first_exists update_first_idem)
next
  case False
  then show ?thesis by (simp add: update_first_last)
qed

lemma on_tool_idem:
  "(\<And>t. tp_id (f t) = tp_id t) \<Longrightarrow> (\<And>t. f (f t) = f t) \<Longrightarrow> on_tool i f (on_tool i f p) = on_tool i f p"
  by (cases p) (simp_all add: on_tool_def)

lemma subagent_step_idem: "subagent_step st (subagent_step st t) = subagent_step st t"
  by (auto simp: subagent_step_def split: option.split)

lemma subagent_step_id: "tp_id (subagent_step st t) = tp_id t"
  by (auto simp: subagent_step_def split: option.split)

lemma update_permission_idem: "update_permission r (update_permission r p) = update_permission r p"
  by (cases p) simp_all

lemma resolve_input_idem:
  "resolve_input_part r (resolve_input_part r p) = resolve_input_part r p"
  by (cases p) simp_all

section \<open>Text and privacy\<close>

fun text_body :: "MessagePart \<Rightarrow> string" where
  "text_body (MpText _ t) = t"
| "text_body _ = []"

fun reasoning_body :: "MessagePart \<Rightarrow> string" where
  "reasoning_body (MpReasoning _ t) = t"
| "reasoning_body _ = []"

definition texts :: "MessagePart list \<Rightarrow> string" where
  "texts ps = concat (map text_body ps)"

definition reasonings :: "MessagePart list \<Rightarrow> string" where
  "reasonings ps = concat (map reasoning_body ps)"

fun text_delta :: "AgentEvent \<Rightarrow> string" where
  "text_delta (TextDelta t) = t"
| "text_delta _ = []"

fun reasoning_delta :: "AgentEvent \<Rightarrow> string" where
  "reasoning_delta (ReasoningDelta t) = t"
| "reasoning_delta _ = []"

text \<open>Events that replace parts: the turn boundaries, and images.\<close>

fun replaces :: "AgentEvent \<Rightarrow> bool" where
  "replaces (SessionStarted _ _ _ _ _ _ _) \<longleftrightarrow> True"
| "replaces (Steered _ _) \<longleftrightarrow> True"
| "replaces (GeneratedImage _ _ _ _) \<longleftrightarrow> True"
| "replaces _ \<longleftrightarrow> False"

lemma bodies_simps [simp]:
  "texts [] = []" "texts (p # ps) = text_body p @ texts ps" "texts (ps @ qs) = texts ps @ texts qs"
  "reasonings [] = []" "reasonings (p # ps) = reasoning_body p @ reasonings ps"
  "reasonings (ps @ qs) = reasonings ps @ reasonings qs"
  by (simp_all add: texts_def reasonings_def)

lemma bodies_map:
  "(\<And>p. text_body (f p) = text_body p) \<Longrightarrow> texts (map f ps) = texts ps"
  "(\<And>p. reasoning_body (f p) = reasoning_body p) \<Longrightarrow> reasonings (map f ps) = reasonings ps"
  by (simp_all add: texts_def reasonings_def comp_def)

lemma bodies_update_first:
  "(\<And>p. text_body (f p) = text_body p) \<Longrightarrow> texts (update_first P f ps) = texts ps"
  "(\<And>p. reasoning_body (f p) = reasoning_body p) \<Longrightarrow>
     reasonings (update_first P f ps) = reasonings ps"
  by (induction ps) simp_all

lemma bodies_rewrites [simp]:
  "text_body (map_tool f p) = text_body p" "reasoning_body (map_tool f p) = reasoning_body p"
  "text_body (on_tool i f p) = text_body p" "reasoning_body (on_tool i f p) = reasoning_body p"
  "text_body (update_permission r p) = text_body p"
  "reasoning_body (update_permission r p) = reasoning_body p"
  "text_body (resolve_input_part rid p) = text_body p"
  "reasoning_body (resolve_input_part rid p) = reasoning_body p"
  by (cases p; simp add: on_tool_def)+

lemma bodies_add:
  "texts (add_text t ps) = texts ps @ t" "reasonings (add_text t ps) = reasonings ps"
  "reasonings (add_reasoning t ps) = reasonings ps @ t" "texts (add_reasoning t ps) = texts ps"
  "texts (add_error m ps) = texts ps" "reasonings (add_error m ps) = reasonings ps"
  by (cases ps rule: rev_cases;
      auto simp: add_text_def add_reasoning_def add_error_def split: MessagePart.split)+

lemma bodies_fold_event:
  "\<not> replaces ev \<Longrightarrow>
     texts (fold_event_into_parts ld ev ps) = texts ps @ text_delta ev \<and>
     reasonings (fold_event_into_parts ld ev ps) = reasonings ps @ reasoning_delta ev"
  by (cases ev)
     (auto simp: bodies_add bodies_map bodies_update_first split: option.split)

lemma bodies_fold_events:
  "list_all (\<lambda>ev. \<not> replaces ev) evs \<Longrightarrow>
     texts (fold_events ld evs ps) = texts ps @ concat (map text_delta evs) \<and>
     reasonings (fold_events ld evs ps) = reasonings ps @ concat (map reasoning_delta evs)"
  by (induction evs arbitrary: ps) (simp_all add: bodies_fold_event)

text \<open>A tool part that holds no output and no diff text.\<close>

fun outputless :: "MessagePart \<Rightarrow> bool" where
  "outputless (MpTool t) \<longleftrightarrow> tp_output t = None \<and> tp_diff t = None \<and>
     tp_output_bytes t = None \<and> tp_output_ref t = None"
| "outputless _ \<longleftrightarrow> True"

lemma outputless_update_first:
  "list_all outputless ps \<Longrightarrow> (\<And>p. outputless p \<Longrightarrow> outputless (f p)) \<Longrightarrow>
     list_all outputless (update_first P f ps)"
  by (induction ps) simp_all

lemma outputless_map:
  "list_all outputless ps \<Longrightarrow> (\<And>p. outputless p \<Longrightarrow> outputless (f p)) \<Longrightarrow>
     list_all outputless (map f ps)"
  by (simp add: list_all_iff)

lemma outputless_rewrites:
  "outputless p \<Longrightarrow> outputless (map_tool (\<lambda>t. t\<lparr>tp_call := c\<rparr>) p)"
  "outputless p \<Longrightarrow> outputless (on_tool i (subagent_step st) p)"
  "outputless p \<Longrightarrow> outputless (update_permission r p)"
  "outputless p \<Longrightarrow> outputless (resolve_input_part rid p)"
  by (cases p; auto simp: on_tool_def subagent_step_def split: option.split)+

lemma outputless_result:
  "outputless p \<Longrightarrow> outputless (on_tool i (tool_result ld b d) p)"
  by (cases p) (simp_all add: on_tool_def tool_result_def)

lemma outputless_add:
  "list_all outputless ps \<Longrightarrow> list_all outputless (add_text t ps)"
  "list_all outputless ps \<Longrightarrow> list_all outputless (add_reasoning t ps)"
  "list_all outputless ps \<Longrightarrow> list_all outputless (add_error m ps)"
  by (cases ps rule: rev_cases;
      auto simp: add_text_def add_reasoning_def add_error_def split: MessagePart.split)+

lemma outputless_fold_event:
  "list_all outputless ps \<Longrightarrow> list_all outputless (fold_event_into_parts ld ev ps)"
  by (cases ev)
     (auto simp: outputless_add outputless_rewrites outputless_result new_tool_def
       intro: outputless_update_first outputless_map split: option.split)

lemma outputless_fold_events:
  "list_all outputless ps \<Longrightarrow> list_all outputless (fold_events ld evs ps)"
  by (induction evs arbitrary: ps) (simp_all add: outputless_fold_event)

lemma outputless_refs: "list_all outputless ps \<Longrightarrow> list_all outputless (apply_sidecar_refs chat ps)"
proof -
  have "outputless p \<Longrightarrow> outputless (map_tool (stamp_refs chat) p)" for p
    by (cases p) (auto simp: stamp_refs_def Let_def)
  then show "list_all outputless ps \<Longrightarrow> ?thesis"
    by (simp add: apply_sidecar_refs_def outputless_map)
qed

section \<open>Sanitized calls\<close>

text \<open>What a stored call may hold: no file contents, edit strings or prompts, and of a tool
  input only short spawn identifiers.\<close>

definition badge_ok :: "json \<Rightarrow> bool" where
  "badge_ok v = (case v of
     JObj m \<Rightarrow> list_all (\<lambda>(k, x). k \<in> set SUBAGENT_INPUT_KEEP \<and>
       (case x of JStr s \<Rightarrow> s \<noteq> [] \<and> trim s = s | _ \<Rightarrow> False)) m
   | _ \<Rightarrow> False)"

fun doc_safe :: "ToolCall \<Rightarrow> bool" where
  "doc_safe (WriteFile _ c) \<longleftrightarrow> c = None"
| "doc_safe (EditFile _ a b) \<longleftrightarrow> a = None \<and> b = None"
| "doc_safe (WebFetch _ p) \<longleftrightarrow> p = None"
| "doc_safe (Mcp s t i) \<longleftrightarrow>
     (case i of None \<Rightarrow> True | Some v \<Rightarrow> is_subagent_spawn (Mcp s t i) \<and> badge_ok v)"
| "doc_safe (Unknown n i) \<longleftrightarrow>
     (case i of None \<Rightarrow> True | Some v \<Rightarrow> is_subagent_spawn (Unknown n i) \<and> badge_ok v)"
| "doc_safe _ \<longleftrightarrow> True"

lemma kept_member_key: "kept_member input k = Some p \<Longrightarrow> fst p = k"
  by (auto simp: kept_member_def bind_eq_Some_conv split: if_splits)

lemma map_of_map_filter_kept:
  "map_of (List.map_filter (kept_member input) ks) k =
     (if k \<in> set ks then map_option snd (kept_member input k) else None)"
proof (induction ks)
  case (Cons a ks)
  show ?case
  proof (cases "kept_member input a")
    case None
    with Cons show ?thesis by (auto simp: map_filter_def)
  next
    case (Some p)
    then have "p = (a, snd p)" using kept_member_key [OF Some] by (cases p) simp
    with Some Cons show ?thesis by (cases p) (auto simp: map_filter_def)
  qed
qed (simp add: map_filter_def)

lemma kept_member_badge:
  assumes "k \<in> set SUBAGENT_INPUT_KEEP"
  shows "kept_member (JObj (kept_members input)) k = kept_member input k"
proof (cases "kept_member input k")
  case None
  then show ?thesis
    using assms by (simp add: kept_member_def [of "JObj _"] kept_members_def map_of_map_filter_kept)
next
  case (Some p)
  then obtain s where "p = (k, JStr (trim s))" "trim s \<noteq> []"
    by (auto simp: kept_member_def bind_eq_Some_conv split: if_splits)
  with Some assms show ?thesis
    by (simp add: kept_member_def [of "JObj _"] kept_members_def map_of_map_filter_kept as_str_def)
qed

lemma kept_members_idem: "kept_members (JObj (kept_members input)) = kept_members input"
proof -
  have "List.map_filter (kept_member (JObj (kept_members input))) SUBAGENT_INPUT_KEEP =
      List.map_filter (kept_member input) SUBAGENT_INPUT_KEEP"
    unfolding map_filter_def
    by (intro map_cong filter_cong refl) (auto simp: kept_member_badge)
  then show ?thesis by (simp add: kept_members_def)
qed

lemma badge_ok_kept: "badge_ok (JObj (kept_members input))"
  by (auto simp: badge_ok_def kept_members_def map_filter_def list_all_iff kept_member_def
      bind_eq_Some_conv split: if_splits)

lemma spawn_badge_again:
  "call_input c = spawn_badge d \<Longrightarrow> is_subagent_spawn c = is_subagent_spawn d \<Longrightarrow>
     spawn_badge c = spawn_badge d"
  by (auto simp: spawn_badge_def kept_members_idem split: option.split)

lemma sanitize_idem: "sanitize_tool_call (sanitize_tool_call c) = sanitize_tool_call c"
proof (cases c)
  case (Mcp s t i)
  have "spawn_badge (Mcp s t (spawn_badge (Mcp s t i))) = spawn_badge (Mcp s t i)"
    by (rule spawn_badge_again) (simp_all add: call_input_def is_subagent_spawn_def call_name_def)
  then show ?thesis by (simp add: Mcp)
next
  case (Unknown n i)
  have "spawn_badge (Unknown n (spawn_badge (Unknown n i))) = spawn_badge (Unknown n i)"
    by (rule spawn_badge_again) (simp_all add: call_input_def is_subagent_spawn_def call_name_def)
  then show ?thesis by (simp add: Unknown)
qed simp_all

lemma spawn_badge_ok: "spawn_badge c = Some v \<Longrightarrow> is_subagent_spawn c \<and> badge_ok v"
  by (auto simp: spawn_badge_def badge_ok_kept split: if_splits option.splits)

lemma sanitize_doc_safe: "doc_safe (sanitize_tool_call c)"
proof (cases c)
  case (Mcp s t i)
  then show ?thesis
    using spawn_badge_ok [of "Mcp s t i"]
    by (auto simp: is_subagent_spawn_def call_name_def split: option.split)
next
  case (Unknown n i)
  then show ?thesis
    using spawn_badge_ok [of "Unknown n i"]
    by (auto simp: is_subagent_spawn_def call_name_def split: option.split)
qed simp_all

lemma sanitize_spawn: "is_subagent_spawn (sanitize_tool_call c) = is_subagent_spawn c"
  by (cases c) (simp_all add: is_subagent_spawn_def call_name_def)

lemma sanitize_input:
  "is_subagent_spawn c \<Longrightarrow> call_input (sanitize_tool_call c) = spawn_badge c"
  by (cases c) (simp_all add: call_input_def is_subagent_spawn_def call_name_def)

lemma find_map_first:
  "find_map f ks = Some y \<Longrightarrow> \<exists>us k vs. ks = us @ k # vs \<and> f k = Some y \<and> (\<forall>u \<in> set us. f u = None)"
proof (induction ks)
  case (Cons a ks)
  show ?case
  proof (cases "f a")
    case None
    with Cons obtain us k vs where
      "ks = us @ k # vs \<and> f k = Some y \<and> (\<forall>u \<in> set us. f u = None)" by auto
    with None show ?thesis by (intro exI [of _ "a # us"]) auto
  next
    case (Some z)
    with Cons show ?thesis by (intro exI [of _ "[]"]) simp
  qed
qed simp

lemma find_map_skip: "(\<forall>u \<in> set us. f u = None) \<Longrightarrow> find_map f (us @ k # vs) = find_map f (k # vs)"
  by (induction us) simp_all

lemma model_keys_kept: "set SUBAGENT_MODEL_KEYS \<subseteq> set SUBAGENT_INPUT_KEEP"
  by (simp add: SUBAGENT_MODEL_KEYS_def SUBAGENT_INPUT_KEEP_def)

lemma kept_lookup:
  "k \<in> set SUBAGENT_INPUT_KEEP \<Longrightarrow>
     json_get k (JObj (kept_members input)) = map_option snd (kept_member input k)"
  by (simp add: kept_members_def map_of_map_filter_kept)

lemma sanitize_model:
  assumes "subagent_model c = Some m"
  shows "subagent_model (sanitize_tool_call c) = Some m"
proof -
  from assms obtain input y where c: "is_subagent_spawn c" "call_input c = Some input"
      "find_map (\<lambda>k. Option.bind (json_get k input) as_str) SUBAGENT_MODEL_KEYS = Some y"
      "trim y \<noteq> []" "m = trim y"
    by (auto simp: subagent_model_def split: if_splits option.splits)
  from find_map_first [OF c(3)] obtain us k vs where k: "SUBAGENT_MODEL_KEYS = us @ k # vs"
      "Option.bind (json_get k input) as_str = Some y"
      "\<forall>u \<in> set us. Option.bind (json_get u input) as_str = None"
    by blast
  have kept: "u \<in> set SUBAGENT_MODEL_KEYS \<Longrightarrow> u \<in> set SUBAGENT_INPUT_KEEP" for u
    using model_keys_kept by blast
  have hit: "kept_member input k = Some (k, JStr (trim y))"
    using k(2) c(4) by (auto simp: kept_member_def bind_eq_Some_conv)
  have miss: "kept_member input u = None" if "u \<in> set us" for u
  proof -
    have "Option.bind (json_get u input) as_str = None" using k(3) that by blast
    then show ?thesis by (cases "json_get u input") (simp_all add: kept_member_def)
  qed
  have "k \<in> set SUBAGENT_INPUT_KEEP" by (rule kept) (simp add: k(1))
  with hit have nonempty: "kept_members input \<noteq> []" by (force dest: kept_lookup [of k input])
  let ?f = "\<lambda>k. Option.bind (json_get k (JObj (kept_members input))) as_str"
  have "\<forall>u \<in> set us. ?f u = None"
  proof
    fix u assume u: "u \<in> set us"
    then have "u \<in> set SUBAGENT_INPUT_KEEP" by (intro kept) (simp add: k(1))
    then show "?f u = None" by (simp only: kept_lookup miss [OF u]) simp
  qed
  then have "find_map ?f SUBAGENT_MODEL_KEYS = find_map ?f (k # vs)"
    unfolding k(1) by (rule find_map_skip)
  also have "\<dots> = Some (trim y)"
    using hit \<open>k \<in> set SUBAGENT_INPUT_KEEP\<close>
    by (simp add: kept_lookup as_str_def del: json_get_JObj)
  finally show ?thesis
    using c nonempty
    by (simp add: subagent_model_def sanitize_spawn sanitize_input spawn_badge_def
        del: json_get_JObj)
qed

section \<open>Properties\<close>

text \<open>the ids of the parts a message is folded from are its keys: whatever events arrive,
  no two parts of one kind share an id, a generated image shares its id with no earlier part,
  and the ids minted for text, reasoning and errors are the positions they stand at.\<close>

theorem fold_ids_distinct:
  "distinct (map (\<lambda>p. (kind_of p, part_id p)) (fold_events ld evs [])) \<and>
   placed (fold_events ld evs [])"
proof -
  have "tidy (fold_events ld evs [])"
    by (rule tidy_fold_events) (simp add: tidy_def placed_def)
  then have "placed (fold_events ld evs [])" "sorted_wrt no_clash (fold_events ld evs [])"
    by (simp_all add: tidy_def)
  moreover have "sorted_wrt no_clash ps \<Longrightarrow> distinct (map (\<lambda>p. (kind_of p, part_id p)) ps)" for ps
    by (induction ps) (auto simp: no_clash_def)
  ultimately show ?thesis by blast
qed

text \<open>re-delivery is harmless: folding an event that is not a text, reasoning or error
  append a second time changes nothing, whatever parts it meets.\<close>

theorem fold_redelivery:
  assumes "redeliverable ev"
  shows "fold_event_into_parts ld ev (fold_event_into_parts ld ev ps) =
    fold_event_into_parts ld ev ps"
proof (cases ev)
  case (ToolResult i b out d)
  then show ?thesis by (simp add: on_tool_idem tool_result_def)
next
  case (Subagent parent e)
  then show ?thesis by (simp add: on_tool_idem subagent_step_id subagent_step_idem)
qed (use assms in \<open>auto simp: redeliver_call redeliver_image update_permission_idem
      resolve_input_idem split: option.split
      simp del: fold_event_into_parts.simps(4) fold_event_into_parts.simps(6)\<close>)

lemma fold_redelivery_witness:
  "fold_event_into_parts (\<lambda>_ _. (0, 0)) (InputRequested ''q'' [])
     (fold_event_into_parts (\<lambda>_ _. (0, 0)) (InputRequested ''q'' []) []) =
   [MpInput ''in-q'' ''q'' [] False]"
  using fold_redelivery [of "InputRequested ''q'' []" "\<lambda>_ _. (0, 0)" "[]"] by simp

text \<open>C8: no streamed text is lost, reordered or mixed into thinking: between turn boundaries
  and image replacements, the text of the parts is what it was before followed by the text
  deltas in order, and the same holds of reasoning, however tool calls, inputs and errors
  interleave.\<close>

theorem fold_text_preserved:
  assumes "list_all (\<lambda>ev. \<not> replaces ev) evs"
  shows "texts (fold_events ld evs ps) = texts ps @ concat (map text_delta evs) \<and>
    reasonings (fold_events ld evs ps) = reasonings ps @ concat (map reasoning_delta evs)"
  using assms by (rule bodies_fold_events)

lemma fold_text_preserved_witness:
  "texts (fold_events (\<lambda>_ _. (0, 0))
     [TextDelta ''a'', EvToolCall ''c'' (Exec ''ls''), TextDelta ''b''] []) = ''ab''"
  using fold_text_preserved [of "[TextDelta ''a'', EvToolCall ''c'' (Exec ''ls''), TextDelta ''b'']"
      "\<lambda>_ _. (0, 0)" "[]"]
  by simp

text \<open>tool outputs and diff texts never enter the document: whatever events a message is
  folded from, and after sidecar keys are stamped, no tool part carries an output, a diff, an
  output size or an output key.\<close>

theorem fold_keeps_outputs_out:
  "list_all outputless (apply_sidecar_refs chat (fold_events ld evs []))"
  by (intro outputless_refs outputless_fold_events) simp

text \<open>the privacy policy: a sanitized call holds no file contents, edit strings, prompts or
  tool input beyond the short identifiers of a spawn; sanitizing again changes nothing; and
  it is a spawn exactly when the original is.\<close>

theorem sanitize_safe_fixpoint:
  "doc_safe (sanitize_tool_call c) \<and>
   sanitize_tool_call (sanitize_tool_call c) = sanitize_tool_call c \<and>
   is_subagent_spawn (sanitize_tool_call c) = is_subagent_spawn c"
  by (simp add: sanitize_doc_safe sanitize_idem sanitize_spawn)

text \<open>the model a spawn names survives sanitizing.\<close>

theorem sanitize_keeps_model:
  assumes "subagent_model c = Some m"
  shows "subagent_model (sanitize_tool_call c) = Some m"
  using assms by (rule sanitize_model)

lemma sanitize_keeps_model_witness:
  "subagent_model (sanitize_tool_call (Unknown ''Agent''
     (Some (JObj [(''prompt'', JStr ''p''), (''model'', JStr ''haiku'')])))) = Some ''haiku''"
  by (rule sanitize_keeps_model)
     (simp add: subagent_model_def is_subagent_spawn_def call_name_def call_input_def
       SUBAGENT_MODEL_KEYS_def as_str_def trim_def trim_start_def trim_end_def ws_seqs_def
       starts_with_def strip_front.simps)

text \<open>the background flag does not survive sanitizing: a spawn whose harness sent
  \<open>run_in_background\<close> as the JSON boolean reads as a background spawn before the policy and
  as an ordinary one after it, since only string members are kept.\<close>

theorem sanitize_drops_background_flag:
  assumes "is_subagent_spawn c" "call_input c = Some input"
    "json_get ''run_in_background'' input = Some (JBool True)"
  shows "is_background_spawn (call_input c) \<and>
    \<not> is_background_spawn (call_input (sanitize_tool_call c))"
proof -
  have "kept_member input ''run_in_background'' = None"
    using assms(3) by (simp add: kept_member_def as_str_def)
  then have "json_get ''run_in_background'' (JObj (kept_members input)) = None"
    by (subst kept_lookup) (simp_all add: SUBAGENT_INPUT_KEEP_def)
  then show ?thesis
    using assms
    by (auto simp: is_background_spawn_def sanitize_input spawn_badge_def)
qed

lemma sanitize_drops_background_flag_witness:
  "\<not> is_background_spawn (call_input (sanitize_tool_call (Unknown ''Agent: scan''
     (Some (JObj [(''description'', JStr ''scan''), (''run_in_background'', JBool True)])))))"
  by (rule sanitize_drops_background_flag [where input =
        "JObj [(''description'', JStr ''scan''), (''run_in_background'', JBool True)]", THEN conjunct2])
     (simp_all add: is_subagent_spawn_def call_name_def call_input_def starts_with_def eval_nat_numeral)

end
