(* ===== verification/Parts_Split.thy ===== *)
theory Parts_Split
  imports Parts_Fold
begin

text \<open>
  Continuation splitting and output summaries of \<open>parts.rs\<close>: nothing is lost, every entry
  stays under the cap, and no cut falls inside a character.
\<close>

section \<open>Character boundaries\<close>

text \<open>UTF-8 never has more than three continuation bytes in a row; \<open>cont_ok 0\<close> is what a
  well-formed text satisfies of them.\<close>

fun cont_ok :: "nat \<Rightarrow> string \<Rightarrow> bool" where
  "cont_ok n [] \<longleftrightarrow> True"
| "cont_ok n (c # s) \<longleftrightarrow> (if is_cont c then 0 < n \<and> cont_ok (n - 1) s else cont_ok 3 s)"

lemma cont_ok_mono: "cont_ok m s \<Longrightarrow> m \<le> n \<Longrightarrow> cont_ok n s"
proof (induction m s arbitrary: n rule: cont_ok.induct)
  case (2 m c s)
  then show ?case by (cases "is_cont c") (auto intro: diff_le_mono)
qed simp

lemma cont_ok_take: "cont_ok m s \<Longrightarrow> cont_ok m (take n s)"
proof (induction m s arbitrary: n rule: cont_ok.induct)
  case (2 m c s)
  then show ?case by (cases n) auto
qed simp

lemma cont_ok_drop: "cont_ok m s \<Longrightarrow> m \<le> 3 \<Longrightarrow> cont_ok 3 (drop n s)"
proof (induction m s arbitrary: n rule: cont_ok.induct)
  case (2 m c s)
  show ?case
  proof (cases n)
    case 0
    with cont_ok_mono [OF 2(3,4)] show ?thesis by (simp del: cont_ok.simps)
  next
    case (Suc k)
    then show ?thesis using 2 by (cases "is_cont c") auto
  qed
qed simp

lemma cont_ok_run:
  "cont_ok m s \<Longrightarrow> k \<le> length s \<Longrightarrow> (\<And>j. j < k \<Longrightarrow> is_cont (s ! j)) \<Longrightarrow> k \<le> m"
proof (induction m s arbitrary: k rule: cont_ok.induct)
  case (2 m c s)
  show ?case
  proof (cases k)
    case (Suc l)
    have c: "is_cont c" using 2(5) [of 0] Suc by simp
    have "l \<le> m - 1"
    proof (rule 2(1) [OF c])
      show "cont_ok (m - 1) s" using 2(3) c by simp
      show "l \<le> length s" using 2(4) Suc by simp
      show "\<And>j. j < l \<Longrightarrow> is_cont (s ! j)"
        using 2(5) Suc by (metis Suc_less_eq nth_Cons_Suc)
    qed
    moreover have "0 < m" using 2(3) c by simp
    ultimately show ?thesis using Suc by simp
  qed simp
qed simp

lemma cont_ok_head: "cont_ok 3 s \<Longrightarrow> (s \<noteq> [] \<Longrightarrow> \<not> is_cont (hd s)) \<Longrightarrow> cont_ok 0 s"
  by (cases s) auto

lemma back_le: "back_to_boundary s e \<le> e"
  by (induction e) (auto intro: le_SucI)

lemma back_skips:
  "back_to_boundary s e < j \<Longrightarrow> j \<le> e \<Longrightarrow> j < length s \<and> \<not> is_char_boundary s j"
proof (induction e)
  case (Suc e)
  then show ?case by (cases "j = Suc e") (auto split: if_splits)
qed simp

lemma back_boundary: "e \<le> length s \<Longrightarrow> is_char_boundary s (back_to_boundary s e)"
  by (induction e) (auto simp: is_char_boundary_def)

lemma piece_end_bounds:
  assumes "cont_ok 0 s" "4 \<le> cap" "start < length s"
  shows "piece_end cap s start \<le> start + cap" "piece_end cap s start \<le> length s"
    "is_char_boundary s (piece_end cap s start)"
proof -
  let ?e = "back_to_boundary s (min (start + cap) (length s))"
  have "start < ?e"
  proof (rule ccontr)
    assume "\<not> start < ?e"
    then have le: "?e \<le> start" by simp
    have far: "start + cap < length s"
      using back_skips [of s "min (start + cap) (length s)" "min (start + cap) (length s)"] le assms(2,3)
      by (simp add: min_def split: if_splits)
    have conts: "is_cont (s ! j)" if "start < j" "j \<le> start + 4" for j
      using back_skips [of s "min (start + cap) (length s)" j] le far that assms(2)
      by (auto simp: is_char_boundary_def min_def)
    have "(4::nat) \<le> 3"
    proof (rule cont_ok_run [of 3 "drop (Suc start) s"])
      show "cont_ok 3 (drop (Suc start) s)" using cont_ok_drop [OF assms(1)] by simp
      show "4 \<le> length (drop (Suc start) s)" using far assms(2) by simp
      show "is_cont (drop (Suc start) s ! j)" if "j < 4" for j
        using conts [of "Suc start + j"] that far assms(2) by (simp add: nth_drop)
    qed
    then show False by simp
  qed
  then have "piece_end cap s start = ?e" by (simp add: piece_end_def)
  with back_le [of s "min (start + cap) (length s)"] back_boundary [of "min (start + cap) (length s)" s]
  show "piece_end cap s start \<le> start + cap" "piece_end cap s start \<le> length s"
    "is_char_boundary s (piece_end cap s start)"
    by simp_all
qed

lemma piece_end_le: "piece_end cap s start \<le> length s"
  using back_le [of s "min (start + cap) (length s)"] by (simp add: piece_end_def Let_def)

section \<open>Pieces of a text\<close>

lemma concat_text_pieces: "concat (text_pieces cap s start) = drop start s"
proof (induction cap s start rule: text_pieces.induct)
  case (1 cap s start)
  show ?case
  proof (cases "start < length s")
    case True
    have "take (piece_end cap s start - start) (drop start s) @ drop (piece_end cap s start) s =
        drop start s"
      using append_take_drop_id [of "piece_end cap s start - start" "drop start s"]
        piece_end_gt [OF True, of cap]
      by simp
    with 1 True show ?thesis by (subst text_pieces.simps) simp
  qed (subst text_pieces.simps, simp)
qed

lemma cont_ok_piece:
  assumes "cont_ok 0 s" "is_char_boundary s start" "start < length s"
  shows "cont_ok 0 (take n (drop start s))"
proof -
  have "cont_ok 0 (drop start s)"
  proof (cases "start = 0")
    case False
    with assms(2,3) have "\<not> is_cont (s ! start)" by (simp add: is_char_boundary_def)
    then show ?thesis
      using cont_ok_drop [OF assms(1)] assms(3)
      by (intro cont_ok_head) (simp_all add: hd_drop_conv_nth)
  qed (use assms(1) in simp)
  then show ?thesis by (rule cont_ok_take)
qed

lemma text_pieces_ok:
  "cont_ok 0 s \<Longrightarrow> 4 \<le> cap \<Longrightarrow> is_char_boundary s start \<Longrightarrow>
     list_all (\<lambda>b. b \<noteq> [] \<and> length b \<le> cap \<and> cont_ok 0 b) (text_pieces cap s start)"
proof (induction cap s start rule: text_pieces.induct)
  case (1 cap s start)
  show ?case
  proof (cases "start < length s")
    case True
    note b = piece_end_bounds [OF 1(2,3) True]
    have "length (take (piece_end cap s start - start) (drop start s)) \<le> cap"
      using b(1) by simp
    moreover have "take (piece_end cap s start - start) (drop start s) \<noteq> []"
      using piece_end_gt [OF True, of cap] True by simp
    moreover have "list_all (\<lambda>b. b \<noteq> [] \<and> length b \<le> cap \<and> cont_ok 0 b)
        (text_pieces cap s (piece_end cap s start))"
      using 1 b(3) True by simp
    ultimately show ?thesis
      using cont_ok_piece [OF 1(2,4) True] True by (subst text_pieces.simps) simp
  qed (subst text_pieces.simps, simp)
qed

lemma concat_enumerate_bodies:
  "concat (map (\<lambda>x. text_body (case x of (n, b) \<Rightarrow> MpText (f n) b)) (enumerate k bs)) = concat bs"
  "concat (map (\<lambda>x. reasoning_body (case x of (n, b) \<Rightarrow> MpReasoning (f n) b)) (enumerate k bs)) =
     concat bs"
  "concat (map (\<lambda>x. reasoning_body (case x of (n, b) \<Rightarrow> MpText (f n) b)) (enumerate k bs)) = []"
  "concat (map (\<lambda>x. text_body (case x of (n, b) \<Rightarrow> MpReasoning (f n) b)) (enumerate k bs)) = []"
  by (induction bs arbitrary: k) auto

lemma part_pieces_bodies:
  "texts (part_pieces cap p) = text_body p \<and> reasonings (part_pieces cap p) = reasoning_body p"
  by (cases p)
     (auto simp: texts_def reasonings_def comp_def concat_enumerate_bodies concat_text_pieces)

fun body_bearing :: "MessagePart \<Rightarrow> bool" where
  "body_bearing (MpText _ _) \<longleftrightarrow> True"
| "body_bearing (MpReasoning _ _) \<longleftrightarrow> True"
| "body_bearing _ \<longleftrightarrow> False"

fun body_ok :: "MessagePart \<Rightarrow> bool" where
  "body_ok (MpText _ t) \<longleftrightarrow> cont_ok 0 t"
| "body_ok (MpReasoning _ t) \<longleftrightarrow> cont_ok 0 t"
| "body_ok _ \<longleftrightarrow> True"

lemma part_pieces_ok:
  assumes "4 \<le> cap" "body_ok p" "body_bearing p \<or> byte_len jlen p \<le> cap"
  shows "list_all (\<lambda>q. byte_len jlen q \<le> cap \<and> body_ok q) (part_pieces cap p)"
proof -
  have "list_all (\<lambda>b. b \<noteq> [] \<and> length b \<le> cap \<and> cont_ok 0 b) (text_pieces cap t 0)"
    if "cont_ok 0 t" for t
    using text_pieces_ok [OF that assms(1), of 0] by (simp add: is_char_boundary_def)
  with assms(2,3) show ?thesis
    by (cases p) (auto simp: list_all_iff in_set_enumerate_eq dest!: nth_mem)
qed

section \<open>Chunks\<close>

definition chunk_bytes :: "(json \<Rightarrow> nat) \<Rightarrow> MessagePart list \<Rightarrow> nat" where
  "chunk_bytes jlen c = sum_list (map (byte_len jlen) c)"

text \<open>The state of the split: \<open>current\<close> is the size of the last chunk.\<close>

definition split_inv :: "(json \<Rightarrow> nat) \<Rightarrow> MessagePart list list \<times> nat \<Rightarrow> bool" where
  "split_inv jlen st \<longleftrightarrow> fst st \<noteq> [] \<and> snd st = chunk_bytes jlen (last (fst st))"

lemma push_chunk_simps:
  "push_chunk jlen cap p (chunks, current) =
     (if 0 < current \<and> cap < current + byte_len jlen p
      then (chunks @ [[p]], byte_len jlen p)
      else (butlast chunks @ [last chunks @ [p]], current + byte_len jlen p))"
  by (simp add: push_chunk_def Let_def)

lemma push_chunk_inv: "split_inv jlen st \<Longrightarrow> split_inv jlen (push_chunk jlen cap p st)"
  by (cases st) (simp add: push_chunk_simps split_inv_def chunk_bytes_def)

lemma concat_last: "chunks \<noteq> [] \<Longrightarrow> concat (butlast chunks) @ last chunks = concat chunks"
  by (cases chunks rule: rev_cases) simp_all

lemma push_chunk_concat:
  "fst st \<noteq> [] \<Longrightarrow> concat (fst (push_chunk jlen cap p st)) = concat (fst st) @ [p]"
  by (cases st) (simp add: push_chunk_simps concat_last [symmetric])

lemma chunk_bytes_snoc:
  "chunk_bytes jlen (c @ [p]) = chunk_bytes jlen c + byte_len jlen p"
  "chunk_bytes jlen [p] = byte_len jlen p"
  by (simp_all add: chunk_bytes_def)

lemma push_chunk_bounded:
  assumes "split_inv jlen st" "list_all (\<lambda>c. chunk_bytes jlen c \<le> cap) (fst st)"
    "byte_len jlen p \<le> cap"
  shows "list_all (\<lambda>c. chunk_bytes jlen c \<le> cap) (fst (push_chunk jlen cap p st))"
proof -
  obtain chunks current where st: "st = (chunks, current)" by (cases st)
  obtain front lst where "chunks = front @ [lst]"
    using assms(1) st by (cases chunks rule: rev_cases) (auto simp: split_inv_def)
  then have "current = chunk_bytes jlen lst" "list_all (\<lambda>c. chunk_bytes jlen c \<le> cap) front"
      "chunk_bytes jlen lst \<le> cap" "chunks = front @ [lst]"
    using assms(1,2) st by (simp_all add: split_inv_def)
  with assms(3) st show ?thesis
    by (auto simp: push_chunk_simps chunk_bytes_snoc)
qed

lemma fold_push:
  "split_inv jlen st \<Longrightarrow>
     split_inv jlen (fold (push_chunk jlen cap) ps st) \<and>
     concat (fst (fold (push_chunk jlen cap) ps st)) = concat (fst st) @ ps"
proof (induction ps arbitrary: st)
  case (Cons p ps)
  from Cons.IH [OF push_chunk_inv [OF Cons.prems, of cap p]] Cons.prems show ?case
    by (simp add: push_chunk_concat split_inv_def)
qed simp

lemma fold_push_bounded:
  "split_inv jlen st \<Longrightarrow> list_all (\<lambda>c. chunk_bytes jlen c \<le> cap) (fst st) \<Longrightarrow>
     list_all (\<lambda>p. byte_len jlen p \<le> cap) ps \<Longrightarrow>
     list_all (\<lambda>c. chunk_bytes jlen c \<le> cap) (fst (fold (push_chunk jlen cap) ps st))"
  by (induction ps arbitrary: st) (simp_all add: push_chunk_inv push_chunk_bounded)

lemma split_is_one_fold:
  "fold (\<lambda>p st. fold f (g p) st) ps st = fold f (concat (map g ps)) st"
  by (induction ps arbitrary: st) simp_all

lemma split_capped_eq:
  "split_capped jlen cap ps =
     fst (fold (push_chunk jlen cap) (concat (map (part_pieces cap) ps)) ([[]], 0))"
  by (simp add: split_capped_def split_is_one_fold)

lemma split_inv_start: "split_inv jlen ([[]], 0)"
  by (simp add: split_inv_def chunk_bytes_def)

lemma concat_split: "concat (split_capped jlen cap ps) = concat (map (part_pieces cap) ps)"
  using fold_push [OF split_inv_start] by (simp add: split_capped_eq)

lemma bodies_concat:
  "texts (concat (map (part_pieces cap) ps)) = texts ps \<and>
   reasonings (concat (map (part_pieces cap) ps)) = reasonings ps"
  by (induction ps) (simp_all add: part_pieces_bodies)

lemma part_pieces_other:
  "filter (\<lambda>p. \<not> body_bearing p) (concat (map (part_pieces cap) ps)) =
     filter (\<lambda>p. \<not> body_bearing p) ps"
proof (induction ps)
  case (Cons p ps)
  have "filter (\<lambda>p. \<not> body_bearing p) (part_pieces cap p) = (if body_bearing p then [] else [p])"
    by (cases p) (auto intro!: filter_False)
  with Cons show ?case by simp
qed simp

lemma split_bounded_lemma:
  assumes "4 \<le> cap" "list_all body_ok ps"
    "list_all (\<lambda>p. body_bearing p \<or> byte_len jlen p \<le> cap) ps"
  shows "list_all (\<lambda>c. chunk_bytes jlen c \<le> cap) (split_capped jlen cap ps) \<and>
    list_all body_ok (concat (split_capped jlen cap ps))"
proof -
  have "list_all (\<lambda>q. byte_len jlen q \<le> cap \<and> body_ok q) (concat (map (part_pieces cap) ps))"
    using assms(2,3) part_pieces_ok [OF assms(1)]
    by (induction ps) (auto simp: list_all_append)
  then have "list_all (\<lambda>q. byte_len jlen q \<le> cap) (concat (map (part_pieces cap) ps))"
    "list_all body_ok (concat (map (part_pieces cap) ps))"
    by (auto simp: list_all_iff)
  moreover have "list_all (\<lambda>c. chunk_bytes jlen c \<le> cap) (fst ([[]], 0 :: nat))"
    by (simp add: chunk_bytes_def)
  ultimately show ?thesis
    using fold_push_bounded [OF split_inv_start] by (simp add: split_capped_eq concat_split [unfolded split_capped_eq])
qed

section \<open>Summaries\<close>

lemma char_take_count: "char_count (char_take n s) \<le> n"
  by (induction n s rule: char_take.induct) (auto simp: char_count_def split: nat.splits)

lemma char_count_append: "char_count (a @ b) = char_count a + char_count b"
  by (simp add: char_count_def)

lemma char_count_ellipsis: "char_count ellipsis = 1"
  by (simp add: ellipsis_def char_count_def)

section \<open>Properties\<close>

text \<open>C9: splitting an oversized message loses nothing: joining the entries again gives the
  same text, the same reasoning and the same other parts, in order.\<close>

theorem split_lossless:
  "texts (join_continuations (split_parts jlen ps)) = texts ps \<and>
   reasonings (join_continuations (split_parts jlen ps)) = reasonings ps \<and>
   filter (\<lambda>p. \<not> body_bearing p) (join_continuations (split_parts jlen ps)) =
     filter (\<lambda>p. \<not> body_bearing p) ps"
  by (simp add: join_continuations_def split_parts_def concat_split bodies_concat part_pieces_other)

text \<open>every entry of a split message is within the cap, provided the parts that are not
  text are, and every body is cut at character boundaries: the pieces of well-formed texts
  are well-formed.\<close>

theorem split_bounded:
  assumes "list_all body_ok ps"
    "list_all (\<lambda>p. body_bearing p \<or> byte_len jlen p \<le> MSG_INLINE_MAX) ps"
  shows "list_all (\<lambda>c. chunk_bytes jlen c \<le> MSG_INLINE_MAX) (split_parts jlen ps) \<and>
    list_all body_ok (join_continuations (split_parts jlen ps))"
  using split_bounded_lemma [OF _ assms]
  by (simp add: split_parts_def join_continuations_def MSG_INLINE_MAX_def)

lemma split_bounded_witness:
  "list_all (\<lambda>c. chunk_bytes (\<lambda>_. 40) c \<le> MSG_INLINE_MAX)
     (split_parts (\<lambda>_. 40) [MpText ''t0'' ''hello'', MpTool (new_tool ''a'' (Exec ''ls''))])"
  by (intro split_bounded [THEN conjunct1])
     (simp_all add: new_tool_def opt_len_def MSG_INLINE_MAX_def)

text \<open>a tool output's summary is short and never blank: at most 160 characters and the
  marker that more was cut.\<close>

theorem summary_bounded:
  assumes "summarize_tool_output text = Some out"
  shows "out \<noteq> [] \<and> char_count out \<le> TOOL_OUTPUT_SUMMARY_MAX + 1"
proof -
  have "char_count (char_take TOOL_OUTPUT_SUMMARY_MAX l @ ellipsis) \<le> TOOL_OUTPUT_SUMMARY_MAX + 1" for l
    using char_take_count [of TOOL_OUTPUT_SUMMARY_MAX l]
    by (simp add: char_count_append char_count_ellipsis)
  then show ?thesis
    using assms by (auto simp: summarize_tool_output_def Let_def ellipsis_def split: if_splits)
qed

lemma summary_bounded_witness:
  "char_count ''ok'' \<le> TOOL_OUTPUT_SUMMARY_MAX + 1"
  by (rule summary_bounded [of "''ok''", THEN conjunct2]) code_simp

end
