(* ===== verification/Doc_Schema.thy ===== *)
theory Doc_Schema
  imports Parts_Split "HOL-Library.Multiset"
begin

text \<open>
  \<open>crates/doc/src/schema.rs\<close>: how messages are laid out in the session document and read
  back. A part is a map from field names to cells; a cell is a value or a text container
  (\<open>LoroText\<close>), and both read as JSON. \<open>to_doc_part\<close>/\<open>from_doc_part\<close> translate parts,
  \<open>push_part\<close> and \<open>update_part_fields\<close> write them, \<open>entry_from_json\<close> reads an entry and
  salvages what the strict shape rejects, \<open>join_continuation_entries\<close> joins split messages.

  The CRDT itself is third-party: a container is its current value, and a JSON value stored
  in one reads back unchanged. \<open>hx\<close> is the hash of an entry's text, used to name an entry
  that lost its id.
\<close>

section \<open>Entries\<close>

datatype MessageRole = User | Assistant | System

record SessionMessageEntry =
  me_id :: string
  me_role :: MessageRole
  me_parts :: "MessagePart list"
  me_created_at :: int
  me_device_id :: string
  me_status :: "MessageStatus option"
  me_continuation_of :: "string option"

definition role_names :: "(string \<times> MessageRole) list" where
  "role_names = [(''user'', User), (''assistant'', Assistant), (''system'', System)]"

definition status_names :: "(string \<times> MessageStatus) list" where
  "status_names = [(''streaming'', Streaming), (''complete'', Complete), (''aborted'', Aborted)]"

definition subagent_names :: "(string \<times> SubagentStatus) list" where
  "subagent_names = [(''running'', SubRunning), (''done'', SubDone), (''failed'', SubFailed)]"

fun role_str :: "MessageRole \<Rightarrow> string" where
  "role_str User = ''user''"
| "role_str Assistant = ''assistant''"
| "role_str System = ''system''"

fun status_str :: "MessageStatus \<Rightarrow> string" where
  "status_str Streaming = ''streaming''"
| "status_str Complete = ''complete''"
| "status_str Aborted = ''aborted''"

fun subagent_str :: "SubagentStatus \<Rightarrow> string" where
  "subagent_str SubRunning = ''running''"
| "subagent_str SubDone = ''done''"
| "subagent_str SubFailed = ''failed''"

lemma role_names_str [simp]: "map_of role_names (role_str r) = Some r"
  by (cases r) (simp_all add: role_names_def)

lemma status_names_str [simp]: "map_of status_names (status_str s) = Some s"
  by (cases s) (simp_all add: status_names_def)

lemma subagent_names_str [simp]: "map_of subagent_names (subagent_str u) = Some u"
  by (cases u) (simp_all add: subagent_names_def)

section \<open>Document parts\<close>

record DocPartJson =
  dp_id :: string
  dp_kind :: string
  dp_path :: "string option"
  dp_name :: "string option"
  dp_mime_type :: "string option"
  dp_text :: "string option"
  dp_reasoning :: "string option"
  dp_call :: "json option"
  dp_is_error :: "bool option"
  dp_questions :: "json option"
  dp_resolved :: "bool option"
  dp_message :: "string option"
  dp_output :: "string option"
  dp_diff :: "json option"
  dp_output_ref :: "string option"
  dp_output_bytes :: "nat option"
  dp_diff_ref :: "string option"
  dp_diff_stats :: "json option"
  dp_subagent_ref :: "string option"
  dp_subagent_status :: "string option"
  dp_subagent_tail :: "string option"

definition blank_part :: "string \<Rightarrow> string \<Rightarrow> DocPartJson" where
  "blank_part i kind = \<lparr>dp_id = i, dp_kind = kind, dp_path = None, dp_name = None,
     dp_mime_type = None, dp_text = None, dp_reasoning = None, dp_call = None,
     dp_is_error = None, dp_questions = None, dp_resolved = None, dp_message = None,
     dp_output = None, dp_diff = None, dp_output_ref = None, dp_output_bytes = None,
     dp_diff_ref = None, dp_diff_stats = None, dp_subagent_ref = None,
     dp_subagent_status = None, dp_subagent_tail = None\<rparr>"

fun to_doc_part :: "MessagePart \<Rightarrow> DocPartJson" where
  "to_doc_part (MpImage i p n m) = (blank_part i ''image'')\<lparr>dp_path := Some p, dp_name := Some n,
     dp_mime_type := Some m\<rparr>"
| "to_doc_part (MpText i t) = (blank_part i ''text'')\<lparr>dp_text := Some t\<rparr>"
| "to_doc_part (MpReasoning i t) = (blank_part i ''reasoning'')\<lparr>dp_reasoning := Some t\<rparr>"
| "to_doc_part (MpTool t) = (blank_part (tp_id t) ''tool'')\<lparr>
     dp_call := Some (enc_call (tp_call t)),
     dp_is_error := (if tp_resolved t then Some (tp_is_error t) else None),
     dp_output := tp_output t,
     dp_diff := map_option enc_diff (tp_diff t),
     dp_output_ref := tp_output_ref t,
     dp_output_bytes := tp_output_bytes t,
     dp_diff_ref := tp_diff_ref t,
     dp_diff_stats := map_option (\<lambda>ss. JArr (map enc_stat ss)) (tp_diff_stats t),
     dp_subagent_ref := tp_subagent_ref t,
     dp_subagent_status := map_option subagent_str (tp_subagent_status t),
     dp_subagent_tail := tp_subagent_tail t\<rparr>"
| "to_doc_part (MpInput _ rid qs b) = (blank_part rid ''input'')\<lparr>
     dp_questions := Some (JArr (map enc_question qs)), dp_resolved := Some b\<rparr>"
| "to_doc_part (MpPermission i r) = (blank_part i ''permission'')\<lparr>
     dp_questions := Some (enc_request r)\<rparr>"
| "to_doc_part (MpError i m) = (blank_part i ''error'')\<lparr>dp_message := Some m\<rparr>"

definition image_part ::
  "string \<Rightarrow> string option \<Rightarrow> string option \<Rightarrow> string option \<Rightarrow> MessagePart" where
  "image_part i path name mime =
     (case (path, name, mime) of
        (Some p, Some n, Some m) \<Rightarrow>
          (if p \<noteq> [] \<and> n \<noteq> [] \<and> m \<in> {''image/png'', ''image/jpeg'', ''image/webp'', ''image/gif''}
           then MpImage i p n m else MpError i ''Generated image unavailable'')
      | _ \<Rightarrow> MpError i ''Generated image unavailable'')"

definition unwrap_or :: "'a \<Rightarrow> 'a option \<Rightarrow> 'a" where
  "unwrap_or d x = (case x of None \<Rightarrow> d | Some v \<Rightarrow> v)"

lemma unwrap_or_simps [simp]: "unwrap_or d None = d" "unwrap_or d (Some v) = v"
  by (simp_all add: unwrap_or_def)

definition from_doc_part :: "DocPartJson \<Rightarrow> MessagePart" where
  "from_doc_part p =
     (if dp_kind p = ''image'' then image_part (dp_id p) (dp_path p) (dp_name p) (dp_mime_type p)
      else if dp_kind p = ''tool'' then
        (case Option.bind (dp_call p) dec_call of
           Some c \<Rightarrow> MpTool \<lparr>tp_id = dp_id p, tp_call = c,
             tp_is_error = unwrap_or False (dp_is_error p), tp_resolved = (dp_is_error p \<noteq> None),
             tp_output = dp_output p, tp_diff = Option.bind (dp_diff p) dec_diff,
             tp_output_ref = dp_output_ref p, tp_output_bytes = dp_output_bytes p,
             tp_diff_ref = dp_diff_ref p,
             tp_diff_stats = Option.bind (dp_diff_stats p) (dec_vec dec_stat),
             tp_subagent_ref = dp_subagent_ref p,
             tp_subagent_status = Option.bind (dp_subagent_status p) (map_of subagent_names),
             tp_subagent_tail = dp_subagent_tail p\<rparr>
         | None \<Rightarrow> MpText (dp_id p) [])
      else if dp_kind p = ''input'' then
        MpInput (dp_id p) (dp_id p)
          (unwrap_or [] (Option.bind (dp_questions p) (dec_vec dec_question)))
          (unwrap_or False (dp_resolved p))
      else if dp_kind p = ''permission'' then
        MpPermission (dp_id p) (unwrap_or (default_request\<lparr>pr_state := RsExpired\<rparr>)
          (Option.bind (dp_questions p) dec_request))
      else if dp_kind p = ''error'' then MpError (dp_id p) (unwrap_or [] (dp_message p))
      else if dp_kind p = ''reasoning'' then MpReasoning (dp_id p) (unwrap_or [] (dp_reasoning p))
      else MpText (dp_id p) (unwrap_or [] (dp_text p)))"

section \<open>Part maps\<close>

datatype cell = CVal json | CText string

type_synonym part_map = "(string \<times> cell) list"

fun cell_json :: "cell \<Rightarrow> json" where
  "cell_json (CVal j) = j"
| "cell_json (CText s) = JStr s"

definition part_json :: "part_map \<Rightarrow> json" where
  "part_json m = JObj (map (\<lambda>(k, c). (k, cell_json c)) m)"

text \<open>\<open>as i64\<close> on a \<open>u64\<close>.\<close>

definition u64_as_i64 :: "nat \<Rightarrow> int" where
  "u64_as_i64 n = (int n + 2 ^ 63) mod 2 ^ 64 - 2 ^ 63"

definition cell_opt :: "string \<Rightarrow> ('a \<Rightarrow> cell) \<Rightarrow> 'a option \<Rightarrow> part_map" where
  "cell_opt k f x = (case x of None \<Rightarrow> [] | Some v \<Rightarrow> [(k, f v)])"

abbreviation cstr :: "string \<Rightarrow> cell" where "cstr s \<equiv> CVal (JStr s)"

abbreviation cbool :: "bool \<Rightarrow> cell" where "cbool b \<equiv> CVal (JBool b)"

text \<open>The inserts of \<open>push_part\<close> into a fresh map, whose keys are all different.\<close>

definition push_fields :: "DocPartJson \<Rightarrow> part_map" where
  "push_fields d =
     [(''id'', cstr (dp_id d)), (''kind'', cstr (dp_kind d))] @
     cell_opt ''text'' CText (dp_text d) @
     cell_opt ''reasoning'' CText (dp_reasoning d) @
     cell_opt ''path'' cstr (dp_path d) @
     cell_opt ''name'' cstr (dp_name d) @
     cell_opt ''mimeType'' cstr (dp_mime_type d) @
     cell_opt ''call'' CVal (dp_call d) @
     cell_opt ''isError'' cbool (dp_is_error d) @
     cell_opt ''questions'' CVal (dp_questions d) @
     cell_opt ''resolved'' cbool (dp_resolved d) @
     cell_opt ''message'' cstr (dp_message d) @
     cell_opt ''output'' cstr (dp_output d) @
     cell_opt ''diff'' CVal (dp_diff d) @
     cell_opt ''outputRef'' cstr (dp_output_ref d) @
     cell_opt ''outputBytes'' (\<lambda>n. CVal (JInt (u64_as_i64 n))) (dp_output_bytes d) @
     cell_opt ''diffRef'' cstr (dp_diff_ref d) @
     cell_opt ''diffStats'' CVal (dp_diff_stats d) @
     cell_opt ''subagentRef'' cstr (dp_subagent_ref d) @
     cell_opt ''subagentStatus'' cstr (dp_subagent_status d) @
     cell_opt ''subagentTail'' cstr (dp_subagent_tail d)"

definition push_part :: "MessagePart \<Rightarrow> part_map" where
  "push_part p = push_fields (to_doc_part p)"

text \<open>An in-place refresh inserts what the new part has; it deletes no key and writes no
  \<open>kind\<close>. A text is updated only where a text container already is.\<close>

definition ins_opt :: "string \<Rightarrow> ('a \<Rightarrow> cell) \<Rightarrow> 'a option \<Rightarrow> part_map \<Rightarrow> part_map" where
  "ins_opt k f x m = (case x of None \<Rightarrow> m | Some v \<Rightarrow> oinsert k (f v) m)"

definition text_opt :: "string \<Rightarrow> string option \<Rightarrow> part_map \<Rightarrow> part_map" where
  "text_opt k x m = (case x of None \<Rightarrow> m
     | Some t \<Rightarrow> (case map_of m k of Some (CText _) \<Rightarrow> oinsert k (CText t) m | _ \<Rightarrow> m))"

definition update_part_fields :: "MessagePart \<Rightarrow> part_map \<Rightarrow> part_map" where
  "update_part_fields p m =
     (let d = to_doc_part p in
      (text_opt ''reasoning'' (dp_reasoning d) \<circ>
       text_opt ''text'' (dp_text d) \<circ>
       ins_opt ''subagentTail'' cstr (dp_subagent_tail d) \<circ>
       ins_opt ''subagentStatus'' cstr (dp_subagent_status d) \<circ>
       ins_opt ''subagentRef'' cstr (dp_subagent_ref d) \<circ>
       ins_opt ''diffStats'' CVal (dp_diff_stats d) \<circ>
       ins_opt ''diffRef'' cstr (dp_diff_ref d) \<circ>
       ins_opt ''outputBytes'' (\<lambda>n. CVal (JInt (u64_as_i64 n))) (dp_output_bytes d) \<circ>
       ins_opt ''outputRef'' cstr (dp_output_ref d) \<circ>
       ins_opt ''diff'' CVal (dp_diff d) \<circ>
       ins_opt ''output'' cstr (dp_output d) \<circ>
       ins_opt ''message'' cstr (dp_message d) \<circ>
       ins_opt ''resolved'' cbool (dp_resolved d) \<circ>
       ins_opt ''questions'' CVal (dp_questions d) \<circ>
       ins_opt ''isError'' cbool (dp_is_error d) \<circ>
       ins_opt ''call'' CVal (dp_call d) \<circ>
       ins_opt ''mimeType'' cstr (dp_mime_type d) \<circ>
       ins_opt ''name'' cstr (dp_name d) \<circ>
       ins_opt ''path'' cstr (dp_path d)) m)"

section \<open>Reading a part\<close>

text \<open>The derived decoder of \<open>DocPartJson\<close>.\<close>

definition dec_doc_part :: "json \<Rightarrow> DocPartJson option" where
  "dec_doc_part v = do {
     i \<leftarrow> req as_str ''id'' v;
     k \<leftarrow> req as_str ''kind'' v;
     pa \<leftarrow> opt as_str ''path'' v;
     na \<leftarrow> opt as_str ''name'' v;
     mt \<leftarrow> opt as_str ''mimeType'' v;
     te \<leftarrow> opt as_str ''text'' v;
     re \<leftarrow> opt as_str ''reasoning'' v;
     ca \<leftarrow> opt Some ''call'' v;
     er \<leftarrow> opt as_bool ''isError'' v;
     qu \<leftarrow> opt Some ''questions'' v;
     rs \<leftarrow> opt as_bool ''resolved'' v;
     me \<leftarrow> opt as_str ''message'' v;
     ou \<leftarrow> opt as_str ''output'' v;
     di \<leftarrow> opt Some ''diff'' v;
     orf \<leftarrow> opt as_str ''outputRef'' v;
     ob \<leftarrow> opt as_u64 ''outputBytes'' v;
     dr \<leftarrow> opt as_str ''diffRef'' v;
     ds \<leftarrow> opt Some ''diffStats'' v;
     sr \<leftarrow> opt as_str ''subagentRef'' v;
     ss \<leftarrow> opt as_str ''subagentStatus'' v;
     st \<leftarrow> opt as_str ''subagentTail'' v;
     Some \<lparr>dp_id = i, dp_kind = k, dp_path = pa, dp_name = na, dp_mime_type = mt, dp_text = te,
       dp_reasoning = re, dp_call = ca, dp_is_error = er, dp_questions = qu, dp_resolved = rs,
       dp_message = me, dp_output = ou, dp_diff = di, dp_output_ref = orf, dp_output_bytes = ob,
       dp_diff_ref = dr, dp_diff_stats = ds, dp_subagent_ref = sr, dp_subagent_status = ss,
       dp_subagent_tail = st\<rparr>}"

definition read_part :: "part_map \<Rightarrow> MessagePart option" where
  "read_part m = map_option from_doc_part (dec_doc_part (part_json m))"

section \<open>Reading an entry\<close>

record raw_entry =
  re_id :: string
  re_role :: MessageRole
  re_parts :: "DocPartJson list"
  re_created_at :: int
  re_device_id :: string
  re_status :: "MessageStatus option"
  re_continuation_of :: "string option"

definition dec_raw_entry :: "json \<Rightarrow> raw_entry option" where
  "dec_raw_entry v = do {
     i \<leftarrow> req as_str ''id'' v;
     r \<leftarrow> req (dec_enum role_names) ''role'' v;
     ps \<leftarrow> dflt [] (dec_vec dec_doc_part) ''parts'' v;
     c \<leftarrow> req as_i64 ''createdAt'' v;
     d \<leftarrow> req as_str ''deviceId'' v;
     s \<leftarrow> opt (dec_enum status_names) ''status'' v;
     k \<leftarrow> opt as_str ''continuationOf'' v;
     Some \<lparr>re_id = i, re_role = r, re_parts = ps, re_created_at = c, re_device_id = d,
       re_status = s, re_continuation_of = k\<rparr>}"

definition str_field :: "(string \<times> json) list \<Rightarrow> string \<Rightarrow> string option" where
  "str_field m k = Option.bind (map_of m k) as_str"

definition salvage_part :: "json \<Rightarrow> string \<Rightarrow> nat \<Rightarrow> MessagePart option" where
  "salvage_part part entry_id ix = do {
     m \<leftarrow> as_object part;
     let i = unwrap_or (entry_id @ ''#recovered-'' @ decimal ix) (str_field m ''id'');
     if str_field m ''kind'' = Some ''image'' then
       Some (image_part i (str_field m ''path'') (str_field m ''name'') (str_field m ''mimeType''))
     else case str_field m ''reasoning'' of Some r \<Rightarrow> Some (MpReasoning i r) | None \<Rightarrow>
       (case str_field m ''text'' of Some t \<Rightarrow> Some (MpText i t) | None \<Rightarrow>
         (case Option.bind (map_of m ''call'') dec_call of
            Some c \<Rightarrow> Some (MpTool ((new_tool i c)\<lparr>
              tp_is_error := unwrap_or False (Option.bind (map_of m ''isError'') as_bool),
              tp_resolved := unwrap_or True (Option.bind (map_of m ''resolved'') as_bool),
              tp_output := str_field m ''output''\<rparr>))
          | None \<Rightarrow> map_option (MpError i) (str_field m ''message'')))}"

definition read_or_salvage_part :: "string \<Rightarrow> nat \<times> json \<Rightarrow> MessagePart option" where
  "read_or_salvage_part entry_id p =
     (case p of (ix, part) \<Rightarrow>
        (case dec_doc_part part of Some d \<Rightarrow> Some (from_doc_part d)
         | None \<Rightarrow> salvage_part part entry_id ix))"

definition salvage_entry :: "(json \<Rightarrow> string) \<Rightarrow> json \<Rightarrow> SessionMessageEntry option" where
  "salvage_entry hx v = do {
     m \<leftarrow> as_object v;
     let i = unwrap_or (''recovered-'' @ hx v) (str_field m ''id'');
     Some \<lparr>me_id = i,
       me_role = unwrap_or Assistant (Option.bind (map_of m ''role'') (dec_enum role_names)),
       me_parts = (case Option.bind (map_of m ''parts'') as_array of
          Some raw \<Rightarrow> List.map_filter (read_or_salvage_part i) (enumerate 0 raw) | None \<Rightarrow> []),
       me_created_at = unwrap_or 0 (Option.bind (map_of m ''createdAt'') as_i64),
       me_device_id = unwrap_or [] (str_field m ''deviceId''),
       me_status = Option.bind (map_of m ''status'') (dec_enum status_names),
       me_continuation_of = str_field m ''continuationOf''\<rparr>}"

definition entry_from_json :: "(json \<Rightarrow> string) \<Rightarrow> json \<Rightarrow> SessionMessageEntry option" where
  "entry_from_json hx v =
     (case dec_raw_entry v of
        Some raw \<Rightarrow> Some \<lparr>me_id = re_id raw, me_role = re_role raw,
          me_parts = map from_doc_part (re_parts raw), me_created_at = re_created_at raw,
          me_device_id = re_device_id raw, me_status = re_status raw,
          me_continuation_of = re_continuation_of raw\<rparr>
      | None \<Rightarrow> salvage_entry hx v)"

section \<open>The message list\<close>

record doc_entry =
  de_fields :: "(string \<times> json) list"
  de_parts :: "part_map list"

definition write_entry_scalar_fields :: "SessionMessageEntry \<Rightarrow> (string \<times> json) list" where
  "write_entry_scalar_fields e =
     [(''id'', JStr (me_id e)), (''role'', JStr (role_str (me_role e))),
      (''createdAt'', JInt (me_created_at e)), (''deviceId'', JStr (me_device_id e))] @
     member_opt ''status'' (\<lambda>s. JStr (status_str s)) (me_status e) @
     member_opt ''continuationOf'' JStr (me_continuation_of e)"

definition push_message :: "SessionMessageEntry \<Rightarrow> doc_entry list \<Rightarrow> doc_entry list" where
  "push_message e ms =
     ms @ [\<lparr>de_fields = write_entry_scalar_fields e, de_parts = map push_part (me_parts e)\<rparr>]"

definition entry_json :: "doc_entry \<Rightarrow> json" where
  "entry_json e = JObj (de_fields e @ [(''parts'', JArr (map part_json (de_parts e)))])"

definition read_entries :: "(json \<Rightarrow> string) \<Rightarrow> doc_entry list \<Rightarrow> SessionMessageEntry list" where
  "read_entries hx ms = List.map_filter (entry_from_json hx \<circ> entry_json) ms"

definition has_id :: "string \<Rightarrow> (string \<times> json) list \<Rightarrow> bool" where
  "has_id i m \<longleftrightarrow> map_of m ''id'' = Some (JStr i)"

definition part_has :: "string \<Rightarrow> string \<Rightarrow> part_map \<Rightarrow> bool" where
  "part_has k s m \<longleftrightarrow> map_of m k = Some (CVal (JStr s))"

text \<open>The status of the first entry with the id.\<close>

fun set_message_status ::
  "string \<Rightarrow> MessageStatus \<Rightarrow> doc_entry list \<Rightarrow> doc_entry list \<times> bool" where
  "set_message_status i st [] = ([], False)"
| "set_message_status i st (e # es) =
     (if has_id i (de_fields e)
      then (e\<lparr>de_fields := oinsert ''status'' (JStr (status_str st)) (de_fields e)\<rparr> # es, True)
      else (case set_message_status i st es of (es', r) \<Rightarrow> (e # es', r)))"

text \<open>Once per part id.\<close>

fun append_error_part ::
  "string \<Rightarrow> string \<Rightarrow> string \<Rightarrow> doc_entry list \<Rightarrow> doc_entry list \<times> bool" where
  "append_error_part i pid msg [] = ([], False)"
| "append_error_part i pid msg (e # es) =
     (if \<not> has_id i (de_fields e)
      then (case append_error_part i pid msg es of (es', r) \<Rightarrow> (e # es', r))
      else if \<exists>m \<in> set (de_parts e). part_has ''id'' pid m then (e # es, True)
      else (e\<lparr>de_parts := de_parts e @ [push_part (MpError pid msg)]\<rparr> # es, True))"

text \<open>The first part that matches, entry by entry.\<close>

fun update_part_where ::
  "(part_map \<Rightarrow> bool) \<Rightarrow> (part_map \<Rightarrow> part_map) \<Rightarrow> doc_entry list \<Rightarrow> doc_entry list \<times> bool" where
  "update_part_where P f [] = ([], False)"
| "update_part_where P f (e # es) =
     (if \<exists>m \<in> set (de_parts e). P m
      then (e\<lparr>de_parts := update_first P f (de_parts e)\<rparr> # es, True)
      else (case update_part_where P f es of (es', r) \<Rightarrow> (e # es', r)))"

definition update_permission_request ::
  "PermissionRequest \<Rightarrow> doc_entry list \<Rightarrow> doc_entry list \<times> bool" where
  "update_permission_request r =
     update_part_where (part_has ''id'' (''permission-'' @ pr_id r))
       (oinsert ''questions'' (CVal (enc_request r)))"

definition resolve_input :: "string \<Rightarrow> doc_entry list \<Rightarrow> doc_entry list \<times> bool" where
  "resolve_input rid =
     update_part_where (\<lambda>m. part_has ''kind'' ''input'' m \<and> part_has ''id'' rid m)
       (oinsert ''resolved'' (CVal (JBool True)))"

text \<open>From the newest entry back; a matching part that is no spawn stops the search.\<close>

definition is_chip :: "string \<Rightarrow> part_map \<Rightarrow> bool" where
  "is_chip pid m \<longleftrightarrow> part_has ''kind'' ''tool'' m \<and> part_has ''id'' pid m"

definition chip_is_spawn :: "part_map \<Rightarrow> bool" where
  "chip_is_spawn m =
     (case map_of m ''call'' of Some (CVal v) \<Rightarrow>
        (case dec_call v of Some c \<Rightarrow> is_subagent_spawn c | None \<Rightarrow> False)
      | _ \<Rightarrow> False)"

fun update_chip_back ::
  "string \<Rightarrow> (part_map \<Rightarrow> part_map) \<Rightarrow> doc_entry list \<Rightarrow> doc_entry list \<times> bool" where
  "update_chip_back pid f [] = ([], False)"
| "update_chip_back pid f (e # es) =
     (case List.find (is_chip pid) (de_parts e) of
        Some m \<Rightarrow>
          (if chip_is_spawn m
           then (e\<lparr>de_parts := update_first (is_chip pid) f (de_parts e)\<rparr> # es, True)
           else (e # es, False))
      | None \<Rightarrow> (case update_chip_back pid f es of (es', r) \<Rightarrow> (e # es', r)))"

definition update_subagent_chip ::
  "string \<Rightarrow> string option \<Rightarrow> string option \<Rightarrow> string option \<Rightarrow> doc_entry list \<Rightarrow>
   doc_entry list \<times> bool" where
  "update_subagent_chip pid r st tail ms =
     (case update_chip_back pid
        (ins_opt ''subagentTail'' cstr tail \<circ> ins_opt ''subagentStatus'' cstr st \<circ>
         ins_opt ''subagentRef'' cstr r) (rev ms) of
        (ms', ok) \<Rightarrow> (rev ms', ok))"

section \<open>Joining continuations\<close>

text \<open>The state of the loop: the entries out so far, and where each root is.\<close>

definition join_step ::
  "SessionMessageEntry list \<times> (string \<times> nat) list \<Rightarrow> SessionMessageEntry \<Rightarrow>
   SessionMessageEntry list \<times> (string \<times> nat) list" where
  "join_step st e =
     (case st of (out, roots) \<Rightarrow>
        (case me_continuation_of e of
           Some root \<Rightarrow>
             (case map_of roots root of
                Some at \<Rightarrow> (out[at := (out ! at)\<lparr>me_parts := me_parts (out ! at) @ me_parts e\<rparr>], roots)
              | None \<Rightarrow> (out @ [e], roots))
         | None \<Rightarrow> (out @ [e], oinsert (me_id e) (length out) roots)))"

definition join_continuation_entries :: "SessionMessageEntry list \<Rightarrow> SessionMessageEntry list" where
  "join_continuation_entries es =
     (if \<not> (\<exists>e \<in> set es. me_continuation_of e \<noteq> None) then es
      else fst (foldl join_step ([], []) es))"

definition TAIL_MESSAGE_COUNT :: nat where "TAIL_MESSAGE_COUNT = 64"

record SessionTail =
  tail_messages :: "SessionMessageEntry list"
  tail_total :: nat

definition materialize_tail ::
  "(json \<Rightarrow> string) \<Rightarrow> doc_entry list \<Rightarrow> nat \<Rightarrow> SessionTail" where
  "materialize_tail hx ms tail_count =
     (let joined = join_continuation_entries (read_entries hx ms);
          start = length joined - (if tail_count = 0 then TAIL_MESSAGE_COUNT else tail_count)
      in \<lparr>tail_messages = drop start joined, tail_total = length joined\<rparr>)"

end
