(* ===== verification/Doc_Roundtrip.thy ===== *)
theory Doc_Roundtrip
  imports Doc_Schema
begin

text \<open>
  What the document layout of \<open>schema.rs\<close> guarantees: a written message reads back as
  itself, a damaged entry costs at most its damaged fields, joining continuations loses no
  part.
\<close>

section \<open>Lookups in a written part\<close>

lemma cell_opt_lookup:
  "map_of (cell_opt k f x @ r) k' =
     (if k' = k then (case x of None \<Rightarrow> map_of r k' | Some v \<Rightarrow> Some (f v)) else map_of r k')"
  by (simp add: cell_opt_def split: option.split)

lemma cell_opt_lookup_last:
  "map_of (cell_opt k f x) k' = (if k' = k then map_option f x else None)"
  by (simp add: cell_opt_def split: option.split)

text \<open>Each key of a freshly written part holds its field.\<close>

lemma push_lookup:
  "map_of (push_fields d) ''id'' = Some (cstr (dp_id d))"
  "map_of (push_fields d) ''kind'' = Some (cstr (dp_kind d))"
  "map_of (push_fields d) ''text'' = map_option CText (dp_text d)"
  "map_of (push_fields d) ''reasoning'' = map_option CText (dp_reasoning d)"
  "map_of (push_fields d) ''path'' = map_option cstr (dp_path d)"
  "map_of (push_fields d) ''name'' = map_option cstr (dp_name d)"
  "map_of (push_fields d) ''mimeType'' = map_option cstr (dp_mime_type d)"
  "map_of (push_fields d) ''call'' = map_option CVal (dp_call d)"
  "map_of (push_fields d) ''isError'' = map_option cbool (dp_is_error d)"
  "map_of (push_fields d) ''questions'' = map_option CVal (dp_questions d)"
  "map_of (push_fields d) ''resolved'' = map_option cbool (dp_resolved d)"
  "map_of (push_fields d) ''message'' = map_option cstr (dp_message d)"
  "map_of (push_fields d) ''output'' = map_option cstr (dp_output d)"
  "map_of (push_fields d) ''diff'' = map_option CVal (dp_diff d)"
  "map_of (push_fields d) ''outputRef'' = map_option cstr (dp_output_ref d)"
  "map_of (push_fields d) ''outputBytes'' =
     map_option (\<lambda>n. CVal (JInt (u64_as_i64 n))) (dp_output_bytes d)"
  "map_of (push_fields d) ''diffRef'' = map_option cstr (dp_diff_ref d)"
  "map_of (push_fields d) ''diffStats'' = map_option CVal (dp_diff_stats d)"
  "map_of (push_fields d) ''subagentRef'' = map_option cstr (dp_subagent_ref d)"
  "map_of (push_fields d) ''subagentStatus'' = map_option cstr (dp_subagent_status d)"
  "map_of (push_fields d) ''subagentTail'' = map_option cstr (dp_subagent_tail d)"
  unfolding push_fields_def append_Cons append_Nil
  by (simp_all add: cell_opt_lookup cell_opt_lookup_last del: map_of_append split: option.split)

lemma get_part_json: "json_get k (part_json m) = map_option cell_json (map_of m k)"
  by (induction m) (auto simp: part_json_def)

lemma u64_as_i64_small: "n < 2 ^ 63 \<Longrightarrow> u64_as_i64 n = int n"
  by (simp add: u64_as_i64_def)

section \<open>Round trip of a part\<close>

definition doc_part_ok :: "DocPartJson \<Rightarrow> bool" where
  "doc_part_ok d \<longleftrightarrow> dp_call d \<noteq> Some JNull \<and> dp_questions d \<noteq> Some JNull \<and>
     dp_diff d \<noteq> Some JNull \<and> dp_diff_stats d \<noteq> Some JNull \<and>
     (case dp_output_bytes d of None \<Rightarrow> True | Some n \<Rightarrow> n < 2 ^ 63)"

lemma opt_map:
  "json_get k v = map_option JStr x \<Longrightarrow> opt as_str k v = Some x"
  "json_get k v = map_option JBool b \<Longrightarrow> opt as_bool k v = Some b"
  "json_get k v = j \<Longrightarrow> j \<noteq> Some JNull \<Longrightarrow> opt Some k v = Some j"
  by (simp_all add: str_codec.opt_enc bool_codec.opt_enc) (auto simp: opt_def split: option.split)

lemma dec_doc_part_eq:
  assumes "doc_part_ok d" "\<And>k. map_of m k = map_of (push_fields d) k"
  shows "dec_doc_part (part_json m) = Some d"
proof -
  let ?v = "part_json m"
  have get: "json_get k ?v = map_option cell_json (map_of (push_fields d) k)" for k
    by (simp add: get_part_json assms(2))
  have strs: "json_get k ?v = map_option JStr x \<Longrightarrow> opt as_str k ?v = Some x" for k x
    by (rule opt_map)
  have "req as_str ''id'' ?v = Some (dp_id d)" "req as_str ''kind'' ?v = Some (dp_kind d)"
    by (simp_all add: req_def get push_lookup as_str_def)
  moreover have "opt as_str ''path'' ?v = Some (dp_path d)" "opt as_str ''name'' ?v = Some (dp_name d)"
      "opt as_str ''mimeType'' ?v = Some (dp_mime_type d)"
      "opt as_str ''text'' ?v = Some (dp_text d)"
      "opt as_str ''reasoning'' ?v = Some (dp_reasoning d)"
      "opt as_str ''message'' ?v = Some (dp_message d)"
      "opt as_str ''output'' ?v = Some (dp_output d)"
      "opt as_str ''outputRef'' ?v = Some (dp_output_ref d)"
      "opt as_str ''diffRef'' ?v = Some (dp_diff_ref d)"
      "opt as_str ''subagentRef'' ?v = Some (dp_subagent_ref d)"
      "opt as_str ''subagentStatus'' ?v = Some (dp_subagent_status d)"
      "opt as_str ''subagentTail'' ?v = Some (dp_subagent_tail d)"
    by (rule strs, simp add: get push_lookup option.map_comp comp_def)+
  moreover have "opt as_bool ''isError'' ?v = Some (dp_is_error d)"
      "opt as_bool ''resolved'' ?v = Some (dp_resolved d)"
    by (rule opt_map(2), simp add: get push_lookup option.map_comp comp_def)+
  moreover have "opt Some ''call'' ?v = Some (dp_call d)"
      "opt Some ''questions'' ?v = Some (dp_questions d)"
      "opt Some ''diff'' ?v = Some (dp_diff d)" "opt Some ''diffStats'' ?v = Some (dp_diff_stats d)"
    using assms(1)
    by (simp_all add: opt_map(3) get push_lookup option.map_comp comp_def doc_part_ok_def
        option.map_ident)
  moreover have "opt as_u64 ''outputBytes'' ?v = Some (dp_output_bytes d)"
    using assms(1)
    by (cases "dp_output_bytes d")
       (simp_all add: opt_def get push_lookup as_u64_def doc_part_ok_def u64_as_i64_small)
  ultimately show ?thesis by (simp add: dec_doc_part_def)
qed

text \<open>Parts whose stored form is faithful, and what they read back as: an unresolved tool
  part drops its error flag, an input part is known by its request id, a generated image of
  an unknown type becomes an error part.\<close>

fun storable :: "MessagePart \<Rightarrow> bool" where
  "storable (MpTool t) \<longleftrightarrow> call_storable (tp_call t) \<and>
     (case tp_diff_stats t of None \<Rightarrow> True | Some ss \<Rightarrow> list_all stat_ok ss) \<and>
     (case tp_output_bytes t of None \<Rightarrow> True | Some n \<Rightarrow> n < 2 ^ 63)"
| "storable _ \<longleftrightarrow> True"

fun read_back :: "MessagePart \<Rightarrow> MessagePart" where
  "read_back (MpTool t) = MpTool (t\<lparr>tp_is_error := tp_is_error t \<and> tp_resolved t\<rparr>)"
| "read_back (MpInput _ rid qs b) = MpInput rid rid qs b"
| "read_back (MpImage i p n m) = image_part i (Some p) (Some n) (Some m)"
| "read_back p = p"

lemma storable_ok: "storable p \<Longrightarrow> doc_part_ok (to_doc_part p)"
  by (cases p)
     (auto simp: doc_part_ok_def blank_part_def request_codec.enc_not_null
       call_codec.enc_not_null diff_codec.enc_not_null)

lemma from_to_doc_part: "storable p \<Longrightarrow> from_doc_part (to_doc_part p) = read_back p"
proof (cases p)
  case (MpTool t)
  moreover assume "storable p"
  moreover have "Option.bind (map_option enc_diff (tp_diff t)) dec_diff = tp_diff t"
    by (cases "tp_diff t") (simp_all add: diff_codec.dec_enc)
  moreover have "Option.bind (map_option subagent_str (tp_subagent_status t)) (map_of subagent_names)
      = tp_subagent_status t"
    by (cases "tp_subagent_status t") simp_all
  moreover have "Option.bind (map_option (\<lambda>ss. JArr (map enc_stat ss)) (tp_diff_stats t))
      (dec_vec dec_stat) = tp_diff_stats t"
    using calculation(1,2)
    by (cases "tp_diff_stats t") (simp_all add: stat_codec.dec_vec_enc list_all_iff)
  ultimately show ?thesis
    by (simp add: from_doc_part_def blank_part_def call_codec.dec_enc)
qed (simp_all add: from_doc_part_def blank_part_def question_codec.dec_vec_enc
      request_codec.dec_enc)

lemma read_part_eq:
  assumes "storable p" "\<And>k. map_of m k = map_of (push_part p) k"
  shows "read_part m = Some (read_back p)"
  using dec_doc_part_eq [OF storable_ok [OF assms(1)], of m] assms
  by (simp add: read_part_def push_part_def from_to_doc_part)

section \<open>Round trip of an entry\<close>

definition read_back_entry :: "SessionMessageEntry \<Rightarrow> SessionMessageEntry" where
  "read_back_entry e = e\<lparr>me_parts := map read_back (me_parts e)\<rparr>"

lemma dec_parts:
  "list_all storable ps \<Longrightarrow>
     dec_vec dec_doc_part (JArr (map part_json (map push_part ps))) = Some (map to_doc_part ps)"
  by (simp add: dec_vec_def comp_def list_all_iff push_part_def
      those_map_Some [where g = to_doc_part] dec_doc_part_eq storable_ok)

lemma entry_json_written:
  assumes "list_all storable (me_parts e)" "- (2 ^ 63) \<le> me_created_at e" "me_created_at e < 2 ^ 63"
  shows "entry_from_json hx (entry_json \<lparr>de_fields = write_entry_scalar_fields e,
     de_parts = map push_part (me_parts e)\<rparr>) = Some (read_back_entry e)"
proof -
  let ?v = "entry_json \<lparr>de_fields = write_entry_scalar_fields e,
     de_parts = map push_part (me_parts e)\<rparr>"
  have "dec_raw_entry ?v = Some \<lparr>re_id = me_id e, re_role = me_role e,
      re_parts = map to_doc_part (me_parts e), re_created_at = me_created_at e,
      re_device_id = me_device_id e, re_status = me_status e,
      re_continuation_of = me_continuation_of e\<rparr>"
    using dec_parts [OF assms(1)] assms(2,3)
    by (cases "me_status e"; cases "me_continuation_of e")
       (simp_all add: dec_raw_entry_def entry_json_def write_entry_scalar_fields_def wire_simps
         as_i64_def del: map_map)
  moreover have "map from_doc_part (map to_doc_part (me_parts e)) = map read_back (me_parts e)"
    using assms(1) by (simp add: list_all_iff from_to_doc_part)
  ultimately show ?thesis
    by (simp add: entry_from_json_def read_back_entry_def)
qed

section \<open>Salvage\<close>

lemma map_filter_those:
  "those (map f xs) = Some ys \<Longrightarrow> (\<And>n x. x \<in> set xs \<Longrightarrow> f x \<noteq> None \<Longrightarrow> g (n, x) = map_option h (f x)) \<Longrightarrow>
     List.map_filter g (enumerate k xs) = map h ys"
proof (induction xs arbitrary: ys k)
  case (Cons x xs)
  then obtain y zs where *: "f x = Some y" "those (map f xs) = Some zs" "ys = y # zs"
    by (auto split: option.splits)
  have "g (k, x) = Some (h y)" using Cons.prems(2) [of x k] *(1) by simp
  with Cons.IH [OF *(2), of "Suc k"] Cons.prems(2) *(3) show ?case
    by (simp add: map_filter_def)
qed (simp add: map_filter_def)

lemma strict_parts:
  assumes "dec_vec dec_doc_part (JArr raw) = Some ds"
  shows "List.map_filter (read_or_salvage_part i) (enumerate 0 raw) = map from_doc_part ds"
proof (rule map_filter_those [of dec_doc_part])
  show "those (map dec_doc_part raw) = Some ds" using assms by (simp add: dec_vec_def)
qed (auto simp: read_or_salvage_part_def split: option.split)

lemma entry_salvaged:
  assumes "map_of m ''parts'' = Some (JArr raw)"
  shows "\<exists>e. entry_from_json hx (JObj m) = Some e \<and>
     me_parts e = List.map_filter (read_or_salvage_part (me_id e)) (enumerate 0 raw)"
proof (cases "dec_raw_entry (JObj m)")
  case None
  then show ?thesis
    using assms
    by (simp add: entry_from_json_def salvage_entry_def as_object_def as_array_def Let_def)
next
  case (Some r)
  then have "dec_vec dec_doc_part (JArr raw) = Some (re_parts r)"
    using assms by (auto simp: dec_raw_entry_def dflt_def bind_eq_Some_conv split: option.splits)
  with Some show ?thesis by (simp add: entry_from_json_def strict_parts)
qed

section \<open>Joining\<close>

definition all_parts :: "SessionMessageEntry list \<Rightarrow> MessagePart multiset" where
  "all_parts es = mset (concat (map me_parts es))"

lemma all_parts_simps [simp]:
  "all_parts [] = {#}" "all_parts (e # es) = mset (me_parts e) + all_parts es"
  "all_parts (es @ fs) = all_parts es + all_parts fs"
  by (simp_all add: all_parts_def)

lemma all_parts_update:
  "at < length es \<Longrightarrow>
     all_parts (es[at := (es ! at)\<lparr>me_parts := me_parts (es ! at) @ ps\<rparr>]) = all_parts es + mset ps"
proof -
  assume at: "at < length es"
  then have "es = take at es @ es ! at # drop (Suc at) es" by (rule id_take_nth_drop)
  then have "all_parts es = all_parts (take at es @ es ! at # drop (Suc at) es)" by simp
  with at show ?thesis by (simp add: upd_conv_take_nth_drop)
qed

definition roots_ok :: "SessionMessageEntry list \<times> (string \<times> nat) list \<Rightarrow> bool" where
  "roots_ok st \<longleftrightarrow> (\<forall>i at. map_of (snd st) i = Some at \<longrightarrow> at < length (fst st))"

lemma join_step_parts:
  "roots_ok st \<Longrightarrow> roots_ok (join_step st e) \<and>
     all_parts (fst (join_step st e)) = all_parts (fst st) + mset (me_parts e)"
  by (cases st)
     (auto simp: join_step_def roots_ok_def all_parts_update less_Suc_eq split: option.splits)

lemma join_fold_parts:
  "roots_ok st \<Longrightarrow> all_parts (fst (foldl join_step st es)) = all_parts (fst st) + all_parts es"
proof (induction es arbitrary: st)
  case (Cons e es)
  from Cons.IH [of "join_step st e"] join_step_parts [OF Cons.prems, of e] show ?case
    by (simp add: ac_simps)
qed simp

section \<open>Properties\<close>

text \<open>C6: a message written to the document reads back: its fields and its parts are what was
  written, an input part under its request id, and the messages before it read as before.\<close>

theorem message_roundtrip:
  assumes "list_all storable (me_parts e)" "- (2 ^ 63) \<le> me_created_at e" "me_created_at e < 2 ^ 63"
  shows "read_entries hx (push_message e ms) = read_entries hx ms @ [read_back_entry e]"
  using entry_json_written [OF assms, of hx]
  by (simp add: read_entries_def push_message_def map_filter_def)

definition demo_message :: SessionMessageEntry where
  "demo_message = \<lparr>me_id = ''m'', me_role = Assistant,
     me_parts = [MpText ''t0'' ''hi'', MpTool ((new_tool ''c'' (Exec ''ls''))\<lparr>tp_resolved := True\<rparr>)],
     me_created_at = 7, me_device_id = ''d'', me_status = Some Complete, me_continuation_of = None\<rparr>"

lemma message_roundtrip_witness:
  "read_entries (\<lambda>_. []) (push_message demo_message []) = [demo_message]"
proof -
  have "read_entries (\<lambda>_. []) (push_message demo_message []) =
      read_entries (\<lambda>_. []) [] @ [read_back_entry demo_message]"
    by (rule message_roundtrip)
       (simp_all add: demo_message_def new_tool_def call_storable_def call_input_def)
  moreover have "read_back_entry demo_message = demo_message"
    by (simp add: read_back_entry_def demo_message_def new_tool_def)
  ultimately show ?thesis by (simp add: read_entries_def map_filter_def)
qed

text \<open>C7: damage stays local: an entry that is an object with a parts list is always read,
  whatever its other fields are, and each element of that list is read on its own: strictly
  where the strict shape accepts it, else salvaged, else dropped alone.\<close>

theorem damage_stays_local:
  assumes "map_of m ''parts'' = Some (JArr raw)"
  shows "\<exists>e. entry_from_json hx (JObj m) = Some e \<and>
     me_parts e = List.map_filter (read_or_salvage_part (me_id e)) (enumerate 0 raw)"
  using assms by (rule entry_salvaged)

lemma damage_stays_local_witness:
  "\<exists>e. entry_from_json (\<lambda>_. ''0'') (JObj [(''parts'', JArr [JObj [(''text'', JStr ''x'')], JNull])]) =
      Some e \<and> me_parts e = [MpText ''recovered-0#recovered-0'' ''x'']"
proof -
  let ?m = "[(''parts'', JArr [JObj [(''text'', JStr ''x'')], JNull])]"
  obtain e where e: "entry_from_json (\<lambda>_. ''0'') (JObj ?m) = Some e"
    "me_parts e = List.map_filter (read_or_salvage_part (me_id e))
       (enumerate 0 [JObj [(''text'', JStr ''x'')], JNull])"
    using damage_stays_local [of ?m "[JObj [(''text'', JStr ''x'')], JNull]" "\<lambda>_. ''0''"] by auto
  have "me_id e = ''recovered-0''"
    using e(1) by (simp add: entry_from_json_def dec_raw_entry_def req_def salvage_entry_def
        as_object_def str_field_def) (auto simp: Let_def)
  moreover have "decimal 0 = ''0''" by (simp add: decimal.simps digit_def char_of_def bit_iff_odd)
  ultimately show ?thesis
    using e by (simp add: map_filter_def read_or_salvage_part_def dec_doc_part_def req_def
        salvage_part_def as_object_def str_field_def as_str_def json_get_def)
qed

text \<open>joining continuation entries loses and duplicates no part, whether the root of a
  continuation is present, missing or repeated.\<close>

theorem join_keeps_every_part: "all_parts (join_continuation_entries es) = all_parts es"
proof -
  have "roots_ok ([], [])" by (simp add: roots_ok_def)
  from join_fold_parts [OF this, of es] show ?thesis
    by (simp add: join_continuation_entries_def)
qed

end
