(* ===== verification/Segment_Writer.thy ===== *)
theory Segment_Writer
  imports Doc_Roundtrip
begin

text \<open>
  \<open>SegmentWriter\<close> of \<open>crates/doc/src/schema.rs\<close>: the incremental writer of a streaming
  message. At every commit tick it is handed the folded parts, compares them with a mirror of
  what it wrote, and writes the difference. The abstract contract is that the document holds
  the folded parts; \<open>writer_refines_fold\<close> proves it for every cadence of ticks over steady
  events, and the last property shows where the contract ends.
\<close>

section \<open>The writer\<close>

record writer =
  sw_index :: nat
  sw_written :: "MessagePart list"

definition begin_segment ::
  "string \<Rightarrow> string \<Rightarrow> int \<Rightarrow> doc_entry list \<Rightarrow> doc_entry list \<times> writer" where
  "begin_segment entry_id device created ms =
     (push_message \<lparr>me_id = entry_id, me_role = Assistant, me_parts = [], me_created_at = created,
        me_device_id = device, me_status = Some Streaming, me_continuation_of = None\<rparr> ms,
      \<lparr>sw_index = length ms, sw_written = []\<rparr>)"

text \<open>Trailing growth: the container's field, and what to append.\<close>

fun grown :: "MessagePart \<Rightarrow> MessagePart \<Rightarrow> (string \<times> string) option" where
  "grown (MpText _ old) (MpText _ new) =
     (if starts_with new old then Some (''text'', drop (length old) new) else None)"
| "grown (MpReasoning _ old) (MpReasoning _ new) =
     (if starts_with new old then Some (''reasoning'', drop (length old) new) else None)"
| "grown _ _ = None"

type_synonym sync_state = "part_map list \<times> MessagePart list"

definition sync_part :: "nat \<Rightarrow> MessagePart \<Rightarrow> sync_state \<Rightarrow> string + sync_state" where
  "sync_part i p st =
     (case st of (P, W) \<Rightarrow>
        if length W \<le> i then Inr (P @ [push_part p], W @ [p])
        else if W ! i = p then Inr (P, W)
        else case grown (W ! i) p of
          Some (field, delta) \<Rightarrow>
            (if delta = [] then Inr (P, W[i := p])
             else if length P \<le> i then Inl (''part map missing at '' @ decimal i)
             else (case map_of (P ! i) field of
               Some (CText t) \<Rightarrow> Inr (P[i := oinsert field (CText (t @ delta)) (P ! i)], W[i := p])
             | _ \<Rightarrow> Inl (field @ '' part missing LoroText'')))
        | None \<Rightarrow>
            (if length P \<le> i then Inl (''part map missing at '' @ decimal i)
             else Inr (P[i := update_part_fields p (P ! i)], W[i := p])))"

fun sync_from :: "nat \<Rightarrow> MessagePart list \<Rightarrow> sync_state \<Rightarrow> string + sync_state" where
  "sync_from i [] st = Inr st"
| "sync_from i (p # ps) st = rbind (sync_part i p st) (sync_from (Suc i) ps)"

definition sync ::
  "MessagePart list \<Rightarrow> doc_entry list \<times> writer \<Rightarrow> string + doc_entry list \<times> writer" where
  "sync folded s =
     (case s of (ms, w) \<Rightarrow>
        if length ms \<le> sw_index w then Inl ''streaming entry map missing''
        else rbind (sync_from 0 folded (de_parts (ms ! sw_index w), sw_written w))
          (\<lambda>(P, W). Inr (ms[sw_index w := (ms ! sw_index w)\<lparr>de_parts := P\<rparr>], w\<lparr>sw_written := W\<rparr>)))"

definition finish ::
  "MessagePart list \<Rightarrow> MessageStatus \<Rightarrow> doc_entry list \<times> writer \<Rightarrow> string + doc_entry list" where
  "finish folded st s =
     rbind (sync folded s) (\<lambda>(ms, w).
       Inr (ms[sw_index w := (ms ! sw_index w)
         \<lparr>de_fields := oinsert ''status'' (JStr (status_str st)) (de_fields (ms ! sw_index w))\<rparr>]))"

text \<open>The engine's loop: fold a batch of events, sync, and so on.\<close>

fun stream ::
  "(string \<Rightarrow> string \<Rightarrow> nat \<times> nat) \<Rightarrow> AgentEvent list list \<Rightarrow> MessagePart list \<Rightarrow>
   doc_entry list \<times> writer \<Rightarrow> string + doc_entry list \<times> writer" where
  "stream ld [] ps s = Inr s"
| "stream ld (evs # ticks) ps s =
     rbind (sync (fold_events ld evs ps) s) (stream ld ticks (fold_events ld evs ps))"

section \<open>What an in-place refresh leaves in a part\<close>

definition part_keys :: "string list" where
  "part_keys = [''id'', ''kind'', ''text'', ''reasoning'', ''path'', ''name'', ''mimeType'', ''call'',
     ''isError'', ''questions'', ''resolved'', ''message'', ''output'', ''diff'', ''outputRef'',
     ''outputBytes'', ''diffRef'', ''diffStats'', ''subagentRef'', ''subagentStatus'',
     ''subagentTail'']"

lemma push_lookup_other: "k \<notin> set part_keys \<Longrightarrow> map_of (push_fields d) k = None"
  unfolding push_fields_def append_Cons append_Nil part_keys_def
  by (simp add: cell_opt_lookup cell_opt_lookup_last del: map_of_append)

definition after_refresh :: "('a \<Rightarrow> cell) \<Rightarrow> 'a option \<Rightarrow> cell option \<Rightarrow> cell option" where
  "after_refresh f x old = (case x of None \<Rightarrow> old | Some v \<Rightarrow> Some (f v))"

lemma ins_opt_lookup:
  "map_of (ins_opt k f x m) k' =
     (if k' = k then after_refresh f x (map_of m k') else map_of m k')"
  by (simp add: ins_opt_def after_refresh_def split: option.split)

lemma update_lookup:
  assumes "d = to_doc_part q" "dp_text d = None" "dp_reasoning d = None"
  shows
    "map_of (update_part_fields q m) ''id'' = map_of m ''id''"
    "map_of (update_part_fields q m) ''kind'' = map_of m ''kind''"
    "map_of (update_part_fields q m) ''text'' = map_of m ''text''"
    "map_of (update_part_fields q m) ''reasoning'' = map_of m ''reasoning''"
    "map_of (update_part_fields q m) ''path'' = after_refresh cstr (dp_path d) (map_of m ''path'')"
    "map_of (update_part_fields q m) ''name'' = after_refresh cstr (dp_name d) (map_of m ''name'')"
    "map_of (update_part_fields q m) ''mimeType'' =
       after_refresh cstr (dp_mime_type d) (map_of m ''mimeType'')"
    "map_of (update_part_fields q m) ''call'' = after_refresh CVal (dp_call d) (map_of m ''call'')"
    "map_of (update_part_fields q m) ''isError'' =
       after_refresh cbool (dp_is_error d) (map_of m ''isError'')"
    "map_of (update_part_fields q m) ''questions'' =
       after_refresh CVal (dp_questions d) (map_of m ''questions'')"
    "map_of (update_part_fields q m) ''resolved'' =
       after_refresh cbool (dp_resolved d) (map_of m ''resolved'')"
    "map_of (update_part_fields q m) ''message'' =
       after_refresh cstr (dp_message d) (map_of m ''message'')"
    "map_of (update_part_fields q m) ''output'' =
       after_refresh cstr (dp_output d) (map_of m ''output'')"
    "map_of (update_part_fields q m) ''diff'' = after_refresh CVal (dp_diff d) (map_of m ''diff'')"
    "map_of (update_part_fields q m) ''outputRef'' =
       after_refresh cstr (dp_output_ref d) (map_of m ''outputRef'')"
    "map_of (update_part_fields q m) ''outputBytes'' =
       after_refresh (\<lambda>n. CVal (JInt (u64_as_i64 n))) (dp_output_bytes d) (map_of m ''outputBytes'')"
    "map_of (update_part_fields q m) ''diffRef'' =
       after_refresh cstr (dp_diff_ref d) (map_of m ''diffRef'')"
    "map_of (update_part_fields q m) ''diffStats'' =
       after_refresh CVal (dp_diff_stats d) (map_of m ''diffStats'')"
    "map_of (update_part_fields q m) ''subagentRef'' =
       after_refresh cstr (dp_subagent_ref d) (map_of m ''subagentRef'')"
    "map_of (update_part_fields q m) ''subagentStatus'' =
       after_refresh cstr (dp_subagent_status d) (map_of m ''subagentStatus'')"
    "map_of (update_part_fields q m) ''subagentTail'' =
       after_refresh cstr (dp_subagent_tail d) (map_of m ''subagentTail'')"
  using assms(2,3)
  by (simp_all add: update_part_fields_def Let_def assms(1) [symmetric] text_opt_def
      ins_opt_lookup)

lemma update_lookup_other:
  assumes "k \<notin> set part_keys" "d = to_doc_part q" "dp_text d = None" "dp_reasoning d = None"
  shows "map_of (update_part_fields q m) k = map_of m k"
  using assms
  by (simp add: update_part_fields_def Let_def assms(2) [symmetric] text_opt_def
      ins_opt_lookup part_keys_def)

text \<open>A refresh of a part that keeps its id and kind and drops no field leaves exactly the
  fields of the new part.\<close>

definition keeps_fields :: "DocPartJson \<Rightarrow> DocPartJson \<Rightarrow> bool" where
  "keeps_fields a b \<longleftrightarrow> dp_id a = dp_id b \<and> dp_kind a = dp_kind b \<and>
     (\<forall>k. map_of (push_fields b) k = None \<longrightarrow> map_of (push_fields a) k = None)"

lemma refresh_exact:
  assumes "keeps_fields (to_doc_part p) d" "d = to_doc_part q" "dp_text d = None" "dp_reasoning d = None"
    "map_of m = map_of (push_part p)"
  shows "map_of (update_part_fields q m) = map_of (push_part q)"
proof
  fix k
  have none: "map_of m k = None" if "map_of (push_fields d) k = None"
    using assms(1,5) that by (simp add: keeps_fields_def push_part_def)
  have same: "map_of m ''id'' = map_of (push_fields d) ''id''"
      "map_of m ''kind'' = map_of (push_fields d) ''kind''"
    using assms(1,5) by (simp_all add: keeps_fields_def push_part_def push_lookup)
  show "map_of (update_part_fields q m) k = map_of (push_part q) k"
  proof (cases "k \<in> set part_keys")
    case False
    then show ?thesis
      using none update_lookup_other [OF False assms(2-4)]
      by (simp add: push_part_def assms(2) [symmetric] push_lookup_other)
  next
    case True
    then show ?thesis
      using none same assms(3,4) unfolding push_part_def assms(2) [symmetric] part_keys_def
      by (elim insertE set_ConsD [elim_format] disjE)
         (auto simp: update_lookup [OF assms(2-4)] push_lookup after_refresh_def split: option.split)
  qed
qed

section \<open>Steps the writer can follow\<close>

definition keeps :: "'a option \<Rightarrow> 'b option \<Rightarrow> bool" where
  "keeps x y \<longleftrightarrow> (x \<noteq> None \<longrightarrow> y \<noteq> None)"

definition tool_evolves :: "ToolPart \<Rightarrow> ToolPart \<Rightarrow> bool" where
  "tool_evolves t u \<longleftrightarrow> tp_id t = tp_id u \<and> (tp_resolved t \<longrightarrow> tp_resolved u) \<and>
     keeps (tp_output t) (tp_output u) \<and> keeps (tp_diff t) (tp_diff u) \<and>
     keeps (tp_output_ref t) (tp_output_ref u) \<and> keeps (tp_output_bytes t) (tp_output_bytes u) \<and>
     keeps (tp_diff_ref t) (tp_diff_ref u) \<and> keeps (tp_diff_stats t) (tp_diff_stats u) \<and>
     keeps (tp_subagent_ref t) (tp_subagent_ref u) \<and>
     keeps (tp_subagent_status t) (tp_subagent_status u) \<and>
     keeps (tp_subagent_tail t) (tp_subagent_tail u)"

fun evolves :: "MessagePart \<Rightarrow> MessagePart \<Rightarrow> bool" where
  "evolves (MpText i s) (MpText j t) \<longleftrightarrow> i = j \<and> starts_with t s"
| "evolves (MpReasoning i s) (MpReasoning j t) \<longleftrightarrow> i = j \<and> starts_with t s"
| "evolves (MpTool t) (MpTool u) \<longleftrightarrow> tool_evolves t u"
| "evolves (MpImage i _ _ _) (MpImage j _ _ _) \<longleftrightarrow> i = j"
| "evolves (MpInput _ r _ _) (MpInput _ r' _ _) \<longleftrightarrow> r = r'"
| "evolves (MpPermission i _) (MpPermission j _) \<longleftrightarrow> i = j"
| "evolves (MpError i _) (MpError j _) \<longleftrightarrow> i = j"
| "evolves _ _ \<longleftrightarrow> False"

fun_cases evolvesE: "evolves (MpText i s) q" "evolves (MpReasoning i s) q" "evolves (MpTool t) q"
  "evolves (MpImage i p n m) q" "evolves (MpInput i r qs b) q" "evolves (MpPermission i r) q"
  "evolves (MpError i m) q"

lemma starts_with_refl [simp]: "starts_with s s"
  by (simp add: starts_with_def)

lemma starts_with_append [simp]: "starts_with (s @ t) s"
  by (simp add: starts_with_def)

lemma starts_with_iff: "starts_with t s \<longleftrightarrow> (\<exists>u. t = s @ u)"
  unfolding starts_with_def by (metis append_eq_conv_conj append_take_drop_id)

lemma keeps_simps [simp]: "keeps x x" "keeps None y" "keeps x (Some v)"
  by (simp_all add: keeps_def)

lemma evolves_refl [simp]: "evolves p p"
  by (cases p) (simp_all add: tool_evolves_def)

lemma evolves_trans: "evolves p q \<Longrightarrow> evolves q r \<Longrightarrow> evolves p r"
proof (cases p)
  case (MpTool t)
  moreover assume "evolves p q" "evolves q r"
  ultimately show ?thesis
    by (auto elim!: evolvesE simp: tool_evolves_def keeps_def)
next
  case (MpText i s)
  moreover assume "evolves p q" "evolves q r"
  ultimately show ?thesis
    by (cases q; cases r) (auto simp: starts_with_iff)
next
  case (MpReasoning i s)
  moreover assume "evolves p q" "evolves q r"
  ultimately show ?thesis
    by (cases q; cases r) (auto simp: starts_with_iff)
qed (cases q; cases r; simp)+

fun body_part :: "MessagePart \<Rightarrow> bool" where
  "body_part (MpText _ _) \<longleftrightarrow> True"
| "body_part (MpReasoning _ _) \<longleftrightarrow> True"
| "body_part _ \<longleftrightarrow> False"

lemma blank_fields [simp]:
  "dp_id (blank_part i k) = i" "dp_kind (blank_part i k) = k" "dp_path (blank_part i k) = None"
  "dp_name (blank_part i k) = None" "dp_mime_type (blank_part i k) = None"
  "dp_text (blank_part i k) = None" "dp_reasoning (blank_part i k) = None"
  "dp_call (blank_part i k) = None" "dp_is_error (blank_part i k) = None"
  "dp_questions (blank_part i k) = None" "dp_resolved (blank_part i k) = None"
  "dp_message (blank_part i k) = None" "dp_output (blank_part i k) = None"
  "dp_diff (blank_part i k) = None" "dp_output_ref (blank_part i k) = None"
  "dp_output_bytes (blank_part i k) = None" "dp_diff_ref (blank_part i k) = None"
  "dp_diff_stats (blank_part i k) = None" "dp_subagent_ref (blank_part i k) = None"
  "dp_subagent_status (blank_part i k) = None" "dp_subagent_tail (blank_part i k) = None"
  by (simp_all add: blank_part_def)

lemma no_body: "\<not> body_part q \<Longrightarrow> dp_text (to_doc_part q) = None \<and> dp_reasoning (to_doc_part q) = None"
  by (cases q) simp_all

lemma evolves_body: "evolves p q \<Longrightarrow> body_part p = body_part q"
  by (cases p; cases q) simp_all

lemma keeps_fieldsI:
  assumes "dp_id a = dp_id b" "dp_kind a = dp_kind b"
    "\<And>k. k \<in> set part_keys \<Longrightarrow> map_of (push_fields b) k = None \<Longrightarrow> map_of (push_fields a) k = None"
  shows "keeps_fields a b"
  using assms push_lookup_other unfolding keeps_fields_def by blast

definition fields_kept :: "DocPartJson \<Rightarrow> DocPartJson \<Rightarrow> bool" where
  "fields_kept a b \<longleftrightarrow> dp_id a = dp_id b \<and> dp_kind a = dp_kind b \<and>
     dp_text a = None \<and> dp_reasoning a = None \<and>
     keeps (dp_path a) (dp_path b) \<and> keeps (dp_name a) (dp_name b) \<and>
     keeps (dp_mime_type a) (dp_mime_type b) \<and> keeps (dp_call a) (dp_call b) \<and>
     keeps (dp_is_error a) (dp_is_error b) \<and> keeps (dp_questions a) (dp_questions b) \<and>
     keeps (dp_resolved a) (dp_resolved b) \<and> keeps (dp_message a) (dp_message b) \<and>
     keeps (dp_output a) (dp_output b) \<and> keeps (dp_diff a) (dp_diff b) \<and>
     keeps (dp_output_ref a) (dp_output_ref b) \<and> keeps (dp_output_bytes a) (dp_output_bytes b) \<and>
     keeps (dp_diff_ref a) (dp_diff_ref b) \<and> keeps (dp_diff_stats a) (dp_diff_stats b) \<and>
     keeps (dp_subagent_ref a) (dp_subagent_ref b) \<and>
     keeps (dp_subagent_status a) (dp_subagent_status b) \<and>
     keeps (dp_subagent_tail a) (dp_subagent_tail b)"

lemma keeps_map [simp]: "keeps (map_option f x) (map_option g y) = keeps x y"
  by (simp add: keeps_def)

lemma fields_kept_tool: "tool_evolves t u \<Longrightarrow> fields_kept (to_doc_part (MpTool t)) (to_doc_part (MpTool u))"
  by (auto simp: fields_kept_def tool_evolves_def)

lemma evolves_fields_kept:
  assumes "evolves p q" "\<not> body_part q"
  shows "fields_kept (to_doc_part p) (to_doc_part q)"
proof (cases p)
  case (MpTool t)
  with assms(1) obtain u where "q = MpTool u" "tool_evolves t u" by (auto elim: evolvesE)
  with MpTool show ?thesis using fields_kept_tool by simp
next
  case (MpText i s)
  with assms show ?thesis by (auto elim: evolvesE)
next
  case (MpReasoning i s)
  with assms show ?thesis by (auto elim: evolvesE)
next
  case (MpImage i x n m)
  with assms(1) show ?thesis by (auto elim!: evolvesE simp: fields_kept_def)
next
  case (MpInput i r qs b)
  with assms(1) show ?thesis by (auto elim!: evolvesE simp: fields_kept_def)
next
  case (MpPermission i r)
  with assms(1) show ?thesis by (auto elim!: evolvesE simp: fields_kept_def)
next
  case (MpError i m)
  with assms(1) show ?thesis by (auto elim!: evolvesE simp: fields_kept_def)
qed

lemma fields_kept_keeps:
  assumes "fields_kept a b" shows "keeps_fields a b"
proof (rule keeps_fieldsI)
  fix k assume k: "k \<in> set part_keys" and none: "map_of (push_fields b) k = None"
  show "map_of (push_fields a) k = None"
    using k none assms [unfolded fields_kept_def keeps_def]
    unfolding part_keys_def list.set insert_iff empty_iff
    by (elim disjE) (simp_all add: push_lookup)
qed (use assms in \<open>simp_all add: fields_kept_def\<close>)

lemma evolves_keeps_fields:
  "evolves p q \<Longrightarrow> \<not> body_part q \<Longrightarrow> keeps_fields (to_doc_part p) (to_doc_part q)"
  by (rule fields_kept_keeps) (rule evolves_fields_kept)

text \<open>An append to a text container leaves the fields of the longer part.\<close>

lemma append_exact:
  assumes "evolves p q" "body_part q" "map_of m = map_of (push_part p)"
  obtains field delta t where "grown p q = Some (field, delta)" "map_of m field = Some (CText t)"
    "map_of (oinsert field (CText (t @ delta)) m) = map_of (push_part q)"
    "delta = [] \<Longrightarrow> p = q"
proof (cases q)
  case (MpText j t)
  then obtain i s where p: "p = MpText i s" "i = j" "starts_with t s"
    using assms(1) by (cases p) simp_all
  then obtain u where "t = s @ u" by (auto simp: starts_with_iff)
  with p MpText assms(3) show thesis
    by (intro that [of "''text''" u s])
       (auto simp: push_part_def push_fields_def cell_opt_def fun_eq_iff)
next
  case (MpReasoning j t)
  then obtain i s where p: "p = MpReasoning i s" "i = j" "starts_with t s"
    using assms(1) by (cases p) simp_all
  then obtain u where "t = s @ u" by (auto simp: starts_with_iff)
  with p MpReasoning assms(3) show thesis
    by (intro that [of "''reasoning''" u s])
       (auto simp: push_part_def push_fields_def cell_opt_def fun_eq_iff)
qed (use assms(2) in simp_all)

section \<open>A sync keeps the document equal to the mirror\<close>

definition mirrors :: "part_map list \<Rightarrow> MessagePart list \<Rightarrow> bool" where
  "mirrors P W \<longleftrightarrow> list_all2 (\<lambda>m p. map_of m = map_of (push_part p)) P W"

text \<open>\<open>qs\<close> extends \<open>ps\<close>: it has at least its parts, each evolved.\<close>

definition extends :: "MessagePart list \<Rightarrow> MessagePart list \<Rightarrow> bool" where
  "extends ps qs \<longleftrightarrow> (\<exists>us vs. qs = us @ vs \<and> list_all2 evolves ps us)"

lemma grown_none: "evolves p q \<Longrightarrow> \<not> body_part q \<Longrightarrow> grown p q = None"
  by (cases p; cases q) simp_all

lemma sync_part_evolved:
  assumes "evolves p q" "map_of m = map_of (push_part p)" "length A = length us"
  shows "\<exists>m'. sync_part (length us) q (A @ m # B, us @ p # vs) = Inr (A @ m' # B, us @ q # vs) \<and>
     map_of m' = map_of (push_part q)"
proof (cases "p = q")
  case True
  then show ?thesis using assms by (auto simp: sync_part_def)
next
  case ne: False
  show ?thesis
  proof (cases "body_part q")
    case True
    from append_exact [OF assms(1) True assms(2)] obtain field delta t where
      g: "grown p q = Some (field, delta)" "map_of m field = Some (CText t)"
        "map_of (oinsert field (CText (t @ delta)) m) = map_of (push_part q)" "delta \<noteq> []"
      using ne by blast
    with assms(3) ne show ?thesis
      by (simp add: sync_part_def nth_append list_update_append)
  next
    case False
    have "map_of (update_part_fields q m) = map_of (push_part q)"
      using refresh_exact [OF evolves_keeps_fields [OF assms(1) False] refl] no_body [OF False] assms(2)
      by simp
    with assms(3) ne grown_none [OF assms(1) False] show ?thesis
      by (simp add: sync_part_def nth_append list_update_append)
  qed
qed

lemma sync_from_mirrors:
  assumes "mirrors A us" "list_all2 evolves ws qs" "mirrors B ws"
  shows "\<exists>B'. sync_from (length us) (qs @ rs) (A @ B, us @ ws) = Inr (A @ B', us @ qs @ rs) \<and>
     mirrors B' (qs @ rs)"
  using assms
proof (induction qs arbitrary: A us ws B)
  case Nil
  then have "ws = []" "B = []" by (simp_all add: mirrors_def)
  have "length A = length us \<Longrightarrow>
    sync_from (length us) rs (A, us) = Inr (A @ map push_part rs, us @ rs)" for A us
  proof (induction rs arbitrary: A us)
    case (Cons r rs)
    from Cons.IH [of "A @ [push_part r]" "us @ [r]"] Cons.prems show ?case
      by (simp add: sync_part_def)
  qed simp
  moreover have "length A = length us" using Nil(1) by (simp add: mirrors_def list_all2_lengthD)
  ultimately show ?case
    using \<open>ws = []\<close> \<open>B = []\<close>
    by (simp add: mirrors_def list_all2_map1 list_all2_same)
next
  case (Cons q qs)
  then obtain p vs m C where ws: "ws = p # vs" "evolves p q" "list_all2 evolves vs qs"
      and B: "B = m # C" "map_of m = map_of (push_part p)" "mirrors C vs"
    by (auto simp: mirrors_def list_all2_Cons2 list_all2_Cons1)
  have len: "length A = length us" using Cons.prems(1) by (simp add: mirrors_def list_all2_lengthD)
  from sync_part_evolved [OF ws(2) B(2) len, of C vs] obtain m' where
    m': "sync_part (length us) q (A @ m # C, us @ p # vs) = Inr (A @ m' # C, us @ q # vs)"
      "map_of m' = map_of (push_part q)"
    by blast
  have "mirrors (A @ [m']) (us @ [q])"
    using Cons.prems(1) m'(2) by (simp add: mirrors_def list_all2_appendI)
  from Cons.IH [OF this ws(3) B(3)] obtain B' where
    "sync_from (length (us @ [q])) (qs @ rs) ((A @ [m']) @ C, (us @ [q]) @ vs) =
       Inr ((A @ [m']) @ B', (us @ [q]) @ qs @ rs)" "mirrors B' (qs @ rs)"
    by blast
  with m' ws(1) B(1) show ?case
    by (intro exI [of _ "m' # B'"]) (simp add: mirrors_def)
qed

lemma sync_mirrors:
  assumes "sw_index w < length ms" "mirrors (de_parts (ms ! sw_index w)) (sw_written w)"
    "extends (sw_written w) folded"
  shows "\<exists>P. sync folded (ms, w) = Inr (ms[sw_index w := (ms ! sw_index w)\<lparr>de_parts := P\<rparr>],
       w\<lparr>sw_written := folded\<rparr>) \<and> mirrors P folded"
proof -
  obtain us vs where f: "folded = us @ vs" "list_all2 evolves (sw_written w) us"
    using assms(3) by (auto simp: extends_def)
  have "mirrors [] []" by (simp add: mirrors_def)
  from sync_from_mirrors [OF this f(2) assms(2), of vs] show ?thesis
    using assms(1) by (auto simp: sync_def f(1))
qed

section \<open>Steady events\<close>

text \<open>Events the fold answers by growing its parts: no turn boundary, no image in the place of
  something else, no second result that takes a diff back.\<close>

fun steady :: "AgentEvent \<Rightarrow> MessagePart list \<Rightarrow> bool" where
  "steady (SessionStarted _ _ _ _ _ _ _) ps \<longleftrightarrow> False"
| "steady (Steered _ _) ps \<longleftrightarrow> False"
| "steady (GeneratedImage i _ _ _) ps \<longleftrightarrow>
     list_all (\<lambda>p. part_id p = i \<longrightarrow> kind_of p = KImage) ps"
| "steady (ToolResult i _ _ diff) ps \<longleftrightarrow>
     diff \<noteq> None \<or> list_all (\<lambda>p. case p of MpTool t \<Rightarrow> tp_id t = i \<longrightarrow> tp_diff_stats t = None
       | _ \<Rightarrow> True) ps"
| "steady _ ps \<longleftrightarrow> True"

fun steady_run ::
  "(string \<Rightarrow> string \<Rightarrow> nat \<times> nat) \<Rightarrow> AgentEvent list \<Rightarrow> MessagePart list \<Rightarrow> bool" where
  "steady_run ld [] ps \<longleftrightarrow> True"
| "steady_run ld (e # evs) ps \<longleftrightarrow> steady e ps \<and> steady_run ld evs (fold_event_into_parts ld e ps)"

lemma steady_run_append:
  "steady_run ld (xs @ ys) ps \<longleftrightarrow> steady_run ld xs ps \<and> steady_run ld ys (fold_events ld xs ps)"
  by (induction xs arbitrary: ps) simp_all

lemma extends_refl [simp]: "extends ps ps"
  unfolding extends_def by (intro exI [of _ ps] exI [of _ "[]"]) (simp add: list_all2_same)

lemma extends_append [simp]: "extends ps (ps @ qs)"
  unfolding extends_def by (intro exI [of _ ps] exI [of _ qs]) (simp add: list_all2_same)

lemma extends_all2: "list_all2 evolves ps qs \<Longrightarrow> extends ps qs"
  unfolding extends_def by (intro exI [of _ qs] exI [of _ "[]"]) simp

lemma extends_trans: "extends ps qs \<Longrightarrow> extends qs rs \<Longrightarrow> extends ps rs"
proof -
  assume "extends ps qs" "extends qs rs"
  then obtain us vs xs ys where *: "qs = us @ vs" "list_all2 evolves ps us"
      "rs = xs @ ys" "list_all2 evolves (us @ vs) xs"
    by (auto simp: extends_def)
  then obtain xs1 xs2 where "xs = xs1 @ xs2" "list_all2 evolves us xs1"
    by (auto simp: list_all2_append1)
  moreover from this * have "list_all2 evolves ps xs1"
    using list_all2_trans [of evolves evolves evolves] evolves_trans by blast
  ultimately show ?thesis using * by (auto simp: extends_def)
qed

lemma extends_map: "(\<And>p. p \<in> set ps \<Longrightarrow> evolves p (f p)) \<Longrightarrow> extends ps (map f ps)"
  by (intro extends_all2) (simp add: list_all2_map2 list_all2_same)

lemma extends_update_first:
  "(\<And>p. p \<in> set ps \<Longrightarrow> P p \<Longrightarrow> evolves p (f p)) \<Longrightarrow> extends ps (update_first P f ps)"
proof -
  have "(\<And>p. p \<in> set ps \<Longrightarrow> P p \<Longrightarrow> evolves p (f p)) \<Longrightarrow> list_all2 evolves ps (update_first P f ps)"
    by (induction ps) (simp_all add: list_all2_same)
  then show "(\<And>p. p \<in> set ps \<Longrightarrow> P p \<Longrightarrow> evolves p (f p)) \<Longrightarrow> ?thesis"
    by (blast intro: extends_all2)
qed

lemma extends_last: "evolves p q \<Longrightarrow> extends (ps @ [p]) (ps @ [q])"
  by (intro extends_all2 list_all2_appendI) (simp_all add: list_all2_same)

lemma extends_add_text: "extends ps (add_text t ps)"
proof (cases ps rule: rev_cases)
  case (snoc qs q)
  show ?thesis
  proof (cases q)
    case (MpText i s)
    then show ?thesis by (simp add: snoc add_text_def extends_last)
  qed (simp_all add: snoc add_text_def extends_append [of "qs @ [_]", simplified])
qed (simp add: add_text_def extends_append [of "[]", simplified])

lemma extends_add_reasoning: "extends ps (add_reasoning t ps)"
proof (cases ps rule: rev_cases)
  case (snoc qs q)
  show ?thesis
  proof (cases q)
    case (MpReasoning i s)
    then show ?thesis by (simp add: snoc add_reasoning_def extends_last)
  qed (simp_all add: snoc add_reasoning_def extends_append [of "qs @ [_]", simplified])
qed (simp add: add_reasoning_def extends_append [of "[]", simplified])

lemma extends_add_error: "extends ps (add_error m ps)"
  by (simp add: add_error_def)

lemmas extends_add = extends_add_text extends_add_reasoning extends_add_error

lemma evolves_rewrites:
  "evolves p (update_permission r p)" "evolves p (resolve_input_part rid p)"
  "evolves p (on_tool i (subagent_step st) p)"
  "is_tool i p \<Longrightarrow> evolves p (map_tool (\<lambda>t. t\<lparr>tp_call := c\<rparr>) p)"
  by (cases p; auto simp: on_tool_def subagent_step_def tool_evolves_def split: option.split)+

lemma evolves_result:
  assumes "outputless p" "steady (ToolResult i b out d) ps" "p \<in> set ps"
  shows "evolves p (on_tool i (tool_result ld b d) p)"
  using assms
  by (cases p)
     (auto simp: on_tool_def tool_result_def tool_evolves_def keeps_def list_all_iff
       split: MessagePart.splits)

lemma steady_extends:
  assumes "steady ev ps" "list_all outputless ps"
  shows "extends ps (fold_event_into_parts ld ev ps)"
proof (cases ev)
  case (GeneratedImage i p n m)
  have "evolves x (MpImage i p n m)" if "x \<in> set ps" "part_id x = i" for x
    using assms(1) that GeneratedImage by (cases x) (auto simp: list_all_iff)
  then show ?thesis using GeneratedImage by (auto intro: extends_update_first)
next
  case (ToolResult i b out d)
  then show ?thesis
    using assms by (auto simp: list_all_iff intro!: extends_map evolves_result)
qed (use assms in \<open>auto simp: extends_add evolves_rewrites split: option.split
      intro!: extends_map extends_update_first\<close>)

lemma steady_run_extends:
  "steady_run ld evs ps \<Longrightarrow> list_all outputless ps \<Longrightarrow> extends ps (fold_events ld evs ps)"
proof (induction evs arbitrary: ps)
  case (Cons e evs)
  then have "extends ps (fold_event_into_parts ld e ps)"
    "extends (fold_event_into_parts ld e ps) (fold_events ld evs (fold_event_into_parts ld e ps))"
    by (simp_all add: steady_extends outputless_fold_event)
  then show ?case by (simp add: extends_trans [of ps])
qed simp

lemma stream_mirrors:
  "steady_run ld (concat ticks) ps \<Longrightarrow> list_all outputless ps \<Longrightarrow> sw_index w < length ms \<Longrightarrow>
   mirrors (de_parts (ms ! sw_index w)) ps \<Longrightarrow> sw_written w = ps \<Longrightarrow>
   \<exists>P. stream ld ticks ps (ms, w) =
       Inr (ms[sw_index w := (ms ! sw_index w)\<lparr>de_parts := P\<rparr>],
            w\<lparr>sw_written := fold_events ld (concat ticks) ps\<rparr>) \<and>
     mirrors P (fold_events ld (concat ticks) ps)"
proof (induction ticks arbitrary: ps ms w)
  case Nil
  then show ?case by (intro exI [of _ "de_parts (ms ! sw_index w)"]) simp
next
  case (Cons evs ticks)
  let ?qs = "fold_events ld evs ps"
  have run: "steady_run ld evs ps" "steady_run ld (concat ticks) ?qs"
    using Cons.prems(1) by (simp_all add: steady_run_append)
  have "extends (sw_written w) ?qs"
    using steady_run_extends [OF run(1) Cons.prems(2)] Cons.prems(5) by simp
  then obtain P where P: "sync ?qs (ms, w) =
      Inr (ms[sw_index w := (ms ! sw_index w)\<lparr>de_parts := P\<rparr>], w\<lparr>sw_written := ?qs\<rparr>)"
      "mirrors P ?qs"
    using sync_mirrors [of w ms ?qs] Cons.prems(3-5) by auto
  let ?ms = "ms[sw_index w := (ms ! sw_index w)\<lparr>de_parts := P\<rparr>]" and ?w = "w\<lparr>sw_written := ?qs\<rparr>"
  have "\<exists>Q. stream ld ticks ?qs (?ms, ?w) =
       Inr (?ms[sw_index ?w := (?ms ! sw_index ?w)\<lparr>de_parts := Q\<rparr>],
            ?w\<lparr>sw_written := fold_events ld (concat ticks) ?qs\<rparr>) \<and>
     mirrors Q (fold_events ld (concat ticks) ?qs)"
    using run(2) Cons.prems(2,3) P(2)
    by (intro Cons.IH) (simp_all add: outputless_fold_events)
  with P Cons.prems(3) show ?case by simp
qed

section \<open>Reading a finished segment\<close>

lemma dec_mirrored:
  assumes "mirrors P ps" "list_all storable ps"
  shows "dec_vec dec_doc_part (JArr (map part_json P)) = Some (map to_doc_part ps)"
proof -
  have "those (map dec_doc_part (map part_json P)) = Some (map to_doc_part ps)"
    using assms(1,2) unfolding mirrors_def
  proof (induction P ps rule: list_all2_induct)
    case (Cons m P p ps)
    then have "dec_doc_part (part_json m) = Some (to_doc_part p)"
      by (intro dec_doc_part_eq) (simp_all add: storable_ok push_part_def)
    with Cons show ?case by simp
  qed simp
  then show ?thesis by (simp add: dec_vec_def)
qed

definition segment_entry ::
  "string \<Rightarrow> string \<Rightarrow> int \<Rightarrow> MessageStatus \<Rightarrow> MessagePart list \<Rightarrow> SessionMessageEntry" where
  "segment_entry i device created st ps = \<lparr>me_id = i, me_role = Assistant, me_parts = ps,
     me_created_at = created, me_device_id = device, me_status = Some st,
     me_continuation_of = None\<rparr>"

lemma read_finished:
  assumes "mirrors P ps" "list_all storable ps" "- (2 ^ 63) \<le> created" "created < 2 ^ 63"
  shows "entry_from_json hx (entry_json \<lparr>de_fields = oinsert ''status'' (JStr (status_str st))
       (write_entry_scalar_fields (segment_entry i device created st0 qs)), de_parts = P\<rparr>) =
     Some (segment_entry i device created st (map read_back ps))"
proof -
  have "map from_doc_part (map to_doc_part ps) = map read_back ps"
    using assms(2) by (simp add: list_all_iff from_to_doc_part)
  moreover have "dec_raw_entry (entry_json \<lparr>de_fields = oinsert ''status'' (JStr (status_str st))
       (write_entry_scalar_fields (segment_entry i device created st0 qs)), de_parts = P\<rparr>) =
     Some \<lparr>re_id = i, re_role = Assistant, re_parts = map to_doc_part ps, re_created_at = created,
       re_device_id = device, re_status = Some st, re_continuation_of = None\<rparr>"
    using dec_mirrored [OF assms(1,2)] assms(3,4)
    by (simp add: dec_raw_entry_def entry_json_def write_entry_scalar_fields_def segment_entry_def
        wire_simps as_i64_def role_names_def del: map_map)
  ultimately show ?thesis by (simp add: entry_from_json_def segment_entry_def)
qed

text \<open>A whole segment: begin, stream, finish.\<close>

definition write_segment ::
  "(string \<Rightarrow> string \<Rightarrow> nat \<times> nat) \<Rightarrow> string \<Rightarrow> string \<Rightarrow> int \<Rightarrow> AgentEvent list list \<Rightarrow> MessageStatus \<Rightarrow>
   doc_entry list \<Rightarrow> string + doc_entry list" where
  "write_segment ld i device created ticks st ms =
     rbind (stream ld ticks [] (begin_segment i device created ms))
       (finish (fold_events ld (concat ticks) []) st)"

lemma write_segment_result:
  assumes "steady_run ld (concat ticks) []"
  shows "\<exists>P. write_segment ld i device created ticks st ms =
       Inr (ms @ [\<lparr>de_fields = oinsert ''status'' (JStr (status_str st))
          (write_entry_scalar_fields (segment_entry i device created Streaming [])), de_parts = P\<rparr>]) \<and>
     mirrors P (fold_events ld (concat ticks) [])"
proof -
  let ?e = "\<lparr>de_fields = write_entry_scalar_fields (segment_entry i device created Streaming []),
      de_parts = []\<rparr>" and ?ps = "fold_events ld (concat ticks) []"
  let ?w = "\<lparr>sw_index = length ms, sw_written = []\<rparr>"
  have start: "begin_segment i device created ms = (ms @ [?e], ?w)"
    by (simp add: begin_segment_def push_message_def segment_entry_def)
  obtain P where P: "stream ld ticks [] (ms @ [?e], ?w) =
      Inr (ms @ [?e\<lparr>de_parts := P\<rparr>], ?w\<lparr>sw_written := ?ps\<rparr>)" "mirrors P ?ps"
    using stream_mirrors [OF assms, of ?w "ms @ [?e]"] by (auto simp: mirrors_def)
  obtain Q where "sync ?ps (ms @ [?e\<lparr>de_parts := P\<rparr>], ?w\<lparr>sw_written := ?ps\<rparr>) =
      Inr (ms @ [?e\<lparr>de_parts := Q\<rparr>], ?w\<lparr>sw_written := ?ps\<rparr>)" "mirrors Q ?ps"
    using sync_mirrors [of "?w\<lparr>sw_written := ?ps\<rparr>" "ms @ [?e\<lparr>de_parts := P\<rparr>]" ?ps] P(2) by auto
  with P show ?thesis by (simp add: write_segment_def start finish_def)
qed

section \<open>Properties\<close>

text \<open>C5: the streaming writer is correct whatever its cadence: however the events of a
  segment are cut into commit ticks, the writer succeeds, and the document then reads as
  before with one more message whose parts are the event fold of all of them, stamped with
  the final status. It holds for steady events whose parts the document can store.\<close>

theorem writer_refines_fold:
  assumes "steady_run ld (concat ticks) []" "list_all storable (fold_events ld (concat ticks) [])"
    "- (2 ^ 63) \<le> created" "created < 2 ^ 63"
  shows "\<exists>ms'. write_segment ld i device created ticks st ms = Inr ms' \<and>
     read_entries hx ms' = read_entries hx ms @
       [segment_entry i device created st (map read_back (fold_events ld (concat ticks) []))]"
proof -
  obtain P where P: "write_segment ld i device created ticks st ms =
       Inr (ms @ [\<lparr>de_fields = oinsert ''status'' (JStr (status_str st))
          (write_entry_scalar_fields (segment_entry i device created Streaming [])), de_parts = P\<rparr>])"
     "mirrors P (fold_events ld (concat ticks) [])"
    using write_segment_result [OF assms(1)] by blast
  from read_finished [OF P(2) assms(2-4)] P(1) show ?thesis
    by (simp add: read_entries_def map_filter_def)
qed

lemma writer_refines_fold_witness:
  "\<exists>ms'. write_segment (\<lambda>_ _. (0, 0)) ''m'' ''d'' 7
       [[TextDelta ''a'', EvToolCall ''c'' (Exec ''ls'')], [ToolResult ''c'' True None None], [TextDelta ''b'']]
       Complete [] = Inr ms' \<and>
     map me_parts (read_entries (\<lambda>_. []) ms') =
       [[MpText (''t'' @ decimal 0) ''a'',
         MpTool ((new_tool ''c'' (Exec ''ls''))\<lparr>tp_is_error := True, tp_resolved := True\<rparr>),
         MpText (''t'' @ decimal 2) ''b'']]"
proof -
  let ?ticks = "[[TextDelta ''a'', EvToolCall ''c'' (Exec ''ls'')], [ToolResult ''c'' True None None],
      [TextDelta ''b'']]"
  have fold: "fold_events (\<lambda>_ _. (0, 0)) (concat ?ticks) [] =
      [MpText (''t'' @ decimal 0) ''a'',
         MpTool ((new_tool ''c'' (Exec ''ls''))\<lparr>tp_is_error := True, tp_resolved := True\<rparr>),
         MpText (''t'' @ decimal 2) ''b'']"
    by (simp add: add_text_def on_tool_def tool_result_def new_tool_def)
  have "\<exists>ms'. write_segment (\<lambda>_ _. (0, 0)) ''m'' ''d'' 7 ?ticks Complete [] = Inr ms' \<and>
     read_entries (\<lambda>_. []) ms' = read_entries (\<lambda>_. []) [] @
       [segment_entry ''m'' ''d'' 7 Complete
          (map read_back (fold_events (\<lambda>_ _. (0, 0)) (concat ?ticks) []))]"
    by (rule writer_refines_fold, unfold fold)
       (simp_all add: new_tool_def add_text_def call_storable_def call_input_def)
  then show ?thesis
    unfolding fold by (auto simp: read_entries_def map_filter_def segment_entry_def new_tool_def)
qed

text \<open>the contract ends where a field is taken back: the writer only inserts keys, so after
  a second result without a diff the document still shows the first result's line counts,
  while the folded part has none.\<close>

theorem writer_keeps_stale_diff_stats:
  "\<exists>ms'. stream ld
       [[EvToolCall i c, ToolResult i b None (Some d)], [ToolResult i b None None]] []
       (begin_segment m device created []) = Inr ms' \<and>
     map_of (hd (de_parts (hd (fst ms')))) ''diffStats'' =
       Some (CVal (JArr [enc_stat (diff_stat ld d)])) \<and>
     list_all (\<lambda>p. case p of MpTool t \<Rightarrow> tp_diff_stats t = None | _ \<Rightarrow> True) (sw_written (snd ms'))"
proof -
  define t where "t = tool_result ld b (Some d) (new_tool i c)"
  define u where "u = tool_result ld b None t"
  have fold: "fold_events ld [EvToolCall i c, ToolResult i b None (Some d)] [] = [MpTool t]"
      "fold_events ld [ToolResult i b None None] [MpTool t] = [MpTool u]"
    by (simp_all add: t_def u_def on_tool_def tool_result_def new_tool_def)
  have "t \<noteq> u" by (simp add: t_def u_def tool_result_def new_tool_def)
  then have written: "stream ld [[EvToolCall i c, ToolResult i b None (Some d)], [ToolResult i b None None]] []
       (begin_segment m device created []) =
     Inr ([\<lparr>de_fields = write_entry_scalar_fields (segment_entry m device created Streaming []),
            de_parts = [update_part_fields (MpTool u) (push_part (MpTool t))]\<rparr>],
          \<lparr>sw_index = 0, sw_written = [MpTool u]\<rparr>)"
    by (simp add: fold [simplified] fold begin_segment_def push_message_def sync_def sync_part_def
        segment_entry_def del: fold_events_simps)
  have stale: "map_of (update_part_fields (MpTool u) (push_part (MpTool t))) ''diffStats'' =
      Some (CVal (JArr [enc_stat (diff_stat ld d)]))"
    by (subst update_lookup [OF refl])
       (simp_all add: after_refresh_def push_part_def push_lookup u_def t_def tool_result_def)
  have "tp_diff_stats u = None" by (simp add: u_def tool_result_def)
  show ?thesis
    by (rule exI, rule conjI, rule written) (simp add: stale \<open>tp_diff_stats u = None\<close>)
qed

end
