(* ===== verification/Transcript_Delta.thy ===== *)
theory Transcript_Delta
  imports Doc_Schema
begin

text \<open>
  \<open>crates/doc/src/transcript_delta.rs\<close>: the frames of the transcript watch. \<open>diff_transcript\<close>
  turns two states into a frame, \<open>apply_transcript_frame\<close> applies one, and a baseline
  remembers which content of a transcript is history.
\<close>

section \<open>Baselines\<close>

text \<open>A \<open>HashMap\<close> collected from pairs: the last pair of a key wins.\<close>

definition collect_map :: "('k \<times> 'v) list \<Rightarrow> 'k \<rightharpoonup> 'v" where
  "collect_map kvs = map_of (rev kvs)"

record TranscriptBaseline =
  tb_entries :: "string \<rightharpoonup> (string \<rightharpoonup> nat)"

fun body_of :: "MessagePart \<Rightarrow> string option" where
  "body_of (MpText _ t) = Some t"
| "body_of (MpReasoning _ t) = Some t"
| "body_of _ = None"

fun set_body :: "string \<Rightarrow> MessagePart \<Rightarrow> MessagePart" where
  "set_body s (MpText i _) = MpText i s"
| "set_body s (MpReasoning i _) = MpReasoning i s"
| "set_body s p = p"

definition covers :: "TranscriptBaseline \<Rightarrow> SessionMessageEntry \<Rightarrow> bool" where
  "covers b e =
     (case tb_entries b (me_id e) of None \<Rightarrow> False
      | Some parts \<Rightarrow> list_all (\<lambda>p.
          case parts (part_id p) of None \<Rightarrow> False
          | Some len \<Rightarrow> (case body_of p of Some t \<Rightarrow> length t \<le> len | None \<Rightarrow> True)) (me_parts e))"

definition part_watermarks :: "MessagePart list \<Rightarrow> string \<rightharpoonup> nat" where
  "part_watermarks ps =
     collect_map (map (\<lambda>p. (part_id p, case body_of p of Some t \<Rightarrow> length t | None \<Rightarrow> 0)) ps)"

definition capture :: "SessionMessageEntry list \<Rightarrow> TranscriptBaseline" where
  "capture es = \<lparr>tb_entries = collect_map (map (\<lambda>e. (me_id e, part_watermarks (me_parts e))) es)\<rparr>"

definition truncate_part :: "nat \<Rightarrow> MessagePart \<Rightarrow> MessagePart" where
  "truncate_part len p =
     (case body_of p of None \<Rightarrow> p
      | Some t \<Rightarrow> set_body (take (back_to_boundary t (min len (length t))) t) p)"

definition historical_parts :: "(string \<rightharpoonup> nat) \<Rightarrow> MessagePart list \<Rightarrow> MessagePart list" where
  "historical_parts parts ps =
     List.map_filter (\<lambda>p. case parts (part_id p) of None \<Rightarrow> None
       | Some len \<Rightarrow> Some (truncate_part len p)) ps"

definition historical_entry ::
  "TranscriptBaseline \<Rightarrow> SessionMessageEntry \<Rightarrow> SessionMessageEntry option" where
  "historical_entry b e =
     (case tb_entries b (me_id e) of None \<Rightarrow> None
      | Some parts \<Rightarrow> Some (e\<lparr>me_parts := historical_parts parts (me_parts e)\<rparr>))"

section \<open>Frames\<close>

record TranscriptUpsert =
  up_after :: "string option"
  up_entry :: SessionMessageEntry

record TextAppend =
  ta_entry :: string
  ta_part :: string
  ta_text :: string
  ta_len :: nat

datatype TranscriptFrame =
  Reset "SessionMessageEntry list"
| Delta "TranscriptUpsert list" "TextAppend list" "string list" nat

definition is_empty_delta :: "TranscriptFrame \<Rightarrow> bool" where
  "is_empty_delta f = (case f of Delta u a r _ \<Rightarrow> u = [] \<and> a = [] \<and> r = [] | Reset _ \<Rightarrow> False)"

text \<open>\<open>None\<close> is an early \<open>return None\<close>; \<open>Some a\<close> is the accumulated append.\<close>

fun same_body_kind :: "MessagePart \<Rightarrow> MessagePart \<Rightarrow> bool" where
  "same_body_kind (MpText _ _) (MpText _ _) \<longleftrightarrow> True"
| "same_body_kind (MpReasoning _ _) (MpReasoning _ _) \<longleftrightarrow> True"
| "same_body_kind _ _ \<longleftrightarrow> False"

fun scan_append ::
  "string \<Rightarrow> MessagePart list \<Rightarrow> MessagePart list \<Rightarrow> TextAppend option \<Rightarrow> TextAppend option option" where
  "scan_append eid (p # ps) (n # ns) acc =
     (if p = n then scan_append eid ps ns acc
      else if \<not> same_body_kind p n then None
      else
        (let pt = the (body_of p); nt = the (body_of n) in
         if part_id p \<noteq> part_id n \<or> \<not> starts_with nt pt \<or> acc \<noteq> None then None
         else scan_append eid ps ns (Some \<lparr>ta_entry = eid, ta_part = part_id n,
                ta_text = drop (length pt) nt, ta_len = length nt\<rparr>)))"
| "scan_append eid _ _ acc = Some acc"

definition try_text_append ::
  "SessionMessageEntry \<Rightarrow> SessionMessageEntry \<Rightarrow> TextAppend option" where
  "try_text_append prev nxt =
     (if me_id prev \<noteq> me_id nxt \<or> me_role prev \<noteq> me_role nxt \<or>
         me_created_at prev \<noteq> me_created_at nxt \<or> me_device_id prev \<noteq> me_device_id nxt \<or>
         me_status prev \<noteq> me_status nxt \<or> me_continuation_of prev \<noteq> me_continuation_of nxt \<or>
         length (me_parts prev) \<noteq> length (me_parts nxt)
      then None
      else (case scan_append (me_id nxt) (me_parts prev) (me_parts nxt) None of
              None \<Rightarrow> None | Some acc \<Rightarrow> acc))"

text \<open>The id of the entry before index \<open>i\<close>.\<close>

definition before :: "SessionMessageEntry list \<Rightarrow> nat \<Rightarrow> string option" where
  "before es i = (case i of 0 \<Rightarrow> None | Suc p \<Rightarrow> Some (me_id (es ! p)))"

definition prev_by_id ::
  "SessionMessageEntry list \<Rightarrow> string \<rightharpoonup> (nat \<times> SessionMessageEntry)" where
  "prev_by_id prev = collect_map (map (\<lambda>(i, e). (me_id e, (i, e))) (enumerate 0 prev))"

text \<open>What one entry of the next state adds to the frame.\<close>

definition diff_step ::
  "SessionMessageEntry list \<Rightarrow> SessionMessageEntry list \<Rightarrow> nat \<times> SessionMessageEntry \<Rightarrow>
   TranscriptUpsert list \<times> TextAppend list" where
  "diff_step prev nxt ie =
     (case ie of (i, e) \<Rightarrow>
        (let after = before nxt i; up = ([\<lparr>up_after = after, up_entry = e\<rparr>], []) in
         case prev_by_id prev (me_id e) of
           None \<Rightarrow> up
         | Some (prev_ix, prev_entry) \<Rightarrow>
             (if prev_entry = e \<and> before prev prev_ix = after then ([], [])
              else if before prev prev_ix = after then
                (case try_text_append prev_entry e of Some a \<Rightarrow> ([], [a]) | None \<Rightarrow> up)
              else up)))"

definition diff_transcript ::
  "SessionMessageEntry list \<Rightarrow> SessionMessageEntry list \<Rightarrow> TranscriptFrame" where
  "diff_transcript prev nxt =
     (let next_ids = set (map me_id nxt);
          remove = map me_id (filter (\<lambda>e. me_id e \<notin> next_ids) prev);
          steps = map (diff_step prev nxt) (enumerate 0 nxt);
          upsert = concat (map fst steps);
          appends = concat (map snd steps)
      in if max (length nxt) 1 \<le> length upsert * 2 \<and> 4 < length nxt then Reset nxt
         else Delta upsert appends remove (length nxt))"

section \<open>Applying a frame\<close>

fun position :: "('a \<Rightarrow> bool) \<Rightarrow> 'a list \<Rightarrow> nat option" where
  "position P [] = None"
| "position P (x # xs) = (if P x then Some 0 else map_option Suc (position P xs))"

definition remove_at :: "nat \<Rightarrow> 'a list \<Rightarrow> 'a list" where
  "remove_at i xs = take i xs @ drop (Suc i) xs"

definition insert_at :: "nat \<Rightarrow> 'a \<Rightarrow> 'a list \<Rightarrow> 'a list" where
  "insert_at i x xs = take i xs @ x # drop i xs"

definition apply_upsert ::
  "TranscriptUpsert \<Rightarrow> SessionMessageEntry list \<Rightarrow> string + SessionMessageEntry list" where
  "apply_upsert u current =
     (let e = up_entry u;
          current1 = (case position (\<lambda>x. me_id x = me_id e) current of
             Some i \<Rightarrow> remove_at i current | None \<Rightarrow> current)
      in case up_after u of
           None \<Rightarrow> Inr (insert_at 0 e current1)
         | Some anchor \<Rightarrow>
             (case position (\<lambda>x. me_id x = anchor) current1 of
                Some ix \<Rightarrow> Inr (insert_at (ix + 1) e current1)
              | None \<Rightarrow> Inl (''missing anchor '' @ anchor)))"

text \<open>\<open>find_map\<close> over the parts: the first text or reasoning part with the id.\<close>

definition is_body :: "string \<Rightarrow> MessagePart \<Rightarrow> bool" where
  "is_body pid p \<longleftrightarrow> body_of p \<noteq> None \<and> part_id p = pid"

definition apply_append ::
  "TextAppend \<Rightarrow> SessionMessageEntry list \<Rightarrow> string + SessionMessageEntry list" where
  "apply_append a current =
     (case position (\<lambda>e. me_id e = ta_entry a) current of
        None \<Rightarrow> Inl (''missing append entry '' @ ta_entry a)
      | Some ix \<Rightarrow>
          (let target = current ! ix in
           case position (is_body (ta_part a)) (me_parts target) of
             None \<Rightarrow> Inl (''missing append part '' @ ta_part a)
           | Some px \<Rightarrow>
               (let p = me_parts target ! px; tail = the (body_of p) @ ta_text a in
                if length tail \<noteq> ta_len a then Inl (''append length mismatch'')
                else Inr (current[ix := target\<lparr>me_parts := (me_parts target)[px := set_body tail p]\<rparr>]))))"

fun each :: "('u \<Rightarrow> 's \<Rightarrow> 'e + 's) \<Rightarrow> 'u list \<Rightarrow> 's \<Rightarrow> 'e + 's" where
  "each f [] s = Inr s"
| "each f (u # us) s = rbind (f u s) (each f us)"

fun apply_transcript_frame ::
  "TranscriptFrame \<Rightarrow> SessionMessageEntry list \<Rightarrow> string + SessionMessageEntry list" where
  "apply_transcript_frame (Reset es) current = Inr es"
| "apply_transcript_frame (Delta upsert appends remove expected) current =
     rbind (each apply_upsert upsert
        (if remove = [] then current else filter (\<lambda>e. me_id e \<notin> set remove) current))
       (\<lambda>c. rbind (each apply_append appends c)
         (\<lambda>c'. if length c' \<noteq> expected then Inl ''count mismatch'' else Inr c'))"

section \<open>Lists\<close>

lemma each_append: "each f (us @ vs) s = rbind (each f us s) (each f vs)"
proof (induction us arbitrary: s)
  case (Cons u us)
  then show ?case by (cases "f u s") simp_all
qed simp

lemma position_hit:
  "(\<And>x. x \<in> set us \<Longrightarrow> \<not> P x) \<Longrightarrow> P x \<Longrightarrow> position P (us @ x # vs) = Some (length us)"
  by (induction us) auto

lemma position_none: "(\<And>x. x \<in> set xs \<Longrightarrow> \<not> P x) \<Longrightarrow> position P xs = None"
  by (induction xs) auto

lemma collect_map_distinct:
  "distinct (map fst kvs) \<Longrightarrow> (k, v) \<in> set kvs \<Longrightarrow> collect_map kvs k = Some v"
  by (simp add: collect_map_def rev_map [symmetric] map_of_eq_Some_iff)

lemma collect_map_None: "k \<notin> fst ` set kvs \<Longrightarrow> collect_map kvs k = None"
  by (simp add: collect_map_def map_of_eq_None_iff)

lemma prev_by_id_None: "i \<notin> set (map me_id prev) \<Longrightarrow> prev_by_id prev i = None"
proof -
  assume "i \<notin> set (map me_id prev)"
  then have "i \<notin> fst ` set (map (\<lambda>(i, e). (me_id e, (i, e))) (enumerate 0 prev))"
    by (force simp: in_set_enumerate_eq)
  then show ?thesis by (simp add: prev_by_id_def collect_map_None)
qed

lemma prev_by_id_Some:
  assumes "distinct (map me_id prev)" "e \<in> set prev"
  shows "\<exists>n. prev_by_id prev (me_id e) = Some (n, e)"
proof -
  let ?kvs = "map (\<lambda>(i, e). (me_id e, (i, e))) (enumerate 0 prev)"
  obtain n where "n < length prev" "prev ! n = e" using assms(2) by (auto simp: in_set_conv_nth)
  then have "(me_id e, (n, e)) \<in> set ?kvs" by (force simp: in_set_enumerate_eq)
  moreover have "map fst ?kvs = map me_id prev"
  proof -
    have "map fst ?kvs = map (me_id \<circ> snd) (enumerate 0 prev)"
      by (simp add: comp_def case_prod_unfold)
    then show ?thesis by (metis map_map map_snd_enumerate)
  qed
  ultimately have "collect_map ?kvs (me_id e) = Some (n, e)"
    using assms(1) by (intro collect_map_distinct) (simp_all only:)
  then show ?thesis by (auto simp: prev_by_id_def)
qed

section \<open>A text append\<close>

definition bodies_distinct :: "SessionMessageEntry \<Rightarrow> bool" where
  "bodies_distinct e \<longleftrightarrow> distinct (map part_id (filter (\<lambda>p. body_of p \<noteq> None) (me_parts e)))"

lemma scan_append_done:
  "scan_append eid ps ns (Some a) = Some r \<Longrightarrow> length ps = length ns \<Longrightarrow> ps = ns \<and> r = Some a"
  by (induction eid ps ns "Some a" arbitrary: r rule: scan_append.induct)
     (auto simp: Let_def split: if_splits)

lemma scan_append_hit:
  "scan_append eid ps ns None = Some (Some a) \<Longrightarrow> length ps = length ns \<Longrightarrow>
   \<exists>us p n vs t. ps = us @ p # vs \<and> ns = us @ n # vs \<and> same_body_kind p n \<and>
     part_id p = part_id n \<and> the (body_of n) = the (body_of p) @ t \<and>
     a = \<lparr>ta_entry = eid, ta_part = part_id n, ta_text = t, ta_len = length (the (body_of n))\<rparr>"
proof (induction eid ps ns "None :: TextAppend option" rule: scan_append.induct)
  case (1 eid p ps n ns)
  show ?case
  proof (cases "p = n")
    case True
    have "scan_append eid ps ns None = Some (Some a)" "length ps = length ns"
      using 1(2,3) True by simp_all
    from 1(1) [OF True this] obtain us q m vs t where
      "ps = us @ q # vs \<and> ns = us @ m # vs \<and> same_body_kind q m \<and>
       part_id q = part_id m \<and> the (body_of m) = the (body_of q) @ t \<and>
       a = \<lparr>ta_entry = eid, ta_part = part_id m, ta_text = t, ta_len = length (the (body_of m))\<rparr>"
      by blast
    with True show ?thesis
      by (intro exI [of _ "n # us"] exI [of _ q] exI [of _ m] exI [of _ vs] exI [of _ t]) simp
  next
    case False
    then have h: "same_body_kind p n" "part_id p = part_id n"
        "starts_with (the (body_of n)) (the (body_of p))"
        "scan_append eid ps ns (Some \<lparr>ta_entry = eid, ta_part = part_id n,
           ta_text = drop (length (the (body_of p))) (the (body_of n)),
           ta_len = length (the (body_of n))\<rparr>) = Some (Some a)"
      using 1(2) by (auto simp: Let_def split: if_splits)
    moreover have "ps = ns \<and> Some a = Some \<lparr>ta_entry = eid, ta_part = part_id n,
           ta_text = drop (length (the (body_of p))) (the (body_of n)),
           ta_len = length (the (body_of n))\<rparr>"
      using 1(3) by (intro scan_append_done [OF h(4)]) simp
    moreover have "the (body_of n) = the (body_of p) @ drop (length (the (body_of p))) (the (body_of n))"
      using h(3) by (metis append_take_drop_id starts_with_def)
    ultimately show ?thesis
      by (intro exI [of _ "[]"] exI [of _ p] exI [of _ n] exI [of _ ns]
          exI [of _ "drop (length (the (body_of p))) (the (body_of n))"]) simp
  qed
qed simp_all

lemma set_body_same:
  "same_body_kind p n \<Longrightarrow> part_id p = part_id n \<Longrightarrow> set_body (the (body_of n)) p = n"
  by (cases p; cases n) simp_all

lemma same_body_kind_body: "same_body_kind p n \<Longrightarrow> body_of p \<noteq> None"
  by (cases p; cases n) simp_all

lemma apply_try_append:
  assumes "try_text_append prev e = Some a" "bodies_distinct prev"
    "\<And>x. x \<in> set us \<Longrightarrow> me_id x \<noteq> me_id e"
  shows "apply_append a (us @ prev # vs) = Inr (us @ e # vs)" "me_id prev = me_id e"
proof -
  have meta: "me_id prev = me_id e" "me_role prev = me_role e" "me_created_at prev = me_created_at e"
      "me_device_id prev = me_device_id e" "me_status prev = me_status e"
      "me_continuation_of prev = me_continuation_of e"
      "scan_append (me_id e) (me_parts prev) (me_parts e) None = Some (Some a)"
      "length (me_parts prev) = length (me_parts e)"
    using assms(1) by (auto simp: try_text_append_def split: if_splits option.splits)
  from scan_append_hit [OF meta(7,8)] obtain ps p n qs t where
    parts: "me_parts prev = ps @ p # qs" "me_parts e = ps @ n # qs"
      and pn: "same_body_kind p n" "part_id p = part_id n" "the (body_of n) = the (body_of p) @ t"
      and a: "a = \<lparr>ta_entry = me_id e, ta_part = part_id n, ta_text = t,
        ta_len = length (the (body_of n))\<rparr>"
    by blast
  have "position (is_body (part_id n)) (ps @ p # qs) = Some (length ps)"
  proof (rule position_hit)
    fix x assume x: "x \<in> set ps"
    have "part_id n \<notin> part_id ` {y \<in> set ps. body_of y \<noteq> None}"
      using assms(2) pn(2) same_body_kind_body [OF pn(1)] by (auto simp: bodies_distinct_def parts(1))
    moreover have "part_id x \<in> part_id ` {y \<in> set ps. body_of y \<noteq> None}" if "is_body (part_id n) x"
      using x that by (intro imageI) (simp add: is_body_def)
    ultimately show "\<not> is_body (part_id n) x" by (auto simp: is_body_def)
  qed (use pn(2) same_body_kind_body [OF pn(1)] in \<open>simp add: is_body_def\<close>)
  moreover have "position (\<lambda>x. me_id x = me_id e) (us @ prev # vs) = Some (length us)"
    using assms(3) meta(1) by (intro position_hit) simp_all
  moreover have "prev\<lparr>me_parts := ps @ n # qs\<rparr> = e"
    using meta parts(2) by (cases prev; cases e) simp
  ultimately show "apply_append a (us @ prev # vs) = Inr (us @ e # vs)"
    using pn(3) set_body_same [OF pn(1,2)]
    by (simp add: apply_append_def a parts(1) Let_def)
  show "me_id prev = me_id e" by (rule meta(1))
qed

section \<open>Upserts\<close>

abbreviation ids :: "SessionMessageEntry list \<Rightarrow> string list" where
  "ids es \<equiv> map me_id es"

text \<open>What an entry of the next state is once the upserts are in: itself, or its previous
  version while its append is pending.\<close>

definition settled ::
  "SessionMessageEntry list \<Rightarrow> SessionMessageEntry list \<Rightarrow> nat \<times> SessionMessageEntry \<Rightarrow>
   SessionMessageEntry" where
  "settled prev nxt ie =
     (if snd (diff_step prev nxt ie) = [] then snd ie
      else snd (the (prev_by_id prev (me_id (snd ie)))))"

lemma diff_step_cases:
  obtains (up) "diff_step prev nxt (i, e) = ([\<lparr>up_after = before nxt i, up_entry = e\<rparr>], [])"
  | (same) n where "diff_step prev nxt (i, e) = ([], [])" "prev_by_id prev (me_id e) = Some (n, e)"
  | (append) n p a where "diff_step prev nxt (i, e) = ([], [a])"
      "prev_by_id prev (me_id e) = Some (n, p)" "try_text_append p e = Some a"
proof (cases "prev_by_id prev (me_id e)")
  case None
  then show thesis by (intro up) (simp add: diff_step_def Let_def)
next
  case (Some np)
  obtain n p where np: "np = (n, p)" by (cases np)
  show thesis
  proof (cases "before prev n = before nxt i")
    case False
    then show thesis using Some np by (intro up) (simp add: diff_step_def Let_def)
  next
    case b: True
    show thesis
    proof (cases "p = e")
      case True
      then show thesis using Some np b by (intro same) (simp_all add: diff_step_def Let_def)
    next
      case False
      show thesis
      proof (cases "try_text_append p e")
        case None
        then show thesis using Some np b False by (intro up) (simp add: diff_step_def Let_def)
      next
        case (Some a)
        then show thesis using \<open>prev_by_id prev (me_id e) = Some np\<close> np b False
          by (intro append) (simp_all add: diff_step_def Let_def)
      qed
    qed
  qed
qed

lemma not_in_ids: "i \<notin> set (ids us) \<Longrightarrow> x \<in> set us \<Longrightarrow> me_id x \<noteq> i"
  by auto

lemma apply_upsert_new:
  assumes "me_id e \<notin> set (ids us)" "me_id e \<notin> set (ids vs)" "distinct (ids us)"
    "aft = (if us = [] then None else Some (me_id (last us)))"
  shows "apply_upsert \<lparr>up_after = aft, up_entry = e\<rparr> (us @ vs) = Inr (us @ e # vs)"
proof -
  have none: "position (\<lambda>x. me_id x = me_id e) (us @ vs) = None"
    using not_in_ids [OF assms(1)] not_in_ids [OF assms(2)] by (intro position_none) auto
  show ?thesis
  proof (cases us rule: rev_cases)
    case Nil
    then show ?thesis using none assms(4) by (simp add: apply_upsert_def insert_at_def)
  next
    case (snoc ws w)
    have "position (\<lambda>x. me_id x = me_id w) (ws @ w # vs) = Some (length ws)"
      using assms(3) snoc by (intro position_hit) (auto simp: image_iff)
    then show ?thesis
      using none assms(4) snoc by (simp add: apply_upsert_def insert_at_def)
  qed
qed

lemma apply_upsert_present:
  assumes "me_id e \<notin> set (ids us)" "me_id p = me_id e" "distinct (ids us)"
    "aft = (if us = [] then None else Some (me_id (last us)))"
  shows "apply_upsert \<lparr>up_after = aft, up_entry = e\<rparr> (us @ p # vs) = Inr (us @ e # vs)"
proof -
  have hit: "position (\<lambda>x. me_id x = me_id e) (us @ p # vs) = Some (length us)"
    using not_in_ids [OF assms(1)] assms(2) by (intro position_hit) auto
  have rem: "remove_at (length us) (us @ p # vs) = us @ vs"
    by (simp add: remove_at_def)
  show ?thesis
  proof (cases us rule: rev_cases)
    case Nil
    then show ?thesis using hit rem assms(4) by (simp add: apply_upsert_def insert_at_def)
  next
    case (snoc ws w)
    have "position (\<lambda>x. me_id x = me_id w) (ws @ w # vs) = Some (length ws)"
      using assms(3) snoc by (intro position_hit) (auto simp: image_iff)
    then show ?thesis
      using hit rem assms(4) snoc by (simp add: apply_upsert_def insert_at_def)
  qed
qed

text \<open>The entries both states have stand in the same order.\<close>

definition same_order :: "SessionMessageEntry list \<Rightarrow> SessionMessageEntry list \<Rightarrow> bool" where
  "same_order prev nxt \<longleftrightarrow>
     filter (\<lambda>i. i \<in> set (ids nxt)) (ids prev) = filter (\<lambda>i. i \<in> set (ids prev)) (ids nxt)"

definition survivors ::
  "SessionMessageEntry list \<Rightarrow> SessionMessageEntry list \<Rightarrow> SessionMessageEntry list" where
  "survivors prev ts = filter (\<lambda>e. me_id e \<in> set (ids ts)) prev"

lemma survivors_Cons_new:
  "me_id e \<notin> set (ids prev) \<Longrightarrow> survivors prev (e # ts) = survivors prev ts"
  unfolding survivors_def by (intro filter_cong refl) (use not_in_ids in fastforce)

lemma survivors_Cons_old:
  assumes "ids (survivors prev (e # ts)) = filter (\<lambda>i. i \<in> set (ids prev)) (ids (e # ts))"
    "me_id e \<in> set (ids prev)" "me_id e \<notin> set (ids ts)"
  shows "\<exists>p. me_id p = me_id e \<and> p \<in> set prev \<and> survivors prev (e # ts) = p # survivors prev ts \<and>
     ids (survivors prev ts) = filter (\<lambda>i. i \<in> set (ids prev)) (ids ts)"
proof -
  from assms(1,2) obtain p rest where s: "survivors prev (e # ts) = p # rest" "me_id p = me_id e"
      "ids rest = filter (\<lambda>i. i \<in> set (ids prev)) (ids ts)"
    by (auto simp: map_eq_Cons_conv)
  have "p \<in> set (survivors prev (e # ts))" using s(1) by simp
  then have "p \<in> set prev" by (simp add: survivors_def)
  have "survivors prev ts = filter (\<lambda>x. me_id x \<in> set (ids ts)) (survivors prev (e # ts))"
    by (simp add: survivors_def) (intro filter_cong refl, auto)
  also have "\<dots> = filter (\<lambda>x. me_id x \<in> set (ids ts)) rest" using s(1,2) assms(3) by simp
  also have "\<dots> = rest"
  proof (rule filter_True, rule ballI)
    fix x assume "x \<in> set rest"
    then have "me_id x \<in> set (ids rest)" by simp
    with s(3) show "me_id x \<in> set (ids ts)" by simp
  qed
  finally show ?thesis using s \<open>p \<in> set prev\<close> by auto
qed

lemma before_done: "nxt = ds @ ts \<Longrightarrow> before nxt (length ds) = (if ds = [] then None else Some (me_id (last ds)))"
  by (cases ds rule: rev_cases) (simp_all add: before_def nth_append)

lemma settled_id:
  assumes "\<And>n p. prev_by_id prev (me_id e) = Some (n, p) \<Longrightarrow> me_id p = me_id e"
  shows "me_id (settled prev nxt (i, e)) = me_id e"
  using assms by (cases rule: diff_step_cases [of prev nxt i e]) (auto simp: settled_def)

lemma prev_by_id_id: "prev_by_id prev i = Some (n, p) \<Longrightarrow> me_id p = i \<and> p \<in> set prev"
  by (auto simp: prev_by_id_def collect_map_def in_set_enumerate_eq dest!: map_of_SomeD)

lemma upsert_phase:
  assumes "distinct (ids prev)" "distinct (ids nxt)" "nxt = ds @ ts" "ids ds' = ids ds"
    "ids (survivors prev ts) = filter (\<lambda>i. i \<in> set (ids prev)) (ids ts)"
  shows "each apply_upsert (concat (map (fst \<circ> diff_step prev nxt) (enumerate (length ds) ts)))
       (ds' @ survivors prev ts) =
     Inr (ds' @ map (settled prev nxt) (enumerate (length ds) ts))"
  using assms(3-)
proof (induction ts arbitrary: ds ds')
  case Nil
  then show ?case by (simp add: survivors_def)
next
  case (Cons e ts)
  have fresh: "me_id e \<notin> set (ids ds)" "me_id e \<notin> set (ids ts)" "distinct (ids ds')"
    using assms(2) Cons.prems(1,2) by auto
  have aft: "before nxt (length ds) = (if ds' = [] then None else Some (me_id (last ds')))"
    using before_done [OF Cons.prems(1)] Cons.prems(2)
    by (cases ds rule: rev_cases; cases ds' rule: rev_cases) auto
  have step: "each apply_upsert (fst (diff_step prev nxt (length ds, e))) (ds' @ survivors prev (e # ts)) =
      Inr (ds' @ settled prev nxt (length ds, e) # survivors prev ts) \<and>
      ids (survivors prev ts) = filter (\<lambda>i. i \<in> set (ids prev)) (ids ts)"
  proof (cases "me_id e \<in> set (ids prev)")
    case True
    from survivors_Cons_old [OF Cons.prems(3) True fresh(2)] obtain p where
      p: "me_id p = me_id e" "p \<in> set prev" "survivors prev (e # ts) = p # survivors prev ts"
        "ids (survivors prev ts) = filter (\<lambda>i. i \<in> set (ids prev)) (ids ts)"
      by blast
    obtain n where n: "prev_by_id prev (me_id e) = Some (n, p)"
      using prev_by_id_Some [OF assms(1) p(2)] p(1) by auto
    show ?thesis
    proof (cases rule: diff_step_cases [of prev nxt "length ds" e])
      case up
      have "apply_upsert \<lparr>up_after = before nxt (length ds), up_entry = e\<rparr>
          (ds' @ p # survivors prev ts) = Inr (ds' @ e # survivors prev ts)"
        using fresh Cons.prems(2) p(1) aft by (intro apply_upsert_present) simp_all
      with up p(3,4) show ?thesis by (simp add: settled_def)
    next
      case (same k)
      then show ?thesis using n p(3,4) by (simp add: settled_def)
    next
      case (append k q a)
      then show ?thesis using n p(3,4) by (simp add: settled_def)
    qed
  next
    case False
    have none: "prev_by_id prev (me_id e) = None" using False by (rule prev_by_id_None)
    have "survivors prev (e # ts) = survivors prev ts" using False by (rule survivors_Cons_new)
    moreover have "apply_upsert \<lparr>up_after = before nxt (length ds), up_entry = e\<rparr>
          (ds' @ survivors prev ts) = Inr (ds' @ e # survivors prev ts)"
      using fresh Cons.prems(2) aft False
      by (intro apply_upsert_new) (auto simp: survivors_def)
    ultimately show ?thesis
      using none Cons.prems(3) False by (simp add: diff_step_def settled_def Let_def)
  qed
  have sid: "me_id (settled prev nxt (length ds, e)) = me_id e"
    by (rule settled_id) (use prev_by_id_id in blast)
  have "each apply_upsert (concat (map (fst \<circ> diff_step prev nxt) (enumerate (length (ds @ [e])) ts)))
       ((ds' @ [settled prev nxt (length ds, e)]) @ survivors prev ts) =
     Inr ((ds' @ [settled prev nxt (length ds, e)]) @
        map (settled prev nxt) (enumerate (length (ds @ [e])) ts))"
    using Cons.prems(1,2) step sid by (intro Cons.IH) simp_all
  with step show ?case by (simp add: each_append comp_def)
qed

section \<open>Appends\<close>

lemma append_phase:
  assumes "distinct (ids nxt)" "nxt = ds @ ts" "\<forall>p \<in> set prev. bodies_distinct p"
  shows "each apply_append (concat (map (snd \<circ> diff_step prev nxt) (enumerate (length ds) ts)))
       (ds @ map (settled prev nxt) (enumerate (length ds) ts)) = Inr (ds @ ts)"
  using assms(2)
proof (induction ts arbitrary: ds)
  case (Cons e ts)
  have "me_id e \<notin> set (ids ds)" using assms(1) Cons.prems by auto
  note fresh = not_in_ids [OF this]
  have IH: "each apply_append (concat (map (snd \<circ> diff_step prev nxt) (enumerate (Suc (length ds)) ts)))
       (ds @ e # map (settled prev nxt) (enumerate (Suc (length ds)) ts)) = Inr (ds @ e # ts)"
    using Cons.IH [of "ds @ [e]"] Cons.prems by (simp add: comp_def)
  show ?case
  proof (cases rule: diff_step_cases [of prev nxt "length ds" e])
    case up
    with IH show ?thesis by (simp add: settled_def [of prev nxt "(length ds, e)"] comp_def)
  next
    case (same k)
    with IH show ?thesis by (simp add: settled_def [of prev nxt "(length ds, e)"] comp_def)
  next
    case (append k q a)
    then have "bodies_distinct q" using assms(3) prev_by_id_id by blast
    from apply_try_append(1) [OF append(3) this fresh] append(1,2) IH show ?thesis
      by (simp add: settled_def [of prev nxt "(length ds, e)"] comp_def)
  qed
qed simp

section \<open>Round trip\<close>

lemma diff_apply:
  assumes "distinct (ids prev)" "distinct (ids nxt)" "same_order prev nxt"
    "\<forall>p \<in> set prev. bodies_distinct p"
  shows "apply_transcript_frame (diff_transcript prev nxt) prev = Inr nxt"
proof -
  have kept: "filter (\<lambda>e. me_id e \<notin> set (map me_id (filter (\<lambda>e. me_id e \<notin> set (ids nxt)) prev))) prev =
      survivors prev nxt"
    unfolding survivors_def by (intro filter_cong refl) auto
  have all: "map me_id (filter (\<lambda>e. me_id e \<notin> set (ids nxt)) prev) = [] \<Longrightarrow> prev = survivors prev nxt"
    by (auto simp: survivors_def filter_empty_conv intro!: filter_True [symmetric])
  have "ids (survivors prev nxt) = filter (\<lambda>i. i \<in> set (ids prev)) (ids nxt)"
    using assms(3) by (simp add: same_order_def survivors_def filter_map comp_def)
  from upsert_phase [OF assms(1,2) _ _ this, of "[]" "[]"]
  have "each apply_upsert (concat (map fst (map (diff_step prev nxt) (enumerate 0 nxt)))) (survivors prev nxt) =
      Inr (map (settled prev nxt) (enumerate 0 nxt))"
    by simp
  moreover have "each apply_append (concat (map snd (map (diff_step prev nxt) (enumerate 0 nxt))))
       (map (settled prev nxt) (enumerate 0 nxt)) = Inr nxt"
    using append_phase [OF assms(2) _ assms(4), of "[]"] by simp
  ultimately show ?thesis
    using kept all by (auto simp: diff_transcript_def Let_def simp del: map_map)
qed

section \<open>History\<close>

text \<open>A part after more text arrived, or unchanged.\<close>

fun grew :: "MessagePart \<Rightarrow> MessagePart \<Rightarrow> bool" where
  "grew (MpText i s) (MpText j t) \<longleftrightarrow> i = j \<and> starts_with t s \<and> cont_ok 0 (drop (length s) t)"
| "grew (MpReasoning i s) (MpReasoning j t) \<longleftrightarrow>
     i = j \<and> starts_with t s \<and> cont_ok 0 (drop (length s) t)"
| "grew p q \<longleftrightarrow> p = q"

definition watermark :: "MessagePart \<Rightarrow> nat" where
  "watermark p = (case body_of p of Some t \<Rightarrow> length t | None \<Rightarrow> 0)"

lemma back_at_boundary: "is_char_boundary s e \<Longrightarrow> back_to_boundary s e = e"
  by (cases e) simp_all

lemma boundary_after_prefix:
  assumes "cont_ok 0 u"
  shows "is_char_boundary (s @ u) (length s)"
  using assms by (cases u) (auto simp: is_char_boundary_def nth_append split: if_splits)

lemma truncate_grown: "grew p q \<Longrightarrow> truncate_part (watermark p) q = p"
proof (cases p; cases q)
  fix i s j t assume g: "grew p q" "p = MpText i s" "q = MpText j t"
  then obtain u where "t = s @ u" "cont_ok 0 u" "i = j"
    by (auto simp: starts_with_def) (metis append_take_drop_id)
  with g show ?thesis
    by (simp add: truncate_part_def watermark_def back_at_boundary boundary_after_prefix)
next
  fix i s j t assume g: "grew p q" "p = MpReasoning i s" "q = MpReasoning j t"
  then obtain u where "t = s @ u" "cont_ok 0 u" "i = j"
    by (auto simp: starts_with_def) (metis append_take_drop_id)
  with g show ?thesis
    by (simp add: truncate_part_def watermark_def back_at_boundary boundary_after_prefix)
qed (simp_all add: truncate_part_def)

lemma grew_id: "grew p q \<Longrightarrow> part_id q = part_id p"
  by (cases p; cases q) auto

lemma watermark_lookup:
  "distinct (map part_id ps) \<Longrightarrow> p \<in> set ps \<Longrightarrow> part_watermarks ps (part_id p) = Some (watermark p)"
  unfolding part_watermarks_def
  by (rule collect_map_distinct) (auto simp: comp_def watermark_def image_iff)

lemma watermark_absent: "i \<notin> set (map part_id ps) \<Longrightarrow> part_watermarks ps i = None"
  unfolding part_watermarks_def by (rule collect_map_None) force

lemma historical_parts_fresh:
  "(\<And>v. v \<in> set vs \<Longrightarrow> m (part_id v) = None) \<Longrightarrow> historical_parts m vs = []"
  by (induction vs) (simp_all add: historical_parts_def map_filter_def)

lemma historical_parts_append:
  "historical_parts m (us @ vs) = historical_parts m us @ historical_parts m vs"
  by (simp add: historical_parts_def map_filter_def)

lemma historical_parts_grown:
  "list_all2 grew ps us \<Longrightarrow> (\<And>p. p \<in> set ps \<Longrightarrow> m (part_id p) = Some (watermark p)) \<Longrightarrow>
     historical_parts m us = ps"
proof (induction ps us rule: list_all2_induct)
  case (Cons p ps u us)
  then show ?case
    by (simp add: historical_parts_def map_filter_def grew_id truncate_grown)
qed (simp add: historical_parts_def map_filter_def)

section \<open>Properties\<close>

text \<open>C10: a watcher that applies the frame of a change arrives at the new transcript: for
  states with distinct ids whose common entries keep their order, applying the difference
  of two states to the first gives exactly the second, whether the frame is a reset, upserts
  or text appends, and whatever was inserted, removed or edited in between.\<close>

theorem transcript_frame_roundtrip:
  assumes "distinct (ids prev)" "distinct (ids nxt)" "same_order prev nxt"
    "\<forall>p \<in> set prev. bodies_distinct p"
  shows "apply_transcript_frame (diff_transcript prev nxt) prev = Inr nxt"
  using assms by (rule diff_apply)

definition demo_row :: "string \<Rightarrow> string \<Rightarrow> SessionMessageEntry" where
  "demo_row i t = \<lparr>me_id = i, me_role = User, me_parts = [MpText ''t0'' t], me_created_at = 0,
     me_device_id = ''d'', me_status = None, me_continuation_of = None\<rparr>"

lemma transcript_frame_roundtrip_witness:
  "apply_transcript_frame
     (diff_transcript [demo_row ''a'' ''x'', demo_row ''b'' ''y''] [demo_row ''a'' ''xz'', demo_row ''c'' ''w''])
     [demo_row ''a'' ''x'', demo_row ''b'' ''y''] = Inr [demo_row ''a'' ''xz'', demo_row ''c'' ''w'']"
  by (rule transcript_frame_roundtrip)
     (simp_all add: demo_row_def same_order_def bodies_distinct_def)

text \<open>the order condition is needed, and the count does not catch its violation: when two
  blocks of two entries trade places, the frame applies without an error and leaves a
  transcript in an order that is neither the old nor the new one.\<close>

theorem reorder_desyncs_silently:
  "\<exists>prev nxt cur. distinct (ids prev) \<and> mset nxt = mset prev \<and>
     apply_transcript_frame (diff_transcript prev nxt) prev = Inr cur \<and> cur \<noteq> nxt \<and> cur \<noteq> prev"
proof -
  let ?r = "\<lambda>i. demo_row i ''x''"
  have "apply_transcript_frame
      (diff_transcript [?r ''a'', ?r ''b'', ?r ''c'', ?r ''d''] [?r ''c'', ?r ''d'', ?r ''a'', ?r ''b''])
      [?r ''a'', ?r ''b'', ?r ''c'', ?r ''d''] = Inr [?r ''c'', ?r ''b'', ?r ''d'', ?r ''a'']"
    by (simp add: demo_row_def diff_transcript_def diff_step_def before_def prev_by_id_def
        collect_map_def apply_upsert_def insert_at_def remove_at_def try_text_append_def Let_def)
  moreover have "mset [?r ''c'', ?r ''d'', ?r ''a'', ?r ''b''] =
      mset [?r ''a'', ?r ''b'', ?r ''c'', ?r ''d'']"
    by simp
  moreover have "distinct (ids [?r ''a'', ?r ''b'', ?r ''c'', ?r ''d''])"
      "[?r ''c'', ?r ''b'', ?r ''d'', ?r ''a''] \<noteq> [?r ''c'', ?r ''d'', ?r ''a'', ?r ''b'']"
      "[?r ''c'', ?r ''b'', ?r ''d'', ?r ''a''] \<noteq> [?r ''a'', ?r ''b'', ?r ''c'', ?r ''d'']"
    by (simp_all add: demo_row_def)
  ultimately show ?thesis by blast
qed

text \<open>a baseline separates history from what arrived later: from an entry whose parts have
  grown and been joined by new ones, the baseline taken before recovers the parts as they
  were, cutting grown texts at character boundaries.\<close>

theorem baseline_recovers_history:
  assumes "distinct (ids es)" "e \<in> set es" "distinct (map part_id (me_parts e))"
    "me_id later = me_id e" "me_parts later = us @ vs" "list_all2 grew (me_parts e) us"
    "set (map part_id vs) \<inter> set (map part_id (me_parts e)) = {}"
  shows "historical_entry (capture es) later = Some (later\<lparr>me_parts := me_parts e\<rparr>)"
proof -
  have "tb_entries (capture es) (me_id e) = Some (part_watermarks (me_parts e))"
    unfolding capture_def TranscriptBaseline.select_convs
    by (rule collect_map_distinct) (use assms(1,2) in \<open>auto simp: comp_def\<close>)
  moreover have "historical_parts (part_watermarks (me_parts e)) us = me_parts e"
    using assms(3,6) by (intro historical_parts_grown) (simp_all add: watermark_lookup)
  moreover have "historical_parts (part_watermarks (me_parts e)) vs = []"
    using assms(7) by (intro historical_parts_fresh watermark_absent) auto
  ultimately show ?thesis
    using assms(4,5) by (simp add: historical_entry_def historical_parts_append)
qed

lemma baseline_recovers_history_witness:
  "historical_entry (capture [demo_row ''a'' ''x'']) (demo_row ''a'' ''xyz'') = Some (demo_row ''a'' ''x'')"
proof -
  have "historical_entry (capture [demo_row ''a'' ''x'']) (demo_row ''a'' ''xyz'') =
      Some ((demo_row ''a'' ''xyz'')\<lparr>me_parts := me_parts (demo_row ''a'' ''x'')\<rparr>)"
    by (rule baseline_recovers_history [where us = "[MpText ''t0'' ''xyz'']" and vs = "[]"])
       (simp_all add: demo_row_def starts_with_def)
  then show ?thesis by (simp add: demo_row_def)
qed

end
