(* ===== verification/Session_Meta.thy ===== *)
theory Session_Meta
  imports Agent "HOL-Library.Product_Lexorder"
begin

text \<open>
  The small registers of a session document in \<open>crates/doc/src/schema.rs\<close>: the orchestration
  projection the host publishes under an (epoch, version) fence, and the context usage. A map
  of the document is the list of its members; the usage, stored as its JSON text in one value,
  is the value that text parses to.
\<close>

section \<open>Orchestration\<close>

type_synonym orchestration = "(string \<times> json) list"

definition or_int :: "int \<Rightarrow> int option \<Rightarrow> int" where
  "or_int d x = (case x of None \<Rightarrow> d | Some i \<Rightarrow> i)"

lemma or_int_simps [simp]: "or_int d None = d" "or_int d (Some i) = i"
  by (simp_all add: or_int_def)

text \<open>Identities and versions of the barrier's documents only.\<close>

definition barrier_doc :: "json \<Rightarrow> json" where
  "barrier_doc d = JObj [(''docId'', json_index d ''docId''), (''version'', json_index d ''version'')]"

definition barrier_of :: "json \<Rightarrow> json" where
  "barrier_of b = JArr (case as_array b of None \<Rightarrow> [] | Some ds \<Rightarrow> map barrier_doc ds)"

definition publish_orchestration ::
  "string \<Rightarrow> int \<Rightarrow> int \<Rightarrow> string \<Rightarrow> json \<Rightarrow> json \<Rightarrow> orchestration \<Rightarrow> string + orchestration" where
  "publish_orchestration owner epoch version batch barrier projection m =
     (let current = JObj m in
      if (case as_str (json_index current ''hostId'') of None \<Rightarrow> False | Some i \<Rightarrow> i \<noteq> owner)
      then Inl ''foreign orchestration owner''
      else
        (let previous_epoch = or_int (-1) (as_i64 (json_index current ''hostEpoch''));
             previous_version = or_int (-1) (as_i64 (json_index current ''version''))
         in if epoch < previous_epoch \<or> (epoch = previous_epoch \<and> version \<le> previous_version)
            then Inr m
            else Inr (oinsert ''projection'' projection
                  (oinsert ''barrier'' (barrier_of barrier)
                  (oinsert ''batchId'' (JStr batch)
                  (oinsert ''version'' (JInt version)
                  (oinsert ''hostEpoch'' (JInt epoch)
                  (oinsert ''hostId'' (JStr owner) m))))))))"

section \<open>Context usage\<close>

definition default_usage :: ContextUsage where
  "default_usage = \<lparr>cu_tokens = None, cu_window = None, cu_compact_at = None, cu_session = None\<rparr>"

definition or_else :: "'a option \<Rightarrow> 'a option \<Rightarrow> 'a option" where
  "or_else x y = (case x of None \<Rightarrow> y | Some _ \<Rightarrow> x)"

definition update_context_usage ::
  "nat option \<Rightarrow> nat option \<Rightarrow> ContextUsage option \<Rightarrow> ContextUsage option" where
  "update_context_usage tokens window usage =
     (let previous = (case usage of None \<Rightarrow> default_usage | Some u \<Rightarrow> u);
          nxt = previous\<lparr>cu_tokens := or_else tokens (cu_tokens previous),
            cu_window := or_else (case window of Some n \<Rightarrow> if 0 < n then Some n else None | None \<Rightarrow> None)
              (cu_window previous)\<rparr>
      in if nxt \<noteq> previous then Some nxt else usage)"

definition set_context_usage :: "ContextUsage \<Rightarrow> ContextUsage option \<Rightarrow> ContextUsage option" where
  "set_context_usage u usage = (if usage \<noteq> Some u then Some u else usage)"

section \<open>Fenced registers\<close>

text \<open>A register that takes a write exactly when its level is above the register's own ends,
  whatever the order of the writes, at the highest level, and replays change nothing.\<close>

locale fenced_register =
  fixes open_to :: "'s \<Rightarrow> bool" and level :: "'s \<Rightarrow> 'r::linorder" and stamp :: "'p \<Rightarrow> 'r"
    and good :: "'p \<Rightarrow> bool" and accept :: "'p \<Rightarrow> 's \<Rightarrow> 's"
  assumes newer: "open_to s \<Longrightarrow> good p \<Longrightarrow> level s < stamp p \<Longrightarrow>
      open_to (accept p s) \<and> level (accept p s) = stamp p"
    and older: "open_to s \<Longrightarrow> good p \<Longrightarrow> stamp p \<le> level s \<Longrightarrow> accept p s = s"
begin

lemma accept_level: "open_to s \<Longrightarrow> good p \<Longrightarrow>
    open_to (accept p s) \<and> level (accept p s) = max (level s) (stamp p)"
  using newer [of s p] older [of s p] by (cases "level s < stamp p") (auto simp: max_def)

lemma run_level: "open_to s \<Longrightarrow> list_all good ps \<Longrightarrow>
    open_to (fold accept ps s) \<and> level s \<le> level (fold accept ps s) \<and>
    (\<forall>p \<in> set ps. stamp p \<le> level (fold accept ps s))"
proof (induction ps arbitrary: s)
  case (Cons p ps)
  then have "open_to (accept p s)" "level (accept p s) = max (level s) (stamp p)"
    using accept_level by auto
  then show ?case using Cons.IH [of "accept p s"] Cons.prems by auto
qed simp

lemma run_attained: "open_to s \<Longrightarrow> list_all good ps \<Longrightarrow>
    fold accept ps s = s \<or> (\<exists>us p vs. ps = us @ p # vs \<and> level (fold accept us s) < stamp p \<and>
      fold accept ps s = accept p (fold accept us s))"
proof (induction ps rule: rev_induct)
  case (snoc p ps)
  then have ok: "open_to (fold accept ps s)" "good p" "list_all good ps"
    using run_level [of s ps] by auto
  show ?case
  proof (cases "level (fold accept ps s) < stamp p")
    case True
    then show ?thesis by (intro disjI2 exI [of _ ps] exI [of _ p] exI [of _ "[]"]) simp
  next
    case False
    then have same: "fold accept (ps @ [p]) s = fold accept ps s" using older [OF ok(1,2)] by simp
    show ?thesis
    proof (cases "fold accept ps s = s")
      case True
      then show ?thesis using same by simp
    next
      case diff: False
      then obtain us q vs where "ps = us @ q # vs" "level (fold accept us s) < stamp q"
          "fold accept ps s = accept q (fold accept us s)"
        using snoc.IH snoc.prems(1) ok(3) by blast
      then show ?thesis using same
        by (intro disjI2 exI [of _ us] exI [of _ q] exI [of _ "vs @ [p]"]) simp
    qed
  qed
qed simp

lemma replay:
  assumes "open_to s" "list_all good ps" "set qs \<subseteq> set ps"
  shows "fold accept (ps @ qs) s = fold accept ps s"
proof -
  have ok: "open_to (fold accept ps s)" "\<forall>p \<in> set ps. stamp p \<le> level (fold accept ps s)"
    using run_level [OF assms(1,2)] by blast+
  have "fold accept qs (fold accept ps s) = fold accept ps s"
    using assms(2,3)
  proof (induction qs)
    case (Cons q qs)
    then have "accept q (fold accept ps s) = fold accept ps s"
      using ok by (intro older) (auto simp: list_all_iff)
    then show ?case using Cons by simp
  qed simp
  then show ?thesis by simp
qed

end

section \<open>Publications as a fenced register\<close>

record publication =
  pb_owner :: string
  pb_epoch :: int
  pb_version :: int
  pb_batch :: string
  pb_barrier :: json
  pb_projection :: json

definition publish :: "publication \<Rightarrow> orchestration \<Rightarrow> orchestration" where
  "publish p m =
     (case publish_orchestration (pb_owner p) (pb_epoch p) (pb_version p) (pb_batch p)
        (pb_barrier p) (pb_projection p) m of Inl _ \<Rightarrow> m | Inr m' \<Rightarrow> m')"

definition owner_of :: "orchestration \<Rightarrow> string option" where
  "owner_of m = as_str (json_index (JObj m) ''hostId'')"

definition fence :: "orchestration \<Rightarrow> int \<times> int" where
  "fence m = (or_int (-1) (as_i64 (json_index (JObj m) ''hostEpoch'')),
     or_int (-1) (as_i64 (json_index (JObj m) ''version'')))"

definition pub_stamp :: "publication \<Rightarrow> int \<times> int" where
  "pub_stamp p = (pb_epoch p, pb_version p)"

definition pub_by :: "string \<Rightarrow> publication \<Rightarrow> bool" where
  "pub_by owner p \<longleftrightarrow> pb_owner p = owner \<and> - (2 ^ 63) \<le> pb_epoch p \<and> pb_epoch p < 2 ^ 63 \<and>
     - (2 ^ 63) \<le> pb_version p \<and> pb_version p < 2 ^ 63"

definition open_for :: "string \<Rightarrow> orchestration \<Rightarrow> bool" where
  "open_for owner m \<longleftrightarrow> owner_of m = None \<or> owner_of m = Some owner"

definition written :: "publication \<Rightarrow> orchestration \<Rightarrow> bool" where
  "written p m \<longleftrightarrow> map_of m ''hostId'' = Some (JStr (pb_owner p)) \<and>
     map_of m ''hostEpoch'' = Some (JInt (pb_epoch p)) \<and>
     map_of m ''version'' = Some (JInt (pb_version p)) \<and>
     map_of m ''batchId'' = Some (JStr (pb_batch p)) \<and>
     map_of m ''barrier'' = Some (barrier_of (pb_barrier p)) \<and>
     map_of m ''projection'' = Some (pb_projection p)"

lemma json_index_JObj [simp]:
  "json_index (JObj m) k = (case map_of m k of None \<Rightarrow> JNull | Some x \<Rightarrow> x)"
  by (simp add: json_index_def)

lemma publish_older:
  assumes "pub_by owner p" "pub_stamp p \<le> fence m"
  shows "publish p m = m"
proof -
  have "pb_epoch p < fst (fence m) \<or> (pb_epoch p = fst (fence m) \<and> pb_version p \<le> snd (fence m))"
    using assms(2) by (auto simp: pub_stamp_def less_eq_prod_def)
  then show ?thesis
    by (simp add: publish_def publish_orchestration_def fence_def Let_def del: json_index_JObj)
qed

lemma publish_newer:
  assumes "pub_by owner p" "open_for owner m" "fence m < pub_stamp p"
  shows "written p (publish p m)"
proof -
  have newer: "\<not> (pb_epoch p < fst (fence m) \<or> (pb_epoch p = fst (fence m) \<and> pb_version p \<le> snd (fence m)))"
    using assms(3) by (auto simp: pub_stamp_def less_prod_def less_eq_prod_def)
  have "\<not> (case owner_of m of None \<Rightarrow> False | Some i \<Rightarrow> i \<noteq> pb_owner p)"
    using assms(1,2) by (auto simp: open_for_def pub_by_def)
  then show ?thesis using newer
    by (auto simp: publish_def publish_orchestration_def fence_def owner_of_def Let_def written_def
        simp del: json_index_JObj)
qed

lemma written_fence:
  "pub_by owner p \<Longrightarrow> written p m \<Longrightarrow> open_for owner m \<and> fence m = pub_stamp p"
  by (simp add: written_def pub_by_def open_for_def owner_of_def fence_def pub_stamp_def
      as_str_def as_i64_def)

interpretation projection_register: fenced_register "open_for owner" fence pub_stamp "pub_by owner" publish
  for owner
proof
  fix m p assume "open_for owner m" "pub_by owner p" "fence m < pub_stamp p"
  then show "open_for owner (publish p m) \<and> fence (publish p m) = pub_stamp p"
    using publish_newer written_fence by blast
next
  fix m p assume "open_for owner m" "pub_by owner p" "pub_stamp p \<le> fence m"
  then show "publish p m = m" by (simp add: publish_older)
qed

section \<open>Properties\<close>


definition sample_pub :: "int \<Rightarrow> int \<Rightarrow> publication" where
  "sample_pub e v = \<lparr>pb_owner = ''h'', pb_epoch = e, pb_version = v, pb_batch = ''b'',
     pb_barrier = JNull, pb_projection = JInt v\<rparr>"


end
