(* ===== verification/Rebuild.thy ===== *)
theory Rebuild
  imports Doc_Roundtrip Command_Drain Session_Meta
begin

text \<open>
  \<open>crates/doc/src/rebuild.rs\<close>: the rebuild of a fat document into a thin one. Every message
  is copied with its inline tool outputs and diffs stripped, the stripped payloads are owed
  to the sidecar, and only unresolved commands cross over; the context usage and the
  orchestration projection are published anew.
\<close>

section \<open>Stripping a part\<close>

definition strip_tool ::
  "(string \<Rightarrow> string \<Rightarrow> nat \<times> nat) \<Rightarrow> string \<Rightarrow> ToolPart \<Rightarrow> ToolPart \<times> SidecarPayload option" where
  "strip_tool ld chat t =
     (let payload = \<lparr>sp_part_id = tp_id t, sp_output = None, sp_diff = None\<rparr>;
          (t1, payload1) =
            (case (tp_output_ref t, tp_output t) of
               (None, Some full) \<Rightarrow>
                 (if trim full = [] then (t\<lparr>tp_output := None\<rparr>, payload)
                  else (t\<lparr>tp_output := summarize_tool_output full,
                          tp_output_bytes := Some (length full),
                          tp_output_ref := Some (chat @ ''/'' @ tp_id t)\<rparr>,
                        payload\<lparr>sp_output := Some full\<rparr>))
             | _ \<Rightarrow> (t, payload));
          (t2, payload2) =
            (case tp_diff t1 of
               Some full \<Rightarrow>
                 (t1\<lparr>tp_diff := None, tp_diff_stats := Some [diff_stat ld full],
                     tp_diff_ref := (case tp_diff_ref t1 of
                        None \<Rightarrow> Some (chat @ ''/'' @ tp_id t1 @ ''.diff'') | Some r \<Rightarrow> Some r)\<rparr>,
                  payload1\<lparr>sp_diff := Some full\<rparr>)
             | None \<Rightarrow> (t1, payload1))
      in (t2, if sp_output payload2 \<noteq> None \<or> sp_diff payload2 \<noteq> None then Some payload2 else None))"

fun strip_part ::
  "(string \<Rightarrow> string \<Rightarrow> nat \<times> nat) \<Rightarrow> string \<Rightarrow> MessagePart \<Rightarrow> MessagePart \<times> SidecarPayload option" where
  "strip_part ld chat (MpTool t) = (case strip_tool ld chat t of (t', p) \<Rightarrow> (MpTool t', p))"
| "strip_part ld chat p = (p, None)"

definition strip_entry ::
  "(string \<Rightarrow> string \<Rightarrow> nat \<times> nat) \<Rightarrow> string \<Rightarrow> SessionMessageEntry \<Rightarrow>
   SessionMessageEntry \<times> SidecarPayload list" where
  "strip_entry ld chat e =
     (e\<lparr>me_parts := map (fst \<circ> strip_part ld chat) (me_parts e)\<rparr>,
      List.map_filter (snd \<circ> strip_part ld chat) (me_parts e))"

section \<open>The rebuild\<close>

record 'req session_doc =
  sd_chat_id :: "string option"
  sd_epoch :: nat
  sd_usage :: "ContextUsage option"
  sd_orchestration :: orchestration
  sd_messages :: "doc_entry list"
  sd_commands :: "'req SessionCommandEntry list"

record 'req ThinRebuild =
  tr_doc :: "'req session_doc"
  tr_sidecar :: "SidecarPayload list"
  tr_entries :: nat
  tr_commands_copied :: nat

definition THIN_DOC_EPOCH :: nat where "THIN_DOC_EPOCH = 2"

definition copy_usage :: "ContextUsage option \<Rightarrow> ContextUsage option" where
  "copy_usage u = (case u of None \<Rightarrow> None
     | Some u \<Rightarrow> update_context_usage (cu_tokens u) (cu_window u) None)"

definition or_default_usage :: "ContextUsage option \<Rightarrow> ContextUsage" where
  "or_default_usage u = (case u of None \<Rightarrow> default_usage | Some u \<Rightarrow> u)"

definition str_or_empty :: "json \<Rightarrow> string" where
  "str_or_empty v = (case as_str v of None \<Rightarrow> [] | Some t \<Rightarrow> t)"

definition copy_orchestration :: "orchestration \<Rightarrow> string + orchestration" where
  "copy_orchestration m =
     (let o' = JObj m in
      case as_str (json_index o' ''hostId'') of
        None \<Rightarrow> Inr []
      | Some owner \<Rightarrow> publish_orchestration owner
          (or_int 0 (as_i64 (json_index o' ''hostEpoch''))) (or_int 0 (as_i64 (json_index o' ''version'')))
          (str_or_empty (json_index o' ''batchId''))
          (json_index o' ''barrier'') (json_index o' ''projection'') [])"

definition rebuild_thin_doc ::
  "(json \<Rightarrow> string) \<Rightarrow> (string \<Rightarrow> string \<Rightarrow> nat \<times> nat) \<Rightarrow> 'req session_doc \<Rightarrow>
   string + 'req ThinRebuild" where
  "rebuild_thin_doc hx ld source =
     rbind (ok_or ''source doc has no chatId'' (sd_chat_id source)) (\<lambda>chat.
     rbind (copy_orchestration (sd_orchestration source)) (\<lambda>orch.
       let entries = read_entries hx (sd_messages source);
           stripped = map (strip_entry ld chat) entries;
           pending = filter (\<lambda>c. cmd_status c = StPending) (sd_commands source)
       in Inr \<lparr>tr_doc = \<lparr>sd_chat_id = Some chat, sd_epoch = THIN_DOC_EPOCH,
                 sd_usage = copy_usage (sd_usage source), sd_orchestration = orch,
                 sd_messages = fold push_message (map fst stripped) [],
                 sd_commands = map (\<lambda>c. c\<lparr>resolution := None\<rparr>) pending\<rparr>,
               tr_sidecar = concat (map snd stripped),
               tr_entries = length entries,
               tr_commands_copied = length pending\<rparr>))"

lemma copy_orchestration_ok: "\<exists>m'. copy_orchestration m = Inr m'"
  by (cases "as_str (json_index (JObj m) ''hostId'')")
     (simp_all add: copy_orchestration_def publish_orchestration_def Let_def as_str_def
        del: json_index_JObj, simp add: json_index_def)

lemma rebuild_ok: "sd_chat_id source = Some c \<Longrightarrow> \<exists>r. rebuild_thin_doc hx ld source = Inr r"
  using copy_orchestration_ok [of "sd_orchestration source"]
  by (auto simp: rebuild_thin_doc_def Let_def)

lemma rebuild_chat: "rebuild_thin_doc hx ld source = Inr r \<Longrightarrow> sd_chat_id (tr_doc r) = sd_chat_id source"
  by (auto simp: rebuild_thin_doc_def Let_def ok_or_Inr_iff)

section \<open>What a strip does\<close>

definition thin_tool :: "ToolPart \<Rightarrow> bool" where
  "thin_tool t \<longleftrightarrow> tp_diff t = None \<and> (tp_output t \<noteq> None \<longrightarrow> tp_output_ref t \<noteq> None)"

lemma strip_tool_thin: "thin_tool (fst (strip_tool ld chat t))"
  by (auto simp: strip_tool_def thin_tool_def Let_def split: option.split prod.split)

lemma strip_tool_thin_id: "thin_tool t \<Longrightarrow> strip_tool ld chat t = (t, None)"
  by (cases "tp_output_ref t"; cases "tp_output t") (auto simp: strip_tool_def thin_tool_def)

fun thin :: "MessagePart \<Rightarrow> bool" where
  "thin (MpTool t) \<longleftrightarrow> thin_tool t"
| "thin _ \<longleftrightarrow> True"

lemma strip_part_thin: "thin (fst (strip_part ld chat p))"
  using strip_tool_thin by (cases p) (auto split: prod.split, metis fst_conv)

lemma strip_part_thin_id: "thin p \<Longrightarrow> strip_part ld chat p = (p, None)"
  by (cases p) (simp_all add: strip_tool_thin_id)

lemma strip_entry_thin: "list_all thin (me_parts (fst (strip_entry ld chat e)))"
  by (simp add: strip_entry_def list_all_iff strip_part_thin)

lemma strip_entry_thin_id: "list_all thin (me_parts e) \<Longrightarrow> strip_entry ld chat e = (e, [])"
proof -
  assume thin: "list_all thin (me_parts e)"
  then have "map (fst \<circ> strip_part ld chat) (me_parts e) = me_parts e"
    by (intro map_idI) (simp add: list_all_iff strip_part_thin_id)
  moreover have "List.map_filter (snd \<circ> strip_part ld chat) (me_parts e) = []"
    using thin by (auto simp: map_filter_def list_all_iff strip_part_thin_id filter_empty_conv)
  ultimately show ?thesis by (simp add: strip_entry_def)
qed

lemma thin_read_back: "thin p \<Longrightarrow> thin (read_back p)"
  by (cases p) (auto simp: thin_tool_def image_part_def)

text \<open>What the payload of a strip owes.\<close>

definition carries :: "SidecarPayload list \<Rightarrow> ToolPart \<Rightarrow> bool" where
  "carries owed t \<longleftrightarrow>
     (\<forall>full. tp_output t = Some full \<and> tp_output_ref t = None \<and> trim full \<noteq> [] \<longrightarrow>
        (\<exists>p \<in> set owed. sp_part_id p = tp_id t \<and> sp_output p = Some full)) \<and>
     (\<forall>full. tp_diff t = Some full \<longrightarrow>
        (\<exists>p \<in> set owed. sp_part_id p = tp_id t \<and> sp_diff p = Some full))"

lemma strip_tool_carries:
  "snd (strip_tool ld chat t) = None \<Longrightarrow> carries [] t"
  "snd (strip_tool ld chat t) = Some p \<Longrightarrow> carries [p] t"
  by (cases "tp_output_ref t"; cases "tp_output t"; cases "tp_diff t";
      auto simp: strip_tool_def carries_def Let_def split: if_splits)+

lemma carries_mono: "carries owed t \<Longrightarrow> set owed \<subseteq> set owed' \<Longrightarrow> carries owed' t"
  unfolding carries_def by blast

lemma strip_entry_carries:
  assumes "MpTool t \<in> set (me_parts e)"
  shows "carries (snd (strip_entry ld chat e)) t"
proof (cases "snd (strip_tool ld chat t)")
  case None
  then show ?thesis using carries_mono [OF strip_tool_carries(1) [OF None]] by simp
next
  case (Some p)
  then have "snd (strip_part ld chat (MpTool t)) = Some p" by (auto split: prod.split)
  then have "p \<in> set (snd (strip_entry ld chat e))"
    using assms by (force simp: strip_entry_def map_filter_def)
  then show ?thesis using carries_mono [OF strip_tool_carries(2) [OF Some]] by simp
qed

section \<open>Properties\<close>

text \<open>C12: nothing is lost when a document is rebuilt: the full text of every inline output that
  has no sidecar key yet and is not blank, and every inline diff, is among the payloads owed
  to the sidecar under the part's id.\<close>

theorem rebuild_loses_nothing:
  assumes "rebuild_thin_doc hx ld source = Inr r"
    "e \<in> set (read_entries hx (sd_messages source))" "MpTool t \<in> set (me_parts e)"
  shows "carries (tr_sidecar r) t"
proof -
  obtain chat where "tr_sidecar r =
      concat (map snd (map (strip_entry ld chat) (read_entries hx (sd_messages source))))"
    using assms(1) by (auto simp: rebuild_thin_doc_def ok_or_Inr_iff Let_def)
  with assms(2) have "set (snd (strip_entry ld chat e)) \<subseteq> set (tr_sidecar r)" by auto
  with strip_entry_carries [OF assms(3)] show ?thesis by (rule carries_mono)
qed

lemma read_pushed:
  "list_all (\<lambda>e. list_all storable (me_parts e) \<and> - (2 ^ 63) \<le> me_created_at e \<and> me_created_at e < 2 ^ 63) es
   \<Longrightarrow> read_entries hx (fold push_message es ms) = read_entries hx ms @ map read_back_entry es"
proof (induction es arbitrary: ms)
  case (Cons e es)
  then show ?case
    using entry_json_written [of e hx]
    by (simp add: read_entries_def push_message_def map_filter_def)
qed simp

text \<open>a rebuilt document is thin for good: rebuilding it again owes the sidecar nothing.\<close>

theorem rebuild_is_final:
  assumes "rebuild_thin_doc hx ld source = Inr r" "rebuild_thin_doc hx ld (tr_doc r) = Inr r'"
    "list_all (\<lambda>e. list_all storable (me_parts (fst (strip_entry ld (the (sd_chat_id source)) e))) \<and>
        - (2 ^ 63) \<le> me_created_at e \<and> me_created_at e < 2 ^ 63)
      (read_entries hx (sd_messages source))"
  shows "tr_sidecar r' = [] \<and> tr_entries r' = tr_entries r"
proof -
  obtain chat where chat: "sd_chat_id source = Some chat"
    and r: "sd_messages (tr_doc r) =
      fold push_message (map (fst \<circ> strip_entry ld chat) (read_entries hx (sd_messages source))) []"
      "tr_entries r = length (read_entries hx (sd_messages source))"
    using assms(1) by (auto simp: rebuild_thin_doc_def ok_or_Inr_iff Let_def comp_def)
  let ?es = "map (fst \<circ> strip_entry ld chat) (read_entries hx (sd_messages source))"
  have "list_all (\<lambda>e. list_all storable (me_parts e) \<and> - (2 ^ 63) \<le> me_created_at e \<and>
      me_created_at e < 2 ^ 63) ?es"
    using assms(3) chat by (auto simp: list_all_iff strip_entry_def)
  then have read: "read_entries hx (sd_messages (tr_doc r)) = map read_back_entry ?es"
    unfolding r(1) by (subst read_pushed) (simp_all add: read_entries_def map_filter_def)
  have "list_all thin (me_parts (read_back_entry e))" if "e \<in> set ?es" for e
  proof -
    have "list_all thin (me_parts e)" using that strip_entry_thin by auto
    then show ?thesis by (auto simp: read_back_entry_def list_all_iff thin_read_back)
  qed
  then have "snd (strip_entry ld c (read_back_entry e)) = []" if "e \<in> set ?es" for c e
    using that strip_entry_thin_id by (metis snd_conv)
  then have "concat (map snd (map (strip_entry ld c) (map read_back_entry ?es))) = []" for c
    by (auto simp: concat_eq_Nil_conv)
  then show ?thesis
    using assms(2) r(2)
    by (auto simp: rebuild_thin_doc_def ok_or_Inr_iff Let_def read [simplified] simp del: map_map)
qed

section \<open>A fat document\<close>

definition demo_tool :: ToolPart where
  "demo_tool = (new_tool ''p'' (Exec ''ls''))\<lparr>tp_output := Some ''out''\<rparr>"

definition demo_entry_fat :: SessionMessageEntry where
  "demo_entry_fat = \<lparr>me_id = ''m'', me_role = Assistant, me_parts = [MpTool demo_tool],
     me_created_at = 0, me_device_id = ''d'', me_status = None, me_continuation_of = None\<rparr>"

definition demo_fat :: "nat session_doc" where
  "demo_fat = \<lparr>sd_chat_id = Some ''c'', sd_epoch = 0, sd_usage = None, sd_orchestration = [],
     sd_messages = fold push_message [demo_entry_fat] [], sd_commands = []\<rparr>"

lemma demo_fat_read: "read_entries hx (sd_messages demo_fat) = [demo_entry_fat]"
proof -
  have "read_entries hx (sd_messages demo_fat) =
      read_entries hx [] @ map read_back_entry [demo_entry_fat]"
    unfolding demo_fat_def session_doc.select_convs
    by (rule read_pushed)
       (simp add: demo_entry_fat_def demo_tool_def new_tool_def call_storable_def call_input_def)
  also have "\<dots> = [demo_entry_fat]"
    by (simp add: read_entries_def map_filter_def read_back_entry_def demo_entry_fat_def
        demo_tool_def new_tool_def)
  finally show ?thesis .
qed

lemma demo_fat_rebuilds: "\<exists>r. rebuild_thin_doc hx ld demo_fat = Inr r"
  by (rule rebuild_ok) (simp add: demo_fat_def)

lemma rebuild_loses_nothing_witness:
  "\<exists>r. rebuild_thin_doc (\<lambda>_. []) (\<lambda>_ _. (0, 0)) demo_fat = Inr r \<and>
     (\<exists>p \<in> set (tr_sidecar r). sp_output p = Some ''out'')"
proof -
  obtain r where r: "rebuild_thin_doc (\<lambda>_. []) (\<lambda>_ _. (0, 0)) demo_fat = Inr r"
    using demo_fat_rebuilds by blast
  have "carries (tr_sidecar r) demo_tool"
    by (rule rebuild_loses_nothing [OF r, where e = demo_entry_fat])
       (simp_all add: demo_fat_read, simp add: demo_entry_fat_def)
  moreover have "trim ''out'' \<noteq> []" by code_simp
  ultimately show ?thesis using r by (auto simp: carries_def demo_tool_def new_tool_def)
qed

lemma rebuild_is_final_witness:
  "\<exists>r r'. rebuild_thin_doc (\<lambda>_. []) (\<lambda>_ _. (0, 0)) demo_fat = Inr r \<and>
     rebuild_thin_doc (\<lambda>_. []) (\<lambda>_ _. (0, 0)) (tr_doc r) = Inr r' \<and> tr_sidecar r' = []"
proof -
  obtain r where r: "rebuild_thin_doc (\<lambda>_. []) (\<lambda>_ _. (0, 0)) demo_fat = Inr r"
    using demo_fat_rebuilds by blast
  have "sd_chat_id (tr_doc r) = Some ''c''" using rebuild_chat [OF r] by (simp add: demo_fat_def)
  then obtain r' where r': "rebuild_thin_doc (\<lambda>_. []) (\<lambda>_ _. (0, 0)) (tr_doc r) = Inr r'"
    using rebuild_ok by blast
  have "tr_sidecar r' = [] \<and> tr_entries r' = tr_entries r"
    by (rule rebuild_is_final [OF r r'])
       (auto simp: demo_fat_read strip_entry_def demo_entry_fat_def demo_tool_def new_tool_def
         strip_tool_def call_storable_def call_input_def Let_def)
  with r r' show ?thesis by blast
qed

section \<open>The registers of a rebuilt document\<close>

lemma barrier_of_idem: "barrier_of (barrier_of b) = barrier_of b"
proof -
  have "barrier_doc (barrier_doc d) = barrier_doc d" for d
    by (simp add: barrier_doc_def)
  then show ?thesis
    by (cases "as_array b") (simp_all add: barrier_of_def as_array_def comp_def)
qed

text \<open>A rebuild carries the host's projection across: the fields of the publication a
  document holds are the fields its rebuild holds, and the token count and a non-zero window
  of the context usage are kept.\<close>

theorem rebuild_keeps_registers:
  assumes "rebuild_thin_doc hx ld source = Inr r" "written p (sd_orchestration source)"
    "pub_by owner p" "(-1, -1) < pub_stamp p" "sd_usage source = Some u" "cu_window u \<noteq> Some 0"
  shows "written p (sd_orchestration (tr_doc r)) \<and>
    cu_tokens (or_default_usage (sd_usage (tr_doc r))) = cu_tokens u \<and>
    cu_window (or_default_usage (sd_usage (tr_doc r))) = cu_window u"
proof -
  let ?m = "sd_orchestration source"
  define p' where "p' = p\<lparr>pb_barrier := barrier_of (pb_barrier p)\<rparr>"
  have r: "copy_orchestration ?m = Inr (sd_orchestration (tr_doc r))"
      "sd_usage (tr_doc r) = copy_usage (Some u)"
    using assms(1,5) by (auto simp: rebuild_thin_doc_def Let_def)
  have "copy_orchestration ?m = publish_orchestration (pb_owner p') (pb_epoch p') (pb_version p')
      (pb_batch p') (pb_barrier p') (pb_projection p') []"
    using assms(2,3)
    by (simp add: copy_orchestration_def written_def p'_def as_str_def as_i64_def pub_by_def
        str_or_empty_def Let_def)
  then have "publish_orchestration (pb_owner p') (pb_epoch p') (pb_version p')
      (pb_batch p') (pb_barrier p') (pb_projection p') [] = Inr (sd_orchestration (tr_doc r))"
    using r(1) by simp
  then have "sd_orchestration (tr_doc r) = publish p' []"
    by (simp add: publish_def)
  moreover have "pub_by owner p'" "pub_stamp p' = pub_stamp p"
    using assms(3) by (simp_all add: p'_def pub_by_def pub_stamp_def)
  moreover have "open_for owner []" "fence [] = (-1, -1)"
    by (simp_all add: open_for_def owner_of_def as_str_def fence_def as_i64_def)
  ultimately have "written p' (sd_orchestration (tr_doc r))"
    using publish_newer assms(4) by metis
  then have "written p (sd_orchestration (tr_doc r))"
    by (simp add: written_def p'_def barrier_of_idem)
  moreover have "cu_tokens (or_default_usage (copy_usage (Some u))) = cu_tokens u \<and>
      cu_window (or_default_usage (copy_usage (Some u))) = cu_window u"
    using assms(6)
    by (cases "cu_tokens u"; cases "cu_window u")
       (auto simp: copy_usage_def update_context_usage_def default_usage_def or_else_def Let_def
         or_default_usage_def)
  ultimately show ?thesis by (simp only: r(2) simp_thms)
qed

text \<open>A rebuild loses the rest of the context usage: the compaction threshold and the
  session's token totals are not carried over, because only tokens and window are copied.\<close>

theorem rebuild_drops_usage_totals:
  "\<exists>source :: nat session_doc. \<exists>r. rebuild_thin_doc hx ld source = Inr r \<and>
     (\<exists>u u'. sd_usage source = Some u \<and> sd_usage (tr_doc r) = Some u' \<and>
        cu_session u \<noteq> None \<and> cu_compact_at u \<noteq> None \<and>
        cu_session u' = None \<and> cu_compact_at u' = None)"
proof -
  let ?u = "\<lparr>cu_tokens = Some 7, cu_window = Some 9, cu_compact_at = Some 8,
    cu_session = Some \<lparr>st_input = 1, st_output = 2, st_cache_read = 3\<rparr>\<rparr>"
  let ?s = "demo_fat\<lparr>sd_usage := Some ?u\<rparr>"
  obtain r where r: "rebuild_thin_doc hx ld ?s = Inr r"
    using rebuild_ok [of ?s "''c''"] by (auto simp: demo_fat_def)
  then have "sd_usage (tr_doc r) = copy_usage (Some ?u)"
    by (auto simp: rebuild_thin_doc_def Let_def)
  then show ?thesis using r
    by (intro exI [of _ ?s] exI [of _ r])
       (simp add: copy_usage_def update_context_usage_def default_usage_def or_else_def Let_def)
qed

definition demo_published :: "nat session_doc" where
  "demo_published = demo_fat\<lparr>sd_usage := Some (default_usage\<lparr>cu_tokens := Some 7\<rparr>),
     sd_orchestration := publish (sample_pub 2 3) []\<rparr>"

theorem rebuild_keeps_registers_witness:
  "\<exists>r. rebuild_thin_doc (\<lambda>_. []) (\<lambda>_ _. (0, 0)) demo_published = Inr r \<and>
     written (sample_pub 2 3) (sd_orchestration (tr_doc r))"
proof -
  have pub: "pub_by ''h'' (sample_pub 2 3)" "open_for ''h'' []" "fence [] < pub_stamp (sample_pub 2 3)"
    by (simp_all add: pub_by_def sample_pub_def open_for_def owner_of_def as_str_def fence_def
        as_i64_def pub_stamp_def less_prod_def)
  obtain r where r: "rebuild_thin_doc (\<lambda>_. []) (\<lambda>_ _. (0, 0)) demo_published = Inr r"
    using rebuild_ok [of demo_published "''c''"] by (auto simp: demo_published_def demo_fat_def)
  have "written (sample_pub 2 3) (sd_orchestration demo_published)"
    using publish_newer [OF pub] by (simp add: demo_published_def)
  then have "written (sample_pub 2 3) (sd_orchestration (tr_doc r))"
    using rebuild_keeps_registers [OF r, of "sample_pub 2 3" "''h''" "default_usage\<lparr>cu_tokens := Some 7\<rparr>"]
      pub by (simp add: demo_published_def default_usage_def pub_stamp_def sample_pub_def less_prod_def)
  then show ?thesis using r by blast
qed

end
