(* ===== verification/Queue_Doc.thy ===== *)
theory Queue_Doc
  imports Json "HOL-Library.Multiset"
begin

text \<open>
  \<open>crates/doc/src/queue.rs\<close>: the pending-message queue of a session document. A row is a map
  from field names to values; the movable list is the list of its rows (its concurrent
  merge is the CRDT's). \<open>read_queue\<close> is both the reader and the abstraction function: on
  well-formed queues every operation refines its counterpart on lists of messages.
\<close>

section \<open>Messages\<close>

datatype QueueDeliveryGate =
  Editing string string string int int string
| ReviewRequired string string int string

record QueuedMessage =
  qm_id :: string
  qm_text :: string
  qm_attachments :: "string list"
  qm_hold_for_turn_end :: bool
  qm_issued_by :: string
  qm_issued_at :: int
  qm_edited_at :: "int option"
  qm_delivery_gate :: "QueueDeliveryGate option"

definition queued_new :: "string \<Rightarrow> string \<Rightarrow> string \<Rightarrow> QueuedMessage" where
  "queued_new i text by = \<lparr>qm_id = i, qm_text = text, qm_attachments = [],
     qm_hold_for_turn_end = False, qm_issued_by = by, qm_issued_at = 0, qm_edited_at = None,
     qm_delivery_gate = None\<rparr>"

fun enc_gate :: "QueueDeliveryGate \<Rightarrow> json" where
  "enc_gate (Editing l d n a e h) = JObj [(''kind'', JStr ''editing''), (''leaseId'', JStr l),
     (''ownerDeviceId'', JStr d), (''ownerInstanceId'', JStr n), (''acquiredAtMs'', JInt a),
     (''expiresAtMs'', JInt e), (''baseTextHash'', JStr h)]"
| "enc_gate (ReviewRequired l d t h) = JObj [(''kind'', JStr ''reviewRequired''),
     (''previousLeaseId'', JStr l), (''ownerDeviceId'', JStr d), (''sinceMs'', JInt t),
     (''baseTextHash'', JStr h)]"

definition dec_gate :: "json \<Rightarrow> QueueDeliveryGate option" where
  "dec_gate v = do {
     k \<leftarrow> req as_str ''kind'' v;
     if k = ''editing'' then do {
       l \<leftarrow> req as_str ''leaseId'' v;
       d \<leftarrow> req as_str ''ownerDeviceId'' v;
       n \<leftarrow> req as_str ''ownerInstanceId'' v;
       a \<leftarrow> req as_i64 ''acquiredAtMs'' v;
       e \<leftarrow> req as_i64 ''expiresAtMs'' v;
       h \<leftarrow> req as_str ''baseTextHash'' v;
       Some (Editing l d n a e h)}
     else if k = ''reviewRequired'' then do {
       l \<leftarrow> req as_str ''previousLeaseId'' v;
       d \<leftarrow> req as_str ''ownerDeviceId'' v;
       t \<leftarrow> req as_i64 ''sinceMs'' v;
       h \<leftarrow> req as_str ''baseTextHash'' v;
       Some (ReviewRequired l d t h)}
     else None}"

definition i64 :: "int \<Rightarrow> bool" where
  "i64 i \<longleftrightarrow> - (2 ^ 63) \<le> i \<and> i < 2 ^ 63"

fun gate_ok :: "QueueDeliveryGate \<Rightarrow> bool" where
  "gate_ok (Editing _ _ _ a e _) \<longleftrightarrow> i64 a \<and> i64 e"
| "gate_ok (ReviewRequired _ _ t _) \<longleftrightarrow> i64 t"

interpretation gate_codec: json_codec enc_gate dec_gate gate_ok
proof
  fix g assume "gate_ok g"
  then show "dec_gate (enc_gate g) = Some g"
    by (cases g) (simp_all add: dec_gate_def wire_simps as_i64_def i64_def)
qed (case_tac x; simp)

section \<open>Rows\<close>

type_synonym row = "(string \<times> json) list"

type_synonym queue = "row list"

definition member_if :: "bool \<Rightarrow> string \<Rightarrow> json \<Rightarrow> row" where
  "member_if b k v = (if b then [(k, v)] else [])"

lemma map_of_member_if:
  "map_of (member_if b k v @ r) k' = (if b \<and> k' = k then Some v else map_of r k')"
  by (simp add: member_if_def)

definition write_queued_map :: "QueuedMessage \<Rightarrow> row" where
  "write_queued_map m =
     [(''id'', JStr (qm_id m)), (''text'', JStr (qm_text m)), (''issuedBy'', JStr (qm_issued_by m)),
      (''issuedAt'', JInt (qm_issued_at m))] @
     member_if (qm_attachments m \<noteq> []) ''attachments'' (enc_strs (qm_attachments m)) @
     member_if (qm_hold_for_turn_end m) ''holdForTurnEnd'' (JBool True) @
     member_opt ''editedAt'' JInt (qm_edited_at m) @
     member_opt ''deliveryGate'' enc_gate (qm_delivery_gate m)"

definition unreadable_gate :: QueueDeliveryGate where
  "unreadable_gate = ReviewRequired [] [] 0 []"

definition read_gate :: "json option \<Rightarrow> QueueDeliveryGate option" where
  "read_gate v = (case v of None \<Rightarrow> None
     | Some g \<Rightarrow> if g = JNull then None
         else Some (case dec_gate g of Some x \<Rightarrow> x | None \<Rightarrow> unreadable_gate))"

definition or_default :: "'a \<Rightarrow> 'a option \<Rightarrow> 'a" where
  "or_default d x = (case x of None \<Rightarrow> d | Some v \<Rightarrow> v)"

lemma or_default_simps [simp]: "or_default d None = d" "or_default d (Some v) = v"
  by (simp_all add: or_default_def)

definition queued_from_row :: "row \<Rightarrow> QueuedMessage option" where
  "queued_from_row r = do {
     i \<leftarrow> Option.bind (map_of r ''id'') as_str;
     t \<leftarrow> Option.bind (map_of r ''text'') as_str;
     if trim i = [] \<or> trim t = [] then None
     else Some \<lparr>qm_id = trim i, qm_text = t,
       qm_attachments = or_default [] (Option.bind (map_of r ''attachments'') (dec_vec as_str)),
       qm_hold_for_turn_end = or_default False (Option.bind (map_of r ''holdForTurnEnd'') as_bool),
       qm_issued_by = or_default [] (Option.bind (map_of r ''issuedBy'') as_str),
       qm_issued_at = or_default 0 (Option.bind (map_of r ''issuedAt'') as_i64),
       qm_edited_at = Option.bind (map_of r ''editedAt'') as_i64,
       qm_delivery_gate = read_gate (map_of r ''deliveryGate'')\<rparr>}"

definition read_queue :: "queue \<Rightarrow> QueuedMessage list" where
  "read_queue q = List.map_filter queued_from_row q"

definition row_has :: "string \<Rightarrow> row \<Rightarrow> bool" where
  "row_has i r \<longleftrightarrow> map_of r ''id'' = Some (JStr i)"

fun index_of :: "queue \<Rightarrow> string \<Rightarrow> nat option" where
  "index_of [] i = None"
| "index_of (r # rs) i = (if row_has i r then Some 0 else map_option Suc (index_of rs i))"

section \<open>Operations\<close>

definition delete_at :: "nat \<Rightarrow> 'a list \<Rightarrow> 'a list" where
  "delete_at i xs = take i xs @ drop (Suc i) xs"

definition put_at :: "nat \<Rightarrow> 'a \<Rightarrow> 'a list \<Rightarrow> 'a list" where
  "put_at i x xs = take i xs @ x # drop i xs"

definition check_item :: "QueuedMessage \<Rightarrow> string + unit" where
  "check_item m =
     (if trim (qm_id m) = [] then Inl ''queued message id required''
      else if trim (qm_text m) = [] then Inl ''queued message text required''
      else Inr ())"

definition push_queued :: "QueuedMessage \<Rightarrow> queue \<Rightarrow> string + queue" where
  "push_queued m q = rbind (check_item m) (\<lambda>_. Inr (q @ [write_queued_map m]))"

definition insert_queued :: "nat \<Rightarrow> QueuedMessage \<Rightarrow> queue \<Rightarrow> string + queue" where
  "insert_queued index m q =
     rbind (check_item m) (\<lambda>_. Inr (put_at (min index (length q)) (write_queued_map m) q))"

definition remove_queued :: "string \<Rightarrow> queue \<Rightarrow> queue \<times> bool" where
  "remove_queued i q =
     (case index_of q i of None \<Rightarrow> (q, False) | Some n \<Rightarrow> (delete_at n q, True))"

definition set_queued_text :: "string \<Rightarrow> string \<Rightarrow> int \<Rightarrow> queue \<Rightarrow> queue \<times> bool" where
  "set_queued_text i text now q =
     (if trim text = [] then remove_queued i q
      else case index_of q i of
          None \<Rightarrow> (q, False)
        | Some n \<Rightarrow>
            (if map_of (q ! n) ''text'' = Some (JStr text) then (q, False)
             else (q[n := oinsert ''editedAt'' (JInt now) (oinsert ''text'' (JStr text) (q ! n))], True)))"

definition set_queued_delivery_gate ::
  "string \<Rightarrow> QueueDeliveryGate option \<Rightarrow> queue \<Rightarrow> queue \<times> bool" where
  "set_queued_delivery_gate i gate q =
     (case index_of q i of
        None \<Rightarrow> (q, False)
      | Some n \<Rightarrow>
          (q[n := (case gate of Some g \<Rightarrow> oinsert ''deliveryGate'' (enc_gate g) (q ! n)
             | None \<Rightarrow> oremove ''deliveryGate'' (q ! n))], True))"

definition finish_queued_edit_with_attachments ::
  "string \<Rightarrow> string option \<Rightarrow> string list option \<Rightarrow> int \<Rightarrow> queue \<Rightarrow> queue \<times> bool" where
  "finish_queued_edit_with_attachments i replacement attachments now q =
     (if (case replacement of Some t \<Rightarrow> trim t = [] | None \<Rightarrow> False) then remove_queued i q
      else case index_of q i of
          None \<Rightarrow> (q, False)
        | Some n \<Rightarrow>
            (let r = q ! n;
                 r1 = (case replacement of
                    None \<Rightarrow> r
                  | Some t \<Rightarrow> (if map_of r ''text'' = Some (JStr t) then r
                      else oinsert ''editedAt'' (JInt now) (oinsert ''text'' (JStr t) r)));
                 r2 = (case attachments of
                    None \<Rightarrow> r1
                  | Some xs \<Rightarrow> oinsert ''editedAt'' (JInt now) (oinsert ''attachments'' (enc_strs xs) r1))
             in (q[n := oremove ''deliveryGate'' r2], True)))"

definition move_queued :: "string \<Rightarrow> nat \<Rightarrow> queue \<Rightarrow> queue \<times> bool" where
  "move_queued i to q =
     (case index_of q i of
        None \<Rightarrow> (q, False)
      | Some from \<Rightarrow>
          (let dest = min to (length q - 1) in
           if from = dest then (q, False)
           else (put_at dest (q ! from) (delete_at from q), True)))"

definition take_queued :: "string \<Rightarrow> queue \<Rightarrow> queue \<times> QueuedMessage option" where
  "take_queued i q =
     (case index_of q i of
        None \<Rightarrow> (q, None)
      | Some n \<Rightarrow>
          (let item = List.find (\<lambda>m. qm_id m = i) (read_queue q) in
           if (case item of Some m \<Rightarrow> qm_delivery_gate m \<noteq> None | None \<Rightarrow> False) then (q, None)
           else (delete_at n q, item)))"

definition take_queue_head :: "queue \<Rightarrow> queue \<times> QueuedMessage option" where
  "take_queue_head q =
     (case read_queue q of [] \<Rightarrow> (q, None) | m # _ \<Rightarrow> take_queued (qm_id m) q)"

section \<open>Well-formed queues\<close>

text \<open>Every row reads, under the id it is stored with, and ids are unique.\<close>

definition wf_row :: "row \<Rightarrow> bool" where
  "wf_row r \<longleftrightarrow>
     (case queued_from_row r of Some m \<Rightarrow> row_has (qm_id m) r | None \<Rightarrow> False)"

definition message :: "row \<Rightarrow> QueuedMessage" where
  "message r = the (queued_from_row r)"

definition wf_queue :: "queue \<Rightarrow> bool" where
  "wf_queue q \<longleftrightarrow> list_all wf_row q \<and> distinct (map (qm_id \<circ> message) q)"

text \<open>A message a client may queue.\<close>

definition sendable :: "QueuedMessage \<Rightarrow> bool" where
  "sendable m \<longleftrightarrow> qm_id m \<noteq> [] \<and> trim (qm_id m) = qm_id m \<and> trim (qm_text m) \<noteq> [] \<and>
     i64 (qm_issued_at m) \<and> (case qm_edited_at m of None \<Rightarrow> True | Some t \<Rightarrow> i64 t) \<and>
     (case qm_delivery_gate m of None \<Rightarrow> True | Some g \<Rightarrow> gate_ok g)"

lemma wf_row_read: "wf_row r \<Longrightarrow> queued_from_row r = Some (message r)"
  by (auto simp: wf_row_def message_def split: option.splits)

lemma wf_row_id: "wf_row r \<Longrightarrow> row_has i r \<longleftrightarrow> qm_id (message r) = i"
  by (auto simp: wf_row_def message_def row_has_def split: option.splits)

lemma read_queue_wf: "list_all wf_row q \<Longrightarrow> read_queue q = map message q"
  by (induction q) (simp_all add: read_queue_def map_filter_def wf_row_read)

lemma index_of_wf:
  assumes "list_all wf_row q"
  shows "index_of q i = None \<longleftrightarrow> i \<notin> set (map (qm_id \<circ> message) q)"
    "index_of q i = Some n \<Longrightarrow> n < length q \<and> qm_id (message (q ! n)) = i"
proof -
  show "index_of q i = None \<longleftrightarrow> i \<notin> set (map (qm_id \<circ> message) q)"
    using assms by (induction q) (auto simp: wf_row_id)
  show "index_of q i = Some n \<Longrightarrow> n < length q \<and> qm_id (message (q ! n)) = i"
    using assms by (induction q arbitrary: n) (auto simp: wf_row_id split: if_splits)
qed

lemma written_row:
  assumes "sendable m"
  shows "queued_from_row (write_queued_map m) = Some m" "wf_row (write_queued_map m)"
    "message (write_queued_map m) = m"
proof -
  have gate: "read_gate (map_option enc_gate (qm_delivery_gate m)) = qm_delivery_gate m"
    using assms
    by (cases "qm_delivery_gate m")
       (auto simp: read_gate_def sendable_def gate_codec.dec_enc gate_codec.enc_not_null)
  let ?r = "write_queued_map m"
  have row: "map_of ?r ''id'' = Some (JStr (qm_id m))" "map_of ?r ''text'' = Some (JStr (qm_text m))"
      "map_of ?r ''issuedBy'' = Some (JStr (qm_issued_by m))"
      "map_of ?r ''issuedAt'' = Some (JInt (qm_issued_at m))"
      "map_of ?r ''attachments'' =
         (if qm_attachments m \<noteq> [] then Some (enc_strs (qm_attachments m)) else None)"
      "map_of ?r ''holdForTurnEnd'' = (if qm_hold_for_turn_end m then Some (JBool True) else None)"
      "map_of ?r ''editedAt'' = map_option JInt (qm_edited_at m)"
      "map_of ?r ''deliveryGate'' = map_option enc_gate (qm_delivery_gate m)"
    unfolding write_queued_map_def append_Cons append_Nil
    by (simp_all add: map_of_member_if map_option_case del: map_of_append split: option.split)
  show read: "queued_from_row ?r = Some m"
    using assms gate
    by (cases "qm_edited_at m")
       (simp_all add: queued_from_row_def row as_str_def strs_codec.dec_enc as_bool_def as_i64_def
         sendable_def i64_def)
  then show "wf_row ?r" "message ?r = m"
    by (simp_all add: wf_row_def message_def row_has_def row)
qed


lemma as_str_Some [simp]: "as_str v = Some t \<longleftrightarrow> v = JStr t"
  by (cases v) (auto simp: as_str_def)

lemma i64_as_i64: "as_i64 v = Some n \<Longrightarrow> i64 n"
  by (cases v) (simp_all add: as_i64_def i64_def split: if_splits)

lemma queued_from_rowD:
  assumes "queued_from_row r = Some m"
  shows "\<exists>i. map_of r ''id'' = Some (JStr i) \<and> qm_id m = trim i" "qm_id m \<noteq> []"
    "map_of r ''text'' = Some (JStr (qm_text m))" "trim (qm_text m) \<noteq> []"
    "qm_attachments m = or_default [] (Option.bind (map_of r ''attachments'') (dec_vec as_str))"
    "qm_hold_for_turn_end m = or_default False (Option.bind (map_of r ''holdForTurnEnd'') as_bool)"
    "qm_issued_by m = or_default [] (Option.bind (map_of r ''issuedBy'') as_str)"
    "qm_issued_at m = or_default 0 (Option.bind (map_of r ''issuedAt'') as_i64)"
    "qm_edited_at m = Option.bind (map_of r ''editedAt'') as_i64"
    "qm_delivery_gate m = read_gate (map_of r ''deliveryGate'')"
proof -
  obtain a i b t where it: "map_of r ''id'' = Some a" "as_str a = Some i"
      "map_of r ''text'' = Some b" "as_str b = Some t"
    using assms unfolding queued_from_row_def by (fastforce simp: Option.bind_eq_Some_conv)
  then have look: "map_of r ''id'' = Some (JStr i)" "map_of r ''text'' = Some (JStr t)"
    by simp_all
  let ?m = "\<lparr>qm_id = trim i, qm_text = t,
       qm_attachments = or_default [] (Option.bind (map_of r ''attachments'') (dec_vec as_str)),
       qm_hold_for_turn_end = or_default False (Option.bind (map_of r ''holdForTurnEnd'') as_bool),
       qm_issued_by = or_default [] (Option.bind (map_of r ''issuedBy'') as_str),
       qm_issued_at = or_default 0 (Option.bind (map_of r ''issuedAt'') as_i64),
       qm_edited_at = Option.bind (map_of r ''editedAt'') as_i64,
       qm_delivery_gate = read_gate (map_of r ''deliveryGate'')\<rparr>"
  have "queued_from_row r = (if trim i = [] \<or> trim t = [] then None else Some ?m)"
    unfolding queued_from_row_def look Option.bind.simps(2) wire_simps by (rule refl)
  with assms have "trim i \<noteq> [] \<and> trim t \<noteq> [] \<and> m = ?m"
    by (cases "trim i = [] \<or> trim t = []") simp_all
  then show "\<exists>i. map_of r ''id'' = Some (JStr i) \<and> qm_id m = trim i" "qm_id m \<noteq> []"
      "map_of r ''text'' = Some (JStr (qm_text m))" "trim (qm_text m) \<noteq> []"
      "qm_attachments m = or_default [] (Option.bind (map_of r ''attachments'') (dec_vec as_str))"
      "qm_hold_for_turn_end m = or_default False (Option.bind (map_of r ''holdForTurnEnd'') as_bool)"
      "qm_issued_by m = or_default [] (Option.bind (map_of r ''issuedBy'') as_str)"
      "qm_issued_at m = or_default 0 (Option.bind (map_of r ''issuedAt'') as_i64)"
      "qm_edited_at m = Option.bind (map_of r ''editedAt'') as_i64"
      "qm_delivery_gate m = read_gate (map_of r ''deliveryGate'')"
    using look by simp_all
qed

section \<open>Rows under the field operations\<close>

lemma row_parts:
  assumes "wf_row r"
  shows "map_of r ''id'' = Some (JStr (qm_id (message r)))" "trim (qm_id (message r)) = qm_id (message r)"
    "qm_id (message r) \<noteq> []"
    "map_of r ''text'' = Some (JStr (qm_text (message r)))" "trim (qm_text (message r)) \<noteq> []"
    "qm_attachments (message r) = or_default [] (Option.bind (map_of r ''attachments'') (dec_vec as_str))"
    "qm_hold_for_turn_end (message r) =
       or_default False (Option.bind (map_of r ''holdForTurnEnd'') as_bool)"
    "qm_issued_by (message r) = or_default [] (Option.bind (map_of r ''issuedBy'') as_str)"
    "qm_issued_at (message r) = or_default 0 (Option.bind (map_of r ''issuedAt'') as_i64)"
    "qm_edited_at (message r) = Option.bind (map_of r ''editedAt'') as_i64"
    "qm_delivery_gate (message r) = read_gate (map_of r ''deliveryGate'')"
proof -
  note q = wf_row_read [OF assms]
  have "row_has (qm_id (message r)) r" using assms wf_row_id by blast
  then show i: "map_of r ''id'' = Some (JStr (qm_id (message r)))" by (simp add: row_has_def)
  show "trim (qm_id (message r)) = qm_id (message r)"
    using queued_from_rowD(1) [OF q] by auto
qed (rule queued_from_rowD [OF wf_row_read [OF assms]])+

lemma row_field:
  "wf_row r \<Longrightarrow> map_of r ''text'' = Some (JStr t) \<longleftrightarrow> qm_text (message r) = t"
  by (simp add: row_parts(4))

text \<open>What reads as a message can be queued again.\<close>

lemma message_sendable:
  assumes "wf_row r" "\<And>g. qm_delivery_gate (message r) = Some g \<Longrightarrow> gate_ok g"
  shows "sendable (message r)"
proof -
  have bind: "Option.bind x as_i64 = Some n \<Longrightarrow> i64 n" for x n
    by (cases x) (simp_all add: i64_as_i64)
  have "i64 0" by (simp add: i64_def)
  then have "i64 (or_default 0 (Option.bind x as_i64))" for x
    using bind [of x] by (cases "Option.bind x as_i64") simp_all
  then have "i64 (qm_issued_at (message r))" by (simp add: row_parts(9) [OF assms(1)])
  moreover have "case Option.bind x as_i64 of None \<Rightarrow> True | Some t \<Rightarrow> i64 t" for x
    using bind [of x] by (cases "Option.bind x as_i64") simp_all
  then have "case qm_edited_at (message r) of None \<Rightarrow> True | Some t \<Rightarrow> i64 t"
    by (simp add: row_parts(10) [OF assms(1)])
  ultimately show ?thesis
    using row_parts(2,3,5) [OF assms(1)] assms(2) by (simp add: sendable_def split: option.split)
qed

text \<open>A row that answers the lookups of a message reads as that message.\<close>

lemma row_reads:
  assumes "map_of r ''id'' = Some (JStr (qm_id m))" "trim (qm_id m) = qm_id m" "qm_id m \<noteq> []"
    "map_of r ''text'' = Some (JStr (qm_text m))" "trim (qm_text m) \<noteq> []"
    "or_default [] (Option.bind (map_of r ''attachments'') (dec_vec as_str)) = qm_attachments m"
    "or_default False (Option.bind (map_of r ''holdForTurnEnd'') as_bool) = qm_hold_for_turn_end m"
    "or_default [] (Option.bind (map_of r ''issuedBy'') as_str) = qm_issued_by m"
    "or_default 0 (Option.bind (map_of r ''issuedAt'') as_i64) = qm_issued_at m"
    "Option.bind (map_of r ''editedAt'') as_i64 = qm_edited_at m"
    "read_gate (map_of r ''deliveryGate'') = qm_delivery_gate m"
  shows "wf_row r \<and> message r = m"
proof -
  have "queued_from_row r = Some m"
    by (simp add: queued_from_row_def assms as_str_def)
  then show ?thesis by (simp add: wf_row_def message_def row_has_def assms(1))
qed

lemma retyped_row:
  assumes "wf_row r" "trim t \<noteq> []" "i64 now"
  shows "wf_row (oinsert ''editedAt'' (JInt now) (oinsert ''text'' (JStr t) r)) \<and>
    message (oinsert ''editedAt'' (JInt now) (oinsert ''text'' (JStr t) r)) =
      message r\<lparr>qm_text := t, qm_edited_at := Some now\<rparr>"
  using row_parts [OF assms(1)] assms(2,3)
  by (intro row_reads) (simp_all add: as_i64_def i64_def)

lemma reattached_row:
  assumes "wf_row r" "i64 now"
  shows "wf_row (oinsert ''editedAt'' (JInt now) (oinsert ''attachments'' (enc_strs xs) r)) \<and>
    message (oinsert ''editedAt'' (JInt now) (oinsert ''attachments'' (enc_strs xs) r)) =
      message r\<lparr>qm_attachments := xs, qm_edited_at := Some now\<rparr>"
  using row_parts [OF assms(1)] assms(2)
  by (intro row_reads) (simp_all add: as_i64_def i64_def strs_codec.dec_enc)

lemma gated_row:
  assumes "wf_row r" "gate_ok g"
  shows "wf_row (oinsert ''deliveryGate'' (enc_gate g) r) \<and>
    message (oinsert ''deliveryGate'' (enc_gate g) r) = message r\<lparr>qm_delivery_gate := Some g\<rparr>"
  using row_parts [OF assms(1)] assms(2)
  by (intro row_reads) (simp_all add: read_gate_def gate_codec.dec_enc gate_codec.enc_not_null)

lemma ungated_row:
  assumes "wf_row r"
  shows "wf_row (oremove ''deliveryGate'' r) \<and>
    message (oremove ''deliveryGate'' r) = message r\<lparr>qm_delivery_gate := None\<rparr>"
  using row_parts [OF assms(1)]
  by (intro row_reads) (simp_all add: read_gate_def)

section \<open>The list a queue stands for\<close>

datatype queue_op =
  Push QueuedMessage
| Insert nat QueuedMessage
| Remove string
| Retype string string int
| Gate string "QueueDeliveryGate option"
| Finish string "string option" "string list option" int
| Move string nat
| Take string
| Take_Head

text \<open>One operation on the document, with the messages it hands to the host.\<close>

fun exec_op :: "queue_op \<Rightarrow> queue \<Rightarrow> queue \<times> QueuedMessage list" where
  "exec_op (Push m) q = (case push_queued m q of Inl _ \<Rightarrow> (q, []) | Inr q' \<Rightarrow> (q', []))"
| "exec_op (Insert n m) q = (case insert_queued n m q of Inl _ \<Rightarrow> (q, []) | Inr q' \<Rightarrow> (q', []))"
| "exec_op (Remove i) q = (fst (remove_queued i q), [])"
| "exec_op (Retype i t now) q = (fst (set_queued_text i t now q), [])"
| "exec_op (Gate i g) q = (fst (set_queued_delivery_gate i g q), [])"
| "exec_op (Finish i t a now) q = (fst (finish_queued_edit_with_attachments i t a now q), [])"
| "exec_op (Move i n) q = (fst (move_queued i n q), [])"
| "exec_op (Take i) q = (fst (take_queued i q), case snd (take_queued i q) of None \<Rightarrow> [] | Some m \<Rightarrow> [m])"
| "exec_op Take_Head q = (fst (take_queue_head q),
     case snd (take_queue_head q) of None \<Rightarrow> [] | Some m \<Rightarrow> [m])"

text \<open>The same operations on a list of messages with distinct ids.\<close>

definition edit_msg :: "string \<Rightarrow> (QueuedMessage \<Rightarrow> QueuedMessage) \<Rightarrow> QueuedMessage list \<Rightarrow>
    QueuedMessage list" where
  "edit_msg i f ms = map (\<lambda>m. if qm_id m = i then f m else m) ms"

definition drop_msg :: "string \<Rightarrow> QueuedMessage list \<Rightarrow> QueuedMessage list" where
  "drop_msg i ms = filter (\<lambda>m. qm_id m \<noteq> i) ms"

definition find_msg :: "string \<Rightarrow> QueuedMessage list \<Rightarrow> QueuedMessage option" where
  "find_msg i ms = List.find (\<lambda>m. qm_id m = i) ms"

definition retype :: "string \<Rightarrow> int \<Rightarrow> QueuedMessage \<Rightarrow> QueuedMessage" where
  "retype t now m = (if qm_text m = t then m else m\<lparr>qm_text := t, qm_edited_at := Some now\<rparr>)"

definition retype_opt :: "string option \<Rightarrow> int \<Rightarrow> QueuedMessage \<Rightarrow> QueuedMessage" where
  "retype_opt t now m = (case t of None \<Rightarrow> m | Some t \<Rightarrow> retype t now m)"

definition reattach :: "string list option \<Rightarrow> int \<Rightarrow> QueuedMessage \<Rightarrow> QueuedMessage" where
  "reattach a now m =
     (case a of None \<Rightarrow> m | Some xs \<Rightarrow> m\<lparr>qm_attachments := xs, qm_edited_at := Some now\<rparr>)"

definition take_msg :: "string \<Rightarrow> QueuedMessage list \<Rightarrow> QueuedMessage list \<times> QueuedMessage list" where
  "take_msg i ms = (case find_msg i ms of
       None \<Rightarrow> (ms, [])
     | Some m \<Rightarrow> if qm_delivery_gate m = None then (drop_msg i ms, [m]) else (ms, []))"

fun spec_op :: "queue_op \<Rightarrow> QueuedMessage list \<Rightarrow> QueuedMessage list \<times> QueuedMessage list" where
  "spec_op (Push m) ms = (ms @ [m], [])"
| "spec_op (Insert n m) ms = (put_at (min n (length ms)) m ms, [])"
| "spec_op (Remove i) ms = (drop_msg i ms, [])"
| "spec_op (Retype i t now) ms =
     (if trim t = [] then drop_msg i ms else edit_msg i (retype t now) ms, [])"
| "spec_op (Gate i g) ms = (edit_msg i (\<lambda>m. m\<lparr>qm_delivery_gate := g\<rparr>) ms, [])"
| "spec_op (Finish i t a now) ms =
     (if (case t of Some t \<Rightarrow> trim t = [] | None \<Rightarrow> False) then drop_msg i ms
      else edit_msg i (\<lambda>m. (reattach a now (retype_opt t now m))\<lparr>qm_delivery_gate := None\<rparr>) ms, [])"
| "spec_op (Move i n) ms = (case find_msg i ms of None \<Rightarrow> ms
     | Some m \<Rightarrow> put_at (min n (length ms - 1)) m (drop_msg i ms), [])"
| "spec_op (Take i) ms = take_msg i ms"
| "spec_op Take_Head ms = (case ms of [] \<Rightarrow> (ms, []) | m # _ \<Rightarrow> take_msg (qm_id m) ms)"

text \<open>What a caller passes: a fresh sendable message, a 64-bit clock, a gate in range.\<close>

fun op_ok :: "queue_op \<Rightarrow> QueuedMessage list \<Rightarrow> bool" where
  "op_ok (Push m) ms \<longleftrightarrow> sendable m \<and> qm_id m \<notin> qm_id ` set ms"
| "op_ok (Insert _ m) ms \<longleftrightarrow> sendable m \<and> qm_id m \<notin> qm_id ` set ms"
| "op_ok (Retype _ _ now) ms \<longleftrightarrow> i64 now"
| "op_ok (Gate _ g) ms \<longleftrightarrow> (case g of None \<Rightarrow> True | Some g \<Rightarrow> gate_ok g)"
| "op_ok (Finish _ _ _ now) ms \<longleftrightarrow> i64 now"
| "op_ok _ _ \<longleftrightarrow> True"

section \<open>Positions and ids\<close>

lemma wf_queue_read: "wf_queue q \<Longrightarrow> read_queue q = map message q"
  by (simp add: wf_queue_def read_queue_wf)

lemma index_split:
  assumes "wf_queue q" "index_of q i = Some n"
  obtains us r vs where "q = us @ r # vs" "length us = n" "qm_id (message r) = i"
    "i \<notin> (qm_id \<circ> message) ` set us" "i \<notin> (qm_id \<circ> message) ` set vs"
proof -
  have n: "n < length q" "qm_id (message (q ! n)) = i"
    using assms index_of_wf(2) by (auto simp: wf_queue_def)
  then have q: "q = take n q @ q ! n # drop (Suc n) q" by (simp add: id_take_nth_drop)
  then have "distinct (map (qm_id \<circ> message) (take n q @ q ! n # drop (Suc n) q))"
    using assms(1) by (simp add: wf_queue_def)
  with n that [OF q] show thesis by auto
qed

lemma index_none:
  assumes "wf_queue q" "index_of q i = None"
  shows "drop_msg i (map message q) = map message q" "edit_msg i f (map message q) = map message q"
    "find_msg i (map message q) = None"
proof -
  have "i \<notin> (qm_id \<circ> message) ` set q"
    using assms index_of_wf(1) [of q i] by (simp add: wf_queue_def)
  then show "drop_msg i (map message q) = map message q"
      "edit_msg i f (map message q) = map message q" "find_msg i (map message q) = None"
    by (auto simp: drop_msg_def edit_msg_def find_msg_def find_None_iff image_iff
        intro!: filter_True map_idI)
qed

lemma split_ops:
  assumes "qm_id m = i" "i \<notin> qm_id ` set us" "i \<notin> qm_id ` set vs"
  shows "drop_msg i (us @ m # vs) = us @ vs" "edit_msg i f (us @ m # vs) = us @ f m # vs"
    "find_msg i (us @ m # vs) = Some m"
proof -
  have us: "filter (\<lambda>m. qm_id m \<noteq> i) us = us" "map (\<lambda>m. if qm_id m = i then f m else m) us = us"
    using assms(2) by (auto intro!: filter_True map_idI)
  have vs: "filter (\<lambda>m. qm_id m \<noteq> i) vs = vs" "map (\<lambda>m. if qm_id m = i then f m else m) vs = vs"
    using assms(3) by (auto intro!: filter_True map_idI)
  have "List.find (\<lambda>m. qm_id m = i) us = None"
    using assms(2) by (auto simp: find_None_iff)
  then have "List.find (\<lambda>m. qm_id m = i) (us @ m # vs) = Some m"
    using assms(1) by (induction us) (auto split: if_splits)
  then show "drop_msg i (us @ m # vs) = us @ vs" "edit_msg i f (us @ m # vs) = us @ f m # vs"
      "find_msg i (us @ m # vs) = Some m"
    using assms(1) us vs by (simp_all add: drop_msg_def edit_msg_def find_msg_def)
qed

lemma at_split [simp]:
  "delete_at (length us) (us @ r # vs) = us @ vs" "put_at (length us) r (us @ vs) = us @ r # vs"
  by (simp_all add: delete_at_def put_at_def)

lemma map_put_at: "map f (put_at n x xs) = put_at n (f x) (map f xs)"
  by (simp add: put_at_def take_map drop_map)

lemma set_put_at [simp]: "set (put_at n x xs) = insert x (set xs)"
  unfolding put_at_def by (metis Un_insert_right append_take_drop_id list.simps(15) set_append)

lemma distinct_put_at [simp]: "distinct (put_at n x xs) \<longleftrightarrow> distinct xs \<and> x \<notin> set xs"
proof -
  have "distinct (us @ x # vs) \<longleftrightarrow> distinct (us @ vs) \<and> x \<notin> set (us @ vs)" for us vs
    by auto
  from this [of "take n xs" "drop n xs"] show ?thesis
    unfolding put_at_def append_take_drop_id .
qed

lemma list_all_put_at [simp]: "list_all P (put_at n x xs) \<longleftrightarrow> P x \<and> list_all P xs"
  by (simp add: list_all_iff)

lemma wf_queue_append:
  "wf_queue (us @ r # vs) \<longleftrightarrow> wf_row r \<and> wf_queue (us @ vs) \<and>
     qm_id (message r) \<notin> (qm_id \<circ> message) ` set (us @ vs)"
  by (auto simp: wf_queue_def)

text \<open>Replacing a row by one with the same id.\<close>

lemma wf_queue_replace:
  assumes "wf_queue (us @ r # vs)" "wf_row r'" "qm_id (message r') = qm_id (message r)"
  shows "wf_queue (us @ r' # vs)"
  using assms by (simp add: wf_queue_append)

definition simulates :: "queue_op \<Rightarrow> queue \<Rightarrow> bool" where
  "simulates op q \<longleftrightarrow> wf_queue (fst (exec_op op q)) \<and>
     (read_queue (fst (exec_op op q)), snd (exec_op op q)) = spec_op op (read_queue q)"

lemma sim_put:
  assumes "wf_queue q" "sendable m" "qm_id m \<notin> qm_id ` set (read_queue q)"
  shows "wf_queue (put_at n (write_queued_map m) q)"
    "read_queue (put_at n (write_queued_map m) q) = put_at n m (read_queue q)"
proof -
  have "qm_id m \<notin> (qm_id \<circ> message) ` set q"
    using assms by (auto simp: wf_queue_read)
  then show wf: "wf_queue (put_at n (write_queued_map m) q)"
    using assms(1) written_row [OF assms(2)] by (simp add: wf_queue_def map_put_at)
  show "read_queue (put_at n (write_queued_map m) q) = put_at n m (read_queue q)"
    using wf assms(1) written_row [OF assms(2)] by (simp add: wf_queue_read map_put_at)
qed

lemma sendable_checked: "sendable m \<Longrightarrow> check_item m = Inr ()"
  by (simp add: check_item_def sendable_def)

lemma push_is_put: "q @ [r] = put_at (length q) r q"
  by (simp add: put_at_def)

lemma sim_push: "wf_queue q \<Longrightarrow> op_ok (Push m) (read_queue q) \<Longrightarrow> simulates (Push m) q"
  using sim_put [of q m "length q"]
  by (simp add: simulates_def push_queued_def sendable_checked push_is_put wf_queue_read)

lemma sim_insert: "wf_queue q \<Longrightarrow> op_ok (Insert n m) (read_queue q) \<Longrightarrow> simulates (Insert n m) q"
  using sim_put [of q m "min n (length q)"]
  by (simp add: simulates_def insert_queued_def sendable_checked wf_queue_read)

lemma removed:
  assumes "wf_queue q"
  shows "wf_queue (fst (remove_queued i q)) \<and> read_queue (fst (remove_queued i q)) = drop_msg i (read_queue q)"
proof (cases "index_of q i")
  case None
  then show ?thesis using assms by (simp add: remove_queued_def wf_queue_read index_none)
next
  case (Some n)
  show ?thesis
  proof (rule index_split [OF assms Some])
    fix us r vs
    assume q: "q = us @ r # vs" "length us = n" "qm_id (message r) = i"
      "i \<notin> (qm_id \<circ> message) ` set us" "i \<notin> (qm_id \<circ> message) ` set vs"
    have "wf_queue (us @ vs)" using assms by (simp add: q wf_queue_append)
    moreover have "drop_msg i (map message us @ message r # map message vs) = map message us @ map message vs"
      using q by (intro split_ops) (auto simp: image_comp)
    ultimately show ?thesis using assms Some
      by (simp add: remove_queued_def q(1) q(2)[symmetric] wf_queue_read)
  qed
qed

text \<open>An operation that rewrites the row of one message.\<close>

lemma rewritten:
  assumes "wf_queue q" "index_of q i = Some n"
    "\<And>r. wf_row r \<Longrightarrow> qm_id (message r) = i \<Longrightarrow> wf_row (g r) \<and> message (g r) = f (message r)"
    "\<And>m. qm_id (f m) = qm_id m"
  shows "wf_queue (q[n := g (q ! n)]) \<and>
    read_queue (q[n := g (q ! n)]) = edit_msg i f (read_queue q)"
proof (rule index_split [OF assms(1,2)])
  fix us r vs
  assume q: "q = us @ r # vs" "length us = n" "qm_id (message r) = i"
    "i \<notin> (qm_id \<circ> message) ` set us" "i \<notin> (qm_id \<circ> message) ` set vs"
  have r: "wf_row r" using assms(1) by (simp add: q wf_queue_append)
  have upd: "q[n := g (q ! n)] = us @ g r # vs"
    by (simp add: q(1) q(2)[symmetric])
  have wf: "wf_queue (us @ g r # vs)"
    using assms(1) assms(3) [OF r q(3)] unfolding q(1)
    by - (rule wf_queue_replace [of us r vs "g r"], simp_all add: assms(4))
  have edit: "edit_msg i f (map message us @ message r # map message vs) =
      map message us @ f (message r) # map message vs"
    using q by (intro split_ops) (auto simp: image_comp)
  have "message (g r) = f (message r)" using assms(3) [OF r q(3)] by blast
  then have "read_queue (us @ g r # vs) = map message us @ f (message r) # map message vs"
    by (simp add: wf_queue_read [OF wf])
  moreover have "read_queue q = map message us @ message r # map message vs"
    using assms(1) by (simp add: wf_queue_read q(1))
  ultimately show ?thesis using wf edit unfolding upd by (simp only: simp_thms)
qed

lemma sim_gate:
  assumes "wf_queue q" "op_ok (Gate i g) (read_queue q)"
  shows "simulates (Gate i g) q"
proof (cases "index_of q i")
  case None
  then show ?thesis using assms
    by (simp add: simulates_def set_queued_delivery_gate_def wf_queue_read index_none)
next
  case (Some n)
  have "wf_queue (q[n := (\<lambda>r. case g of Some g \<Rightarrow> oinsert ''deliveryGate'' (enc_gate g) r
        | None \<Rightarrow> oremove ''deliveryGate'' r) (q ! n)]) \<and>
      read_queue (q[n := (\<lambda>r. case g of Some g \<Rightarrow> oinsert ''deliveryGate'' (enc_gate g) r
        | None \<Rightarrow> oremove ''deliveryGate'' r) (q ! n)]) =
      edit_msg i (\<lambda>m. m\<lparr>qm_delivery_gate := g\<rparr>) (read_queue q)"
    using assms(2)
    by (intro rewritten [OF assms(1) Some])
       (auto simp: gated_row ungated_row split: option.split)
  then show ?thesis using Some
    by (simp add: simulates_def set_queued_delivery_gate_def)
qed

text \<open>The two text edits of a row, as functions of the row.\<close>

definition retype_row :: "string \<Rightarrow> int \<Rightarrow> row \<Rightarrow> row" where
  "retype_row t now r = (if map_of r ''text'' = Some (JStr t) then r
     else oinsert ''editedAt'' (JInt now) (oinsert ''text'' (JStr t) r))"

lemma retype_row_reads:
  assumes "wf_row r" "trim t \<noteq> []" "i64 now"
  shows "wf_row (retype_row t now r) \<and> message (retype_row t now r) = retype t now (message r)"
  using retyped_row [OF assms] assms(1)
  by (simp add: retype_row_def retype_def row_field)

lemma sim_retype:
  assumes "wf_queue q" "op_ok (Retype i t now) (read_queue q)"
  shows "simulates (Retype i t now) q"
proof (cases "trim t = [] \<or> index_of q i = None")
  case True
  then show ?thesis using assms removed [OF assms(1)]
    by (auto simp: simulates_def set_queued_text_def wf_queue_read index_none)
next
  case False
  then obtain n where n: "index_of q i = Some n" and t: "trim t \<noteq> []" by auto
  have "wf_queue (q[n := retype_row t now (q ! n)]) \<and>
      read_queue (q[n := retype_row t now (q ! n)]) = edit_msg i (retype t now) (read_queue q)"
    using assms(2) t by (intro rewritten [OF assms(1) n]) (simp_all add: retype_row_reads, simp add: retype_def)
  moreover have "fst (set_queued_text i t now q) = q[n := retype_row t now (q ! n)]"
    using n t by (simp add: set_queued_text_def retype_row_def)
  ultimately show ?thesis using t by (simp add: simulates_def)
qed

definition finish_row :: "string option \<Rightarrow> string list option \<Rightarrow> int \<Rightarrow> row \<Rightarrow> row" where
  "finish_row t a now r =
     (let r1 = (case t of None \<Rightarrow> r | Some t \<Rightarrow> retype_row t now r);
          r2 = (case a of None \<Rightarrow> r1
             | Some xs \<Rightarrow> oinsert ''editedAt'' (JInt now) (oinsert ''attachments'' (enc_strs xs) r1))
      in oremove ''deliveryGate'' r2)"

lemma finish_row_reads:
  assumes "wf_row r" "\<And>x. t = Some x \<Longrightarrow> trim x \<noteq> []" "i64 now"
  shows "wf_row (finish_row t a now r) \<and> message (finish_row t a now r) =
    (reattach a now (retype_opt t now (message r)))\<lparr>qm_delivery_gate := None\<rparr>"
proof -
  define r1 where "r1 = (case t of None \<Rightarrow> r | Some t \<Rightarrow> retype_row t now r)"
  define r2 where "r2 = (case a of None \<Rightarrow> r1
    | Some xs \<Rightarrow> oinsert ''editedAt'' (JInt now) (oinsert ''attachments'' (enc_strs xs) r1))"
  have 1: "wf_row r1" "message r1 = retype_opt t now (message r)"
    using assms by (cases t; simp add: r1_def retype_opt_def retype_row_reads)+
  then have 2: "wf_row r2" "message r2 = reattach a now (message r1)"
    using assms(3) by (cases a; simp add: r2_def reattach_def reattached_row)+
  have "finish_row t a now r = oremove ''deliveryGate'' r2"
    unfolding finish_row_def Let_def r1_def r2_def by (rule refl)
  then show ?thesis using ungated_row [OF 2(1)] 1(2) 2(2) by simp
qed

lemma edited_id [simp]: "qm_id (retype t now m) = qm_id m" "qm_id (retype_opt x now m) = qm_id m"
  "qm_id (reattach a now m) = qm_id m"
  by (simp_all add: retype_def retype_opt_def reattach_def split: option.split)

lemma sim_finish:
  assumes "wf_queue q" "op_ok (Finish i t a now) (read_queue q)"
  shows "simulates (Finish i t a now) q"
proof (cases "(case t of Some t \<Rightarrow> trim t = [] | None \<Rightarrow> False) \<or> index_of q i = None")
  case True
  then show ?thesis using assms removed [OF assms(1)]
    by (cases t) (auto simp: simulates_def finish_queued_edit_with_attachments_def wf_queue_read
        index_none)
next
  case False
  then obtain n where n: "index_of q i = Some n" and t: "\<not> (case t of Some t \<Rightarrow> trim t = [] | None \<Rightarrow> False)"
    by auto
  then have t': "\<And>x. t = Some x \<Longrightarrow> trim x \<noteq> []" by simp
  have "wf_queue (q[n := finish_row t a now (q ! n)]) \<and>
      read_queue (q[n := finish_row t a now (q ! n)]) =
      edit_msg i (\<lambda>m. (reattach a now (retype_opt t now m))\<lparr>qm_delivery_gate := None\<rparr>) (read_queue q)"
    using assms(2) t' by (intro rewritten [OF assms(1) n]) (simp_all add: finish_row_reads)
  moreover have "fst (finish_queued_edit_with_attachments i t a now q) = q[n := finish_row t a now (q ! n)]"
    using n t unfolding finish_queued_edit_with_attachments_def finish_row_def retype_row_def Let_def
    by simp
  ultimately show ?thesis using t by (simp add: simulates_def)
qed

lemma sim_move:
  assumes "wf_queue q"
  shows "simulates (Move i to) q"
proof (cases "index_of q i")
  case None
  then show ?thesis using assms
    by (simp add: simulates_def move_queued_def wf_queue_read index_none)
next
  case (Some n)
  show ?thesis
  proof (rule index_split [OF assms Some])
    fix us r vs
    assume q: "q = us @ r # vs" "length us = n" "qm_id (message r) = i"
      "i \<notin> (qm_id \<circ> message) ` set us" "i \<notin> (qm_id \<circ> message) ` set vs"
    define dest where "dest = min to (length q - 1)"
    have ops: "drop_msg i (map message us @ message r # map message vs) = map message us @ map message vs"
        "find_msg i (map message us @ message r # map message vs) = Some (message r)"
      using q by (auto intro!: split_ops simp: image_comp)
    have moved: "fst (move_queued i to q) = put_at dest r (us @ vs)"
      using Some unfolding move_queued_def dest_def[symmetric]
      by (auto simp: Let_def q(1) q(2)[symmetric])
    have "wf_queue (put_at dest r (us @ vs))"
      using assms unfolding q(1) wf_queue_append
      by (simp add: wf_queue_def map_put_at image_Un)
    moreover have "spec_op (Move i to) (read_queue q) = (put_at dest (message r) (map message (us @ vs)), [])"
      using assms by (simp add: wf_queue_read q(1) ops dest_def)
    ultimately show ?thesis
      by (simp add: simulates_def moved wf_queue_read map_put_at)
  qed
qed

lemma taken:
  assumes "wf_queue q"
  shows "wf_queue (fst (take_queued i q)) \<and>
    (read_queue (fst (take_queued i q)), case snd (take_queued i q) of None \<Rightarrow> [] | Some m \<Rightarrow> [m]) =
      take_msg i (read_queue q)"
proof (cases "index_of q i")
  case None
  then show ?thesis using assms by (simp add: take_queued_def wf_queue_read index_none take_msg_def)
next
  case (Some n)
  have "take_queued i q = (case find_msg i (read_queue q) of
      Some m \<Rightarrow> if qm_delivery_gate m \<noteq> None then (q, None) else (fst (remove_queued i q), Some m)
    | None \<Rightarrow> (fst (remove_queued i q), None))"
    using Some by (simp add: take_queued_def remove_queued_def find_msg_def Let_def split: option.split)
  moreover have "find_msg i (read_queue q) \<noteq> None"
    using assms Some index_of_wf(2) [of q i n]
    by (auto simp: find_msg_def find_None_iff wf_queue_read wf_queue_def)
  ultimately show ?thesis using assms removed [OF assms, of i]
    by (auto simp: take_msg_def)
qed

lemma sim_take: "wf_queue q \<Longrightarrow> simulates (Take i) q"
  using taken by (simp add: simulates_def)

lemma sim_take_head: "wf_queue q \<Longrightarrow> simulates Take_Head q"
  using taken [of q] by (cases "read_queue q") (simp_all add: simulates_def take_queue_head_def)

section \<open>What a delivery queue promises\<close>

text \<open>The host's view: \<open>taking\<close> hands an item out by key, \<open>putting\<close> is the undo of a failed
  send. The laws give that no item is handed out twice, however takes are ordered.\<close>

fun takes :: "('k \<Rightarrow> 'q \<Rightarrow> 'q \<times> 'm option) \<Rightarrow> 'k list \<Rightarrow> 'q \<Rightarrow> 'q \<times> 'm list" where
  "takes tk [] q = (q, [])"
| "takes tk (k # ks) q =
     (case tk k q of (q', x) \<Rightarrow> case takes tk ks q' of (q'', ms) \<Rightarrow>
        (q'', case x of None \<Rightarrow> ms | Some m \<Rightarrow> m # ms))"

locale delivery_queue =
  fixes ok :: "'q \<Rightarrow> bool" and items :: "'q \<Rightarrow> 'm list" and key :: "'m \<Rightarrow> 'k"
    and barred :: "'m \<Rightarrow> bool" and taking :: "'k \<Rightarrow> 'q \<Rightarrow> 'q \<times> 'm option"
    and putting :: "nat \<Rightarrow> 'm \<Rightarrow> 'q \<Rightarrow> 'q"
  assumes keys: "ok q \<Longrightarrow> distinct (map key (items q))"
    and take_some: "ok q \<Longrightarrow> taking k q = (q', Some m) \<Longrightarrow>
      ok q' \<and> key m = k \<and> \<not> barred m \<and> (\<exists>us vs. items q = us @ m # vs \<and> items q' = us @ vs)"
    and take_none: "ok q \<Longrightarrow> taking k q = (q', None) \<Longrightarrow> ok q' \<and> items q' = items q"
    and put_back: "ok q \<Longrightarrow> taking k q = (q', Some m) \<Longrightarrow> items q = us @ m # vs \<Longrightarrow>
      items q' = us @ vs \<Longrightarrow> ok (putting (length us) m q') \<and> items (putting (length us) m q') = items q"
begin

lemma takes_conserve:
  "ok q \<Longrightarrow> takes taking ks q = (q', ms) \<Longrightarrow>
    ok q' \<and> mset ms + mset (items q') = mset (items q) \<and> (\<forall>m \<in> set ms. \<not> barred m)"
proof (induction ks arbitrary: q q' ms)
  case (Cons k ks)
  obtain q1 x where t: "taking k q = (q1, x)" by fastforce
  obtain q2 ms' where r: "takes taking ks q1 = (q2, ms')" by fastforce
  have ok1: "ok q1" using t Cons.prems(1) take_some take_none by (cases x) blast+
  note IH = Cons.IH [OF ok1 r]
  have out: "q' = q2" "ms = (case x of None \<Rightarrow> ms' | Some m \<Rightarrow> m # ms')"
    using Cons.prems(2) t r by simp_all
  show ?case
  proof (cases x)
    case None
    then show ?thesis using IH out take_none [OF Cons.prems(1)] t by auto
  next
    case (Some m)
    then obtain us vs where "items q = us @ m # vs" "items q1 = us @ vs" "\<not> barred m"
      using take_some [OF Cons.prems(1)] t by blast
    then show ?thesis using IH out Some by auto
  qed
qed simp

lemma takes_distinct:
  assumes "ok q" "takes taking ks q = (q', ms)"
  shows "distinct (map key ms) \<and> key ` set ms \<inter> key ` set (items q') = {}"
proof -
  have "mset (map key (ms @ items q')) = mset (map key (items q))"
    using takes_conserve [OF assms] by (metis mset_append mset_map)
  then have "distinct (map key (ms @ items q'))"
    using keys [OF assms(1)] mset_eq_imp_distinct_iff by blast
  then show ?thesis by auto
qed

lemma failed_send:
  assumes "ok q" "taking k q = (q', Some m)"
  shows "\<exists>n. items (putting n m q') = items q"
  using take_some [OF assms] put_back [OF assms] by blast

end

lemma distinct_ids: "wf_queue q \<Longrightarrow> distinct (map qm_id (read_queue q))"
  by (simp add: wf_queue_read wf_queue_def)

lemma find_own_id:
  assumes "wf_queue q" "m \<in> set (read_queue q)"
  shows "find_msg (qm_id m) (read_queue q) = Some m"
proof -
  obtain us vs where q: "read_queue q = us @ m # vs" using assms(2) by (meson split_list)
  then show ?thesis using distinct_ids [OF assms(1)] by (auto intro!: split_ops)
qed

lemma take_shape:
  assumes "wf_queue q" "take_queued i q = (q', Some m)"
  shows "wf_queue q' \<and> qm_id m = i \<and> qm_delivery_gate m = None \<and>
    (\<exists>us vs. read_queue q = us @ m # vs \<and> read_queue q' = us @ vs)"
proof -
  have t: "wf_queue q'" "(read_queue q', [m]) = take_msg i (read_queue q)"
    using taken [OF assms(1), of i] assms(2) by simp_all
  then have f: "find_msg i (read_queue q) = Some m" "qm_delivery_gate m = None"
      "read_queue q' = drop_msg i (read_queue q)"
    by (auto simp: take_msg_def split: option.splits if_splits)
  have i: "qm_id m = i" "m \<in> set (read_queue q)"
    using f(1) find_SomeD unfolding find_msg_def by fastforce+
  then obtain us vs where q: "read_queue q = us @ m # vs" by (meson split_list)
  have "distinct (map qm_id (read_queue q))"
    by (rule distinct_ids [OF assms(1)])
  then have "drop_msg i (us @ m # vs) = us @ vs"
    using i by (intro split_ops) (auto simp: q)
  then show ?thesis using t f i q by auto
qed

text \<open>The undo: the row goes back at the position it was taken from.\<close>

definition restore_queued :: "nat \<Rightarrow> QueuedMessage \<Rightarrow> queue \<Rightarrow> queue" where
  "restore_queued n m q = fst (exec_op (Insert n m) q)"

lemma restored:
  assumes "wf_queue q" "take_queued i q = (q', Some m)" "read_queue q = us @ m # vs"
    "read_queue q' = us @ vs"
  shows "wf_queue (restore_queued (length us) m q') \<and>
    read_queue (restore_queued (length us) m q') = read_queue q"
proof -
  have shape: "wf_queue q'" "qm_delivery_gate m = None" using take_shape [OF assms(1,2)] by blast+
  have "m \<in> set (map message q)" using assms(1,3) by (simp add: wf_queue_read)
  then obtain r where "r \<in> set q" "m = message r" by auto
  then have send: "sendable m"
    using assms(1) shape(2) message_sendable [of r] by (auto simp: wf_queue_def list_all_iff)
  have "distinct (map qm_id (read_queue q))"
    by (rule distinct_ids [OF assms(1)])
  then have "op_ok (Insert (length us) m) (read_queue q')"
    using send assms(3,4) by auto
  then have "simulates (Insert (length us) m) q'" using sim_insert shape(1) by blast
  then show ?thesis
    by (simp add: simulates_def restore_queued_def assms(3,4) del: exec_op.simps)
qed

interpretation host_queue: delivery_queue wf_queue read_queue qm_id
  "\<lambda>m. qm_delivery_gate m \<noteq> None" take_queued restore_queued
proof
  fix q assume "wf_queue q"
  then show "distinct (map qm_id (read_queue q))" by (rule distinct_ids)
next
  fix q i q' m assume "wf_queue q" "take_queued i q = (q', Some m)"
  then show "wf_queue q' \<and> qm_id m = i \<and> \<not> qm_delivery_gate m \<noteq> None \<and>
      (\<exists>us vs. read_queue q = us @ m # vs \<and> read_queue q' = us @ vs)"
    using take_shape by simp
next
  fix q i q' assume "wf_queue q" "take_queued i q = (q', None)"
  then show "wf_queue q' \<and> read_queue q' = read_queue q"
    using taken [of q i] by (auto simp: take_msg_def split: option.splits if_splits)
qed (rule restored)

section \<open>Properties\<close>

text \<open>C13: On a well-formed queue (every row reads, ids distinct) each of the nine operations of
  \<open>queue.rs\<close> preserves well-formedness, and the messages the queue reads as, together with
  the message handed to the host, are what the operation of the same name yields on a plain
  list of messages: rows of other messages are untouched, an edit keeps place and id.\<close>

theorem queue_refines_list:
  assumes "wf_queue q" "op_ok op (read_queue q)"
  shows "wf_queue (fst (exec_op op q)) \<and>
    (read_queue (fst (exec_op op q)), snd (exec_op op q)) = spec_op op (read_queue q)"
proof -
  have "simulates op q"
  proof (cases op)
    case (Remove i)
    then show ?thesis using removed [OF assms(1)] by (simp add: simulates_def)
  qed (use assms in \<open>auto intro: sim_push sim_insert sim_retype sim_gate sim_finish sim_move
      sim_take sim_take_head\<close>)
  then show ?thesis by (simp add: simulates_def)
qed

definition sample_message :: "string \<Rightarrow> string \<Rightarrow> QueuedMessage" where
  "sample_message i t = queued_new i t ''dev''"

definition sample_queue :: queue where
  "sample_queue = [write_queued_map (sample_message ''a'' ''one''),
     write_queued_map (sample_message ''b'' ''two''\<lparr>qm_delivery_gate := Some (ReviewRequired ''l'' ''d'' 5 ''h'')\<rparr>),
     write_queued_map (sample_message ''c'' ''three'')]"

lemma sample_queue_wf: "wf_queue sample_queue"
  by code_simp

theorem queue_refines_list_witness:
  "wf_queue (fst (exec_op (Move ''c'' 0) sample_queue)) \<and>
   map qm_id (read_queue (fst (exec_op (Move ''c'' 0) sample_queue))) = [''c'', ''a'', ''b'']"
proof -
  have "wf_queue (fst (exec_op (Move ''c'' 0) sample_queue)) \<and>
      (read_queue (fst (exec_op (Move ''c'' 0) sample_queue)), snd (exec_op (Move ''c'' 0) sample_queue)) =
      spec_op (Move ''c'' 0) (read_queue sample_queue)"
    by (rule queue_refines_list [OF sample_queue_wf]) simp
  moreover have "map qm_id (fst (spec_op (Move ''c'' 0) (read_queue sample_queue))) = [''c'', ''a'', ''b'']"
    by code_simp
  ultimately show ?thesis by (metis fst_conv)
qed

text \<open>C14: Whatever sequence of takes the host issues, by whatever ids, in whatever order,
  every message is handed out at most once and none is lost: the messages handed out and
  those left are together exactly those queued before, the ids handed out are distinct and
  gone from the queue, and no message under a delivery gate is handed out.\<close>

theorem queue_delivers_once:
  assumes "wf_queue q" "takes take_queued ids q = (q', ms)"
  shows "mset ms + mset (read_queue q') = mset (read_queue q) \<and> distinct (map qm_id ms) \<and>
    qm_id ` set ms \<inter> qm_id ` set (read_queue q') = {} \<and> (\<forall>m \<in> set ms. qm_delivery_gate m = None)"
  using host_queue.takes_conserve [OF assms] host_queue.takes_distinct [OF assms] by simp

theorem queue_delivers_once_witness:
  "distinct (map qm_id (snd (takes take_queued [''c'', ''b'', ''c'', ''a''] sample_queue))) \<and>
   map qm_id (snd (takes take_queued [''c'', ''b'', ''c'', ''a''] sample_queue)) = [''c'', ''a'']"
proof -
  let ?t = "takes take_queued [''c'', ''b'', ''c'', ''a''] sample_queue"
  have "distinct (map qm_id (snd ?t))"
    using queue_delivers_once [OF sample_queue_wf, of _ "fst ?t" "snd ?t"] by (simp del: takes.simps)
  moreover have "map qm_id (snd ?t) = [''c'', ''a'']" by code_simp
  ultimately show ?thesis by blast
qed

text \<open>A failed send is undone exactly: when \<open>take_queued\<close> has handed a message out,
  \<open>insert_queued\<close> at its old position succeeds and the queue reads as before, the message in
  its place among the others.\<close>

theorem failed_send_restores:
  assumes "wf_queue q" "take_queued i q = (q', Some m)"
  shows "\<exists>us vs. read_queue q = us @ m # vs \<and> read_queue q' = us @ vs \<and>
    read_queue (restore_queued (length us) m q') = us @ m # vs"
  using take_shape [OF assms] restored [OF assms] by metis

theorem failed_send_restores_witness:
  "\<exists>us vs. read_queue sample_queue = us @ sample_message ''c'' ''three'' # vs \<and>
    read_queue (fst (take_queued ''c'' sample_queue)) = us @ vs \<and>
    read_queue (restore_queued (length us) (sample_message ''c'' ''three'')
      (fst (take_queued ''c'' sample_queue))) = us @ sample_message ''c'' ''three'' # vs"
proof -
  have "snd (take_queued ''c'' sample_queue) = Some (sample_message ''c'' ''three'')" by code_simp
  then have "take_queued ''c'' sample_queue =
      (fst (take_queued ''c'' sample_queue), Some (sample_message ''c'' ''three''))"
    by (metis prod.collapse)
  then show ?thesis by (rule failed_send_restores [OF sample_queue_wf])
qed

text \<open>Gates fail closed: a row holding anything but \<open>null\<close> as its delivery gate, of a
  known kind or not, well-formed or not, is never handed out, and the take leaves the queue
  as it is.\<close>

theorem unknown_gate_blocks:
  assumes "wf_queue q" "r \<in> set q" "map_of r ''deliveryGate'' = Some g" "g \<noteq> JNull"
    "queued_from_row r = Some m"
  shows "take_queued (qm_id m) q = (q, None)"
proof -
  have m: "m = message r" using assms(5) by (simp add: message_def)
  have gate: "qm_delivery_gate m \<noteq> None"
    using queued_from_rowD(10) [OF assms(5)] assms(3,4) by (simp add: read_gate_def)
  have "m \<in> set (read_queue q)"
    using assms(1,2) by (simp add: wf_queue_read m)
  then have "find_msg (qm_id m) (read_queue q) = Some m"
    by (rule find_own_id [OF assms(1)])
  then show ?thesis using gate
    by (simp add: take_queued_def find_msg_def split: option.split)
qed

theorem unknown_gate_blocks_witness:
  "take_queued ''a'' [[(''id'', JStr ''a''), (''text'', JStr ''x''),
       (''deliveryGate'', JObj [(''kind'', JStr ''legalHold'')])]] =
   ([[(''id'', JStr ''a''), (''text'', JStr ''x''),
       (''deliveryGate'', JObj [(''kind'', JStr ''legalHold'')])]], None)"
proof -
  let ?r = "[(''id'', JStr ''a''), (''text'', JStr ''x''),
    (''deliveryGate'', JObj [(''kind'', JStr ''legalHold'')])]"
  have wf: "wf_queue [?r]" by code_simp
  have m: "queued_from_row ?r = Some \<lparr>qm_id = ''a'', qm_text = ''x'', qm_attachments = [],
      qm_hold_for_turn_end = False, qm_issued_by = [], qm_issued_at = 0, qm_edited_at = None,
      qm_delivery_gate = Some unreadable_gate\<rparr>"
    by code_simp
  show ?thesis
    using unknown_gate_blocks [OF wf _ _ _ m, of "JObj [(''kind'', JStr ''legalHold'')]"] by simp
qed

text \<open>A row whose stored id has surrounding white space is readable but cannot be
  addressed: readers trim the id, \<open>index_of\<close> compares it raw. \<open>push_queued\<close> accepts such a
  message, and then the turn-end flush \<open>take_queue_head\<close> returns \<open>None\<close> for ever while the
  queue is not empty, so nothing behind that row is ever flushed.\<close>

theorem untrimmed_id_wedges_queue:
  "\<exists>m q. push_queued m [] = Inr q \<and>
     (\<forall>rest. read_queue (q @ rest) \<noteq> [] \<and>
       take_queue_head (q @ filter (\<lambda>r. \<not> row_has ''a'' r) rest) =
         (q @ filter (\<lambda>r. \<not> row_has ''a'' r) rest, None))"
proof -
  let ?m = "sample_message '' a'' ''one''"
  let ?r = "write_queued_map ?m"
  have push: "push_queued ?m [] = Inr [?r]" by code_simp
  have row: "map_option qm_id (queued_from_row ?r) = Some ''a''" "\<not> row_has ''a'' ?r" by code_simp+
  then obtain m where m: "queued_from_row ?r = Some m" "qm_id m = ''a''" by auto
  have "index_of (filter (\<lambda>r. \<not> row_has ''a'' r) rest) ''a'' = None" for rest
    by (induction rest) simp_all
  then have "index_of (?r # filter (\<lambda>r. \<not> row_has ''a'' r) rest) ''a'' = None" for rest
    using row(2) by simp
  moreover have "read_queue (?r # rest) = m # read_queue rest" for rest
    by (simp add: read_queue_def map_filter_def m)
  ultimately have "read_queue ([?r] @ rest) \<noteq> [] \<and>
      take_queue_head ([?r] @ filter (\<lambda>r. \<not> row_has ''a'' r) rest) =
        ([?r] @ filter (\<lambda>r. \<not> row_has ''a'' r) rest, None)" for rest
    by (simp add: take_queue_head_def take_queued_def m)
  then show ?thesis using push by blast
qed

end
