(* ===== verification/Registry_Rows.thy ===== *)
theory Registry_Rows
  imports Ordered_Map Json "HOL-Library.Multiset"
begin

text \<open>
  The row table of \<open>crates/doc/src/registry.rs\<close>: hybrid logical clocks, rows with a clock per
  field, and the merge function \<open>apply_op\<close>, which client and server share. A \<open>BTreeMap\<close> is a
  sorted list of pairs (\<open>Ordered_Map\<close>); a clock is its string, compared as strings are. The
  wall clock is an argument. Counters wrap as they do in a release build.
\<close>

section \<open>Clocks\<close>

definition encode_hlc :: "int \<Rightarrow> nat \<Rightarrow> string \<Rightarrow> string" where
  "encode_hlc ms counter device =
     fmt_pad 13 ms @ ''-'' @ fmt_pad 6 (int counter) @ ''-'' @ device"

definition hlc_newer :: "string \<Rightarrow> string option \<Rightarrow> bool" where
  "hlc_newer a b = (case b of None \<Rightarrow> True | Some b \<Rightarrow> b < a)"

record HlcClock =
  last_ms :: int
  counter :: nat

definition default_clock :: HlcClock where
  "default_clock = \<lparr>last_ms = 0, counter = 0\<rparr>"

definition clock_next :: "int \<Rightarrow> string \<Rightarrow> HlcClock \<Rightarrow> HlcClock \<times> string" where
  "clock_next now_ms device c =
     (let c' =
        (if last_ms c < now_ms then \<lparr>last_ms = now_ms, counter = 0\<rparr>
         else
           (let n = (counter c + 1) mod 2 ^ 32 in
            if 999999 < n then \<lparr>last_ms = last_ms c + 1, counter = 0\<rparr>
            else c\<lparr>counter := n\<rparr>))
      in (c', encode_hlc (last_ms c') (counter c') device))"

fun clock_run :: "int list \<Rightarrow> string \<Rightarrow> HlcClock \<Rightarrow> string list" where
  "clock_run [] device c = []"
| "clock_run (now # nows) device c =
     (case clock_next now device c of (c', s) \<Rightarrow> s # clock_run nows device c')"

section \<open>Rows and operations\<close>

record RegistryRow =
  rw_kind :: string
  rw_id :: string
  rw_seq :: nat
  rw_deleted :: bool
  rw_del_hlc :: "string option"
  rw_fields :: "(string, json) bmap"
  rw_clocks :: "(string, string) bmap"

definition tombstone :: "string \<Rightarrow> string \<Rightarrow> string \<Rightarrow> RegistryRow" where
  "tombstone kind i hlc = \<lparr>rw_kind = kind, rw_id = i, rw_seq = 0, rw_deleted = True,
     rw_del_hlc = Some hlc, rw_fields = [], rw_clocks = []\<rparr>"

definition newest :: "string \<Rightarrow> string option \<Rightarrow> string option" where
  "newest c m = (case m of None \<Rightarrow> Some c | Some x \<Rightarrow> if x < c then Some c else m)"

definition max_clock :: "RegistryRow \<Rightarrow> string option" where
  "max_clock r = fold newest (map snd (rw_clocks r)) (rw_del_hlc r)"

datatype OpKind = Upsert | Update | Delete

record RowOp =
  ro_kind :: string
  ro_id :: string
  ro_op :: OpKind
  ro_set :: "(string, json) bmap option"
  ro_hlc :: string
  ro_clocks :: "(string, string) bmap option"

definition clock_for :: "RowOp \<Rightarrow> string \<Rightarrow> string" where
  "clock_for op field =
     (case Option.bind (ro_clocks op) (\<lambda>c. map_of c field) of None \<Rightarrow> ro_hlc op | Some c \<Rightarrow> c)"

section \<open>Merging an operation\<close>

definition write_field ::
  "RowOp \<Rightarrow> string \<times> json \<Rightarrow> RegistryRow \<times> bool \<Rightarrow> RegistryRow \<times> bool" where
  "write_field op kv st =
     (case (kv, st) of ((key, v), (base, changed)) \<Rightarrow>
        (let clock = clock_for op key in
         if \<not> hlc_newer clock (map_of (rw_clocks base) key) then (base, changed)
         else (base\<lparr>rw_fields := (if v = JNull then bremove key (rw_fields base)
                                else binsert key v (rw_fields base)),
                  rw_clocks := binsert key clock (rw_clocks base)\<rparr>, True)))"

definition fields_of :: "RowOp \<Rightarrow> (string, json) bmap" where
  "fields_of op = (case ro_set op of None \<Rightarrow> [] | Some s \<Rightarrow> s)"

definition write_fields :: "RowOp \<Rightarrow> RegistryRow \<Rightarrow> bool \<Rightarrow> RegistryRow option \<times> bool" where
  "write_fields op base fresh =
     (case fold (write_field op) (fields_of op) (base, fresh) of (base', changed) \<Rightarrow>
        if changed then (Some (base'\<lparr>rw_deleted := False\<rparr>), True) else (Some base', False))"

definition apply_delete :: "RegistryRow option \<Rightarrow> RowOp \<Rightarrow> RegistryRow option \<times> bool" where
  "apply_delete row op =
     (case row of
        None \<Rightarrow> (Some (tombstone (ro_kind op) (ro_id op) (ro_hlc op)), True)
      | Some r \<Rightarrow>
          (if hlc_newer (ro_hlc op) (if rw_deleted r then rw_del_hlc r else max_clock r)
           then (Some (r\<lparr>rw_deleted := True, rw_del_hlc := Some (ro_hlc op),
                   rw_fields := [], rw_clocks := []\<rparr>), True)
           else (Some r, False)))"

definition apply_op :: "RegistryRow option \<Rightarrow> RowOp \<Rightarrow> RegistryRow option \<times> bool" where
  "apply_op row op =
     (if ro_op op = Delete then apply_delete row op
      else case row of
          None \<Rightarrow>
            (if ro_op op = Update then (None, False)
             else write_fields op \<lparr>rw_kind = ro_kind op, rw_id = ro_id op, rw_seq = 0,
                    rw_deleted = False, rw_del_hlc = None, rw_fields = [], rw_clocks = []\<rparr> True)
        | Some r \<Rightarrow>
            (if rw_deleted r then
               (if ro_op op = Update \<or> \<not> hlc_newer (ro_hlc op) (rw_del_hlc r) then (Some r, False)
                else write_fields op (r\<lparr>rw_deleted := False, rw_fields := [], rw_clocks := []\<rparr>) True)
             else write_fields op r False))"

definition seed_clock :: string where
  "seed_clock = encode_hlc 0 0 ''seed''"

definition row_to_seed_op :: "RegistryRow \<Rightarrow> RowOp" where
  "row_to_seed_op r =
     (if rw_deleted r
      then \<lparr>ro_kind = rw_kind r, ro_id = rw_id r, ro_op = Delete, ro_set = None,
             ro_hlc = (case rw_del_hlc r of None \<Rightarrow> seed_clock | Some h \<Rightarrow> h), ro_clocks = None\<rparr>
      else \<lparr>ro_kind = rw_kind r, ro_id = rw_id r, ro_op = Upsert, ro_set = Some (rw_fields r),
             ro_hlc = (case max_clock r of None \<Rightarrow> seed_clock | Some h \<Rightarrow> h),
             ro_clocks = Some (rw_clocks r)\<rparr>)"

section \<open>Clock order\<close>

lemma fmt_pad_fixed:
  assumes "0 \<le> i" "i < 10 ^ w" "0 < w"
  shows "fmt_pad w i = fixed w (nat i)"
proof -
  have "nat i < 10 ^ w" using assms by (simp add: nat_less_iff)
  then show ?thesis using assms dec_fixed [of "nat i" w] by (simp add: fmt_pad_def)
qed

text \<open>A clock whose time and counter fit their columns.\<close>

definition in_columns :: "HlcClock \<Rightarrow> bool" where
  "in_columns c \<longleftrightarrow> 0 \<le> last_ms c \<and> last_ms c < 10 ^ 13 \<and> counter c \<le> 999999"

definition earlier :: "HlcClock \<Rightarrow> HlcClock \<Rightarrow> bool" where
  "earlier c d \<longleftrightarrow> last_ms c < last_ms d \<or> (last_ms c = last_ms d \<and> counter c < counter d)"

definition clock_text :: "string \<Rightarrow> HlcClock \<Rightarrow> string" where
  "clock_text device c = encode_hlc (last_ms c) (counter c) device"

lemma clock_text_fixed:
  assumes "in_columns c"
  shows "clock_text device c = fixed 13 (nat (last_ms c)) @ ''-'' @ fixed 6 (counter c) @ ''-'' @ device"
proof -
  have "fmt_pad 13 (last_ms c) = fixed 13 (nat (last_ms c))"
    using assms by (intro fmt_pad_fixed) (auto simp: in_columns_def)
  moreover have "fmt_pad 6 (int (counter c)) = fixed 6 (nat (int (counter c)))"
    using assms by (intro fmt_pad_fixed) (auto simp: in_columns_def)
  ultimately show ?thesis by (simp add: clock_text_def encode_hlc_def)
qed

lemma clock_text_less:
  assumes "in_columns c" "in_columns d" "earlier c d"
  shows "clock_text device c < clock_text device d"
proof -
  have ms: "nat (last_ms c) < 10 ^ 13" "nat (last_ms d) < 10 ^ 13"
    using assms(1,2) by (auto simp: in_columns_def nat_less_iff)
  have cn: "counter c < 10 ^ 6" "counter d < 10 ^ 6"
    using assms(1,2) by (auto simp: in_columns_def)
  show ?thesis
  proof (cases "last_ms c < last_ms d")
    case True
    then have "fixed 13 (nat (last_ms c)) < fixed 13 (nat (last_ms d))"
      using ms assms(1) by (simp only: fixed_less) (auto simp: in_columns_def)
    then show ?thesis
      unfolding clock_text_fixed [OF assms(1)] clock_text_fixed [OF assms(2)]
      by (subst append_less_append) simp_all
  next
    case False
    then have eq: "last_ms c = last_ms d" "counter c < counter d"
      using assms(3) by (auto simp: earlier_def)
    then have "fixed 6 (counter c) < fixed 6 (counter d)" using cn by (simp only: fixed_less)
    then have "fixed 6 (counter c) @ ''-'' @ device < fixed 6 (counter d) @ ''-'' @ device"
      by (subst append_less_append) simp_all
    then show ?thesis
      unfolding clock_text_fixed [OF assms(1)] clock_text_fixed [OF assms(2)] eq(1)
      by (subst append_less_append) simp_all
  qed
qed

lemma clock_next_earlier:
  assumes "counter c \<le> 999999"
  shows "earlier c (fst (clock_next now device c))"
    "counter (fst (clock_next now device c)) \<le> 999999"
    "last_ms c \<le> last_ms (fst (clock_next now device c))"
    "last_ms (fst (clock_next now device c)) \<le> max (last_ms c + 1) now"
    "snd (clock_next now device c) = clock_text device (fst (clock_next now device c))"
  using assms by (auto simp: clock_next_def earlier_def clock_text_def Let_def)

lemma clock_run_above:
  assumes "counter c \<le> 999999" "0 \<le> last_ms c" "last_ms c + int (length nows) < 10 ^ 13"
    "\<forall>n \<in> set nows. n + int (length nows) < 10 ^ 13" "s \<in> set (clock_run nows device c)"
  shows "\<exists>d. s = clock_text device d \<and> in_columns d \<and> earlier c d"
  using assms
proof (induction nows arbitrary: c)
  case (Cons now nows)
  define d where "d = fst (clock_next now device c)"
  note step = clock_next_earlier [OF Cons.prems(1), where now = now and device = device, folded d_def]
  have d: "counter d \<le> 999999" "0 \<le> last_ms d" "last_ms d + int (length nows) < 10 ^ 13"
    using step(2-4) Cons.prems(2-4) by (auto simp: max_def split: if_splits)
  have run: "clock_run (now # nows) device c = clock_text device d # clock_run nows device d"
    using step(5) by (cases "clock_next now device c") (simp add: d_def)
  show ?case
  proof (cases "s = clock_text device d")
    case True
    then show ?thesis using step(1) d by (auto simp: in_columns_def)
  next
    case False
    then have "s \<in> set (clock_run nows device d)" using Cons.prems(5) unfolding run by simp
    moreover have "\<forall>n \<in> set nows. n + int (length nows) < 10 ^ 13" using Cons.prems(4) by auto
    ultimately obtain e where "s = clock_text device e" "in_columns e" "earlier d e"
      using Cons.IH [OF d] by blast
    then show ?thesis using step(1) by (auto simp: earlier_def)
  qed
qed simp

lemma clock_run_sorted:
  assumes "counter c \<le> 999999" "0 \<le> last_ms c" "last_ms c + int (length nows) < 10 ^ 13"
    "\<forall>n \<in> set nows. n + int (length nows) < 10 ^ 13"
  shows "sorted_wrt (<) (clock_run nows device c)"
  using assms
proof (induction nows arbitrary: c)
  case (Cons now nows)
  define d where "d = fst (clock_next now device c)"
  note step = clock_next_earlier [OF Cons.prems(1), where now = now and device = device, folded d_def]
  have d: "counter d \<le> 999999" "0 \<le> last_ms d" "last_ms d + int (length nows) < 10 ^ 13"
    "\<forall>n \<in> set nows. n + int (length nows) < 10 ^ 13"
    using step(2-4) Cons.prems(2-4) by (auto simp: max_def split: if_splits)
  have "clock_text device d < s" if s: "s \<in> set (clock_run nows device d)" for s
  proof -
    obtain e where "s = clock_text device e" "in_columns e" "earlier d e"
      using clock_run_above [OF d s] by blast
    moreover have "in_columns d" using d by (simp add: in_columns_def)
    ultimately show ?thesis by (simp add: clock_text_less)
  qed
  moreover have "clock_run (now # nows) device c = clock_text device d # clock_run nows device d"
    using step(5) by (cases "clock_next now device c") (simp add: d_def)
  ultimately show ?case using Cons.IH [OF d] by simp
qed simp

section \<open>Writing fields\<close>

definition row_wf :: "RegistryRow \<Rightarrow> bool" where
  "row_wf r \<longleftrightarrow> bwf (rw_fields r) \<and> bwf (rw_clocks r)"

definition op_wf :: "RowOp \<Rightarrow> bool" where
  "op_wf op \<longleftrightarrow> bwf (fields_of op)"

definition stale :: "RowOp \<Rightarrow> RegistryRow \<Rightarrow> string \<Rightarrow> bool" where
  "stale op r k \<longleftrightarrow> \<not> hlc_newer (clock_for op k) (map_of (rw_clocks r) k)"

definition some_new :: "RowOp \<Rightarrow> (string, json) bmap \<Rightarrow> RegistryRow \<Rightarrow> bool" where
  "some_new op kvs r \<longleftrightarrow> (\<exists>k \<in> fst ` set kvs. \<not> stale op r k)"

lemma some_new_simps [simp]:
  "\<not> some_new op [] r" "some_new op ((k, v) # kvs) r \<longleftrightarrow> \<not> stale op r k \<or> some_new op kvs r"
  by (simp_all add: some_new_def)

text \<open>What a lookup returns after an operation's fields are written.\<close>

definition clock_after :: "RowOp \<Rightarrow> (string, json) bmap \<Rightarrow> RegistryRow \<Rightarrow> string \<Rightarrow> string option" where
  "clock_after op kvs r k =
     (if map_of kvs k \<noteq> None \<and> \<not> stale op r k then Some (clock_for op k) else map_of (rw_clocks r) k)"

definition field_after :: "RowOp \<Rightarrow> (string, json) bmap \<Rightarrow> RegistryRow \<Rightarrow> string \<Rightarrow> json option" where
  "field_after op kvs r k =
     (if map_of kvs k \<noteq> None \<and> \<not> stale op r k
      then (if map_of kvs k = Some JNull then None else map_of kvs k)
      else map_of (rw_fields r) k)"

lemma write_field_step:
  "write_field op (k, v) (base, changed) =
     (if stale op base k then (base, changed)
      else (base\<lparr>rw_fields := (if v = JNull then bremove k (rw_fields base)
                               else binsert k v (rw_fields base)),
                 rw_clocks := binsert k (clock_for op k) (rw_clocks base)\<rparr>, True))"
  by (simp add: write_field_def stale_def Let_def)

lemma write_fold:
  assumes "fold (write_field op) kvs (r, c) = (r', c')" "row_wf r" "distinct (map fst kvs)"
  shows "row_wf r' \<and> (\<forall>k. map_of (rw_clocks r') k = clock_after op kvs r k) \<and>
    (\<forall>k. map_of (rw_fields r') k = field_after op kvs r k) \<and>
    (c' \<longleftrightarrow> c \<or> some_new op kvs r) \<and>
    rw_kind r' = rw_kind r \<and> rw_id r' = rw_id r \<and> rw_seq r' = rw_seq r \<and>
    rw_deleted r' = rw_deleted r \<and> rw_del_hlc r' = rw_del_hlc r"
  using assms
proof (induction kvs arbitrary: r c)
  case Nil
  then show ?case by (simp add: clock_after_def field_after_def)
next
  case (Cons kv kvs)
  obtain k v where kv: "kv = (k, v)" by (cases kv)
  obtain r1 c1 where s: "write_field op (k, v) (r, c) = (r1, c1)" by fastforce
  have fresh: "map_of kvs k = None" and dist: "distinct (map fst kvs)"
    using Cons.prems(3) by (auto simp: kv map_of_eq_None_iff)
  have r1: "row_wf r1" "\<And>j. map_of (rw_clocks r1) j = clock_after op [(k, v)] r j"
      "\<And>j. map_of (rw_fields r1) j = field_after op [(k, v)] r j"
      "c1 \<longleftrightarrow> c \<or> \<not> stale op r k"
      "rw_kind r1 = rw_kind r" "rw_id r1 = rw_id r" "rw_seq r1 = rw_seq r"
      "rw_deleted r1 = rw_deleted r" "rw_del_hlc r1 = rw_del_hlc r"
    using s Cons.prems(2)
    by (auto simp: write_field_step row_wf_def clock_after_def field_after_def bmap_simps
        bwf_binsert bwf_bremove split: if_splits)
  have stale1: "stale op r1 j \<longleftrightarrow> stale op r j" if "j \<noteq> k" for j
    using that by (simp add: stale_def r1(2) clock_after_def)
  have "clock_after op kvs r1 j = clock_after op (kv # kvs) r j"
      "field_after op kvs r1 j = field_after op (kv # kvs) r j" for j
    using fresh by (cases "j = k"; simp add: clock_after_def field_after_def r1 stale1 kv)+
  moreover have "some_new op kvs r1 \<longleftrightarrow> some_new op kvs r"
    unfolding some_new_def
  proof (intro bex_cong refl)
    fix j assume "j \<in> fst ` set kvs"
    then have "j \<noteq> k" using Cons.prems(3) by (auto simp: kv)
    then show "(\<not> stale op r1 j) = (\<not> stale op r j)" by (simp add: stale1)
  qed
  then have "c1 \<or> some_new op kvs r1 \<longleftrightarrow> c \<or> some_new op (kv # kvs) r"
    by (auto simp: r1(4) kv)
  moreover have "fold (write_field op) kvs (r1, c1) = (r', c')"
    using Cons.prems(1) s by (simp add: kv)
  ultimately show ?case using Cons.IH [OF _ r1(1) dist] r1(1-3,5-9) by simp
qed

section \<open>Operations on live rows\<close>

definition merge :: "RowOp \<Rightarrow> RegistryRow \<Rightarrow> RegistryRow" where
  "merge op r = fst (fold (write_field op) (fields_of op) (r, False))"

lemma merge_lookup:
  assumes "row_wf r" "op_wf op"
  shows "row_wf (merge op r)" "map_of (rw_clocks (merge op r)) k = clock_after op (fields_of op) r k"
    "map_of (rw_fields (merge op r)) k = field_after op (fields_of op) r k"
    "rw_kind (merge op r) = rw_kind r" "rw_id (merge op r) = rw_id r"
    "rw_seq (merge op r) = rw_seq r" "rw_deleted (merge op r) = rw_deleted r"
    "rw_del_hlc (merge op r) = rw_del_hlc r"
  using write_fold [of op "fields_of op" r False "merge op r"
      "snd (fold (write_field op) (fields_of op) (r, False))"] assms
  by (simp_all add: merge_def op_wf_def bwf_distinct)

lemma row_ext:
  assumes "row_wf r" "row_wf r'" "\<And>k. map_of (rw_clocks r) k = map_of (rw_clocks r') k"
    "\<And>k. map_of (rw_fields r) k = map_of (rw_fields r') k" "rw_kind r = rw_kind r'"
    "rw_id r = rw_id r'" "rw_seq r = rw_seq r'" "rw_deleted r = rw_deleted r'"
    "rw_del_hlc r = rw_del_hlc r'"
  shows "(r :: RegistryRow) = r'"
  using assms bm.ext [of "rw_clocks r" "rw_clocks r'"] bm.ext [of "rw_fields r" "rw_fields r'"]
  by (intro RegistryRow.equality) (simp_all add: row_wf_def)

lemma merge_stale:
  assumes "row_wf r" "op_wf op" "\<not> some_new op (fields_of op) r"
  shows "merge op r = r"
proof -
  have "map_of (fields_of op) k \<noteq> None \<Longrightarrow> stale op r k" for k
    using assms(3) by (force simp: some_new_def dest: map_of_SomeD)
  then show ?thesis
    using assms(1,2)
    by (intro row_ext) (auto simp: merge_lookup clock_after_def field_after_def)
qed

lemma fold_write_changed:
  assumes "row_wf r" "op_wf op"
  shows "fold (write_field op) (fields_of op) (r, c) = (merge op r, c \<or> some_new op (fields_of op) r)"
proof -
  obtain r' c' where f: "fold (write_field op) (fields_of op) (r, c) = (r', c')" by fastforce
  have d: "distinct (map fst (fields_of op))" using assms(2) by (simp add: op_wf_def bwf_distinct)
  note w = write_fold [OF f assms(1) d]
  have "r' = merge op r"
    using w assms by (intro row_ext) (simp_all add: merge_lookup)
  then show ?thesis using f w by simp
qed

lemma apply_live:
  assumes "row_wf r" "op_wf op" "\<not> rw_deleted r" "ro_op op \<noteq> Delete"
  shows "apply_op (Some r) op = (Some (merge op r), some_new op (fields_of op) r)"
proof -
  have "(merge op r)\<lparr>rw_deleted := False\<rparr> = merge op r"
    using merge_lookup(7) [OF assms(1,2)] assms(3) by simp
  then show ?thesis using assms
    by (simp add: apply_op_def write_fields_def fold_write_changed)
qed

lemma newer_keeps:
  "\<not> hlc_newer c x \<Longrightarrow> hlc_newer d x \<Longrightarrow> \<not> hlc_newer c (Some d)"
  by (cases x) (auto simp: hlc_newer_def)

lemma stale_kept:
  assumes "row_wf r" "op_wf op'" "stale op r k"
  shows "stale op (merge op' r) k"
  using assms newer_keeps
  by (auto simp: stale_def merge_lookup clock_after_def)

lemma stale_after_merge:
  assumes "row_wf r" "op_wf op" "map_of (fields_of op) k \<noteq> None"
  shows "stale op (merge op r) k"
  using assms by (auto simp: stale_def merge_lookup clock_after_def hlc_newer_def)

lemma not_new_iff: "\<not> some_new op kvs r \<longleftrightarrow> (\<forall>k. map_of kvs k \<noteq> None \<longrightarrow> stale op r k)"
  by (auto simp: some_new_def map_of_eq_None_iff)

section \<open>Two writes in either order\<close>

definition separate :: "RowOp \<Rightarrow> RowOp \<Rightarrow> bool" where
  "separate a b \<longleftrightarrow> (\<forall>k. map_of (fields_of a) k \<noteq> None \<and> map_of (fields_of b) k \<noteq> None \<longrightarrow>
     clock_for a k \<noteq> clock_for b k)"

lemma merge_commute:
  assumes "row_wf r" "op_wf a" "op_wf b" "separate a b"
  shows "merge a (merge b r) = merge b (merge a r)"
proof -
  note wf = merge_lookup(1) [OF assms(1,2)] merge_lookup(1) [OF assms(1,3)]
  have "map_of (rw_clocks (merge a (merge b r))) k = map_of (rw_clocks (merge b (merge a r))) k \<and>
      map_of (rw_fields (merge a (merge b r))) k = map_of (rw_fields (merge b (merge a r))) k" for k
  proof (cases "map_of (fields_of a) k = None \<or> map_of (fields_of b) k = None")
    case True
    then show ?thesis using assms(1-3) wf
      by (auto simp: merge_lookup clock_after_def field_after_def stale_def)
  next
    case False
    then have "(clock_for a k < clock_for b k \<and> \<not> clock_for b k < clock_for a k) \<or>
        (clock_for b k < clock_for a k \<and> \<not> clock_for a k < clock_for b k)"
      using assms(4) by (auto simp: separate_def neq_iff)
    then show ?thesis using False assms(1-3) wf
      by (auto simp: merge_lookup clock_after_def field_after_def stale_def hlc_newer_def
          split: option.splits dest: less_trans)
  qed
  then show ?thesis
    using assms(1-3) wf by (intro row_ext) (simp_all add: merge_lookup)
qed

section \<open>Runs of operations\<close>

text \<open>The replay loop of the overlay: an operation that yields no row leaves the row.\<close>

definition apply_ops :: "RowOp list \<Rightarrow> RegistryRow option \<Rightarrow> RegistryRow option" where
  "apply_ops ops row =
     fold (\<lambda>op row. case fst (apply_op row op) of None \<Rightarrow> row | Some r \<Rightarrow> Some r) ops row"

lemma apply_ops_simps [simp]:
  "apply_ops [] row = row"
  "apply_ops (op # ops) row =
     apply_ops ops (case fst (apply_op row op) of None \<Rightarrow> row | Some r \<Rightarrow> Some r)"
  by (simp_all add: apply_ops_def)

lemma apply_ops_append: "apply_ops (xs @ ys) row = apply_ops ys (apply_ops xs row)"
  by (simp add: apply_ops_def)

definition field_write :: "RowOp \<Rightarrow> bool" where
  "field_write op \<longleftrightarrow> op_wf op \<and> ro_op op \<noteq> Delete"

definition live :: "RegistryRow \<Rightarrow> bool" where
  "live r \<longleftrightarrow> row_wf r \<and> \<not> rw_deleted r"

lemma live_merge: "live r \<Longrightarrow> field_write op \<Longrightarrow> live (merge op r)"
  by (simp add: live_def field_write_def merge_lookup)

lemma apply_ops_live:
  "live r \<Longrightarrow> list_all field_write ops \<Longrightarrow>
     apply_ops ops (Some r) = Some (fold merge ops r) \<and> live (fold merge ops r)"
proof (induction ops arbitrary: r)
  case (Cons op ops)
  then have "apply_op (Some r) op = (Some (merge op r), some_new op (fields_of op) r)"
    by (intro apply_live) (auto simp: live_def field_write_def)
  then show ?case using Cons live_merge [of r op] by simp
qed simp

definition live_merge_fn :: "RowOp \<Rightarrow> RegistryRow \<Rightarrow> RegistryRow" where
  "live_merge_fn op r = (if row_wf r then merge op r else r)"

lemma fold_live_merge:
  "live r \<Longrightarrow> list_all field_write ops \<Longrightarrow> fold live_merge_fn ops r = fold merge ops r"
  by (induction ops arbitrary: r) (auto simp: live_merge_fn_def live_merge live_def field_write_def
      merge_lookup)

lemma live_merge_commute:
  assumes "op_wf a" "op_wf b" "a \<noteq> b \<longrightarrow> separate a b"
  shows "live_merge_fn a \<circ> live_merge_fn b = live_merge_fn b \<circ> live_merge_fn a"
  using assms by (auto simp: fun_eq_iff live_merge_fn_def merge_lookup intro: merge_commute)

lemma stale_fold:
  "live r \<Longrightarrow> list_all field_write ops \<Longrightarrow> stale op r k \<Longrightarrow> stale op (fold merge ops r) k"
  by (induction ops arbitrary: r) (auto simp: live_merge stale_kept live_def field_write_def
      merge_lookup)

lemma stale_fold_member:
  assumes "live r" "list_all field_write ops" "op \<in> set ops" "map_of (fields_of op) k \<noteq> None"
  shows "stale op (fold merge ops r) k"
proof -
  obtain us vs where ops: "ops = us @ op # vs" using assms(3) by (meson split_list)
  then have l: "live (fold merge us r)" using apply_ops_live [of r us] assms(1,2) by simp
  then have "stale op (merge op (fold merge us r)) k"
    using assms(2,4) ops by (intro stale_after_merge) (auto simp: live_def field_write_def)
  moreover have "live (merge op (fold merge us r))" using l assms(2) ops by (simp add: live_merge)
  ultimately show ?thesis using assms(2) ops by (simp add: stale_fold)
qed

text \<open>Newer than the newest clock is newer than each.\<close>

lemma newer_newest: "hlc_newer h (newest c m) \<longleftrightarrow> hlc_newer h m \<and> c < h"
  by (cases m) (auto simp: hlc_newer_def newest_def)

lemma newer_fold: "hlc_newer h (fold newest cs m) \<longleftrightarrow> hlc_newer h m \<and> (\<forall>c \<in> set cs. c < h)"
  by (induction cs arbitrary: m) (auto simp: newer_newest)

lemma newer_max:
  assumes "row_wf r"
  shows "hlc_newer h (max_clock r) \<longleftrightarrow>
    hlc_newer h (rw_del_hlc r) \<and> (\<forall>k. hlc_newer h (map_of (rw_clocks r) k))"
proof -
  have "(\<forall>c \<in> snd ` set (rw_clocks r). c < h) \<longleftrightarrow> (\<forall>k. hlc_newer h (map_of (rw_clocks r) k))"
  proof
    assume all: "\<forall>c \<in> snd ` set (rw_clocks r). c < h"
    show "\<forall>k. hlc_newer h (map_of (rw_clocks r) k)"
    proof
      fix k show "hlc_newer h (map_of (rw_clocks r) k)"
        using all by (cases "map_of (rw_clocks r) k") (force simp: hlc_newer_def dest: map_of_SomeD)+
    qed
  next
    assume all: "\<forall>k. hlc_newer h (map_of (rw_clocks r) k)"
    have "c < h" if "(k, c) \<in> set (rw_clocks r)" for k c
    proof -
      have "map_of (rw_clocks r) k = Some c"
        using that assms by (simp add: row_wf_def bwf_distinct)
      then show ?thesis using all by (metis hlc_newer_def option.simps(5))
    qed
    then show "\<forall>c \<in> snd ` set (rw_clocks r). c < h" by auto
  qed
  then show ?thesis by (simp add: max_clock_def newer_fold)
qed

text \<open>A delete that does not beat a live row never beats what the row becomes by writes.\<close>

lemma weak_delete_kept:
  assumes "row_wf r" "op_wf op" "\<not> hlc_newer h (max_clock r)"
  shows "\<not> hlc_newer h (max_clock (merge op r))"
proof -
  have grows: "hlc_newer h (map_of (rw_clocks r) k)" if "hlc_newer h (map_of (rw_clocks (merge op r)) k)" for k
    using that merge_lookup(2) [OF assms(1,2), of k]
    by (auto simp: clock_after_def stale_def hlc_newer_def split: if_splits option.splits)
  then show ?thesis using assms(3)
    unfolding newer_max [OF assms(1)] newer_max [OF merge_lookup(1) [OF assms(1,2)]]
      merge_lookup(8) [OF assms(1,2)]
    by blast
qed

text \<open>A delete is spent on a row that it does not beat.\<close>

definition spent :: "string \<Rightarrow> RegistryRow \<Rightarrow> bool" where
  "spent h r \<longleftrightarrow> row_wf r \<and> \<not> hlc_newer h (if rw_deleted r then rw_del_hlc r else max_clock r)"

definition revived :: "RegistryRow \<Rightarrow> RegistryRow" where
  "revived r = r\<lparr>rw_deleted := False, rw_fields := [], rw_clocks := []\<rparr>"

definition new_row :: "RowOp \<Rightarrow> RegistryRow" where
  "new_row op = \<lparr>rw_kind = ro_kind op, rw_id = ro_id op, rw_seq = 0, rw_deleted = False,
     rw_del_hlc = None, rw_fields = [], rw_clocks = []\<rparr>"

lemma fresh_rows [simp]: "row_wf (revived r)" "\<not> rw_deleted (revived r)" "row_wf (new_row op)"
  "\<not> rw_deleted (new_row op)" "rw_del_hlc (revived r) = rw_del_hlc r" "rw_clocks (revived r) = []"
  by (simp_all add: revived_def new_row_def row_wf_def)

lemma apply_write_cases:
  assumes "field_write op" "\<forall>x. row = Some x \<longrightarrow> row_wf x" "fst (apply_op row op) = Some r"
  shows "r = merge op (new_row op) \<and> row = None \<or>
    (\<exists>x. row = Some x \<and> rw_deleted x \<and> (r = x \<or> r = merge op (revived x))) \<or>
    (\<exists>x. row = Some x \<and> \<not> rw_deleted x \<and> r = merge op x)"
proof (cases row)
  case None
  have "(merge op (new_row op))\<lparr>rw_deleted := False\<rparr> = merge op (new_row op)"
    using merge_lookup(7) [of "new_row op" op] assms(1) by (simp add: field_write_def)
  then show ?thesis using assms(1,3) None
    by (auto simp: apply_op_def field_write_def write_fields_def fold_write_changed
        new_row_def [symmetric] split: if_splits)
next
  case (Some x)
  then have x: "row_wf x" "op_wf op" "ro_op op \<noteq> Delete" using assms(1,2) by (auto simp: field_write_def)
  have "(merge op (revived x))\<lparr>rw_deleted := False\<rparr> = merge op (revived x)"
    using merge_lookup(7) [of "revived x" op] x by simp
  moreover have "fst (apply_op (Some x) op) = Some (merge op x)" if "\<not> rw_deleted x"
    using apply_live [OF x(1,2) that x(3)] by simp
  ultimately show ?thesis using assms(3) Some x
    by (cases "rw_deleted x")
       (auto simp: apply_op_def write_fields_def fold_write_changed revived_def [symmetric]
         split: if_splits)
qed

lemma spent_kept:
  assumes "spent h r" "field_write op" "fst (apply_op (Some r) op) = Some r'"
  shows "spent h r'"
proof -
  have wf: "row_wf r" "op_wf op" using assms(1,2) by (auto simp: spent_def field_write_def)
  have revive: "spent h (merge op (revived r))" if "rw_deleted r"
  proof -
    have "\<not> hlc_newer h (max_clock (revived r))"
      using assms(1) that by (simp add: spent_def max_clock_def)
    then show ?thesis
      using weak_delete_kept [of "revived r" op h] wf by (simp add: spent_def merge_lookup)
  qed
  have written: "spent h (merge op r)" if "\<not> rw_deleted r"
    using weak_delete_kept [OF wf] assms(1) that wf by (simp add: spent_def merge_lookup)
  show ?thesis
    using apply_write_cases [OF assms(2) _ assms(3)] assms(1) wf(1) revive written by auto
qed

lemma spent_run:
  "spent h r \<Longrightarrow> list_all field_write ops \<Longrightarrow> \<exists>r'. apply_ops ops (Some r) = Some r' \<and> spent h r'"
proof (induction ops arbitrary: r)
  case (Cons op ops)
  then show ?case
    by (cases "fst (apply_op (Some r) op)") (auto dest: spent_kept)
qed simp

lemma spent_noop: "ro_op op = Delete \<Longrightarrow> spent (ro_hlc op) r \<Longrightarrow> apply_op (Some r) op = (Some r, False)"
  by (simp add: apply_op_def apply_delete_def spent_def)

lemma spent_after:
  assumes "ro_op op = Delete" "\<forall>x. row = Some x \<longrightarrow> row_wf x" "fst (apply_op row op) = Some r"
  shows "spent (ro_hlc op) r"
  using assms
  by (auto simp: apply_op_def apply_delete_def spent_def row_wf_def tombstone_def hlc_newer_def
      split: option.splits if_splits)

lemma merged_stale:
  assumes "field_write op" "\<forall>x. row = Some x \<longrightarrow> row_wf x" "fst (apply_op row op) = Some r"
    "\<not> rw_deleted r"
  shows "live r \<and> (\<forall>k. map_of (fields_of op) k \<noteq> None \<longrightarrow> stale op r k)"
proof -
  have wf: "op_wf op" using assms(1) by (simp add: field_write_def)
  obtain x where "r = merge op x" "row_wf x"
    using apply_write_cases [OF assms(1-3)] assms(2,4) fresh_rows by metis
  then show ?thesis using wf assms(4) stale_after_merge [OF _ wf]
    by (simp add: live_def merge_lookup)
qed

text \<open>Operations already merged are no-ops, in any selection; the sequence number rides along.\<close>

lemma merge_again:
  assumes "live a" "list_all field_write ops" "set qs \<subseteq> set ops"
  shows "apply_ops qs (Some (fold merge ops a)) = Some (fold merge ops a)"
proof -
  let ?m = "fold merge ops a"
  have m: "live ?m" using apply_ops_live [OF assms(1,2)] by blast
  have "merge op ?m = ?m" if op: "op \<in> set ops" for op
  proof (rule merge_stale)
    show "\<not> some_new op (fields_of op) ?m"
      using stale_fold_member [OF assms(1,2) op] by (simp add: not_new_iff)
  qed (use m op assms(2) in \<open>auto simp: live_def list_all_iff field_write_def\<close>)
  then have "fold merge qs ?m = ?m" using assms(3) by (induction qs) auto
  moreover have "list_all field_write qs" using assms(2,3) by (auto simp: list_all_iff)
  ultimately show ?thesis using apply_ops_live [OF m] by simp
qed

definition reseq :: "nat \<Rightarrow> RegistryRow \<Rightarrow> RegistryRow" where
  "reseq n r = r\<lparr>rw_seq := n\<rparr>"

lemma reseq_simps [simp]:
  "rw_deleted (reseq n r) = rw_deleted r" "rw_clocks (reseq n r) = rw_clocks r"
  "rw_fields (reseq n r) = rw_fields r" "rw_del_hlc (reseq n r) = rw_del_hlc r"
  "rw_kind (reseq n r) = rw_kind r" "rw_id (reseq n r) = rw_id r"
  by (simp_all add: reseq_def)

lemma write_fold_reseq:
  "fold (write_field op) kvs (reseq n r, c) =
     (case fold (write_field op) kvs (r, c) of (r', c') \<Rightarrow> (reseq n r', c'))"
proof (induction kvs arbitrary: r c)
  case (Cons kv kvs)
  obtain k v where kv: "kv = (k, v)" by (cases kv)
  have "write_field op kv (reseq n r, c) =
      (case write_field op kv (r, c) of (r', c') \<Rightarrow> (reseq n r', c'))"
    by (simp add: kv write_field_step stale_def reseq_def)
  then show ?case using Cons.IH by (cases "write_field op kv (r, c)") simp
qed simp

lemma write_fields_reseq:
  "write_fields op (reseq n r) c =
     (case write_fields op r c of (r', c') \<Rightarrow> (map_option (reseq n) r', c'))"
  by (cases "fold (write_field op) (fields_of op) (r, c)")
     (simp add: write_fields_def write_fold_reseq, simp add: reseq_def)

lemma apply_op_reseq:
  "apply_op (Some (reseq n r)) op =
     (case apply_op (Some r) op of (r', c') \<Rightarrow> (map_option (reseq n) r', c'))"
proof -
  have "max_clock (reseq n r) = max_clock r" by (simp add: max_clock_def)
  moreover have "(reseq n r)\<lparr>rw_deleted := False, rw_fields := [], rw_clocks := []\<rparr> =
      reseq n (r\<lparr>rw_deleted := False, rw_fields := [], rw_clocks := []\<rparr>)"
    "(reseq n r)\<lparr>rw_deleted := True, rw_del_hlc := Some h, rw_fields := [], rw_clocks := []\<rparr> =
      reseq n (r\<lparr>rw_deleted := True, rw_del_hlc := Some h, rw_fields := [], rw_clocks := []\<rparr>)" for h
    by (simp_all add: reseq_def)
  ultimately show ?thesis
    by (simp add: apply_op_def apply_delete_def write_fields_reseq split: prod.split)
qed

lemma apply_ops_reseq:
  "apply_ops ops (Some (reseq n r)) = map_option (reseq n) (apply_ops ops (Some r))"
proof (induction ops arbitrary: r)
  case (Cons op ops)
  then show ?case
    by (cases "apply_op (Some r) op") (auto simp: apply_op_reseq split: option.split)
qed simp

section \<open>Properties\<close>

text \<open>C15: Clocks never repeat or run backwards: whatever the wall clock does between calls
  (regressions, repeats, jumps), the clock strings one device emits are strictly increasing in
  string order, the order rows compare them in, as long as times stay below 13 digits.\<close>

theorem clock_strictly_increases:
  assumes "counter c \<le> 999999" "0 \<le> last_ms c" "last_ms c + int (length nows) < 10 ^ 13"
    "\<forall>n \<in> set nows. n + int (length nows) < 10 ^ 13"
  shows "sorted_wrt (<) (clock_run nows device c)"
  using assms by (rule clock_run_sorted)

theorem clock_strictly_increases_witness:
  "sorted_wrt (<) (clock_run [5, 3, 5, 9] ''dev'' default_clock)"
  by (rule clock_strictly_increases) (simp_all add: default_clock_def)

text \<open>C16: Field writes converge: updates and upserts of a live row, applied in any order and
  with any of them redelivered, give the same row, provided two different operations never
  write one field under the same clock; and no write of the run is newer than the clock the
  row ends with for its field.\<close>

theorem field_writes_converge:
  assumes "live r" "list_all field_write xs" "mset ys = mset xs"
    "\<forall>a \<in> set xs. \<forall>b \<in> set xs. a \<noteq> b \<longrightarrow> separate a b"
  shows "apply_ops ys (Some r) = apply_ops xs (Some r) \<and>
    (\<forall>op \<in> set xs. \<forall>k \<in> fst ` set (fields_of op). stale op (the (apply_ops ys (Some r))) k)"
proof -
  have ys: "list_all field_write ys"
    using assms(2) mset_eq_setD [OF assms(3)] by (simp add: list_all_iff)
  have "fold live_merge_fn xs = fold live_merge_fn ys"
    using assms by (intro fold_multiset_equiv live_merge_commute)
      (auto simp: list_all_iff field_write_def)
  then have same: "apply_ops ys (Some r) = apply_ops xs (Some r)"
    using assms(1,2) ys by (metis apply_ops_live fold_live_merge)
  have "stale op (fold merge xs r) k" if "op \<in> set xs" "k \<in> fst ` set (fields_of op)" for op k
    using that by (intro stale_fold_member [OF assms(1,2)]) (auto simp: map_of_eq_None_iff)
  then show ?thesis using same apply_ops_live [OF assms(1,2)] by simp
qed

definition write_op :: "string \<Rightarrow> (string \<times> json) list \<Rightarrow> RowOp" where
  "write_op hlc kvs = \<lparr>ro_kind = ''chats'', ro_id = ''c'', ro_op = Update, ro_set = Some kvs,
     ro_hlc = hlc, ro_clocks = None\<rparr>"

definition sample_row :: RegistryRow where
  "sample_row = \<lparr>rw_kind = ''chats'', rw_id = ''c'', rw_seq = 0, rw_deleted = False,
     rw_del_hlc = None, rw_fields = [(''title'', JStr ''x'')], rw_clocks = [(''title'', ''1'')]\<rparr>"

theorem field_writes_converge_witness:
  "apply_ops [write_op ''3'' [(''title'', JStr ''b'')], write_op ''2'' [(''title'', JStr ''a'')]]
     (Some sample_row) =
   apply_ops [write_op ''2'' [(''title'', JStr ''a'')], write_op ''3'' [(''title'', JStr ''b'')]]
     (Some sample_row)"
proof -
  let ?a = "write_op ''2'' [(''title'', JStr ''a'')]" and ?b = "write_op ''3'' [(''title'', JStr ''b'')]"
  have "live sample_row" by (simp add: live_def row_wf_def sample_row_def)
  moreover have "list_all field_write [?a, ?b]"
    by (simp add: field_write_def op_wf_def fields_of_def write_op_def)
  moreover have "separate ?a ?b" "separate ?b ?a"
    by (simp_all add: separate_def clock_for_def write_op_def)
  ultimately show ?thesis
    using field_writes_converge [of sample_row "[?a, ?b]" "[?b, ?a]"] by auto
qed

text \<open>Re-applying an operation is a no-op, at once and after any later field writes: when
  an operation has been merged and left the row live, or was a delete, applying it again after
  any updates and upserts changes nothing, whatever clocks those carry.\<close>

theorem reapply_is_noop:
  assumes "fst (apply_op row op) = Some r" "\<forall>x. row = Some x \<longrightarrow> row_wf x" "op_wf op"
    "ro_op op = Delete \<or> \<not> rw_deleted r" "list_all field_write ops"
  shows "apply_op (apply_ops ops (Some r)) op = (apply_ops ops (Some r), False)"
proof (cases "ro_op op = Delete")
  case True
  then show ?thesis
    using spent_after [OF True assms(2,1)] spent_run [OF _ assms(5)] spent_noop by metis
next
  case False
  then have op: "field_write op" "\<not> rw_deleted r" using assms(3,4) by (simp_all add: field_write_def)
  note r = merged_stale [OF op(1) assms(2,1) op(2)]
  have run: "apply_ops ops (Some r) = Some (fold merge ops r)" "live (fold merge ops r)"
    using apply_ops_live r assms(5) by blast+
  have "\<not> some_new op (fields_of op) (fold merge ops r)"
    using r assms(5) by (simp add: not_new_iff stale_fold)
  then show ?thesis using run False assms(3)
    by (simp add: apply_live live_def merge_stale)
qed

theorem reapply_is_noop_witness:
  "apply_op (apply_ops [write_op ''2'' [(''title'', JStr ''b'')]]
       (Some (sample_row\<lparr>rw_fields := [], rw_clocks := [], rw_deleted := True, rw_del_hlc := Some ''9''\<rparr>)))
     (write_op ''9'' [] \<lparr>ro_op := Delete\<rparr>) =
   (apply_ops [write_op ''2'' [(''title'', JStr ''b'')]]
       (Some (sample_row\<lparr>rw_fields := [], rw_clocks := [], rw_deleted := True, rw_del_hlc := Some ''9''\<rparr>)),
     False)"
  by (rule reapply_is_noop [where row = "Some sample_row"])
     (simp_all add: apply_op_def apply_delete_def hlc_newer_def max_clock_def newest_def sample_row_def
       write_op_def row_wf_def op_wf_def fields_of_def field_write_def)

text \<open>Re-applying an operation is not a no-op across a deletion and a revival, although the
  protocol relies on it: a field written before the row was deleted comes back when its batch
  is pushed again after another device has revived the row without that field.\<close>

theorem replay_after_revival_resurrects:
  "\<exists>old del revive. ro_hlc old < ro_hlc del \<and> ro_hlc del < ro_hlc revive \<and>
     (let before = apply_ops [old, del, revive] None; replayed = apply_ops [old] before in
        replayed \<noteq> before \<and>
        map_of (rw_fields (the before)) ''title'' = None \<and>
        map_of (rw_fields (the replayed)) ''title'' = Some (JStr ''x''))"
proof -
  let ?old = "write_op ''1'' [(''title'', JStr ''x'')] \<lparr>ro_op := Upsert\<rparr>"
  let ?del = "write_op ''2'' [] \<lparr>ro_op := Delete\<rparr>"
  let ?revive = "write_op ''3'' [(''cwd'', JStr ''d'')] \<lparr>ro_op := Upsert\<rparr>"
  have "ro_hlc ?old < ro_hlc ?del" "ro_hlc ?del < ro_hlc ?revive"
    by (simp_all add: write_op_def)
  moreover have "let before = apply_ops [?old, ?del, ?revive] None; replayed = apply_ops [?old] before in
        replayed \<noteq> before \<and>
        map_of (rw_fields (the before)) ''title'' = None \<and>
        map_of (rw_fields (the replayed)) ''title'' = Some (JStr ''x'')"
    by code_simp
  ultimately show ?thesis by blast
qed

text \<open>A row whose fields all exist, each with its clock; a tombstone has its clock only.\<close>

definition row_full :: "RegistryRow \<Rightarrow> bool" where
  "row_full r \<longleftrightarrow> row_wf r \<and>
     (if rw_deleted r then rw_fields r = [] \<and> rw_clocks r = [] \<and> rw_del_hlc r \<noteq> None
      else bkeys (rw_clocks r) = bkeys (rw_fields r) \<and> JNull \<notin> snd ` set (rw_fields r))"

lemma reseed_row:
  assumes "row_full r"
  shows "apply_op None (row_to_seed_op r) =
    (Some (r\<lparr>rw_seq := 0, rw_del_hlc := (if rw_deleted r then rw_del_hlc r else None)\<rparr>), True)"
proof (cases "rw_deleted r")
  case True
  then show ?thesis using assms
    by (auto simp: row_full_def row_to_seed_op_def apply_op_def apply_delete_def tombstone_def)
next
  case False
  define op where "op = row_to_seed_op r"
  have op: "fields_of op = rw_fields r" "op_wf op" "ro_op op = Upsert" "ro_kind op = rw_kind r"
      "ro_id op = rw_id r"
    using assms False by (simp_all add: op_def row_to_seed_op_def fields_of_def op_wf_def row_full_def row_wf_def)
  have keys: "map_of (rw_clocks r) k = None \<longleftrightarrow> map_of (rw_fields r) k = None" for k
    using assms False by (simp add: row_full_def map_of_eq_None_iff flip: set_map)
  have clock: "clock_for op k = c" if "map_of (rw_clocks r) k = Some c" for k c
    using that False by (simp add: clock_for_def op_def row_to_seed_op_def)
  have vals: "map_of (rw_fields r) k \<noteq> Some JNull" for k
    using assms False by (force simp: row_full_def dest: map_of_SomeD)
  have stale: "\<not> stale op (new_row op) k" for k by (simp add: stale_def hlc_newer_def new_row_def)
  have "merge op (new_row op) = r\<lparr>rw_seq := 0, rw_del_hlc := None\<rparr>"
  proof (rule row_ext)
    show "map_of (rw_clocks (merge op (new_row op))) k = map_of (rw_clocks (r\<lparr>rw_seq := 0, rw_del_hlc := None\<rparr>)) k" for k
      using op keys [of k] clock [of k]
      by (cases "map_of (rw_clocks r) k") (auto simp: merge_lookup clock_after_def stale, simp_all add: new_row_def)
    show "map_of (rw_fields (merge op (new_row op))) k = map_of (rw_fields (r\<lparr>rw_seq := 0, rw_del_hlc := None\<rparr>)) k" for k
      using op vals [of k] by (auto simp: merge_lookup field_after_def stale, simp_all add: new_row_def)
  qed (use assms op False in \<open>simp_all add: merge_lookup row_full_def, simp_all add: row_wf_def new_row_def\<close>)
  moreover have "apply_op None op = (Some ((merge op (new_row op))\<lparr>rw_deleted := False\<rparr>), True)"
    using op(2,3) by (simp add: apply_op_def write_fields_def fold_write_changed new_row_def [symmetric])
  ultimately show ?thesis using False by (simp add: op_def)
qed

text \<open>Re-seeding is lossless for rows without deleted fields: sent to a server that lost
  the row, the seed operation of a live row restores every field under its original clock,
  and that of a tombstone restores the tombstone with its clock.\<close>

theorem reseed_restores_row:
  assumes "row_full r"
  shows "apply_op None (row_to_seed_op r) =
    (Some (r\<lparr>rw_seq := 0, rw_del_hlc := (if rw_deleted r then rw_del_hlc r else None)\<rparr>), True)"
  using assms by (rule reseed_row)

theorem reseed_restores_row_witness:
  "apply_op None (row_to_seed_op sample_row) = (Some sample_row, True)"
proof -
  have "row_full sample_row" by (simp add: row_full_def row_wf_def sample_row_def)
  from reseed_restores_row [OF this] show ?thesis by (simp add: sample_row_def)
qed

text \<open>Re-seeding forgets deleted fields: a field deleted under a clock has no value, so the
  seed carries no write for it and its clock is lost; an older write that the row refused is
  accepted after the re-seed and the deleted field comes back.\<close>

theorem reseed_forgets_field_deletion:
  "\<exists>r op. live r \<and> apply_op (Some r) op = (Some r, False) \<and>
     map_of (rw_fields r) ''title'' = None \<and>
     map_of (rw_fields (the (apply_ops [row_to_seed_op r, op] None))) ''title'' = Some (JStr ''old'')"
proof -
  let ?r = "sample_row\<lparr>rw_fields := [], rw_clocks := [(''title'', ''5'')]\<rparr>"
  let ?op = "write_op ''3'' [(''title'', JStr ''old'')]"
  have "live ?r \<and> apply_op (Some ?r) ?op = (Some ?r, False) \<and> map_of (rw_fields ?r) ''title'' = None \<and>
     map_of (rw_fields (the (apply_ops [row_to_seed_op ?r, ?op] None))) ''title'' = Some (JStr ''old'')"
    by code_simp
  then show ?thesis by blast
qed

end
