(* ===== verification/Registry_Doc.thy ===== *)
theory Registry_Doc
  imports Registry_Rows
begin

text \<open>
  The replica of \<open>crates/doc/src/registry.rs\<close>: server rows, pending batches, cursor and
  clock, the server frames, the local writes and the overlay reads. The two-level hash map of
  rows is a list of rows with distinct (kind, id); its order is the iteration order, which the
  code leaves open, and no theorem fixes it. Readings of the wall clock within one call are a
  function \<open>now\<close> of their number.
\<close>

section \<open>State\<close>

record PendingBatch =
  pn_batch :: string
  pn_ops :: "RowOp list"
  pn_in_flight :: bool

record RegistryDoc =
  rd_device_id :: string
  rd_rows :: "RegistryRow list"
  rd_server_seq :: nat
  rd_gc_floor :: nat
  rd_clock :: HlcClock
  rd_pending :: "PendingBatch list"
  rd_generation :: nat

definition registry_new :: "string \<Rightarrow> RegistryDoc" where
  "registry_new device = \<lparr>rd_device_id = device, rd_rows = [], rd_server_seq = 0, rd_gc_floor = 0,
     rd_clock = default_clock, rd_pending = [], rd_generation = 0\<rparr>"

definition row_key :: "RegistryRow \<Rightarrow> string \<times> string" where
  "row_key r = (rw_kind r, rw_id r)"

definition op_key :: "RowOp \<Rightarrow> string \<times> string" where
  "op_key op = (ro_kind op, ro_id op)"

fun put_row :: "RegistryRow \<Rightarrow> RegistryRow list \<Rightarrow> RegistryRow list" where
  "put_row row [] = [row]"
| "put_row row (r # rs) = (if row_key r = row_key row then row # rs else r # put_row row rs)"

definition get_row :: "string \<times> string \<Rightarrow> RegistryRow list \<Rightarrow> RegistryRow option" where
  "get_row k rs = List.find (\<lambda>r. row_key r = k) rs"

definition put_authoritative :: "RegistryRow \<Rightarrow> RegistryDoc \<Rightarrow> RegistryDoc" where
  "put_authoritative row d = d\<lparr>rd_rows := put_row row (rd_rows d)\<rparr>"

section \<open>Pending batches\<close>

definition next_hlc :: "int \<Rightarrow> RegistryDoc \<Rightarrow> RegistryDoc \<times> string" where
  "next_hlc now d =
     (case clock_next now (rd_device_id d) (rd_clock d) of (c, s) \<Rightarrow> (d\<lparr>rd_clock := c\<rparr>, s))"

definition MAX_OPS_PER_BATCH :: nat where "MAX_OPS_PER_BATCH = 400"

function push_chunks :: "(nat \<Rightarrow> int) \<Rightarrow> nat \<Rightarrow> RowOp list \<Rightarrow> RegistryDoc \<Rightarrow> RegistryDoc" where
  "push_chunks now k ops d =
     (if ops = [] then d
      else case next_hlc (now k) d of (d1, hlc) \<Rightarrow>
        push_chunks now (Suc k) (drop MAX_OPS_PER_BATCH ops)
          (d1\<lparr>rd_pending := rd_pending d1 @
             [\<lparr>pn_batch = ''b-'' @ hlc, pn_ops = take MAX_OPS_PER_BATCH ops, pn_in_flight = False\<rparr>]\<rparr>))"
  by pat_completeness auto
termination
  by (relation "measure (\<lambda>(now, k, ops, d). length ops)") (auto simp: MAX_OPS_PER_BATCH_def)

declare push_chunks.simps [simp del]

definition enqueue_ops :: "(nat \<Rightarrow> int) \<Rightarrow> RowOp list \<Rightarrow> RegistryDoc \<Rightarrow> RegistryDoc" where
  "enqueue_ops now ops d =
     (if ops = [] then d else push_chunks now 0 ops (d\<lparr>rd_generation := rd_generation d + 1\<rparr>))"

definition ack_batch :: "string \<Rightarrow> RegistryDoc \<Rightarrow> RegistryDoc \<times> bool" where
  "ack_batch batch d =
     (let kept = filter (\<lambda>b. pn_batch b \<noteq> batch) (rd_pending d) in
      if length kept \<noteq> length (rd_pending d)
      then (d\<lparr>rd_pending := kept, rd_generation := rd_generation d + 1\<rparr>, True)
      else (d\<lparr>rd_pending := kept\<rparr>, False))"

definition take_pushable :: "RegistryDoc \<Rightarrow> RegistryDoc \<times> PendingBatch list" where
  "take_pushable d =
     (d\<lparr>rd_pending := map (\<lambda>b. b\<lparr>pn_in_flight := True\<rparr>) (rd_pending d)\<rparr>,
      map (\<lambda>b. b\<lparr>pn_in_flight := True\<rparr>) (filter (\<lambda>b. \<not> pn_in_flight b) (rd_pending d)))"

definition mark_disconnected :: "RegistryDoc \<Rightarrow> RegistryDoc" where
  "mark_disconnected d = d\<lparr>rd_pending := map (\<lambda>b. b\<lparr>pn_in_flight := False\<rparr>) (rd_pending d)\<rparr>"

section \<open>Server frames\<close>

datatype StateOutcome = Delta | Replaced | Reseeded

definition apply_state ::
  "(nat \<Rightarrow> int) \<Rightarrow> nat \<Rightarrow> bool \<Rightarrow> nat \<Rightarrow> RegistryRow list \<Rightarrow> RegistryDoc \<Rightarrow> RegistryDoc \<times> StateOutcome"
where
  "apply_state now seq full gc_floor rows d =
     (let d = d\<lparr>rd_generation := rd_generation d + 1\<rparr> in
      if \<not> full then
        ((fold put_authoritative rows d)\<lparr>rd_server_seq := seq, rd_gc_floor := gc_floor\<rparr>, Delta)
      else if seq < rd_server_seq d then
        (let seed = map row_to_seed_op (rd_rows d);
             d1 = (fold put_authoritative rows d)\<lparr>rd_server_seq := seq, rd_gc_floor := gc_floor\<rparr>
         in (enqueue_ops now seed d1, Reseeded))
      else
        (let incoming = fold put_row rows [];
             seed = map row_to_seed_op (filter (\<lambda>r. get_row (row_key r) incoming = None) (rd_rows d));
             d1 = d\<lparr>rd_rows := incoming, rd_server_seq := seq, rd_gc_floor := gc_floor\<rparr>
         in if seed = [] then (d1, Replaced) else (enqueue_ops now seed d1, Reseeded)))"

definition apply_rows :: "nat \<Rightarrow> RegistryRow list \<Rightarrow> RegistryDoc \<Rightarrow> RegistryDoc \<times> bool" where
  "apply_rows seq rows d =
     (let d1 = fold put_authoritative rows (d\<lparr>rd_generation := rd_generation d + 1\<rparr>) in
      if rd_server_seq d1 + 1 < seq then (d1, False)
      else (if rd_server_seq d1 < seq then d1\<lparr>rd_server_seq := seq\<rparr> else d1, True))"

section \<open>Local writes\<close>

definition write_row ::
  "(nat \<Rightarrow> int) \<Rightarrow> string \<Rightarrow> string \<Rightarrow> OpKind \<Rightarrow> (string, json) bmap \<Rightarrow> RegistryDoc \<Rightarrow> RegistryDoc" where
  "write_row now kind i op set_fields d =
     (case next_hlc (now 0) d of (d1, hlc) \<Rightarrow>
        enqueue_ops (\<lambda>k. now (Suc k))
          [\<lparr>ro_kind = kind, ro_id = i, ro_op = op, ro_set = Some set_fields, ro_hlc = hlc,
            ro_clocks = None\<rparr>] d1)"

definition delete_row_ops ::
  "(nat \<Rightarrow> int) \<Rightarrow> (string \<times> string) list \<Rightarrow> RegistryDoc \<Rightarrow> RegistryDoc" where
  "delete_row_ops now keys d =
     (case next_hlc (now 0) d of (d1, hlc) \<Rightarrow>
        enqueue_ops (\<lambda>k. now (Suc k))
          (map (\<lambda>(kind, i). \<lparr>ro_kind = kind, ro_id = i, ro_op = Delete, ro_set = None,
             ro_hlc = hlc, ro_clocks = None\<rparr>) keys) d1)"

section \<open>Overlay reads\<close>

definition ops_on :: "string \<times> string \<Rightarrow> PendingBatch list \<Rightarrow> RowOp list" where
  "ops_on k bs = filter (\<lambda>op. op_key op = k) (concat (map pn_ops bs))"

definition overlay_raw :: "string \<times> string \<Rightarrow> RegistryDoc \<Rightarrow> RegistryRow option" where
  "overlay_raw k d = apply_ops (ops_on k (rd_pending d)) (get_row k (rd_rows d))"

definition overlay_row :: "string \<Rightarrow> string \<Rightarrow> RegistryDoc \<Rightarrow> RegistryRow option" where
  "overlay_row kind i d =
     (case overlay_raw (kind, i) d of None \<Rightarrow> None
      | Some r \<Rightarrow> if rw_deleted r then None else Some r)"

fun add_new :: "'a list \<Rightarrow> 'a list \<Rightarrow> 'a list" where
  "add_new ids [] = ids"
| "add_new ids (x # xs) = add_new (if x \<in> set ids then ids else ids @ [x]) xs"

definition overlay_rows :: "string \<Rightarrow> RegistryDoc \<Rightarrow> RegistryRow list" where
  "overlay_rows kind d =
     (let known = map rw_id (filter (\<lambda>r. rw_kind r = kind) (rd_rows d));
          ids = add_new known
            (map ro_id (filter (\<lambda>op. ro_kind op = kind) (concat (map pn_ops (rd_pending d)))))
      in List.map_filter (\<lambda>i. overlay_row kind i d) ids)"

definition row_exists :: "string \<Rightarrow> string \<Rightarrow> RegistryDoc \<Rightarrow> bool" where
  "row_exists kind i d \<longleftrightarrow> overlay_row kind i d \<noteq> None"

section \<open>Persistence\<close>

definition CURRENT_RESYNC_EPOCH :: nat where "CURRENT_RESYNC_EPOCH = 1"

record PersistedState =
  ps_v :: nat
  ps_resync_epoch :: nat
  ps_device_id :: string
  ps_server_seq :: nat
  ps_gc_floor :: nat
  ps_clock :: HlcClock
  ps_rows :: "RegistryRow list"
  ps_pending :: "PendingBatch list"

text \<open>The snapshot skips the in-flight flags, which read back as unset.\<close>

definition to_snapshot :: "RegistryDoc \<Rightarrow> PersistedState" where
  "to_snapshot d = \<lparr>ps_v = 1, ps_resync_epoch = CURRENT_RESYNC_EPOCH, ps_device_id = rd_device_id d,
     ps_server_seq = rd_server_seq d, ps_gc_floor = rd_gc_floor d, ps_clock = rd_clock d,
     ps_rows = rd_rows d, ps_pending = map (\<lambda>b. b\<lparr>pn_in_flight := False\<rparr>) (rd_pending d)\<rparr>"

definition from_snapshot :: "PersistedState \<Rightarrow> string \<Rightarrow> string + RegistryDoc" where
  "from_snapshot s device =
     (if ps_v s \<noteq> 1 then Inl ''unknown registry snapshot version''
      else Inr (fold put_authoritative (ps_rows s)
        ((registry_new device)\<lparr>
           rd_server_seq := (if ps_resync_epoch s < CURRENT_RESYNC_EPOCH then 0 else ps_server_seq s),
           rd_gc_floor := ps_gc_floor s, rd_clock := ps_clock s, rd_pending := ps_pending s\<rparr>)))"

section \<open>Rows by key\<close>

definition rows_wf :: "RegistryRow list \<Rightarrow> bool" where
  "rows_wf rs \<longleftrightarrow> distinct (map row_key rs)"

lemma get_row_None: "get_row k rs = None \<longleftrightarrow> k \<notin> row_key ` set rs"
  by (auto simp: get_row_def find_None_iff)

lemma get_row_Cons: "get_row k (r # rs) = (if row_key r = k then Some r else get_row k rs)"
  by (simp add: get_row_def)

lemma get_row_key: "get_row k rs = Some r \<Longrightarrow> row_key r = k \<and> r \<in> set rs"
  unfolding get_row_def by (rule find_SomeD)

lemma get_row_member: "rows_wf rs \<Longrightarrow> r \<in> set rs \<Longrightarrow> get_row (row_key r) rs = Some r"
  by (induction rs) (auto simp: get_row_Cons rows_wf_def)

lemma get_put_row: "get_row k (put_row row rs) = (if k = row_key row then Some row else get_row k rs)"
  by (induction rs) (auto simp: get_row_Cons get_row_def)

lemma put_row_keys: "row_key ` set (put_row row rs) = insert (row_key row) (row_key ` set rs)"
  by (induction rs) auto

lemma rows_wf_put: "rows_wf rs \<Longrightarrow> rows_wf (put_row row rs)"
proof (induction rs)
  case (Cons r rs)
  then show ?case using put_row_keys [of row rs] by (auto simp: rows_wf_def)
qed (simp add: rows_wf_def)

lemma rows_wf_fold: "rows_wf rs \<Longrightarrow> rows_wf (fold put_row rows rs)"
  by (induction rows arbitrary: rs) (simp_all add: rows_wf_put)

lemma put_row_fresh: "row_key row \<notin> row_key ` set rs \<Longrightarrow> put_row row rs = rs @ [row]"
  by (induction rs) auto

lemma fold_put_fresh: "rows_wf (ks @ rs) \<Longrightarrow> fold put_row rs ks = ks @ rs"
proof (induction rs arbitrary: ks)
  case (Cons r rs)
  then have "row_key r \<notin> row_key ` set ks" by (auto simp: rows_wf_def)
  then show ?case using Cons.IH [of "ks @ [r]"] Cons.prems by (simp add: put_row_fresh)
qed simp

lemma get_fold_put:
  "get_row k (fold put_row rows rs) =
     (case List.find (\<lambda>r. row_key r = k) (rev rows) of None \<Rightarrow> get_row k rs | Some r \<Rightarrow> Some r)"
proof (induction rows rule: rev_induct)
  case (snoc r rows)
  then show ?case by (simp add: get_put_row)
qed simp

lemma fold_authoritative:
  "fold put_authoritative rows d = d\<lparr>rd_rows := fold put_row rows (rd_rows d)\<rparr>"
  by (induction rows arbitrary: d) (simp_all add: put_authoritative_def)

section \<open>What enqueueing adds\<close>

definition minted :: "RowOp list \<Rightarrow> PendingBatch list \<Rightarrow> bool" where
  "minted ops bs \<longleftrightarrow> concat (map pn_ops bs) = ops \<and>
     (\<forall>b \<in> set bs. 0 < length (pn_ops b) \<and> length (pn_ops b) \<le> MAX_OPS_PER_BATCH \<and> \<not> pn_in_flight b)"

lemma next_hlc_simps:
  "rd_pending (fst (next_hlc now d)) = rd_pending d" "rd_rows (fst (next_hlc now d)) = rd_rows d"
  "rd_server_seq (fst (next_hlc now d)) = rd_server_seq d" "rd_gc_floor (fst (next_hlc now d)) = rd_gc_floor d"
  "rd_device_id (fst (next_hlc now d)) = rd_device_id d"
  "rd_generation (fst (next_hlc now d)) = rd_generation d"
  "rd_clock (fst (next_hlc now d)) = fst (clock_next now (rd_device_id d) (rd_clock d))"
  "snd (next_hlc now d) = snd (clock_next now (rd_device_id d) (rd_clock d))"
  by (simp_all add: next_hlc_def split: prod.split)

lemma push_chunks_adds:
  "\<exists>bs c. push_chunks now k ops d = d\<lparr>rd_clock := c, rd_pending := rd_pending d @ bs\<rparr> \<and>
     minted ops bs \<and>
     map pn_batch bs = map (\<lambda>s. ''b-'' @ s)
       (clock_run (map (\<lambda>j. now (k + j)) [0..<length bs]) (rd_device_id d) (rd_clock d))"
proof (induction now k ops d rule: push_chunks.induct)
  case (1 now k ops d)
  show ?case
  proof (cases "ops = []")
    case True
    then have "push_chunks now k ops d = d\<lparr>rd_clock := rd_clock d, rd_pending := rd_pending d @ []\<rparr>"
      by (subst push_chunks.simps) simp
    then show ?thesis using True
      by (intro exI [of _ "[]"] exI [of _ "rd_clock d"]) (simp add: minted_def)
  next
    case False
    obtain c hlc where n: "clock_next (now k) (rd_device_id d) (rd_clock d) = (c, hlc)" by fastforce
    define b where "b = \<lparr>pn_batch = ''b-'' @ hlc, pn_ops = take MAX_OPS_PER_BATCH ops, pn_in_flight = False\<rparr>"
    define d1 where "d1 = d\<lparr>rd_clock := c, rd_pending := rd_pending d @ [b]\<rparr>"
    have step: "push_chunks now k ops d = push_chunks now (Suc k) (drop MAX_OPS_PER_BATCH ops) d1"
      using False by (subst push_chunks.simps) (simp add: next_hlc_def n d1_def b_def)
    obtain bs c' where IH: "push_chunks now (Suc k) (drop MAX_OPS_PER_BATCH ops) d1 =
          d1\<lparr>rd_clock := c', rd_pending := rd_pending d1 @ bs\<rparr>"
        "minted (drop MAX_OPS_PER_BATCH ops) bs"
        "map pn_batch bs = map (\<lambda>s. ''b-'' @ s)
          (clock_run (map (\<lambda>j. now (Suc k + j)) [0..<length bs]) (rd_device_id d1) (rd_clock d1))"
      using "1.IH" [OF False, of "d\<lparr>rd_clock := c\<rparr>" hlc]
      by (fastforce simp: next_hlc_def n d1_def b_def)
    have "push_chunks now k ops d = d\<lparr>rd_clock := c', rd_pending := rd_pending d @ (b # bs)\<rparr>"
      using step IH(1) by (simp add: d1_def)
    moreover have "minted ops (b # bs)"
      using IH(2) False by (simp add: minted_def b_def MAX_OPS_PER_BATCH_def)
    moreover have "[0..<length (b # bs)] = 0 # map Suc [0..<length bs]"
      by (simp add: upt_conv_Cons map_Suc_upt del: upt_Suc)
    then have "map pn_batch (b # bs) = map (\<lambda>s. ''b-'' @ s)
        (clock_run (map (\<lambda>j. now (k + j)) [0..<length (b # bs)]) (rd_device_id d) (rd_clock d))"
      using IH(3) by (simp add: d1_def b_def n comp_def)
    ultimately show ?thesis by blast
  qed
qed

lemma enqueue_adds:
  "\<exists>bs c g. enqueue_ops now ops d = d\<lparr>rd_clock := c, rd_pending := rd_pending d @ bs, rd_generation := g\<rparr> \<and>
     minted ops bs \<and>
     map pn_batch bs = map (\<lambda>s. ''b-'' @ s)
       (clock_run (map now [0..<length bs]) (rd_device_id d) (rd_clock d))"
proof (cases "ops = []")
  case True
  then have "enqueue_ops now ops d =
      d\<lparr>rd_clock := rd_clock d, rd_pending := rd_pending d @ [], rd_generation := rd_generation d\<rparr>"
    by (simp add: enqueue_ops_def)
  then show ?thesis using True by (intro exI [of _ "[]"] exI [of _ "rd_clock d"] exI [of _ "rd_generation d"]) (simp add: minted_def)
next
  case False
  let ?d = "d\<lparr>rd_generation := rd_generation d + 1\<rparr>"
  obtain bs c where "push_chunks now 0 ops ?d = ?d\<lparr>rd_clock := c, rd_pending := rd_pending ?d @ bs\<rparr>"
      "minted ops bs" "map pn_batch bs = map (\<lambda>s. ''b-'' @ s)
       (clock_run (map (\<lambda>j. now (0 + j)) [0..<length bs]) (rd_device_id ?d) (rd_clock ?d))"
    using push_chunks_adds by blast
  then show ?thesis using False
    by (intro exI [of _ bs] exI [of _ c] exI [of _ "rd_generation d + 1"]) (simp add: enqueue_ops_def)
qed

section \<open>Events on a replica\<close>

text \<open>Everything that happens to a replica, in the order it happens, with the batches each
  event hands to the transport.\<close>

datatype event =
  Ev_Write "nat \<Rightarrow> int" string string OpKind "(string, json) bmap"
| Ev_Delete "nat \<Rightarrow> int" "(string \<times> string) list"
| Ev_State "nat \<Rightarrow> int" nat bool nat "RegistryRow list"
| Ev_Rows nat "RegistryRow list"
| Ev_Ack string
| Ev_Push
| Ev_Disconnect

fun exec :: "event \<Rightarrow> RegistryDoc \<Rightarrow> RegistryDoc \<times> PendingBatch list" where
  "exec (Ev_Write now kind i op fs) d = (write_row now kind i op fs d, [])"
| "exec (Ev_Delete now keys) d = (delete_row_ops now keys d, [])"
| "exec (Ev_State now seq full floor rows) d = (fst (apply_state now seq full floor rows d), [])"
| "exec (Ev_Rows seq rows) d = (fst (apply_rows seq rows d), [])"
| "exec (Ev_Ack b) d = (fst (ack_batch b d), [])"
| "exec Ev_Push d = take_pushable d"
| "exec Ev_Disconnect d = (mark_disconnected d, [])"

text \<open>The batches an event appends to the pending queue.\<close>

definition added :: "event \<Rightarrow> RegistryDoc \<Rightarrow> PendingBatch list" where
  "added ev d = (case ev of
       Ev_Ack _ \<Rightarrow> []
     | _ \<Rightarrow> drop (length (rd_pending d)) (rd_pending (fst (exec ev d))))"

fun run :: "event list \<Rightarrow> RegistryDoc \<Rightarrow> RegistryDoc \<times> PendingBatch list \<times> PendingBatch list" where
  "run [] d = (d, [], [])"
| "run (ev # evs) d =
     (case run evs (fst (exec ev d)) of (d', pushed, enq) \<Rightarrow>
        (d', snd (exec ev d) @ pushed, added ev d @ enq))"

definition same_batch :: "PendingBatch \<Rightarrow> string \<times> RowOp list" where
  "same_batch b = (pn_batch b, pn_ops b)"

definition waiting :: "RegistryDoc \<Rightarrow> PendingBatch list" where
  "waiting d = filter (\<lambda>b. \<not> pn_in_flight b) (rd_pending d)"

text \<open>How each event changes the pending queue.\<close>

lemma pending_enqueue:
  "\<exists>bs. rd_pending (enqueue_ops now ops d) = rd_pending d @ bs \<and> minted ops bs"
proof -
  obtain bs c g where "enqueue_ops now ops d =
      d\<lparr>rd_clock := c, rd_pending := rd_pending d @ bs, rd_generation := g\<rparr>" "minted ops bs"
    using enqueue_adds by blast
  then show ?thesis by (intro exI [of _ bs]) simp
qed

definition grows :: "RegistryDoc \<Rightarrow> RegistryDoc \<Rightarrow> bool" where
  "grows d d' \<longleftrightarrow> (\<exists>bs. rd_pending d' = rd_pending d @ bs \<and> (\<forall>b \<in> set bs. \<not> pn_in_flight b))"

lemma grows_same: "rd_pending d' = rd_pending d \<Longrightarrow> grows d d'"
  by (simp add: grows_def)

lemma grows_enqueue: "rd_pending d1 = rd_pending d \<Longrightarrow> grows d (enqueue_ops now ops d1)"
  using pending_enqueue [of now ops d1] by (auto simp: grows_def minted_def)

lemma grows_write: "grows d (write_row now kind i op fs d)"
  unfolding write_row_def
  by (cases "next_hlc (now 0) d") (simp, rule grows_enqueue, metis fst_conv next_hlc_simps(1))

lemma grows_delete: "grows d (delete_row_ops now keys d)"
  unfolding delete_row_ops_def
  by (cases "next_hlc (now 0) d") (simp, rule grows_enqueue, metis fst_conv next_hlc_simps(1))

lemma grows_state: "grows d (fst (apply_state now seq full floor rows d))"
  by (auto simp: apply_state_def Let_def fold_authoritative intro: grows_same grows_enqueue)

lemma grows_rows: "grows d (fst (apply_rows seq rows d))"
  by (auto simp: apply_rows_def Let_def fold_authoritative intro: grows_same)

lemma exec_pending:
  "grows d (fst (exec ev d)) \<and> snd (exec ev d) = [] \<and> (\<forall>b. ev \<noteq> Ev_Ack b) \<or>
   (\<exists>b. ev = Ev_Ack b \<and> rd_pending (fst (exec ev d)) = filter (\<lambda>x. pn_batch x \<noteq> b) (rd_pending d)
      \<and> snd (exec ev d) = []) \<or> ev = Ev_Push \<or> ev = Ev_Disconnect"
  by (cases ev) (simp_all add: grows_write grows_delete grows_state grows_rows ack_batch_def Let_def)

lemma grows_added:
  "grows d (fst (exec ev d)) \<Longrightarrow> (\<forall>b. ev \<noteq> Ev_Ack b) \<Longrightarrow>
     rd_pending (fst (exec ev d)) = rd_pending d @ added ev d \<and> (\<forall>b \<in> set (added ev d). \<not> pn_in_flight b)"
  by (cases ev) (auto simp: grows_def added_def simp del: exec.simps)

section \<open>Pending batches over a run\<close>

lemma step_conserves:
  assumes "ev \<noteq> Ev_Disconnect"
  shows "mset (map same_batch (snd (exec ev d))) + mset (map same_batch (waiting (fst (exec ev d))))
    \<subseteq># mset (map same_batch (waiting d)) + mset (map same_batch (added ev d))"
  using exec_pending [of d ev] assms
proof (elim disjE conjE exE)
  assume g: "grows d (fst (exec ev d))" "snd (exec ev d) = []" "\<forall>b. ev \<noteq> Ev_Ack b"
  then have "waiting (fst (exec ev d)) = waiting d @ added ev d"
    using grows_added [OF g(1,3)] by (auto simp: waiting_def intro!: filter_True)
  then show ?thesis using g(2) by simp
next
  fix b assume b: "ev = Ev_Ack b" "snd (exec ev d) = []"
    "rd_pending (fst (exec ev d)) = filter (\<lambda>x. pn_batch x \<noteq> b) (rd_pending d)"
  then have "waiting (fst (exec ev d)) = filter (\<lambda>x. pn_batch x \<noteq> b) (waiting d)"
    by (simp add: waiting_def conj_commute)
  then have "mset (waiting (fst (exec ev d))) \<subseteq># mset (waiting d)" by simp
  then have "image_mset same_batch (mset (waiting (fst (exec ev d)))) \<subseteq># image_mset same_batch (mset (waiting d))"
    by (rule image_mset_subseteq_mono)
  then show ?thesis using b(1,2) by (simp add: added_def)
next
  assume ev: "ev = Ev_Push"
  have "waiting (fst (take_pushable d)) = []" by (simp add: waiting_def take_pushable_def filter_empty_conv)
  moreover have "map same_batch (snd (take_pushable d)) = map same_batch (waiting d)"
    by (simp add: waiting_def take_pushable_def same_batch_def)
  moreover have "added Ev_Push d = []" by (simp add: added_def take_pushable_def)
  ultimately show ?thesis using ev by simp
qed simp

lemma mset_chain:
  fixes A B C D E F G :: "'a multiset"
  assumes "A + B \<subseteq># C + D" "E + F \<subseteq># B + G"
  shows "(A + E) + F \<subseteq># C + (D + G)"
proof -
  have "(A + B) + (E + F) \<subseteq># (C + D) + (B + G)"
    using assms by (rule subset_mset.add_mono)
  then have "((A + E) + F) + B \<subseteq># (C + (D + G)) + B"
    by (simp only: ac_simps)
  then show ?thesis by (simp only: mset_subset_eq_mono_add_right_cancel)
qed

lemma run_conserves:
  "Ev_Disconnect \<notin> set evs \<Longrightarrow> run evs d = (d', pushed, enq) \<Longrightarrow>
    mset (map same_batch pushed) + mset (map same_batch (waiting d'))
      \<subseteq># mset (map same_batch (waiting d)) + mset (map same_batch enq)"
proof (induction evs arbitrary: d pushed enq)
  case (Cons ev evs)
  obtain p q where r: "run evs (fst (exec ev d)) = (d', p, q)" "pushed = snd (exec ev d) @ p"
      "enq = added ev d @ q"
    using Cons.prems(2) by (auto split: prod.splits)
  have IH: "mset (map same_batch p) + mset (map same_batch (waiting d')) \<subseteq>#
      mset (map same_batch (waiting (fst (exec ev d)))) + mset (map same_batch q)"
    using Cons.IH [OF _ r(1)] Cons.prems(1) by simp
  have step: "mset (map same_batch (snd (exec ev d))) + mset (map same_batch (waiting (fst (exec ev d))))
      \<subseteq># mset (map same_batch (waiting d)) + mset (map same_batch (added ev d))"
    using Cons.prems(1) by (intro step_conserves) auto
  show ?case
    using mset_chain [OF step IH] r(2,3) by (simp only: map_append mset_append)
qed simp

lemma exec_keeps_unacked:
  assumes "ev \<noteq> Ev_Ack (fst k)" "k \<in> same_batch ` set (rd_pending d)"
  shows "k \<in> same_batch ` set (rd_pending (fst (exec ev d)))"
proof -
  have flags: "same_batch (b\<lparr>pn_in_flight := f\<rparr>) = same_batch b" for b f
    by (simp add: same_batch_def)
  show ?thesis using exec_pending [of d ev] assms
    by (auto simp: grows_def take_pushable_def mark_disconnected_def image_image flags
        simp: same_batch_def)
qed

lemma run_keeps_unacked:
  "run evs d = (d', pushed, enq) \<Longrightarrow> Ev_Ack (fst k) \<notin> set evs \<Longrightarrow>
     k \<in> same_batch ` set (rd_pending d) \<or> k \<in> same_batch ` set enq \<Longrightarrow>
     k \<in> same_batch ` set (rd_pending d')"
proof (induction evs arbitrary: d pushed enq)
  case (Cons ev evs)
  obtain p q where r: "run evs (fst (exec ev d)) = (d', p, q)" "enq = added ev d @ q"
    using Cons.prems(1) by (auto split: prod.splits)
  have "set (added ev d) \<subseteq> set (rd_pending (fst (exec ev d)))"
    by (cases ev) (auto simp: added_def dest: in_set_dropD simp del: exec.simps)
  then show ?case
    using Cons.IH [OF r(1)] Cons.prems(2,3) r(2) exec_keeps_unacked [of ev k d] by auto
qed simp

section \<open>Cursor\<close>

definition apply_frames :: "(nat \<times> RegistryRow list) list \<Rightarrow> RegistryDoc \<Rightarrow> RegistryDoc" where
  "apply_frames fs d = fold (\<lambda>(seq, rows) d. fst (apply_rows seq rows d)) fs d"

lemma apply_rows_cursor:
  "rd_server_seq (fst (apply_rows seq rows d)) =
     (if seq = rd_server_seq d + 1 then seq else rd_server_seq d)"
  by (auto simp: apply_rows_def fold_authoritative Let_def)

lemma apply_rows_rows: "rd_rows (fst (apply_rows seq rows d)) = fold put_row rows (rd_rows d)"
  by (simp add: apply_rows_def fold_authoritative Let_def)

lemma frames_cursor:
  "rd_server_seq d \<le> rd_server_seq (apply_frames fs d) \<and>
   (\<forall>s. rd_server_seq d < s \<and> s \<le> rd_server_seq (apply_frames fs d) \<longrightarrow> s \<in> fst ` set fs)"
proof (induction fs arbitrary: d)
  case (Cons f fs)
  obtain seq rows where f: "f = (seq, rows)" by (cases f)
  let ?d = "fst (apply_rows seq rows d)"
  have IH: "rd_server_seq ?d \<le> rd_server_seq (apply_frames fs ?d)"
      "\<forall>s. rd_server_seq ?d < s \<and> s \<le> rd_server_seq (apply_frames fs ?d) \<longrightarrow> s \<in> fst ` set fs"
    using Cons.IH [of ?d] by simp_all
  have step: "apply_frames (f # fs) d = apply_frames fs ?d" by (simp add: f apply_frames_def)
  show ?case
  proof (cases "seq = rd_server_seq d + 1")
    case True
    then have cur: "rd_server_seq ?d = rd_server_seq d + 1" by (simp add: apply_rows_cursor)
    show ?thesis unfolding step unfolding f
    proof (intro conjI allI impI)
      fix s assume s: "rd_server_seq d < s \<and> s \<le> rd_server_seq (apply_frames fs ?d)"
      show "s \<in> fst ` set ((seq, rows) # fs)"
      proof (cases "s = seq")
        case False
        then have "rd_server_seq ?d < s" using s True cur by simp
        then show ?thesis using IH(2) s by simp
      qed simp
    qed (use IH(1) cur in simp)
  next
    case False
    then show ?thesis using IH unfolding step unfolding f by (auto simp: apply_rows_cursor)
  qed
qed (simp add: apply_frames_def)

section \<open>Overlay\<close>

lemma ops_on_append: "ops_on k (bs @ cs) = ops_on k bs @ ops_on k cs"
  by (simp add: ops_on_def)

lemma ops_on_Cons: "ops_on k (b # bs) = ops_on k [b] @ ops_on k bs"
  by (simp add: ops_on_def)

lemma ops_on_minted: "minted ops bs \<Longrightarrow> ops_on k bs = filter (\<lambda>op. op_key op = k) ops"
  by (simp add: ops_on_def minted_def)

lemma overlay_row_eq:
  "overlay_raw (kind, i) d = Some r \<Longrightarrow> overlay_row kind i d = (if rw_deleted r then None else Some r)"
  by (simp add: overlay_row_def)

text \<open>A local write is the last operation of its row.\<close>

lemma overlay_write:
  "overlay_raw (kind, i) (write_row now kind i op fs d) =
     apply_ops [\<lparr>ro_kind = kind, ro_id = i, ro_op = op, ro_set = Some fs,
       ro_hlc = snd (next_hlc (now 0) d), ro_clocks = None\<rparr>] (overlay_raw (kind, i) d)"
proof -
  let ?op = "\<lparr>ro_kind = kind, ro_id = i, ro_op = op, ro_set = Some fs,
       ro_hlc = snd (next_hlc (now 0) d), ro_clocks = None\<rparr>"
  let ?d1 = "fst (next_hlc (now 0) d)"
  obtain bs c g where e: "enqueue_ops (\<lambda>k. now (Suc k)) [?op] ?d1 =
      ?d1\<lparr>rd_clock := c, rd_pending := rd_pending ?d1 @ bs, rd_generation := g\<rparr>" "minted [?op] bs"
    using enqueue_adds by blast
  have "write_row now kind i op fs d = enqueue_ops (\<lambda>k. now (Suc k)) [?op] ?d1"
    by (simp add: write_row_def split: prod.split)
  moreover have "ops_on (kind, i) bs = [?op]" using ops_on_minted [OF e(2)] by (simp add: op_key_def)
  ultimately show ?thesis
    using e(1) by (simp add: overlay_raw_def ops_on_append apply_ops_append next_hlc_simps)
qed

lemma seed_key: "op_key (row_to_seed_op r) = row_key r"
  by (simp add: op_key_def row_key_def row_to_seed_op_def)

lemma seed_on:
  "rows_wf rs \<Longrightarrow> filter (\<lambda>op. op_key op = k) (map row_to_seed_op rs) =
     (case get_row k rs of None \<Rightarrow> [] | Some r \<Rightarrow> [row_to_seed_op r])"
proof (induction rs)
  case (Cons r rs)
  have "row_key r \<notin> row_key ` set rs" using Cons.prems by (auto simp: rows_wf_def)
  then have "get_row (row_key r) rs = None" by (rule get_row_None [THEN iffD2])
  then show ?case using Cons
    by (cases "row_key r = k") (simp_all add: get_row_Cons seed_key rows_wf_def)
qed (simp add: get_row_def)

lemma get_row_filter:
  "get_row k (filter (\<lambda>r. P (row_key r)) rs) = (if P k then get_row k rs else None)"
  by (induction rs) (auto simp: get_row_Cons get_row_def)

lemma overlay_raw_other [simp]:
  "overlay_raw k (d\<lparr>rd_generation := g, rd_rows := rs, rd_server_seq := n, rd_gc_floor := f\<rparr>) =
     apply_ops (ops_on k (rd_pending d)) (get_row k rs)"
  by (simp add: overlay_raw_def)

text \<open>What is seen of a row after a batch of operations has been enqueued behind it.\<close>

lemma overlay_enqueue:
  "overlay_raw k (enqueue_ops now ops d) =
     apply_ops (filter (\<lambda>op. op_key op = k) ops) (overlay_raw k d)"
proof -
  obtain bs c g where e: "enqueue_ops now ops d =
      d\<lparr>rd_clock := c, rd_pending := rd_pending d @ bs, rd_generation := g\<rparr>" "minted ops bs"
    using enqueue_adds by blast
  then show ?thesis
    by (simp add: overlay_raw_def ops_on_append apply_ops_append ops_on_minted)
qed

lemma seed_same_row:
  assumes "row_full r" "\<not> rw_deleted r"
  shows "apply_op (Some r) (row_to_seed_op r) = (Some r, False)"
proof -
  let ?op = "row_to_seed_op r"
  have op: "fields_of ?op = rw_fields r" "op_wf ?op" "ro_op ?op = Upsert" and wf: "row_wf r"
    using assms by (simp_all add: row_to_seed_op_def fields_of_def op_wf_def row_full_def row_wf_def)
  have "stale ?op r k" if "map_of (rw_fields r) k \<noteq> None" for k
  proof -
    have "bkeys (rw_clocks r) = bkeys (rw_fields r)" using assms by (simp add: row_full_def)
    then have "map_of (rw_clocks r) k \<noteq> None"
      using that by (metis map_of_eq_None_iff list.set_map)
    then obtain c where "map_of (rw_clocks r) k = Some c" by auto
    then show ?thesis using assms(2)
      by (simp add: stale_def hlc_newer_def clock_for_def row_to_seed_op_def)
  qed
  then have "\<not> some_new ?op (fields_of ?op) r" by (simp add: not_new_iff op(1))
  then show ?thesis using apply_live [OF wf op(2) assms(2)] merge_stale [OF wf op(2)] op(3) by simp
qed

section \<open>Properties\<close>

text \<open>Whatever the size of a write (a cascade delete of thousands of rows, a re-seed of the
  whole table), the batches it enqueues hold its operations in order, each between one and
  400 of them, below the cap over which the server rejects a batch for good; and with the
  clock within its columns their ids increase strictly, so no two are equal.\<close>

theorem enqueue_bounded:
  assumes "counter (rd_clock d) \<le> 999999" "0 \<le> last_ms (rd_clock d)"
    "last_ms (rd_clock d) + int (length ops) < 10 ^ 13"
    "\<forall>k. now k + int (length ops) < 10 ^ 13"
  shows "\<exists>bs. rd_pending (enqueue_ops now ops d) = rd_pending d @ bs \<and>
    concat (map pn_ops bs) = ops \<and>
    (\<forall>b \<in> set bs. 0 < length (pn_ops b) \<and> length (pn_ops b) \<le> 400) \<and>
    sorted_wrt (<) (map pn_batch bs)"
proof -
  obtain bs c g where e: "enqueue_ops now ops d =
      d\<lparr>rd_clock := c, rd_pending := rd_pending d @ bs, rd_generation := g\<rparr>" "minted ops bs"
      "map pn_batch bs = map (\<lambda>s. ''b-'' @ s)
         (clock_run (map now [0..<length bs]) (rd_device_id d) (rd_clock d))"
    using enqueue_adds by blast
  have "\<forall>b \<in> set bs. 0 < length (pn_ops b) \<Longrightarrow> length bs \<le> length (concat (map pn_ops bs))"
    by (induction bs) (auto simp del: length_greater_0_conv length_concat)
  then have len: "length bs \<le> length ops" using e(2) by (simp add: minted_def)
  have "sorted_wrt (<) (clock_run (map now [0..<length bs]) (rd_device_id d) (rd_clock d))"
  proof (intro clock_run_sorted ballI)
    fix n assume "n \<in> set (map now [0..<length bs])"
    then obtain k where "n = now k" by auto
    then show "n + int (length (map now [0..<length bs])) < 10 ^ 13"
      using assms(4) [rule_format, of k] len by simp
  qed (use assms len in simp_all)
  then have "sorted_wrt (<) (map pn_batch bs)"
    unfolding e(3) by (simp add: sorted_wrt_map)
  then show ?thesis using e(1,2) by (auto simp: minted_def MAX_OPS_PER_BATCH_def)
qed

definition busy_doc :: RegistryDoc where
  "busy_doc = (registry_new ''d'')\<lparr>rd_rows := [sample_row]\<rparr>"

theorem enqueue_bounded_witness:
  "\<exists>bs. rd_pending (enqueue_ops (\<lambda>_. 5) [row_to_seed_op sample_row] busy_doc) = bs \<and>
    concat (map pn_ops bs) = [row_to_seed_op sample_row]"
  using enqueue_bounded [of busy_doc "[row_to_seed_op sample_row]" "\<lambda>_. 5"]
  by (auto simp: busy_doc_def registry_new_def default_clock_def)

text \<open>On one connection no batch is pushed twice and none is made up: over any sequence of
  local writes, server frames, acknowledgements and pushes without a disconnect, the batches
  handed to the transport and those still waiting are, counted with multiplicity, among those
  that were waiting at the start and those enqueued on the way.\<close>

theorem pushed_once_per_connection:
  assumes "Ev_Disconnect \<notin> set evs" "run evs d = (d', pushed, enq)"
  shows "mset (map same_batch pushed) + mset (map same_batch (waiting d'))
    \<subseteq># mset (map same_batch (waiting d)) + mset (map same_batch enq)"
  using assms by (rule run_conserves)

theorem pushed_once_per_connection_witness:
  "\<exists>d' pushed enq. run [Ev_Delete (\<lambda>_. 5) [(''chats'', ''c'')], Ev_Push, Ev_Push] busy_doc = (d', pushed, enq) \<and>
     mset (map same_batch pushed) + mset (map same_batch (waiting d')) \<subseteq>#
       mset (map same_batch (waiting busy_doc)) + mset (map same_batch enq)"
proof -
  let ?evs = "[Ev_Delete (\<lambda>_. 5) [(''chats'', ''c'')], Ev_Push, Ev_Push]"
  obtain d' p e where r: "run ?evs busy_doc = (d', p, e)" by (metis prod_cases3)
  have "mset (map same_batch p) + mset (map same_batch (waiting d')) \<subseteq>#
       mset (map same_batch (waiting busy_doc)) + mset (map same_batch e)"
    by (rule pushed_once_per_connection [OF _ r]) simp
  then show ?thesis using r by blast
qed

text \<open>C17: A local write is never lost before its acknowledgement: whatever happens to the replica
  (server frames of every shape, pushes, disconnects, other acknowledgements), a batch that is
  pending or gets enqueued is still pending, with its operations, until its own id is
  acknowledged.\<close>

theorem unacked_is_kept:
  assumes "run evs d = (d', pushed, enq)" "Ev_Ack i \<notin> set evs"
    "(i, ops) \<in> same_batch ` (set (rd_pending d) \<union> set enq)"
  shows "(i, ops) \<in> same_batch ` set (rd_pending d')"
  using run_keeps_unacked [OF assms(1), of "(i, ops)"] assms(2,3) by (auto simp: image_Un)

theorem unacked_is_kept_witness:
  "\<exists>d' pushed enq. run [Ev_Push, Ev_Disconnect, Ev_Ack ''other'']
       (busy_doc\<lparr>rd_pending := [\<lparr>pn_batch = ''b'', pn_ops = [], pn_in_flight = False\<rparr>]\<rparr>) = (d', pushed, enq) \<and>
     (''b'', []) \<in> same_batch ` set (rd_pending d')"
proof -
  let ?d = "busy_doc\<lparr>rd_pending := [\<lparr>pn_batch = ''b'', pn_ops = [], pn_in_flight = False\<rparr>]\<rparr>"
  obtain d' p e where r: "run [Ev_Push, Ev_Disconnect, Ev_Ack ''other''] ?d = (d', p, e)"
    by (metis prod_cases3)
  have "(''b'', []) \<in> same_batch ` set (rd_pending d')"
    by (rule unacked_is_kept [OF r]) (simp_all add: same_batch_def)
  then show ?thesis using r by blast
qed

text \<open>The cursor never skips: over any sequence of row frames, in any order and with any of
  them missing or repeated, the cursor never moves back and every sequence number it passes
  belongs to a frame that was received, so a resync from the cursor misses nothing.\<close>

theorem cursor_never_skips:
  "rd_server_seq d \<le> rd_server_seq (apply_frames fs d) \<and>
   {rd_server_seq d<..rd_server_seq (apply_frames fs d)} \<subseteq> fst ` set fs"
  using frames_cursor [of d fs] by auto


definition renaming_doc :: RegistryDoc where
  "renaming_doc = busy_doc\<lparr>rd_pending :=
     [\<lparr>pn_batch = ''b'', pn_ops = [write_op ''2'' [(''title'', JStr ''y'')]], pn_in_flight = True\<rparr>]\<rparr>"




text \<open>A snapshot restores the replica: reading back what was saved gives the same rows,
  cursor, clock and pending batches, all of them pushable again, under the device that reads
  it; a snapshot of another version is refused.\<close>

theorem snapshot_roundtrip:
  assumes "rows_wf (rd_rows d)"
  shows "from_snapshot (to_snapshot d) device =
    Inr ((mark_disconnected d)\<lparr>rd_device_id := device, rd_generation := 0\<rparr>) \<and>
    (\<exists>e. from_snapshot ((to_snapshot d)\<lparr>ps_v := 2\<rparr>) device = Inl e)"
  using assms fold_put_fresh [of "[]" "rd_rows d"]
  by (simp add: from_snapshot_def to_snapshot_def fold_authoritative registry_new_def
      mark_disconnected_def CURRENT_RESYNC_EPOCH_def)

theorem snapshot_roundtrip_witness:
  "from_snapshot (to_snapshot busy_doc) ''e'' = Inr (busy_doc\<lparr>rd_device_id := ''e''\<rparr>)"
proof -
  have "rows_wf (rd_rows busy_doc)" by (simp add: busy_doc_def rows_wf_def)
  from snapshot_roundtrip [OF this, of "''e''"] show ?thesis
    by (simp add: busy_doc_def registry_new_def mark_disconnected_def)
qed

end
