(* ===== verification/Entities.thy ===== *)
theory Entities
  imports Agent
begin

text \<open>
  The synced entities of \<open>crates/proto/src/entities.rs\<close> and the row shapes through which
  \<open>crates/doc/src/workspace.rs\<close> reads them. A time stamp is its epoch milliseconds, all a
  row stores. The captured time of a source context is its RFC 3339 text; the parameter
  \<open>tm\<close> is \<open>chrono\<close>'s reader, giving the canonical text of a time it accepts.
\<close>

section \<open>Chat configuration\<close>

datatype ReasoningLevel =
  Minimal | Low | Medium | High | XHigh | MaxEffort | Ultra | Ultracode | Ultrathink

datatype SandboxLevel = ReadOnly | WorkspaceWrite | DangerFullAccess

definition harness_names :: "(string \<times> HarnessId) list" where
  "harness_names = [(''claude-code'', ClaudeCode), (''codex'', Codex), (''cursor'', Cursor),
     (''devin'', Devin), (''grok'', Grok), (''hermes'', Hermes), (''pi'', Pi),
     (''opencode'', Opencode), (''antigravity'', Antigravity), (''mock'', Mock)]"

definition reasoning_names :: "(string \<times> ReasoningLevel) list" where
  "reasoning_names = [(''minimal'', Minimal), (''low'', Low), (''medium'', Medium), (''high'', High),
     (''xhigh'', XHigh), (''max'', MaxEffort), (''ultra'', Ultra), (''ultracode'', Ultracode),
     (''ultrathink'', Ultrathink)]"

definition sandbox_names :: "(string \<times> SandboxLevel) list" where
  "sandbox_names = [(''read-only'', ReadOnly), (''workspace-write'', WorkspaceWrite),
     (''danger-full-access'', DangerFullAccess)]"

definition runtime_names :: "(string \<times> RuntimeMode) list" where
  "runtime_names = [(''approval-required'', ApprovalRequired), (''auto-accept-edits'', AutoAcceptEdits),
     (''auto'', AutoMode), (''full-access'', FullAccess)]"

definition interaction_names :: "(string \<times> InteractionMode) list" where
  "interaction_names = [(''default'', DefaultMode), (''plan'', PlanMode)]"

interpretation harness_codec: json_codec "enc_enum harness_names" "dec_enum harness_names" "\<lambda>_. True"
  by unfold_locales (case_tac x; simp add: enc_enum_def harness_names_def)+

interpretation reasoning_codec:
  json_codec "enc_enum reasoning_names" "dec_enum reasoning_names" "\<lambda>_. True"
  by unfold_locales (case_tac x; simp add: enc_enum_def reasoning_names_def)+

interpretation sandbox_codec: json_codec "enc_enum sandbox_names" "dec_enum sandbox_names" "\<lambda>_. True"
  by unfold_locales (case_tac x; simp add: enc_enum_def sandbox_names_def)+

interpretation runtime_codec: json_codec "enc_enum runtime_names" "dec_enum runtime_names" "\<lambda>_. True"
  by unfold_locales (case_tac x; simp add: enc_enum_def runtime_names_def)+

interpretation interaction_codec:
  json_codec "enc_enum interaction_names" "dec_enum interaction_names" "\<lambda>_. True"
  by unfold_locales (case_tac x; simp add: enc_enum_def interaction_names_def)+

record ChatConfig =
  cc_instance_id :: "string option"
  cc_harness :: HarnessId
  cc_model :: "string option"
  cc_reasoning :: "ReasoningLevel option"
  cc_model_options :: "(string \<times> json) list"
  cc_sandbox :: SandboxLevel
  cc_runtime_mode :: RuntimeMode
  cc_interaction_mode :: InteractionMode

definition null_or :: "('a \<Rightarrow> json) \<Rightarrow> 'a option \<Rightarrow> json" where
  "null_or enc x = (case x of None \<Rightarrow> JNull | Some v \<Rightarrow> enc v)"

lemma null_or_simps [simp]: "null_or enc None = JNull" "null_or enc (Some v) = enc v"
  by (simp_all add: null_or_def)

definition enc_chat_config :: "ChatConfig \<Rightarrow> json" where
  "enc_chat_config c = JObj (member_opt ''instanceId'' JStr (cc_instance_id c) @
     [(''harness'', enc_enum harness_names (cc_harness c)),
      (''model'', null_or JStr (cc_model c)),
      (''reasoning'', null_or (enc_enum reasoning_names) (cc_reasoning c)),
      (''modelOptions'', JObj (cc_model_options c)),
      (''sandbox'', enc_enum sandbox_names (cc_sandbox c)),
      (''runtimeMode'', enc_enum runtime_names (cc_runtime_mode c)),
      (''interactionMode'', enc_enum interaction_names (cc_interaction_mode c))])"

definition dec_chat_config :: "json \<Rightarrow> ChatConfig option" where
  "dec_chat_config v = do {
     is_obj v;
     i \<leftarrow> opt as_str ''instanceId'' v;
     h \<leftarrow> req (dec_enum harness_names) ''harness'' v;
     m \<leftarrow> opt as_str ''model'' v;
     r \<leftarrow> opt (dec_enum reasoning_names) ''reasoning'' v;
     o' \<leftarrow> dflt [] as_object ''modelOptions'' v;
     s \<leftarrow> req (dec_enum sandbox_names) ''sandbox'' v;
     rm \<leftarrow> dflt FullAccess (dec_enum runtime_names) ''runtimeMode'' v;
     im \<leftarrow> dflt DefaultMode (dec_enum interaction_names) ''interactionMode'' v;
     Some \<lparr>cc_instance_id = i, cc_harness = h, cc_model = m, cc_reasoning = r,
       cc_model_options = o', cc_sandbox = s, cc_runtime_mode = rm, cc_interaction_mode = im\<rparr>}"

lemmas config_codecs =
  harness_codec.dec_enc reasoning_codec.dec_enc sandbox_codec.dec_enc runtime_codec.dec_enc
  interaction_codec.dec_enc harness_codec.enc_not_null reasoning_codec.enc_not_null

interpretation config_codec: json_codec enc_chat_config dec_chat_config "\<lambda>_. True"
proof
  fix c :: ChatConfig
  show "dec_chat_config (enc_chat_config c) = Some c"
    by (cases "cc_instance_id c"; cases "cc_model c"; cases "cc_reasoning c")
       (simp_all add: enc_chat_config_def dec_chat_config_def wire_simps config_codecs as_object_def)
qed (simp add: enc_chat_config_def)

section \<open>Entities\<close>

record Device =
  dv_id :: string
  dv_name :: string
  dv_platform :: string
  dv_last_seen_at :: "int option"
  dv_created_at :: "int option"
  dv_version :: "string option"
  dv_cursor_sdk_version :: "string option"
  dv_capabilities :: "string list"

record Space =
  sp_id :: string
  sp_device_id :: string
  sp_path :: string
  sp_name :: "string option"
  sp_git_detected :: bool
  sp_git_checked_at :: "int option"
  sp_checkout_id :: "string option"
  sp_created_at :: int

record ConversationSourceContext =
  sx_checkout_id :: string
  sx_repo_root :: string
  sx_cwd :: string
  sx_branch :: string
  sx_head_sha :: "string option"
  sx_observed_at :: string

record Chat =
  ch_id :: string
  ch_device_id :: string
  ch_title :: "string option"
  ch_archived :: bool
  ch_cwd :: "string option"
  ch_branch :: "string option"
  ch_checkout_id :: "string option"
  ch_source_context :: "ConversationSourceContext option"
  ch_config :: "ChatConfig option"
  ch_last_message_preview :: "string option"
  ch_last_message_at :: "int option"
  ch_created_at :: int
  ch_harness_session_id :: "string option"
  ch_harness_session_cwd :: "string option"
  ch_harness_session_instance_id :: "string option"
  ch_space_id :: "string option"
  ch_last_seen_at :: "int option"
  ch_room_gen :: "nat option"

datatype SessionStatus = SsIdle | SsWorking | SsAwaitingInput | SsErrored

definition status_names :: "(string \<times> SessionStatus) list" where
  "status_names = [(''idle'', SsIdle), (''working'', SsWorking), (''awaitingInput'', SsAwaitingInput),
     (''errored'', SsErrored)]"

interpretation status_codec: json_codec "enc_enum status_names" "dec_enum status_names" "\<lambda>_. True"
  by unfold_locales (case_tac x; simp add: enc_enum_def status_names_def)+

record Session =
  ss_last_completed_turn :: "string option"
  ss_chat_id :: string
  ss_device_id :: string
  ss_status :: SessionStatus
  ss_started_at :: "int option"
  ss_updated_at :: int

definition device_supports :: "Device \<Rightarrow> string \<Rightarrow> bool" where
  "device_supports d c \<longleftrightarrow> c \<in> set (dv_capabilities d)"

definition is_slash :: "char \<Rightarrow> bool" where
  "is_slash c \<longleftrightarrow> c = CHR ''/'' \<or> c = CHR 0x5C"

text \<open>The name override, else the last component of the path, else the path.\<close>

definition display_name :: "Space \<Rightarrow> string" where
  "display_name s =
     (case sp_name s of
        Some n \<Rightarrow> if trim n \<noteq> [] then n
          else (let base = rev (takeWhile (\<lambda>c. \<not> is_slash c) (dropWhile is_slash (rev (sp_path s))))
                in if base \<noteq> [] then base else sp_path s)
      | None \<Rightarrow>
          (let base = rev (takeWhile (\<lambda>c. \<not> is_slash c) (dropWhile is_slash (rev (sp_path s))))
           in if base \<noteq> [] then base else sp_path s))"

definition on_chat2 :: "Chat \<Rightarrow> bool" where
  "on_chat2 c \<longleftrightarrow> (case ch_room_gen c of None \<Rightarrow> False | Some g \<Rightarrow> 2 \<le> g)"

definition unseen :: "Chat \<Rightarrow> bool" where
  "unseen c = (case (ch_last_message_at c, ch_last_seen_at c) of
       (Some msg, Some seen) \<Rightarrow> seen < msg
     | (Some _, None) \<Rightarrow> True
     | (None, _) \<Rightarrow> False)"

datatype ChatIndicator = IndWorking | IndAwaitingInput | IndErrored | IndCompleted | IndIdle

definition chat_indicator :: "Chat \<Rightarrow> Session option \<Rightarrow> ChatIndicator" where
  "chat_indicator c live = (case map_option ss_status live of
       Some SsWorking \<Rightarrow> IndWorking
     | Some SsAwaitingInput \<Rightarrow> IndAwaitingInput
     | Some SsErrored \<Rightarrow> if unseen c then IndErrored else IndIdle
     | _ \<Rightarrow> if unseen c then IndCompleted else IndIdle)"

section \<open>Rows\<close>

text \<open>\<open>DateTime::from_timestamp_millis\<close> covers the years -262143 to 262142.\<close>

definition dt :: "int \<Rightarrow> int" where
  "dt ms = (if - 8334601228800000 \<le> ms \<and> ms \<le> 8210266876799999 then ms else 0)"

definition representable :: "int \<Rightarrow> bool" where
  "representable ms \<longleftrightarrow> - 8334601228800000 \<le> ms \<and> ms \<le> 8210266876799999"

lemma dt_id [simp]: "representable ms \<Longrightarrow> dt ms = ms"
  by (simp add: dt_def representable_def)

definition as_u32 :: "json \<Rightarrow> nat option" where
  "as_u32 v = (case v of JInt i \<Rightarrow> if 0 \<le> i \<and> i < 2 ^ 32 then Some (nat i) else None | _ \<Rightarrow> None)"

definition enc_source_context :: "ConversationSourceContext \<Rightarrow> json" where
  "enc_source_context x = JObj ([(''checkoutId'', JStr (sx_checkout_id x)),
     (''repoRoot'', JStr (sx_repo_root x)), (''cwd'', JStr (sx_cwd x)),
     (''branch'', JStr (sx_branch x))] @ member_opt ''headSha'' JStr (sx_head_sha x) @
     [(''observedAt'', JStr (sx_observed_at x))])"

definition dec_source_context ::
  "(string \<Rightarrow> string option) \<Rightarrow> json \<Rightarrow> ConversationSourceContext option" where
  "dec_source_context tm v = do {
     c \<leftarrow> req as_str ''checkoutId'' v;
     r \<leftarrow> req as_str ''repoRoot'' v;
     w \<leftarrow> req as_str ''cwd'' v;
     b \<leftarrow> req as_str ''branch'' v;
     h \<leftarrow> opt as_str ''headSha'' v;
     t \<leftarrow> req as_str ''observedAt'' v;
     t' \<leftarrow> tm t;
     Some \<lparr>sx_checkout_id = c, sx_repo_root = r, sx_cwd = w, sx_branch = b, sx_head_sha = h,
       sx_observed_at = t'\<rparr>}"

text \<open>The SDK version counts only when it was written by the app version on the row.\<close>

definition dec_device :: "json \<Rightarrow> Device option" where
  "dec_device v = do {
     i \<leftarrow> req as_str ''id'' v;
     n \<leftarrow> req as_str ''name'' v;
     p \<leftarrow> req as_str ''platform'' v;
     l \<leftarrow> opt as_i64 ''lastSeenAt'' v;
     c \<leftarrow> opt as_i64 ''createdAt'' v;
     ver \<leftarrow> opt as_str ''version'' v;
     sdk \<leftarrow> opt as_str ''cursorSdkVersion'' v;
     eng \<leftarrow> opt as_str ''cursorSdkEngineVersion'' v;
     caps \<leftarrow> dflt [] (dec_vec as_str) ''capabilities'' v;
     Some \<lparr>dv_id = i, dv_name = n, dv_platform = p, dv_last_seen_at = map_option dt l,
       dv_created_at = map_option dt c, dv_version = ver,
       dv_cursor_sdk_version = (if ver \<noteq> None \<and> ver = eng then sdk else None),
       dv_capabilities = caps\<rparr>}"

definition dec_space :: "json \<Rightarrow> Space option" where
  "dec_space v = do {
     i \<leftarrow> req as_str ''id'' v;
     d \<leftarrow> req as_str ''deviceId'' v;
     p \<leftarrow> req as_str ''path'' v;
     n \<leftarrow> opt as_str ''name'' v;
     g \<leftarrow> dflt False as_bool ''gitDetected'' v;
     gc \<leftarrow> opt as_i64 ''gitCheckedAt'' v;
     co \<leftarrow> opt as_str ''checkoutId'' v;
     cr \<leftarrow> dflt 0 as_i64 ''createdAt'' v;
     Some \<lparr>sp_id = i, sp_device_id = d, sp_path = p, sp_name = n, sp_git_detected = g,
       sp_git_checked_at = map_option dt gc, sp_checkout_id = co, sp_created_at = dt cr\<rparr>}"

text \<open>A configuration this build cannot read costs the configuration, not the row.\<close>

definition lenient_chat_config :: "json \<Rightarrow> ChatConfig option option" where
  "lenient_chat_config v = Some (if v = JNull then None else dec_chat_config v)"

definition dec_chat :: "(string \<Rightarrow> string option) \<Rightarrow> json \<Rightarrow> Chat option" where
  "dec_chat tm v = do {
     i \<leftarrow> req as_str ''id'' v;
     d \<leftarrow> req as_str ''deviceId'' v;
     t \<leftarrow> opt as_str ''title'' v;
     ar \<leftarrow> dflt False as_bool ''archived'' v;
     cwd \<leftarrow> opt as_str ''cwd'' v;
     br \<leftarrow> opt as_str ''branch'' v;
     co \<leftarrow> opt as_str ''checkoutId'' v;
     sx \<leftarrow> opt (dec_source_context tm) ''sourceContext'' v;
     cfg \<leftarrow> dflt None lenient_chat_config ''config'' v;
     pv \<leftarrow> opt as_str ''lastMessagePreview'' v;
     la \<leftarrow> opt as_i64 ''lastMessageAt'' v;
     cr \<leftarrow> dflt 0 as_i64 ''createdAt'' v;
     hs \<leftarrow> opt as_str ''harnessSessionId'' v;
     hc \<leftarrow> opt as_str ''harnessSessionCwd'' v;
     hi \<leftarrow> opt as_str ''harnessSessionInstanceId'' v;
     sp \<leftarrow> opt as_str ''spaceId'' v;
     ls \<leftarrow> opt as_i64 ''lastSeenAt'' v;
     rg \<leftarrow> opt as_u32 ''roomGen'' v;
     Some \<lparr>ch_id = i, ch_device_id = d, ch_title = t, ch_archived = ar, ch_cwd = cwd,
       ch_branch = br, ch_checkout_id = co, ch_source_context = sx, ch_config = cfg,
       ch_last_message_preview = pv, ch_last_message_at = map_option dt la,
       ch_created_at = dt cr, ch_harness_session_id = hs, ch_harness_session_cwd = hc,
       ch_harness_session_instance_id = hi, ch_space_id = sp,
       ch_last_seen_at = map_option dt ls, ch_room_gen = rg\<rparr>}"

definition dec_session :: "json \<Rightarrow> Session option" where
  "dec_session v = do {
     t \<leftarrow> opt as_str ''lastCompletedTurn'' v;
     c \<leftarrow> req as_str ''chatId'' v;
     d \<leftarrow> req as_str ''deviceId'' v;
     s \<leftarrow> req (dec_enum status_names) ''status'' v;
     st \<leftarrow> opt as_i64 ''startedAt'' v;
     u \<leftarrow> dflt 0 as_i64 ''updatedAt'' v;
     Some \<lparr>ss_last_completed_turn = t, ss_chat_id = c, ss_device_id = d, ss_status = s,
       ss_started_at = map_option dt st, ss_updated_at = dt u\<rparr>}"

end
