(* ===== verification/Registry_Api.thy ===== *)
theory Registry_Api
  imports Registry_Doc Entities
begin

text \<open>
  The typed surface of \<open>crates/doc/src/registry.rs\<close>: reads of devices, spaces, chats and
  sessions through the overlay, full-row upserts, and the guarded one-row updates. Every write
  takes the readings \<open>now\<close> of the wall clock.
\<close>

section \<open>Fields\<close>

definition field_map :: "(string \<times> json) list \<Rightarrow> (string, json) bmap" where
  "field_map kvs = bextend kvs []"

definition opt_str :: "string option \<Rightarrow> json" where "opt_str x = null_or JStr x"

definition opt_ms :: "int option \<Rightarrow> json" where "opt_ms x = null_or JInt x"

lemma bwf_field_map [simp]: "bwf (field_map kvs)"
  by (simp add: field_map_def bwf_bextend)

lemma map_of_field_map: "distinct (map fst kvs) \<Longrightarrow> map_of (field_map kvs) k = map_of kvs k"
proof -
  assume d: "distinct (map fst kvs)"
  then have "map_of (rev kvs) = map_of kvs"
    by (intro map_of_inject_set [THEN iffD2]) (simp_all add: rev_map [symmetric])
  then show ?thesis by (simp add: field_map_def map_of_bextend split: option.split)
qed

section \<open>Reads\<close>

definition row_json :: "RegistryRow \<Rightarrow> json" where
  "row_json r = JObj (rw_fields r)"

definition read_kind :: "(json \<Rightarrow> 'a option) \<Rightarrow> string \<Rightarrow> RegistryDoc \<Rightarrow> 'a list" where
  "read_kind dec kind d = List.map_filter (\<lambda>r. dec (row_json r)) (overlay_rows kind d)"

definition row_to :: "(json \<Rightarrow> 'a option) \<Rightarrow> RegistryRow \<Rightarrow> 'a option" where
  "row_to dec r = dec (row_json r)"

definition KIND_DEVICES :: string where "KIND_DEVICES = ''devices''"
definition KIND_SPACES :: string where "KIND_SPACES = ''spaces''"
definition KIND_CHATS :: string where "KIND_CHATS = ''chats''"
definition KIND_SESSIONS :: string where "KIND_SESSIONS = ''sessions''"

definition read_devices :: "RegistryDoc \<Rightarrow> Device list" where
  "read_devices d = sort_key dv_id (read_kind dec_device KIND_DEVICES d)"

definition space :: "string \<Rightarrow> RegistryDoc \<Rightarrow> Space option" where
  "space i d = Option.bind (overlay_row KIND_SPACES i d) (row_to dec_space)"

definition read_spaces :: "RegistryDoc \<Rightarrow> Space list" where
  "read_spaces d = sort_key sp_id (read_kind dec_space KIND_SPACES d)"

definition chat :: "(string \<Rightarrow> string option) \<Rightarrow> string \<Rightarrow> RegistryDoc \<Rightarrow> Chat option" where
  "chat tm i d = Option.bind (overlay_row KIND_CHATS i d) (row_to (dec_chat tm))"

definition read_chats :: "(string \<Rightarrow> string option) \<Rightarrow> RegistryDoc \<Rightarrow> Chat list" where
  "read_chats tm d = sort_key ch_id (read_kind (dec_chat tm) KIND_CHATS d)"

definition read_sessions :: "RegistryDoc \<Rightarrow> Session list" where
  "read_sessions d = sort_key ss_chat_id (read_kind dec_session KIND_SESSIONS d)"

record WorkspaceState =
  ws_devices :: "Device list"
  ws_spaces :: "Space list"
  ws_chats :: "Chat list"
  ws_sessions :: "Session list"

definition read_all :: "(string \<Rightarrow> string option) \<Rightarrow> RegistryDoc \<Rightarrow> WorkspaceState" where
  "read_all tm d = \<lparr>ws_devices = read_devices d, ws_spaces = read_spaces d,
     ws_chats = read_chats tm d, ws_sessions = read_sessions d\<rparr>"

section \<open>Full-row upserts\<close>

definition device_fields :: "Device \<Rightarrow> (string \<times> json) list" where
  "device_fields v =
     [(''id'', JStr (dv_id v)), (''name'', JStr (dv_name v)), (''platform'', JStr (dv_platform v)),
      (''lastSeenAt'', opt_ms (dv_last_seen_at v)), (''createdAt'', opt_ms (dv_created_at v)),
      (''version'', opt_str (dv_version v)),
      (''cursorSdkVersion'', opt_str (dv_cursor_sdk_version v)),
      (''cursorSdkEngineVersion'', opt_str (dv_version v)),
      (''capabilities'', enc_strs (dv_capabilities v))]"

definition upsert_device :: "(nat \<Rightarrow> int) \<Rightarrow> Device \<Rightarrow> RegistryDoc \<Rightarrow> RegistryDoc" where
  "upsert_device now v d = write_row now KIND_DEVICES (dv_id v) Upsert (field_map (device_fields v)) d"

definition space_fields :: "Space \<Rightarrow> (string \<times> json) list" where
  "space_fields s =
     [(''id'', JStr (sp_id s)), (''deviceId'', JStr (sp_device_id s)), (''path'', JStr (sp_path s)),
      (''name'', opt_str (sp_name s)), (''gitDetected'', JBool (sp_git_detected s)),
      (''gitCheckedAt'', opt_ms (sp_git_checked_at s)),
      (''checkoutId'', opt_str (sp_checkout_id s)), (''createdAt'', JInt (sp_created_at s))]"

definition upsert_space :: "(nat \<Rightarrow> int) \<Rightarrow> Space \<Rightarrow> RegistryDoc \<Rightarrow> RegistryDoc" where
  "upsert_space now s d = write_row now KIND_SPACES (sp_id s) Upsert (field_map (space_fields s)) d"

definition chat_fields :: "Chat \<Rightarrow> (string \<times> json) list" where
  "chat_fields c =
     [(''id'', JStr (ch_id c)), (''deviceId'', JStr (ch_device_id c)),
      (''title'', opt_str (ch_title c)), (''archived'', JBool (ch_archived c)),
      (''cwd'', opt_str (ch_cwd c)), (''branch'', opt_str (ch_branch c)),
      (''checkoutId'', opt_str (ch_checkout_id c)),
      (''sourceContext'', null_or enc_source_context (ch_source_context c)),
      (''config'', null_or enc_chat_config (ch_config c)),
      (''lastMessagePreview'', opt_str (ch_last_message_preview c)),
      (''lastMessageAt'', opt_ms (ch_last_message_at c)),
      (''createdAt'', JInt (ch_created_at c)),
      (''harnessSessionId'', opt_str (ch_harness_session_id c)),
      (''harnessSessionCwd'', opt_str (ch_harness_session_cwd c)),
      (''harnessSessionInstanceId'', opt_str (ch_harness_session_instance_id c)),
      (''spaceId'', opt_str (ch_space_id c)), (''lastSeenAt'', opt_ms (ch_last_seen_at c)),
      (''roomGen'', null_or (\<lambda>g. JInt (int g)) (ch_room_gen c))]"

definition upsert_chat :: "(nat \<Rightarrow> int) \<Rightarrow> Chat \<Rightarrow> RegistryDoc \<Rightarrow> RegistryDoc" where
  "upsert_chat now c d = write_row now KIND_CHATS (ch_id c) Upsert (field_map (chat_fields c)) d"

definition claim_chat ::
  "(nat \<Rightarrow> int) \<Rightarrow> string \<Rightarrow> string option \<Rightarrow> string option \<Rightarrow> int \<Rightarrow> RegistryDoc \<Rightarrow> RegistryDoc" where
  "claim_chat now i cwd space_id created_at d =
     (let base = field_map [(''id'', JStr i), (''deviceId'', JStr (rd_device_id d)),
            (''createdAt'', JInt created_at)];
          with_cwd = (case cwd of Some c \<Rightarrow> binsert ''cwd'' (JStr c) base | None \<Rightarrow> base);
          with_space = (case space_id of Some s \<Rightarrow> binsert ''spaceId'' (JStr s) with_cwd
            | None \<Rightarrow> with_cwd)
      in write_row now KIND_CHATS i Upsert with_space d)"

definition session_fields :: "Session \<Rightarrow> (string \<times> json) list" where
  "session_fields s =
     [(''chatId'', JStr (ss_chat_id s)), (''deviceId'', JStr (ss_device_id s)),
      (''status'', enc_enum status_names (ss_status s)),
      (''lastCompletedTurn'', opt_str (ss_last_completed_turn s)),
      (''startedAt'', opt_ms (ss_started_at s)), (''updatedAt'', JInt (ss_updated_at s))]"

definition upsert_session :: "(nat \<Rightarrow> int) \<Rightarrow> Session \<Rightarrow> RegistryDoc \<Rightarrow> RegistryDoc" where
  "upsert_session now s d =
     write_row now KIND_SESSIONS (ss_chat_id s) Upsert (field_map (session_fields s)) d"

section \<open>Guarded updates\<close>

text \<open>What the row setters share: nothing unless the row exists, else one \<open>Update\<close>.\<close>

definition update_row ::
  "(nat \<Rightarrow> int) \<Rightarrow> string \<Rightarrow> string \<Rightarrow> (string \<times> json) list \<Rightarrow> RegistryDoc \<Rightarrow> RegistryDoc \<times> bool" where
  "update_row now kind i kvs d =
     (if \<not> row_exists kind i d then (d, False)
      else (write_row now kind i Update (field_map kvs) d, True))"

definition rename_device :: "(nat \<Rightarrow> int) \<Rightarrow> string \<Rightarrow> string \<Rightarrow> RegistryDoc \<Rightarrow> RegistryDoc \<times> bool" where
  "rename_device now i name d = update_row now KIND_DEVICES i [(''name'', JStr name)] d"

definition set_device_last_seen :: "(nat \<Rightarrow> int) \<Rightarrow> string \<Rightarrow> int \<Rightarrow> RegistryDoc \<Rightarrow> RegistryDoc \<times> bool" where
  "set_device_last_seen now i at d = update_row now KIND_DEVICES i [(''lastSeenAt'', JInt at)] d"

definition rename_space ::
  "(nat \<Rightarrow> int) \<Rightarrow> string \<Rightarrow> string option \<Rightarrow> RegistryDoc \<Rightarrow> RegistryDoc \<times> bool" where
  "rename_space now i name d = update_row now KIND_SPACES i [(''name'', opt_str name)] d"

definition set_space_git ::
  "(nat \<Rightarrow> int) \<Rightarrow> string \<Rightarrow> bool \<Rightarrow> string option \<Rightarrow> int \<Rightarrow> RegistryDoc \<Rightarrow> RegistryDoc \<times> bool" where
  "set_space_git now i detected checkout at d = update_row now KIND_SPACES i
     [(''gitDetected'', JBool detected), (''checkoutId'', opt_str checkout),
      (''gitCheckedAt'', JInt at)] d"

definition set_chat_seen :: "(nat \<Rightarrow> int) \<Rightarrow> string \<Rightarrow> int \<Rightarrow> RegistryDoc \<Rightarrow> RegistryDoc \<times> bool" where
  "set_chat_seen now i at d =
     (case overlay_row KIND_CHATS i d of
        None \<Rightarrow> (d, False)
      | Some r \<Rightarrow>
          (if (case Option.bind (map_of (rw_fields r) ''lastSeenAt'') as_i64 of
                 Some ms \<Rightarrow> at \<le> ms | None \<Rightarrow> False)
           then (d, True)
           else (write_row now KIND_CHATS i Update (field_map [(''lastSeenAt'', JInt at)]) d, True)))"

definition rename_chat :: "(nat \<Rightarrow> int) \<Rightarrow> string \<Rightarrow> string \<Rightarrow> RegistryDoc \<Rightarrow> RegistryDoc \<times> bool" where
  "rename_chat now i title d = update_row now KIND_CHATS i [(''title'', JStr title)] d"

definition set_chat_archived :: "(nat \<Rightarrow> int) \<Rightarrow> string \<Rightarrow> bool \<Rightarrow> RegistryDoc \<Rightarrow> RegistryDoc \<times> bool" where
  "set_chat_archived now i a d = update_row now KIND_CHATS i [(''archived'', JBool a)] d"

definition set_chat_room_gen :: "(nat \<Rightarrow> int) \<Rightarrow> string \<Rightarrow> nat \<Rightarrow> RegistryDoc \<Rightarrow> RegistryDoc \<times> bool" where
  "set_chat_room_gen now i g d = update_row now KIND_CHATS i [(''roomGen'', JInt (int g))] d"

definition set_chat_branch :: "(nat \<Rightarrow> int) \<Rightarrow> string \<Rightarrow> string \<Rightarrow> RegistryDoc \<Rightarrow> RegistryDoc \<times> bool" where
  "set_chat_branch now i b d = update_row now KIND_CHATS i [(''branch'', JStr b)] d"

definition set_chat_source_context ::
  "(nat \<Rightarrow> int) \<Rightarrow> string \<Rightarrow> ConversationSourceContext \<Rightarrow> RegistryDoc \<Rightarrow> RegistryDoc \<times> bool" where
  "set_chat_source_context now i x d = update_row now KIND_CHATS i
     [(''sourceContext'', enc_source_context x), (''branch'', JStr (sx_branch x)),
      (''checkoutId'', JStr (sx_checkout_id x))] d"

definition set_chat_cwd :: "(nat \<Rightarrow> int) \<Rightarrow> string \<Rightarrow> string \<Rightarrow> RegistryDoc \<Rightarrow> RegistryDoc \<times> bool" where
  "set_chat_cwd now i w d = update_row now KIND_CHATS i [(''cwd'', JStr w)] d"

definition set_chat_checkout :: "(nat \<Rightarrow> int) \<Rightarrow> string \<Rightarrow> string \<Rightarrow> RegistryDoc \<Rightarrow> RegistryDoc \<times> bool" where
  "set_chat_checkout now i c d = update_row now KIND_CHATS i [(''checkoutId'', JStr c)] d"

definition set_chat_config :: "(nat \<Rightarrow> int) \<Rightarrow> string \<Rightarrow> ChatConfig \<Rightarrow> RegistryDoc \<Rightarrow> RegistryDoc \<times> bool" where
  "set_chat_config now i c d = update_row now KIND_CHATS i [(''config'', enc_chat_config c)] d"

definition set_chat_harness_session ::
  "(nat \<Rightarrow> int) \<Rightarrow> string \<Rightarrow> string \<Rightarrow> string \<Rightarrow> RegistryDoc \<Rightarrow> RegistryDoc \<times> bool" where
  "set_chat_harness_session now i s w d = update_row now KIND_CHATS i
     [(''harnessSessionId'', JStr s), (''harnessSessionCwd'', JStr w)] d"

definition set_chat_harness_session_instance ::
  "(nat \<Rightarrow> int) \<Rightarrow> string \<Rightarrow> string option \<Rightarrow> RegistryDoc \<Rightarrow> RegistryDoc \<times> bool" where
  "set_chat_harness_session_instance now i inst d = update_row now KIND_CHATS i
     [(''harnessSessionInstanceId'', opt_str inst)] d"

definition set_chat_harness_session_binding ::
  "(nat \<Rightarrow> int) \<Rightarrow> string \<Rightarrow> string \<Rightarrow> string \<Rightarrow> string option \<Rightarrow> RegistryDoc \<Rightarrow>
   RegistryDoc \<times> bool" where
  "set_chat_harness_session_binding now i s w inst d = update_row now KIND_CHATS i
     [(''harnessSessionId'', JStr s), (''harnessSessionCwd'', JStr w),
      (''harnessSessionInstanceId'', opt_str inst)] d"

definition set_chat_last_message ::
  "(nat \<Rightarrow> int) \<Rightarrow> string \<Rightarrow> string \<Rightarrow> int \<Rightarrow> RegistryDoc \<Rightarrow> RegistryDoc \<times> bool" where
  "set_chat_last_message now i preview at d = update_row now KIND_CHATS i
     [(''lastMessagePreview'', JStr preview), (''lastMessageAt'', JInt at)] d"

section \<open>Deletes\<close>

definition delete_chat :: "(nat \<Rightarrow> int) \<Rightarrow> string \<Rightarrow> RegistryDoc \<Rightarrow> RegistryDoc \<times> bool" where
  "delete_chat now i d =
     (delete_row_ops now [(KIND_CHATS, i), (KIND_SESSIONS, i)] d, row_exists KIND_CHATS i d)"

record DeletedSpace =
  ds_existed :: bool
  ds_chat_ids :: "string list"

definition delete_space ::
  "(string \<Rightarrow> string option) \<Rightarrow> (nat \<Rightarrow> int) \<Rightarrow> string \<Rightarrow> RegistryDoc \<Rightarrow> RegistryDoc \<times> DeletedSpace" where
  "delete_space tm now i d =
     (let existed = row_exists KIND_SPACES i d;
          chat_ids = map ch_id (filter (\<lambda>c. ch_space_id c = Some i) (read_chats tm d));
          keys = concat (map (\<lambda>c. [(KIND_CHATS, c), (KIND_SESSIONS, c)]) chat_ids) @ [(KIND_SPACES, i)]
      in (delete_row_ops now keys d, \<lparr>ds_existed = existed, ds_chat_ids = chat_ids\<rparr>))"

section \<open>The orchestration summary\<close>

definition UNTITLED_THREAD_TITLE :: string where "UNTITLED_THREAD_TITLE = ''Conversation''"

definition or_minus_one :: "int option \<Rightarrow> int" where
  "or_minus_one x = (case x of None \<Rightarrow> -1 | Some i \<Rightarrow> i)"

definition summary_version :: "json \<Rightarrow> int \<times> int" where
  "summary_version v = (or_minus_one (as_i64 (json_index v ''hostEpoch'')),
     or_minus_one (as_i64 (json_index v ''version'')))"

text \<open>Tuples compare lexicographically.\<close>

definition not_after :: "int \<times> int \<Rightarrow> int \<times> int \<Rightarrow> bool" where
  "not_after a b \<longleftrightarrow> fst a < fst b \<or> (fst a = fst b \<and> snd a \<le> snd b)"

definition summary_patch ::
  "(string \<Rightarrow> int option) \<Rightarrow> json option \<Rightarrow> json \<Rightarrow> (string, json) bmap" where
  "summary_patch rfc_ms previous summary =
     (let changed = (\<lambda>k. case previous of None \<Rightarrow> True
            | Some old \<Rightarrow> json_index old k \<noteq> json_index summary k);
          p0 = field_map [(''orchestration'', summary)];
          p1 = (case as_str (json_index summary ''title'') of
              Some t \<Rightarrow> if changed ''title'' \<and> t \<noteq> UNTITLED_THREAD_TITLE then binsert ''title'' (JStr t) p0
                else p0
            | None \<Rightarrow> p0);
          p2 = (if previous \<noteq> None \<and> changed ''archivedAt''
                then binsert ''archived'' (JBool (json_index summary ''archivedAt'' \<noteq> JNull)) p1 else p1);
          p3 = (case Option.bind (as_str (json_index summary ''lastVisitedAt'')) rfc_ms of
              Some ms \<Rightarrow> if changed ''lastVisitedAt'' then binsert ''lastSeenAt'' (JInt ms) p2 else p2
            | None \<Rightarrow> p2)
      in p3)"

definition set_chat_orchestration ::
  "(string \<Rightarrow> int option) \<Rightarrow> (nat \<Rightarrow> int) \<Rightarrow> string \<Rightarrow> json \<Rightarrow> RegistryDoc \<Rightarrow> string + RegistryDoc" where
  "set_chat_orchestration rfc_ms now i summary d =
     (case overlay_row KIND_CHATS i d of
        None \<Rightarrow> Inl ''orchestration chat missing''
      | Some r \<Rightarrow>
          (let previous = map_of (rw_fields r) ''orchestration'' in
           case previous of
             Some old \<Rightarrow>
               (if json_index old ''hostId'' \<noteq> json_index summary ''hostId''
                then Inl ''foreign orchestration registry owner''
                else if not_after (summary_version summary) (summary_version old) then Inr d
                else Inr (write_row now KIND_CHATS i Update (summary_patch rfc_ms previous summary) d))
           | None \<Rightarrow> Inr (write_row now KIND_CHATS i Update (summary_patch rfc_ms previous summary) d)))"

definition orchestration_threads :: "RegistryDoc \<Rightarrow> json list" where
  "orchestration_threads d =
     List.map_filter (\<lambda>r. map_of (rw_fields r) ''orchestration'') (overlay_rows KIND_CHATS d)"

section \<open>Migration\<close>

definition newest_of :: "int option list \<Rightarrow> int" where
  "newest_of xs = (case List.map_filter (\<lambda>x. x) xs of [] \<Rightarrow> 1 | t # ts \<Rightarrow> fold max ts t)"

definition seed_row :: "string \<Rightarrow> string \<Rightarrow> int \<Rightarrow> (string \<times> json) list \<Rightarrow> RowOp" where
  "seed_row kind i ms kvs = \<lparr>ro_kind = kind, ro_id = i, ro_op = Upsert, ro_set = Some (field_map kvs),
     ro_hlc = encode_hlc (max ms 1) 0 ''migration'', ro_clocks = None\<rparr>"

text \<open>Migrated chats carry neither a source context nor a room generation.\<close>

definition migrated_chat_fields :: "Chat \<Rightarrow> (string \<times> json) list" where
  "migrated_chat_fields c =
     filter (\<lambda>(k, _). k \<noteq> ''sourceContext'' \<and> k \<noteq> ''roomGen'') (chat_fields c)"

definition seed_ops :: "WorkspaceState \<Rightarrow> RowOp list" where
  "seed_ops st =
     map (\<lambda>v. seed_row KIND_DEVICES (dv_id v) (newest_of [dv_last_seen_at v, dv_created_at v])
            (device_fields v)) (ws_devices st) @
     map (\<lambda>s. seed_row KIND_SPACES (sp_id s) (newest_of [sp_git_checked_at s, Some (sp_created_at s)])
            (space_fields s)) (ws_spaces st) @
     map (\<lambda>c. seed_row KIND_CHATS (ch_id c)
            (newest_of [ch_last_message_at c, ch_last_seen_at c, Some (ch_created_at c)])
            (migrated_chat_fields c)) (ws_chats st) @
     map (\<lambda>s. seed_row KIND_SESSIONS (ss_chat_id s)
            (newest_of [Some (ss_updated_at s), ss_started_at s]) (session_fields s)) (ws_sessions st)"

function enqueue_by_400 :: "(nat \<Rightarrow> nat \<Rightarrow> int) \<Rightarrow> nat \<Rightarrow> RowOp list \<Rightarrow> RegistryDoc \<Rightarrow> RegistryDoc" where
  "enqueue_by_400 now k ops d =
     (if ops = [] then d
      else enqueue_by_400 now (Suc k) (drop 400 ops) (enqueue_ops (now k) (take 400 ops) d))"
  by pat_completeness auto
termination by (relation "measure (\<lambda>(now, k, ops, d). length ops)") auto

declare enqueue_by_400.simps [simp del]

definition seed_from_workspace ::
  "(nat \<Rightarrow> nat \<Rightarrow> int) \<Rightarrow> WorkspaceState \<Rightarrow> RegistryDoc \<Rightarrow> RegistryDoc \<times> nat" where
  "seed_from_workspace now st d =
     (let ops = seed_ops st in (enqueue_by_400 now 0 ops d, length ops))"

section \<open>What a fresh write shows\<close>

text \<open>The clock of the next local write is newer than everything on the row it goes to.\<close>

definition fresh_write :: "(nat \<Rightarrow> int) \<Rightarrow> string \<Rightarrow> string \<Rightarrow> RegistryDoc \<Rightarrow> bool" where
  "fresh_write now kind i d = (case overlay_raw (kind, i) d of
     None \<Rightarrow> True
   | Some r \<Rightarrow> row_wf r \<and> hlc_newer (snd (next_hlc (now 0) d)) (max_clock r))"

definition unnull :: "json \<Rightarrow> json option" where
  "unnull v = (if v = JNull then None else Some v)"

lemma merge_fresh:
  assumes "row_wf b" "op_wf op" "ro_clocks op = None" "hlc_newer (ro_hlc op) (max_clock b)"
  shows "map_of (rw_fields (merge op b)) k =
    (case map_of (fields_of op) k of None \<Rightarrow> map_of (rw_fields b) k | Some v \<Rightarrow> unnull v)"
proof -
  have "hlc_newer (ro_hlc op) (map_of (rw_clocks b) k)"
    using assms(1,4) newer_max by blast
  then show ?thesis using assms(1-3)
    by (auto simp: merge_lookup field_after_def stale_def clock_for_def unnull_def split: option.split)
qed

lemma max_clock_fresh [simp]: "max_clock (new_row op) = None" "max_clock (revived r) = rw_del_hlc r"
  by (simp_all add: max_clock_def new_row_def)

lemma max_beats_delete: "row_wf r \<Longrightarrow> hlc_newer h (max_clock r) \<Longrightarrow> hlc_newer h (rw_del_hlc r)"
  using newer_max by blast

lemma apply_op_created:
  assumes "op_wf op" "ro_op op = Upsert"
  shows "apply_op None op = (Some (merge op (new_row op)), True)"
proof -
  have "(merge op (new_row op))\<lparr>rw_deleted := False\<rparr> = merge op (new_row op)"
    using merge_lookup(7) [of "new_row op" op] assms(1) by simp
  then show ?thesis using assms
    by (simp add: apply_op_def write_fields_def fold_write_changed new_row_def [symmetric])
qed

lemma apply_op_revived:
  assumes "op_wf op" "ro_op op = Upsert" "rw_deleted r" "hlc_newer (ro_hlc op) (rw_del_hlc r)"
  shows "apply_op (Some r) op = (Some (merge op (revived r)), True)"
proof -
  have "(merge op (revived r))\<lparr>rw_deleted := False\<rparr> = merge op (revived r)"
    using merge_lookup(7) [of "revived r" op] assms(1) by simp
  then show ?thesis using assms
    by (simp add: apply_op_def write_fields_def fold_write_changed revived_def [symmetric])
qed

text \<open>After it, the row is there and shows each field written, a \<open>null\<close> as absent, and the other
  fields as they were.\<close>

definition shown :: "string \<Rightarrow> string \<Rightarrow> RegistryDoc \<Rightarrow> (string, json) bmap" where
  "shown kind i d = (case overlay_row kind i d of None \<Rightarrow> [] | Some r \<Rightarrow> rw_fields r)"

lemma fresh_fields:
  assumes "fresh_write now kind i d" "op = Upsert \<or> op = Update \<and> row_exists kind i d" "bwf fs"
  shows "\<exists>r. overlay_row kind i (write_row now kind i op fs d) = Some r \<and>
    (\<forall>k. map_of (rw_fields r) k =
       (case map_of fs k of None \<Rightarrow> map_of (shown kind i d) k | Some v \<Rightarrow> unnull v))"
proof -
  define p where "p = \<lparr>ro_kind = kind, ro_id = i, ro_op = op, ro_set = Some fs,
       ro_hlc = snd (next_hlc (now 0) d), ro_clocks = None\<rparr>"
  have p: "op_wf p" "fields_of p = fs" "ro_clocks p = None" "ro_op p = op"
    "ro_hlc p = snd (next_hlc (now 0) d)"
    using assms(3) by (simp_all add: p_def op_wf_def fields_of_def)
  have "\<exists>b. row_wf b \<and> \<not> rw_deleted b \<and> hlc_newer (ro_hlc p) (max_clock b) \<and>
      rw_fields b = shown kind i d \<and>
      overlay_raw (kind, i) (write_row now kind i op fs d) = Some (merge p b)"
  proof (cases "overlay_raw (kind, i) d")
    case None
    then have "op = Upsert" using assms(2) by (auto simp: row_exists_def overlay_row_def)
    then have "apply_op None p = (Some (merge p (new_row p)), True)" using p by (intro apply_op_created) simp_all
    then show ?thesis using None
      by (intro exI [of _ "new_row p"])
         (simp add: overlay_write p_def [symmetric] hlc_newer_def shown_def overlay_row_def,
          simp add: new_row_def)
  next
    case (Some r)
    then have r: "row_wf r" "hlc_newer (ro_hlc p) (max_clock r)"
      using assms(1) p(5) by (simp_all add: fresh_write_def)
    show ?thesis
    proof (cases "rw_deleted r")
      case True
      then have "op = Upsert" using assms(2) Some by (auto simp: row_exists_def overlay_row_def)
      moreover have del: "hlc_newer (ro_hlc p) (rw_del_hlc r)" using r by (rule max_beats_delete)
      ultimately have "apply_op (Some r) p = (Some (merge p (revived r)), True)"
        using p True by (intro apply_op_revived) simp_all
      then show ?thesis using Some del True
        by (intro exI [of _ "revived r"])
           (simp add: overlay_write p_def [symmetric] shown_def overlay_row_def, simp add: revived_def)
    next
      case False
      have "ro_op p \<noteq> Delete" using assms(2) p(4) by auto
      then have "apply_op (Some r) p = (Some (merge p r), some_new p (fields_of p) r)"
        using r(1) p(1) False by (intro apply_live)
      then show ?thesis using Some r False
        by (intro exI [of _ r]) (simp add: overlay_write p_def [symmetric] shown_def overlay_row_def)
    qed
  qed
  then obtain b where b: "row_wf b" "\<not> rw_deleted b" "hlc_newer (ro_hlc p) (max_clock b)"
    "rw_fields b = shown kind i d"
    "overlay_raw (kind, i) (write_row now kind i op fs d) = Some (merge p b)" by blast
  have "\<not> rw_deleted (merge p b)" using b p(1) by (simp add: merge_lookup)
  then have "overlay_row kind i (write_row now kind i op fs d) = Some (merge p b)"
    using b(5) by (simp add: overlay_row_def)
  moreover have "map_of (rw_fields (merge p b)) k =
      (case map_of fs k of None \<Rightarrow> map_of (shown kind i d) k | Some v \<Rightarrow> unnull v)" for k
    using merge_fresh [OF b(1) p(1,3) b(3), of k] unfolding p(2) b(4) .
  ultimately show ?thesis by blast
qed

lemma fresh_shown:
  assumes "fresh_write now kind i d" "op = Upsert \<or> op = Update \<and> row_exists kind i d" "bwf fs"
  shows "\<exists>r. overlay_row kind i (write_row now kind i op fs d) = Some r \<and>
    (\<forall>k v. map_of fs k = Some v \<longrightarrow> map_of (rw_fields r) k = unnull v)"
  using fresh_fields [OF assms] by auto

section \<open>Entities and their rows\<close>

text \<open>What a kind of entity promises: the members it writes have distinct names, and a row that
  shows them decodes to the entity.\<close>

locale row_entity =
  fixes flds :: "'e \<Rightarrow> (string \<times> json) list"
    and dec :: "json \<Rightarrow> 'e option"
    and ok :: "'e \<Rightarrow> bool"
  assumes distinct_names: "distinct (map fst (flds e))"
    and reads: "ok e \<Longrightarrow> list_all (\<lambda>(k, v). map_of fs k = unnull v) (flds e) \<Longrightarrow> dec (JObj fs) = Some e"
begin

lemma upsert_reads:
  assumes "ok e" "fresh_write now kind i d"
  shows "Option.bind (overlay_row kind i (write_row now kind i Upsert (field_map (flds e)) d))
    (row_to dec) = Some e"
proof -
  obtain r where r: "overlay_row kind i (write_row now kind i Upsert (field_map (flds e)) d) = Some r"
    "\<forall>k v. map_of (field_map (flds e)) k = Some v \<longrightarrow> map_of (rw_fields r) k = unnull v"
    using fresh_shown [OF assms(2)] by (metis bwf_field_map)
  have "map_of (rw_fields r) k = unnull v" if "(k, v) \<in> set (flds e)" for k v
    using r(2) that by (simp add: map_of_field_map distinct_names)
  then have "list_all (\<lambda>(k, v). map_of (rw_fields r) k = unnull v) (flds e)"
    by (auto simp: list_all_iff)
  then show ?thesis using reads [OF assms(1)] r(1) by (simp add: row_to_def row_json_def)
qed

end

definition opt_at :: "(json \<Rightarrow> 'a option) \<Rightarrow> json option \<Rightarrow> 'a option option" where
  "opt_at dec y = (case y of None \<Rightarrow> Some None
     | Some x \<Rightarrow> if x = JNull then Some None else map_option Some (dec x))"

lemma field_at:
  "req dec k (JObj fs) = Option.bind (map_of fs k) dec"
  "opt dec k (JObj fs) = opt_at dec (map_of fs k)"
  "dflt x dec k (JObj fs) = (case map_of fs k of None \<Rightarrow> Some x | Some v \<Rightarrow> dec v)"
  by (simp_all add: req_def opt_def dflt_def opt_at_def split: option.split)

definition in_i64 :: "int \<Rightarrow> bool" where
  "in_i64 i \<longleftrightarrow> - (2 ^ 63) \<le> i \<and> i < 2 ^ 63"

lemma representable_i64: "representable i \<Longrightarrow> in_i64 i"
  by (simp add: representable_def in_i64_def)

lemma as_i64_JInt: "in_i64 i \<Longrightarrow> as_i64 (JInt i) = Some i"
  by (simp add: as_i64_def in_i64_def)

lemma unnull_simps [simp]:
  "unnull (JStr s) = Some (JStr s)" "unnull (JInt i) = Some (JInt i)" "unnull (JBool b) = Some (JBool b)"
  "unnull (enc_strs xs) = Some (enc_strs xs)" "unnull JNull = None"
  by (simp_all add: unnull_def enc_strs_def)

context json_codec
begin

lemma opt_at_enc: "pred_option ok x \<Longrightarrow> opt_at dec (unnull (null_or enc x)) = Some x"
  by (cases x) (simp_all add: opt_at_def unnull_def dec_enc enc_not_null)

end

declare as_leaf [simp]

lemma opt_at_str [simp]: "opt_at as_str (unnull (opt_str x)) = Some x"
  by (cases x) (simp_all add: opt_at_def opt_str_def)

lemma opt_at_ms: "pred_option representable x \<Longrightarrow> opt_at as_i64 (unnull (opt_ms x)) = Some x"
  by (cases x) (simp_all add: opt_at_def opt_ms_def as_i64_JInt representable_i64)

lemma map_dt: "pred_option representable x \<Longrightarrow> map_option dt x = x"
  by (cases x) simp_all

text \<open>What a row can carry: times \<open>chrono\<close> represents; the SDK version of a device only beside
  the application version that wrote it; a room generation of 32 bits.\<close>

definition device_ok :: "Device \<Rightarrow> bool" where
  "device_ok v \<longleftrightarrow> pred_option representable (dv_last_seen_at v) \<and>
     pred_option representable (dv_created_at v) \<and>
     (dv_version v = None \<longrightarrow> dv_cursor_sdk_version v = None)"

definition space_ok :: "Space \<Rightarrow> bool" where
  "space_ok s \<longleftrightarrow> pred_option representable (sp_git_checked_at s) \<and> representable (sp_created_at s)"

definition session_ok :: "Session \<Rightarrow> bool" where
  "session_ok s \<longleftrightarrow> pred_option representable (ss_started_at s) \<and> representable (ss_updated_at s)"

definition chat_ok :: "(string \<Rightarrow> string option) \<Rightarrow> Chat \<Rightarrow> bool" where
  "chat_ok tm c \<longleftrightarrow> pred_option representable (ch_last_message_at c) \<and>
     representable (ch_created_at c) \<and> pred_option representable (ch_last_seen_at c) \<and>
     pred_option (\<lambda>x. tm (sx_observed_at x) = Some (sx_observed_at x)) (ch_source_context c) \<and>
     pred_option (\<lambda>g. g < 2 ^ 32) (ch_room_gen c)"

lemmas row_reads = field_at opt_at_ms map_dt as_i64_JInt representable_i64

interpretation device_row: row_entity device_fields dec_device device_ok
proof
  fix e :: Device and fs
  assume "device_ok e" "list_all (\<lambda>(k, v). map_of fs k = unnull v) (device_fields e)"
  then show "dec_device (JObj fs) = Some e"
    by (cases "dv_version e")
       (simp_all add: device_ok_def device_fields_def dec_device_def row_reads strs_codec.dec_enc)
qed (simp add: device_fields_def)

interpretation space_row: row_entity space_fields dec_space space_ok
proof
  fix e :: Space and fs
  assume "space_ok e" "list_all (\<lambda>(k, v). map_of fs k = unnull v) (space_fields e)"
  then show "dec_space (JObj fs) = Some e"
    by (simp add: space_ok_def space_fields_def dec_space_def row_reads)
qed (simp add: space_fields_def)

lemma status_unnull [simp]:
  "unnull (enc_enum status_names s) = Some (enc_enum status_names s)"
  using status_codec.enc_not_null by (simp add: unnull_def)

interpretation session_row: row_entity session_fields dec_session session_ok
proof
  fix e :: Session and fs
  assume "session_ok e" "list_all (\<lambda>(k, v). map_of fs k = unnull v) (session_fields e)"
  then show "dec_session (JObj fs) = Some e"
    by (simp add: session_ok_def session_fields_def dec_session_def row_reads status_codec.dec_enc)
qed (simp add: session_fields_def)

lemma source_context_enc:
  "tm (sx_observed_at x) = Some (sx_observed_at x) \<Longrightarrow>
     dec_source_context tm (enc_source_context x) = Some x"
  by (cases "sx_head_sha x") (simp_all add: dec_source_context_def enc_source_context_def wire_simps)

interpretation source_codec: json_codec enc_source_context "dec_source_context tm"
  "\<lambda>x. tm (sx_observed_at x) = Some (sx_observed_at x)"
  by unfold_locales (simp_all add: source_context_enc, simp add: enc_source_context_def)

interpretation gen_codec: json_codec "\<lambda>g. JInt (int g)" as_u32 "\<lambda>g. g < 2 ^ 32"
  by unfold_locales (simp_all add: as_u32_def)

lemma lenient_enc: "(case unnull (null_or enc_chat_config x) of None \<Rightarrow> Some None
    | Some v \<Rightarrow> lenient_chat_config v) = Some x"
  by (cases x) (simp_all add: unnull_def lenient_chat_config_def config_codec.dec_enc
      config_codec.enc_not_null)

interpretation chat_row: row_entity chat_fields "dec_chat tm" "chat_ok tm"
proof
  fix e :: Chat and fs
  assume "chat_ok tm e" "list_all (\<lambda>(k, v). map_of fs k = unnull v) (chat_fields e)"
  then show "dec_chat tm (JObj fs) = Some e"
    by (simp add: chat_ok_def chat_fields_def dec_chat_def row_reads lenient_enc
        source_codec.opt_at_enc gen_codec.opt_at_enc)
qed (simp add: chat_fields_def)

end
