(* ===== verification/Registry_Types.thy ===== *)
theory Registry_Types
  imports Registry_Api
begin

text \<open>
  The types of the rows of \<open>crates/doc/src/registry.rs\<close>: what each member of a device, space,
  chat or session row must hold for the row to be readable, and that every operation of the
  replica keeps it so. A row the readers of \<open>crates/doc/src/workspace.rs\<close> cannot decode is
  skipped, so an ill-typed write would make a chat disappear.
\<close>

section \<open>Types of members\<close>

definition needs :: "(json \<Rightarrow> 'a option) \<Rightarrow> json \<Rightarrow> bool" where
  "needs dec v \<longleftrightarrow> dec v \<noteq> None"

definition may :: "(json \<Rightarrow> 'a option) \<Rightarrow> json \<Rightarrow> bool" where
  "may dec v \<longleftrightarrow> v = JNull \<or> dec v \<noteq> None"

definition device_types :: "(string \<times> (json \<Rightarrow> bool)) list" where
  "device_types = [(''id'', needs as_str), (''name'', needs as_str), (''platform'', needs as_str),
     (''lastSeenAt'', may as_i64), (''createdAt'', may as_i64), (''version'', may as_str),
     (''cursorSdkVersion'', may as_str), (''cursorSdkEngineVersion'', may as_str),
     (''capabilities'', needs (dec_vec as_str))]"

definition space_types :: "(string \<times> (json \<Rightarrow> bool)) list" where
  "space_types = [(''id'', needs as_str), (''deviceId'', needs as_str), (''path'', needs as_str),
     (''name'', may as_str), (''gitDetected'', needs as_bool), (''gitCheckedAt'', may as_i64),
     (''checkoutId'', may as_str), (''createdAt'', needs as_i64)]"

definition chat_types :: "(string \<Rightarrow> string option) \<Rightarrow> (string \<times> (json \<Rightarrow> bool)) list" where
  "chat_types tm = [(''id'', needs as_str), (''deviceId'', needs as_str), (''title'', may as_str),
     (''archived'', needs as_bool), (''cwd'', may as_str), (''branch'', may as_str),
     (''checkoutId'', may as_str), (''sourceContext'', may (dec_source_context tm)),
     (''lastMessagePreview'', may as_str), (''lastMessageAt'', may as_i64),
     (''createdAt'', needs as_i64), (''harnessSessionId'', may as_str),
     (''harnessSessionCwd'', may as_str), (''harnessSessionInstanceId'', may as_str),
     (''spaceId'', may as_str), (''lastSeenAt'', may as_i64), (''roomGen'', may as_u32)]"

definition session_types :: "(string \<times> (json \<Rightarrow> bool)) list" where
  "session_types = [(''lastCompletedTurn'', may as_str), (''chatId'', needs as_str),
     (''deviceId'', needs as_str), (''status'', needs (dec_enum status_names)),
     (''startedAt'', may as_i64), (''updatedAt'', needs as_i64)]"

definition kind_types ::
  "(string \<Rightarrow> string option) \<Rightarrow> string \<Rightarrow> (string \<times> (json \<Rightarrow> bool)) list" where
  "kind_types tm kind =
     (if kind = KIND_DEVICES then device_types else if kind = KIND_SPACES then space_types
      else if kind = KIND_CHATS then chat_types tm else if kind = KIND_SESSIONS then session_types
      else [])"

definition required_of :: "string \<Rightarrow> string list" where
  "required_of kind =
     (if kind = KIND_DEVICES then [''id'', ''name'', ''platform'']
      else if kind = KIND_SPACES then [''id'', ''deviceId'', ''path'']
      else if kind = KIND_CHATS then [''id'', ''deviceId'']
      else if kind = KIND_SESSIONS then [''chatId'', ''deviceId'', ''status''] else [])"

definition has_type :: "(string \<Rightarrow> string option) \<Rightarrow> string \<Rightarrow> string \<Rightarrow> json \<Rightarrow> bool" where
  "has_type tm kind k v = (case map_of (kind_types tm kind) k of None \<Rightarrow> True | Some P \<Rightarrow> P v)"

definition typed_fields :: "(string \<Rightarrow> string option) \<Rightarrow> string \<Rightarrow> (string, json) bmap \<Rightarrow> bool" where
  "typed_fields tm kind fs \<longleftrightarrow> (\<forall>k v. map_of fs k = Some v \<longrightarrow> has_type tm kind k v) \<and>
     (\<forall>k \<in> set (required_of kind). map_of fs k \<noteq> None)"

definition typed_row :: "(string \<Rightarrow> string option) \<Rightarrow> RegistryRow \<Rightarrow> bool" where
  "typed_row tm r \<longleftrightarrow> row_wf r \<and> (\<not> rw_deleted r \<longrightarrow> typed_fields tm (rw_kind r) (rw_fields r))"

definition written_ok :: "(string \<Rightarrow> string option) \<Rightarrow> string \<Rightarrow> string \<Rightarrow> json \<Rightarrow> bool" where
  "written_ok tm kind k v \<longleftrightarrow> v = JNull \<and> k \<notin> set (required_of kind) \<or> v \<noteq> JNull \<and> has_type tm kind k v"

definition typed_op :: "(string \<Rightarrow> string option) \<Rightarrow> RowOp \<Rightarrow> bool" where
  "typed_op tm op \<longleftrightarrow> op_wf op \<and>
     (\<forall>k v. map_of (fields_of op) k = Some v \<longrightarrow> written_ok tm (ro_kind op) k v) \<and>
     (ro_op op = Upsert \<longrightarrow> (\<forall>k \<in> set (required_of (ro_kind op)). map_of (fields_of op) k \<noteq> None))"

definition typed_doc :: "(string \<Rightarrow> string option) \<Rightarrow> RegistryDoc \<Rightarrow> bool" where
  "typed_doc tm d \<longleftrightarrow> (\<forall>r \<in> set (rd_rows d). typed_row tm r) \<and>
     (\<forall>b \<in> set (rd_pending d). \<forall>op \<in> set (pn_ops b). typed_op tm op)"

lemmas kinds = KIND_DEVICES_def KIND_SPACES_def KIND_CHATS_def KIND_SESSIONS_def

section \<open>Typed rows decode\<close>

lemma bind_defined: "m \<noteq> None \<Longrightarrow> (\<And>x. m = Some x \<Longrightarrow> f x \<noteq> None) \<Longrightarrow> Option.bind m f \<noteq> None"
  by (cases m) auto

lemma req_typed:
  "typed_fields tm kind fs \<Longrightarrow> map_of (kind_types tm kind) k = Some (needs dec) \<Longrightarrow>
     k \<in> set (required_of kind) \<Longrightarrow> req dec k (JObj fs) \<noteq> None"
  by (force simp: field_at needs_def typed_fields_def has_type_def)

lemma opt_typed:
  "typed_fields tm kind fs \<Longrightarrow> map_of (kind_types tm kind) k = Some (may dec) \<Longrightarrow>
     opt dec k (JObj fs) \<noteq> None"
  by (cases "map_of fs k") (force simp: field_at opt_at_def may_def typed_fields_def has_type_def)+

lemma dflt_typed:
  "typed_fields tm kind fs \<Longrightarrow> map_of (kind_types tm kind) k = Some (needs dec) \<Longrightarrow>
     dflt x dec k (JObj fs) \<noteq> None"
  by (cases "map_of fs k") (force simp: field_at needs_def typed_fields_def has_type_def)+

lemma lenient_defined: "dflt x lenient_chat_config k (JObj fs) \<noteq> None"
  by (simp add: field_at lenient_chat_config_def split: option.split)

lemmas decode_typed = req_typed opt_typed dflt_typed

lemma tables_of_kinds [simp]:
  "kind_types tm KIND_DEVICES = device_types" "kind_types tm KIND_SPACES = space_types"
  "kind_types tm KIND_CHATS = chat_types tm" "kind_types tm KIND_SESSIONS = session_types"
  "required_of KIND_DEVICES = [''id'', ''name'', ''platform'']"
  "required_of KIND_SPACES = [''id'', ''deviceId'', ''path'']"
  "required_of KIND_CHATS = [''id'', ''deviceId'']"
  "required_of KIND_SESSIONS = [''chatId'', ''deviceId'', ''status'']"
  by (simp_all add: kind_types_def required_of_def kinds)

lemma device_typed: "typed_fields tm KIND_DEVICES fs \<Longrightarrow> dec_device (JObj fs) \<noteq> None"
  unfolding dec_device_def
  by (intro bind_defined; (erule decode_typed)?; simp add: device_types_def)

lemma space_typed: "typed_fields tm KIND_SPACES fs \<Longrightarrow> dec_space (JObj fs) \<noteq> None"
  unfolding dec_space_def
  by (intro bind_defined; (erule decode_typed)?; simp add: space_types_def)

lemma chat_typed: "typed_fields tm KIND_CHATS fs \<Longrightarrow> dec_chat tm (JObj fs) \<noteq> None"
  unfolding dec_chat_def
  by (intro bind_defined; (rule lenient_defined | erule decode_typed)?; simp add: chat_types_def)

lemma session_typed: "typed_fields tm KIND_SESSIONS fs \<Longrightarrow> dec_session (JObj fs) \<noteq> None"
  unfolding dec_session_def
  by (intro bind_defined; (erule decode_typed)?; simp add: session_types_def)

section \<open>Operations keep rows typed\<close>

lemma typed_merge:
  assumes "row_wf b" "typed_op tm op" "rw_kind b = ro_kind op"
    "\<forall>k v. map_of (rw_fields b) k = Some v \<longrightarrow> has_type tm (ro_kind op) k v"
    "\<forall>k \<in> set (required_of (ro_kind op)). map_of (rw_fields b) k \<noteq> None \<or>
       (map_of (fields_of op) k \<noteq> None \<and> \<not> stale op b k)"
  shows "typed_row tm (merge op b) \<and> rw_kind (merge op b) = ro_kind op"
proof -
  have wf: "op_wf op" using assms(2) by (simp add: typed_op_def)
  note look = merge_lookup [OF assms(1) wf]
  have w: "map_of (fields_of op) k = Some v \<Longrightarrow> written_ok tm (ro_kind op) k v" for k v
    using assms(2) by (simp add: typed_op_def)
  have "has_type tm (ro_kind op) k v" if "map_of (rw_fields (merge op b)) k = Some v" for k v
    using that w [of k v] assms(4)
    by (auto simp: look field_after_def written_ok_def split: if_splits)
  moreover have "map_of (rw_fields (merge op b)) k \<noteq> None" if "k \<in> set (required_of (ro_kind op))" for k
    using that w [of k JNull] assms(5) by (auto simp: look field_after_def written_ok_def)
  ultimately show ?thesis by (simp add: typed_row_def typed_fields_def look assms(3))
qed

lemma typed_new: "typed_op tm op \<Longrightarrow> ro_op op = Upsert \<Longrightarrow> typed_row tm (merge op (new_row op))"
  by (intro typed_merge [THEN conjunct1])
     (auto simp: typed_op_def new_row_def stale_def hlc_newer_def row_wf_def)

lemma typed_revived:
  "typed_op tm op \<Longrightarrow> ro_op op = Upsert \<Longrightarrow> rw_kind r = ro_kind op \<Longrightarrow>
     typed_row tm (merge op (revived r)) \<and> rw_kind (merge op (revived r)) = ro_kind op"
  by (intro typed_merge)
     (auto simp: typed_op_def revived_def stale_def hlc_newer_def row_wf_def)

definition typed_for :: "(string \<Rightarrow> string option) \<Rightarrow> string \<Rightarrow> RegistryRow option \<Rightarrow> bool" where
  "typed_for tm kind row = pred_option (\<lambda>r. typed_row tm r \<and> rw_kind r = kind) row"

lemma typed_apply:
  assumes "typed_op tm op" "typed_for tm (ro_kind op) row"
  shows "typed_for tm (ro_kind op) (fst (apply_op row op))"
proof -
  have wf: "op_wf op" using assms(1) by (simp add: typed_op_def)
  consider "ro_op op = Delete" | "ro_op op \<noteq> Delete" "row = None"
    | r where "ro_op op \<noteq> Delete" "row = Some r" "rw_deleted r"
    | r where "ro_op op \<noteq> Delete" "row = Some r" "\<not> rw_deleted r" by fastforce
  then show ?thesis
  proof cases
    case 1
    then show ?thesis using assms(2)
      by (auto simp: apply_op_def apply_delete_def tombstone_def typed_row_def row_wf_def typed_for_def
          split: option.split)
  next
    case 2
    then show ?thesis
    proof (cases "ro_op op")
      case Upsert
      have "rw_kind (merge op (new_row op)) = ro_kind op"
        using merge_lookup(4) [of "new_row op" op, OF fresh_rows(3) wf]
        by (simp only:) (simp add: new_row_def)
      then show ?thesis using typed_new [OF assms(1) Upsert] 2 apply_op_created [OF wf Upsert]
        by (simp add: typed_for_def)
    qed (use 2 in \<open>simp_all add: apply_op_def typed_for_def\<close>)
  next
    case 3
    show ?thesis
    proof (cases "ro_op op = Update \<or> \<not> hlc_newer (ro_hlc op) (rw_del_hlc r)")
      case True
      then have "apply_op row op = (Some r, False)" using 3 by (auto simp: apply_op_def)
      then show ?thesis using assms(2) 3 by simp
    next
      case False
      then have up: "ro_op op = Upsert" "hlc_newer (ro_hlc op) (rw_del_hlc r)"
        using 3 by (cases "ro_op op"; simp)+
      then show ?thesis using apply_op_revived [OF wf up(1) 3(3) up(2)] 3
          typed_revived [OF assms(1) up(1)] assms(2) by (simp add: typed_for_def)
    qed
  next
    case 4
    then have r: "typed_row tm r" "rw_kind r = ro_kind op" using assms(2) by (simp_all add: typed_for_def)
    then have wfr: "row_wf r" by (simp add: typed_row_def)
    have "typed_fields tm (ro_kind op) (rw_fields r)"
      using r(1) 4(3) unfolding typed_row_def r(2) by blast
    then have "typed_row tm (merge op r) \<and> rw_kind (merge op r) = ro_kind op"
      using r(2) wfr assms(1) by (intro typed_merge) (auto simp: typed_fields_def)
    then show ?thesis using apply_live [OF wfr wf 4(3,1)] 4(2) by (simp add: typed_for_def)
  qed
qed

lemma typed_apply_ops:
  "\<forall>op \<in> set ops. typed_op tm op \<and> ro_kind op = kind \<Longrightarrow> typed_for tm kind row \<Longrightarrow>
     typed_for tm kind (apply_ops ops row)"
proof (induction ops arbitrary: row)
  case (Cons op ops)
  have "typed_for tm kind (fst (apply_op row op))" using typed_apply [of tm op row] Cons.prems by simp
  then show ?case using Cons by (cases "fst (apply_op row op)") (simp_all add: typed_for_def)
qed simp

lemma typed_overlay:
  assumes "typed_doc tm d" "overlay_row kind i d = Some r"
  shows "typed_fields tm kind (rw_fields r)"
proof -
  have "typed_for tm kind (get_row (kind, i) (rd_rows d))"
    using assms(1) get_row_key [of "(kind, i)" "rd_rows d"]
    by (cases "get_row (kind, i) (rd_rows d)") (auto simp: typed_for_def typed_doc_def row_key_def)
  moreover have "\<forall>op \<in> set (ops_on (kind, i) (rd_pending d)). typed_op tm op \<and> ro_kind op = kind"
    using assms(1) by (auto simp: ops_on_def typed_doc_def op_key_def)
  ultimately have "typed_for tm kind (overlay_raw (kind, i) d)"
    unfolding overlay_raw_def by (rule typed_apply_ops [rotated])
  then show ?thesis using assms(2)
    by (auto simp: overlay_row_def typed_row_def typed_for_def split: option.splits if_splits)
qed

lemma null_untyped [simp]: "\<not> needs as_str JNull" "\<not> needs (dec_enum t) JNull"
  by (simp_all add: needs_def as_str_def dec_enum_def)

lemma required_not_null: "k \<in> set (required_of kind) \<Longrightarrow> \<not> has_type tm kind k JNull"
proof -
  have four: "list_all (\<lambda>kind. list_all (\<lambda>k. \<not> has_type tm kind k JNull) (required_of kind))
      [KIND_DEVICES, KIND_SPACES, KIND_CHATS, KIND_SESSIONS]"
    by (simp add: has_type_def device_types_def space_types_def chat_types_def session_types_def)
  assume k: "k \<in> set (required_of kind)"
  then have "kind \<in> set [KIND_DEVICES, KIND_SPACES, KIND_CHATS, KIND_SESSIONS]"
    by (auto simp: required_of_def split: if_splits)
  then show "\<not> has_type tm kind k JNull" using four k unfolding list_all_iff by blast
qed

lemma typed_seed: "typed_row tm r \<Longrightarrow> typed_op tm (row_to_seed_op r)"
  using required_not_null [of _ "rw_kind r" tm]
  by (cases "rw_deleted r")
     (auto simp: typed_op_def row_to_seed_op_def op_wf_def fields_of_def typed_row_def row_wf_def
       typed_fields_def written_ok_def)

section \<open>Operations keep the replica typed\<close>

lemma typed_enqueue:
  assumes "typed_doc tm d" "\<forall>op \<in> set ops. typed_op tm op"
  shows "typed_doc tm (enqueue_ops now ops d)"
proof -
  obtain bs c g where e: "enqueue_ops now ops d =
      d\<lparr>rd_clock := c, rd_pending := rd_pending d @ bs, rd_generation := g\<rparr>" "minted ops bs"
    using enqueue_adds by blast
  have "op \<in> set ops" if "b \<in> set bs" "op \<in> set (pn_ops b)" for b op
  proof -
    have "concat (map pn_ops bs) = ops" using e(2) by (simp add: minted_def)
    then show ?thesis using that by auto
  qed
  then have "\<forall>b \<in> set bs. \<forall>op \<in> set (pn_ops b). typed_op tm op" using assms(2) by blast
  then show ?thesis using assms(1) unfolding e(1) typed_doc_def by (simp add: ball_Un)
qed

lemma typed_next [simp]: "typed_doc tm (fst (next_hlc now d)) = typed_doc tm d"
  by (simp add: typed_doc_def next_hlc_simps)

lemma typed_write:
  assumes "typed_doc tm d" "bwf fs" "\<forall>k v. map_of fs k = Some v \<longrightarrow> written_ok tm kind k v"
    "op = Upsert \<longrightarrow> (\<forall>k \<in> set (required_of kind). map_of fs k \<noteq> None)"
  shows "typed_doc tm (write_row now kind i op fs d)"
proof -
  have "write_row now kind i op fs d = enqueue_ops (\<lambda>k. now (Suc k))
      [\<lparr>ro_kind = kind, ro_id = i, ro_op = op, ro_set = Some fs, ro_hlc = snd (next_hlc (now 0) d),
        ro_clocks = None\<rparr>] (fst (next_hlc (now 0) d))"
    by (simp add: write_row_def split: prod.split)
  then show ?thesis using assms
    by (simp add: typed_enqueue typed_op_def op_wf_def fields_of_def)
qed

text \<open>Members as the typed calls write them.\<close>

definition kvs_ok :: "(string \<Rightarrow> string option) \<Rightarrow> string \<Rightarrow> (string \<times> json) list \<Rightarrow> bool" where
  "kvs_ok tm kind kvs \<longleftrightarrow> distinct (map fst kvs) \<and> list_all (\<lambda>(k, v). written_ok tm kind k v) kvs"

lemma kvs_ok_lookup: "kvs_ok tm kind kvs \<Longrightarrow> map_of (field_map kvs) k = Some v \<Longrightarrow> written_ok tm kind k v"
  by (auto simp: kvs_ok_def map_of_field_map list_all_iff dest: map_of_SomeD)

lemma typed_upsert:
  assumes "typed_doc tm d" "kvs_ok tm kind kvs" "set (required_of kind) \<subseteq> fst ` set kvs"
  shows "typed_doc tm (write_row now kind i Upsert (field_map kvs) d)"
proof (rule typed_write [OF assms(1)])
  show "Upsert = Upsert \<longrightarrow> (\<forall>k \<in> set (required_of kind). map_of (field_map kvs) k \<noteq> None)"
    using assms(2,3) unfolding kvs_ok_def by (auto simp: map_of_field_map map_of_eq_None_iff)
qed (use kvs_ok_lookup [OF assms(2)] in auto)

lemma typed_update:
  assumes "typed_doc tm d" "kvs_ok tm kind kvs"
  shows "typed_doc tm (fst (update_row now kind i kvs d))"
  unfolding update_row_def using kvs_ok_lookup [OF assms(2)]
  by (auto simp: assms(1) intro!: typed_write [OF assms(1)])

lemma typed_delete:
  assumes "typed_doc tm d"
  shows "typed_doc tm (delete_row_ops now keys d)"
proof -
  have "delete_row_ops now keys d = enqueue_ops (\<lambda>k. now (Suc k))
      (map (\<lambda>(kind, i). \<lparr>ro_kind = kind, ro_id = i, ro_op = Delete, ro_set = None,
         ro_hlc = snd (next_hlc (now 0) d), ro_clocks = None\<rparr>) keys) (fst (next_hlc (now 0) d))"
    by (simp add: delete_row_ops_def split: prod.split)
  moreover have "typed_op tm \<lparr>ro_kind = kind, ro_id = i, ro_op = Delete, ro_set = None,
      ro_hlc = h, ro_clocks = None\<rparr>" for kind i h
    by (simp add: typed_op_def op_wf_def fields_of_def)
  ultimately show ?thesis using assms by (simp add: typed_enqueue split_beta)
qed

lemma has_type_written: "has_type tm kind k v \<Longrightarrow> written_ok tm kind k v"
  using required_not_null [of k kind tm] by (auto simp: written_ok_def)

lemma kvs_okI:
  "distinct (map fst kvs) \<Longrightarrow> list_all (\<lambda>(k, v). has_type tm kind k v) kvs \<Longrightarrow> kvs_ok tm kind kvs"
  by (auto simp: kvs_ok_def list_all_iff has_type_written)

lemma leaf_types [simp]:
  "needs as_str (JStr s)" "may as_str (JStr s)" "needs as_bool (JBool b)"
  "in_i64 i \<Longrightarrow> may as_i64 (JInt i)" "in_i64 i \<Longrightarrow> needs as_i64 (JInt i)" "may dec JNull"
  by (simp_all add: needs_def may_def as_i64_JInt)

lemma option_types [simp]:
  "may as_str (opt_str x)" "pred_option representable t \<Longrightarrow> may as_i64 (opt_ms t)"
  "needs (dec_vec as_str) (enc_strs xs)" "needs (dec_enum status_names) (enc_enum status_names st)"
  "pred_option (\<lambda>y. dec (enc y) \<noteq> None) z \<Longrightarrow> may dec (null_or enc z)"
  by (cases x; cases t; cases z;
      simp add: may_def needs_def opt_str_def opt_ms_def as_i64_JInt representable_i64
        strs_codec.dec_enc status_codec.dec_enc)+

lemma representable_types [simp]:
  "representable i \<Longrightarrow> may as_i64 (JInt i)" "representable i \<Longrightarrow> needs as_i64 (JInt i)"
  by (simp_all add: representable_i64)

lemma chat_columns [simp]:
  "has_type tm KIND_CHATS ''id'' v = needs as_str v" "has_type tm KIND_CHATS ''deviceId'' v = needs as_str v"
  "has_type tm KIND_CHATS ''title'' v = may as_str v" "has_type tm KIND_CHATS ''archived'' v = needs as_bool v"
  "has_type tm KIND_CHATS ''cwd'' v = may as_str v" "has_type tm KIND_CHATS ''branch'' v = may as_str v"
  "has_type tm KIND_CHATS ''checkoutId'' v = may as_str v"
  "has_type tm KIND_CHATS ''sourceContext'' v = may (dec_source_context tm) v"
  "has_type tm KIND_CHATS ''lastMessagePreview'' v = may as_str v"
  "has_type tm KIND_CHATS ''lastMessageAt'' v = may as_i64 v"
  "has_type tm KIND_CHATS ''createdAt'' v = needs as_i64 v"
  "has_type tm KIND_CHATS ''harnessSessionId'' v = may as_str v"
  "has_type tm KIND_CHATS ''harnessSessionCwd'' v = may as_str v"
  "has_type tm KIND_CHATS ''harnessSessionInstanceId'' v = may as_str v"
  "has_type tm KIND_CHATS ''spaceId'' v = may as_str v" "has_type tm KIND_CHATS ''lastSeenAt'' v = may as_i64 v"
  "has_type tm KIND_CHATS ''roomGen'' v = may as_u32 v" "has_type tm KIND_CHATS ''config'' v"
  "has_type tm KIND_CHATS ''orchestration'' v"
  by (simp_all add: has_type_def chat_types_def)

lemma other_columns [simp]:
  "has_type tm KIND_DEVICES k v = (case map_of device_types k of None \<Rightarrow> True | Some P \<Rightarrow> P v)"
  "has_type tm KIND_SPACES k v = (case map_of space_types k of None \<Rightarrow> True | Some P \<Rightarrow> P v)"
  "has_type tm KIND_SESSIONS k v = (case map_of session_types k of None \<Rightarrow> True | Some P \<Rightarrow> P v)"
  by (simp_all add: has_type_def)

end
