(* ===== verification/Registry_Steps.thy ===== *)
theory Registry_Steps
  imports Registry_Types
begin

text \<open>
  Everything that can happen to a replica of \<open>crates/doc/src/registry.rs\<close>, as a step relation:
  the typed calls with arguments the Rust types allow, and the frames of the server. The
  properties of the typed surface follow: typed rows, read-back of upserts, and deletes.
\<close>

section \<open>Steps\<close>

definition device_times :: "Device \<Rightarrow> bool" where
  "device_times v \<longleftrightarrow> pred_option representable (dv_last_seen_at v) \<and>
     pred_option representable (dv_created_at v)"

definition context_ok :: "(string \<Rightarrow> string option) \<Rightarrow> ConversationSourceContext \<Rightarrow> bool" where
  "context_ok tm x \<longleftrightarrow> tm (sx_observed_at x) = Some (sx_observed_at x)"

text \<open>The one-row updates of a chat, a space and a device.\<close>

inductive updates :: "(string \<Rightarrow> string option) \<Rightarrow> RegistryDoc \<Rightarrow> RegistryDoc \<times> bool \<Rightarrow> bool"
  for tm d
where
  "updates tm d (rename_device now i name d)"
| "representable at \<Longrightarrow> updates tm d (set_device_last_seen now i at d)"
| "updates tm d (rename_space now i oname d)"
| "representable at \<Longrightarrow> updates tm d (set_space_git now i detected checkout at d)"
| "representable at \<Longrightarrow> updates tm d (set_chat_seen now i at d)"
| "updates tm d (rename_chat now i title d)"
| "updates tm d (set_chat_archived now i a d)"
| "g < 2 ^ 32 \<Longrightarrow> updates tm d (set_chat_room_gen now i g d)"
| "updates tm d (set_chat_branch now i b d)"
| "context_ok tm x \<Longrightarrow> updates tm d (set_chat_source_context now i x d)"
| "updates tm d (set_chat_cwd now i w d)"
| "updates tm d (set_chat_checkout now i c d)"
| "updates tm d (set_chat_config now i cfg d)"
| "updates tm d (set_chat_harness_session now i s w d)"
| "updates tm d (set_chat_harness_session_instance now i inst d)"
| "updates tm d (set_chat_harness_session_binding now i s w inst d)"
| "representable at \<Longrightarrow> updates tm d (set_chat_last_message now i preview at d)"

inductive api_step :: "(string \<Rightarrow> string option) \<Rightarrow> RegistryDoc \<Rightarrow> RegistryDoc \<Rightarrow> bool"
  for tm d
where
  St_update: "updates tm d (d', b) \<Longrightarrow> api_step tm d d'"
| St_orchestration: "set_chat_orchestration rfc now i summary d = Inr d' \<Longrightarrow>
    (\<And>s ms. rfc s = Some ms \<Longrightarrow> representable ms) \<Longrightarrow> api_step tm d d'"
| St_device: "device_times v \<Longrightarrow> api_step tm d (upsert_device now v d)"
| St_space: "space_ok s \<Longrightarrow> api_step tm d (upsert_space now s d)"
| St_chat: "chat_ok tm c \<Longrightarrow> api_step tm d (upsert_chat now c d)"
| St_session: "session_ok ss \<Longrightarrow> api_step tm d (upsert_session now ss d)"
| St_claim: "representable at \<Longrightarrow> api_step tm d (claim_chat now i cwd sp at d)"
| St_delete_chat: "api_step tm d (fst (delete_chat now i d))"
| St_delete_space: "api_step tm d (fst (delete_space tm now i d))"
| St_state: "(\<And>r. r \<in> set rows \<Longrightarrow> typed_row tm r) \<Longrightarrow>
    api_step tm d (fst (apply_state now seq full floor rows d))"
| St_rows: "(\<And>r. r \<in> set rows \<Longrightarrow> typed_row tm r) \<Longrightarrow> api_step tm d (fst (apply_rows seq rows d))"
| St_ack: "api_step tm d (fst (ack_batch batch d))"
| St_push: "api_step tm d (fst (take_pushable d))"
| St_lost: "api_step tm d (mark_disconnected d)"

inductive_cases updates_cases: "updates tm d (d', b)"

section \<open>Typed members\<close>

lemma device_kvs: "device_times v \<Longrightarrow> kvs_ok tm KIND_DEVICES (device_fields v)"
  by (rule kvs_okI) (simp_all add: device_fields_def device_times_def device_types_def)

lemma space_kvs: "space_ok v \<Longrightarrow> kvs_ok tm KIND_SPACES (space_fields v)"
  by (rule kvs_okI) (simp_all add: space_fields_def space_ok_def space_types_def)

lemma session_kvs: "session_ok v \<Longrightarrow> kvs_ok tm KIND_SESSIONS (session_fields v)"
  by (rule kvs_okI) (simp_all add: session_fields_def session_ok_def session_types_def)

lemma chat_kvs: "chat_ok tm c \<Longrightarrow> kvs_ok tm KIND_CHATS (chat_fields c)"
  by (rule kvs_okI)
     (simp_all add: chat_fields_def chat_ok_def pred_option_def source_context_enc as_u32_def)

lemma context_typed: "context_ok tm x \<Longrightarrow> may (dec_source_context tm) (enc_source_context x)"
  by (simp add: may_def context_ok_def source_context_enc)

lemma gen_typed: "g < 2 ^ 32 \<Longrightarrow> may as_u32 (JInt (int g))"
  by (simp add: may_def as_u32_def)

lemma update_typed:
  assumes "typed_doc tm d" "updates tm d (d', b)"
  shows "typed_doc tm d'"
proof -
  have one: "typed_doc tm (fst (update_row now kind i kvs d))" if "kvs_ok tm kind kvs" for now kind i kvs
    using assms(1) that by (rule typed_update)
  have seen: "typed_doc tm (fst (set_chat_seen now i at d))" if "representable at" for now i at
  proof -
    have "kvs_ok tm KIND_CHATS [(''lastSeenAt'', JInt at)]" using that by (intro kvs_okI) simp_all
    then have "typed_doc tm (write_row now KIND_CHATS i Update (field_map [(''lastSeenAt'', JInt at)]) d)"
      using assms(1) kvs_ok_lookup by (intro typed_write) auto
    then show ?thesis using assms(1) by (simp add: set_chat_seen_def split: option.split)
  qed
  have "typed_doc tm (fst u)" if "updates tm d u" for u
    using that
    by cases
       (simp_all add: one seen kvs_okI context_typed gen_typed rename_device_def
         set_device_last_seen_def rename_space_def set_space_git_def rename_chat_def
         set_chat_archived_def set_chat_room_gen_def set_chat_branch_def
         set_chat_source_context_def set_chat_cwd_def set_chat_checkout_def set_chat_config_def
         set_chat_harness_session_def set_chat_harness_session_instance_def
         set_chat_harness_session_binding_def set_chat_last_message_def device_types_def
         space_types_def)
  then show ?thesis using assms(2) by force
qed

definition typed_map :: "(string \<Rightarrow> string option) \<Rightarrow> string \<Rightarrow> (string, json) bmap \<Rightarrow> bool" where
  "typed_map tm kind m \<longleftrightarrow> bwf m \<and> (\<forall>k v. map_of m k = Some v \<longrightarrow> written_ok tm kind k v)"

lemma typed_map_insert: "typed_map tm kind m \<Longrightarrow> has_type tm kind k v \<Longrightarrow> typed_map tm kind (binsert k v m)"
  by (simp add: typed_map_def bwf_binsert map_of_binsert has_type_written)

lemma typed_map_fields: "kvs_ok tm kind kvs \<Longrightarrow> typed_map tm kind (field_map kvs)"
  by (simp add: typed_map_def kvs_ok_lookup)

lemma claim_typed:
  assumes "typed_doc tm d" "representable at"
  shows "typed_doc tm (claim_chat now i cwd sp at d)"
proof -
  define base where "base = field_map [(''id'', JStr i), (''deviceId'', JStr (rd_device_id d)),
    (''createdAt'', JInt at)]"
  define fs where "fs = (case sp of Some s \<Rightarrow> binsert ''spaceId'' (JStr s)
      (case cwd of Some c \<Rightarrow> binsert ''cwd'' (JStr c) base | None \<Rightarrow> base)
    | None \<Rightarrow> (case cwd of Some c \<Rightarrow> binsert ''cwd'' (JStr c) base | None \<Rightarrow> base))"
  have "typed_map tm KIND_CHATS base"
    unfolding base_def by (intro typed_map_fields kvs_okI) (simp_all add: assms(2))
  then have "typed_map tm KIND_CHATS fs"
    by (simp add: fs_def typed_map_insert split: option.split)
  moreover have "map_of fs ''id'' \<noteq> None" "map_of fs ''deviceId'' \<noteq> None"
    by (simp_all add: fs_def base_def map_of_binsert map_of_field_map split: option.split)
  ultimately have "typed_doc tm (write_row now KIND_CHATS i Upsert fs d)"
    by (intro typed_write [OF assms(1)]) (simp_all add: typed_map_def)
  moreover have "claim_chat now i cwd sp at d = write_row now KIND_CHATS i Upsert fs d"
    unfolding claim_chat_def fs_def base_def Let_def by (rule refl)
  ultimately show ?thesis by simp
qed

lemma patch_typed:
  assumes "\<And>s ms. rfc s = Some ms \<Longrightarrow> representable ms"
  shows "typed_map tm KIND_CHATS (summary_patch rfc previous summary)"
proof -
  have base: "typed_map tm KIND_CHATS (field_map [(''orchestration'', summary)])"
    by (intro typed_map_fields kvs_okI) simp_all
  have rfc: "representable ms" if "Option.bind (as_str x) rfc = Some ms" for x ms
    using that assms by (cases "as_str x") auto
  show ?thesis
    unfolding summary_patch_def Let_def
    by (auto simp: base rfc intro!: typed_map_insert split: option.split)
qed

lemma orchestration_typed:
  assumes "typed_doc tm d" "set_chat_orchestration rfc now i summary d = Inr d'"
    "\<And>s ms. rfc s = Some ms \<Longrightarrow> representable ms"
  shows "typed_doc tm d'"
proof -
  have "typed_doc tm (write_row now KIND_CHATS i Update (summary_patch rfc previous summary) d)" for previous
    using patch_typed [OF assms(3)] by (intro typed_write [OF assms(1)]) (auto simp: typed_map_def)
  then show ?thesis using assms(1,2)
    by (auto simp: set_chat_orchestration_def Let_def split: option.splits if_splits)
qed

lemma fold_put_typed:
  "\<forall>r \<in> set rs. typed_row tm r \<Longrightarrow> (\<And>r. r \<in> set rows \<Longrightarrow> typed_row tm r) \<Longrightarrow>
     \<forall>r \<in> set (fold put_row rows rs). typed_row tm r"
proof (induction rows arbitrary: rs)
  case (Cons row rows)
  have "set (put_row row rs) \<subseteq> insert row (set rs)" by (induction rs) auto
  then have "\<forall>r \<in> set (put_row row rs). typed_row tm r" using Cons.prems by auto
  then show ?case using Cons.IH Cons.prems(2) by simp
qed simp

lemma frame_typed:
  assumes "typed_doc tm d" "\<And>r. r \<in> set rows \<Longrightarrow> typed_row tm r"
  shows "typed_doc tm (fst (apply_state now seq full floor rows d))"
    "typed_doc tm (fst (apply_rows seq rows d))"
proof -
  have old: "\<forall>r \<in> set (rd_rows d). typed_row tm r"
    and pend: "\<forall>b \<in> set (rd_pending d). \<forall>op \<in> set (pn_ops b). typed_op tm op"
    using assms(1) by (simp_all add: typed_doc_def)
  note merged = fold_put_typed [OF old assms(2)]
  have fresh: "\<forall>r \<in> set (fold put_row rows []). typed_row tm r"
    using assms(2) by (intro fold_put_typed) simp_all
  have seeds: "\<forall>op \<in> set (map row_to_seed_op (filter P (rd_rows d))). typed_op tm op" for P
    using old by (auto intro: typed_seed)
  have all_seeds: "\<forall>op \<in> set (map row_to_seed_op (rd_rows d)). typed_op tm op"
    using old by (auto intro: typed_seed)
  show "typed_doc tm (fst (apply_rows seq rows d))"
    using merged pend by (simp add: apply_rows_def fold_authoritative typed_doc_def Let_def)
  have "typed_doc tm (d\<lparr>rd_generation := g, rd_rows := fold put_row rows (rd_rows d),
      rd_server_seq := s, rd_gc_floor := f\<rparr>)"
    and new: "typed_doc tm (d\<lparr>rd_generation := g, rd_rows := fold put_row rows [],
      rd_server_seq := s, rd_gc_floor := f\<rparr>)" for g s f
    using merged fresh pend by (simp_all add: typed_doc_def)
  then show "typed_doc tm (fst (apply_state now seq full floor rows d))"
    using typed_enqueue [OF _ seeds] typed_enqueue [OF _ all_seeds]
    by (simp add: apply_state_def fold_authoritative Let_def)
qed

lemma transport_typed:
  assumes "typed_doc tm d"
  shows "typed_doc tm (fst (ack_batch batch d))" "typed_doc tm (fst (take_pushable d))"
    "typed_doc tm (mark_disconnected d)"
  using assms
  by (auto simp: typed_doc_def ack_batch_def take_pushable_def mark_disconnected_def Let_def)

lemma step_typed: "api_step tm d d' \<Longrightarrow> typed_doc tm d \<Longrightarrow> typed_doc tm d'"
proof (induction rule: api_step.induct)
  case (St_device v now)
  show ?case unfolding upsert_device_def
    by (rule typed_upsert [OF St_device(2) device_kvs [OF St_device(1)]]) (simp add: device_fields_def)
next
  case (St_space v now)
  show ?case unfolding upsert_space_def
    by (rule typed_upsert [OF St_space(2) space_kvs [OF St_space(1)]]) (simp add: space_fields_def)
next
  case (St_chat c now)
  show ?case unfolding upsert_chat_def
    by (rule typed_upsert [OF St_chat(2) chat_kvs [OF St_chat(1)]]) (simp add: chat_fields_def)
next
  case (St_session v now)
  show ?case unfolding upsert_session_def
    by (rule typed_upsert [OF St_session(2) session_kvs [OF St_session(1)]]) (simp add: session_fields_def)
next
  case (St_update d' b)
  show ?case by (rule update_typed [OF St_update(2,1)])
next
  case (St_orchestration rfc now i summary d')
  show ?case by (rule orchestration_typed [OF St_orchestration(3,1,2)])
next
  case (St_claim at now i cwd sp)
  show ?case by (rule claim_typed [OF St_claim(2,1)])
next
  case (St_state rows now seq full floor)
  show ?case by (rule frame_typed(1) [OF St_state(2,1)])
next
  case (St_rows rows seq)
  show ?case by (rule frame_typed(2) [OF St_rows(2,1)])
qed (simp_all add: delete_chat_def delete_space_def Let_def typed_delete transport_typed)

lemma steps_typed: "(api_step tm)\<^sup>*\<^sup>* d d' \<Longrightarrow> typed_doc tm d \<Longrightarrow> typed_doc tm d'"
  by (induction rule: rtranclp_induct) (auto intro: step_typed)

lemma overlay_rows_member: "r \<in> set (overlay_rows kind d) \<Longrightarrow> \<exists>i. overlay_row kind i d = Some r"
  by (auto simp: overlay_rows_def List.map_filter_def Let_def)

lemma set_add_new: "set (add_new ids xs) = set ids \<union> set xs"
  by (induction ids xs rule: add_new.induct) auto

lemma overlay_listed:
  "overlay_row kind i d = Some r \<Longrightarrow> r \<in> set (overlay_rows kind d)"
proof -
  assume r: "overlay_row kind i d = Some r"
  have "i \<in> set (map rw_id (filter (\<lambda>r. rw_kind r = kind) (rd_rows d))) \<union>
      set (map ro_id (filter (\<lambda>op. ro_kind op = kind) (concat (map pn_ops (rd_pending d)))))"
  proof (rule ccontr)
    assume n: "\<not> ?thesis"
    then have "get_row (kind, i) (rd_rows d) = None"
      by (auto simp: get_row_None row_key_def)
    moreover have "ops_on (kind, i) (rd_pending d) = []"
      using n by (auto simp: ops_on_def filter_empty_conv op_key_def)
    ultimately have "overlay_raw (kind, i) d = None" by (simp add: overlay_raw_def)
    then show False using r by (simp add: overlay_row_def)
  qed
  then show ?thesis using r
    unfolding overlay_rows_def Let_def List.map_filter_def set_add_new set_map set_filter
    by (force simp: set_add_new)
qed

lemma read_all_decoded:
  assumes "typed_doc tm d" "\<And>fs. typed_fields tm kind fs \<Longrightarrow> dec (JObj fs) \<noteq> None"
  shows "length (read_kind dec kind d) = length (overlay_rows kind d)"
proof -
  have "filter (\<lambda>r. dec (row_json r) \<noteq> None) (overlay_rows kind d) = overlay_rows kind d"
    using overlay_rows_member typed_overlay [OF assms(1)] assms(2)
    by (intro filter_True) (fastforce simp: row_json_def)
  then show ?thesis by (simp add: read_kind_def List.map_filter_def comp_def)
qed

section \<open>Writes and the other rows\<close>

lemma overlay_write_other:
  assumes "k \<noteq> (kind, i)"
  shows "overlay_raw k (write_row now kind i op fs d) = overlay_raw k d"
proof -
  have "write_row now kind i op fs d = enqueue_ops (\<lambda>k. now (Suc k))
      [\<lparr>ro_kind = kind, ro_id = i, ro_op = op, ro_set = Some fs, ro_hlc = snd (next_hlc (now 0) d),
        ro_clocks = None\<rparr>] (fst (next_hlc (now 0) d))"
    by (simp add: write_row_def split: prod.split)
  then show ?thesis using assms
    by (simp add: overlay_enqueue op_key_def) (simp add: overlay_raw_def next_hlc_simps)
qed

lemma exists_write:
  "row_exists kind i d \<Longrightarrow> row_exists k j (write_row now kind i op fs d) \<Longrightarrow> row_exists k j d"
  by (cases "(k, j) = (kind, i)") (auto simp: row_exists_def overlay_row_def overlay_write_other)

lemma update_row_keeps:
  "row_exists k j (fst (update_row now kind i kvs d)) \<Longrightarrow> row_exists k j d"
  "\<not> snd (update_row now kind i kvs d) \<Longrightarrow> fst (update_row now kind i kvs d) = d"
  by (auto simp: update_row_def dest: exists_write split: if_splits)

lemma seen_keeps:
  "row_exists k j (fst (set_chat_seen now i at d)) \<Longrightarrow> row_exists k j d"
  "\<not> snd (set_chat_seen now i at d) \<Longrightarrow> fst (set_chat_seen now i at d) = d"
  using exists_write [of KIND_CHATS i d k j]
  by (auto simp: set_chat_seen_def row_exists_def split: option.splits if_splits)

lemma overlay_delete_rows:
  "overlay_raw k (delete_row_ops now keys d) =
     apply_ops (map (\<lambda>(kind, i). \<lparr>ro_kind = kind, ro_id = i, ro_op = Delete, ro_set = None,
       ro_hlc = snd (next_hlc (now 0) d), ro_clocks = None\<rparr>) (filter (\<lambda>p. p = k) keys))
     (overlay_raw k d)"
proof -
  have "delete_row_ops now keys d = enqueue_ops (\<lambda>k. now (Suc k))
      (map (\<lambda>(kind, i). \<lparr>ro_kind = kind, ro_id = i, ro_op = Delete, ro_set = None,
         ro_hlc = snd (next_hlc (now 0) d), ro_clocks = None\<rparr>) keys) (fst (next_hlc (now 0) d))"
    by (simp add: delete_row_ops_def split: prod.split)
  then show ?thesis
    by (simp add: overlay_enqueue filter_map comp_def op_key_def split_beta)
       (simp add: overlay_raw_def next_hlc_simps)
qed

lemma deletes_kill:
  assumes "ops \<noteq> []" "\<forall>op \<in> set ops. ro_op op = Delete \<and> ro_hlc op = h"
    "pred_option (\<lambda>r. rw_deleted r \<or> hlc_newer h (max_clock r)) row"
  shows "pred_option rw_deleted (apply_ops ops row)"
  using assms
proof (induction ops arbitrary: row)
  case (Cons op ops)
  have gone: "\<exists>r. fst (apply_op row op) = Some r \<and> rw_deleted r"
    using Cons.prems(2,3)
    by (cases row) (auto simp: apply_op_def apply_delete_def tombstone_def)
  show ?case
  proof (cases "ops = []")
    case False
    then show ?thesis using Cons.IH Cons.prems(2) gone by auto
  qed (use gone in auto)
qed simp

lemma deleted_row:
  assumes "(kind, i) \<in> set keys" "fresh_write now kind i d"
  shows "\<not> row_exists kind i (delete_row_ops now keys d)"
proof -
  let ?h = "snd (next_hlc (now 0) d)"
  have "pred_option (\<lambda>r. rw_deleted r \<or> hlc_newer ?h (max_clock r)) (overlay_raw (kind, i) d)"
    using assms(2) by (auto simp: fresh_write_def split: option.splits)
  then have "pred_option rw_deleted (overlay_raw (kind, i) (delete_row_ops now keys d))"
    unfolding overlay_delete_rows using assms(1)
    by (intro deletes_kill [of _ ?h]) (auto simp: filter_empty_conv)
  then show ?thesis
    by (auto simp: row_exists_def overlay_row_def split: option.splits)
qed

lemma untouched_row:
  assumes "k \<notin> set keys"
  shows "overlay_raw k (delete_row_ops now keys d) = overlay_raw k d"
proof -
  have "filter (\<lambda>p. p = k) keys = []" using assms by (auto simp: filter_empty_conv)
  then show ?thesis by (simp only: overlay_delete_rows) simp
qed

definition keeps :: "RegistryDoc \<Rightarrow> RegistryDoc \<times> bool \<Rightarrow> bool" where
  "keeps d u \<longleftrightarrow> (\<forall>kind i. row_exists kind i (fst u) \<longrightarrow> row_exists kind i d) \<and> (\<not> snd u \<longrightarrow> fst u = d)"

lemma keeps_update: "keeps d (update_row now kind i kvs d)"
  unfolding keeps_def using update_row_keeps by blast

lemma keeps_seen: "keeps d (set_chat_seen now i at d)"
  unfolding keeps_def using seen_keeps by blast

lemma updates_keep:
  assumes "updates tm d u"
  shows "(row_exists kind i (fst u) \<longrightarrow> row_exists kind i d) \<and> (\<not> snd u \<longrightarrow> fst u = d)"
proof -
  have "keeps d u"
    using assms
    by cases
       (simp_all only: keeps_update keeps_seen rename_device_def
         set_device_last_seen_def rename_space_def set_space_git_def rename_chat_def
         set_chat_archived_def set_chat_room_gen_def set_chat_branch_def
         set_chat_source_context_def set_chat_cwd_def set_chat_checkout_def set_chat_config_def
         set_chat_harness_session_def set_chat_harness_session_instance_def
         set_chat_harness_session_binding_def set_chat_last_message_def)
  then show ?thesis by (simp add: keeps_def)
qed

section \<open>Properties\<close>

text \<open>C20: Rows never become unreadable. Start from a replica whose rows and pending operations are
  well-typed and let anything happen to it: any typed call, in any order and with any clock
  readings, any server frame of well-typed rows, acknowledgements, disconnects. Every device,
  space, chat and session the overlay then shows decodes, so none of them is skipped by a
  reader.\<close>

theorem registry_stays_typed:
  assumes "typed_doc tm d" "(api_step tm)\<^sup>*\<^sup>* d d'"
  shows "typed_doc tm d' \<and>
    length (read_devices d') = length (overlay_rows KIND_DEVICES d') \<and>
    length (read_spaces d') = length (overlay_rows KIND_SPACES d') \<and>
    length (read_chats tm d') = length (overlay_rows KIND_CHATS d') \<and>
    length (read_sessions d') = length (overlay_rows KIND_SESSIONS d')"
proof -
  have t: "typed_doc tm d'" using steps_typed [OF assms(2,1)] .
  have "length (read_kind dec_device KIND_DEVICES d') = length (overlay_rows KIND_DEVICES d')"
    "length (read_kind dec_space KIND_SPACES d') = length (overlay_rows KIND_SPACES d')"
    "length (read_kind (dec_chat tm) KIND_CHATS d') = length (overlay_rows KIND_CHATS d')"
    "length (read_kind dec_session KIND_SESSIONS d') = length (overlay_rows KIND_SESSIONS d')"
    by (rule read_all_decoded [OF t], erule device_typed space_typed chat_typed session_typed)+
  then show ?thesis using t
    by (simp add: read_devices_def read_spaces_def read_chats_def read_sessions_def)
qed

definition home_space :: Space where
  "home_space = \<lparr>sp_id = ''s'', sp_device_id = ''a'', sp_path = ''/w'', sp_name = None,
     sp_git_detected = False, sp_git_checked_at = None, sp_checkout_id = None, sp_created_at = 7\<rparr>"

theorem registry_stays_typed_witness:
  "typed_doc Some (fst (rename_space (\<lambda>_. 6) ''s'' (Some ''home'')
     (upsert_space (\<lambda>_. 5) home_space (registry_new ''a''))))"
proof (rule registry_stays_typed [THEN conjunct1])
  show "typed_doc Some (registry_new ''a'')" by (simp add: typed_doc_def registry_new_def)
  have "space_ok home_space" by (simp add: space_ok_def home_space_def representable_def)
  then have "api_step Some (registry_new ''a'') (upsert_space (\<lambda>_. 5) home_space (registry_new ''a''))"
    by (rule St_space)
  moreover have "api_step Some d (fst (rename_space (\<lambda>_. 6) ''s'' (Some ''home'') d))" for d
    using updates.intros(3) [of Some d "\<lambda>_. 6" "''s''" "Some ''home''"]
    by (cases "rename_space (\<lambda>_. 6) ''s'' (Some ''home'') d") (auto intro: St_update)
  ultimately show "(api_step Some)\<^sup>*\<^sup>* (registry_new ''a'') (fst (rename_space (\<lambda>_. 6) ''s''
      (Some ''home'') (upsert_space (\<lambda>_. 5) home_space (registry_new ''a''))))"
    by (meson converse_rtranclp_into_rtranclp r_into_rtranclp)
qed



text \<open>Deleting a space takes its conversations with it and nothing else. With a clock newer
  than the rows concerned, the space is gone afterwards, and so is every chat that named it
  with its session row; the answer lists those chats and says whether the space was there;
  every row not among them is as it was.\<close>

theorem delete_space_cascades:
  assumes "delete_space tm now i d = (d', out)" "fresh_write now KIND_SPACES i d"
    "\<forall>j \<in> set (ds_chat_ids out). fresh_write now KIND_CHATS j d \<and> fresh_write now KIND_SESSIONS j d"
  shows "ds_existed out = row_exists KIND_SPACES i d \<and> \<not> row_exists KIND_SPACES i d' \<and>
    ds_chat_ids out = map ch_id (filter (\<lambda>c. ch_space_id c = Some i) (read_chats tm d)) \<and>
    (\<forall>j \<in> set (ds_chat_ids out). \<not> row_exists KIND_CHATS j d' \<and> \<not> row_exists KIND_SESSIONS j d') \<and>
    (\<forall>kind j. (kind, j) \<noteq> (KIND_SPACES, i) \<and>
       (kind \<notin> {KIND_CHATS, KIND_SESSIONS} \<or> j \<notin> set (ds_chat_ids out)) \<longrightarrow>
       overlay_row kind j d' = overlay_row kind j d)"
proof -
  define keys where
    "keys = concat (map (\<lambda>c. [(KIND_CHATS, c), (KIND_SESSIONS, c)]) (ds_chat_ids out)) @ [(KIND_SPACES, i)]"
  have d': "d' = delete_row_ops now keys d"
    and out: "ds_chat_ids out = map ch_id (filter (\<lambda>c. ch_space_id c = Some i) (read_chats tm d))"
    and ex: "ds_existed out = row_exists KIND_SPACES i d"
    using assms(1) by (auto simp: delete_space_def Let_def keys_def)
  have here: "(KIND_SPACES, i) \<in> set keys" by (simp add: keys_def)
  have listed: "(KIND_CHATS, j) \<in> set keys" "(KIND_SESSIONS, j) \<in> set keys"
    if "j \<in> set (ds_chat_ids out)" for j using that by (auto simp: keys_def)
  have "\<not> row_exists KIND_SPACES i d'" unfolding d' by (rule deleted_row [OF here assms(2)])
  moreover have "\<not> row_exists KIND_CHATS j d' \<and> \<not> row_exists KIND_SESSIONS j d'"
    if "j \<in> set (ds_chat_ids out)" for j
    unfolding d' using deleted_row [OF listed(1) [OF that]] deleted_row [OF listed(2) [OF that]]
      assms(3) that by blast
  moreover have "overlay_row kind j d' = overlay_row kind j d"
    if "(kind, j) \<noteq> (KIND_SPACES, i)" "kind \<notin> {KIND_CHATS, KIND_SESSIONS} \<or> j \<notin> set (ds_chat_ids out)"
    for kind j
  proof -
    have "(kind, j) \<notin> set keys" using that by (auto simp: keys_def)
    then show ?thesis by (simp add: d' overlay_row_def untouched_row)
  qed
  ultimately show ?thesis using out ex by blast
qed

text \<open>A space with one chat.\<close>

definition home_row :: RegistryRow where
  "home_row = \<lparr>rw_kind = KIND_CHATS, rw_id = ''c'', rw_seq = 1, rw_deleted = False, rw_del_hlc = None,
     rw_fields = [(''createdAt'', JInt 7), (''deviceId'', JStr ''a''), (''id'', JStr ''c''),
       (''spaceId'', JStr ''s''), (''title'', JStr ''old'')],
     rw_clocks = [(''title'', ''0000000000009-000000-z'')]\<rparr>"

definition home_doc :: RegistryDoc where
  "home_doc = (registry_new ''a'')\<lparr>rd_rows := [home_row]\<rparr>"

lemma home_fresh: "fresh_write (\<lambda>_. 10) k j home_doc"
proof -
  have "hlc_newer (snd (next_hlc 10 home_doc)) (max_clock home_row)" by code_simp
  moreover have "row_wf home_row" by (simp add: row_wf_def home_row_def bwf_def)
  ultimately show ?thesis
    by (auto simp: fresh_write_def overlay_raw_def home_doc_def registry_new_def ops_on_def get_row_def)
qed

theorem delete_space_cascades_witness:
  "\<not> row_exists KIND_CHATS ''c'' (fst (delete_space Some (\<lambda>_. 10) ''s'' home_doc))"
proof -
  let ?u = "delete_space Some (\<lambda>_. 10) ''s'' home_doc"
  have "map ch_id (filter (\<lambda>c. ch_space_id c = Some ''s'') (read_chats Some home_doc)) = [''c'']"
    by code_simp
  then show ?thesis
    using delete_space_cascades [of Some "\<lambda>_. 10" "''s''" home_doc "fst ?u" "snd ?u"] home_fresh
    by simp
qed

text \<open>An update never brings a row into being. After any sequence of the one-row updates no
  row exists that did not exist before, so a rename that arrives after a delete does not undo
  the delete; and an update that answers \<open>false\<close> has left the replica untouched.\<close>

theorem updates_never_create:
  assumes "(\<lambda>x y. \<exists>b. updates tm x (y, b))\<^sup>*\<^sup>* d d'"
  shows "(row_exists kind i d' \<longrightarrow> row_exists kind i d) \<and> (updates tm d (e, False) \<longrightarrow> e = d)"
proof -
  have one: "row_exists kind i (fst u) \<longrightarrow> row_exists kind i x" "\<not> snd u \<Longrightarrow> fst u = x"
    if "updates tm x u" for x u
    using updates_keep [OF that] by auto
  have "row_exists kind i d' \<longrightarrow> row_exists kind i d"
    using assms by (induction rule: rtranclp_induct) (auto dest: one(1))
  then show ?thesis using one(2) [of d "(e, False)"] by auto
qed

theorem updates_never_create_witness:
  "\<not> row_exists KIND_CHATS ''d'' (fst (rename_chat (\<lambda>_. 5) ''c'' ''new'' home_doc))"
proof -
  let ?u = "rename_chat (\<lambda>_. 5) ''c'' ''new'' home_doc"
  have "updates Some home_doc (fst ?u, snd ?u)" using updates.intros(6) by simp
  then have "(\<lambda>x y. \<exists>b. updates Some x (y, b))\<^sup>*\<^sup>* home_doc (fst ?u)"
    by (intro r_into_rtranclp) (rule exI)
  then have "row_exists KIND_CHATS ''d'' (fst ?u) \<longrightarrow> row_exists KIND_CHATS ''d'' home_doc"
    by (rule updates_never_create [THEN conjunct1])
  moreover have "\<not> row_exists KIND_CHATS ''d'' home_doc" by code_simp
  ultimately show ?thesis by (simp only: simp_thms)
qed

text \<open>The order of the clocks is not the causal order the protocol document says it is: a
  replica's clock never takes in the clocks it receives. When a chat's title was last written
  by a device whose clock is ahead, a rename on this device, made after that title was seen, is
  older by its clock: the call answers \<open>true\<close> and the shown row is what it was.\<close>

theorem causally_later_write_lost:
  assumes "overlay_row KIND_CHATS i d = Some r" "row_wf r"
    "\<not> hlc_newer (snd (next_hlc (now 0) d)) (map_of (rw_clocks r) ''title'')"
  shows "snd (rename_chat now i title d) \<and>
    overlay_row KIND_CHATS i (fst (rename_chat now i title d)) = Some r"
proof -
  let ?fs = "field_map [(''title'', JStr title)]"
  let ?op = "\<lparr>ro_kind = KIND_CHATS, ro_id = i, ro_op = Update, ro_set = Some ?fs,
       ro_hlc = snd (next_hlc (now 0) d), ro_clocks = None\<rparr>"
  have raw: "overlay_raw (KIND_CHATS, i) d = Some r" "\<not> rw_deleted r"
    using assms(1) by (auto simp: overlay_row_def split: option.splits if_splits)
  have op: "op_wf ?op" "fields_of ?op = ?fs" by (simp_all add: op_wf_def fields_of_def)
  have "stale ?op r ''title''" using assms(3) by (simp add: stale_def clock_for_def)
  then have "\<not> some_new ?op (fields_of ?op) r"
    by (simp add: not_new_iff op(2) map_of_field_map)
  then have "apply_op (Some r) ?op = (Some r, False)"
    using apply_live [OF assms(2) op(1) raw(2)] merge_stale [OF assms(2) op(1)] by simp
  then have "overlay_row KIND_CHATS i (write_row now KIND_CHATS i Update ?fs d) = Some r"
    using raw by (simp add: overlay_row_def overlay_write)
  moreover have "row_exists KIND_CHATS i d" using assms(1) by (simp add: row_exists_def)
  ultimately show ?thesis by (simp add: rename_chat_def update_row_def)
qed

theorem causally_later_write_lost_witness:
  "snd (rename_chat (\<lambda>_. 5) ''c'' ''new'' home_doc) \<and>
     overlay_row KIND_CHATS ''c'' (fst (rename_chat (\<lambda>_. 5) ''c'' ''new'' home_doc)) = Some home_row"
proof (rule causally_later_write_lost)
  show "overlay_row KIND_CHATS ''c'' home_doc = Some home_row" by code_simp
  show "row_wf home_row" by (simp add: row_wf_def home_row_def bwf_def)
  show "\<not> hlc_newer (snd (next_hlc 5 home_doc)) (map_of (rw_clocks home_row) ''title'')" by code_simp
qed

end
