(* ===== verification/Registry_Migration.thy ===== *)
theory Registry_Migration
  imports Registry_Steps
begin

text \<open>
  The migration of \<open>crates/doc/src/registry.rs\<close>: what a registry seeded from the state of the
  workspace document shows.
\<close>

section \<open>Seeded rows\<close>

lemma overlay_by_400:
  "overlay_raw k (enqueue_by_400 now j ops d) =
     apply_ops (filter (\<lambda>op. op_key op = k) ops) (overlay_raw k d)"
proof (induction now j ops d rule: enqueue_by_400.induct)
  case (1 now j ops d)
  show ?case
  proof (cases "ops = []")
    case False
    have "filter (\<lambda>op. op_key op = k) ops =
        filter (\<lambda>op. op_key op = k) (take 400 ops) @ filter (\<lambda>op. op_key op = k) (drop 400 ops)"
      by (metis append_take_drop_id filter_append)
    then show ?thesis using False 1 [OF False]
      by (subst enqueue_by_400.simps) (simp add: overlay_enqueue apply_ops_append)
  qed (subst enqueue_by_400.simps, simp)
qed

definition seeded :: "RowOp list \<Rightarrow> string \<times> string \<Rightarrow> RegistryRow option" where
  "seeded ops k = apply_ops (filter (\<lambda>op. op_key op = k) ops) None"

lemma filter_key:
  "distinct (map op_key ops) \<Longrightarrow> op \<in> set ops \<Longrightarrow> filter (\<lambda>x. op_key x = op_key op) ops = [op]"
proof (induction ops)
  case (Cons x ops)
  show ?case
  proof (cases "x = op")
    case True
    then have "op_key op \<notin> op_key ` set ops" using Cons.prems(1) by simp
    then have "filter (\<lambda>x. op_key x = op_key op) ops = []"
      by (metis (mono_tags, lifting) filter_empty_conv image_eqI)
    then show ?thesis using True by simp
  next
    case False
    then have "op_key x \<noteq> op_key op" using Cons.prems by (auto simp: image_iff)
    then show ?thesis using Cons False by simp
  qed
qed simp

lemma seeded_row:
  assumes "distinct (map op_key ops)" "seed_row kind i ms kvs \<in> set ops" "distinct (map fst kvs)"
  shows "\<exists>r. seeded ops (kind, i) = Some r \<and> \<not> rw_deleted r \<and>
    (\<forall>k. map_of (rw_fields r) k = Option.bind (map_of kvs k) unnull)"
proof -
  let ?op = "seed_row kind i ms kvs"
  have op: "op_wf ?op" "fields_of ?op = field_map kvs" "ro_clocks ?op = None" "op_key ?op = (kind, i)"
    "ro_op ?op = Upsert"
    by (simp_all add: seed_row_def op_wf_def fields_of_def op_key_def)
  have "seeded ops (kind, i) = Some (merge ?op (new_row ?op))"
    using filter_key [OF assms(1,2)] apply_op_created [OF op(1,5)] by (simp add: seeded_def op(4))
  moreover have "\<not> rw_deleted (merge ?op (new_row ?op))"
    using merge_lookup(7) [of "new_row ?op" ?op] op(1) by simp
  moreover have "map_of (rw_fields (merge ?op (new_row ?op))) k = Option.bind (map_of kvs k) unnull" for k
  proof -
    have "map_of (rw_fields (merge ?op (new_row ?op))) k =
        (case map_of (field_map kvs) k of None \<Rightarrow> map_of (rw_fields (new_row ?op)) k | Some v \<Rightarrow> unnull v)"
      using merge_fresh [of "new_row ?op" ?op k] op by (simp add: hlc_newer_def)
    then show ?thesis
      by (simp add: map_of_field_map assms(3) split: option.split) (simp add: new_row_def)
  qed
  ultimately show ?thesis by blast
qed

lemma seeded_only: "seeded ops k = Some r \<Longrightarrow> \<exists>op \<in> set ops. op_key op = k"
  by (rule ccontr) (auto simp: seeded_def filter_empty_conv [THEN iffD2])

lemma set_read_kind:
  "set (read_kind dec kind d) = {x. \<exists>i r. overlay_row kind i d = Some r \<and> dec (row_json r) = Some x}"
proof -
  have "set (read_kind dec kind d) = {x. \<exists>r \<in> set (overlay_rows kind d). dec (row_json r) = Some x}"
    by (force simp: read_kind_def List.map_filter_def)
  then show ?thesis using overlay_rows_member overlay_listed by blast
qed

lemma read_seeded:
  assumes "distinct (map op_key ops)"
    "\<And>op. op \<in> set ops \<and> ro_kind op = kind \<longleftrightarrow> (\<exists>e \<in> set es. op = seed_row kind (idf e) (ms e) (kvs e))"
    "\<And>e. e \<in> set es \<Longrightarrow> distinct (map fst (kvs e))"
    "\<And>e fs. e \<in> set es \<Longrightarrow> \<forall>k. map_of fs k = Option.bind (map_of (kvs e) k) unnull \<Longrightarrow>
       dec (JObj fs) = Some (g e)"
    "\<And>i. overlay_raw (kind, i) d = seeded ops (kind, i)"
  shows "set (read_kind dec kind d) = g ` set es"
proof -
  have row: "\<exists>r. overlay_row kind (idf e) d = Some r \<and> dec (row_json r) = Some (g e)" if e: "e \<in> set es" for e
  proof -
    have "seed_row kind (idf e) (ms e) (kvs e) \<in> set ops" using assms(2) e by blast
    from seeded_row [OF assms(1) this assms(3) [OF e]] obtain r where
      "seeded ops (kind, idf e) = Some r" "\<not> rw_deleted r"
      "\<forall>k. map_of (rw_fields r) k = Option.bind (map_of (kvs e) k) unnull" by blast
    then show ?thesis using assms(4) [OF e] assms(5) by (auto simp: overlay_row_def row_json_def)
  qed
  have origin: "\<exists>e \<in> set es. i = idf e" if "overlay_row kind i d = Some r" for i r
  proof -
    have "seeded ops (kind, i) \<noteq> None" using that assms(5) [of i] by (auto simp: overlay_row_def split: option.splits)
    then obtain op where op: "op \<in> set ops" "op_key op = (kind, i)" using seeded_only by blast
    then obtain e where "e \<in> set es" "op = seed_row kind (idf e) (ms e) (kvs e)"
      using assms(2) by (auto simp: op_key_def)
    then show ?thesis using op(2) by (auto simp: op_key_def seed_row_def)
  qed
  show ?thesis
    unfolding set_read_kind using row origin by (fastforce simp: image_iff)
qed

section \<open>The migrated state\<close>

definition migrated_chat :: "Chat \<Rightarrow> Chat" where
  "migrated_chat c = c\<lparr>ch_source_context := None, ch_room_gen := None\<rparr>"

definition state_ok :: "(string \<Rightarrow> string option) \<Rightarrow> WorkspaceState \<Rightarrow> bool" where
  "state_ok tm st \<longleftrightarrow> distinct (map dv_id (ws_devices st)) \<and> distinct (map sp_id (ws_spaces st)) \<and>
     distinct (map ch_id (ws_chats st)) \<and> distinct (map ss_chat_id (ws_sessions st)) \<and>
     list_all device_ok (ws_devices st) \<and> list_all space_ok (ws_spaces st) \<and>
     list_all (chat_ok tm) (ws_chats st) \<and> list_all session_ok (ws_sessions st)"

lemma key_of_seed [simp]: "op_key (seed_row kind i ms kvs) = (kind, i)" "ro_kind (seed_row kind i ms kvs) = kind"
  by (simp_all add: op_key_def seed_row_def)

lemma kinds_differ [simp]:
  "KIND_DEVICES \<noteq> KIND_SPACES" "KIND_DEVICES \<noteq> KIND_CHATS" "KIND_DEVICES \<noteq> KIND_SESSIONS"
  "KIND_SPACES \<noteq> KIND_DEVICES" "KIND_SPACES \<noteq> KIND_CHATS" "KIND_SPACES \<noteq> KIND_SESSIONS"
  "KIND_CHATS \<noteq> KIND_DEVICES" "KIND_CHATS \<noteq> KIND_SPACES" "KIND_CHATS \<noteq> KIND_SESSIONS"
  "KIND_SESSIONS \<noteq> KIND_DEVICES" "KIND_SESSIONS \<noteq> KIND_SPACES" "KIND_SESSIONS \<noteq> KIND_CHATS"
  by (simp_all add: kinds)

lemma distinct_pair: "distinct (map f xs) \<Longrightarrow> distinct (map (\<lambda>x. (a, f x)) xs)"
  by (simp add: distinct_map inj_on_def)

lemma seed_keys_distinct: "state_ok tm st \<Longrightarrow> distinct (map op_key (seed_ops st))"
  by (auto simp: seed_ops_def comp_def state_ok_def intro: distinct_pair)

lemma bind_unnull:
  "distinct (map fst kvs) \<Longrightarrow> \<forall>k. map_of fs k = Option.bind (map_of kvs k) unnull \<Longrightarrow>
     list_all (\<lambda>(k, v). map_of fs k = unnull v) kvs"
  by (auto simp: list_all_iff)

lemma migrated_names: "distinct (map fst (migrated_chat_fields c))"
  using chat_row.distinct_names [of c] unfolding migrated_chat_fields_def by (rule distinct_map_filter)

lemma migrated_reads:
  assumes "chat_ok tm c" "\<forall>k. map_of fs k = Option.bind (map_of (migrated_chat_fields c) k) unnull"
  shows "dec_chat tm (JObj fs) = Some (migrated_chat c)"
proof (rule chat_row.reads)
  show "chat_ok tm (migrated_chat c)" using assms(1) by (simp add: chat_ok_def migrated_chat_def)
  show "list_all (\<lambda>(k, v). map_of fs k = unnull v) (chat_fields (migrated_chat c))"
    using assms(2) by (simp add: migrated_chat_fields_def chat_fields_def migrated_chat_def)
qed

text \<open>The migration carries the workspace over. A fresh registry seeded from a workspace state
  with distinct ids shows the same devices, spaces and sessions, and the same chats except that
  a chat's source context is lost, which the workspace document does hold. As many operations
  are queued as there are rows.\<close>

theorem migration_carries_over:
  assumes "state_ok tm st"
  shows "let (d, n) = seed_from_workspace now st (registry_new device) in
    n = length (ws_devices st) + length (ws_spaces st) + length (ws_chats st) + length (ws_sessions st) \<and>
    set (read_devices d) = set (ws_devices st) \<and> set (read_spaces d) = set (ws_spaces st) \<and>
    set (read_chats tm d) = migrated_chat ` set (ws_chats st) \<and>
    set (read_sessions d) = set (ws_sessions st)"
proof -
  define d where "d = enqueue_by_400 now 0 (seed_ops st) (registry_new device)"
  have raw: "overlay_raw (kind, i) d = seeded (seed_ops st) (kind, i)" for kind i
    by (simp add: d_def overlay_by_400 seeded_def)
       (simp add: overlay_raw_def registry_new_def ops_on_def get_row_def)
  note keys = seed_keys_distinct [OF assms]
  have ok: "\<forall>v \<in> set (ws_devices st). device_ok v" "\<forall>s \<in> set (ws_spaces st). space_ok s"
    "\<forall>c \<in> set (ws_chats st). chat_ok tm c" "\<forall>s \<in> set (ws_sessions st). session_ok s"
    using assms by (simp_all add: state_ok_def list_all_iff)
  have "set (read_kind dec_device KIND_DEVICES d) = (\<lambda>v. v) ` set (ws_devices st)"
    by (rule read_seeded [OF keys, of KIND_DEVICES "ws_devices st" dv_id
          "\<lambda>v. newest_of [dv_last_seen_at v, dv_created_at v]" device_fields])
       (auto simp: seed_ops_def raw device_row.distinct_names ok intro!: device_row.reads bind_unnull)
  moreover have "set (read_kind dec_space KIND_SPACES d) = (\<lambda>v. v) ` set (ws_spaces st)"
    by (rule read_seeded [OF keys, of KIND_SPACES "ws_spaces st" sp_id
          "\<lambda>s. newest_of [sp_git_checked_at s, Some (sp_created_at s)]" space_fields])
       (auto simp: seed_ops_def raw space_row.distinct_names ok intro!: space_row.reads bind_unnull)
  moreover have "set (read_kind (dec_chat tm) KIND_CHATS d) = migrated_chat ` set (ws_chats st)"
    by (rule read_seeded [OF keys, of KIND_CHATS "ws_chats st" ch_id
          "\<lambda>c. newest_of [ch_last_message_at c, ch_last_seen_at c, Some (ch_created_at c)]"
          migrated_chat_fields])
       (auto simp: seed_ops_def raw migrated_names ok intro!: migrated_reads)
  moreover have "set (read_kind dec_session KIND_SESSIONS d) = (\<lambda>v. v) ` set (ws_sessions st)"
    by (rule read_seeded [OF keys, of KIND_SESSIONS "ws_sessions st" ss_chat_id
          "\<lambda>s. newest_of [Some (ss_updated_at s), ss_started_at s]" session_fields])
       (auto simp: seed_ops_def raw session_row.distinct_names ok intro!: session_row.reads bind_unnull)
  moreover have "seed_from_workspace now st (registry_new device) = (d, length (seed_ops st))"
    by (simp add: seed_from_workspace_def d_def Let_def)
  ultimately show ?thesis
    by (simp add: read_devices_def read_spaces_def read_chats_def read_sessions_def seed_ops_def)
qed

theorem migration_carries_over_witness:
  "set (read_spaces (fst (seed_from_workspace (\<lambda>_ _. 5)
     \<lparr>ws_devices = [], ws_spaces = [home_space], ws_chats = [], ws_sessions = []\<rparr> (registry_new ''a'')))) =
     {home_space}"
proof -
  let ?st = "\<lparr>ws_devices = [], ws_spaces = [home_space], ws_chats = [], ws_sessions = []\<rparr>"
  have "state_ok Some ?st" by (simp add: state_ok_def space_ok_def home_space_def representable_def)
  from migration_carries_over [OF this, of "\<lambda>_ _. 5" "''a''"] show ?thesis
    by (simp add: split_beta)
qed

end
