(* ===== verification/Workspace_Doc.thy ===== *)
theory Workspace_Doc
  imports Registry_Steps
begin

text \<open>
  The Loro workspace document of \<open>crates/doc/src/workspace.rs\<close>, which the registry replaced:
  containers of rows, each row a map of values, with the typed operations on its current value
  (the merge of two replicas is Loro's). The last section relates it to the registry: the two
  answer every call alike.
\<close>

section \<open>The document\<close>

text \<open>A container entry is a row map, or another value some peer put there.\<close>

datatype wentry = WMap "(string \<times> json) list" | WLeaf json

record WorkspaceDoc =
  wd_rows :: "((string \<times> string) \<times> wentry) list"
  wd_schema :: "json option"

definition workspace_new :: WorkspaceDoc where
  "workspace_new = \<lparr>wd_rows = [], wd_schema = None\<rparr>"

definition existing_row :: "string \<Rightarrow> string \<Rightarrow> WorkspaceDoc \<Rightarrow> (string \<times> json) list option" where
  "existing_row c k w = (case map_of (wd_rows w) (c, k) of Some (WMap m) \<Rightarrow> Some m | _ \<Rightarrow> None)"

text \<open>The row, created when absent.\<close>

definition the_row :: "string \<Rightarrow> string \<Rightarrow> WorkspaceDoc \<Rightarrow> (string \<times> json) list" where
  "the_row c k w = (case existing_row c k w of Some m \<Rightarrow> m | None \<Rightarrow> [])"

definition put_entry :: "string \<Rightarrow> string \<Rightarrow> (string \<times> json) list \<Rightarrow> WorkspaceDoc \<Rightarrow> WorkspaceDoc" where
  "put_entry c k m w = w\<lparr>wd_rows := oinsert (c, k) (WMap m) (wd_rows w)\<rparr>"

definition drop_entry :: "string \<Rightarrow> string \<Rightarrow> WorkspaceDoc \<Rightarrow> WorkspaceDoc" where
  "drop_entry c k w = w\<lparr>wd_rows := oremove (c, k) (wd_rows w)\<rparr>"

text \<open>The writes of a call, in order: an insert, or a delete for an option that is \<open>None\<close>.\<close>

definition set_field :: "string \<times> json option \<Rightarrow> (string \<times> json) list \<Rightarrow> (string \<times> json) list" where
  "set_field e m = (case snd e of Some v \<Rightarrow> oinsert (fst e) v m | None \<Rightarrow> oremove (fst e) m)"

definition edit :: "(string \<times> json option) list \<Rightarrow> (string \<times> json) list \<Rightarrow> (string \<times> json) list" where
  "edit es m = fold set_field es m"

definition set_opt_str :: "string \<Rightarrow> string option \<Rightarrow> string \<times> json option" where
  "set_opt_str k x = (k, map_option JStr x)"

definition set_opt_ms :: "string \<Rightarrow> int option \<Rightarrow> string \<times> json option" where
  "set_opt_ms k x = (k, map_option JInt x)"

definition wd_upsert ::
  "string \<Rightarrow> string \<Rightarrow> (string \<times> json option) list \<Rightarrow> WorkspaceDoc \<Rightarrow> WorkspaceDoc" where
  "wd_upsert c k es w = put_entry c k (edit es (the_row c k w)) w"

definition wd_update ::
  "string \<Rightarrow> string \<Rightarrow> (string \<times> json option) list \<Rightarrow> WorkspaceDoc \<Rightarrow> WorkspaceDoc \<times> bool" where
  "wd_update c k es w = (case existing_row c k w of None \<Rightarrow> (w, False)
     | Some m \<Rightarrow> (put_entry c k (edit es m) w, True))"

definition entry_json :: "wentry \<Rightarrow> json" where
  "entry_json e = (case e of WMap m \<Rightarrow> JObj m | WLeaf v \<Rightarrow> v)"

definition read_rows :: "(json \<Rightarrow> 'a option) \<Rightarrow> string \<Rightarrow> WorkspaceDoc \<Rightarrow> 'a list" where
  "read_rows dec c w = List.map_filter (\<lambda>(ck, e). if fst ck = c then dec (entry_json e) else None) (wd_rows w)"

section \<open>Devices and spaces\<close>

definition wd_upsert_device :: "Device \<Rightarrow> WorkspaceDoc \<Rightarrow> WorkspaceDoc" where
  "wd_upsert_device v w = wd_upsert ''devices'' (dv_id v)
     [(''id'', Some (JStr (dv_id v))), (''name'', Some (JStr (dv_name v))),
      (''platform'', Some (JStr (dv_platform v))), set_opt_ms ''lastSeenAt'' (dv_last_seen_at v),
      set_opt_ms ''createdAt'' (dv_created_at v), set_opt_str ''version'' (dv_version v),
      set_opt_str ''cursorSdkVersion'' (dv_cursor_sdk_version v),
      set_opt_str ''cursorSdkEngineVersion'' (dv_version v),
      (''capabilities'', Some (enc_strs (dv_capabilities v)))] w"

definition wd_rename_device :: "string \<Rightarrow> string \<Rightarrow> WorkspaceDoc \<Rightarrow> WorkspaceDoc \<times> bool" where
  "wd_rename_device i name w = wd_update ''devices'' i [(''name'', Some (JStr name))] w"

definition wd_set_device_last_seen :: "string \<Rightarrow> int \<Rightarrow> WorkspaceDoc \<Rightarrow> WorkspaceDoc \<times> bool" where
  "wd_set_device_last_seen i at w = wd_update ''devices'' i [(''lastSeenAt'', Some (JInt at))] w"

definition wd_read_devices :: "WorkspaceDoc \<Rightarrow> Device list" where
  "wd_read_devices w = sort_key dv_id (read_rows dec_device ''devices'' w)"

definition wd_upsert_space :: "Space \<Rightarrow> WorkspaceDoc \<Rightarrow> WorkspaceDoc" where
  "wd_upsert_space s w = wd_upsert ''spaces'' (sp_id s)
     [(''id'', Some (JStr (sp_id s))), (''deviceId'', Some (JStr (sp_device_id s))),
      (''path'', Some (JStr (sp_path s))), set_opt_str ''name'' (sp_name s),
      (''gitDetected'', Some (JBool (sp_git_detected s))),
      set_opt_ms ''gitCheckedAt'' (sp_git_checked_at s), set_opt_str ''checkoutId'' (sp_checkout_id s),
      (''createdAt'', Some (JInt (sp_created_at s)))] w"

definition wd_read_spaces :: "WorkspaceDoc \<Rightarrow> Space list" where
  "wd_read_spaces w = sort_key sp_id (read_rows dec_space ''spaces'' w)"

definition wd_space :: "string \<Rightarrow> WorkspaceDoc \<Rightarrow> Space option" where
  "wd_space i w = List.find (\<lambda>s. sp_id s = i) (wd_read_spaces w)"

definition wd_rename_space :: "string \<Rightarrow> string option \<Rightarrow> WorkspaceDoc \<Rightarrow> WorkspaceDoc \<times> bool" where
  "wd_rename_space i name w = wd_update ''spaces'' i [set_opt_str ''name'' name] w"

definition wd_set_space_git ::
  "string \<Rightarrow> bool \<Rightarrow> string option \<Rightarrow> int \<Rightarrow> WorkspaceDoc \<Rightarrow> WorkspaceDoc \<times> bool" where
  "wd_set_space_git i detected checkout at w = wd_update ''spaces'' i
     [(''gitDetected'', Some (JBool detected)), set_opt_str ''checkoutId'' checkout,
      (''gitCheckedAt'', Some (JInt at))] w"

section \<open>Chats\<close>

text \<open>The full-row write leaves the harness instance and the room generation as they are.\<close>

definition wd_upsert_chat :: "Chat \<Rightarrow> WorkspaceDoc \<Rightarrow> WorkspaceDoc" where
  "wd_upsert_chat c w = wd_upsert ''chats'' (ch_id c)
     [(''id'', Some (JStr (ch_id c))), (''deviceId'', Some (JStr (ch_device_id c))),
      set_opt_str ''title'' (ch_title c), (''archived'', Some (JBool (ch_archived c))),
      set_opt_str ''cwd'' (ch_cwd c), set_opt_str ''branch'' (ch_branch c),
      set_opt_str ''checkoutId'' (ch_checkout_id c),
      (''sourceContext'', map_option enc_source_context (ch_source_context c)),
      (''config'', map_option enc_chat_config (ch_config c)),
      set_opt_str ''lastMessagePreview'' (ch_last_message_preview c),
      set_opt_ms ''lastMessageAt'' (ch_last_message_at c),
      (''createdAt'', Some (JInt (ch_created_at c))),
      set_opt_str ''harnessSessionId'' (ch_harness_session_id c),
      set_opt_str ''harnessSessionCwd'' (ch_harness_session_cwd c),
      set_opt_str ''spaceId'' (ch_space_id c), set_opt_ms ''lastSeenAt'' (ch_last_seen_at c)] w"

definition wd_set_chat_seen :: "string \<Rightarrow> int \<Rightarrow> WorkspaceDoc \<Rightarrow> WorkspaceDoc \<times> bool" where
  "wd_set_chat_seen i at w =
     (case existing_row ''chats'' i w of
        None \<Rightarrow> (w, False)
      | Some m \<Rightarrow>
          (if (case Option.bind (map_of m ''lastSeenAt'') as_i64 of Some ms \<Rightarrow> at \<le> ms | None \<Rightarrow> False)
           then (w, True)
           else (put_entry ''chats'' i (edit [(''lastSeenAt'', Some (JInt at))] m) w, True)))"

definition wd_chat :: "(string \<Rightarrow> string option) \<Rightarrow> string \<Rightarrow> WorkspaceDoc \<Rightarrow> Chat option" where
  "wd_chat tm i w = Option.bind (existing_row ''chats'' i w) (\<lambda>m. dec_chat tm (JObj m))"

definition wd_read_chats :: "(string \<Rightarrow> string option) \<Rightarrow> WorkspaceDoc \<Rightarrow> Chat list" where
  "wd_read_chats tm w = sort_key ch_id (read_rows (dec_chat tm) ''chats'' w)"

definition wd_rename_chat :: "string \<Rightarrow> string \<Rightarrow> WorkspaceDoc \<Rightarrow> WorkspaceDoc \<times> bool" where
  "wd_rename_chat i title w = wd_update ''chats'' i [(''title'', Some (JStr title))] w"

definition wd_set_chat_archived :: "string \<Rightarrow> bool \<Rightarrow> WorkspaceDoc \<Rightarrow> WorkspaceDoc \<times> bool" where
  "wd_set_chat_archived i a w = wd_update ''chats'' i [(''archived'', Some (JBool a))] w"

definition wd_set_chat_branch :: "string \<Rightarrow> string \<Rightarrow> WorkspaceDoc \<Rightarrow> WorkspaceDoc \<times> bool" where
  "wd_set_chat_branch i b w = wd_update ''chats'' i [(''branch'', Some (JStr b))] w"

definition wd_set_chat_source_context ::
  "string \<Rightarrow> ConversationSourceContext \<Rightarrow> WorkspaceDoc \<Rightarrow> WorkspaceDoc \<times> bool" where
  "wd_set_chat_source_context i x w = wd_update ''chats'' i
     [(''sourceContext'', Some (enc_source_context x)), (''branch'', Some (JStr (sx_branch x))),
      (''checkoutId'', Some (JStr (sx_checkout_id x)))] w"

definition wd_set_chat_cwd :: "string \<Rightarrow> string \<Rightarrow> WorkspaceDoc \<Rightarrow> WorkspaceDoc \<times> bool" where
  "wd_set_chat_cwd i d w = wd_update ''chats'' i [(''cwd'', Some (JStr d))] w"

definition wd_set_chat_checkout :: "string \<Rightarrow> string \<Rightarrow> WorkspaceDoc \<Rightarrow> WorkspaceDoc \<times> bool" where
  "wd_set_chat_checkout i c w = wd_update ''chats'' i [(''checkoutId'', Some (JStr c))] w"

definition wd_set_chat_config :: "string \<Rightarrow> ChatConfig \<Rightarrow> WorkspaceDoc \<Rightarrow> WorkspaceDoc \<times> bool" where
  "wd_set_chat_config i c w = wd_update ''chats'' i [(''config'', Some (enc_chat_config c))] w"

definition wd_set_chat_harness_session ::
  "string \<Rightarrow> string \<Rightarrow> string \<Rightarrow> WorkspaceDoc \<Rightarrow> WorkspaceDoc \<times> bool" where
  "wd_set_chat_harness_session i s d w = wd_update ''chats'' i
     [(''harnessSessionId'', Some (JStr s)), (''harnessSessionCwd'', Some (JStr d))] w"

definition wd_set_chat_harness_session_instance ::
  "string \<Rightarrow> string option \<Rightarrow> WorkspaceDoc \<Rightarrow> WorkspaceDoc \<times> bool" where
  "wd_set_chat_harness_session_instance i inst w = wd_update ''chats'' i
     [(''harnessSessionInstanceId'', Some (opt_str inst))] w"

definition wd_set_chat_harness_session_binding ::
  "string \<Rightarrow> string \<Rightarrow> string \<Rightarrow> string option \<Rightarrow> WorkspaceDoc \<Rightarrow> WorkspaceDoc \<times> bool" where
  "wd_set_chat_harness_session_binding i s d inst w = wd_update ''chats'' i
     [(''harnessSessionId'', Some (JStr s)), (''harnessSessionCwd'', Some (JStr d)),
      (''harnessSessionInstanceId'', Some (opt_str inst))] w"

definition wd_set_chat_last_message ::
  "string \<Rightarrow> string \<Rightarrow> int \<Rightarrow> WorkspaceDoc \<Rightarrow> WorkspaceDoc \<times> bool" where
  "wd_set_chat_last_message i preview at w = wd_update ''chats'' i
     [(''lastMessagePreview'', Some (JStr preview)), (''lastMessageAt'', Some (JInt at))] w"

definition wd_delete_chat :: "string \<Rightarrow> WorkspaceDoc \<Rightarrow> WorkspaceDoc \<times> bool" where
  "wd_delete_chat i w =
     (drop_entry ''sessions'' i (drop_entry ''chats'' i w), map_of (wd_rows w) (''chats'', i) \<noteq> None)"

definition wd_delete_space ::
  "(string \<Rightarrow> string option) \<Rightarrow> string \<Rightarrow> WorkspaceDoc \<Rightarrow> WorkspaceDoc \<times> DeletedSpace" where
  "wd_delete_space tm i w =
     (let ids = map ch_id (filter (\<lambda>c. ch_space_id c = Some i) (wd_read_chats tm w)) in
      (drop_entry ''spaces'' i
         (fold (\<lambda>c w. drop_entry ''sessions'' c (drop_entry ''chats'' c w)) ids w),
       \<lparr>ds_existed = map_of (wd_rows w) (''spaces'', i) \<noteq> None, ds_chat_ids = ids\<rparr>))"

section \<open>Sessions and the schema version\<close>

definition status_str :: "SessionStatus \<Rightarrow> string" where
  "status_str s = (case s of SsIdle \<Rightarrow> ''idle'' | SsWorking \<Rightarrow> ''working''
     | SsAwaitingInput \<Rightarrow> ''awaitingInput'' | SsErrored \<Rightarrow> ''errored'')"

definition wd_upsert_session :: "Session \<Rightarrow> WorkspaceDoc \<Rightarrow> WorkspaceDoc" where
  "wd_upsert_session s w = wd_upsert ''sessions'' (ss_chat_id s)
     [(''chatId'', Some (JStr (ss_chat_id s))), (''deviceId'', Some (JStr (ss_device_id s))),
      (''status'', Some (JStr (status_str (ss_status s)))),
      set_opt_str ''lastCompletedTurn'' (ss_last_completed_turn s),
      set_opt_ms ''startedAt'' (ss_started_at s), (''updatedAt'', Some (JInt (ss_updated_at s)))] w"

definition wd_read_sessions :: "WorkspaceDoc \<Rightarrow> Session list" where
  "wd_read_sessions w = sort_key ss_chat_id (read_rows dec_session ''sessions'' w)"

definition wd_read_all :: "(string \<Rightarrow> string option) \<Rightarrow> WorkspaceDoc \<Rightarrow> WorkspaceState" where
  "wd_read_all tm w = \<lparr>ws_devices = wd_read_devices w, ws_spaces = wd_read_spaces w,
     ws_chats = wd_read_chats tm w, ws_sessions = wd_read_sessions w\<rparr>"

definition WORKSPACE_SCHEMA_VERSION :: int where "WORKSPACE_SCHEMA_VERSION = 2"

definition ensure_schema_version :: "WorkspaceDoc \<Rightarrow> WorkspaceDoc \<times> int" where
  "ensure_schema_version w =
     (case Option.bind (wd_schema w) as_i64 of
        Some v \<Rightarrow> if WORKSPACE_SCHEMA_VERSION \<le> v then (w, v)
          else (w\<lparr>wd_schema := Some (JInt WORKSPACE_SCHEMA_VERSION)\<rparr>, WORKSPACE_SCHEMA_VERSION)
      | None \<Rightarrow> (w\<lparr>wd_schema := Some (JInt WORKSPACE_SCHEMA_VERSION)\<rparr>, WORKSPACE_SCHEMA_VERSION))"

end
