(* ===== verification/Workspace_Equiv.thy ===== *)
theory Workspace_Equiv
  imports Workspace_Doc
begin

text \<open>
  The registry against the workspace document it replaced: a simulation between the two, the
  calls both offer, and that they answer alike.
\<close>

section \<open>The simulation\<close>

abbreviation INST :: string where "INST \<equiv> ''harnessSessionInstanceId''"

text \<open>The workspace stores the absent harness instance as \<open>null\<close>, the registry as nothing.\<close>

definition same_fields :: "(string \<times> json) list \<Rightarrow> (string, json) bmap \<Rightarrow> bool" where
  "same_fields m f \<longleftrightarrow> (\<forall>k. map_of m k = map_of f k \<or>
     (k = INST \<and> map_of m k = Some JNull \<and> map_of f k = None))"

definition same_row :: "wentry option \<Rightarrow> RegistryRow option \<Rightarrow> bool" where
  "same_row e r = (case (e, r) of (None, None) \<Rightarrow> True
     | (Some (WMap m), Some r) \<Rightarrow> same_fields m (rw_fields r) | _ \<Rightarrow> False)"

definition kinds4 :: "string list" where
  "kinds4 = [KIND_DEVICES, KIND_SPACES, KIND_CHATS, KIND_SESSIONS]"

definition sim :: "WorkspaceDoc \<Rightarrow> RegistryDoc \<Rightarrow> bool" where
  "sim w d \<longleftrightarrow> distinct (map fst (wd_rows w)) \<and>
     (\<forall>kind \<in> set kinds4. \<forall>i. same_row (map_of (wd_rows w) (kind, i)) (overlay_row kind i d))"

lemma sim_exists: "sim w d \<Longrightarrow> kind \<in> set kinds4 \<Longrightarrow>
   (existing_row kind i w \<noteq> None) = row_exists kind i d \<and>
   (map_of (wd_rows w) (kind, i) \<noteq> None) = row_exists kind i d"
  by (auto simp: sim_def same_row_def existing_row_def row_exists_def
      split: option.splits wentry.splits dest!: spec [of _ i] bspec [of _ _ kind])

lemma sim_fields: "sim w d \<Longrightarrow> kind \<in> set kinds4 \<Longrightarrow> same_fields (the_row kind i w) (shown kind i d)"
proof -
  assume "sim w d" "kind \<in> set kinds4"
  then have "same_row (map_of (wd_rows w) (kind, i)) (overlay_row kind i d)" by (simp add: sim_def)
  then show ?thesis
    by (auto simp: same_row_def the_row_def existing_row_def shown_def same_fields_def
        split: option.splits wentry.splits)
qed

section \<open>Writes\<close>

lemma map_of_edit:
  "distinct (map fst es) \<Longrightarrow> map_of (edit es m) k =
     (case map_of es k of None \<Rightarrow> map_of m k | Some y \<Rightarrow> y)"
proof (induction es arbitrary: m)
  case (Cons e es)
  obtain a y where e: "e = (a, y)" by (cases e)
  have "map_of es a = None" using Cons.prems by (auto simp: e map_of_eq_None_iff)
  moreover have "map_of (set_field (a, y) m) k = (if k = a then y else map_of m k)"
    by (cases y) (simp_all add: set_field_def)
  ultimately show ?case using Cons by (auto simp: e edit_def split: option.split)
qed (simp add: edit_def)

text \<open>The writes of a call in the two formats.\<close>

definition paired :: "string \<times> json option \<Rightarrow> string \<times> json \<Rightarrow> bool" where
  "paired e p \<longleftrightarrow> fst e = fst p \<and> (snd e = unnull (snd p) \<or>
     (fst e = INST \<and> snd e = Some JNull \<and> snd p = JNull))"

definition same_writes :: "(string \<times> json option) list \<Rightarrow> (string \<times> json) list \<Rightarrow> bool" where
  "same_writes es kvs \<longleftrightarrow> distinct (map fst es) \<and> list_all2 paired es kvs"

lemma paired_lookup:
  "list_all2 paired es kvs \<Longrightarrow> map fst es = map fst kvs \<and>
     (map_of es k = None \<and> map_of kvs k = None \<or>
      (\<exists>y v. map_of es k = Some y \<and> map_of kvs k = Some v \<and> paired (k, y) (k, v)))"
proof (induction rule: list_all2_induct)
  case (Cons e es p kvs)
  obtain a y b v where "e = (a, y)" "p = (b, v)" by fastforce
  with Cons show ?case by (auto simp: paired_def)
qed simp

lemma same_writes_lookup:
  assumes "same_writes es kvs"
  shows "distinct (map fst kvs)"
    "map_of es k = None \<and> map_of kvs k = None \<or>
      (\<exists>y v. map_of es k = Some y \<and> map_of kvs k = Some v \<and> paired (k, y) (k, v))"
proof -
  have "distinct (map fst es)" "list_all2 paired es kvs" using assms by (simp_all add: same_writes_def)
  then show "distinct (map fst kvs)"
    "map_of es k = None \<and> map_of kvs k = None \<or>
      (\<exists>y v. map_of es k = Some y \<and> map_of kvs k = Some v \<and> paired (k, y) (k, v))"
    using paired_lookup [of es kvs k] by (simp, blast)
qed

lemma same_fields_write:
  assumes "same_fields m f" "same_writes es kvs"
    "\<forall>k. map_of f' k = (case map_of (field_map kvs) k of None \<Rightarrow> map_of f k | Some v \<Rightarrow> unnull v)"
  shows "same_fields (edit es m) f'"
proof -
  have "map_of (edit es m) k = map_of f' k \<or>
      (k = INST \<and> map_of (edit es m) k = Some JNull \<and> map_of f' k = None)" for k
  proof -
    have d: "distinct (map fst es)" using assms(2) by (simp add: same_writes_def)
    have e: "map_of (edit es m) k = (case map_of es k of None \<Rightarrow> map_of m k | Some y \<Rightarrow> y)"
      using d by (rule map_of_edit)
    have f: "map_of f' k = (case map_of kvs k of None \<Rightarrow> map_of f k | Some v \<Rightarrow> unnull v)"
      using assms(3) same_writes_lookup(1) [OF assms(2)] by (simp add: map_of_field_map)
    from same_writes_lookup(2) [OF assms(2), of k] show ?thesis
    proof (elim disjE exE conjE)
      assume "map_of es k = None" "map_of kvs k = None"
      then show ?thesis using e f assms(1) by (simp add: same_fields_def)
    next
      fix y v assume "map_of es k = Some y" "map_of kvs k = Some v" "paired (k, y) (k, v)"
      then show ?thesis using e f by (auto simp: paired_def)
    qed
  qed
  then show ?thesis by (simp add: same_fields_def)
qed

lemma keys_put: "distinct (map fst (wd_rows w)) \<Longrightarrow> distinct (map fst (wd_rows (put_entry c k m w)))"
  by (simp add: put_entry_def distinct_oinsert)

lemma sim_write:
  assumes "sim w d" "kind \<in> set kinds4" "fresh_write now kind i d"
    "op = Upsert \<or> op = Update \<and> row_exists kind i d" "same_writes es kvs"
  shows "sim (put_entry kind i (edit es (the_row kind i w)) w) (write_row now kind i op (field_map kvs) d)"
proof -
  obtain r where r: "overlay_row kind i (write_row now kind i op (field_map kvs) d) = Some r"
    "\<forall>k. map_of (rw_fields r) k =
       (case map_of (field_map kvs) k of None \<Rightarrow> map_of (shown kind i d) k | Some v \<Rightarrow> unnull v)"
    using fresh_fields [OF assms(3,4) bwf_field_map] by blast
  have new: "same_fields (edit es (the_row kind i w)) (rw_fields r)"
    by (rule same_fields_write [OF sim_fields [OF assms(1,2)] assms(5) r(2)])
  have other: "overlay_row k j (write_row now kind i op (field_map kvs) d) = overlay_row k j d"
    if "(k, j) \<noteq> (kind, i)" for k j
    using overlay_write_other [OF that] by (simp add: overlay_row_def)
  have "same_row (map_of (wd_rows (put_entry kind i (edit es (the_row kind i w)) w)) (k, j))
      (overlay_row k j (write_row now kind i op (field_map kvs) d))" if k: "k \<in> set kinds4" for k j
  proof (cases "(k, j) = (kind, i)")
    case True
    then show ?thesis using new r(1) by (simp add: put_entry_def same_row_def)
  next
    case False
    have "same_row (map_of (wd_rows w) (k, j)) (overlay_row k j d)"
      using assms(1) k by (simp add: sim_def)
    moreover have "map_of (wd_rows (put_entry kind i m w)) (k, j) = map_of (wd_rows w) (k, j)" for m
      using False by (auto simp: put_entry_def)
    ultimately show ?thesis using other [OF False] by simp
  qed
  moreover have "distinct (map fst (wd_rows w))" using assms(1) by (simp add: sim_def)
  ultimately show ?thesis using keys_put by (simp add: sim_def)
qed

lemma sim_upsert:
  "sim w d \<Longrightarrow> kind \<in> set kinds4 \<Longrightarrow> fresh_write now kind i d \<Longrightarrow> same_writes es kvs \<Longrightarrow>
     sim (wd_upsert kind i es w) (write_row now kind i Upsert (field_map kvs) d)"
  unfolding wd_upsert_def by (rule sim_write) simp_all

text \<open>Two calls agree: the same answer, and documents that still agree.\<close>

definition agree :: "WorkspaceDoc \<times> 'b \<Rightarrow> RegistryDoc \<times> 'b \<Rightarrow> bool" where
  "agree a b \<longleftrightarrow> sim (fst a) (fst b) \<and> snd a = snd b"

lemma sim_update:
  assumes "sim w d" "kind \<in> set kinds4" "fresh_write now kind i d" "same_writes es kvs"
  shows "agree (wd_update kind i es w) (update_row now kind i kvs d)"
proof (cases "existing_row kind i w")
  case None
  then have "\<not> row_exists kind i d" using sim_exists [OF assms(1,2), of i] by simp
  then show ?thesis using None assms(1) by (simp add: wd_update_def update_row_def agree_def)
next
  case (Some m)
  then have ex: "row_exists kind i d" using sim_exists [OF assms(1,2), of i] by simp
  have "m = the_row kind i w" using Some by (simp add: the_row_def)
  then show ?thesis using Some ex sim_write [OF assms(1-3) _ assms(4), of Update]
    by (simp add: wd_update_def update_row_def agree_def)
qed

section \<open>Deletes\<close>

lemma sim_drop:
  assumes "sim w d" "\<forall>kind j. fresh_write now kind j d" "set keys \<subseteq> set kinds4 \<times> UNIV"
  shows "sim (fold (\<lambda>(c, k). drop_entry c k) keys w) (delete_row_ops now keys d)"
proof -
  have rows: "map_of (wd_rows (fold (\<lambda>(c, k). drop_entry c k) ks w)) p =
      (if p \<in> set ks then None else map_of (wd_rows w) p)" for ks p
    by (induction ks arbitrary: w) (auto simp: drop_entry_def)
  have dist: "distinct (map fst (wd_rows w)) \<Longrightarrow>
      distinct (map fst (wd_rows (fold (\<lambda>(c, k). drop_entry c k) ks w)))" for ks
    by (induction ks arbitrary: w) (auto simp: drop_entry_def oremove_def distinct_map_filter)
  have "same_row (map_of (wd_rows (fold (\<lambda>(c, k). drop_entry c k) keys w)) (kind, i))
      (overlay_row kind i (delete_row_ops now keys d))" if "kind \<in> set kinds4" for kind i
  proof (cases "(kind, i) \<in> set keys")
    case True
    then have "\<not> row_exists kind i (delete_row_ops now keys d)"
      using assms(2) by (intro deleted_row) auto
    then show ?thesis using True by (simp add: rows same_row_def row_exists_def)
  next
    case False
    then show ?thesis using assms(1) that by (simp add: rows overlay_row_def untouched_row sim_def)
  qed
  then show ?thesis using assms(1) dist by (simp add: sim_def)
qed

section \<open>Reads\<close>

lemma opt_at_inst: "same_fields m f \<Longrightarrow> opt dec k (JObj m) = opt dec k (JObj f)"
  by (cases "map_of m k = map_of f k") (auto simp: same_fields_def field_at opt_at_def)

lemma same_lookup: "same_fields m f \<Longrightarrow> k \<noteq> INST \<Longrightarrow> map_of m k = map_of f k"
  by (auto simp: same_fields_def)

lemma same_decode:
  assumes "same_fields m f"
  shows "dec_device (JObj m) = dec_device (JObj f)" "dec_space (JObj m) = dec_space (JObj f)"
    "dec_chat tm (JObj m) = dec_chat tm (JObj f)" "dec_session (JObj m) = dec_session (JObj f)"
proof -
  note same = opt_at_inst [OF assms]
  have req_s: "req as_str k (JObj m) = req as_str k (JObj f)" if "k \<noteq> INST" for k
    using same_lookup [OF assms that] by (simp add: req_def)
  have req_e: "req (dec_enum t) k (JObj m) = req (dec_enum t) k (JObj f)" if "k \<noteq> INST"
    for t :: "(string \<times> SessionStatus) list" and k
    using same_lookup [OF assms that] by (simp add: req_def)
  have dflt_i: "dflt x as_i64 k (JObj m) = dflt x as_i64 k (JObj f)" if "k \<noteq> INST" for x k
    using same_lookup [OF assms that] by (simp add: dflt_def)
  have dflt_b: "dflt x as_bool k (JObj m) = dflt x as_bool k (JObj f)" if "k \<noteq> INST" for x k
    using same_lookup [OF assms that] by (simp add: dflt_def)
  have dflt_v: "dflt x (dec_vec as_str) k (JObj m) = dflt x (dec_vec as_str) k (JObj f)"
    if "k \<noteq> INST" for x k
    using same_lookup [OF assms that] by (simp add: dflt_def)
  have dflt_c: "dflt x lenient_chat_config k (JObj m) = dflt x lenient_chat_config k (JObj f)"
    if "k \<noteq> INST" for x k
    using same_lookup [OF assms that] by (simp add: dflt_def)
  note all = same req_s req_e dflt_i dflt_b dflt_v dflt_c
  show "dec_device (JObj m) = dec_device (JObj f)" by (simp add: dec_device_def all)
  show "dec_space (JObj m) = dec_space (JObj f)" by (simp add: dec_space_def all)
  show "dec_chat tm (JObj m) = dec_chat tm (JObj f)" by (simp add: dec_chat_def all)
  show "dec_session (JObj m) = dec_session (JObj f)" by (simp add: dec_session_def all)
qed

lemma sim_read:
  assumes "sim w d" "kind \<in> set kinds4"
    "\<And>m f. same_fields m f \<Longrightarrow> dec (JObj m) = dec (JObj f)"
  shows "set (read_rows dec kind w) = set (read_kind dec kind d)"
proof (intro set_eqI iffI)
  have row: "same_row (map_of (wd_rows w) (kind, i)) (overlay_row kind i d)" for i
    using assms(1,2) by (simp add: sim_def)
  fix x
  {
    assume "x \<in> set (read_rows dec kind w)"
    then obtain i e where e: "((kind, i), e) \<in> set (wd_rows w)" "dec (entry_json e) = Some x"
      by (auto simp: read_rows_def List.map_filter_def split: if_splits)
    then have "map_of (wd_rows w) (kind, i) = Some e" using assms(1) by (simp add: sim_def)
    then obtain m r where "e = WMap m" "overlay_row kind i d = Some r" "same_fields m (rw_fields r)"
      using row [of i] by (auto simp: same_row_def split: option.splits wentry.splits)
    then have "r \<in> set (overlay_rows kind d)" "dec (row_json r) = Some x"
      using e(2) assms(3) overlay_listed by (auto simp: row_json_def entry_json_def)
    then show "x \<in> set (read_kind dec kind d)"
      unfolding read_kind_def List.map_filter_def by force
  }
  assume "x \<in> set (read_kind dec kind d)"
  then obtain i r where r: "overlay_row kind i d = Some r" "dec (row_json r) = Some x"
    using overlay_rows_member by (fastforce simp: read_kind_def List.map_filter_def)
  then obtain m where "map_of (wd_rows w) (kind, i) = Some (WMap m)" "same_fields m (rw_fields r)"
    using row [of i] by (auto simp: same_row_def split: option.splits wentry.splits)
  then have "((kind, i), WMap m) \<in> set (wd_rows w)" "dec (entry_json (WMap m)) = Some x"
    using r(2) assms(3) by (auto simp: row_json_def entry_json_def dest: map_of_SomeD)
  then show "x \<in> set (read_rows dec kind w)"
    unfolding read_rows_def List.map_filter_def by force
qed

section \<open>The calls\<close>

datatype call =
  C_Device Device
| C_RenameDevice string string
| C_DeviceSeen string int
| C_Space Space
| C_RenameSpace string "string option"
| C_SpaceGit string bool "string option" int
| C_DeleteSpace string
| C_Seen string int
| C_Rename string string
| C_Archived string bool
| C_Branch string string
| C_Context string ConversationSourceContext
| C_Cwd string string
| C_Checkout string string
| C_Config string ChatConfig
| C_Harness string string string
| C_Instance string "string option"
| C_Binding string string string "string option"
| C_LastMessage string string int
| C_DeleteChat string
| C_Session Session

fun on_workspace :: "(string \<Rightarrow> string option) \<Rightarrow> call \<Rightarrow> WorkspaceDoc \<Rightarrow> WorkspaceDoc \<times> bool" where
  "on_workspace tm (C_Device v) w = (wd_upsert_device v w, True)"
| "on_workspace tm (C_RenameDevice i n) w = wd_rename_device i n w"
| "on_workspace tm (C_DeviceSeen i t) w = wd_set_device_last_seen i t w"
| "on_workspace tm (C_Space s) w = (wd_upsert_space s w, True)"
| "on_workspace tm (C_RenameSpace i n) w = wd_rename_space i n w"
| "on_workspace tm (C_SpaceGit i g c t) w = wd_set_space_git i g c t w"
| "on_workspace tm (C_DeleteSpace i) w = (case wd_delete_space tm i w of (w', r) \<Rightarrow> (w', ds_existed r))"
| "on_workspace tm (C_Seen i t) w = wd_set_chat_seen i t w"
| "on_workspace tm (C_Rename i n) w = wd_rename_chat i n w"
| "on_workspace tm (C_Archived i a) w = wd_set_chat_archived i a w"
| "on_workspace tm (C_Branch i b) w = wd_set_chat_branch i b w"
| "on_workspace tm (C_Context i x) w = wd_set_chat_source_context i x w"
| "on_workspace tm (C_Cwd i c) w = wd_set_chat_cwd i c w"
| "on_workspace tm (C_Checkout i c) w = wd_set_chat_checkout i c w"
| "on_workspace tm (C_Config i c) w = wd_set_chat_config i c w"
| "on_workspace tm (C_Harness i s c) w = wd_set_chat_harness_session i s c w"
| "on_workspace tm (C_Instance i n) w = wd_set_chat_harness_session_instance i n w"
| "on_workspace tm (C_Binding i s c n) w = wd_set_chat_harness_session_binding i s c n w"
| "on_workspace tm (C_LastMessage i p t) w = wd_set_chat_last_message i p t w"
| "on_workspace tm (C_DeleteChat i) w = wd_delete_chat i w"
| "on_workspace tm (C_Session s) w = (wd_upsert_session s w, True)"

fun on_registry ::
  "(string \<Rightarrow> string option) \<Rightarrow> (nat \<Rightarrow> int) \<Rightarrow> call \<Rightarrow> RegistryDoc \<Rightarrow> RegistryDoc \<times> bool" where
  "on_registry tm now (C_Device v) d = (upsert_device now v d, True)"
| "on_registry tm now (C_RenameDevice i n) d = rename_device now i n d"
| "on_registry tm now (C_DeviceSeen i t) d = set_device_last_seen now i t d"
| "on_registry tm now (C_Space s) d = (upsert_space now s d, True)"
| "on_registry tm now (C_RenameSpace i n) d = rename_space now i n d"
| "on_registry tm now (C_SpaceGit i g c t) d = set_space_git now i g c t d"
| "on_registry tm now (C_DeleteSpace i) d = (case delete_space tm now i d of (d', r) \<Rightarrow> (d', ds_existed r))"
| "on_registry tm now (C_Seen i t) d = set_chat_seen now i t d"
| "on_registry tm now (C_Rename i n) d = rename_chat now i n d"
| "on_registry tm now (C_Archived i a) d = set_chat_archived now i a d"
| "on_registry tm now (C_Branch i b) d = set_chat_branch now i b d"
| "on_registry tm now (C_Context i x) d = set_chat_source_context now i x d"
| "on_registry tm now (C_Cwd i c) d = set_chat_cwd now i c d"
| "on_registry tm now (C_Checkout i c) d = set_chat_checkout now i c d"
| "on_registry tm now (C_Config i c) d = set_chat_config now i c d"
| "on_registry tm now (C_Harness i s c) d = set_chat_harness_session now i s c d"
| "on_registry tm now (C_Instance i n) d = set_chat_harness_session_instance now i n d"
| "on_registry tm now (C_Binding i s c n) d = set_chat_harness_session_binding now i s c n d"
| "on_registry tm now (C_LastMessage i p t) d = set_chat_last_message now i p t d"
| "on_registry tm now (C_DeleteChat i) d = delete_chat now i d"
| "on_registry tm now (C_Session s) d = (upsert_session now s d, True)"

definition all_fresh :: "(nat \<Rightarrow> int) \<Rightarrow> RegistryDoc \<Rightarrow> bool" where
  "all_fresh now d \<longleftrightarrow> (\<forall>kind i. fresh_write now kind i d)"

lemma kinds4_strings [simp]:
  "''devices'' \<in> set kinds4" "''spaces'' \<in> set kinds4" "''chats'' \<in> set kinds4" "''sessions'' \<in> set kinds4"
  by (simp_all add: kinds4_def kinds)

lemma unnull_opts [simp]:
  "unnull (opt_str x) = map_option JStr x" "unnull (opt_ms t) = map_option JInt t"
  "unnull (enc_chat_config c) = Some (enc_chat_config c)"
  "unnull (enc_source_context y) = Some (enc_source_context y)"
  by (cases x; cases t; simp add: unnull_def opt_str_def opt_ms_def enc_chat_config_def
      enc_source_context_def)+

lemma paired_simps [simp]:
  "paired (k, y) (k', v) \<longleftrightarrow> k = k' \<and> (y = unnull v \<or> (k = INST \<and> y = Some JNull \<and> v = JNull))"
  "paired (set_opt_str k x) (k', opt_str x) \<longleftrightarrow> k = k'"
  "paired (set_opt_ms k t) (k', opt_ms t) \<longleftrightarrow> k = k'"
  by (auto simp: paired_def set_opt_str_def set_opt_ms_def)

lemma fst_set_opt [simp]: "fst (set_opt_str k x) = k" "fst (set_opt_ms k t) = k"
  by (simp_all add: set_opt_str_def set_opt_ms_def)

lemma inst_paired [simp]: "Some (opt_str x) = map_option JStr x \<or> opt_str x = JNull"
  by (cases x) (simp_all add: opt_str_def)

lemma agree_upsert:
  "sim w d \<Longrightarrow> all_fresh now d \<Longrightarrow> kind \<in> set kinds4 \<Longrightarrow> same_writes es kvs \<Longrightarrow>
     agree (wd_upsert kind i es w, b) (write_row now kind i Upsert (field_map kvs) d, b)"
  unfolding agree_def all_fresh_def by (simp add: sim_upsert)

lemma agree_update:
  "sim w d \<Longrightarrow> all_fresh now d \<Longrightarrow> kind \<in> set kinds4 \<Longrightarrow> same_writes es kvs \<Longrightarrow>
     agree (wd_update kind i es w) (update_row now kind i kvs d)"
  unfolding all_fresh_def by (simp add: sim_update)

lemma status_value: "JStr (status_str s) = enc_enum status_names s"
  by (cases s) (simp_all add: status_str_def enc_enum_def status_names_def)

lemmas call_defs =
  wd_rename_device_def wd_set_device_last_seen_def wd_rename_space_def wd_set_space_git_def
  wd_rename_chat_def wd_set_chat_archived_def wd_set_chat_branch_def wd_set_chat_source_context_def
  wd_set_chat_cwd_def wd_set_chat_checkout_def wd_set_chat_config_def
  wd_set_chat_harness_session_def wd_set_chat_harness_session_instance_def
  wd_set_chat_harness_session_binding_def wd_set_chat_last_message_def
  rename_device_def set_device_last_seen_def rename_space_def set_space_git_def rename_chat_def
  set_chat_archived_def set_chat_branch_def set_chat_source_context_def set_chat_cwd_def
  set_chat_checkout_def set_chat_config_def set_chat_harness_session_def
  set_chat_harness_session_instance_def set_chat_harness_session_binding_def
  set_chat_last_message_def wd_upsert_device_def wd_upsert_space_def wd_upsert_session_def
  upsert_device_def upsert_space_def upsert_session_def kinds

lemma calls_agree_rows:
  assumes "sim w d" "all_fresh now d"
    "\<nexists>i. c = C_DeleteSpace i" "\<nexists>i. c = C_DeleteChat i" "\<nexists>i t. c = C_Seen i t"
  shows "agree (on_workspace tm c w) (on_registry tm now c d)"
  using assms(3-5)
  by (cases c)
     (simp_all add: call_defs, (rule agree_update [OF assms(1,2)] agree_upsert [OF assms(1,2)];
       simp add: same_writes_def device_fields_def space_fields_def session_fields_def status_value)+)

lemma agree_seen:
  assumes "sim w d" "all_fresh now d"
  shows "agree (wd_set_chat_seen i t w) (set_chat_seen now i t d)"
proof -
  have row: "same_row (map_of (wd_rows w) (KIND_CHATS, i)) (overlay_row KIND_CHATS i d)"
    using assms(1) by (simp add: sim_def kinds4_def)
  have k: "''chats'' = KIND_CHATS" by (simp add: kinds)
  have up: "agree (wd_update KIND_CHATS i [(''lastSeenAt'', Some (JInt t))] w)
      (update_row now KIND_CHATS i [(''lastSeenAt'', JInt t)] d)"
    by (rule agree_update [OF assms]) (simp_all add: kinds4_def same_writes_def)
  show ?thesis
  proof (cases "overlay_row KIND_CHATS i d")
    case None
    then have "map_of (wd_rows w) (KIND_CHATS, i) = None"
      using row by (auto simp: same_row_def split: option.splits wentry.splits)
    then show ?thesis using None assms(1)
      by (simp add: agree_def wd_set_chat_seen_def set_chat_seen_def k existing_row_def)
  next
    case (Some r)
    then obtain m where m: "map_of (wd_rows w) (KIND_CHATS, i) = Some (WMap m)" "same_fields m (rw_fields r)"
      using row by (auto simp: same_row_def split: option.splits wentry.splits)
    have "map_of m ''lastSeenAt'' = map_of (rw_fields r) ''lastSeenAt''"
      using m(2) by (rule same_lookup) simp
    then show ?thesis using Some m(1) assms(1) up
      by (simp add: agree_def wd_set_chat_seen_def set_chat_seen_def k existing_row_def
          wd_update_def update_row_def row_exists_def)
  qed
qed

lemma agree_delete_chat:
  assumes "sim w d" "all_fresh now d"
  shows "agree (wd_delete_chat i w) (delete_chat now i d)"
proof -
  have "sim (fold (\<lambda>(c, k). drop_entry c k) [(KIND_CHATS, i), (KIND_SESSIONS, i)] w)
      (delete_row_ops now [(KIND_CHATS, i), (KIND_SESSIONS, i)] d)"
    using assms by (intro sim_drop) (auto simp: all_fresh_def kinds4_def)
  moreover have "(map_of (wd_rows w) (KIND_CHATS, i) \<noteq> None) = row_exists KIND_CHATS i d"
    using sim_exists [OF assms(1)] by (simp add: kinds4_def)
  ultimately show ?thesis
    by (simp add: agree_def wd_delete_chat_def delete_chat_def KIND_CHATS_def KIND_SESSIONS_def)
qed

lemma agree_delete_space:
  assumes "sim w d" "all_fresh now d"
  shows "agree (on_workspace tm (C_DeleteSpace i) w) (on_registry tm now (C_DeleteSpace i) d)"
proof -
  define ws where "ws = map ch_id (filter (\<lambda>c. ch_space_id c = Some i) (wd_read_chats tm w))"
  define rs where "rs = map ch_id (filter (\<lambda>c. ch_space_id c = Some i) (read_chats tm d))"
  define keys where "keys = (\<lambda>ids. concat (map (\<lambda>c. [(KIND_CHATS, c), (KIND_SESSIONS, c)]) ids) @ [(KIND_SPACES, i)])"
  have "set (read_rows (dec_chat tm) KIND_CHATS w) = set (read_kind (dec_chat tm) KIND_CHATS d)"
    by (rule sim_read [OF assms(1)]) (simp_all add: kinds4_def same_decode)
  then have "set (wd_read_chats tm w) = set (read_chats tm d)"
    by (simp add: wd_read_chats_def read_chats_def KIND_CHATS_def)
  then have ids: "set ws = set rs" by (auto simp: ws_def rs_def)
  have raw: "overlay_row k j (delete_row_ops now (keys ws) d) =
      overlay_row k j (delete_row_ops now (keys rs) d)" if "k \<in> set kinds4" for k j
  proof (cases "(k, j) \<in> set (keys rs)")
    case True
    then have "(k, j) \<in> set (keys ws)" using ids by (auto simp: keys_def)
    then show ?thesis using True deleted_row assms(2)
      unfolding all_fresh_def row_exists_def by (metis (no_types, lifting))
  next
    case False
    then have "(k, j) \<notin> set (keys ws)" using ids by (auto simp: keys_def)
    then show ?thesis using False by (simp add: overlay_row_def untouched_row)
  qed
  have "sim (fold (\<lambda>(c, k). drop_entry c k) (keys ws) w) (delete_row_ops now (keys ws) d)"
    using assms by (intro sim_drop) (auto simp: all_fresh_def kinds4_def keys_def)
  then have s: "sim (fold (\<lambda>(c, k). drop_entry c k) (keys ws) w) (delete_row_ops now (keys rs) d)"
    using raw by (simp add: sim_def)
  have "fold (\<lambda>(c, k). drop_entry c k) (concat (map (\<lambda>c. [(KIND_CHATS, c), (KIND_SESSIONS, c)]) xs)) v =
      fold (\<lambda>c w. drop_entry KIND_SESSIONS c (drop_entry KIND_CHATS c w)) xs v" for xs v
    by (induction xs arbitrary: v) simp_all
  then have f: "fold (\<lambda>(c, k). drop_entry c k) (keys ws) w =
      drop_entry KIND_SPACES i (fold (\<lambda>c w. drop_entry KIND_SESSIONS c (drop_entry KIND_CHATS c w)) ws w)"
    by (simp add: keys_def)
  have ex: "(map_of (wd_rows w) (KIND_SPACES, i) \<noteq> None) = row_exists KIND_SPACES i d"
    using sim_exists [OF assms(1)] by (simp add: kinds4_def)
  have "on_workspace tm (C_DeleteSpace i) w =
      (fold (\<lambda>(c, k). drop_entry c k) (keys ws) w, map_of (wd_rows w) (KIND_SPACES, i) \<noteq> None)"
    unfolding f by (simp add: wd_delete_space_def ws_def kinds Let_def)
  moreover have "on_registry tm now (C_DeleteSpace i) d =
      (delete_row_ops now (keys rs) d, row_exists KIND_SPACES i d)"
    by (simp add: delete_space_def rs_def keys_def Let_def)
  ultimately show ?thesis using s ex by (simp only: agree_def fst_conv snd_conv simp_thms)
qed

lemma calls_agree:
  assumes "sim w d" "all_fresh now d"
  shows "agree (on_workspace tm c w) (on_registry tm now c d)"
proof -
  consider i where "c = C_DeleteSpace i" | i where "c = C_DeleteChat i" | i t where "c = C_Seen i t"
    | "\<nexists>i. c = C_DeleteSpace i" "\<nexists>i. c = C_DeleteChat i" "\<nexists>i t. c = C_Seen i t" by blast
  then show ?thesis
  proof cases
    case 1
    show ?thesis unfolding 1 by (rule agree_delete_space [OF assms])
  next
    case 2
    show ?thesis unfolding 2 by (simp add: agree_delete_chat [OF assms])
  next
    case 3
    show ?thesis unfolding 3 by (simp add: agree_seen [OF assms])
  next
    case 4
    then show ?thesis by (rule calls_agree_rows [OF assms])
  qed
qed

section \<open>Runs\<close>

fun workspace_run :: "(string \<Rightarrow> string option) \<Rightarrow> call list \<Rightarrow> WorkspaceDoc \<Rightarrow> WorkspaceDoc \<times> bool list" where
  "workspace_run tm [] w = (w, [])"
| "workspace_run tm (c # cs) w = (case on_workspace tm c w of (w1, b) \<Rightarrow>
     (case workspace_run tm cs w1 of (w2, bs) \<Rightarrow> (w2, b # bs)))"

fun registry_run ::
  "(string \<Rightarrow> string option) \<Rightarrow> ((nat \<Rightarrow> int) \<times> call) list \<Rightarrow> RegistryDoc \<Rightarrow> RegistryDoc \<times> bool list" where
  "registry_run tm [] d = (d, [])"
| "registry_run tm ((now, c) # cs) d = (case on_registry tm now c d of (d1, b) \<Rightarrow>
     (case registry_run tm cs d1 of (d2, bs) \<Rightarrow> (d2, b # bs)))"

text \<open>Every call is made with a clock newer than the rows.\<close>

fun fresh_run :: "(string \<Rightarrow> string option) \<Rightarrow> ((nat \<Rightarrow> int) \<times> call) list \<Rightarrow> RegistryDoc \<Rightarrow> bool" where
  "fresh_run tm [] d \<longleftrightarrow> True"
| "fresh_run tm ((now, c) # cs) d \<longleftrightarrow> all_fresh now d \<and> fresh_run tm cs (fst (on_registry tm now c d))"

lemma runs_agree:
  "sim w d \<Longrightarrow> fresh_run tm cs d \<Longrightarrow> agree (workspace_run tm (map snd cs) w) (registry_run tm cs d)"
proof (induction cs arbitrary: w d)
  case (Cons nc cs)
  obtain now c where nc: "nc = (now, c)" by (cases nc)
  obtain w1 b where w1: "on_workspace tm c w = (w1, b)" by fastforce
  obtain d1 b' where d1: "on_registry tm now c d = (d1, b')" by fastforce
  have "all_fresh now d" "fresh_run tm cs d1" using Cons.prems(2) d1 by (simp_all add: nc)
  then have step: "sim w1 d1 \<and> b = b'"
    using calls_agree [OF Cons.prems(1), of now tm c] w1 d1 by (simp add: agree_def)
  then have "agree (workspace_run tm (map snd cs) w1) (registry_run tm cs d1)"
    using Cons.IH \<open>fresh_run tm cs d1\<close> by blast
  then show ?case using step w1 d1
    by (auto simp: nc agree_def split: prod.split)
qed (simp add: agree_def)

section \<open>Properties\<close>

text \<open>C22: The registry is equivalent to the workspace document it replaced. Take the two holding
  the same rows, make any sequence of the calls they share on both (upserts of devices, spaces
  and sessions, every one-row update, the deletes with their cascade), each with a clock newer
  than the rows. Every call answers alike, and at the end both read the same devices, spaces,
  chats and sessions.\<close>

theorem registry_matches_workspace:
  assumes "sim w d" "fresh_run tm cs d"
    "workspace_run tm (map snd cs) w = (w', as)" "registry_run tm cs d = (d', bs)"
  shows "as = bs \<and> set (wd_read_devices w') = set (read_devices d') \<and>
    set (wd_read_spaces w') = set (read_spaces d') \<and>
    set (wd_read_chats tm w') = set (read_chats tm d') \<and>
    set (wd_read_sessions w') = set (read_sessions d')"
proof -
  have s: "sim w' d'" and "as = bs"
    using runs_agree [OF assms(1,2)] assms(3,4) by (simp_all add: agree_def)
  have "set (read_rows dec_device KIND_DEVICES w') = set (read_kind dec_device KIND_DEVICES d')"
    "set (read_rows dec_space KIND_SPACES w') = set (read_kind dec_space KIND_SPACES d')"
    "set (read_rows (dec_chat tm) KIND_CHATS w') = set (read_kind (dec_chat tm) KIND_CHATS d')"
    "set (read_rows dec_session KIND_SESSIONS w') = set (read_kind dec_session KIND_SESSIONS d')"
    by (rule sim_read [OF s]; simp add: kinds4_def same_decode)+
  then show ?thesis using \<open>as = bs\<close>
    by (simp add: wd_read_devices_def wd_read_spaces_def wd_read_chats_def wd_read_sessions_def
        read_devices_def read_spaces_def read_chats_def read_sessions_def kinds)
qed

lemma sim_empty: "sim workspace_new (registry_new i)"
  by (simp add: sim_def workspace_new_def same_row_def overlay_row_def overlay_raw_def registry_new_def
      ops_on_def get_row_def)

theorem registry_matches_workspace_witness:
  "set (wd_read_spaces (wd_upsert_space home_space workspace_new)) =
     set (read_spaces (upsert_space (\<lambda>_. 5) home_space (registry_new ''a'')))"
proof -
  have "all_fresh (\<lambda>_. 5) (registry_new ''a'')"
    by (simp add: all_fresh_def fresh_write_def overlay_raw_def registry_new_def ops_on_def get_row_def)
  then show ?thesis
    using registry_matches_workspace [OF sim_empty, of Some "[(\<lambda>_. 5, C_Space home_space)]" "''a''"]
    by simp
qed

end
