(* ===== verification/Thread_Lifecycle.thy ===== *)
theory Thread_Lifecycle
  imports Registry_Api
begin

text \<open>
  \<open>crates/proto/src/thread_lifecycle.rs\<close>: the lifecycle a thread publishes, its reading off the
  registry (\<open>thread_lifecycles\<close> of \<open>crates/doc/src/registry.rs\<close>), and the fingerprint of the
  attachments of a queued message. A time stamp of a lifecycle is the epoch milliseconds \<open>ms_of\<close>
  (the parameter standing for \<open>chrono\<close>) reads off its RFC 3339 text.
\<close>

section \<open>Lifecycles\<close>

datatype SettleSource = SettledUser | SettledAuto

definition settle_names :: "(string \<times> SettleSource) list" where
  "settle_names = [(''User'', SettledUser), (''Auto'', SettledAuto)]"

record ChatLifecycle =
  cl_pinned_at :: "int option"
  cl_snoozed_until :: "int option"
  cl_settled_at :: "int option"
  cl_settled_by :: "SettleSource option"
  cl_woke_at :: "int option"

definition lifecycle_default :: ChatLifecycle where
  "lifecycle_default = \<lparr>cl_pinned_at = None, cl_snoozed_until = None, cl_settled_at = None,
     cl_settled_by = None, cl_woke_at = None\<rparr>"

definition is_default :: "ChatLifecycle \<Rightarrow> bool" where "is_default c \<longleftrightarrow> c = lifecycle_default"
definition pinned :: "ChatLifecycle \<Rightarrow> bool" where "pinned c \<longleftrightarrow> cl_pinned_at c \<noteq> None"

definition snoozed :: "int \<Rightarrow> ChatLifecycle \<Rightarrow> bool" where
  "snoozed now c \<longleftrightarrow> (case cl_snoozed_until c of None \<Rightarrow> False | Some t \<Rightarrow> now < t)"

definition settled :: "ChatLifecycle \<Rightarrow> bool" where "settled c \<longleftrightarrow> cl_settled_at c \<noteq> None"
definition woke :: "ChatLifecycle \<Rightarrow> bool" where "woke c \<longleftrightarrow> cl_woke_at c \<noteq> None"

definition dec_time :: "(string \<Rightarrow> int option) \<Rightarrow> json \<Rightarrow> int option" where
  "dec_time ms_of v = Option.bind (as_str v) ms_of"

text \<open>Every member defaults; \<open>null\<close> is \<open>None\<close>.\<close>

definition dec_lifecycle :: "(string \<Rightarrow> int option) \<Rightarrow> json \<Rightarrow> ChatLifecycle option" where
  "dec_lifecycle ms_of v = do {
     is_obj v;
     p \<leftarrow> opt (dec_time ms_of) ''pinnedAt'' v;
     n \<leftarrow> opt (dec_time ms_of) ''snoozedUntil'' v;
     s \<leftarrow> opt (dec_time ms_of) ''settledAt'' v;
     b \<leftarrow> opt (dec_enum settle_names) ''settledBy'' v;
     w \<leftarrow> opt (dec_time ms_of) ''wokeAt'' v;
     Some \<lparr>cl_pinned_at = p, cl_snoozed_until = n, cl_settled_at = s, cl_settled_by = b,
       cl_woke_at = w\<rparr>}"

section \<open>Lifecycles of the registry\<close>

definition busy :: "SessionStatus \<Rightarrow> bool" where
  "busy s \<longleftrightarrow> s \<in> {SsWorking, SsAwaitingInput, SsErrored}"

definition unsettle :: "ChatLifecycle \<Rightarrow> ChatLifecycle" where
  "unsettle c = c\<lparr>cl_snoozed_until := None, cl_settled_at := None, cl_settled_by := None\<rparr>"

text \<open>The entries collected into a map, here by the order of the rows.\<close>

definition thread_lifecycles ::
  "(string \<Rightarrow> int option) \<Rightarrow> RegistryDoc \<Rightarrow> (string \<times> ChatLifecycle) list" where
  "thread_lifecycles ms_of d =
     (let blocked = map ss_chat_id (filter (\<lambda>s. busy (ss_status s)) (read_sessions d)) in
      List.map_filter (\<lambda>r.
        case Option.bind (map_of (rw_fields r) ''orchestration'') (json_get ''lifecycle'') of
          None \<Rightarrow> None
        | Some v \<Rightarrow>
            (case dec_lifecycle ms_of v of
               None \<Rightarrow> None
             | Some c \<Rightarrow> Some (rw_id r, if rw_id r \<in> set blocked then unsettle c else c)))
        (overlay_rows KIND_CHATS d))"

section \<open>Attachment fingerprints\<close>

definition prefixed :: "string \<Rightarrow> string" where
  "prefixed item = decimal (length item) @ '':'' @ item"

definition attachment_ids :: "json list \<Rightarrow> string list" where
  "attachment_ids xs = List.map_filter (\<lambda>a. as_str (json_index a ''id'')) xs"

definition queue_attachment_fingerprint :: "json list \<Rightarrow> string list \<Rightarrow> string" where
  "queue_attachment_fingerprint attachments paths =
     ''claims='' @ concat (map prefixed (attachment_ids attachments)) @
     ''|paths='' @ concat (map prefixed paths)"

text \<open>Decimal numbers are told apart, and hold digits only.\<close>

definition is_digit :: "char \<Rightarrow> bool" where
  "is_digit c \<longleftrightarrow> CHR ''0'' \<le> c \<and> c \<le> CHR ''9''"

lemma digit_is_digit: "d < 10 \<Longrightarrow> is_digit (digit d)"
proof -
  assume d: "d < 10"
  have "CHR ''0'' = digit 0" "CHR ''9'' = digit 9"
    by (simp_all add: digit_def char_of_def bit_iff_odd)
  moreover have "digit 0 \<le> digit d" "digit d \<le> digit 9"
    using digit_less [of d 0] digit_less [of 9 d] d by (simp_all add: linorder_not_less [symmetric])
  ultimately show ?thesis by (simp add: is_digit_def)
qed

lemma decimal_digits: "\<forall>c \<in> set (decimal n). is_digit c"
proof (induction n rule: decimal.induct)
  case (1 n)
  then show ?case by (subst decimal.simps) (auto intro: digit_is_digit)
qed

lemma decimal_not_Nil [simp]: "decimal n \<noteq> []" "[] \<noteq> decimal n"
  by (subst decimal.simps, simp)+

lemma prefixed_split:
  assumes "prefixed a @ x = prefixed b @ y"
  shows "a = b \<and> x = y"
proof -
  have colon: "\<not> is_digit CHR '':''" by (simp add: is_digit_def less_eq_char_def)
  have n: "takeWhile is_digit (prefixed s @ z) = decimal (length s)" for s z
    using decimal_digits colon by (simp add: prefixed_def takeWhile_append2)
  have len: "length a = length b"
    using n [of a x] n [of b y] assms decimal_inj by simp
  then show ?thesis using assms by (simp add: prefixed_def)
qed

lemma prefixed_run:
  assumes "concat (map prefixed as) @ x = concat (map prefixed bs) @ y"
    "x = [] \<or> \<not> is_digit (hd x)" "y = [] \<or> \<not> is_digit (hd y)"
  shows "as = bs \<and> x = y"
  using assms
proof (induction as arbitrary: bs)
  have starts: "is_digit (hd (prefixed s @ z))" "prefixed s @ z \<noteq> []" for s z
    using decimal_digits [of "length s"] by (cases "decimal (length s)"; simp add: prefixed_def)+
  case Nil
  then show ?case using starts by (cases bs) fastforce+
next
  have starts: "is_digit (hd (prefixed s @ z))" "prefixed s @ z \<noteq> []" for s z
    using decimal_digits [of "length s"] by (cases "decimal (length s)"; simp add: prefixed_def)+
  case (Cons a as)
  show ?case
  proof (cases bs)
    case Nil
    then have "y = prefixed a @ (concat (map prefixed as) @ x)" using Cons.prems(1) by simp
    then show ?thesis using starts Cons.prems(3) by metis
  next
    case (Cons b cs)
    then have "a = b \<and> concat (map prefixed as) @ x = concat (map prefixed cs) @ y"
      using Cons.prems(1) by (intro prefixed_split) simp
    then show ?thesis using Cons Cons.IH Cons.prems(2,3) by blast
  qed
qed

text \<open>The fingerprint of a queued message's attachments identifies them: two sets of
  attachments have the same fingerprint exactly when they claim the same attachment ids and
  hold the same upload paths, in the same order, whatever characters ids and paths contain
  (the separators of the format included).\<close>

theorem fingerprint_identifies:
  "queue_attachment_fingerprint as ps = queue_attachment_fingerprint bs qs \<longleftrightarrow>
     attachment_ids as = attachment_ids bs \<and> ps = qs"
proof
  assume "queue_attachment_fingerprint as ps = queue_attachment_fingerprint bs qs"
  then have e: "concat (map prefixed (attachment_ids as)) @ (''|paths='' @ concat (map prefixed ps)) =
      concat (map prefixed (attachment_ids bs)) @ (''|paths='' @ concat (map prefixed qs))"
    by (simp add: queue_attachment_fingerprint_def)
  have bar: "\<not> is_digit (hd (''|paths='' @ z))" for z by (simp add: is_digit_def less_eq_char_def)
  have "attachment_ids as = attachment_ids bs \<and>
      ''|paths='' @ concat (map prefixed ps) = ''|paths='' @ concat (map prefixed qs)"
    using prefixed_run [OF e] bar by blast
  then show "attachment_ids as = attachment_ids bs \<and> ps = qs"
    using prefixed_run [of ps "[]" qs "[]"] by simp
qed (simp add: queue_attachment_fingerprint_def)

end
