(* ===== verification/Split_Tree.thy ===== *)
theory Split_Tree
  imports Complex_Main Ordered_Map
begin

text \<open>
  Split trees of the workspace layout: \<open>crates/workspace/src/tree.rs\<close> and the two tree helpers
  of \<open>arrange.rs\<close>. An \<open>f64\<close> is its value: a finite float is a rational, exactly, and the tree code
  only compares and stores it (\<open>edge_zone\<close>, which rounds, is not modelled). The specification is
  the list of leaves from left to right (or top to bottom): each operation is an operation on
  that list.
\<close>

section \<open>Values and errors\<close>

datatype f64 = Fin rat | Inf bool | NaN

definition is_finite :: "f64 \<Rightarrow> bool" where
  "is_finite x \<longleftrightarrow> (case x of Fin _ \<Rightarrow> True | _ \<Rightarrow> False)"

definition in_range :: "rat \<Rightarrow> rat \<Rightarrow> f64 \<Rightarrow> bool" where
  "in_range lo hi x \<longleftrightarrow> (case x of Fin q \<Rightarrow> lo \<le> q \<and> q \<le> hi | _ \<Rightarrow> False)"

text \<open>\<open>Panicked\<close> is the model's own: an \<open>unwrap\<close>, an index or a map access that would panic.\<close>

datatype LayoutError =
  Invalid string
| Limit string
| NotFound string
| LastOf string
| RevisionConflict nat nat
| Exhausted
| Panicked

definition MAX_DEPTH :: nat where "MAX_DEPTH = 16"

text \<open>The doubles nearest to 0.1, 0.9 and the half.\<close>

definition MIN_RATIO :: rat where "MIN_RATIO = 3602879701896397 / 36028797018963968"
definition MAX_RATIO :: rat where "MAX_RATIO = 8106479329266893 / 9007199254740992"
definition half :: f64 where "half = Fin (1 / 2)"

definition ratio_ok :: "f64 \<Rightarrow> bool" where
  "ratio_ok r \<longleftrightarrow> is_finite r \<and> in_range MIN_RATIO MAX_RATIO r"

definition validate_ratio :: "f64 \<Rightarrow> LayoutError + unit" where
  "validate_ratio r = (if \<not> ratio_ok r
     then Inl (Invalid ''split ratio must be finite and within 0.1..=0.9'') else Inr ())"

section \<open>Trees\<close>

datatype 'a SplitNode =
  Leaf 'a
| Split (horizontal: bool) (ratio: f64) (first: "'a SplitNode") (second: "'a SplitNode")

datatype Direction = DLeft | DRight | DUp | DDown

datatype Branch = First | Second

definition dir_horizontal :: "Direction \<Rightarrow> bool" where
  "dir_horizontal d \<longleftrightarrow> d = DLeft \<or> d = DRight"

definition dir_before :: "Direction \<Rightarrow> bool" where
  "dir_before d \<longleftrightarrow> d = DLeft \<or> d = DUp"

fun first_leaf :: "'a SplitNode \<Rightarrow> 'a" where
  "first_leaf (Leaf x) = x"
| "first_leaf (Split h r a b) = first_leaf a"

fun collect :: "nat \<Rightarrow> 'a SplitNode \<Rightarrow> 'a list \<Rightarrow> LayoutError + 'a list" where
  "collect d (Leaf x) acc = (if MAX_DEPTH < d then Inl (Limit ''tree depth'') else Inr (acc @ [x]))"
| "collect d (Split h r a b) acc =
     (if MAX_DEPTH < d then Inl (Limit ''tree depth'')
      else rbind (validate_ratio r) (\<lambda>_. rbind (collect (Suc d) a acc) (collect (Suc d) b)))"

text \<open>Storing through the reference \<open>ratio_mut\<close> returns.\<close>

fun store_ratio :: "Branch list \<Rightarrow> f64 \<Rightarrow> 'a SplitNode \<Rightarrow> LayoutError + 'a SplitNode" where
  "store_ratio [] q (Split h r a b) = Inr (Split h q a b)"
| "store_ratio (First # p) q (Split h r a b) = rbind (store_ratio p q a) (\<lambda>a'. Inr (Split h r a' b))"
| "store_ratio (Second # p) q (Split h r a b) = rbind (store_ratio p q b) (\<lambda>b'. Inr (Split h r a b'))"
| "store_ratio p q (Leaf x) = Inl (Invalid ''tree path does not identify a split'')"

fun insert_leaf :: "'a \<Rightarrow> 'a \<Rightarrow> Direction \<Rightarrow> 'a SplitNode \<Rightarrow> 'a SplitNode \<times> bool" where
  "insert_leaf target added d (Leaf x) =
     (if x = target
      then (if dir_before d then Split (dir_horizontal d) half (Leaf added) (Leaf x)
            else Split (dir_horizontal d) half (Leaf x) (Leaf added), True)
      else (Leaf x, False))"
| "insert_leaf target added d (Split h r a b) =
     (case insert_leaf target added d a of
        (a', True) \<Rightarrow> (Split h r a' b, True)
      | (a', False) \<Rightarrow> (case insert_leaf target added d b of (b', ok) \<Rightarrow> (Split h r a' b', ok)))"

text \<open>Only the two children of the given node are looked at.\<close>

fun is_sibling_in_direction :: "'a \<Rightarrow> 'a \<Rightarrow> Direction \<Rightarrow> 'a SplitNode \<Rightarrow> bool" where
  "is_sibling_in_direction source target d (Split h r (Leaf x) (Leaf y)) =
     ((if x = source \<and> y = target then d = DLeft \<or> d = DUp
       else if x = target \<and> y = source then d = DRight \<or> d = DDown
       else False) \<and>
      (if dir_horizontal d then h else \<not> h))"
| "is_sibling_in_direction source target d _ = False"

fun remove_leaf :: "'a \<Rightarrow> 'a SplitNode \<Rightarrow> 'a SplitNode option" where
  "remove_leaf target (Leaf x) = (if x \<noteq> target then Some (Leaf x) else None)"
| "remove_leaf target (Split h r a b) =
     (case (remove_leaf target a, remove_leaf target b) of
        (Some a', Some b') \<Rightarrow> Some (Split h r a' b')
      | (Some a', None) \<Rightarrow> Some a'
      | (None, b') \<Rightarrow> b')"

definition exchange :: "'a \<Rightarrow> 'a \<Rightarrow> 'a \<Rightarrow> 'a" where
  "exchange a b x = (if x = a then b else if x = b then a else x)"

text \<open>\<open>swap_leaves\<close>, and \<open>swap_leaf\<close> of \<open>arrange.rs\<close>.\<close>

fun swap_leaves :: "'a \<Rightarrow> 'a \<Rightarrow> 'a SplitNode \<Rightarrow> 'a SplitNode" where
  "swap_leaves a b (Leaf x) = Leaf (exchange a b x)"
| "swap_leaves a b (Split h r l k) = Split h r (swap_leaves a b l) (swap_leaves a b k)"

fun replace_with_split ::
  "'a \<Rightarrow> 'a SplitNode \<Rightarrow> Direction \<Rightarrow> 'a SplitNode \<Rightarrow> 'a SplitNode \<times> bool" where
  "replace_with_split target added d (Leaf x) =
     (if x = target
      then (if dir_before d then Split (dir_horizontal d) half added (Leaf x)
            else Split (dir_horizontal d) half (Leaf x) added, True)
      else (Leaf x, False))"
| "replace_with_split target added d (Split h r a b) =
     (case replace_with_split target added d a of
        (a', True) \<Rightarrow> (Split h r a' b, True)
      | (a', False) \<Rightarrow> (case replace_with_split target added d b of (b', ok) \<Rightarrow> (Split h r a' b', ok)))"

section \<open>Leaves\<close>

fun leaves :: "'a SplitNode \<Rightarrow> 'a list" where
  "leaves (Leaf x) = [x]"
| "leaves (Split h r a b) = leaves a @ leaves b"

fun depth :: "'a SplitNode \<Rightarrow> nat" where
  "depth (Leaf x) = 0"
| "depth (Split h r a b) = Suc (max (depth a) (depth b))"

fun ratios_ok :: "'a SplitNode \<Rightarrow> bool" where
  "ratios_ok (Leaf x) = True"
| "ratios_ok (Split h r a b) \<longleftrightarrow> ratio_ok r \<and> ratios_ok a \<and> ratios_ok b"

text \<open>Placing a run of leaves beside the first occurrence of another.\<close>

fun place :: "'a \<Rightarrow> 'a list \<Rightarrow> bool \<Rightarrow> 'a list \<Rightarrow> 'a list" where
  "place t added before [] = []"
| "place t added before (x # xs) =
     (if x = t then (if before then added @ x # xs else x # added @ xs) else x # place t added before xs)"

lemma leaves_not_Nil [simp]: "leaves n \<noteq> []"
  by (induction n) auto

lemma first_leaf_hd: "first_leaf n = hd (leaves n)"
  by (induction n) simp_all

lemma place_append:
  "place t added before (xs @ ys) =
     (if t \<in> set xs then place t added before xs @ ys else xs @ place t added before ys)"
  by (cases before; induction xs) simp_all

lemma place_absent: "t \<notin> set xs \<Longrightarrow> place t added before xs = xs"
  by (induction xs) auto

lemma set_place:
  assumes "t \<in> set xs"
  shows "set (place t added before xs) = set added \<union> set xs"
proof -
  obtain us vs where xs: "xs = us @ t # vs" "t \<notin> set us" using assms by (metis split_list_first)
  then have "place t added before xs = us @ place t added before (t # vs)"
    by (simp only: place_append) simp
  then show ?thesis using xs(1) by auto
qed

lemma distinct_place:
  "distinct xs \<Longrightarrow> distinct added \<Longrightarrow> set added \<inter> set xs = {} \<Longrightarrow> distinct (place t added before xs)"
proof (induction xs)
  case (Cons x xs)
  show ?case
  proof (cases "x = t")
    case False
    have "set (place t added before xs) \<subseteq> set added \<union> set xs"
      by (cases "t \<in> set xs") (auto simp: set_place place_absent)
    then have "x \<notin> set (place t added before xs)" using Cons.prems by auto
    then show ?thesis using Cons False by auto
  qed (use Cons.prems in auto)
qed simp

lemma replace_leaves:
  "leaves (fst (replace_with_split t added d n)) = place t (leaves added) (dir_before d) (leaves n) \<and>
   snd (replace_with_split t added d n) = (t \<in> set (leaves n))"
proof (induction n)
  case (Split h r a b)
  then show ?case
    by (cases "t \<in> set (leaves a)")
       (auto simp: place_append place_absent split: prod.splits bool.splits)
qed auto

lemma insert_is_replace: "insert_leaf t x d n = replace_with_split t (Leaf x) d n"
  by (induction n) auto

lemma insert_leaves:
  "leaves (fst (insert_leaf t x d n)) = place t [x] (dir_before d) (leaves n) \<and>
   snd (insert_leaf t x d n) = (t \<in> set (leaves n))"
  using replace_leaves [of t "Leaf x" d n] by (simp add: insert_is_replace)

lemma remove_leaves:
  "(case remove_leaf t n of None \<Rightarrow> [] | Some n' \<Rightarrow> leaves n') = filter (\<lambda>x. x \<noteq> t) (leaves n)"
  by (induction n) (auto split: option.splits)

lemma remove_None_iff: "remove_leaf t n = None \<longleftrightarrow> set (leaves n) = {t}"
proof -
  have "remove_leaf t n = None \<longleftrightarrow> filter (\<lambda>x. x \<noteq> t) (leaves n) = []"
    using remove_leaves [of t n] by (cases "remove_leaf t n") auto
  then show ?thesis using leaves_not_Nil [of n]
    by (cases "leaves n") (auto simp: filter_empty_conv)
qed

lemma swap_leaves_leaves: "leaves (swap_leaves a b n) = map (exchange a b) (leaves n)"
  by (induction n) auto

lemma half_ok: "ratio_ok half"
  by (simp add: ratio_ok_def half_def is_finite_def in_range_def MIN_RATIO_def MAX_RATIO_def)

text \<open>Which trees \<open>collect\<close> accepts.\<close>

lemma collect_ok:
  "collect d n acc = Inr xs \<longleftrightarrow> d + depth n \<le> MAX_DEPTH \<and> ratios_ok n \<and> xs = acc @ leaves n"
proof (induction n arbitrary: d acc xs)
  case (Split h r a b)
  have "validate_ratio r = Inr u \<longleftrightarrow> ratio_ok r" for u by (simp add: validate_ratio_def)
  then show ?case using Split by auto
qed auto

lemma replace_depth:
  "depth (fst (replace_with_split t added d n)) \<le> depth n + Suc (depth added)"
proof (induction n)
  case (Split h r a b)
  then show ?case by (auto split: prod.splits bool.splits)
qed auto

lemma replace_ratios:
  "ratios_ok n \<Longrightarrow> ratios_ok added \<Longrightarrow> ratios_ok (fst (replace_with_split t added d n))"
  by (induction n) (auto simp: half_ok split: prod.splits bool.splits)

lemma remove_shape:
  "remove_leaf t n = Some n' \<Longrightarrow> depth n' \<le> depth n \<and> (ratios_ok n \<longrightarrow> ratios_ok n')"
  by (induction n arbitrary: n') (fastforce split: option.splits if_splits)+

lemma swap_shape: "depth (swap_leaves a b n) = depth n \<and> ratios_ok (swap_leaves a b n) = ratios_ok n"
  by (induction n) auto

lemma store_shape:
  "store_ratio p q n = Inr n' \<Longrightarrow> leaves n' = leaves n \<and> depth n' = depth n \<and>
     (ratio_ok q \<longrightarrow> ratios_ok n \<longrightarrow> ratios_ok n')"
  by (induction p q n arbitrary: n' rule: store_ratio.induct) auto

end
