(* ===== verification/Layout.thy ===== *)
theory Layout
  imports Split_Tree Json
begin

text \<open>
  The workspace layout of \<open>crates/workspace/src/lib.rs\<close>: views in a split tree, each with tabs,
  each with a split tree of panes. A \<open>BTreeMap\<close> is a sorted list of pairs, an id its number, a
  counter a natural number below \<open>2 ^ 64\<close>. An edit of a draft is a function to the edited draft
  and a result, or an error; \<open>compose\<close> is the transaction every public operation runs in.
\<close>

section \<open>State\<close>

definition MAX_VIEWS :: nat where "MAX_VIEWS = 64"
definition MAX_TABS :: nat where "MAX_TABS = 512"
definition MAX_PANES :: nat where "MAX_PANES = 4096"

datatype PaneMode = ChatMode | TerminalMode
datatype TabPlacement = PlaceTop | PlaceLeft

record PaneState =
  pt_session_id :: "string option"
  pt_mode :: PaneMode
  pt_label :: "string option"
  pt_group :: "string option"
  pt_provider_key :: "string option"
  pt_conversation_id :: "string option"
  pt_permission_mode :: "string option"
  pt_title_sc_owned :: bool
  pt_extra :: "(string \<times> json) list"

definition pane_default :: PaneState where
  "pane_default = \<lparr>pt_session_id = None, pt_mode = ChatMode, pt_label = None, pt_group = None,
     pt_provider_key = None, pt_conversation_id = None, pt_permission_mode = None,
     pt_title_sc_owned = False, pt_extra = []\<rparr>"

record SplitTabLayout =
  st_root :: "nat SplitNode"
  st_active_pane_id :: nat
  st_primary_pane_id :: nat
  st_panes :: "(nat, PaneState) bmap"

record ViewLayout =
  vw_rail_width :: f64
  vw_tab_placement :: TabPlacement
  vw_active_tab_id :: nat
  vw_tab_order :: "nat list"
  vw_tabs :: "(nat, SplitTabLayout) bmap"

record WorkspaceLayout =
  wl_root :: "nat SplitNode"
  wl_active_view_id :: nat
  wl_views :: "(nat, ViewLayout) bmap"
  wl_next_id :: nat
  wl_revision :: nat
  wl_extra :: "(string \<times> json) list"

definition single_tab :: "nat \<Rightarrow> PaneState \<Rightarrow> SplitTabLayout" where
  "single_tab i p = \<lparr>st_root = Leaf i, st_active_pane_id = i, st_primary_pane_id = i, st_panes = [(i, p)]\<rparr>"

definition single_view :: "nat \<Rightarrow> nat \<Rightarrow> PaneState \<Rightarrow> ViewLayout" where
  "single_view t i p = \<lparr>vw_rail_width = Fin 240, vw_tab_placement = PlaceTop, vw_active_tab_id = t,
     vw_tab_order = [t], vw_tabs = [(t, single_tab i p)]\<rparr>"

definition layout_new :: WorkspaceLayout where
  "layout_new = \<lparr>wl_root = Leaf 1, wl_active_view_id = 1, wl_views = [(1, single_view 2 3 pane_default)],
     wl_next_id = 4, wl_revision = 0, wl_extra = []\<rparr>"

section \<open>Reading\<close>

definition ordered_tabs :: "ViewLayout \<Rightarrow> nat list" where
  "ordered_tabs v = (if vw_tab_order v = [] then bkeys (vw_tabs v) else vw_tab_order v)"

definition active_pane_id :: "WorkspaceLayout \<Rightarrow> nat option" where
  "active_pane_id w =
     Option.bind (map_of (wl_views w) (wl_active_view_id w)) (\<lambda>v.
       map_option st_active_pane_id (map_of (vw_tabs v) (vw_active_tab_id v)))"

text \<open>The first entry, in key order, that \<open>f\<close> accepts.\<close>

fun find_entry :: "('a \<times> 'b \<Rightarrow> 'c option) \<Rightarrow> ('a \<times> 'b) list \<Rightarrow> 'c option" where
  "find_entry f [] = None"
| "find_entry f (e # es) = (case f e of Some y \<Rightarrow> Some y | None \<Rightarrow> find_entry f es)"

definition pane_location :: "nat \<Rightarrow> WorkspaceLayout \<Rightarrow> (nat \<times> nat) option" where
  "pane_location i w = find_entry (\<lambda>(vi, v).
     find_entry (\<lambda>(ti, t). if bcontains (st_panes t) i then Some (vi, ti) else None) (vw_tabs v))
     (wl_views w)"

definition get_tab :: "nat \<Rightarrow> nat \<Rightarrow> WorkspaceLayout \<Rightarrow> LayoutError + SplitTabLayout" where
  "get_tab vi ti w = rbind (ok_or (NotFound ''view'') (map_of (wl_views w) vi))
     (\<lambda>v. ok_or (NotFound ''tab'') (map_of (vw_tabs v) ti))"

definition pane :: "nat \<Rightarrow> WorkspaceLayout \<Rightarrow> PaneState option" where
  "pane i w = Option.bind (pane_location i w) (\<lambda>(vi, ti).
     Option.bind (map_of (wl_views w) vi) (\<lambda>v.
       Option.bind (map_of (vw_tabs v) ti) (\<lambda>t. map_of (st_panes t) i)))"

text \<open>Writing through the references \<open>get_mut\<close> and \<open>tab_mut\<close>.\<close>

definition on_view :: "nat \<Rightarrow> (ViewLayout \<Rightarrow> ViewLayout) \<Rightarrow> WorkspaceLayout \<Rightarrow> WorkspaceLayout" where
  "on_view vi f w = (case map_of (wl_views w) vi of None \<Rightarrow> w
     | Some v \<Rightarrow> w\<lparr>wl_views := binsert vi (f v) (wl_views w)\<rparr>)"

definition set_tab :: "nat \<Rightarrow> SplitTabLayout \<Rightarrow> ViewLayout \<Rightarrow> ViewLayout" where
  "set_tab ti t v = v\<lparr>vw_tabs := binsert ti t (vw_tabs v)\<rparr>"

definition pane_mut ::
  "nat \<Rightarrow> (PaneState \<Rightarrow> PaneState) \<Rightarrow> WorkspaceLayout \<Rightarrow> WorkspaceLayout option" where
  "pane_mut i f w = Option.bind (pane_location i w) (\<lambda>(vi, ti).
     Option.bind (map_of (wl_views w) vi) (\<lambda>v.
       Option.bind (map_of (vw_tabs v) ti) (\<lambda>t.
         map_option (\<lambda>p. on_view vi (set_tab ti (t\<lparr>st_panes := binsert i (f p) (st_panes t)\<rparr>)) w)
           (map_of (st_panes t) i))))"

definition allocate :: "WorkspaceLayout \<Rightarrow> LayoutError + WorkspaceLayout \<times> nat" where
  "allocate w = (if 2 ^ 64 \<le> wl_next_id w + 1 then Inl Exhausted
     else Inr (w\<lparr>wl_next_id := wl_next_id w + 1\<rparr>, wl_next_id w))"

definition tab_ids :: "nat \<times> SplitTabLayout \<Rightarrow> nat list" where
  "tab_ids e = fst e # bkeys (st_panes (snd e))"

definition view_ids :: "nat \<times> ViewLayout \<Rightarrow> nat list" where
  "view_ids e = fst e # concat (map tab_ids (vw_tabs (snd e)))"

definition id_list :: "WorkspaceLayout \<Rightarrow> nat list" where
  "id_list w = concat (map view_ids (wl_views w))"

definition ids :: "WorkspaceLayout \<Rightarrow> nat set" where
  "ids w = set (id_list w)"

section \<open>Validation\<close>

definition unique_id :: "nat set \<Rightarrow> nat \<Rightarrow> LayoutError + nat set" where
  "unique_id seen i = (if i = 0 \<or> i \<in> seen
     then Inl (Invalid ''IDs must be nonzero and globally unique'') else Inr (insert i seen))"

definition reachable :: "nat SplitNode \<Rightarrow> (nat, 'v) bmap \<Rightarrow> LayoutError + unit" where
  "reachable tree m = rbind (collect 0 tree []) (\<lambda>ls.
     let found = set ls in
     if card found \<noteq> length ls \<or> card found \<noteq> length m \<or> (\<exists>i \<in> found. \<not> bcontains m i)
     then Inl (Invalid ''tree leaves must reference every map ID exactly once'') else Inr ())"

fun unique_ids :: "nat set \<Rightarrow> nat list \<Rightarrow> LayoutError + nat set" where
  "unique_ids seen [] = Inr seen"
| "unique_ids seen (i # is) = rbind (unique_id seen i) (\<lambda>seen'. unique_ids seen' is)"

fun validate_tabs ::
  "nat set \<times> nat \<Rightarrow> (nat \<times> SplitTabLayout) list \<Rightarrow> LayoutError + nat set \<times> nat" where
  "validate_tabs (seen, panes) [] = Inr (seen, panes)"
| "validate_tabs (seen, panes) ((ti, t) # ts) =
     rbind (unique_id seen ti) (\<lambda>seen1.
       if st_panes t = [] then Inl (Invalid ''tab has no panes'')
       else let panes1 = panes + length (st_panes t) in
         if MAX_PANES < panes1 then Inl (Limit ''panes'')
         else rbind (reachable (st_root t) (st_panes t)) (\<lambda>_.
           if \<not> bcontains (st_panes t) (st_active_pane_id t) \<or> \<not> bcontains (st_panes t) (st_primary_pane_id t)
           then Inl (Invalid ''active or primary pane is missing'')
           else rbind (unique_ids seen1 (bkeys (st_panes t))) (\<lambda>seen2.
             validate_tabs (seen2, panes1) ts)))"

fun validate_views ::
  "nat set \<times> nat \<times> nat \<Rightarrow> (nat \<times> ViewLayout) list \<Rightarrow> LayoutError + nat set" where
  "validate_views (seen, tabs, panes) [] = Inr seen"
| "validate_views (seen, tabs, panes) ((vi, v) # vs) =
     rbind (unique_id seen vi) (\<lambda>seen1.
       if \<not> is_finite (vw_rail_width v) \<or> \<not> in_range 0 4096 (vw_rail_width v)
       then Inl (Invalid ''rail width must be finite and within 0..=4096'')
       else if vw_tabs v = [] then Inl (Invalid ''view has no tabs'')
       else let order = ordered_tabs v in
         if length order \<noteq> length (vw_tabs v) \<or> set order \<noteq> set (bkeys (vw_tabs v))
         then Inl (Invalid ''tab order must contain each tab exactly once'')
         else let tabs1 = tabs + length (vw_tabs v) in
           if MAX_TABS < tabs1 then Inl (Limit ''tabs'')
           else if \<not> bcontains (vw_tabs v) (vw_active_tab_id v) then Inl (Invalid ''active tab is missing'')
           else rbind (validate_tabs (seen1, panes) (vw_tabs v)) (\<lambda>(seen2, panes1).
             validate_views (seen2, tabs1, panes1) vs))"

definition validate :: "WorkspaceLayout \<Rightarrow> LayoutError + unit" where
  "validate w =
     (if wl_views w = [] then Inl (Invalid ''workspace has no views'')
      else if MAX_VIEWS < length (wl_views w) then Inl (Limit ''views'')
      else if \<not> bcontains (wl_views w) (wl_active_view_id w) then Inl (Invalid ''active view is missing'')
      else rbind (reachable (wl_root w) (wl_views w)) (\<lambda>_.
        rbind (validate_views ({}, 0, 0) (wl_views w)) (\<lambda>seen.
          if seen \<noteq> {} \<and> wl_next_id w \<le> Max seen
          then Inl (Invalid ''next_id must exceed every allocated ID'') else Inr ())))"

section \<open>Transactions\<close>

type_synonym 'r edit = "WorkspaceLayout \<Rightarrow> LayoutError + WorkspaceLayout \<times> 'r"

definition compose :: "nat \<Rightarrow> 'r edit \<Rightarrow> 'r edit" where
  "compose expected edit w =
     (if wl_revision w \<noteq> expected then Inl (RevisionConflict expected (wl_revision w))
      else rbind (validate w) (\<lambda>_.
        if 2 ^ 64 \<le> wl_revision w + 1 then Inl Exhausted
        else rbind (edit w) (\<lambda>(draft, r).
          rbind (validate draft) (\<lambda>_.
            if wl_next_id draft < wl_next_id w \<or> (\<exists>i \<in> ids draft - ids w. i < wl_next_id w)
            then Inl (Invalid ''compose cannot reuse IDs or lower next_id'')
            else Inr (draft\<lparr>wl_revision := wl_revision w + 1\<rparr>, r)))))"

definition transact :: "'r edit \<Rightarrow> 'r edit" where
  "transact edit w = compose (wl_revision w) edit w"

section \<open>Edits\<close>

definition insert_tab :: "nat \<Rightarrow> SplitTabLayout \<Rightarrow> ViewLayout \<Rightarrow> ViewLayout" where
  "insert_tab ti t v =
     (let order = ordered_tabs v in
      v\<lparr>vw_tab_order := (if bcontains (vw_tabs v) ti then order else order @ [ti]),
        vw_tabs := binsert ti t (vw_tabs v)\<rparr>)"

text \<open>Removing a pane from a tab, which keeps at least one.\<close>

definition tab_remove :: "nat \<Rightarrow> SplitTabLayout \<Rightarrow> LayoutError + SplitTabLayout \<times> PaneState" where
  "tab_remove i t =
     (if length (st_panes t) = 1 then Inl (LastOf ''pane in tab'')
      else rbind (ok_or (NotFound ''pane'') (map_of (st_panes t) i)) (\<lambda>p.
        rbind (ok_or (LastOf ''pane in tab'') (remove_leaf i (st_root t))) (\<lambda>tree.
          let f = first_leaf tree in
          Inr (t\<lparr>st_panes := bremove i (st_panes t), st_root := tree,
             st_active_pane_id := (if st_active_pane_id t = i then f else st_active_pane_id t),
             st_primary_pane_id := (if st_primary_pane_id t = i then f else st_primary_pane_id t)\<rparr>, p))))"

definition focus_pane_inner :: "nat \<Rightarrow> unit edit" where
  "focus_pane_inner i w =
     (case pane_location i w of
        None \<Rightarrow> Inl (NotFound ''pane'')
      | Some (vi, ti) \<Rightarrow>
          rbind (get_tab vi ti w) (\<lambda>t.
            Inr ((on_view vi (\<lambda>v. (set_tab ti (t\<lparr>st_active_pane_id := i\<rparr>) v)\<lparr>vw_active_tab_id := ti\<rparr>) w)
              \<lparr>wl_active_view_id := vi\<rparr>, ())))"

definition split_view_edit :: "nat \<Rightarrow> Direction \<Rightarrow> PaneState \<Rightarrow> nat edit" where
  "split_view_edit target d p w =
     (if \<not> bcontains (wl_views w) target then Inl (NotFound ''view'')
      else rbind (allocate w) (\<lambda>(w1, vi). rbind (allocate w1) (\<lambda>(w2, ti). rbind (allocate w2) (\<lambda>(w3, i).
        Inr (w3\<lparr>wl_root := fst (insert_leaf target vi d (wl_root w3)),
           wl_views := binsert vi (single_view ti i p) (wl_views w3),
           wl_active_view_id := vi\<rparr>, vi)))))"

definition add_tab_edit :: "nat \<Rightarrow> PaneState \<Rightarrow> nat edit" where
  "add_tab_edit vi p w =
     (if \<not> bcontains (wl_views w) vi then Inl (NotFound ''view'')
      else rbind (allocate w) (\<lambda>(w1, ti). rbind (allocate w1) (\<lambda>(w2, i).
        Inr ((on_view vi (\<lambda>v. (insert_tab ti (single_tab i p) v)\<lparr>vw_active_tab_id := ti\<rparr>) w2)
          \<lparr>wl_active_view_id := vi\<rparr>, ti))))"

definition split_pane_edit :: "nat \<Rightarrow> Direction \<Rightarrow> PaneState \<Rightarrow> nat edit" where
  "split_pane_edit target d p w =
     (case pane_location target w of
        None \<Rightarrow> Inl (NotFound ''pane'')
      | Some (vi, ti) \<Rightarrow>
          rbind (allocate w) (\<lambda>(w1, i). rbind (get_tab vi ti w1) (\<lambda>t.
            rbind (focus_pane_inner i
              (on_view vi (set_tab ti (t\<lparr>st_root := fst (insert_leaf target i d (st_root t)),
                 st_panes := binsert i p (st_panes t)\<rparr>)) w1)) (\<lambda>(w2, _).
              Inr (w2, i)))))"

definition close_view_inner :: "nat \<Rightarrow> unit edit" where
  "close_view_inner vi w =
     (if \<not> bcontains (wl_views w) vi then Inl (NotFound ''view'')
      else if length (wl_views w) = 1 then Inl (LastOf ''view'')
      else rbind (ok_or (LastOf ''view'') (remove_leaf vi (wl_root w))) (\<lambda>tree.
        Inr (w\<lparr>wl_views := bremove vi (wl_views w), wl_root := tree,
           wl_active_view_id := (if wl_active_view_id w = vi then first_leaf tree
             else wl_active_view_id w)\<rparr>, ())))"

definition close_tab_inner :: "nat \<Rightarrow> nat \<Rightarrow> unit edit" where
  "close_tab_inner vi ti w =
     rbind (ok_or (NotFound ''view'') (map_of (wl_views w) vi)) (\<lambda>v.
       if \<not> bcontains (vw_tabs v) ti then Inl (NotFound ''tab'')
       else if length (vw_tabs v) = 1 then close_view_inner vi w
       else let order = filter (\<lambda>i. i \<noteq> ti) (ordered_tabs v) in
         if vw_active_tab_id v = ti \<and> order = [] then Inl Panicked
         else Inr (on_view vi (\<lambda>v. v\<lparr>vw_tab_order := order, vw_tabs := bremove ti (vw_tabs v),
             vw_active_tab_id := (if vw_active_tab_id v = ti then hd order else vw_active_tab_id v)\<rparr>) w, ()))"

definition detach_pane :: "nat \<Rightarrow> PaneState edit" where
  "detach_pane i w =
     (case pane_location i w of
        None \<Rightarrow> Inl (NotFound ''pane'')
      | Some (vi, ti) \<Rightarrow>
          rbind (get_tab vi ti w) (\<lambda>t.
            if 1 < length (st_panes t)
            then rbind (tab_remove i t) (\<lambda>(t', p). Inr (on_view vi (set_tab ti t') w, p))
            else rbind (ok_or (NotFound ''pane'') (map_of (st_panes t) i)) (\<lambda>p.
              rbind (close_tab_inner vi ti w) (\<lambda>(w', _). Inr (w', p)))))"

text \<open>Indexing with a key that is absent panics, as \<open>unwrap\<close> does.\<close>

definition tab_unwrap :: "nat \<Rightarrow> nat \<Rightarrow> WorkspaceLayout \<Rightarrow> LayoutError + SplitTabLayout" where
  "tab_unwrap vi ti w = (case get_tab vi ti w of Inl _ \<Rightarrow> Inl Panicked | Inr t \<Rightarrow> Inr t)"

definition should_swap :: "nat \<Rightarrow> nat \<Rightarrow> Direction \<Rightarrow> nat \<times> nat \<Rightarrow> WorkspaceLayout \<Rightarrow> LayoutError + bool" where
  "should_swap i target d dest w =
     (if pane_location i w = Some dest
      then rbind (tab_unwrap (fst dest) (snd dest) w) (\<lambda>t.
        Inr (is_sibling_in_direction i target d (st_root t)))
      else Inr False)"

definition move_pane_edit :: "nat \<Rightarrow> nat \<Rightarrow> Direction \<Rightarrow> unit edit" where
  "move_pane_edit i target d w =
     (if i = target then Inl (Invalid ''move source equals target'')
      else case pane_location target w of
        None \<Rightarrow> Inl (NotFound ''target pane'')
      | Some (vi, ti) \<Rightarrow>
          rbind (should_swap i target d (vi, ti) w) (\<lambda>swap.
            if swap
            then rbind (tab_unwrap vi ti w) (\<lambda>t. focus_pane_inner i
              (on_view vi (set_tab ti (t\<lparr>st_root := swap_leaves i target (st_root t)\<rparr>)) w))
            else rbind (detach_pane i w) (\<lambda>(w1, p). rbind (get_tab vi ti w1) (\<lambda>t.
              focus_pane_inner i (on_view vi (set_tab ti
                (t\<lparr>st_root := fst (insert_leaf target i d (st_root t)),
                   st_panes := binsert i p (st_panes t)\<rparr>)) w1)))))"

definition set_view_ratio_edit :: "Branch list \<Rightarrow> f64 \<Rightarrow> unit edit" where
  "set_view_ratio_edit path q w =
     rbind (validate_ratio q) (\<lambda>_. rbind (store_ratio path q (wl_root w)) (\<lambda>tree.
       Inr (w\<lparr>wl_root := tree\<rparr>, ())))"

definition set_pane_ratio_edit :: "nat \<Rightarrow> nat \<Rightarrow> Branch list \<Rightarrow> f64 \<Rightarrow> unit edit" where
  "set_pane_ratio_edit vi ti path q w =
     rbind (validate_ratio q) (\<lambda>_. rbind (get_tab vi ti w) (\<lambda>t.
       rbind (store_ratio path q (st_root t)) (\<lambda>tree.
         Inr (on_view vi (set_tab ti (t\<lparr>st_root := tree\<rparr>)) w, ()))))"

definition focus_view_edit :: "nat \<Rightarrow> unit edit" where
  "focus_view_edit vi w = (if \<not> bcontains (wl_views w) vi then Inl (NotFound ''view'')
     else Inr (w\<lparr>wl_active_view_id := vi\<rparr>, ()))"

definition focus_tab_edit :: "nat \<Rightarrow> nat \<Rightarrow> unit edit" where
  "focus_tab_edit vi ti w = rbind (get_tab vi ti w) (\<lambda>_.
     Inr ((on_view vi (\<lambda>v. v\<lparr>vw_active_tab_id := ti\<rparr>) w)\<lparr>wl_active_view_id := vi\<rparr>, ()))"

section \<open>Operations\<close>

definition split_view :: "nat \<Rightarrow> Direction \<Rightarrow> PaneState \<Rightarrow> nat edit" where
  "split_view target d p = transact (split_view_edit target d p)"

definition add_tab :: "nat \<Rightarrow> PaneState \<Rightarrow> nat edit" where
  "add_tab vi p = transact (add_tab_edit vi p)"

definition split_pane :: "nat \<Rightarrow> Direction \<Rightarrow> PaneState \<Rightarrow> nat edit" where
  "split_pane target d p = transact (split_pane_edit target d p)"

definition close_pane :: "nat \<Rightarrow> unit edit" where
  "close_pane i = transact (\<lambda>w. rbind (detach_pane i w) (\<lambda>(w', _). Inr (w', ())))"

definition close_tab :: "nat \<Rightarrow> nat \<Rightarrow> unit edit" where
  "close_tab vi ti = transact (close_tab_inner vi ti)"

definition close_view :: "nat \<Rightarrow> unit edit" where
  "close_view vi = transact (close_view_inner vi)"

definition focus_view :: "nat \<Rightarrow> unit edit" where
  "focus_view vi = transact (focus_view_edit vi)"

definition focus_tab :: "nat \<Rightarrow> nat \<Rightarrow> unit edit" where
  "focus_tab vi ti = transact (focus_tab_edit vi ti)"

definition focus_pane :: "nat \<Rightarrow> unit edit" where
  "focus_pane i = transact (focus_pane_inner i)"

definition move_pane :: "nat \<Rightarrow> nat \<Rightarrow> Direction \<Rightarrow> unit edit" where
  "move_pane i target d = transact (move_pane_edit i target d)"

definition set_view_ratio :: "Branch list \<Rightarrow> f64 \<Rightarrow> unit edit" where
  "set_view_ratio path q = transact (set_view_ratio_edit path q)"

definition set_pane_ratio :: "nat \<Rightarrow> nat \<Rightarrow> Branch list \<Rightarrow> f64 \<Rightarrow> unit edit" where
  "set_pane_ratio vi ti path q = transact (set_pane_ratio_edit vi ti path q)"

end
