(* ===== verification/Layout_Arrange.thy ===== *)
theory Layout_Arrange
  imports Layout
begin

text \<open>
  The rearrangements of \<open>crates/workspace/src/arrange.rs\<close>, composed of the operations of
  \<open>Layout\<close> (whose nested transactions validate the draft again), and the loading policies of
  \<open>persistence.rs\<close> on a parsed file.
\<close>

section \<open>Views and tabs that must be there\<close>

definition view_unwrap :: "nat \<Rightarrow> WorkspaceLayout \<Rightarrow> LayoutError + ViewLayout" where
  "view_unwrap vi w = (case map_of (wl_views w) vi of None \<Rightarrow> Inl Panicked | Some v \<Rightarrow> Inr v)"

definition close_to_launcher_edit :: "nat \<Rightarrow> unit edit" where
  "close_to_launcher_edit i w =
     (case pane_location i w of
        None \<Rightarrow> Inl (NotFound ''pane'')
      | Some (vi, ti) \<Rightarrow>
          rbind (view_unwrap vi w) (\<lambda>v.
            if length (vw_tabs v) = 1
            then rbind (tab_unwrap vi ti w) (\<lambda>t.
              if length (st_panes t) = 1
              then rbind (add_tab vi pane_default w) (\<lambda>(w1, _). close_pane i w1)
              else close_pane i w)
            else close_pane i w))"

definition close_to_launcher :: "nat \<Rightarrow> unit edit" where
  "close_to_launcher i = transact (close_to_launcher_edit i)"

definition tab_location :: "nat \<Rightarrow> WorkspaceLayout \<Rightarrow> nat option" where
  "tab_location ti w = find_entry (\<lambda>(vi, v). if bcontains (vw_tabs v) ti then Some vi else None) (wl_views w)"

section \<open>Swapping panes\<close>

text \<open>Taking a pane out of a map, and putting one in.\<close>

definition pane_take :: "nat \<Rightarrow> nat \<Rightarrow> nat \<Rightarrow> PaneState edit" where
  "pane_take vi ti i w = rbind (get_tab vi ti w) (\<lambda>t.
     case map_of (st_panes t) i of
       None \<Rightarrow> Inl Panicked
     | Some p \<Rightarrow> Inr (on_view vi (set_tab ti (t\<lparr>st_panes := bremove i (st_panes t)\<rparr>)) w, p))"

definition pane_put :: "nat \<Rightarrow> nat \<Rightarrow> nat \<Rightarrow> PaneState \<Rightarrow> unit edit" where
  "pane_put vi ti i p w = rbind (get_tab vi ti w) (\<lambda>t.
     Inr (on_view vi (set_tab ti (t\<lparr>st_panes := binsert i p (st_panes t)\<rparr>)) w, ()))"

definition swap_tab :: "nat \<Rightarrow> nat \<Rightarrow> SplitTabLayout \<Rightarrow> SplitTabLayout" where
  "swap_tab a b t = t\<lparr>st_root := swap_leaves a b (st_root t),
     st_active_pane_id := exchange a b (st_active_pane_id t),
     st_primary_pane_id := exchange a b (st_primary_pane_id t)\<rparr>"

definition swap_everywhere :: "nat \<Rightarrow> nat \<Rightarrow> WorkspaceLayout \<Rightarrow> WorkspaceLayout" where
  "swap_everywhere a b w = w\<lparr>wl_views := map (map_prod id
     (\<lambda>v. v\<lparr>vw_tabs := map (map_prod id (swap_tab a b)) (vw_tabs v)\<rparr>)) (wl_views w)\<rparr>"

definition swap_panes_edit :: "nat \<Rightarrow> nat \<Rightarrow> unit edit" where
  "swap_panes_edit a b w =
     rbind (ok_or (NotFound ''source pane'') (pane_location a w)) (\<lambda>(av, at').
     rbind (ok_or (NotFound ''target pane'') (pane_location b w)) (\<lambda>(bv, bt).
     rbind (ok_or (NotFound ''active pane'') (active_pane_id w)) (\<lambda>active.
     rbind (if (av, at') \<noteq> (bv, bt)
       then rbind (pane_take av at' a w) (\<lambda>(w1, pa). rbind (pane_take bv bt b w1) (\<lambda>(w2, pb).
         rbind (pane_put av at' b pb w2) (\<lambda>(w3, _). pane_put bv bt a pa w3)))
       else Inr (w, ())) (\<lambda>(w4, _).
     focus_pane_inner active (swap_everywhere a b w4)))))"

definition swap_panes :: "nat \<Rightarrow> nat \<Rightarrow> unit edit" where
  "swap_panes a b w = (if a = b then Inl (Invalid ''swap source equals target'')
     else transact (swap_panes_edit a b) w)"

section \<open>Moving tabs\<close>

definition take_tab :: "nat \<Rightarrow> nat \<Rightarrow> SplitTabLayout edit" where
  "take_tab vi ti w = rbind (get_tab vi ti w) (\<lambda>t.
     rbind (close_tab_inner vi ti w) (\<lambda>(w1, _). Inr (w1, t)))"

definition move_tab_edit :: "nat \<Rightarrow> nat \<Rightarrow> unit edit" where
  "move_tab_edit ti target w =
     rbind (ok_or (NotFound ''tab'') (tab_location ti w)) (\<lambda>source.
       if \<not> bcontains (wl_views w) target then Inl (NotFound ''target view'')
       else rbind (if source \<noteq> target
           then rbind (take_tab source ti w) (\<lambda>(w1, t).
             rbind (view_unwrap target w1) (\<lambda>_. Inr (on_view target (insert_tab ti t) w1, ())))
           else Inr (w, ())) (\<lambda>(w2, _).
         rbind (view_unwrap target w2) (\<lambda>_.
           Inr ((on_view target (\<lambda>v. v\<lparr>vw_active_tab_id := ti\<rparr>) w2)\<lparr>wl_active_view_id := target\<rparr>, ()))))"

definition move_tab :: "nat \<Rightarrow> nat \<Rightarrow> unit edit" where
  "move_tab ti target = transact (move_tab_edit ti target)"

definition pane_to_tab_edit :: "nat \<Rightarrow> nat \<Rightarrow> nat edit" where
  "pane_to_tab_edit i target w =
     rbind (ok_or (NotFound ''pane'') (pane_location i w)) (\<lambda>(source, source_tab).
       if \<not> bcontains (wl_views w) target then Inl (NotFound ''target view'')
       else rbind (get_tab source source_tab w) (\<lambda>t.
         if length (st_panes t) = 1
         then rbind (move_tab source_tab target w) (\<lambda>(w1, _). Inr (w1, source_tab))
         else rbind (detach_pane i w) (\<lambda>(w1, p). rbind (allocate w1) (\<lambda>(w2, ti).
           rbind (view_unwrap target w2) (\<lambda>_.
             rbind (focus_pane_inner i (on_view target (insert_tab ti (single_tab i p)) w2)) (\<lambda>(w3, _).
               Inr (w3, ti)))))))"

definition pane_to_tab :: "nat \<Rightarrow> nat \<Rightarrow> nat edit" where
  "pane_to_tab i target = transact (pane_to_tab_edit i target)"

text \<open>The position of an insertion before another tab, or at the end.\<close>

fun insert_before :: "nat option \<Rightarrow> nat \<Rightarrow> nat list \<Rightarrow> nat list" where
  "insert_before b i [] = [i]"
| "insert_before b i (x # xs) = (if b = Some x then i # x # xs else x # insert_before b i xs)"

definition reorder_tab_edit :: "nat \<Rightarrow> nat \<Rightarrow> nat option \<Rightarrow> unit edit" where
  "reorder_tab_edit ti target before w =
     (if before = Some ti \<and> tab_location ti w = Some target then Inr (w, ())
      else if (case before of None \<Rightarrow> False | Some b \<Rightarrow> tab_location b w \<noteq> Some target)
      then Inl (NotFound ''insertion tab'')
      else rbind (move_tab ti target w) (\<lambda>(w1, _). rbind (view_unwrap target w1) (\<lambda>_.
        Inr (on_view target (\<lambda>v. v\<lparr>vw_tab_order :=
          insert_before before ti (filter (\<lambda>x. x \<noteq> ti) (ordered_tabs v))\<rparr>) w1, ()))))"

definition reorder_tab :: "nat \<Rightarrow> nat \<Rightarrow> nat option \<Rightarrow> unit edit" where
  "reorder_tab ti target before = transact (reorder_tab_edit ti target before)"

section \<open>Whole views\<close>

definition pane_to_view_edit :: "nat \<Rightarrow> nat \<Rightarrow> Direction \<Rightarrow> nat edit" where
  "pane_to_view_edit i target d w =
     (if pane i w = None then Inl (NotFound ''pane'')
      else rbind (split_view target d pane_default w) (\<lambda>(w1, added).
        case active_pane_id w1 of
          None \<Rightarrow> Inl Panicked
        | Some placeholder \<Rightarrow>
            rbind (move_pane i placeholder DLeft w1) (\<lambda>(w2, _).
              rbind (close_pane placeholder w2) (\<lambda>(w3, _).
                rbind (focus_pane_inner i w3) (\<lambda>(w4, _). Inr (w4, added))))))"

definition pane_to_view :: "nat \<Rightarrow> nat \<Rightarrow> Direction \<Rightarrow> nat edit" where
  "pane_to_view i target d = transact (pane_to_view_edit i target d)"

definition tab_to_view_edit :: "nat \<Rightarrow> nat \<Rightarrow> Direction \<Rightarrow> nat edit" where
  "tab_to_view_edit ti target d w =
     (if tab_location ti w = None then Inl (NotFound ''tab'')
      else rbind (split_view target d pane_default w) (\<lambda>(w1, added).
        rbind (view_unwrap added w1) (\<lambda>v.
          rbind (move_tab ti added w1) (\<lambda>(w2, _).
            rbind (close_tab added (vw_active_tab_id v) w2) (\<lambda>(w3, _). Inr (w3, added))))))"

definition tab_to_view :: "nat \<Rightarrow> nat \<Rightarrow> Direction \<Rightarrow> nat edit" where
  "tab_to_view ti target d = transact (tab_to_view_edit ti target d)"

definition merge_tab_edit :: "nat \<Rightarrow> nat \<Rightarrow> Direction \<Rightarrow> unit edit" where
  "merge_tab_edit ti target d w =
     rbind (ok_or (NotFound ''tab'') (tab_location ti w)) (\<lambda>source.
     rbind (ok_or (NotFound ''target pane'') (pane_location target w)) (\<lambda>(vi, dest).
       if dest = ti then Inl (Invalid ''cannot merge a tab into itself'')
       else rbind (take_tab source ti w) (\<lambda>(w1, moving). rbind (get_tab vi dest w1) (\<lambda>t.
         case replace_with_split target (st_root moving) d (st_root t) of (tree, ok) \<Rightarrow>
           if \<not> ok then Inl (NotFound ''target pane'')
           else focus_pane_inner (st_active_pane_id moving)
             (on_view vi (set_tab dest (t\<lparr>st_root := tree,
                st_panes := bextend (st_panes moving) (st_panes t)\<rparr>)) w1)))))"

definition merge_tab :: "nat \<Rightarrow> nat \<Rightarrow> Direction \<Rightarrow> unit edit" where
  "merge_tab ti target d = transact (merge_tab_edit ti target d)"

section \<open>Loading\<close>

datatype IdPolicy = RejectIds | RepairIds

definition into_layout :: "IdPolicy \<Rightarrow> WorkspaceLayout \<Rightarrow> LayoutError + WorkspaceLayout" where
  "into_layout policy w =
     rbind (if policy = RepairIds
       then (let last = (if ids w = {} then 0 else Max (ids w)) in
         if 2 ^ 64 \<le> last + 1 then Inl Exhausted
         else Inr (w\<lparr>wl_next_id := max (wl_next_id w) (last + 1)\<rparr>))
       else Inr w) (\<lambda>w1. rbind (validate w1) (\<lambda>_. Inr w1))"

end
