(* ===== verification/Layout_Valid.thy ===== *)
theory Layout_Valid
  imports Layout_Arrange
begin

text \<open>
  What \<open>validate\<close> accepts: a declarative account of a well-formed layout, equivalent to the
  loop of the code, and the facts a validated layout gives the edits.
\<close>

section \<open>Well-formed layouts\<close>

text \<open>The maps are what a \<open>BTreeMap\<close> always is.\<close>

definition maps_ok :: "WorkspaceLayout \<Rightarrow> bool" where
  "maps_ok w \<longleftrightarrow> bwf (wl_views w) \<and>
     (\<forall>e \<in> set (wl_views w). bwf (vw_tabs (snd e)) \<and> (\<forall>f \<in> set (vw_tabs (snd e)). bwf (st_panes (snd f))))"

text \<open>A tree fits a map: shallow enough, ratios in range, every key a leaf exactly once.\<close>

definition fits :: "nat SplitNode \<Rightarrow> (nat, 'v) bmap \<Rightarrow> bool" where
  "fits n m \<longleftrightarrow> depth n \<le> MAX_DEPTH \<and> ratios_ok n \<and> distinct (leaves n) \<and> set (leaves n) = set (bkeys m)"

definition good_tab :: "SplitTabLayout \<Rightarrow> bool" where
  "good_tab t \<longleftrightarrow> st_panes t \<noteq> [] \<and> fits (st_root t) (st_panes t) \<and>
     st_active_pane_id t \<in> set (bkeys (st_panes t)) \<and> st_primary_pane_id t \<in> set (bkeys (st_panes t))"

definition good_view :: "ViewLayout \<Rightarrow> bool" where
  "good_view v \<longleftrightarrow> is_finite (vw_rail_width v) \<and> in_range 0 4096 (vw_rail_width v) \<and> vw_tabs v \<noteq> [] \<and>
     distinct (ordered_tabs v) \<and> set (ordered_tabs v) = set (bkeys (vw_tabs v)) \<and>
     vw_active_tab_id v \<in> set (bkeys (vw_tabs v)) \<and> (\<forall>f \<in> set (vw_tabs v). good_tab (snd f))"

definition pane_count :: "ViewLayout \<Rightarrow> nat" where
  "pane_count v = sum_list (map (\<lambda>f. length (st_panes (snd f))) (vw_tabs v))"

definition good :: "WorkspaceLayout \<Rightarrow> bool" where
  "good w \<longleftrightarrow> wl_views w \<noteq> [] \<and> length (wl_views w) \<le> MAX_VIEWS \<and>
     wl_active_view_id w \<in> set (bkeys (wl_views w)) \<and> fits (wl_root w) (wl_views w) \<and>
     (\<forall>e \<in> set (wl_views w). good_view (snd e)) \<and>
     sum_list (map (\<lambda>e. length (vw_tabs (snd e))) (wl_views w)) \<le> MAX_TABS \<and>
     sum_list (map (\<lambda>e. pane_count (snd e)) (wl_views w)) \<le> MAX_PANES \<and>
     distinct (id_list w) \<and> 0 \<notin> ids w \<and> (\<forall>i \<in> ids w. i < wl_next_id w)"

section \<open>The loop\<close>

lemma reachable_iff:
  assumes "bwf m"
  shows "reachable n m = Inr u \<longleftrightarrow> fits n m"
proof -
  have m: "length m = card (set (bkeys m))"
    using distinct_card [OF bwf_distinct [OF assms]] by simp
  have "collect 0 n [] = Inr ls \<longleftrightarrow> depth n \<le> MAX_DEPTH \<and> ratios_ok n \<and> ls = leaves n" for ls
    by (simp add: collect_ok)
  then have "reachable n m = Inr u \<longleftrightarrow> depth n \<le> MAX_DEPTH \<and> ratios_ok n \<and>
      card (set (leaves n)) = length (leaves n) \<and> card (set (leaves n)) = length m \<and>
      set (leaves n) \<subseteq> set (bkeys m)"
    by (auto simp: reachable_def Let_def bcontains_def)
  moreover have "A \<subseteq> B \<and> card A = card B \<longleftrightarrow> A = B" if "finite B" for A B :: "nat set"
    using that card_subset_eq by blast
  then have "set (leaves n) \<subseteq> set (bkeys m) \<and> card (set (leaves n)) = card (set (bkeys m)) \<longleftrightarrow>
      set (leaves n) = set (bkeys m)" by simp
  moreover have "card (set (leaves n)) = length (leaves n) \<longleftrightarrow> distinct (leaves n)"
    using card_distinct distinct_card by blast
  ultimately show ?thesis
    unfolding fits_def m by blast
qed

lemma unique_ids_iff:
  "unique_ids seen is = Inr seen' \<longleftrightarrow>
     distinct is \<and> set is \<inter> seen = {} \<and> 0 \<notin> set is \<and> seen' = seen \<union> set is"
proof (induction seen "is" rule: unique_ids.induct)
  case (2 seen i "is")
  then show ?case by (auto simp: unique_id_def split: if_splits)
qed auto

definition fresh_for :: "nat set \<Rightarrow> nat list \<Rightarrow> bool" where
  "fresh_for seen is \<longleftrightarrow> distinct is \<and> set is \<inter> seen = {} \<and> 0 \<notin> set is"

lemma fresh_for_Nil [simp]: "fresh_for seen []"
  by (simp add: fresh_for_def)

lemma fresh_for_Cons: "fresh_for seen (i # is) \<longleftrightarrow> i \<noteq> 0 \<and> i \<notin> seen \<and> fresh_for (insert i seen) is"
  by (auto simp: fresh_for_def)

lemma fresh_for_append: "fresh_for seen (xs @ ys) \<longleftrightarrow> fresh_for seen xs \<and> fresh_for (seen \<union> set xs) ys"
  by (auto simp: fresh_for_def)

lemma unique_id_iff: "unique_id seen i = Inr s \<longleftrightarrow> i \<noteq> 0 \<and> i \<notin> seen \<and> s = insert i seen"
  by (auto simp: unique_id_def)

lemma unique_ids_fresh: "unique_ids seen is = Inr s \<longleftrightarrow> fresh_for seen is \<and> s = seen \<union> set is"
  by (auto simp: unique_ids_iff fresh_for_def)

definition tabs_total :: "(nat \<times> SplitTabLayout) list \<Rightarrow> nat" where
  "tabs_total ts = sum_list (map (\<lambda>f. length (st_panes (snd f))) ts)"

lemma tabs_total_simps [simp]:
  "tabs_total [] = 0" "tabs_total ((ti, t) # ts) = length (st_panes t) + tabs_total ts"
  by (simp_all add: tabs_total_def)

lemma validate_tabs_iff:
  assumes "\<forall>f \<in> set ts. bwf (st_panes (snd f))"
  shows "validate_tabs (seen, p) ts = Inr (s, q) \<longleftrightarrow>
    (\<forall>f \<in> set ts. good_tab (snd f)) \<and> fresh_for seen (concat (map tab_ids ts)) \<and>
    (ts \<noteq> [] \<longrightarrow> p + tabs_total ts \<le> MAX_PANES) \<and>
    s = seen \<union> set (concat (map tab_ids ts)) \<and> q = p + tabs_total ts"
  using assms
proof (induction ts arbitrary: seen p)
  case (Cons f ts)
  obtain ti t where f: "f = (ti, t)" by (cases f)
  have wf: "bwf (st_panes t)" and rest: "\<forall>f \<in> set ts. bwf (st_panes (snd f))"
    using Cons.prems by (simp_all add: f)
  note IH = Cons.IH [OF rest]
  have "validate_tabs (seen, p) (f # ts) = Inr (s, q) \<longleftrightarrow>
      ti \<noteq> 0 \<and> ti \<notin> seen \<and> st_panes t \<noteq> [] \<and> p + length (st_panes t) \<le> MAX_PANES \<and>
      fits (st_root t) (st_panes t) \<and> st_active_pane_id t \<in> set (bkeys (st_panes t)) \<and>
      st_primary_pane_id t \<in> set (bkeys (st_panes t)) \<and>
      fresh_for (insert ti seen) (bkeys (st_panes t)) \<and>
      validate_tabs (insert ti seen \<union> set (bkeys (st_panes t)), p + length (st_panes t)) ts = Inr (s, q)"
    by (auto simp: f unique_id_iff unique_ids_fresh reachable_iff [OF wf] bcontains_def Let_def
        not_le simp del: set_map)
  also have "\<dots> \<longleftrightarrow> (\<forall>g \<in> set (f # ts). good_tab (snd g)) \<and>
      fresh_for seen (concat (map tab_ids (f # ts))) \<and>
      (f # ts \<noteq> [] \<longrightarrow> p + tabs_total (f # ts) \<le> MAX_PANES) \<and>
      s = seen \<union> set (concat (map tab_ids (f # ts))) \<and> q = p + tabs_total (f # ts)"
    unfolding IH
    by (cases "ts = []")
       (auto simp: f good_tab_def tab_ids_def fresh_for_Cons fresh_for_append simp del: set_map)
  finally show ?case .
qed auto

lemma view_ids_pair: "view_ids (vi, v) = vi # concat (map tab_ids (vw_tabs v))"
  by (simp add: view_ids_def)

lemma ordered_iff:
  assumes "bwf (vw_tabs v)"
  shows "length (ordered_tabs v) = length (vw_tabs v) \<and> set (ordered_tabs v) = set (bkeys (vw_tabs v)) \<longleftrightarrow>
    distinct (ordered_tabs v) \<and> set (ordered_tabs v) = set (bkeys (vw_tabs v))"
proof -
  have "length (vw_tabs v) = card (set (bkeys (vw_tabs v)))"
    using distinct_card [OF bwf_distinct [OF assms]] by simp
  then show ?thesis using card_distinct distinct_card by metis
qed

lemma validate_views_iff:
  assumes "\<forall>e \<in> set vs. bwf (vw_tabs (snd e)) \<and> (\<forall>f \<in> set (vw_tabs (snd e)). bwf (st_panes (snd f)))"
  shows "validate_views (seen, tb, p) vs = Inr s \<longleftrightarrow>
    (\<forall>e \<in> set vs. good_view (snd e)) \<and> fresh_for seen (concat (map view_ids vs)) \<and>
    (vs \<noteq> [] \<longrightarrow> tb + sum_list (map (\<lambda>e. length (vw_tabs (snd e))) vs) \<le> MAX_TABS \<and>
      p + sum_list (map (\<lambda>e. pane_count (snd e)) vs) \<le> MAX_PANES) \<and>
    s = seen \<union> set (concat (map view_ids vs))"
  using assms
proof (induction vs arbitrary: seen tb p)
  case (Cons e vs)
  obtain vi v where e: "e = (vi, v)" by (cases e)
  have wf: "bwf (vw_tabs v)" "\<forall>f \<in> set (vw_tabs v). bwf (st_panes (snd f))"
    and rest: "\<forall>e \<in> set vs. bwf (vw_tabs (snd e)) \<and> (\<forall>f \<in> set (vw_tabs (snd e)). bwf (st_panes (snd f)))"
    using Cons.prems by (simp_all add: e)
  note IH = Cons.IH [OF rest]
  note tabs = validate_tabs_iff [OF wf(2)]
  have step: "validate_views (seen, tb, p) (e # vs) = Inr s \<longleftrightarrow>
      vi \<noteq> 0 \<and> vi \<notin> seen \<and> is_finite (vw_rail_width v) \<and> in_range 0 4096 (vw_rail_width v) \<and>
      vw_tabs v \<noteq> [] \<and>
      (length (ordered_tabs v) = length (vw_tabs v) \<and> set (ordered_tabs v) = set (bkeys (vw_tabs v))) \<and>
      tb + length (vw_tabs v) \<le> MAX_TABS \<and> vw_active_tab_id v \<in> set (bkeys (vw_tabs v)) \<and>
      (\<exists>s2 p2. validate_tabs (insert vi seen, p) (vw_tabs v) = Inr (s2, p2) \<and>
        validate_views (s2, tb + length (vw_tabs v), p2) vs = Inr s)"
    by (auto simp: e unique_id_iff bcontains_def Let_def not_le simp del: set_map)
  have total: "pane_count v = tabs_total (vw_tabs v)"
    by (simp add: pane_count_def tabs_total_def)
  show ?case
    unfolding step tabs IH ordered_iff [OF wf(1)]
    by (cases "vs = []")
       (auto simp: e good_view_def view_ids_pair fresh_for_Cons fresh_for_append total Un_assoc
         simp del: set_map set_concat)
qed auto

lemma good_next:
  assumes "wl_views w \<noteq> []"
  shows "(ids w \<noteq> {} \<and> wl_next_id w \<le> Max (ids w)) \<longleftrightarrow> \<not> (\<forall>i \<in> ids w. i < wl_next_id w)"
proof -
  have "ids w \<noteq> {}" using assms by (cases "wl_views w") (auto simp: ids_def id_list_def view_ids_def)
  moreover have "finite (ids w)" by (simp add: ids_def)
  ultimately show ?thesis by (auto simp: Max_ge_iff not_less)
qed

lemma validate_iff_good:
  assumes "maps_ok w"
  shows "validate w = Inr () \<longleftrightarrow> good w"
proof -
  have wf: "bwf (wl_views w)"
    and inner: "\<forall>e \<in> set (wl_views w). bwf (vw_tabs (snd e)) \<and> (\<forall>f \<in> set (vw_tabs (snd e)). bwf (st_panes (snd f)))"
    using assms by (simp_all add: maps_ok_def)
  show ?thesis
  proof (cases "wl_views w = []")
    case True
    then show ?thesis by (simp add: validate_def good_def)
  next
    case False
    have "validate w = Inr () \<longleftrightarrow> length (wl_views w) \<le> MAX_VIEWS \<and>
        wl_active_view_id w \<in> set (bkeys (wl_views w)) \<and> fits (wl_root w) (wl_views w) \<and>
        (\<exists>s. validate_views ({}, 0, 0) (wl_views w) = Inr s \<and> \<not> (s \<noteq> {} \<and> wl_next_id w \<le> Max s))"
      using False
      by (auto simp: validate_def reachable_iff [OF wf] bcontains_def not_le simp del: set_map)
    also have "\<dots> \<longleftrightarrow> good w"
      unfolding validate_views_iff [OF inner] good_def
      using False good_next [OF False]
      by (auto simp: fresh_for_def ids_def id_list_def simp del: set_map set_concat)
    finally show ?thesis .
  qed
qed

text \<open>C26: \<open>validate\<close> decides exactly the well-formed layouts: it answers \<open>Ok\<close> when, and only when,
  there are views, tabs and panes within their limits; the active view, tab and panes exist;
  every split tree is at most 16 deep with ratios between 0.1 and 0.9 and has each id of its
  map as a leaf exactly once; the tab order lists each tab once; all ids together are nonzero,
  distinct and below \<open>next_id\<close>. (The maps are sorted by key, as a \<open>BTreeMap\<close> is.)\<close>

theorem validate_decides:
  assumes "maps_ok w"
  shows "validate w = Inr () \<longleftrightarrow> good w"
  using assms by (rule validate_iff_good)

theorem validate_decides_witness: "validate layout_new = Inr () \<and> good layout_new"
proof -
  have "maps_ok layout_new" by (simp add: maps_ok_def layout_new_def single_view_def single_tab_def)
  moreover have "validate layout_new = Inr ()" by code_simp
  ultimately show ?thesis using validate_decides by blast
qed

end
