(* ===== verification/Layout_Panes.thy ===== *)
theory Layout_Panes
  imports Layout_Valid "HOL-Library.Multiset"
begin

text \<open>
  The panes of a layout, with their states, as a multiset, and what every edit does to it.
\<close>

section \<open>Sums over maps\<close>

lemma sum_replace:
  fixes g :: "'v \<Rightarrow> 'm::comm_monoid_add"
  shows "bwf m \<Longrightarrow> map_of m k = Some v \<Longrightarrow>
    sum_list (map (\<lambda>e. g (snd e)) (binsert k v' m)) + g v = sum_list (map (\<lambda>e. g (snd e)) m) + g v'"
proof (induction k v' m rule: binsert.induct)
  case (2 k v' a b m)
  consider "k = a" | "k < a" | "a < k" by (rule linorder_cases)
  then show ?case
  proof cases
    case 2
    then have "k \<notin> set (bkeys m)" using "2.prems"(1) by (auto simp: bwf_Cons)
    then have "map_of m k = None" by (simp add: map_of_eq_None_iff)
    then show ?thesis using "2.prems"(2) 2 by (auto split: if_splits)
  next
    case 3
    then have "sum_list (map (\<lambda>e. g (snd e)) (binsert k v' m)) + g v = sum_list (map (\<lambda>e. g (snd e)) m) + g v'"
      using "2.IH" "2.prems" by (auto simp: bwf_Cons split: if_splits)
    moreover have "\<not> k < a" "k \<noteq> a" using 3 by auto
    ultimately show ?thesis by (simp add: add.assoc)
  qed (use "2.prems"(2) in \<open>simp add: ac_simps\<close>)
qed simp

lemma sum_insert:
  fixes g :: "'v \<Rightarrow> 'm::comm_monoid_add"
  shows "map_of m k = None \<Longrightarrow>
    sum_list (map (\<lambda>e. g (snd e)) (binsert k v m)) = g v + sum_list (map (\<lambda>e. g (snd e)) m)"
  by (induction k v m rule: binsert.induct) (auto simp: ac_simps split: if_splits)

lemma bremove_absent: "map_of m k = None \<Longrightarrow> bremove k m = m"
  by (auto simp: bremove_def map_of_eq_None_iff intro!: filter_True)

lemma sum_remove:
  fixes g :: "'v \<Rightarrow> 'm::comm_monoid_add"
  shows "bwf m \<Longrightarrow> map_of m k = Some v \<Longrightarrow>
    sum_list (map (\<lambda>e. g (snd e)) m) = g v + sum_list (map (\<lambda>e. g (snd e)) (bremove k m))"
proof (induction m)
  case (Cons e m)
  obtain a b where e: "e = (a, b)" by (cases e)
  show ?case
  proof (cases "a = k")
    case True
    then have "k \<notin> set (bkeys m)" using Cons.prems(1) by (auto simp: e bwf_Cons)
    then have "bremove k m = m" by (intro bremove_absent) (simp add: map_of_eq_None_iff)
    then have "bremove k (e # m) = m" using True by (simp add: e bremove_def)
    then show ?thesis using Cons.prems(2) True by (simp add: e)
  next
    case False
    then have "bremove k (e # m) = e # bremove k m" by (simp add: e bremove_def)
    then show ?thesis using Cons False by (simp add: e bwf_Cons ac_simps)
  qed
qed simp

lemma mset_binsert: "map_of m k = None \<Longrightarrow> mset (binsert k v m) = add_mset (k, v) (mset m)"
  by (induction k v m rule: binsert.induct) (auto split: if_splits)

lemma mset_bremove: "bwf m \<Longrightarrow> map_of m k = Some v \<Longrightarrow> mset m = add_mset (k, v) (mset (bremove k m))"
proof (induction m)
  case (Cons e m)
  obtain a b where e: "e = (a, b)" by (cases e)
  show ?case
  proof (cases "a = k")
    case True
    then have "k \<notin> set (bkeys m)" using Cons.prems(1) by (auto simp: e bwf_Cons)
    then have "bremove k m = m" by (intro bremove_absent) (simp add: map_of_eq_None_iff)
    then have "bremove k (e # m) = m" using True by (simp add: e bremove_def)
    then show ?thesis using Cons.prems(2) True by (simp add: e)
  next
    case False
    then have "bremove k (e # m) = e # bremove k m" by (simp add: e bremove_def)
    then show ?thesis using Cons False by (simp add: e bwf_Cons)
  qed
qed simp

lemma set_binsert: "set (binsert k v m) \<subseteq> insert (k, v) (set m)"
  by (induction k v m rule: binsert.induct) auto

lemma set_bremove: "set (bremove k m) \<subseteq> set m"
  by (auto simp: bremove_def)

lemma map_of_member: "bwf m \<Longrightarrow> (k, v) \<in> set m \<longleftrightarrow> map_of m k = Some v"
  by (simp add: bwf_distinct)

section \<open>Panes\<close>

definition view_panes :: "ViewLayout \<Rightarrow> (nat \<times> PaneState) multiset" where
  "view_panes v = sum_list (map (\<lambda>f. mset (st_panes (snd f))) (vw_tabs v))"

definition pane_mset :: "WorkspaceLayout \<Rightarrow> (nat \<times> PaneState) multiset" where
  "pane_mset w = sum_list (map (\<lambda>e. view_panes (snd e)) (wl_views w))"

definition view_maps :: "ViewLayout \<Rightarrow> bool" where
  "view_maps v \<longleftrightarrow> bwf (vw_tabs v) \<and> (\<forall>f \<in> set (vw_tabs v). bwf (st_panes (snd f)))"

lemma maps_ok_views: "maps_ok w \<longleftrightarrow> bwf (wl_views w) \<and> (\<forall>e \<in> set (wl_views w). view_maps (snd e))"
  by (simp add: maps_ok_def view_maps_def)

lemma view_mapsD: "maps_ok w \<Longrightarrow> map_of (wl_views w) vi = Some v \<Longrightarrow> view_maps v"
  by (auto simp: maps_ok_views dest!: map_of_SomeD)

lemma tab_mapsD: "view_maps v \<Longrightarrow> map_of (vw_tabs v) ti = Some t \<Longrightarrow> bwf (st_panes t)"
  by (auto simp: view_maps_def dest!: map_of_SomeD)

text \<open>Counters, focus and trees do not matter.\<close>

lemma pane_simps [simp]:
  "pane_mset (w\<lparr>wl_revision := n\<rparr>) = pane_mset w" "maps_ok (w\<lparr>wl_revision := n\<rparr>) = maps_ok w"
  "pane_mset (w\<lparr>wl_next_id := n\<rparr>) = pane_mset w" "maps_ok (w\<lparr>wl_next_id := n\<rparr>) = maps_ok w"
  "pane_mset (w\<lparr>wl_active_view_id := n\<rparr>) = pane_mset w" "maps_ok (w\<lparr>wl_active_view_id := n\<rparr>) = maps_ok w"
  "pane_mset (w\<lparr>wl_root := r\<rparr>) = pane_mset w" "maps_ok (w\<lparr>wl_root := r\<rparr>) = maps_ok w"
  by (simp_all add: pane_mset_def maps_ok_def)

lemma view_simps [simp]:
  "view_panes (v\<lparr>vw_active_tab_id := n\<rparr>) = view_panes v" "view_maps (v\<lparr>vw_active_tab_id := n\<rparr>) = view_maps v"
  "view_panes (v\<lparr>vw_tab_order := xs\<rparr>) = view_panes v" "view_maps (v\<lparr>vw_tab_order := xs\<rparr>) = view_maps v"
  by (simp_all add: view_panes_def view_maps_def)

lemma on_view_panes:
  assumes "maps_ok w" "map_of (wl_views w) vi = Some v" "view_maps (f v)"
  shows "maps_ok (on_view vi f w)" "pane_mset (on_view vi f w) + view_panes v = pane_mset w + view_panes (f v)"
proof -
  have "set (binsert vi (f v) (wl_views w)) \<subseteq> insert (vi, f v) (set (wl_views w))" by (rule set_binsert)
  then show "maps_ok (on_view vi f w)"
    using assms by (auto simp: maps_ok_views on_view_def bwf_binsert)
  show "pane_mset (on_view vi f w) + view_panes v = pane_mset w + view_panes (f v)"
    using assms(1,2) by (simp add: on_view_def pane_mset_def sum_replace maps_ok_def)
qed

lemma set_tab_panes:
  assumes "view_maps v" "map_of (vw_tabs v) ti = Some t" "bwf (st_panes t')"
  shows "view_maps (set_tab ti t' v)" "view_panes (set_tab ti t' v) + mset (st_panes t) = view_panes v + mset (st_panes t')"
proof -
  have "set (binsert ti t' (vw_tabs v)) \<subseteq> insert (ti, t') (set (vw_tabs v))" by (rule set_binsert)
  then show "view_maps (set_tab ti t' v)" using assms by (auto simp: view_maps_def set_tab_def bwf_binsert)
  show "view_panes (set_tab ti t' v) + mset (st_panes t) = view_panes v + mset (st_panes t')"
    using assms(1,2)
    by (simp add: set_tab_def view_panes_def view_maps_def sum_replace [where g = "\<lambda>t. mset (st_panes t)"])
qed

lemma get_tab_Inr: "get_tab vi ti w = Inr t \<longleftrightarrow>
    (\<exists>v. map_of (wl_views w) vi = Some v \<and> map_of (vw_tabs v) ti = Some t)"
  by (auto simp: get_tab_def ok_or_Inr_iff)

lemma upd_tab_panes:
  assumes "maps_ok w" "get_tab vi ti w = Inr t" "bwf (st_panes t')"
  shows "maps_ok (on_view vi (set_tab ti t') w)"
    "pane_mset (on_view vi (set_tab ti t') w) + mset (st_panes t) = pane_mset w + mset (st_panes t')"
proof -
  obtain v where v: "map_of (wl_views w) vi = Some v" "map_of (vw_tabs v) ti = Some t"
    using assms(2) by (auto simp: get_tab_Inr)
  note s = set_tab_panes [OF view_mapsD [OF assms(1) v(1)] v(2) assms(3)]
  note o' = on_view_panes [where f = "set_tab ti t'", OF assms(1) v(1) s(1)]
  show "maps_ok (on_view vi (set_tab ti t') w)" by (rule o'(1))
  have "pane_mset (on_view vi (set_tab ti t') w) + mset (st_panes t) + view_panes v =
      (pane_mset (on_view vi (set_tab ti t') w) + view_panes v) + mset (st_panes t)"
    by (simp add: ac_simps)
  also have "\<dots> = pane_mset w + (view_panes (set_tab ti t' v) + mset (st_panes t))"
    by (simp only: o'(2) add.assoc)
  also have "\<dots> = pane_mset w + mset (st_panes t') + view_panes v"
    by (simp only: s(2)) (simp add: ac_simps)
  finally show "pane_mset (on_view vi (set_tab ti t') w) + mset (st_panes t) = pane_mset w + mset (st_panes t')"
    by (rule add_right_imp_eq)
qed

definition keeps :: "WorkspaceLayout \<Rightarrow> WorkspaceLayout \<Rightarrow> bool" where
  "keeps w w' \<longleftrightarrow> maps_ok w' \<and> pane_mset w' = pane_mset w"

lemma keeps_tab:
  "maps_ok w \<Longrightarrow> get_tab vi ti w = Inr t \<Longrightarrow> st_panes t' = st_panes t \<Longrightarrow>
     keeps w (on_view vi (set_tab ti t') w)"
proof -
  assume w: "maps_ok w" "get_tab vi ti w = Inr t" "st_panes t' = st_panes t"
  then obtain v where "map_of (wl_views w) vi = Some v" "map_of (vw_tabs v) ti = Some t"
    by (auto simp: get_tab_Inr)
  then have "bwf (st_panes t')" using w view_mapsD tab_mapsD by metis
  from upd_tab_panes [OF w(1,2) this] show ?thesis by (simp add: keeps_def w(3))
qed

section \<open>Edits that keep the panes\<close>

lemma on_view_comp: "on_view vi (\<lambda>v. g (f v)) w = on_view vi g (on_view vi f w)" if "bwf (wl_views w)"
  using that by (auto simp: on_view_def bm.ins_ins map_of_binsert split: option.split)

lemma keeps_view:
  assumes "maps_ok w" "\<And>v. view_maps v \<Longrightarrow> view_maps (f v) \<and> view_panes (f v) = view_panes v"
  shows "keeps w (on_view vi f w)"
proof (cases "map_of (wl_views w) vi")
  case None
  then show ?thesis using assms(1) by (simp add: on_view_def keeps_def)
next
  case (Some v)
  have v: "view_maps (f v)" "view_panes (f v) = view_panes v"
    using assms(2) view_mapsD [OF assms(1) Some] by auto
  show ?thesis using on_view_panes [where f = f, OF assms(1) Some v(1)] v(2) by (simp add: keeps_def)
qed

lemma keeps_refl: "maps_ok w \<Longrightarrow> keeps w w"
  by (simp add: keeps_def)

lemma keeps_trans: "keeps a b \<Longrightarrow> keeps b c \<Longrightarrow> keeps a c"
  by (simp add: keeps_def)

lemma keeps_fields [simp]:
  "keeps w (u\<lparr>wl_active_view_id := n\<rparr>) = keeps w u" "keeps w (u\<lparr>wl_root := r\<rparr>) = keeps w u"
  "keeps w (u\<lparr>wl_revision := n\<rparr>) = keeps w u" "keeps w (u\<lparr>wl_next_id := n\<rparr>) = keeps w u"
  by (simp_all add: keeps_def)

lemma focus_keeps:
  assumes "maps_ok w" "focus_pane_inner i w = Inr (w', u)"
  shows "keeps w w'"
proof -
  obtain vi ti t where loc: "get_tab vi ti w = Inr t"
    "w' = (on_view vi (\<lambda>v. (set_tab ti (t\<lparr>st_active_pane_id := i\<rparr>) v)\<lparr>vw_active_tab_id := ti\<rparr>) w)
              \<lparr>wl_active_view_id := vi\<rparr>"
    using assms(2) by (auto simp: focus_pane_inner_def split: option.splits prod.splits)
  let ?m = "on_view vi (set_tab ti (t\<lparr>st_active_pane_id := i\<rparr>)) w"
  have m: "keeps w ?m"
    by (rule keeps_tab [OF assms(1) loc(1)]) simp
  have "keeps ?m (on_view vi (\<lambda>v. v\<lparr>vw_active_tab_id := ti\<rparr>) ?m)"
    using m by (intro keeps_view) (simp_all add: keeps_def)
  from keeps_trans [OF m this]
  have "keeps w (on_view vi (\<lambda>v. v\<lparr>vw_active_tab_id := ti\<rparr>)
      (on_view vi (set_tab ti (t\<lparr>st_active_pane_id := i\<rparr>)) w))" .
  moreover have "bwf (wl_views w)" using assms(1) by (simp add: maps_ok_def)
  ultimately show ?thesis
    unfolding loc(2) by (subst on_view_comp) simp_all
qed

section \<open>Which panes are where\<close>

lemma map_of_sum_le:
  assumes "map_of m k = Some v"
  shows "(g v :: 'x multiset) \<subseteq># sum_list (map (\<lambda>e. g (snd e)) m)"
proof -
  obtain us vs where "m = us @ (k, v) # vs"
    using map_of_SomeD [OF assms] by (meson split_list)
  then show ?thesis by (simp add: subset_mset.add_increasing subset_mset.add_increasing2)
qed

lemma tab_panes_le:
  assumes "get_tab vi ti w = Inr t"
  shows "mset (st_panes t) \<subseteq># pane_mset w"
proof -
  obtain v where v: "map_of (wl_views w) vi = Some v" "map_of (vw_tabs v) ti = Some t"
    using assms by (auto simp: get_tab_Inr)
  have "mset (st_panes t) \<subseteq># view_panes v"
    unfolding view_panes_def by (rule map_of_sum_le [OF v(2)])
  also have "\<dots> \<subseteq># pane_mset w"
    unfolding pane_mset_def by (rule map_of_sum_le [OF v(1)])
  finally show ?thesis .
qed

lemma find_entry_Some:
  "find_entry f es = Some y \<Longrightarrow> \<exists>e \<in> set es. f e = Some y"
  by (induction es) (auto split: option.splits)

lemma pane_location_Some:
  assumes "maps_ok w" "pane_location i w = Some (vi, ti)"
  obtains t p where "get_tab vi ti w = Inr t" "map_of (st_panes t) i = Some p"
proof -
  obtain v t where v: "(vi, v) \<in> set (wl_views w)"
      and t: "(ti, t) \<in> set (vw_tabs v)" "bcontains (st_panes t) i"
    using find_entry_Some [OF assms(2) [unfolded pane_location_def]]
    by (auto dest!: find_entry_Some split: if_splits)
  have "map_of (wl_views w) vi = Some v"
    using v assms(1) by (simp add: map_of_member maps_ok_def)
  moreover have "bwf (vw_tabs v)" using v assms(1) by (auto simp: maps_ok_def)
  then have "map_of (vw_tabs v) ti = Some t" using t(1) by (simp add: map_of_member)
  moreover obtain p where "map_of (st_panes t) i = Some p" using t(2) by (auto simp: bcontains_iff)
  ultimately show thesis by (intro that) (auto simp: get_tab_Inr)
qed

text \<open>The panes of a well-formed layout have distinct ids.\<close>

definition pane_keys :: "WorkspaceLayout \<Rightarrow> nat multiset" where
  "pane_keys w = image_mset fst (pane_mset w)"

lemma image_mset_sum_list: "image_mset f (sum_list xs) = sum_list (map (image_mset f) xs)"
  by (induction xs) simp_all

lemma sum_list_le: "(\<And>x. x \<in> set xs \<Longrightarrow> (f x :: 'x multiset) \<subseteq># g x) \<Longrightarrow> sum_list (map f xs) \<subseteq># sum_list (map g xs)"
  by (induction xs) (auto intro: subset_mset.add_mono)

lemma pane_keys_le: "pane_keys w \<subseteq># mset (id_list w)"
proof -
  have tab: "image_mset fst (mset (st_panes (snd f))) \<subseteq># mset (tab_ids f)" for f :: "nat \<times> SplitTabLayout"
    by (simp add: tab_ids_def)
  have "image_mset fst (view_panes (snd e)) \<subseteq># mset (view_ids e)" for e
  proof -
    have "image_mset fst (view_panes (snd e)) \<subseteq># sum_list (map (\<lambda>f. mset (tab_ids f)) (vw_tabs (snd e)))"
      unfolding view_panes_def image_mset_sum_list map_map o_def by (rule sum_list_le) (rule tab)
    also have "\<dots> = mset (concat (map tab_ids (vw_tabs (snd e))))"
      by (simp add: mset_concat comp_def)
    finally have le: "image_mset fst (view_panes (snd e)) \<subseteq># mset (concat (map tab_ids (vw_tabs (snd e))))" .
    have "mset (view_ids e) = {#fst e#} + mset (concat (map tab_ids (vw_tabs (snd e))))"
      by (simp add: view_ids_def del: mset_concat)
    then show ?thesis using subset_mset.order_trans [OF le mset_subset_eq_add_right] by (simp only:)
  qed
  then have "pane_keys w \<subseteq># sum_list (map (\<lambda>e. mset (view_ids e)) (wl_views w))"
    unfolding pane_keys_def pane_mset_def image_mset_sum_list map_map o_def by (rule sum_list_le)
  then show ?thesis by (simp add: id_list_def mset_concat comp_def)
qed

lemma good_keys:
  assumes "good w"
  shows "count (pane_keys w) i \<le> 1"
proof -
  have "count (pane_keys w) i \<le> count (mset (id_list w)) i"
    using pane_keys_le by (simp add: subseteq_mset_def)
  also have "\<dots> \<le> 1"
    using assms by (simp add: good_def distinct_count_atmost_1)
  finally show ?thesis .
qed

lemma pane_keys_absent:
  assumes "i \<notin># pane_keys w" "get_tab vi ti w = Inr t"
  shows "map_of (st_panes t) i = None"
proof (rule ccontr)
  assume "map_of (st_panes t) i \<noteq> None"
  then obtain p where "(i, p) \<in> set (st_panes t)" by (auto dest: map_of_SomeD)
  then have "(i, p) \<in># pane_mset w" using tab_panes_le [OF assms(2)] by (auto dest: mset_subset_eqD)
  then show False using assms(1) by (force simp: pane_keys_def)
qed

end
