(* ===== verification/Layout_Edits.thy ===== *)
theory Layout_Edits
  imports Layout_Panes
begin

text \<open>
  What each edit of \<open>lib.rs\<close> and \<open>arrange.rs\<close> does to the panes of a layout: what is taken
  out, what is put in, and what stays where it was.
\<close>

lemma map_of_key: "map_of m k = Some v \<Longrightarrow> k \<in> set (bkeys m)"
  by (force dest: map_of_SomeD)

section \<open>Putting a pane or a tab in\<close>

lemma put_pane:
  assumes "maps_ok w" "get_tab vi ti w = Inr t" "map_of (st_panes t) i = None"
    "st_panes t' = binsert i p (st_panes t)"
  shows "maps_ok (on_view vi (set_tab ti t') w)"
    "pane_mset (on_view vi (set_tab ti t') w) = add_mset (i, p) (pane_mset w)"
proof -
  obtain v where v: "map_of (wl_views w) vi = Some v" "map_of (vw_tabs v) ti = Some t"
    using assms(2) by (auto simp: get_tab_Inr)
  have "bwf (st_panes t')"
    using tab_mapsD [OF view_mapsD [OF assms(1) v(1)] v(2)] assms(4) by (simp add: bwf_binsert)
  note u = upd_tab_panes [OF assms(1,2) this]
  show "maps_ok (on_view vi (set_tab ti t') w)" by (rule u(1))
  show "pane_mset (on_view vi (set_tab ti t') w) = add_mset (i, p) (pane_mset w)"
    using u(2) by (simp add: assms(4) mset_binsert [OF assms(3)])
qed

lemma put_tab:
  assumes "maps_ok w" "map_of (wl_views w) vi = Some v" "map_of (vw_tabs v) ti = None" "bwf (st_panes t)"
  shows "maps_ok (on_view vi (insert_tab ti t) w)"
    "pane_mset (on_view vi (insert_tab ti t) w) = mset (st_panes t) + pane_mset w"
proof -
  have v: "view_maps v" by (rule view_mapsD [OF assms(1,2)])
  have "set (binsert ti t (vw_tabs v)) \<subseteq> insert (ti, t) (set (vw_tabs v))" by (rule set_binsert)
  then have m: "view_maps (insert_tab ti t v)"
    using v assms(4) by (auto simp: view_maps_def insert_tab_def Let_def bwf_binsert)
  have p: "view_panes (insert_tab ti t v) = mset (st_panes t) + view_panes v"
    using assms(3)
    by (simp add: insert_tab_def Let_def view_panes_def sum_insert [where g = "\<lambda>t. mset (st_panes t)"])
  note o' = on_view_panes [where f = "insert_tab ti t", OF assms(1,2) m]
  show "maps_ok (on_view vi (insert_tab ti t) w)" by (rule o'(1))
  show "pane_mset (on_view vi (insert_tab ti t) w) = mset (st_panes t) + pane_mset w"
    using o'(2) by (simp add: p add.assoc [symmetric])
qed

lemma put_view:
  assumes "maps_ok w" "map_of (wl_views w) vi = None" "view_maps v"
  shows "maps_ok (w\<lparr>wl_views := binsert vi v (wl_views w)\<rparr>)"
    "pane_mset (w\<lparr>wl_views := binsert vi v (wl_views w)\<rparr>) = view_panes v + pane_mset w"
proof -
  have "set (binsert vi v (wl_views w)) \<subseteq> insert (vi, v) (set (wl_views w))" by (rule set_binsert)
  then show "maps_ok (w\<lparr>wl_views := binsert vi v (wl_views w)\<rparr>)"
    using assms by (auto simp: maps_ok_views bwf_binsert)
  show "pane_mset (w\<lparr>wl_views := binsert vi v (wl_views w)\<rparr>) = view_panes v + pane_mset w"
    using assms(2) by (simp add: pane_mset_def sum_insert)
qed

section \<open>Taking a pane or a tab out\<close>

lemma take_view:
  assumes "maps_ok w" "map_of (wl_views w) vi = Some v"
  shows "maps_ok (w\<lparr>wl_views := bremove vi (wl_views w)\<rparr>)"
    "pane_mset w = view_panes v + pane_mset (w\<lparr>wl_views := bremove vi (wl_views w)\<rparr>)"
  using assms set_bremove [of vi "wl_views w"]
  by (auto simp: maps_ok_views bwf_bremove pane_mset_def sum_remove)

lemma single_entry: "length m = 1 \<Longrightarrow> map_of m k = Some v \<Longrightarrow> m = [(k, v)]"
  by (cases m) (auto split: if_splits)

text \<open>Elsewhere, nothing changes.\<close>

definition elsewhere :: "nat \<Rightarrow> WorkspaceLayout \<Rightarrow> WorkspaceLayout \<Rightarrow> bool" where
  "elsewhere vi w w' \<longleftrightarrow> wl_next_id w' = wl_next_id w \<and>
     (\<forall>vj. vj \<noteq> vi \<longrightarrow> map_of (wl_views w') vj = map_of (wl_views w) vj) \<and>
     (\<forall>v'. map_of (wl_views w') vi = Some v' \<longrightarrow>
        (\<exists>v. map_of (wl_views w) vi = Some v \<and> set (bkeys (vw_tabs v')) \<subseteq> set (bkeys (vw_tabs v))))"

lemma close_view_removes:
  assumes "maps_ok w" "close_view_inner vi w = Inr (w', u)"
  obtains v where "map_of (wl_views w) vi = Some v" "maps_ok w'" "pane_mset w = view_panes v + pane_mset w'"
    "elsewhere vi w w'" "map_of (wl_views w') vi = None"
proof -
  obtain v where v: "map_of (wl_views w) vi = Some v"
    using assms(2) by (auto simp: close_view_inner_def bcontains_iff split: if_splits)
  note t = take_view [OF assms(1) v]
  show thesis
  proof (rule that [OF v])
    show "maps_ok w'" "pane_mset w = view_panes v + pane_mset w'"
      using assms(2) t by (auto simp: close_view_inner_def ok_or_Inr_iff split: if_splits)
    show "map_of (wl_views w') vi = None" "elsewhere vi w w'"
      using assms(2)
      by (auto simp: close_view_inner_def ok_or_Inr_iff elsewhere_def map_of_bremove split: if_splits)
  qed
qed

lemma close_tab_removes:
  assumes w: "maps_ok w" and e: "close_tab_inner vi ti w = Inr (w', u)"
  obtains t where "get_tab vi ti w = Inr t" "maps_ok w'" "pane_mset w = mset (st_panes t) + pane_mset w'"
    "elsewhere vi w w'" "get_tab vi ti w' \<noteq> Inr t'"
proof -
  obtain v t where v: "map_of (wl_views w) vi = Some v" and t: "map_of (vw_tabs v) ti = Some t"
    using e by (auto simp: close_tab_inner_def ok_or_Inr_iff bcontains_iff split: if_splits)
  have g: "get_tab vi ti w = Inr t" using v t by (auto simp: get_tab_Inr)
  have vm: "view_maps v" by (rule view_mapsD [OF w v])
  show thesis
  proof (cases "length (vw_tabs v) = 1")
    case True
    then have c: "close_view_inner vi w = Inr (w', u)"
      using e v t by (simp add: close_tab_inner_def bcontains_iff)
    have one: "view_panes v = mset (st_panes t)"
      using single_entry [OF True t] by (simp add: view_panes_def)
    obtain v' where r: "map_of (wl_views w) vi = Some v'" "maps_ok w'" "pane_mset w = view_panes v' + pane_mset w'"
        "elsewhere vi w w'" "map_of (wl_views w') vi = None"
      by (rule close_view_removes [OF w c])
    show thesis by (rule that [OF g r(2) _ r(4)]) (use r v one in \<open>simp_all add: get_tab_Inr\<close>)
  next
    case False
    define order where "order = filter (\<lambda>i. i \<noteq> ti) (ordered_tabs v)"
    define f :: "ViewLayout \<Rightarrow> ViewLayout" where "f = (\<lambda>x. x\<lparr>vw_tab_order := order,
       vw_tabs := bremove ti (vw_tabs x),
       vw_active_tab_id := (if vw_active_tab_id x = ti then hd order else vw_active_tab_id x)\<rparr>)"
    have w': "w' = on_view vi f w"
      using e v t False
      by (simp add: close_tab_inner_def bcontains_iff Let_def f_def split: if_splits flip: order_def)
    have fm: "view_maps (f v)"
      using vm set_bremove [of ti "vw_tabs v"] by (auto simp: view_maps_def f_def bwf_bremove)
    have fp: "view_panes v = mset (st_panes t) + view_panes (f v)"
      using vm t sum_remove [where g = "\<lambda>t. mset (st_panes t)", OF _ t]
      by (simp add: view_maps_def view_panes_def f_def)
    note o' = on_view_panes [where f = f, OF w v fm]
    show thesis
    proof (rule that [OF g])
      show "maps_ok w'" unfolding w' by (rule o'(1))
      have "pane_mset w + view_panes (f v) = (mset (st_panes t) + pane_mset w') + view_panes (f v)"
        using o'(2) by (simp add: fp w' ac_simps)
      then show "pane_mset w = mset (st_panes t) + pane_mset w'" by simp
      show "elsewhere vi w w'"
        using v by (auto simp: w' elsewhere_def on_view_def map_of_binsert f_def simp del: set_map)
      show "get_tab vi ti w' \<noteq> Inr t'"
        using v by (simp add: get_tab_Inr w' on_view_def map_of_binsert f_def map_of_bremove)
    qed
  qed
qed

lemma detach_removes:
  assumes w: "maps_ok w" and e: "detach_pane i w = Inr (w', p)"
  obtains vi ti where "pane_location i w = Some (vi, ti)" "maps_ok w'"
    "pane_mset w = add_mset (i, p) (pane_mset w')" "elsewhere vi w w'"
proof -
  obtain vi ti where loc: "pane_location i w = Some (vi, ti)"
    using e by (auto simp: detach_pane_def split: option.splits)
  obtain t q where t: "get_tab vi ti w = Inr t" "map_of (st_panes t) i = Some q"
    by (rule pane_location_Some [OF w loc])
  obtain v where v: "map_of (wl_views w) vi = Some v" "map_of (vw_tabs v) ti = Some t"
    using t(1) by (auto simp: get_tab_Inr)
  have bt: "bwf (st_panes t)" by (rule tab_mapsD [OF view_mapsD [OF w v(1)] v(2)])
  show thesis
  proof (cases "1 < length (st_panes t)")
    case True
    then obtain t' where t': "w' = on_view vi (set_tab ti t') w" "p = q" "st_panes t' = bremove i (st_panes t)"
      using e loc t by (auto simp: detach_pane_def tab_remove_def Let_def ok_or_Inr_iff split: if_splits)
    have "bwf (st_panes t')" using bt by (simp add: t'(3) bwf_bremove)
    note u = upd_tab_panes [OF w t(1) this]
    show thesis
    proof (rule that [OF loc])
      show "maps_ok w'" unfolding t'(1) by (rule u(1))
      have "pane_mset w + mset (st_panes t') = add_mset (i, q) (pane_mset w') + mset (st_panes t')"
        using u(2) mset_bremove [OF bt t(2)] by (simp add: t' ac_simps)
      then show "pane_mset w = add_mset (i, p) (pane_mset w')" by (simp add: t'(2))
      show "elsewhere vi w w'"
        using v map_of_key [OF v(2)]
        by (auto simp: t'(1) elsewhere_def on_view_def map_of_binsert set_tab_def simp del: set_map)
    qed
  next
    case False
    have "st_panes t \<noteq> []" using t(2) by auto
    then have "length (st_panes t) = 1" using False by (cases "st_panes t") auto
    from single_entry [OF this t(2)] have one: "st_panes t = [(i, q)]" .
    then have c: "close_tab_inner vi ti w = Inr (w', ())" "p = q"
      using e loc t False by (auto simp: detach_pane_def)
    obtain t' where r: "get_tab vi ti w = Inr t'" "maps_ok w'" "pane_mset w = mset (st_panes t') + pane_mset w'"
        "elsewhere vi w w'"
      by (rule close_tab_removes [OF w c(1)])
    show thesis by (rule that [OF loc r(2) _ r(4)]) (use r t(1) one c(2) in simp)
  qed
qed

end
