(* ===== verification/Layout_Keeps.thy ===== *)
theory Layout_Keeps
  imports Layout_Edits
begin

text \<open>
  Rearranging a layout neither loses nor duplicates a pane: every operation that moves, swaps,
  merges, reorders, focuses or resizes keeps the panes with their states, and the operations that
  open and close panes change exactly those.
\<close>

section \<open>What a committed transaction gives\<close>

lemma transact_Inr:
  assumes "maps_ok w" "transact edit w = Inr (w', r)"
  obtains d where "good w" "edit w = Inr (d, r)" "w' = d\<lparr>wl_revision := wl_revision w + 1\<rparr>"
    "validate d = Inr ()"
proof -
  have "validate w = Inr ()" using assms(2) by (auto simp: transact_def compose_def split: if_splits)
  then have "good w" using assms(1) by (simp add: validate_iff_good)
  then show thesis using assms(2) that by (auto simp: transact_def compose_def split: if_splits)
qed

lemma unwrap_Inr [simp]:
  "view_unwrap vi w = Inr v \<longleftrightarrow> map_of (wl_views w) vi = Some v"
  "tab_unwrap vi ti w = Inr t \<longleftrightarrow> get_tab vi ti w = Inr t"
  by (auto simp: view_unwrap_def tab_unwrap_def split: option.splits sum.splits)

lemma allocate_Inr: "allocate w = Inr (w1, i) \<longleftrightarrow>
    \<not> 2 ^ 64 \<le> wl_next_id w + 1 \<and> w1 = w\<lparr>wl_next_id := wl_next_id w + 1\<rparr> \<and> i = wl_next_id w"
  by (auto simp: allocate_def)

section \<open>Ids are unique\<close>

lemma member_ids:
  "map_of (wl_views w) vi = Some v \<Longrightarrow> vi \<in> ids w"
  "map_of (wl_views w) vi = Some v \<Longrightarrow> ti \<in> set (bkeys (vw_tabs v)) \<Longrightarrow> ti \<in> ids w"
  "i \<in># pane_keys w \<Longrightarrow> i \<in> ids w"
proof -
  show "vi \<in> ids w" if "map_of (wl_views w) vi = Some v"
    using map_of_SomeD [OF that] by (force simp: ids_def id_list_def view_ids_def)
  show "ti \<in> ids w" if "map_of (wl_views w) vi = Some v" "ti \<in> set (bkeys (vw_tabs v))"
    using map_of_SomeD [OF that(1)] that(2) by (force simp: ids_def id_list_def view_ids_def tab_ids_def)
  show "i \<in> ids w" if "i \<in># pane_keys w"
    using mset_subset_eqD [OF pane_keys_le that] by (simp add: ids_def)
qed

lemma good_fresh:
  assumes "good w" "wl_next_id w \<le> i"
  shows "map_of (wl_views w) i = None"
    "map_of (wl_views w) vi = Some v \<Longrightarrow> map_of (vw_tabs v) i = None" "i \<notin># pane_keys w"
proof -
  have new: "i \<notin> ids w" using assms by (auto simp: good_def not_less)
  then show "map_of (wl_views w) i = None" using member_ids(1) by (metis not_Some_eq)
  show "i \<notin># pane_keys w" using new member_ids(3) by blast
  show "map_of (vw_tabs v) i = None" if "map_of (wl_views w) vi = Some v"
    using new member_ids(2) [OF that] by (auto simp: map_of_eq_None_iff)
qed

lemma distinct_concat_unique:
  assumes "distinct (concat (map f xs))" "x \<in> set xs" "y \<in> set xs" "a \<in> set (f x)" "a \<in> set (f y)"
  shows "x = y"
  using assms by (induction xs) auto

lemma tab_unique:
  assumes "good w" "map_of (wl_views w) a = Some va" "map_of (wl_views w) b = Some vb"
    "ti \<in> set (bkeys (vw_tabs va))" "ti \<in> set (bkeys (vw_tabs vb))"
  shows "a = b"
proof -
  have "(a, va) = (b, vb)"
  proof (rule distinct_concat_unique)
    show "distinct (concat (map view_ids (wl_views w)))"
      using assms(1) by (simp add: good_def id_list_def del: distinct_concat)
    show "(a, va) \<in> set (wl_views w)" "(b, vb) \<in> set (wl_views w)"
      using assms(2,3) by (simp_all add: map_of_SomeD)
    show "ti \<in> set (view_ids (a, va))" "ti \<in> set (view_ids (b, vb))"
      using assms(4,5) by (force simp: view_ids_def tab_ids_def)+
  qed
  then show ?thesis by simp
qed

lemma removed_absent:
  assumes "good w" "pane_mset w = add_mset (i, p) M" "pane_mset w1 \<subseteq># M"
  shows "i \<notin># pane_keys w1"
proof
  assume "i \<in># pane_keys w1"
  then have "i \<in># image_mset fst M"
    using assms(3) image_mset_subseteq_mono unfolding pane_keys_def by (metis mset_subset_eqD)
  then have "2 \<le> count (pane_keys w) i" using assms(2) by (simp add: pane_keys_def Suc_le_eq)
  then show False using good_keys [OF assms(1), of i] by simp
qed

lemma tab_location_Some:
  assumes "maps_ok w" "tab_location ti w = Some vi"
  obtains v where "map_of (wl_views w) vi = Some v" "ti \<in> set (bkeys (vw_tabs v))"
proof -
  obtain v where v: "(vi, v) \<in> set (wl_views w)" "bcontains (vw_tabs v) ti"
    using find_entry_Some [OF assms(2) [unfolded tab_location_def]] by (auto split: if_splits)
  have "map_of (wl_views w) vi = Some v" using v(1) assms(1) by (simp add: map_of_member maps_ok_def)
  then show thesis by (rule that) (use v(2) in \<open>simp only: bcontains_def\<close>)
qed

section \<open>Moving and swapping panes\<close>

lemma move_pane_keeps:
  assumes w: "maps_ok w" "good w" and e: "move_pane_edit i target d w = Inr (w', u)"
  shows "keeps w w'"
proof -
  obtain vi ti swap where loc: "pane_location target w = Some (vi, ti)"
      and s: "should_swap i target d (vi, ti) w = Inr swap"
    using e by (auto simp: move_pane_edit_def split: if_splits option.splits)
  show ?thesis
  proof (cases swap)
    case True
    then obtain t where t: "get_tab vi ti w = Inr t" "focus_pane_inner i
        (on_view vi (set_tab ti (t\<lparr>st_root := swap_leaves i target (st_root t)\<rparr>)) w) = Inr (w', u)"
      using e loc s by (auto simp: move_pane_edit_def split: if_splits)
    have k: "keeps w (on_view vi (set_tab ti (t\<lparr>st_root := swap_leaves i target (st_root t)\<rparr>)) w)"
      by (rule keeps_tab [OF w(1) t(1)]) simp
    show ?thesis by (rule keeps_trans [OF k focus_keeps [OF _ t(2)]]) (use k in \<open>simp add: keeps_def\<close>)
  next
    case False
    then obtain w1 p t where t: "detach_pane i w = Inr (w1, p)" "get_tab vi ti w1 = Inr t"
        "focus_pane_inner i (on_view vi (set_tab ti (t\<lparr>st_root := fst (insert_leaf target i d (st_root t)),
           st_panes := binsert i p (st_panes t)\<rparr>)) w1) = Inr (w', u)"
      using e loc s by (auto simp: move_pane_edit_def split: if_splits)
    obtain k where r: "maps_ok w1" "pane_mset w = add_mset (i, p) (pane_mset w1)"
      by (rule detach_removes [OF w(1) t(1)])
    have "map_of (st_panes t) i = None"
      by (rule pane_keys_absent [OF removed_absent [OF w(2) r(2)] t(2)]) simp
    note put = put_pane [OF r(1) t(2) this, where p = p and
      t' = "t\<lparr>st_root := fst (insert_leaf target i d (st_root t)), st_panes := binsert i p (st_panes t)\<rparr>"]
    show ?thesis
      by (rule keeps_trans [OF _ focus_keeps [OF _ t(3)]]) (use put r in \<open>simp_all add: keeps_def\<close>)
  qed
qed

lemma pane_take_removes:
  assumes w: "maps_ok w" and e: "pane_take vi ti i w = Inr (w', p)"
  shows "maps_ok w' \<and> pane_mset w = add_mset (i, p) (pane_mset w')"
proof -
  obtain t where t: "get_tab vi ti w = Inr t" "map_of (st_panes t) i = Some p"
      "w' = on_view vi (set_tab ti (t\<lparr>st_panes := bremove i (st_panes t)\<rparr>)) w"
    using e by (auto simp: pane_take_def split: option.splits)
  obtain v where v: "map_of (wl_views w) vi = Some v" "map_of (vw_tabs v) ti = Some t"
    using t(1) by (auto simp: get_tab_Inr)
  have b: "bwf (st_panes t)" by (rule tab_mapsD [OF view_mapsD [OF w v(1)] v(2)])
  note u = upd_tab_panes [OF w t(1), of "t\<lparr>st_panes := bremove i (st_panes t)\<rparr>", folded t(3)]
  have "pane_mset w + mset (bremove i (st_panes t)) = add_mset (i, p) (pane_mset w') + mset (bremove i (st_panes t))"
    using u(2) b mset_bremove [OF b t(2)] by (simp add: bwf_bremove)
  then show ?thesis using u(1) b by (simp add: bwf_bremove)
qed

lemma pane_put_adds:
  assumes w: "maps_ok w" "i \<notin># pane_keys w" and e: "pane_put vi ti i p w = Inr (w', u)"
  shows "maps_ok w' \<and> pane_mset w' = add_mset (i, p) (pane_mset w)"
proof -
  obtain t where t: "get_tab vi ti w = Inr t"
      "w' = on_view vi (set_tab ti (t\<lparr>st_panes := binsert i p (st_panes t)\<rparr>)) w"
    using e by (auto simp: pane_put_def)
  note put = put_pane [OF w(1) t(1) pane_keys_absent [OF w(2) t(1)], where p = p and
      t' = "t\<lparr>st_panes := binsert i p (st_panes t)\<rparr>"]
  show ?thesis unfolding t(2) using put by simp
qed

lemma map_prod_maps:
  assumes "\<And>v. g (f v) = g v"
  shows "bwf (map (map_prod id f) m) = bwf m"
    "sum_list (map (\<lambda>e. g (snd e)) (map (map_prod id f) m)) = sum_list (map (\<lambda>e. g (snd e)) m)"
  using assms by (simp_all add: bwf_def comp_def case_prod_beta)

lemma swap_everywhere_keeps:
  assumes "maps_ok w"
  shows "keeps w (swap_everywhere a b w)"
proof -
  have v: "view_panes (v\<lparr>vw_tabs := map (map_prod id (swap_tab a b)) (vw_tabs v)\<rparr>) = view_panes v" for v
    by (simp add: view_panes_def swap_tab_def comp_def case_prod_beta)
  have "pane_mset (swap_everywhere a b w) = pane_mset w"
    by (simp add: pane_mset_def swap_everywhere_def comp_def case_prod_beta v)
  moreover have "maps_ok (swap_everywhere a b w)"
    using assms by (auto simp: maps_ok_def swap_everywhere_def map_prod_maps(1) swap_tab_def bwf_def
      comp_def case_prod_beta)
  ultimately show ?thesis by (simp add: keeps_def)
qed

lemma swap_panes_keeps:
  assumes w: "maps_ok w" "good w" and e: "swap_panes_edit a b w = Inr (w', u)"
  shows "keeps w w'"
proof -
  obtain av at' bv bt active w4 where l: "pane_location a w = Some (av, at')" "pane_location b w = Some (bv, bt)"
    and s: "(if (av, at') \<noteq> (bv, bt)
       then rbind (pane_take av at' a w) (\<lambda>(w1, pa). rbind (pane_take bv bt b w1) (\<lambda>(w2, pb).
         rbind (pane_put av at' b pb w2) (\<lambda>(w3, _). pane_put bv bt a pa w3)))
       else Inr (w, ())) = Inr (w4, ())"
    and f: "focus_pane_inner active (swap_everywhere a b w4) = Inr (w', u)"
    using e by (auto simp: swap_panes_edit_def ok_or_Inr_iff)
  have k: "keeps w w4"
  proof (cases "(av, at') = (bv, bt)")
    case True
    then show ?thesis using s w(1) by (simp add: keeps_def)
  next
    case False
    then obtain w1 pa w2 pb w3 where t: "pane_take av at' a w = Inr (w1, pa)" "pane_take bv bt b w1 = Inr (w2, pb)"
        "pane_put av at' b pb w2 = Inr (w3, ())" "pane_put bv bt a pa w3 = Inr (w4, ())"
      using s by auto
    have 1: "maps_ok w1" "pane_mset w = add_mset (a, pa) (pane_mset w1)"
      using pane_take_removes [OF w(1) t(1)] by auto
    have 2: "maps_ok w2" "pane_mset w1 = add_mset (b, pb) (pane_mset w2)"
      using pane_take_removes [OF 1(1) t(2)] by auto
    have "b \<notin># pane_keys w2"
      by (rule removed_absent [OF w(2), of b pb "add_mset (a, pa) (pane_mset w2)"])
         (simp_all add: 1(2) 2(2) add_mset_commute)
    then have 3: "maps_ok w3" "pane_mset w3 = pane_mset w1"
      using pane_put_adds [OF 2(1) _ t(3)] 2(2) by auto
    have "a \<notin># pane_keys w3"
      by (rule removed_absent [OF w(2) 1(2)]) (simp add: 3(2))
    then show ?thesis
      using pane_put_adds [OF 3(1) _ t(4)] 3(2) 1(2) by (simp add: keeps_def)
  qed
  have k2: "keeps w4 (swap_everywhere a b w4)"
    by (rule swap_everywhere_keeps) (use k in \<open>simp add: keeps_def\<close>)
  show ?thesis
    by (rule keeps_trans [OF keeps_trans [OF k k2] focus_keeps [OF _ f]]) (use k2 in \<open>simp add: keeps_def\<close>)
qed

section \<open>Moving tabs\<close>

lemma insert_tab_panes: "bwf (st_panes t) \<Longrightarrow> view_maps v \<Longrightarrow> view_maps (insert_tab ti t v)"
  using set_binsert [of ti t "vw_tabs v"]
  by (auto simp: view_maps_def insert_tab_def Let_def bwf_binsert)

lemma activate_keeps:
  "maps_ok w \<Longrightarrow> keeps w ((on_view vi (\<lambda>v. v\<lparr>vw_active_tab_id := ti\<rparr>) w)\<lparr>wl_active_view_id := n\<rparr>)"
  by (simp add: keeps_view)

lemma reorder_keeps:
  "maps_ok w \<Longrightarrow> keeps w (on_view vi (\<lambda>v. v\<lparr>vw_tab_order := g v\<rparr>) w)"
  by (simp add: keeps_view)

lemma tab_bwf: "maps_ok w \<Longrightarrow> get_tab vi ti w = Inr t \<Longrightarrow> bwf (st_panes t)"
  using tab_mapsD view_mapsD by (fastforce simp: get_tab_Inr)

lemma take_tab_Inr:
  assumes "maps_ok w" "take_tab vi ti w = Inr (w1, t)"
  shows "get_tab vi ti w = Inr t" "maps_ok w1" "pane_mset w = mset (st_panes t) + pane_mset w1"
    "elsewhere vi w w1" "get_tab vi ti w1 \<noteq> Inr t'" "bwf (st_panes t)"
proof -
  have g: "get_tab vi ti w = Inr t" and c: "close_tab_inner vi ti w = Inr (w1, ())"
    using assms(2) by (auto simp: take_tab_def)
  show "get_tab vi ti w = Inr t" by (rule g)
  show "bwf (st_panes t)" by (rule tab_bwf [OF assms(1) g])
  obtain s where "get_tab vi ti w = Inr s" "maps_ok w1" "pane_mset w = mset (st_panes s) + pane_mset w1"
      "elsewhere vi w w1" "get_tab vi ti w1 \<noteq> Inr t'"
    by (rule close_tab_removes [OF assms(1) c])
  then show "maps_ok w1" "pane_mset w = mset (st_panes t) + pane_mset w1" "elsewhere vi w w1"
    "get_tab vi ti w1 \<noteq> Inr t'"
    using g by auto
qed

lemma move_tab_edit_keeps:
  assumes w: "maps_ok w" "good w" and e: "move_tab_edit ti target w = Inr (w', u)"
  shows "keeps w w'"
proof -
  obtain source w2 where l: "tab_location ti w = Some source"
    and m: "(if source \<noteq> target
           then rbind (take_tab source ti w) (\<lambda>(w1, t).
             rbind (view_unwrap target w1) (\<lambda>_. Inr (on_view target (insert_tab ti t) w1, ())))
           else Inr (w, ())) = Inr (w2, ())"
    and w': "w' = (on_view target (\<lambda>v. v\<lparr>vw_active_tab_id := ti\<rparr>) w2)\<lparr>wl_active_view_id := target\<rparr>"
    using e by (auto simp: move_tab_edit_def ok_or_Inr_iff split: if_splits)
  have k: "keeps w w2"
  proof (cases "source = target")
    case True
    then show ?thesis using m w(1) by (simp add: keeps_def)
  next
    case False
    then obtain w1 t v1 where t: "take_tab source ti w = Inr (w1, t)"
        and v1: "map_of (wl_views w1) target = Some v1" and w2: "w2 = on_view target (insert_tab ti t) w1"
      using m by auto
    note r = take_tab_Inr [OF w(1) t]
    obtain v where v: "map_of (wl_views w) source = Some v" "ti \<in> set (bkeys (vw_tabs v))"
      by (rule tab_location_Some [OF w(1) l])
    have "map_of (wl_views w) target = Some v1" using r(4) False v1 by (auto simp: elsewhere_def)
    then have "ti \<notin> set (bkeys (vw_tabs v1))" using tab_unique [OF w(2) v(1) _ v(2)] False by blast
    then have n: "map_of (vw_tabs v1) ti = None" by (simp only: map_of_eq_None_iff list.set_map not_False_eq_True)
    show ?thesis
      using put_tab [OF r(2) v1 n r(6)] r(3) by (simp add: keeps_def w2)
  qed
  show ?thesis unfolding w'
    by (rule keeps_trans [OF k activate_keeps]) (use k in \<open>simp add: keeps_def\<close>)
qed

lemma transact_keeps:
  assumes "maps_ok w" "transact edit w = Inr (w', r)"
    "\<And>d. good w \<Longrightarrow> edit w = Inr (d, r) \<Longrightarrow> keeps w d"
  shows "keeps w w'"
  by (rule transact_Inr [OF assms(1,2)]) (use assms(3) in simp)

lemma move_tab_keeps:
  assumes "maps_ok w" "move_tab ti target w = Inr (w', u)"
  shows "keeps w w'"
  by (rule transact_keeps [OF assms(1) assms(2) [unfolded move_tab_def]]) (rule move_tab_edit_keeps [OF assms(1)])

lemma pane_to_tab_keeps:
  assumes w: "maps_ok w" "good w" and e: "pane_to_tab_edit i target w = Inr (w', ti)"
  shows "keeps w w'"
proof -
  obtain source source_tab t where l: "pane_location i w = Some (source, source_tab)"
      and t: "get_tab source source_tab w = Inr t" and tv: "bcontains (wl_views w) target"
    using e by (auto simp: pane_to_tab_edit_def ok_or_Inr_iff split: if_splits)
  show ?thesis
  proof (cases "length (st_panes t) = 1")
    case True
    then show ?thesis
      using e l t tv by (auto simp: pane_to_tab_edit_def dest: move_tab_keeps [OF w(1)])
  next
    case False
    then obtain w1 p v1 where d: "detach_pane i w = Inr (w1, p)" and v1: "map_of (wl_views w1) target = Some v1"
        and f: "focus_pane_inner i (on_view target (insert_tab (wl_next_id w1) (single_tab i p))
          (w1\<lparr>wl_next_id := wl_next_id w1 + 1\<rparr>)) = Inr (w', ())"
      using e l t tv by (auto simp: pane_to_tab_edit_def allocate_Inr)
    obtain vi k where r: "maps_ok w1" "pane_mset w = add_mset (i, p) (pane_mset w1)" "elsewhere vi w w1"
      by (rule detach_removes [OF w(1) d])
    have "\<exists>v. map_of (wl_views w) target = Some v \<and> set (bkeys (vw_tabs v1)) \<subseteq> set (bkeys (vw_tabs v))"
      using r(3) v1 by (cases "target = vi") (auto simp: elsewhere_def simp del: set_map)
    then obtain v where v: "map_of (wl_views w) target = Some v" "set (bkeys (vw_tabs v1)) \<subseteq> set (bkeys (vw_tabs v))"
      by blast
    have n: "wl_next_id w1 = wl_next_id w" using r(3) by (simp add: elsewhere_def)
    have "wl_next_id w \<notin> set (bkeys (vw_tabs v))"
      using good_fresh(2) [OF w(2) order.refl v(1)] by (simp only: map_of_eq_None_iff list.set_map not_False_eq_True)
    then have "wl_next_id w \<notin> set (bkeys (vw_tabs v1))" using v(2) by blast
    then have "map_of (vw_tabs v1) (wl_next_id w1) = None"
      by (simp only: n map_of_eq_None_iff list.set_map not_False_eq_True)
    then have put: "maps_ok (on_view target (insert_tab (wl_next_id w1) (single_tab i p)) (w1\<lparr>wl_next_id := wl_next_id w1 + 1\<rparr>))"
        "pane_mset (on_view target (insert_tab (wl_next_id w1) (single_tab i p)) (w1\<lparr>wl_next_id := wl_next_id w1 + 1\<rparr>)) =
          add_mset (i, p) (pane_mset w1)"
      using put_tab [of "w1\<lparr>wl_next_id := wl_next_id w1 + 1\<rparr>" target v1 "wl_next_id w1" "single_tab i p"] r(1) v1
      by (simp_all add: single_tab_def)
    show ?thesis
      by (rule keeps_trans [OF _ focus_keeps [OF put(1) f]]) (use put r in \<open>simp add: keeps_def\<close>)
  qed
qed

lemma reorder_tab_keeps:
  assumes w: "maps_ok w" and e: "reorder_tab_edit ti target before w = Inr (w', u)"
  shows "keeps w w'"
proof (cases "w' = w")
  case True
  then show ?thesis using w by (simp add: keeps_def)
next
  case False
  then obtain w1 where m: "move_tab ti target w = Inr (w1, ())"
      and w': "w' = on_view target (\<lambda>v. v\<lparr>vw_tab_order :=
          insert_before before ti (filter (\<lambda>x. x \<noteq> ti) (ordered_tabs v))\<rparr>) w1"
    using e by (auto simp: reorder_tab_edit_def split: if_splits)
  have k: "keeps w w1" by (rule move_tab_keeps [OF w m])
  show ?thesis unfolding w' by (rule keeps_trans [OF k reorder_keeps]) (use k in \<open>simp add: keeps_def\<close>)
qed

lemma mset_fold_binsert:
  assumes "distinct (bkeys kvs)" "set (bkeys kvs) \<inter> set (bkeys m) = {}"
  shows "mset (bextend kvs m) = mset kvs + mset m"
  using assms
proof (induction kvs arbitrary: m)
  case (Cons e kvs)
  obtain k v where e: "e = (k, v)" by (cases e)
  have "map_of m k = None" using Cons.prems(2) by (auto simp: e map_of_eq_None_iff)
  then have "mset (binsert k v m) = add_mset (k, v) (mset m)" by (rule mset_binsert)
  moreover have "set (bkeys kvs) \<inter> set (bkeys (binsert k v m)) = {}"
    using Cons.prems by (auto simp: e simp del: set_map)
  moreover have "distinct (bkeys kvs)" using Cons.prems(1) by simp
  ultimately show ?case using Cons.IH [of "binsert k v m"] by (simp add: e bextend_def)
qed (simp add: bextend_def)

lemma merge_tab_keeps:
  assumes w: "maps_ok w" "good w" and e: "merge_tab_edit ti target d w = Inr (w', u)"
  shows "keeps w w'"
proof -
  obtain source vi dest w1 moving t tree where x: "take_tab source ti w = Inr (w1, moving)"
      and t: "get_tab vi dest w1 = Inr t"
      and f: "focus_pane_inner (st_active_pane_id moving)
             (on_view vi (set_tab dest (t\<lparr>st_root := tree,
                st_panes := bextend (st_panes moving) (st_panes t)\<rparr>)) w1) = Inr (w', u)"
    using e by (auto simp: merge_tab_edit_def case_prod_beta split: if_splits)
  note r = take_tab_Inr [OF w(1) x]
  have disjoint: "set (bkeys (st_panes moving)) \<inter> set (bkeys (st_panes t)) = {}"
  proof (rule ccontr)
    assume "set (bkeys (st_panes moving)) \<inter> set (bkeys (st_panes t)) \<noteq> {}"
    then obtain i p q where "(i, p) \<in> set (st_panes moving)" "(i, q) \<in> set (st_panes t)" by auto
    moreover from this(1) obtain M where M: "mset (st_panes moving) = add_mset (i, p) M"
      using multi_member_split [of "(i, p)" "mset (st_panes moving)"] by auto
    have "i \<notin># pane_keys w1"
      by (rule removed_absent [OF w(2), of i p "M + pane_mset w1"]) (simp_all add: r(3) M)
    then have "map_of (st_panes t) i = None" by (rule pane_keys_absent [OF _ t])
    ultimately show False by (force simp: map_of_eq_None_iff)
  qed
  have b: "bwf (bextend (st_panes moving) (st_panes t))"
    using tab_bwf [OF r(2) t] by (rule bwf_bextend)
  let ?t = "t\<lparr>st_root := tree, st_panes := bextend (st_panes moving) (st_panes t)\<rparr>"
  have "mset (st_panes ?t) = mset (st_panes moving) + mset (st_panes t)"
    using mset_fold_binsert [OF bwf_distinct [OF r(6)] disjoint] by simp
  with upd_tab_panes [OF r(2) t, of ?t] b
  have u: "maps_ok (on_view vi (set_tab dest ?t) w1)"
      "pane_mset (on_view vi (set_tab dest ?t) w1) = pane_mset w1 + mset (st_panes moving)"
    by (simp_all add: add.assoc [symmetric])
  show ?thesis
    by (rule keeps_trans [OF _ focus_keeps [OF u(1) f]]) (use u r(3) in \<open>simp add: keeps_def\<close>)
qed

section \<open>Opening and closing panes\<close>

lemma split_view_adds:
  assumes w: "maps_ok w" and e: "split_view target d p w = Inr (w', vi)"
  shows "maps_ok w'" "pane_mset w' = add_mset (wl_next_id w + 2, p) (pane_mset w)"
    "vi = wl_next_id w" "active_pane_id w' = Some (wl_next_id w + 2)" "wl_active_view_id w' = vi"
    "map_of (wl_views w') vi = Some (single_view (wl_next_id w + 1) (wl_next_id w + 2) p)"
    "good w"
proof -
  obtain d' where g: "good w" and s: "split_view_edit target d p w = Inr (d', vi)"
      and w': "w' = d'\<lparr>wl_revision := wl_revision w + 1\<rparr>"
    by (rule transact_Inr [OF w e [unfolded split_view_def]])
  define n where "n = wl_next_id w"
  have d': "d' = w\<lparr>wl_next_id := n + 3, wl_root := fst (insert_leaf target n d (wl_root w)),
       wl_views := binsert n (single_view (n + 1) (n + 2) p) (wl_views w), wl_active_view_id := n\<rparr>"
    and vi: "vi = n"
    using s by (auto simp: split_view_edit_def allocate_Inr n_def numeral_3_eq_3 split: if_splits)
  have "view_maps (single_view (n + 1) (n + 2) p)" by (simp add: view_maps_def single_view_def single_tab_def)
  note put = put_view [OF w good_fresh(1) [OF g order.refl] this]
  show "good w" by (rule g)
  show "vi = wl_next_id w" by (simp add: vi n_def)
  show "map_of (wl_views w') vi = Some (single_view (wl_next_id w + 1) (wl_next_id w + 2) p)"
    "active_pane_id w' = Some (wl_next_id w + 2)" "wl_active_view_id w' = vi"
    by (simp_all add: w' d' vi n_def map_of_binsert active_pane_id_def single_view_def single_tab_def)
  show "maps_ok w'" "pane_mset w' = add_mset (wl_next_id w + 2, p) (pane_mset w)"
    using put by (simp_all add: w' d' n_def pane_mset_def maps_ok_def)
       (simp_all add: view_panes_def single_view_def single_tab_def)
qed

lemma close_pane_removes:
  assumes w: "maps_ok w" and e: "close_pane i w = Inr (w', u)"
  obtains p where "maps_ok w'" "pane_mset w = add_mset (i, p) (pane_mset w')" "good w"
proof -
  obtain d where g: "good w" and s: "rbind (detach_pane i w) (\<lambda>(w', _). Inr (w', ())) = Inr (d, u)"
      and w': "w' = d\<lparr>wl_revision := wl_revision w + 1\<rparr>"
    by (rule transact_Inr [OF w e [unfolded close_pane_def]])
  obtain p where p: "detach_pane i w = Inr (d, p)" using s by auto
  obtain vi ti where "maps_ok d" "pane_mset w = add_mset (i, p) (pane_mset d)"
    by (rule detach_removes [OF w p])
  then show thesis using that g by (simp add: w')
qed

lemma add_mset_key:
  assumes "add_mset (i, p) M = add_mset (i, q) N" "i \<notin># image_mset fst N"
  shows "p = q \<and> M = N"
proof -
  have "(i, p) \<in># add_mset (i, q) N" using assms(1) by (metis union_single_eq_member)
  then have "(i, p) = (i, q)" using assms(2) by force
  then show ?thesis using assms(1) by simp
qed

lemma pane_to_view_keeps:
  assumes w: "maps_ok w" "good w" and e: "pane_to_view_edit i target d w = Inr (w', added)"
  shows "keeps w w'"
proof -
  obtain w1 where s: "split_view target d pane_default w = Inr (w1, added)"
    using e by (auto simp: pane_to_view_edit_def split: if_splits option.splits)
  note a = split_view_adds [OF w(1) s]
  define ph where "ph = wl_next_id w + 2"
  obtain w2 w3 where m: "move_pane i ph DLeft w1 = Inr (w2, ())" and c: "close_pane ph w2 = Inr (w3, ())"
      and f: "focus_pane_inner i w3 = Inr (w', ())"
    using e s a(4) by (auto simp: pane_to_view_edit_def ph_def split: if_splits)
  have k: "keeps w1 w2"
    by (rule transact_keeps [OF a(1) m [unfolded move_pane_def]]) (rule move_pane_keeps [OF a(1)])
  have w2: "maps_ok w2" using k by (simp add: keeps_def)
  obtain p where r: "maps_ok w3" "pane_mset w2 = add_mset (ph, p) (pane_mset w3)"
    by (rule close_pane_removes [OF w2 c])
  have "pane_mset w2 = pane_mset w1" using k by (simp add: keeps_def)
  then have "add_mset (ph, p) (pane_mset w3) = add_mset (ph, pane_default) (pane_mset w)"
    unfolding r(2) a(2) ph_def .
  moreover have "ph \<notin># image_mset fst (pane_mset w)"
    using good_fresh(3) [OF w(2), of ph] by (simp add: ph_def pane_keys_def)
  ultimately have "p = pane_default \<and> pane_mset w3 = pane_mset w" by (rule add_mset_key)
  then have "keeps w w3" using r(1) by (simp add: keeps_def)
  then show ?thesis by (rule keeps_trans [OF _ focus_keeps [OF r(1) f]])
qed

lemma activate_tabs [simp]:
  "get_tab vi ti (on_view target (\<lambda>v. v\<lparr>vw_active_tab_id := n\<rparr>) w) = get_tab vi ti w"
  "get_tab vi ti (w\<lparr>wl_active_view_id := n\<rparr>) = get_tab vi ti w"
  "get_tab vi ti (w\<lparr>wl_revision := n\<rparr>) = get_tab vi ti w"
  by (auto simp: get_tab_def on_view_def map_of_binsert split: option.splits)

lemma move_tab_edit_other:
  assumes w: "maps_ok w" and e: "move_tab_edit ti target w = Inr (w', u)"
    and o': "tj \<noteq> ti" "get_tab target tj w = Inr t"
  shows "get_tab target tj w' = Inr t"
proof -
  obtain source w2 where l: "tab_location ti w = Some source"
    and m: "(if source \<noteq> target
           then rbind (take_tab source ti w) (\<lambda>(w1, t).
             rbind (view_unwrap target w1) (\<lambda>_. Inr (on_view target (insert_tab ti t) w1, ())))
           else Inr (w, ())) = Inr (w2, ())"
    and w': "w' = (on_view target (\<lambda>v. v\<lparr>vw_active_tab_id := ti\<rparr>) w2)\<lparr>wl_active_view_id := target\<rparr>"
    using e by (auto simp: move_tab_edit_def ok_or_Inr_iff split: if_splits)
  have "get_tab target tj w2 = Inr t"
  proof (cases "source = target")
    case True
    then show ?thesis using m o'(2) by simp
  next
    case False
    then obtain w1 s v1 where s: "take_tab source ti w = Inr (w1, s)"
        and v1: "map_of (wl_views w1) target = Some v1" and w2: "w2 = on_view target (insert_tab ti s) w1"
      using m by auto
    have "map_of (wl_views w) target = Some v1"
      using take_tab_Inr(4) [OF w s] False v1 by (auto simp: elsewhere_def)
    then have "map_of (vw_tabs v1) tj = Some t" using o'(2) by (simp add: get_tab_Inr)
    then show ?thesis
      using v1 o'(1) by (simp add: get_tab_Inr w2 on_view_def map_of_binsert insert_tab_def Let_def)
  qed
  then show ?thesis by (simp add: w')
qed

lemma tab_to_view_keeps:
  assumes w: "maps_ok w" "good w" and e: "tab_to_view_edit ti target d w = Inr (w', added)"
  shows "keeps w w'"
proof -
  obtain w1 where s: "split_view target d pane_default w = Inr (w1, added)" and l: "tab_location ti w \<noteq> None"
    using e by (auto simp: tab_to_view_edit_def split: if_splits)
  note a = split_view_adds [OF w(1) s]
  define n where "n = wl_next_id w"
  obtain w2 where m: "move_tab ti added w1 = Inr (w2, ())" and c: "close_tab added (n + 1) w2 = Inr (w', ())"
    using e s a(6) by (auto simp: tab_to_view_edit_def n_def single_view_def split: if_splits)
  obtain d2 where m': "move_tab_edit ti added w1 = Inr (d2, ())" "w2 = d2\<lparr>wl_revision := wl_revision w1 + 1\<rparr>"
    by (rule transact_Inr [OF a(1) m [unfolded move_tab_def]])
  have k: "keeps w1 w2" by (rule move_tab_keeps [OF a(1) m])
  have w2: "maps_ok w2" "pane_mset w2 = pane_mset w1" using k by (simp_all add: keeps_def)
  obtain vi v where "map_of (wl_views w) vi = Some v" "ti \<in> set (bkeys (vw_tabs v))"
    using l tab_location_Some [OF w(1)] by (metis not_Some_eq)
  then have "n + 1 \<noteq> ti"
    using good_fresh(2) [OF w(2), of "n + 1" vi v] by (auto simp: n_def map_of_eq_None_iff)
  moreover have "get_tab added (n + 1) w1 = Inr (single_tab (n + 2) pane_default)"
    using a(6) by (simp add: get_tab_Inr n_def single_view_def)
  ultimately have t: "get_tab added (n + 1) w2 = Inr (single_tab (n + 2) pane_default)"
    using move_tab_edit_other [OF a(1) m'(1)] by (simp add: m'(2))
  obtain d3 where c': "close_tab_inner added (n + 1) w2 = Inr (d3, ())" "w' = d3\<lparr>wl_revision := wl_revision w2 + 1\<rparr>"
    by (rule transact_Inr [OF w2(1) c [unfolded close_tab_def]])
  obtain t' where r: "get_tab added (n + 1) w2 = Inr t'" "maps_ok d3" "pane_mset w2 = mset (st_panes t') + pane_mset d3"
    by (rule close_tab_removes [OF w2(1) c'(1)])
  have "pane_mset w2 = add_mset (n + 2, pane_default) (pane_mset w)"
    using w2(2) a(2) by (simp only: n_def)
  moreover have "pane_mset w2 = add_mset (n + 2, pane_default) (pane_mset d3)"
    using r t by (simp add: single_tab_def)
  ultimately show ?thesis using r(2) by (simp add: keeps_def c'(2))
qed

end
