(* ===== verification/Layout_Ops.thy ===== *)
theory Layout_Ops
  imports Layout_Keeps "HOL-Library.Code_Target_Nat"
begin

text \<open>
  The operations of a layout as one function, and what holds of all of them: where every pane goes,
  what a committed layout satisfies, and that none panics.
\<close>

section \<open>Every operation\<close>

datatype layout_op =
  SplitView nat Direction PaneState
| AddTab nat PaneState
| SplitPane nat Direction PaneState
| ClosePane nat
| CloseTab nat nat
| CloseView nat
| CloseToLauncher nat
| FocusView nat
| FocusTab nat nat
| FocusPane nat
| SetViewRatio "Branch list" f64
| SetPaneRatio nat nat "Branch list" f64
| MovePane nat nat Direction
| SwapPanes nat nat
| MoveTab nat nat
| PaneToTab nat nat
| ReorderTab nat nat "nat option"
| MergeTab nat nat Direction
| PaneToView nat nat Direction
| TabToView nat nat Direction

definition unit_of :: "LayoutError + WorkspaceLayout \<times> 'r \<Rightarrow> LayoutError + WorkspaceLayout" where
  "unit_of r = rbind r (\<lambda>(w, _). Inr w)"

fun run_op :: "layout_op \<Rightarrow> WorkspaceLayout \<Rightarrow> LayoutError + WorkspaceLayout" where
  "run_op (SplitView target d p) w = unit_of (split_view target d p w)"
| "run_op (AddTab vi p) w = unit_of (add_tab vi p w)"
| "run_op (SplitPane target d p) w = unit_of (split_pane target d p w)"
| "run_op (ClosePane i) w = unit_of (close_pane i w)"
| "run_op (CloseTab vi ti) w = unit_of (close_tab vi ti w)"
| "run_op (CloseView vi) w = unit_of (close_view vi w)"
| "run_op (CloseToLauncher i) w = unit_of (close_to_launcher i w)"
| "run_op (FocusView vi) w = unit_of (focus_view vi w)"
| "run_op (FocusTab vi ti) w = unit_of (focus_tab vi ti w)"
| "run_op (FocusPane i) w = unit_of (focus_pane i w)"
| "run_op (SetViewRatio p q) w = unit_of (set_view_ratio p q w)"
| "run_op (SetPaneRatio vi ti p q) w = unit_of (set_pane_ratio vi ti p q w)"
| "run_op (MovePane i target d) w = unit_of (move_pane i target d w)"
| "run_op (SwapPanes a b) w = unit_of (swap_panes a b w)"
| "run_op (MoveTab ti target) w = unit_of (move_tab ti target w)"
| "run_op (PaneToTab i target) w = unit_of (pane_to_tab i target w)"
| "run_op (ReorderTab ti target before) w = unit_of (reorder_tab ti target before w)"
| "run_op (MergeTab ti target d) w = unit_of (merge_tab ti target d w)"
| "run_op (PaneToView i target d) w = unit_of (pane_to_view i target d w)"
| "run_op (TabToView ti target d) w = unit_of (tab_to_view ti target d w)"

lemma unit_of_Inr [simp]: "unit_of r = Inr w \<longleftrightarrow> (\<exists>x. r = Inr (w, x))"
  by (auto simp: unit_of_def)

lemma set_ratio_keeps:
  assumes "maps_ok w"
  shows "set_view_ratio_edit p q w = Inr (w', u) \<Longrightarrow> keeps w w'"
    "set_pane_ratio_edit vi ti p q w = Inr (w', u) \<Longrightarrow> keeps w w'"
  using assms keeps_tab by (auto simp: set_view_ratio_edit_def set_pane_ratio_edit_def keeps_def)

lemma focus_edit_keeps:
  assumes "maps_ok w"
  shows "focus_view_edit vi w = Inr (w', u) \<Longrightarrow> keeps w w'"
    "focus_tab_edit vi ti w = Inr (w', u) \<Longrightarrow> keeps w w'"
  using assms activate_keeps
  by (auto simp: focus_view_edit_def focus_tab_edit_def keeps_def split: if_splits)

lemmas operation_defs = focus_view_def focus_tab_def focus_pane_def set_view_ratio_def set_pane_ratio_def
  move_pane_def swap_panes_def pane_to_tab_def reorder_tab_def merge_tab_def pane_to_view_def
  tab_to_view_def

section \<open>Adding and closing\<close>

lemma add_tab_adds:
  assumes w: "maps_ok w" and e: "add_tab vi p w = Inr (w', ti)"
  shows "maps_ok w' \<and> pane_mset w' = add_mset (wl_next_id w + 1, p) (pane_mset w)"
proof -
  obtain d where g: "good w" and s: "add_tab_edit vi p w = Inr (d, ti)"
      and w': "w' = d\<lparr>wl_revision := wl_revision w + 1\<rparr>"
    by (rule transact_Inr [OF w e [unfolded add_tab_def]])
  define n where "n = wl_next_id w"
  define w2 where "w2 = w\<lparr>wl_next_id := n + 2\<rparr>"
  obtain v where v: "map_of (wl_views w) vi = Some v"
    using s by (auto simp: add_tab_edit_def bcontains_iff split: if_splits)
  have d: "d = (on_view vi (\<lambda>v. (insert_tab n (single_tab (n + 1) p) v)\<lparr>vw_active_tab_id := n\<rparr>) w2)\<lparr>wl_active_view_id := vi\<rparr>"
    using s by (auto simp: add_tab_edit_def allocate_Inr n_def w2_def split: if_splits)
  have put: "maps_ok (on_view vi (insert_tab n (single_tab (n + 1) p)) w2)"
      "pane_mset (on_view vi (insert_tab n (single_tab (n + 1) p)) w2) = add_mset (n + 1, p) (pane_mset w)"
    using put_tab [of w2 vi v n "single_tab (n + 1) p"] w v good_fresh(2) [OF g order.refl v]
    by (simp_all add: w2_def single_tab_def n_def)
  have "bwf (wl_views w2)" using w by (simp add: w2_def maps_ok_def)
  then have "d = (on_view vi (\<lambda>v. v\<lparr>vw_active_tab_id := n\<rparr>)
      (on_view vi (insert_tab n (single_tab (n + 1) p)) w2))\<lparr>wl_active_view_id := vi\<rparr>"
    unfolding d by (subst on_view_comp) simp_all
  then have "keeps (on_view vi (insert_tab n (single_tab (n + 1) p)) w2) d"
    using activate_keeps [OF put(1)] by simp
  then show ?thesis using put(2) by (simp add: w' keeps_def n_def)
qed

lemma split_pane_adds:
  assumes w: "maps_ok w" and e: "split_pane target dr p w = Inr (w', i)"
  shows "maps_ok w' \<and> pane_mset w' = add_mset (wl_next_id w, p) (pane_mset w)"
proof -
  obtain d where g: "good w" and s: "split_pane_edit target dr p w = Inr (d, i)"
      and w': "w' = d\<lparr>wl_revision := wl_revision w + 1\<rparr>"
    by (rule transact_Inr [OF w e [unfolded split_pane_def]])
  define n where "n = wl_next_id w"
  define w1 where "w1 = w\<lparr>wl_next_id := n + 1\<rparr>"
  obtain vi ti t where t: "get_tab vi ti w1 = Inr t"
      and f: "focus_pane_inner n (on_view vi (set_tab ti (t\<lparr>st_root := fst (insert_leaf target n dr (st_root t)),
        st_panes := binsert n p (st_panes t)\<rparr>)) w1) = Inr (d, ())"
    using s by (auto simp: split_pane_edit_def allocate_Inr n_def w1_def split: option.splits)
  have w1: "maps_ok w1" "pane_mset w1 = pane_mset w" using w by (simp_all add: w1_def)
  have "n \<notin># pane_keys w1" using good_fresh(3) [OF g order.refl] w1(2) by (simp add: pane_keys_def n_def)
  note put = put_pane [OF w1(1) t pane_keys_absent [OF this t], where p = p and
      t' = "t\<lparr>st_root := fst (insert_leaf target n dr (st_root t)), st_panes := binsert n p (st_panes t)\<rparr>"]
  have "maps_ok (on_view vi (set_tab ti (t\<lparr>st_root := fst (insert_leaf target n dr (st_root t)),
        st_panes := binsert n p (st_panes t)\<rparr>)) w1)" by (rule put(1)) simp
  from focus_keeps [OF this f] show ?thesis using put(2) w1(2) by (simp add: w' keeps_def n_def)
qed

lemma close_tab_op:
  assumes w: "maps_ok w" and e: "close_tab vi ti w = Inr (w', u)"
  shows "maps_ok w' \<and> (\<exists>t. get_tab vi ti w = Inr t \<and> pane_mset w = mset (st_panes t) + pane_mset w')"
proof -
  obtain d where d: "close_tab_inner vi ti w = Inr (d, u)" and w': "w' = d\<lparr>wl_revision := wl_revision w + 1\<rparr>"
    by (rule transact_Inr [OF w e [unfolded close_tab_def]])
  show ?thesis by (rule close_tab_removes [OF w d]) (simp add: w')
qed

lemma close_view_op:
  assumes w: "maps_ok w" and e: "close_view vi w = Inr (w', u)"
  shows "maps_ok w' \<and> (\<exists>v. map_of (wl_views w) vi = Some v \<and> pane_mset w = view_panes v + pane_mset w')"
proof -
  obtain d where d: "close_view_inner vi w = Inr (d, u)" and w': "w' = d\<lparr>wl_revision := wl_revision w + 1\<rparr>"
    by (rule transact_Inr [OF w e [unfolded close_view_def]])
  show ?thesis by (rule close_view_removes [OF w d]) (simp add: w')
qed

lemma close_pane_op:
  assumes "maps_ok w" "close_pane i w = Inr (w', u)"
  shows "maps_ok w' \<and> (\<exists>p. pane_mset w = add_mset (i, p) (pane_mset w'))"
  by (rule close_pane_removes [OF assms]) blast

lemma close_to_launcher_op:
  assumes w: "maps_ok w" and e: "close_to_launcher i w = Inr (w', u)"
  shows "maps_ok w' \<and> (\<exists>p. pane_mset w = add_mset (i, p) (pane_mset w') \<or>
    add_mset (wl_next_id w + 1, pane_default) (pane_mset w) = add_mset (i, p) (pane_mset w'))"
proof -
  obtain d where d: "close_to_launcher_edit i w = Inr (d, ())" and w': "w' = d\<lparr>wl_revision := wl_revision w + 1\<rparr>"
    by (rule transact_Inr [OF w e [unfolded close_to_launcher_def]]) simp
  have "close_pane i w = Inr (d, ()) \<or> (\<exists>vi w1 ti. add_tab vi pane_default w = Inr (w1, ti) \<and> close_pane i w1 = Inr (d, ()))"
    using d by (auto simp: close_to_launcher_edit_def split: option.splits if_splits)
  then show ?thesis
  proof
    assume "close_pane i w = Inr (d, ())"
    from close_pane_op [OF w this] show ?thesis by (auto simp: w')
  next
    assume "\<exists>vi w1 ti. add_tab vi pane_default w = Inr (w1, ti) \<and> close_pane i w1 = Inr (d, ())"
    then obtain vi w1 ti where a: "add_tab vi pane_default w = Inr (w1, ti)" "close_pane i w1 = Inr (d, ())"
      by blast
    have "maps_ok w1" "pane_mset w1 = add_mset (wl_next_id w + 1, pane_default) (pane_mset w)"
      using add_tab_adds [OF w a(1)] by auto
    with close_pane_op [OF this(1) a(2)] show ?thesis by (auto simp: w')
  qed
qed

text \<open>Where the panes are after an operation.\<close>

definition accounts :: "layout_op \<Rightarrow> WorkspaceLayout \<Rightarrow> WorkspaceLayout \<Rightarrow> bool" where
  "accounts x w w' \<longleftrightarrow> (case x of
     SplitView _ _ p \<Rightarrow> pane_mset w' = add_mset (wl_next_id w + 2, p) (pane_mset w)
   | AddTab _ p \<Rightarrow> pane_mset w' = add_mset (wl_next_id w + 1, p) (pane_mset w)
   | SplitPane _ _ p \<Rightarrow> pane_mset w' = add_mset (wl_next_id w, p) (pane_mset w)
   | ClosePane i \<Rightarrow> \<exists>p. pane_mset w = add_mset (i, p) (pane_mset w')
   | CloseTab vi ti \<Rightarrow> \<exists>t. get_tab vi ti w = Inr t \<and> pane_mset w = mset (st_panes t) + pane_mset w'
   | CloseView vi \<Rightarrow> \<exists>v. map_of (wl_views w) vi = Some v \<and> pane_mset w = view_panes v + pane_mset w'
   | CloseToLauncher i \<Rightarrow> \<exists>p. pane_mset w = add_mset (i, p) (pane_mset w') \<or>
       add_mset (wl_next_id w + 1, pane_default) (pane_mset w) = add_mset (i, p) (pane_mset w')
   | _ \<Rightarrow> pane_mset w' = pane_mset w)"

fun rearranges :: "layout_op \<Rightarrow> bool" where
  "rearranges (SplitView _ _ _) = False"
| "rearranges (AddTab _ _) = False"
| "rearranges (SplitPane _ _ _) = False"
| "rearranges (ClosePane _) = False"
| "rearranges (CloseTab _ _) = False"
| "rearranges (CloseView _) = False"
| "rearranges (CloseToLauncher _) = False"
| "rearranges _ = True"

lemma keeps_accounts: "keeps w w' \<Longrightarrow> rearranges x \<Longrightarrow> maps_ok w' \<and> accounts x w w'"
  by (cases x) (simp_all add: accounts_def keeps_def)

lemma rearrange_keeps:
  assumes w: "maps_ok w" and r: "rearranges x" and e: "run_op x w = Inr w'"
  shows "keeps w w'"
proof (cases x)
  case (MoveTab ti target)
  then show ?thesis using e move_tab_keeps [OF w] by auto
next
  case (SwapPanes a b)
  then have "transact (swap_panes_edit a b) w = Inr (w', ())"
    using e by (auto simp: swap_panes_def split: if_splits)
  then show ?thesis by (rule transact_keeps [OF w]) (rule swap_panes_keeps [OF w])
qed (use e r in \<open>auto simp: operation_defs
  elim!: transact_keeps [OF w] intro: set_ratio_keeps [OF w] focus_edit_keeps [OF w]
  focus_keeps [OF w] move_pane_keeps [OF w] pane_to_tab_keeps [OF w] reorder_tab_keeps [OF w]
  merge_tab_keeps [OF w] pane_to_view_keeps [OF w] tab_to_view_keeps [OF w]\<close>)

lemma run_op_accounts:
  assumes w: "maps_ok w" and e: "run_op x w = Inr w'"
  shows "maps_ok w' \<and> accounts x w w'"
proof (cases "rearranges x")
  case True
  then show ?thesis using keeps_accounts [OF rearrange_keeps [OF w True e]] by simp
next
  case False
  note ops = split_view_adds(1,2) [OF w] add_tab_adds [OF w] split_pane_adds [OF w] close_pane_op [OF w]
    close_tab_op [OF w] close_view_op [OF w] close_to_launcher_op [OF w]
  show ?thesis using False e ops by (cases x) (auto simp: accounts_def)
qed

section \<open>What a commit guarantees\<close>

lemma not_isl_projr: "\<not> isl r \<Longrightarrow> r = Inr (projr r)"
  by (cases r) simp_all

lemma maps_ok_new: "maps_ok layout_new"
  by (simp add: maps_ok_def layout_new_def single_view_def single_tab_def)

lemma good_revision [simp]: "good (w\<lparr>wl_revision := n\<rparr>) = good w"
  by (simp add: good_def ids_def id_list_def)

lemma transact_commit:
  assumes "transact edit w = Inr (w', r)" "maps_ok w" "maps_ok w'"
  shows "good w \<and> good w' \<and> wl_revision w' = wl_revision w + 1 \<and> wl_revision w' < 2 ^ 64 \<and>
    wl_next_id w \<le> wl_next_id w' \<and> (\<forall>i \<in> ids w' - ids w. wl_next_id w \<le> i)"
proof -
  obtain d where d: "edit w = Inr (d, r)" "w' = d\<lparr>wl_revision := wl_revision w + 1\<rparr>" "validate d = Inr ()" "good w"
    by (rule transact_Inr [OF assms(2,1)])
  have "maps_ok d" using assms(3) d(2) by simp
  then have "good d" using d(3) validate_iff_good by blast
  moreover have "ids w' = ids d" by (simp add: d(2) ids_def id_list_def)
  moreover have "\<not> 2 ^ 64 \<le> wl_revision w + 1" "\<not> wl_next_id d < wl_next_id w"
      "\<not> (\<exists>i \<in> ids d - ids w. i < wl_next_id w)"
    using assms(1) d(1) by (auto simp: transact_def compose_def split: if_splits)
  ultimately show ?thesis using d(2,4) by (auto simp: not_less not_le)
qed

lemma run_op_transact:
  assumes "run_op x w = Inr w'"
  shows "(\<exists>(edit :: unit edit) r. transact edit w = Inr (w', r)) \<or> (\<exists>(edit :: nat edit) r. transact edit w = Inr (w', r))"
  using assms
  by (cases x; simp add: operation_defs split_view_def add_tab_def split_pane_def close_pane_def close_tab_def
    close_view_def close_to_launcher_def move_tab_def split: if_splits) blast+

text \<open>C23: After every operation the account of the panes (with their ids and states) is exact.
  Splitting and adding put in one pane, with a fresh id and the given state; closing a pane, a tab
  or a view takes out just that pane or the panes in it; closing to the launcher takes out the
  pane, after adding an empty one if it was the last of its view. The thirteen other operations
  (focus, resize, move, swap, merge, reorder, to tab, to view), in which panes and tabs are detached
  and put in elsewhere and placeholders come and go, neither lose, duplicate nor change a pane.\<close>

theorem panes_accounted_for:
  assumes "maps_ok w" "run_op x w = Inr w'"
  shows "accounts x w w'"
  using run_op_accounts [OF assms] by simp

theorem panes_accounted_for_witness:
  "\<exists>w1 w2. run_op (SplitPane 3 DRight pane_default) layout_new = Inr w1 \<and>
     pane_mset w1 = add_mset (4, pane_default) (pane_mset layout_new) \<and>
     run_op (PaneToView 3 1 DLeft) w1 = Inr w2 \<and> pane_mset w2 = pane_mset w1"
proof -
  define w1 where "w1 = projr (run_op (SplitPane 3 DRight pane_default) layout_new)"
  define w2 where "w2 = projr (run_op (PaneToView 3 1 DLeft) w1)"
  have 1: "run_op (SplitPane 3 DRight pane_default) layout_new = Inr w1"
    unfolding w1_def by (rule not_isl_projr) code_simp
  have 2: "run_op (PaneToView 3 1 DLeft) w1 = Inr w2"
    unfolding w2_def w1_def by (rule not_isl_projr) code_simp
  have "accounts (SplitPane 3 DRight pane_default) layout_new w1"
    by (rule panes_accounted_for [OF maps_ok_new 1])
  moreover have "accounts (PaneToView 3 1 DLeft) w1 w2"
    using run_op_accounts [OF maps_ok_new 1] by (intro panes_accounted_for [OF _ 2]) simp
  ultimately show ?thesis
    using 1 2 unfolding accounts_def layout_op.case by (intro exI [of _ w1] exI [of _ w2]) (simp add: layout_new_def del: run_op.simps)
qed

text \<open>C24: A committed operation leaves a layout that validates, with the revision one higher
  (and still 64 bits wide), and ids are never reused: \<open>next_id\<close> does not go down, and every id
  that was not there before is at least the old \<open>next_id\<close>. The layout it started from was valid.\<close>

theorem commits_are_valid:
  assumes "maps_ok w" "run_op x w = Inr w'"
  shows "good w \<and> good w' \<and> maps_ok w' \<and> wl_revision w' = wl_revision w + 1 \<and> wl_revision w' < 2 ^ 64 \<and>
    wl_next_id w \<le> wl_next_id w' \<and> (\<forall>i \<in> ids w' - ids w. wl_next_id w \<le> i)"
proof -
  have m: "maps_ok w'" using run_op_accounts [OF assms] by simp
  show ?thesis
    using run_op_transact [OF assms(2)]
  proof (elim disjE exE)
    show ?thesis if "transact edit w = Inr (w', r)" for edit :: "unit edit" and r
      using transact_commit [OF that assms(1) m] m by simp
    show ?thesis if "transact edit w = Inr (w', r)" for edit :: "nat edit" and r
      using transact_commit [OF that assms(1) m] m by simp
  qed
qed

theorem commits_are_valid_witness:
  "\<exists>w'. run_op (MovePane 3 4 DUp) (projr (run_op (SplitPane 3 DRight pane_default) layout_new)) = Inr w' \<and>
     good w' \<and> wl_revision w' = 2"
proof -
  define w1 where "w1 = projr (run_op (SplitPane 3 DRight pane_default) layout_new)"
  define w2 where "w2 = projr (run_op (MovePane 3 4 DUp) w1)"
  have 1: "run_op (SplitPane 3 DRight pane_default) layout_new = Inr w1"
    unfolding w1_def by (rule not_isl_projr) code_simp
  have 2: "run_op (MovePane 3 4 DUp) w1 = Inr w2"
    unfolding w2_def w1_def by (rule not_isl_projr) code_simp
  have "maps_ok w1" using run_op_accounts [OF maps_ok_new 1] by simp
  then have "good w2 \<and> wl_revision w2 = wl_revision w1 + 1" using commits_are_valid [OF _ 2] by simp
  moreover have "wl_revision w1 = 1" unfolding w1_def by code_simp
  ultimately show ?thesis using 2 unfolding w1_def by (simp del: run_op.simps)
qed

end
