(* ===== verification/Layout_Safe.thy ===== *)
theory Layout_Safe
  imports Layout_Ops
begin

text \<open>
  No operation of a layout panics: every \<open>unwrap\<close>, map index and \<open>[0]\<close> of \<open>lib.rs\<close> and
  \<open>arrange.rs\<close>, which the model answers with \<open>Panicked\<close>, is guarded by what came before it.
  The last section is the loading policy and the tree operations on the list of leaves.
\<close>

section \<open>Answers that are not panics\<close>

named_theorems safe_intros

definition safe :: "LayoutError + 'a \<Rightarrow> bool" where
  "safe r \<longleftrightarrow> r \<noteq> Inl Panicked"

lemma safe_simps [simp]: "safe (Inr a)" "safe (Inl e) \<longleftrightarrow> e \<noteq> Panicked"
  "safe (ok_or e x) \<longleftrightarrow> x \<noteq> None \<or> e \<noteq> Panicked"
  by (auto simp: safe_def ok_or_def split: option.splits)

lemma safe_rbind [safe_intros]: "safe m \<Longrightarrow> (\<And>a. m = Inr a \<Longrightarrow> safe (f a)) \<Longrightarrow> safe (rbind m f)"
  by (cases m) (auto simp: safe_def)

lemma safe_rbind_pair: "safe m \<Longrightarrow> (\<And>a b. m = Inr (a, b) \<Longrightarrow> safe (f a b)) \<Longrightarrow> safe (rbind m (\<lambda>(a, b). f a b))"
  by (rule safe_rbind) auto

lemma safe_ratio [simp]: "safe (validate_ratio q)"
  by (simp add: validate_ratio_def)

lemma safe_collect [simp]: "safe (collect d n acc)"
  by (induction d n acc rule: collect.induct) (auto intro!: safe_rbind)

lemma safe_store [simp]: "safe (store_ratio p q n)"
  by (induction p q n rule: store_ratio.induct) (auto intro: safe_rbind)

lemma safe_reachable [simp]: "safe (reachable n m)"
  by (auto simp: reachable_def Let_def intro: safe_rbind)

lemma safe_unique [simp]: "safe (unique_id s i)" "safe (unique_ids s is)"
proof -
  show u: "safe (unique_id s i)" for s i by (simp add: unique_id_def)
  show "safe (unique_ids s is)" by (induction s "is" rule: unique_ids.induct) (auto simp: u intro: safe_rbind)
qed

lemma safe_tabs [simp]: "safe (validate_tabs x ts)"
  by (induction x ts rule: validate_tabs.induct) (auto simp: Let_def intro!: safe_rbind)

lemma safe_views [simp]: "safe (validate_views x vs)"
  by (induction x vs rule: validate_views.induct) (auto simp: Let_def split: prod.split intro!: safe_rbind)

lemma safe_validate [simp]: "safe (validate w)"
  by (auto simp: validate_def intro!: safe_rbind)

lemma safe_transact:
  assumes "maps_ok w" "good w \<Longrightarrow> safe (edit w)"
  shows "safe (transact edit w)"
proof (cases "validate w")
  case (Inl e)
  then show ?thesis using safe_validate [of w] by (simp add: transact_def compose_def)
next
  case (Inr u)
  then have "safe (edit w)" using assms by (simp add: validate_iff_good)
  then show ?thesis using Inr by (auto simp: transact_def compose_def intro!: safe_rbind_pair safe_rbind)
qed

lemma safe_allocate [simp]: "safe (allocate w)"
  by (simp add: allocate_def)

lemma safe_get_tab [simp]: "safe (get_tab vi ti w)"
  by (auto simp: get_tab_def intro: safe_rbind)

lemma safe_unwrap [simp]: "safe (view_unwrap vi w) \<longleftrightarrow> map_of (wl_views w) vi \<noteq> None"
  "safe (tab_unwrap vi ti w) \<longleftrightarrow> \<not> isl (get_tab vi ti w)"
  by (auto simp: view_unwrap_def tab_unwrap_def split: option.split sum.split)

section \<open>The edits\<close>

lemma safe_focus [simp]: "safe (focus_pane_inner i w)"
  by (auto simp: focus_pane_inner_def split: option.split intro: safe_rbind)

lemma safe_close_view [simp]: "safe (close_view_inner vi w)"
  by (auto simp: close_view_inner_def Let_def intro: safe_rbind)

lemma good_viewD: "good w \<Longrightarrow> map_of (wl_views w) vi = Some v \<Longrightarrow> good_view v"
  by (auto simp: good_def dest!: map_of_SomeD)

lemma safe_close_tab:
  assumes w: "maps_ok w" "good w"
  shows "safe (close_tab_inner vi ti w)"
proof (cases "map_of (wl_views w) vi")
  case (Some v)
  have order: "distinct (ordered_tabs v)" "set (ordered_tabs v) = set (bkeys (vw_tabs v))"
    using good_viewD [OF w(2) Some] by (auto simp: good_view_def)
  have b: "distinct (bkeys (vw_tabs v))" using view_mapsD [OF w(1) Some] by (simp add: view_maps_def bwf_distinct)
  have "length (vw_tabs v) = 1" if "filter (\<lambda>i. i \<noteq> ti) (ordered_tabs v) = []" "bcontains (vw_tabs v) ti"
  proof -
    have "set (bkeys (vw_tabs v)) \<subseteq> {ti}"
      using that(1) unfolding order(2) [symmetric] by (auto simp: filter_empty_conv)
    then have "set (bkeys (vw_tabs v)) = {ti}" using that(2) unfolding bcontains_def by blast
    then have "length (bkeys (vw_tabs v)) = 1" using distinct_card [OF b] by (simp only: card_1_singleton_iff, simp)
    then show ?thesis by (simp only: length_map)
  qed
  then show ?thesis using Some by (auto simp: close_tab_inner_def Let_def)
qed (simp add: close_tab_inner_def)

lemma safe_detach:
  assumes "maps_ok w" "good w"
  shows "safe (detach_pane i w)"
proof -
  have "safe (tab_remove i t)" for t by (auto simp: tab_remove_def Let_def intro!: safe_rbind)
  then show ?thesis
    using safe_close_tab [OF assms]
    by (auto simp: detach_pane_def split: option.split intro!: safe_rbind safe_rbind_pair)
qed

lemma location_tab: "maps_ok w \<Longrightarrow> pane_location i w = Some (vi, ti) \<Longrightarrow> \<not> isl (get_tab vi ti w)"
  by (rule pane_location_Some) auto

lemma safe_move_pane:
  assumes "maps_ok w" "good w"
  shows "safe (move_pane_edit i target d w)"
  using location_tab [OF assms(1)] safe_detach [OF assms]
  by (auto simp: move_pane_edit_def should_swap_def split: option.split intro!: safe_rbind safe_rbind_pair)

lemma safe_take_tab: "maps_ok w \<Longrightarrow> good w \<Longrightarrow> safe (take_tab vi ti w)"
  using safe_close_tab by (auto simp: take_tab_def intro!: safe_rbind safe_rbind_pair)

lemma on_view_views: "map_of (wl_views (on_view vi f w)) vj =
    (if vj = vi then map_option f (map_of (wl_views w) vi) else map_of (wl_views w) vj)"
  by (auto simp: on_view_def map_of_binsert split: option.split)

lemma safe_move_tab_edit:
  assumes w: "maps_ok w" "good w"
  shows "safe (move_tab_edit ti target w)"
proof -
  have k: "map_of (wl_views w1) target \<noteq> None"
    if "take_tab source ti w = Inr (w1, t)" "source \<noteq> target" "bcontains (wl_views w) target" for source w1 t
    using take_tab_Inr(4) [OF w(1) that(1)] that(2,3) by (auto simp: elsewhere_def bcontains_iff)
  show ?thesis
    unfolding move_tab_edit_def
    by (intro safe_rbind safe_rbind_pair conjI impI; (clarsimp split: if_splits)?)
       (use k safe_take_tab [OF w] in \<open>auto simp: on_view_views bcontains_iff intro!: safe_rbind safe_rbind_pair\<close>)
qed

lemma safe_move_tab: "maps_ok w \<Longrightarrow> safe (move_tab ti target w)"
  unfolding move_tab_def by (rule safe_transact) (simp_all add: safe_move_tab_edit)

lemma safe_pane_to_tab:
  assumes w: "maps_ok w" "good w"
  shows "safe (pane_to_tab_edit i target w)"
proof -
  have k: "map_of (wl_views w1) target \<noteq> None"
    if l: "pane_location i w = Some (vi, ti)" and t: "get_tab vi ti w = Inr t" "length (st_panes t) \<noteq> 1"
      and d: "detach_pane i w = Inr (w1, p)" and v: "bcontains (wl_views w) target" for vi ti t w1 p
  proof -
    obtain t' p' where "get_tab vi ti w = Inr t'" "map_of (st_panes t') i = Some p'"
      by (rule pane_location_Some [OF w(1) l])
    then have "1 < length (st_panes t)" using t by (cases "st_panes t") auto
    then obtain t2 where "w1 = on_view vi (set_tab ti t2) w"
      using d l t(1) by (auto simp: detach_pane_def)
    then show ?thesis using v by (auto simp: on_view_views bcontains_iff)
  qed
  show ?thesis
    unfolding pane_to_tab_edit_def
    using k safe_move_tab [OF w(1)] safe_detach [OF w]
    by (auto simp: ok_or_Inr_iff allocate_Inr intro!: safe_rbind safe_rbind_pair)
qed

lemma target_there:
  assumes "maps_ok w" "move_tab ti target w = Inr (w1, u)"
  shows "map_of (wl_views w1) target \<noteq> None"
proof -
  obtain d where "move_tab_edit ti target w = Inr (d, u)" "w1 = d\<lparr>wl_revision := wl_revision w + 1\<rparr>"
    by (rule transact_Inr [OF assms(1) assms(2) [unfolded move_tab_def]])
  then show ?thesis by (auto simp: move_tab_edit_def on_view_views split: if_splits)
qed

lemma safe_reorder_tab:
  assumes "maps_ok w"
  shows "safe (reorder_tab_edit ti target before w)"
  using safe_move_tab [OF assms] target_there [OF assms]
  by (auto simp: reorder_tab_edit_def intro!: safe_rbind safe_rbind_pair)

lemma safe_merge_tab:
  assumes "maps_ok w" "good w"
  shows "safe (merge_tab_edit ti target d w)"
  using safe_take_tab [OF assms]
  by (auto simp: merge_tab_edit_def case_prod_beta intro!: safe_rbind)

lemma safe_swap_panes_edit:
  assumes w: "maps_ok w" "good w"
  shows "safe (swap_panes_edit a b w)"
proof -
  have take: "safe (pane_take vi ti i w) \<longleftrightarrow> (\<forall>t. get_tab vi ti w = Inr t \<longrightarrow> map_of (st_panes t) i \<noteq> None)"
    for vi ti i and w :: WorkspaceLayout
    by (cases "get_tab vi ti w") (use safe_get_tab [of vi ti w] in \<open>auto simp: pane_take_def split: option.split\<close>)
  have put: "safe (pane_put vi ti i p w)" for vi ti i p and w :: WorkspaceLayout
    by (auto simp: pane_put_def intro: safe_rbind)
  have first: "safe (pane_take vi ti i w)" if "pane_location i w = Some (vi, ti)" for vi ti i
    using pane_location_Some [OF w(1) that] by (fastforce simp: take)
  have second: "safe (pane_take bv bt b w1)"
    if l: "pane_location b w = Some (bv, bt)" and t: "pane_take av at' a w = Inr (w1, pa)"
      and ne: "(av, at') \<noteq> (bv, bt)" for av at' bv bt w1 pa
  proof -
    obtain t' where w1: "w1 = on_view av (set_tab at' t') w"
      using t by (auto simp: pane_take_def split: option.splits)
    have "get_tab bv bt w1 = get_tab bv bt w"
      using ne by (auto simp: get_tab_def w1 on_view_views set_tab_def map_of_binsert ok_or_def split: option.splits)
    then show ?thesis using first [OF l] by (simp add: take)
  qed
  show ?thesis
    unfolding swap_panes_edit_def
    by (intro safe_rbind_pair safe_rbind)
       (use first second put in \<open>auto simp: ok_or_Inr_iff intro!: safe_rbind_pair\<close>)
qed

lemma safe_add_tab: "maps_ok w \<Longrightarrow> safe (add_tab vi p w)"
  unfolding add_tab_def
  by (rule safe_transact) (auto simp: add_tab_edit_def intro!: safe_rbind_pair)

lemma safe_split_view: "maps_ok w \<Longrightarrow> safe (split_view target d p w)"
  unfolding split_view_def
  by (rule safe_transact) (auto simp: split_view_edit_def intro!: safe_rbind_pair)

lemma safe_close_pane: "maps_ok w \<Longrightarrow> safe (close_pane i w)"
  unfolding close_pane_def
  by (rule safe_transact) (auto simp: safe_detach intro!: safe_rbind_pair)

lemma safe_split_pane: "maps_ok w \<Longrightarrow> safe (split_pane target d p w)"
  unfolding split_pane_def
  by (rule safe_transact)
     (auto simp: split_pane_edit_def split: option.split intro!: safe_rbind safe_rbind_pair)

lemma safe_close_to_launcher:
  assumes w: "maps_ok w"
  shows "safe (close_to_launcher_edit i w)"
proof -
  have v: "map_of (wl_views w) vi \<noteq> None" if "pane_location i w = Some (vi, ti)" for vi ti
    using pane_location_Some [OF w that] by (auto simp: get_tab_Inr)
  have c: "safe (close_pane i w1)" if "add_tab vi pane_default w = Inr (w1, ti)" for vi w1 ti
    using add_tab_adds [OF w that] by (simp add: safe_close_pane)
  show ?thesis
    unfolding close_to_launcher_edit_def
    using v c location_tab [OF w] safe_add_tab [OF w] safe_close_pane [OF w]
    by (auto split: option.split intro!: safe_rbind safe_rbind_pair)
qed

lemma safe_pane_to_view:
  assumes w: "maps_ok w"
  shows "safe (pane_to_view_edit i target d w)"
proof -
  have "safe (case active_pane_id w1 of None \<Rightarrow> Inl Panicked
        | Some placeholder \<Rightarrow>
            rbind (move_pane i placeholder DLeft w1) (\<lambda>(w2, _).
              rbind (close_pane placeholder w2) (\<lambda>(w3, _).
                rbind (focus_pane_inner i w3) (\<lambda>(w4, _). Inr (w4, added)))))"
    if s: "split_view target d pane_default w = Inr (w1, added)" for w1 added
  proof -
    note a = split_view_adds [OF w s]
    have m: "safe (move_pane i p DLeft w1)" for p
      unfolding move_pane_def by (rule safe_transact [OF a(1)]) (rule safe_move_pane [OF a(1)])
    have "maps_ok w2" if "move_pane i p DLeft w1 = Inr (w2, u)" for p w2 u
      using transact_keeps [OF a(1) that [unfolded move_pane_def] move_pane_keeps [OF a(1)]]
      by (simp add: keeps_def)
    then have c: "safe (close_pane q w2)" if "move_pane i p DLeft w1 = Inr (w2, u)" for p q w2 u
      using that safe_close_pane by blast
    show ?thesis
      unfolding a(4) option.case by (intro safe_rbind_pair m; (erule c)?; simp)
  qed
  then show ?thesis
    unfolding pane_to_view_edit_def using safe_split_view [OF w] by (auto intro!: safe_rbind_pair)
qed

lemma safe_tab_to_view:
  assumes w: "maps_ok w"
  shows "safe (tab_to_view_edit ti target d w)"
proof -
  have "safe (rbind (view_unwrap added w1) (\<lambda>v.
          rbind (move_tab ti added w1) (\<lambda>(w2, _).
            rbind (close_tab added (vw_active_tab_id v) w2) (\<lambda>(w3, _). Inr (w3, added)))))"
    if s: "split_view target d pane_default w = Inr (w1, added)" for w1 added
  proof -
    note a = split_view_adds [OF w s]
    have c: "safe (close_tab added n w2)" if "move_tab ti added w1 = Inr (w2, u)" for n w2 u
    proof -
      have m: "maps_ok w2" using move_tab_keeps [OF a(1) that] by (simp add: keeps_def)
      show ?thesis unfolding close_tab_def by (rule safe_transact [OF m]) (rule safe_close_tab [OF m])
    qed
    show ?thesis using a(6) c safe_move_tab [OF a(1)] by (auto intro!: safe_rbind safe_rbind_pair)
  qed
  then show ?thesis
    unfolding tab_to_view_edit_def using safe_split_view [OF w] by (auto intro!: safe_rbind_pair)
qed

section \<open>The operations\<close>

lemma safe_unit_of: "safe (unit_of r) \<longleftrightarrow> safe r"
  by (cases r) (auto simp: unit_of_def safe_def)

lemma safe_small_edits [simp]:
  "safe (focus_view_edit vi w)" "safe (focus_tab_edit vi ti w)"
  "safe (set_view_ratio_edit p q w)" "safe (set_pane_ratio_edit vi ti p q w)"
  by (auto simp: focus_view_edit_def focus_tab_edit_def set_view_ratio_edit_def set_pane_ratio_edit_def
    intro!: safe_rbind)

lemma safe_swap_panes: "maps_ok w \<Longrightarrow> safe (swap_panes a b w)"
  unfolding swap_panes_def by (auto intro!: safe_transact safe_swap_panes_edit)

text \<open>C25: No operation panics, whatever ids, directions, paths and ratios it is given: on every
  layout (valid or not) the answer is the edited layout or one of the errors of the crate, never
  the \<open>Panicked\<close> of an \<open>unwrap\<close>, a map index or an empty tab order.\<close>

theorem layout_never_panics:
  assumes "maps_ok w"
  shows "run_op x w \<noteq> Inl Panicked"
proof -
  note edits = safe_move_pane safe_pane_to_tab safe_merge_tab safe_reorder_tab safe_pane_to_view
    safe_tab_to_view safe_close_to_launcher safe_close_tab
  have "safe (run_op x w)"
    by (cases x)
       (simp_all add: safe_unit_of assms safe_add_tab safe_split_view safe_split_pane safe_close_pane
          safe_move_tab safe_swap_panes, simp_all add: operation_defs close_tab_def close_view_def
          close_to_launcher_def safe_transact edits assms)
  then show ?thesis by (simp add: safe_def)
qed

theorem layout_never_panics_witness:
  "run_op (CloseTab 1 2) layout_new \<noteq> Inl Panicked \<and> run_op (TabToView 2 1 DUp) layout_new \<noteq> Inl Panicked"
  using layout_never_panics [OF maps_ok_new] by blast

section \<open>Trees as lists of leaves\<close>

text \<open>C27: The tree edits of \<open>tree.rs\<close> and \<open>arrange.rs\<close> implement the edits of the list of leaves,
  read from left to right and top to bottom: inserting and splicing in place the new leaves just
  before or after the first occurrence of the target, and say whether it was there; removal
  drops the target, and answers \<open>None\<close> just when nothing else is left; swapping renames; the first
  leaf is the head; storing a ratio moves no leaf.\<close>

theorem tree_edits_refine_lists:
  "leaves (fst (insert_leaf t x d n)) = place t [x] (dir_before d) (leaves n) \<and>
   snd (insert_leaf t x d n) = (t \<in> set (leaves n)) \<and>
   leaves (fst (replace_with_split t m d n)) = place t (leaves m) (dir_before d) (leaves n) \<and>
   (case remove_leaf t n of None \<Rightarrow> [] | Some n' \<Rightarrow> leaves n') = filter (\<lambda>y. y \<noteq> t) (leaves n) \<and>
   (remove_leaf t n = None) = (set (leaves n) = {t}) \<and>
   leaves (swap_leaves a b n) = map (exchange a b) (leaves n) \<and>
   first_leaf n = hd (leaves n) \<and>
   (case store_ratio p q n of Inl _ \<Rightarrow> True | Inr n' \<Rightarrow> leaves n' = leaves n)"
  using insert_leaves [of t x d n] replace_leaves [of t m d n] store_shape [of p q n]
  by (auto simp: remove_leaves remove_None_iff swap_leaves_leaves first_leaf_hd split: sum.split)

text \<open>Moving a pane onto its sibling does not swap the two when they are not the only panes of the
  tab: they are split anew, so the ratio between them goes back to a half.\<close>

definition three_panes :: "nat SplitNode" where
  "three_panes = Split True half (Leaf 3) (Split False (Fin (7 / 10)) (Leaf 4) (Leaf 5))"

lemma nested_siblings_not_swapped:
  "is_sibling_in_direction 4 5 DUp (Split False (Fin (7 / 10)) (Leaf 4) (Leaf 5)) \<and>
   \<not> is_sibling_in_direction 4 5 DUp three_panes \<and>
   map_option (\<lambda>n. fst (insert_leaf 5 4 DUp n)) (remove_leaf 4 three_panes) =
     Some (Split True half (Leaf 3) (Split False half (Leaf 4) (Leaf 5)))"
  by (simp add: three_panes_def dir_horizontal_def dir_before_def)

section \<open>Loading a file\<close>

lemma ids_next [simp]: "ids (w\<lparr>wl_next_id := n\<rparr>) = ids w"
  by (simp add: ids_def id_list_def)

text \<open>Loading changes nothing of a parsed layout but \<open>next_id\<close>, which the repairing policy
  raises just above the ids in use (and never lowers); what is returned validates. The rejecting
  policy accepts exactly the layouts that validate as they are, and the repairing one accepts
  those too, unchanged, as long as the ids stay below \<open>2 ^ 64 - 1\<close>.\<close>

theorem loading_only_raises_next_id:
  assumes w: "maps_ok w"
  shows "(into_layout policy w = Inr w' \<longrightarrow> good w' \<and> w' = w\<lparr>wl_next_id := wl_next_id w'\<rparr> \<and>
      wl_next_id w \<le> wl_next_id w' \<and> (policy = RejectIds \<longrightarrow> w' = w)) \<and>
    (good w \<and> wl_next_id w < 2 ^ 64 \<longrightarrow> into_layout policy w = Inr w)"
proof -
  have g: "validate (w\<lparr>wl_next_id := n\<rparr>) = Inr u \<longleftrightarrow> good (w\<lparr>wl_next_id := n\<rparr>)" for n u
    using validate_iff_good [of "w\<lparr>wl_next_id := n\<rparr>"] w by simp
  have g0: "validate w = Inr u \<longleftrightarrow> good w" for u
    using validate_iff_good [OF w] by simp
  have "max (wl_next_id w) (Max (ids w) + 1) = wl_next_id w" "Max (ids w) + 1 \<le> wl_next_id w"
    if "good w" "ids w \<noteq> {}"
  proof -
    have "Max (ids w) \<in> ids w" using that(2) by (simp add: ids_def)
    then show "Max (ids w) + 1 \<le> wl_next_id w" using that(1) by (auto simp: good_def)
    then show "max (wl_next_id w) (Max (ids w) + 1) = wl_next_id w" by simp
  qed
  moreover have "ids w \<noteq> {}" if "good w" using member_ids(1) [of w] that
    by (cases "wl_views w") (auto simp: good_def ids_def id_list_def view_ids_def)
  ultimately show ?thesis
    by (cases policy) (auto simp: into_layout_def Let_def g g0)
qed

theorem loading_only_raises_next_id_witness:
  "into_layout RepairIds (layout_new\<lparr>wl_next_id := 1\<rparr>) = Inr layout_new \<and>
   into_layout RejectIds layout_new = Inr layout_new \<and> good layout_new"
proof -
  have 1: "into_layout RepairIds (layout_new\<lparr>wl_next_id := 1\<rparr>) = Inr layout_new" by code_simp
  have "maps_ok (layout_new\<lparr>wl_next_id := 1\<rparr>)" by (simp add: maps_ok_new)
  from loading_only_raises_next_id [OF this, of RepairIds layout_new] 1 have g: "good layout_new" by simp
  moreover have "wl_next_id layout_new < 2 ^ 64" by (simp add: layout_new_def)
  ultimately have "into_layout RejectIds layout_new = Inr layout_new"
    using loading_only_raises_next_id [OF maps_ok_new, of RejectIds layout_new] by simp
  with 1 g show ?thesis by simp
qed

end
