(* ===== verification/Thread_Projection.thy ===== *)
theory Thread_Projection
  imports Json
begin

text \<open>
  The projection of an orchestrated thread (\<open>crates/engine/src/orchestration/projection.rs\<close>): its
  runs, attempts and untyped records, and the readers of \<open>task.rs\<close> and \<open>command.rs\<close> that the
  planners share. Runs, attempts and the thread hold the fields the modelled code reads; the rest
  of their generated wire types is carried along by the code and never looked at here. An id is its
  string.
\<close>

section \<open>Runs and attempts\<close>

datatype RunStatus =
  RsPreparing | RsQueued | RsStarting | RsRunning | RsWaiting | RsCompleted | RsInterrupted | RsFailed
| RsCancelled | RsRolledBack

definition run_terminal :: "RunStatus \<Rightarrow> bool" where
  "run_terminal s \<longleftrightarrow> s \<in> {RsCompleted, RsInterrupted, RsFailed, RsCancelled, RsRolledBack}"

datatype AttemptReason = ArInitial | ArSteeringRestart | ArRetry | ArProviderRecovery

record Run =
  rn_id :: string
  rn_ordinal :: int
  rn_provider_instance_id :: string
  rn_provider_thread_id :: "string option"
  rn_user_message_id :: string
  rn_root_node_id :: "string option"
  rn_active_attempt_id :: "string option"
  rn_status :: RunStatus

record RunAttempt =
  at_id :: string
  at_run_id :: string
  at_ordinal :: int
  at_root_node_id :: string
  at_provider_instance_id :: string
  at_provider_thread_id :: string
  at_provider_turn_id :: "string option"
  at_reason :: AttemptReason

record AppThread =
  th_id :: string
  th_archived_at :: "string option"
  th_deleted_at :: "string option"

record ThreadProjection =
  tpj_thread :: AppThread
  tpj_runs :: "Run list"
  tpj_attempts :: "RunAttempt list"
  tpj_records :: "(string \<times> json list) list"

definition records :: "ThreadProjection \<Rightarrow> string \<Rightarrow> json list" where
  "records p kind = (case map_of (tpj_records p) kind of None \<Rightarrow> [] | Some rs \<Rightarrow> rs)"

text \<open>The last run that is neither over nor queued.\<close>

definition active_run :: "ThreadProjection \<Rightarrow> Run option" where
  "active_run p = List.find (\<lambda>r. \<not> run_terminal (rn_status r) \<and> rn_status r \<noteq> RsQueued) (rev (tpj_runs p))"

text \<open>\<open>value["key"] == "text"\<close>.\<close>

definition field_is :: "json \<Rightarrow> string \<Rightarrow> string \<Rightarrow> bool" where
  "field_is v k s \<longleftrightarrow> json_index v k = JStr s"

definition closed_thread :: "ThreadProjection \<Rightarrow> bool" where
  "closed_thread p \<longleftrightarrow> th_archived_at (tpj_thread p) \<noteq> None \<or> th_deleted_at (tpj_thread p) \<noteq> None"

lemma active_runD:
  "active_run p = Some r \<Longrightarrow> r \<in> set (tpj_runs p) \<and> \<not> run_terminal (rn_status r) \<and> rn_status r \<noteq> RsQueued"
  by (auto simp: active_run_def dest: find_SomeD)

end
