(* ===== verification/Effect_Outbox.thy ===== *)
theory Effect_Outbox
  imports Thread_Projection
begin

text \<open>
  The outbox of external effects (\<open>crates/engine/src/orchestration/effects.rs\<close>, with its recovery in
  \<open>recovery.rs\<close>, its wake-up in \<open>wake.rs\<close> and the steering receipts of \<open>steering.rs\<close>).

  The table is the list of its rows in the order of their ordinals; an \<open>UPDATE\<close> with a
  \<open>WHERE\<close> clause is \<open>update_where\<close>, which also says how many rows it changed. The columns lane, type
  and process-bound are functions of the request they were computed from, and never change. A
  comparison with \<open>NULL\<close> is false. Times are milliseconds.
\<close>

section \<open>Requests\<close>

datatype TitleKind = TkInitial string | TkRegenerate

text \<open>The arguments are the fields of the variant, in the order of the source.\<close>

datatype EffectRequest =
  DelegatedCompletionContinue string int string
| ManagedRunInterrupt string
| ProviderRuntimeContinue string
| ProviderSessionDetach string
| ProviderSessionDisconnect string string string
    string
| ProviderTurnStart string
| ProviderTurnInterrupt string string string
| ProviderTurnSteer string string string
    string
| ProviderTurnRestart string string string
    string string
| RuntimeRequestRespond string string "json option"
    "json option"
| ProviderThreadRollback string string string
| CheckpointCapture string string
| TerminalCleanup
| AttachmentCleanup "string list"
| QueuedAttachmentCleanup "string list"
| ThreadTitleGenerate TitleKind

definition process_bound :: "EffectRequest \<Rightarrow> bool" where
  "process_bound r = (case r of
     ProviderTurnStart _ \<Rightarrow> True
   | ManagedRunInterrupt _ \<Rightarrow> True
   | ProviderTurnInterrupt _ _ _ \<Rightarrow> True
   | ProviderTurnSteer _ _ _ _ \<Rightarrow> True
   | ProviderTurnRestart _ _ _ _ _ \<Rightarrow> True
   | RuntimeRequestRespond _ _ _ _ \<Rightarrow> True
   | _ \<Rightarrow> False)"

definition lane :: "EffectRequest \<Rightarrow> string" where
  "lane r = (case r of ThreadTitleGenerate _ \<Rightarrow> ''title'' | _ \<Rightarrow> ''provider'')"

definition is_steer :: "EffectRequest \<Rightarrow> bool" where
  "is_steer r = (case r of ProviderTurnSteer _ _ _ _ \<Rightarrow> True | _ \<Rightarrow> False)"

section \<open>Rows\<close>

datatype EffectStatus = EsPending | EsRunning | EsSucceeded | EsFailed | EsCancelled | EsUncertain

record Effect =
  ef_id :: string
  ef_command_id :: string
  ef_thread_id :: string
  ef_request :: EffectRequest
  ef_status :: EffectStatus
  ef_attempt_count :: nat
  ef_available_at :: int
  ef_lease_owner :: "string option"
  ef_lease_expires_at :: "int option"
  ef_dispatch_started :: bool
  ef_last_error :: "string option"
  ef_completed_at :: "int option"

record RuntimeTarget =
  rt_run_id :: string
  rt_attempt_id :: string
  rt_root_node_id :: string
  rt_provider_thread_id :: string
  rt_runtime_id :: "string option"

record ControlTarget =
  ct_runtime :: RuntimeTarget
  ct_replacement_attempt_id :: "string option"

text \<open>The tables: effects, steering receipts, steering inputs with their admitted runtime, stop
  targets, and the live runtime of each thread; and the epoch of the host.\<close>

record Outbox =
  ob_rows :: "Effect list"
  ob_accepted :: "string list"
  ob_inputs :: "(string \<times> string option) list"
  ob_controls :: "(string \<times> ControlTarget option) list"
  ob_targets :: "(string \<times> RuntimeTarget) list"
  ob_epoch :: int

definition update_where :: "(Effect \<Rightarrow> bool) \<Rightarrow> (Effect \<Rightarrow> Effect) \<Rightarrow> Outbox \<Rightarrow> Outbox" where
  "update_where P f s = s\<lparr>ob_rows := map (\<lambda>e. if P e then f e else e) (ob_rows s)\<rparr>"

definition count_where :: "(Effect \<Rightarrow> bool) \<Rightarrow> Outbox \<Rightarrow> nat" where
  "count_where P s = length (filter P (ob_rows s))"

definition effect :: "string \<Rightarrow> Outbox \<Rightarrow> Effect option" where
  "effect i s = List.find (\<lambda>e. ef_id e = i) (ob_rows s)"

definition sql_eq :: "'a option \<Rightarrow> 'a option \<Rightarrow> bool" where
  "sql_eq a b \<longleftrightarrow> a \<noteq> None \<and> a = b"

definition sql_le :: "int option \<Rightarrow> int \<Rightarrow> bool" where
  "sql_le a b \<longleftrightarrow> (case a of None \<Rightarrow> False | Some x \<Rightarrow> x \<le> b)"

definition sql_gt :: "int option \<Rightarrow> int \<Rightarrow> bool" where
  "sql_gt a b \<longleftrightarrow> (case a of None \<Rightarrow> False | Some x \<Rightarrow> b < x)"

definition sat_add :: "int \<Rightarrow> int \<Rightarrow> int" where
  "sat_add a b = max (- (2 ^ 63)) (min (2 ^ 63 - 1) (a + b))"

definition release :: "Effect \<Rightarrow> Effect" where
  "release e = e\<lparr>ef_lease_owner := None, ef_lease_expires_at := None\<rparr>"

section \<open>Enqueueing\<close>

definition new_row :: "string \<Rightarrow> string \<Rightarrow> string \<Rightarrow> EffectRequest \<Rightarrow> int \<Rightarrow> Effect" where
  "new_row i cmd thread r now = \<lparr>ef_id = i, ef_command_id = cmd, ef_thread_id = thread, ef_request = r,
     ef_status = EsPending, ef_attempt_count = 0, ef_available_at = now, ef_lease_owner = None,
     ef_lease_expires_at = None, ef_dispatch_started = False, ef_last_error = None,
     ef_completed_at = None\<rparr>"

section \<open>Claiming\<close>

definition live_in_lane :: "Effect \<Rightarrow> Effect \<Rightarrow> bool" where
  "live_in_lane c a \<longleftrightarrow> ef_thread_id a = ef_thread_id c \<and> lane (ef_request a) = lane (ef_request c)"

text \<open>\<open>NEXT_PENDING_EFFECT\<close>: the candidates in order of their ordinal, then the first of the least
  \<open>available_at\<close>.\<close>

definition candidate :: "Effect list \<Rightarrow> nat \<Rightarrow> bool" where
  "candidate rows i \<longleftrightarrow> ef_status (rows ! i) = EsPending \<and>
     \<not> (\<exists>a \<in> set rows. live_in_lane (rows ! i) a \<and> (ef_status a = EsRunning \<or> ef_status a = EsUncertain)) \<and>
     \<not> (\<exists>a \<in> set (take i rows). live_in_lane (rows ! i) a \<and> ef_status a = EsPending)"

fun first_min :: "Effect list \<Rightarrow> Effect option" where
  "first_min [] = None"
| "first_min (e # es) = (case first_min es of
     None \<Rightarrow> Some e
   | Some m \<Rightarrow> if ef_available_at m < ef_available_at e then Some m else Some e)"

definition candidates :: "Effect list \<Rightarrow> Effect list" where
  "candidates rows = map ((!) rows) (filter (candidate rows) [0..<length rows])"

definition next_pending :: "Effect list \<Rightarrow> Effect option" where
  "next_pending rows = first_min (candidates rows)"

definition expired :: "int \<Rightarrow> Effect \<Rightarrow> bool" where
  "expired now e \<longleftrightarrow> ef_status e = EsRunning \<and> sql_le (ef_lease_expires_at e) now"

definition expire_row :: "int \<Rightarrow> Effect \<Rightarrow> Effect" where
  "expire_row now e = (release e)\<lparr>
     ef_status := (if process_bound (ef_request e) \<and> ef_dispatch_started e then EsUncertain else EsPending),
     ef_available_at := now, ef_last_error := Some ''Effect lease expired.''\<rparr>"

definition expire_leases :: "int \<Rightarrow> Outbox \<Rightarrow> Outbox" where
  "expire_leases now = update_where (expired now) (expire_row now)"

definition claim_row :: "string \<Rightarrow> int \<Rightarrow> int \<Rightarrow> Effect \<Rightarrow> Effect" where
  "claim_row worker now lease_ms e = e\<lparr>ef_status := EsRunning,
     ef_attempt_count := ef_attempt_count e + 1, ef_lease_owner := Some worker,
     ef_lease_expires_at := Some (sat_add now (max lease_ms 1)), ef_dispatch_started := False\<rparr>"

definition claim_effect :: "string \<Rightarrow> int \<Rightarrow> int \<Rightarrow> Outbox \<Rightarrow> Outbox \<times> Effect option" where
  "claim_effect worker now lease_ms s =
     (let s1 = expire_leases now s in
      case next_pending (ob_rows s1) of
        None \<Rightarrow> (s1, None)
      | Some e \<Rightarrow>
          if ef_available_at e \<le> now
          then (let s2 = update_where (\<lambda>r. ef_id r = ef_id e) (claim_row worker now lease_ms) s1
                in (s2, effect (ef_id e) s2))
          else (s1, None))"

definition min_opt :: "int option \<Rightarrow> int option \<Rightarrow> int option" where
  "min_opt a b = (case (a, b) of (None, y) \<Rightarrow> y | (Some x, None) \<Rightarrow> Some x | (Some x, Some y) \<Rightarrow> Some (min x y))"

definition next_effect_wake :: "Outbox \<Rightarrow> int option" where
  "next_effect_wake s =
     min_opt (map_option ef_available_at (next_pending (ob_rows s)))
       (fold (\<lambda>e m. min_opt m (ef_lease_expires_at e))
          (filter (\<lambda>e. ef_status e = EsRunning) (ob_rows s)) None)"

section \<open>Settling a claim\<close>

text \<open>The claim a worker holds, on the row as it is now.\<close>

definition holds_claim :: "Effect \<Rightarrow> Effect \<Rightarrow> bool" where
  "holds_claim c e \<longleftrightarrow> ef_id e = ef_id c \<and> ef_status e = EsRunning \<and>
     sql_eq (ef_lease_owner e) (ef_lease_owner c) \<and> ef_attempt_count e = ef_attempt_count c"

definition begin_effect :: "Effect \<Rightarrow> int \<Rightarrow> Outbox \<Rightarrow> Outbox \<times> bool" where
  "begin_effect c now s =
     (let P = (\<lambda>e. holds_claim c e \<and> sql_gt (ef_lease_expires_at e) now \<and> \<not> ef_dispatch_started e)
      in (update_where P (\<lambda>e. e\<lparr>ef_dispatch_started := True\<rparr>) s, count_where P s = 1))"

datatype EffectOutcome = OcSucceeded | OcRetry | OcFailed | OcUncertain

definition retry_delay_ms :: "nat \<Rightarrow> int" where
  "retry_delay_ms n = min (min (2 ^ 63 - 1) (100 * 2 ^ min (n - 1) 20)) 30000"

definition outcome_row :: "EffectOutcome \<Rightarrow> nat \<Rightarrow> nat \<Rightarrow> int \<Rightarrow> EffectStatus \<times> int \<times> string option" where
  "outcome_row outcome attempts max_attempts now = (case outcome of
     OcSucceeded \<Rightarrow> (EsSucceeded, now, None)
   | OcUncertain \<Rightarrow> (EsUncertain, now, Some ''External acceptance is uncertain.'')
   | OcFailed \<Rightarrow> (EsFailed, now, Some ''Effect execution failed.'')
   | OcRetry \<Rightarrow>
       if attempts < max max_attempts 1
       then (EsPending, sat_add now (retry_delay_ms attempts), Some ''Retryable effect execution failure.'')
       else (EsFailed, now, Some ''Effect retry budget exhausted.''))"

definition confirmed :: "string \<Rightarrow> Outbox \<Rightarrow> bool" where
  "confirmed i s \<longleftrightarrow> i \<in> set (ob_accepted s)"

definition settle_row :: "EffectStatus \<Rightarrow> int \<Rightarrow> string option \<Rightarrow> int \<Rightarrow> Effect \<Rightarrow> Effect" where
  "settle_row st available err now e = (release e)\<lparr>ef_status := st, ef_available_at := available,
     ef_last_error := err,
     ef_completed_at := (if st = EsSucceeded \<or> st = EsFailed then Some now else None)\<rparr>"

definition finish_effect :: "Effect \<Rightarrow> EffectOutcome \<Rightarrow> int \<Rightarrow> nat \<Rightarrow> Outbox \<Rightarrow> Outbox \<times> bool" where
  "finish_effect c outcome now max_attempts s =
     (case outcome_row outcome (ef_attempt_count c) max_attempts now of (st, available, err) \<Rightarrow>
        (let (st, err) = (if is_steer (ef_request c) \<and> confirmed (ef_id c) s then (EsSucceeded, None)
                          else (st, err));
             P = (\<lambda>e. holds_claim c e \<and> sql_gt (ef_lease_expires_at e) now)
         in (update_where P (settle_row st available err now) s, count_where P s = 1)))"

definition cancel_row :: "int \<Rightarrow> string \<Rightarrow> Effect \<Rightarrow> Effect" where
  "cancel_row now why e = (release e)\<lparr>ef_status := EsCancelled, ef_completed_at := Some now,
     ef_last_error := Some why\<rparr>"

definition cancel_effect :: "string \<Rightarrow> int \<Rightarrow> Outbox \<Rightarrow> Outbox \<times> bool" where
  "cancel_effect i now s =
     (let P = (\<lambda>e. ef_id e = i \<and> ef_status e \<in> {EsPending, EsRunning, EsUncertain})
      in (update_where P (cancel_row now ''Cancelled by owner.'') s, count_where P s = 1))"

definition cancel_process :: "string \<Rightarrow> int \<Rightarrow> Outbox \<Rightarrow> Outbox \<times> string list" where
  "cancel_process thread now s =
     (let P = (\<lambda>e. ef_thread_id e = thread \<and> process_bound (ef_request e) \<and>
            (ef_status e \<in> {EsPending, EsRunning} \<or> is_steer (ef_request e) \<and> ef_status e = EsUncertain))
      in (update_where P (cancel_row now ''Process work retired by owner.'') s,
          map ef_id (filter P (ob_rows s))))"

definition abandon_effect :: "Effect \<Rightarrow> int \<Rightarrow> Outbox \<Rightarrow> Outbox \<times> bool" where
  "abandon_effect c now s =
     (if is_steer (ef_request c) \<and> confirmed (ef_id c) s
      then (update_where (holds_claim c)
              (\<lambda>e. (release e)\<lparr>ef_status := EsSucceeded, ef_completed_at := Some now, ef_last_error := None\<rparr>) s,
            count_where (holds_claim c) s = 1)
      else (update_where (holds_claim c)
              (\<lambda>e. (release e)\<lparr>ef_status := (if process_bound (ef_request e) then EsUncertain else EsPending),
                 ef_available_at := now, ef_last_error := Some ''Worker lost lease after dispatch.''\<rparr>) s,
            count_where (holds_claim c) s = 1))"

definition resolve_uncertain :: "string \<Rightarrow> bool \<Rightarrow> int \<Rightarrow> Outbox \<Rightarrow> Outbox \<times> bool" where
  "resolve_uncertain i accepted now s =
     (let P = (\<lambda>e. ef_id e = i \<and> ef_status e = EsUncertain)
      in (update_where P (\<lambda>e. e\<lparr>ef_status := (if accepted then EsSucceeded else EsCancelled),
            ef_completed_at := Some now\<rparr>) s, count_where P s = 1))"

section \<open>A worker's step\<close>

text \<open>What happened while the claim was executed: it was cancelled, the executor answered, or the
  lease ran out first.\<close>

datatype Execution = ExCancelled | ExOutcome EffectOutcome | ExTimeout

definition execution_outcome :: "EffectRequest \<Rightarrow> Execution \<Rightarrow> EffectOutcome option" where
  "execution_outcome r x = (case x of
     ExCancelled \<Rightarrow> None
   | ExOutcome oc \<Rightarrow> Some oc
   | ExTimeout \<Rightarrow> Some (if process_bound r then OcUncertain else OcRetry))"

text \<open>The end of \<open>EffectWorker::step\<close>, at the time the execution completed. \<open>None\<close> is the error
  \<open>worker lost its effect lease\<close>.\<close>

definition settle_execution :: "Effect \<Rightarrow> Execution \<Rightarrow> int \<Rightarrow> nat \<Rightarrow> Outbox \<Rightarrow> Outbox option" where
  "settle_execution c x completed_at max_attempts s =
     (case execution_outcome (ef_request c) x of
        None \<Rightarrow> Some s
      | Some oc \<Rightarrow>
          (case finish_effect c oc completed_at max_attempts s of (s1, ok) \<Rightarrow>
             if ok then Some s1
             else if map_option ef_status (effect (ef_id c) s1) = Some EsCancelled then Some s1
             else (case abandon_effect c completed_at s1 of (s2, ok2) \<Rightarrow> if ok2 then Some s2 else None)))"

section \<open>Receipts and recovery\<close>

text \<open>The write of \<open>steering::confirm\<close> once the receipt has been matched.\<close>

definition record_acceptance :: "string \<Rightarrow> int \<Rightarrow> Outbox \<Rightarrow> Outbox" where
  "record_acceptance i now s =
     update_where (\<lambda>e. ef_id e = i \<and> ef_status e = EsUncertain)
       (\<lambda>e. e\<lparr>ef_status := EsSucceeded, ef_completed_at := Some now, ef_last_error := None\<rparr>)
       (s\<lparr>ob_accepted := (if i \<in> set (ob_accepted s) then ob_accepted s else ob_accepted s @ [i])\<rparr>)"

definition recover_receipts :: "int \<Rightarrow> Outbox \<Rightarrow> Outbox" where
  "recover_receipts now s =
     update_where (\<lambda>e. is_steer (ef_request e) \<and> ef_status e \<in> {EsRunning, EsUncertain} \<and> confirmed (ef_id e) s)
       (\<lambda>e. (release e)\<lparr>ef_status := EsSucceeded, ef_completed_at := Some now, ef_last_error := None\<rparr>) s"

definition recover_uncertain :: "Outbox \<Rightarrow> Outbox" where
  "recover_uncertain =
     update_where (\<lambda>e. ef_status e = EsRunning \<and> process_bound (ef_request e) \<and> ef_dispatch_started e)
       (\<lambda>e. (release e)\<lparr>ef_status := EsUncertain, ef_last_error := Some ''Process lost after dispatch began.''\<rparr>)"

definition recover_retire :: "int \<Rightarrow> Outbox \<Rightarrow> Outbox" where
  "recover_retire now =
     update_where (\<lambda>e. process_bound (ef_request e) \<and> ef_status e \<in> {EsPending, EsRunning})
       (cancel_row now ''Process work retired on startup.'')"

definition recover_steering :: "int \<Rightarrow> Outbox \<Rightarrow> Outbox" where
  "recover_steering now =
     update_where (\<lambda>e. is_steer (ef_request e) \<and> ef_status e = EsUncertain)
       (\<lambda>e. e\<lparr>ef_status := EsCancelled, ef_completed_at := Some now,
          ef_last_error := Some ''Unconfirmed steering retained on startup.''\<rparr>)"

definition recover_requeue :: "int \<Rightarrow> Outbox \<Rightarrow> Outbox" where
  "recover_requeue now =
     update_where (\<lambda>e. ef_status e = EsRunning \<and> \<not> process_bound (ef_request e))
       (\<lambda>e. (release e)\<lparr>ef_status := EsPending, ef_dispatch_started := False, ef_available_at := now,
          ef_last_error := Some ''Replay-safe work requeued on startup.''\<rparr>)"

definition recover_effects :: "int \<Rightarrow> Outbox \<Rightarrow> Outbox" where
  "recover_effects now s =
     (recover_requeue now (recover_steering now (recover_retire now (recover_uncertain (recover_receipts now s)))))
       \<lparr>ob_targets := [], ob_epoch := ob_epoch s + 1\<rparr>"

section \<open>Waking up\<close>

definition REPAIR_INTERVAL :: int where "REPAIR_INTERVAL = 30000"

definition effect_delay :: "int option \<Rightarrow> int \<Rightarrow> int" where
  "effect_delay deadline now =
     min (case deadline of None \<Rightarrow> REPAIR_INTERVAL | Some d \<Rightarrow> max (sat_add d (- now)) 0) REPAIR_INTERVAL"

end
