(* ===== verification/Steering.thy ===== *)
theory Steering
  imports Effect_Outbox
begin

text \<open>
  Steering a live turn (\<open>steering.rs\<close>) and admitting stops (\<open>controls.rs\<close>): which run a request
  targets, which runtime it was admitted for, what counts as proof that a steering message was
  told, and enqueueing an effect, which calls all of these.
\<close>

section \<open>Targets\<close>

text \<open>The target of a run, without its runtime.\<close>

definition for_run :: "Run \<Rightarrow> RuntimeTarget option" where
  "for_run r = do {
     a \<leftarrow> rn_active_attempt_id r;
     n \<leftarrow> rn_root_node_id r;
     t \<leftarrow> rn_provider_thread_id r;
     Some \<lparr>rt_run_id = rn_id r, rt_attempt_id = a, rt_root_node_id = n, rt_provider_thread_id = t,
       rt_runtime_id = None\<rparr>}"

definition bind_runtime :: "string \<Rightarrow> RuntimeTarget \<Rightarrow> string \<Rightarrow> Outbox \<Rightarrow> Outbox" where
  "bind_runtime thread t runtime s =
     s\<lparr>ob_targets := oinsert thread (t\<lparr>rt_runtime_id := Some runtime\<rparr>) (ob_targets s)\<rparr>"

definition runtime_id :: "string \<Rightarrow> RuntimeTarget \<Rightarrow> Outbox \<Rightarrow> string option" where
  "runtime_id thread t s = (case map_of (ob_targets s) thread of
     Some q \<Rightarrow> if q\<lparr>rt_runtime_id := None\<rparr> = t\<lparr>rt_runtime_id := None\<rparr> then rt_runtime_id q else None
   | None \<Rightarrow> None)"

definition admitted_runtime :: "string \<Rightarrow> Outbox \<Rightarrow> string option" where
  "admitted_runtime i s = Option.bind (map_of (ob_inputs s) i) (\<lambda>r. r)"

definition steer_target :: "ThreadProjection \<Rightarrow> EffectRequest \<Rightarrow> (Run \<times> json) option" where
  "steer_target p r = (case r of
     ProviderTurnSteer session pthread turn_id msg \<Rightarrow>
       if closed_thread p then None
       else do {
         message \<leftarrow> List.find (\<lambda>m. field_is m ''id'' msg) (records p ''message'');
         turn \<leftarrow> List.find (\<lambda>t. field_is t ''id'' turn_id \<and> field_is t ''providerThreadId'' pthread)
           (records p ''provider-turn'');
         run \<leftarrow> List.find (\<lambda>r. field_is message ''runId'' (rn_id r) \<and> rn_provider_thread_id r = Some pthread \<and>
             pred_option (field_is turn ''runAttemptId'') (rn_active_attempt_id r) \<and> rn_active_attempt_id r \<noteq> None \<and>
             pred_option (\<lambda>n. field_is turn ''nodeId'' n \<and> field_is message ''nodeId'' n) (rn_root_node_id r) \<and>
             rn_root_node_id r \<noteq> None) (tpj_runs p);
         _ \<leftarrow> List.find (\<lambda>a. Some (at_id a) = rn_active_attempt_id run \<and> at_run_id a = rn_id run \<and>
             Some (at_root_node_id a) = rn_root_node_id run \<and> at_provider_thread_id a = pthread \<and>
             at_provider_turn_id a = Some turn_id) (tpj_attempts p);
         _ \<leftarrow> List.find (\<lambda>q. field_is q ''id'' pthread \<and> field_is q ''providerSessionId'' session \<and>
             field_is q ''providerInstanceId'' (rn_provider_instance_id run) \<and>
             json_index q ''lastRunOrdinal'' = JInt (rn_ordinal run)) (records p ''provider-thread'');
         Some (run, turn)}
   | _ \<Rightarrow> None)"

section \<open>Receipts\<close>

definition confirm :: "ThreadProjection \<Rightarrow> Effect \<Rightarrow> int \<Rightarrow> Outbox \<Rightarrow> Outbox \<times> bool" where
  "confirm p e now s = (case steer_target p (ef_request e) of
     None \<Rightarrow> (s, False)
   | Some (run, _) \<Rightarrow>
       if map_of (ob_inputs s) (ef_id e) = None then (s, False)
       else (case (for_run run, admitted_runtime (ef_id e) s) of
          (Some t, Some expected) \<Rightarrow>
            if runtime_id (ef_thread_id e) t s \<noteq> Some expected then (s, False)
            else (record_acceptance (ef_id e) now s, True)
        | _ \<Rightarrow> (s, False)))"

definition steer_message :: "EffectRequest \<Rightarrow> string option" where
  "steer_message r = (case r of ProviderTurnSteer _ _ _ m \<Rightarrow> Some m | _ \<Rightarrow> None)"

definition accept_input :: "ThreadProjection \<Rightarrow> string \<Rightarrow> string \<Rightarrow> string \<Rightarrow> int \<Rightarrow> Outbox \<Rightarrow> Outbox" where
  "accept_input p run attempt msg now s =
     fold (\<lambda>i s. case effect i s of
         None \<Rightarrow> s
       | Some e \<Rightarrow>
           if (case steer_target p (ef_request e) of
                 Some (r, _) \<Rightarrow> rn_id r = run \<and> rn_active_attempt_id r = Some attempt | None \<Rightarrow> False)
           then fst (confirm p e now s) else s)
       (map ef_id (filter (\<lambda>e. ef_thread_id e = th_id (tpj_thread p) \<and> ef_dispatch_started e \<and>
          steer_message (ef_request e) = Some msg) (ob_rows s))) s"

text \<open>The steering messages a later turn must repeat: those of a finished earlier run of the same
  provider thread whose effect failed, was cancelled or is uncertain, without a receipt.\<close>

definition unconfirmed_candidates :: "ThreadProjection \<Rightarrow> Run \<Rightarrow> Outbox \<Rightarrow> string list" where
  "unconfirmed_candidates p run s = List.map_filter (\<lambda>e. case ef_request e of
       ProviderTurnSteer _ pthread _ m \<Rightarrow>
         if ef_thread_id e = th_id (tpj_thread p) \<and> rn_provider_thread_id run = Some pthread \<and>
            ef_status e \<in> {EsFailed, EsCancelled, EsUncertain} \<and> map_of (ob_inputs s) (ef_id e) \<noteq> None \<and>
            \<not> confirmed (ef_id e) s
         then Some m else None
     | _ \<Rightarrow> None) (ob_rows s)"

definition unconfirmed_messages :: "ThreadProjection \<Rightarrow> Run \<Rightarrow> Outbox \<Rightarrow> string set" where
  "unconfirmed_messages p run s = set (filter (\<lambda>i.
     case List.find (\<lambda>m. field_is m ''id'' i) (records p ''message'') of
       None \<Rightarrow> False
     | Some m \<Rightarrow> \<exists>source \<in> set (tpj_runs p). field_is m ''runId'' (rn_id source) \<and> rn_ordinal source < rn_ordinal run \<and>
         rn_provider_thread_id source = rn_provider_thread_id run \<and> run_terminal (rn_status source) \<and>
         rn_status source \<noteq> RsRolledBack) (unconfirmed_candidates p run s))"

section \<open>Retiring a predecessor's barrier\<close>

definition previous_over :: "ThreadProjection \<Rightarrow> Run \<Rightarrow> string \<Rightarrow> bool" where
  "previous_over p run msg =
     (case Option.bind (List.find (\<lambda>m. field_is m ''id'' msg) (records p ''message''))
        (\<lambda>m. List.find (\<lambda>r. field_is m ''runId'' (rn_id r)) (tpj_runs p)) of
      None \<Rightarrow> False
    | Some q \<Rightarrow> rn_ordinal q < rn_ordinal run \<and> run_terminal (rn_status q))"

definition retire_one :: "ThreadProjection \<Rightarrow> Run \<Rightarrow> int \<Rightarrow> string \<times> string \<Rightarrow> Outbox \<Rightarrow> Outbox" where
  "retire_one p run now c s = (if \<not> previous_over p run (snd c) then s
     else update_where (\<lambda>e. ef_id e = fst c \<and> ef_status e = EsUncertain)
       (\<lambda>e. e\<lparr>ef_status := EsCancelled, ef_completed_at := Some now,
          ef_last_error := Some ''Unconfirmed steering retained for explicit follow-up.''\<rparr>) s)"

definition retire_for_start :: "ThreadProjection option \<Rightarrow> string \<Rightarrow> string \<Rightarrow> int \<Rightarrow> Outbox \<Rightarrow> Outbox" where
  "retire_for_start po thread run_id' now s = (case po of
     None \<Rightarrow> s
   | Some p \<Rightarrow> (case List.find (\<lambda>r. rn_id r = run_id') (tpj_runs p) of
       None \<Rightarrow> s
     | Some run \<Rightarrow> fold (retire_one p run now)
         (List.map_filter (\<lambda>e. if ef_thread_id e = thread \<and> ef_status e = EsUncertain
            then map_option (Pair (ef_id e)) (steer_message (ef_request e)) else None) (ob_rows s)) s))"

section \<open>Control targets\<close>

definition attempt_target :: "Run \<Rightarrow> RunAttempt \<Rightarrow> RuntimeTarget" where
  "attempt_target run a = \<lparr>rt_run_id = rn_id run, rt_attempt_id = at_id a,
     rt_root_node_id = at_root_node_id a, rt_provider_thread_id = at_provider_thread_id a,
     rt_runtime_id = None\<rparr>"

text \<open>Stopping or restarting one exact turn.\<close>

definition turn_target ::
  "ThreadProjection \<Rightarrow> string \<Rightarrow> string \<Rightarrow> string \<Rightarrow> (string \<times> string) option \<Rightarrow> ControlTarget option" where
  "turn_target p session pthread turn_id restart = do {
     provider \<leftarrow> List.find (\<lambda>r. field_is r ''id'' pthread \<and> field_is r ''providerSessionId'' session)
       (records p ''provider-thread'');
     turn \<leftarrow> List.find (\<lambda>t. field_is t ''id'' turn_id \<and> field_is t ''providerThreadId'' pthread)
       (records p ''provider-turn'');
     a \<leftarrow> List.find (\<lambda>a. field_is turn ''runAttemptId'' (at_id a) \<and> field_is turn ''nodeId'' (at_root_node_id a) \<and>
         at_provider_thread_id a = pthread \<and> at_provider_turn_id a = Some turn_id) (tpj_attempts p);
     run \<leftarrow> List.find (\<lambda>r. rn_id r = at_run_id a \<and>
         (restart \<noteq> None \<or> rn_provider_thread_id r = Some pthread) \<and>
         field_is provider ''providerInstanceId''
           (if restart \<noteq> None then at_provider_instance_id a else rn_provider_instance_id r) \<and>
         json_index provider ''lastRunOrdinal'' = JInt (rn_ordinal r)) (tpj_runs p);
     (case restart of
        Some (interrupted, rid) \<Rightarrow>
          if at_id a \<noteq> interrupted \<or> rn_id run \<noteq> rid then None
          else do {
            next \<leftarrow> List.find (\<lambda>n. Some (at_id n) = rn_active_attempt_id run \<and> at_run_id n = rn_id run \<and>
                Some (at_root_node_id n) = rn_root_node_id run \<and> at_reason n = ArSteeringRestart \<and>
                at_ordinal n = at_ordinal a + 1 \<and> Some (at_provider_thread_id n) = rn_provider_thread_id run \<and>
                at_provider_instance_id n = rn_provider_instance_id run) (tpj_attempts p);
            Some \<lparr>ct_runtime = attempt_target run a, ct_replacement_attempt_id = Some (at_id next)\<rparr>}
      | None \<Rightarrow>
          if rn_active_attempt_id run \<noteq> Some (at_id a) \<or> rn_root_node_id run \<noteq> Some (at_root_node_id a)
          then None
          else Some \<lparr>ct_runtime = attempt_target run a, ct_replacement_attempt_id = None\<rparr>)}"

definition control_target :: "ThreadProjection \<Rightarrow> EffectRequest \<Rightarrow> ControlTarget option" where
  "control_target p r = (case r of
     ManagedRunInterrupt rid \<Rightarrow> do {
       run \<leftarrow> List.find (\<lambda>r. rn_id r = rid) (tpj_runs p);
       a \<leftarrow> List.find (\<lambda>a. Some (at_id a) = rn_active_attempt_id run) (tpj_attempts p);
       Some \<lparr>ct_runtime = attempt_target run a, ct_replacement_attempt_id = None\<rparr>}
   | ProviderTurnInterrupt session pthread turn_id \<Rightarrow> turn_target p session pthread turn_id None
   | ProviderTurnRestart session pthread turn_id interrupted rid \<Rightarrow>
       turn_target p session pthread turn_id (Some (interrupted, rid))
   | _ \<Rightarrow> None)"

definition with_runtime :: "string option \<Rightarrow> ControlTarget \<Rightarrow> ControlTarget" where
  "with_runtime r t = t\<lparr>ct_runtime := (ct_runtime t)\<lparr>rt_runtime_id := r\<rparr>\<rparr>"

definition is_control :: "EffectRequest \<Rightarrow> bool" where
  "is_control r = (case r of ManagedRunInterrupt _ \<Rightarrow> True | ProviderTurnInterrupt _ _ _ \<Rightarrow> True
     | ProviderTurnRestart _ _ _ _ _ \<Rightarrow> True | _ \<Rightarrow> False)"

definition admit :: "ThreadProjection option \<Rightarrow> string \<Rightarrow> string \<Rightarrow> EffectRequest \<Rightarrow> Outbox \<Rightarrow> Outbox" where
  "admit po i thread r s = (if \<not> is_control r then s
     else s\<lparr>ob_controls := ob_controls s @ [(i,
       map_option (\<lambda>t. with_runtime (runtime_id thread (ct_runtime t) s) t)
         (Option.bind po (\<lambda>p. control_target p r)))]\<rparr>)"

definition saved_target :: "string \<Rightarrow> Outbox \<Rightarrow> ControlTarget option" where
  "saved_target i s = Option.bind (map_of (ob_controls s) i) (\<lambda>t. t)"

definition target_unresolved :: "string \<Rightarrow> Outbox \<Rightarrow> bool" where
  "target_unresolved i s \<longleftrightarrow> map_of (ob_controls s) i = Some None"

text \<open>Whether a stop may still settle its run: the effect is open, its target is what admission
  froze, and the runtime is the one it was admitted for.\<close>

definition may_settle :: "ThreadProjection \<Rightarrow> string \<Rightarrow> Outbox \<Rightarrow> bool" where
  "may_settle p i s = (case (effect i s, saved_target i s) of
     (Some e, Some saved) \<Rightarrow>
       ef_thread_id e = th_id (tpj_thread p) \<and> ef_status e \<in> {EsPending, EsRunning} \<and>
       (case ef_request e of ProviderTurnRestart _ _ _ _ _ \<Rightarrow> False | _ \<Rightarrow> True) \<and>
       control_target p (ef_request e) = Some (with_runtime None saved) \<and>
       runtime_id (th_id (tpj_thread p)) (ct_runtime saved) s = rt_runtime_id (ct_runtime saved)
   | _ \<Rightarrow> False)"

section \<open>Enqueueing\<close>

text \<open>The runtime a steering message is admitted for.\<close>

definition steer_runtime :: "ThreadProjection option \<Rightarrow> string \<Rightarrow> EffectRequest \<Rightarrow> Outbox \<Rightarrow> string option" where
  "steer_runtime po thread r s = do {
     p \<leftarrow> po;
     (run, _) \<leftarrow> steer_target p r;
     t \<leftarrow> for_run run;
     runtime_id thread t s}"

text \<open>\<open>None\<close> is the unique constraint on the effect's id.\<close>

definition enqueue ::
  "ThreadProjection option \<Rightarrow> string \<Rightarrow> string \<Rightarrow> string \<Rightarrow> EffectRequest \<Rightarrow> int \<Rightarrow> Outbox \<Rightarrow> Outbox option" where
  "enqueue po i cmd thread r now s =
     (let s1 = (case r of ProviderTurnStart rid \<Rightarrow> retire_for_start po thread rid now s | _ \<Rightarrow> s) in
      if effect i s1 \<noteq> None then None
      else (let s2 = s1\<lparr>ob_rows := ob_rows s1 @ [new_row i cmd thread r now]\<rparr> in
        Some (admit po i thread r
          (if is_steer r then s2\<lparr>ob_inputs := ob_inputs s2 @ [(i, steer_runtime po thread r s2)]\<rparr> else s2))))"

end
