(* ===== verification/Effect_Steps.thy ===== *)
theory Effect_Steps
  imports Steering
begin

text \<open>
  The outbox as a state machine. \<open>lane_step\<close> says what may happen to the rows: a row is appended,
  claimed, dispatched, given back for a retry, or quietly put to rest; \<open>effect_step\<close> is the calls of the
  code, made by any number of workers with any claims, old or forged. Every call is a sequence of
  lane steps, so the invariants of the lanes are invariants of the outbox.
\<close>

section \<open>Row transitions\<close>

definition terminal_row :: "Effect \<Rightarrow> bool" where
  "terminal_row e \<longleftrightarrow> ef_status e \<in> {EsSucceeded, EsFailed, EsCancelled}"

definition active_row :: "Effect \<Rightarrow> bool" where
  "active_row e \<longleftrightarrow> ef_status e \<in> {EsRunning, EsUncertain}"

definition same_key :: "Effect \<Rightarrow> Effect \<Rightarrow> bool" where
  "same_key e e' \<longleftrightarrow> ef_id e' = ef_id e \<and> ef_thread_id e' = ef_thread_id e \<and> ef_request e' = ef_request e"

text \<open>A row moves towards rest: it ends, or its acceptance becomes uncertain, or it is given back
  without having been dispatched (or, if it is not bound to a process, at any time).\<close>

definition quiet :: "Effect \<Rightarrow> Effect \<Rightarrow> bool" where
  "quiet e e' \<longleftrightarrow> same_key e e' \<and> ef_attempt_count e' = ef_attempt_count e \<and>
     (e' = e \<or> terminal_row e' \<and> (terminal_row e \<longrightarrow> ef_status e' = ef_status e) \<or>
      ef_status e' = EsUncertain \<and> active_row e \<or>
      ef_status e' = EsPending \<and> ef_status e = EsRunning \<and>
        (process_bound (ef_request e) \<longrightarrow> \<not> ef_dispatch_started e))"

lemma quiet_refl [simp]: "quiet e e"
  by (simp add: quiet_def same_key_def)

lemma quiet_cases:
  assumes "quiet e e'"
  obtains (Same) "e' = e"
  | (Ends) "terminal_row e'" "terminal_row e \<Longrightarrow> ef_status e' = ef_status e"
  | (Loses) "ef_status e' = EsUncertain" "active_row e"
  | (Back) "ef_status e' = EsPending" "ef_status e = EsRunning"
      "process_bound (ef_request e) \<Longrightarrow> \<not> ef_dispatch_started e"
  using assms unfolding quiet_def by metis

lemma quiet_key: "quiet e e' \<Longrightarrow> same_key e e' \<and> ef_attempt_count e' = ef_attempt_count e"
  by (simp add: quiet_def)

lemma row_states:
  "terminal_row e \<Longrightarrow> ef_status e \<noteq> EsPending \<and> ef_status e \<noteq> EsRunning \<and> ef_status e \<noteq> EsUncertain"
  "ef_status e = EsPending \<Longrightarrow> \<not> terminal_row e \<and> \<not> active_row e"
  "ef_status e = EsRunning \<Longrightarrow> \<not> terminal_row e \<and> active_row e"
  "ef_status e = EsUncertain \<Longrightarrow> \<not> terminal_row e \<and> active_row e"
  "active_row e \<Longrightarrow> \<not> terminal_row e"
  by (auto simp: terminal_row_def active_row_def)

lemma quiet_terminal: "quiet e e' \<Longrightarrow> terminal_row e \<Longrightarrow> terminal_row e'"
  by (erule quiet_cases) (use row_states in metis)+

lemma quiet_trans:
  assumes ab: "quiet a b" and bc: "quiet b c"
  shows "quiet a c"
proof -
  have k: "same_key a c" "ef_attempt_count c = ef_attempt_count a"
    using quiet_key [OF ab] quiet_key [OF bc] by (simp_all add: same_key_def)
  have eq: "ef_request b = ef_request a" using quiet_key [OF ab] by (simp add: same_key_def)
  from bc show ?thesis
  proof (cases rule: quiet_cases)
    case Same then show ?thesis using ab by simp
  next
    case Ends
    have "ef_status c = ef_status a" if "terminal_row a"
      using ab
    proof (cases rule: quiet_cases)
      case Ends2: Ends
      then show ?thesis using Ends that by simp
    qed (use that Ends row_states in metis)+
    then show ?thesis using Ends k by (simp add: quiet_def)
  next
    case Loses
    have "active_row a" using ab
      by (cases rule: quiet_cases) (use Loses row_states in metis)+
    then show ?thesis using Loses k by (simp add: quiet_def)
  next
    case Back
    have "b = a" using ab
      by (cases rule: quiet_cases) (use Back in \<open>simp_all add: terminal_row_def\<close>)
    then show ?thesis using bc by simp
  qed
qed

lemma quiet_list_refl [simp]: "list_all2 quiet rows rows"
  by (simp add: list_all2_same)

lemma quiet_list_trans: "list_all2 quiet a b \<Longrightarrow> list_all2 quiet b c \<Longrightarrow> list_all2 quiet a c"
  by (rule list_all2_trans [OF quiet_trans])

section \<open>The abstract machine\<close>

datatype ef_event = EvClaim string nat | EvDispatch string nat | EvRetry string nat

inductive lane_step :: "nat \<Rightarrow> Effect list \<times> ef_event list \<Rightarrow> Effect list \<times> ef_event list \<Rightarrow> bool"
  for m :: nat where
  Rest: "list_all2 quiet rows rows' \<Longrightarrow> lane_step m (rows, l) (rows', l)"
| Append: "ef_id e \<notin> set (map ef_id rows) \<Longrightarrow> ef_status e = EsPending \<Longrightarrow> ef_attempt_count e = 0 \<Longrightarrow>
    lane_step m (rows, l) (rows @ [e], l)"
| Claim: "ef_status e = EsPending \<Longrightarrow> \<forall>a \<in> set us. live_in_lane e a \<longrightarrow> terminal_row a \<Longrightarrow>
    same_key e e' \<Longrightarrow> ef_attempt_count e' = ef_attempt_count e + 1 \<Longrightarrow> ef_status e' = EsRunning \<Longrightarrow>
    \<not> ef_dispatch_started e' \<Longrightarrow>
    lane_step m (us @ e # vs, l) (us @ e' # vs, l @ [EvClaim (ef_id e) (ef_attempt_count e')])"
| Begin: "ef_status e = EsRunning \<Longrightarrow> \<not> ef_dispatch_started e \<Longrightarrow>
    lane_step m (us @ e # vs, l)
      (us @ e\<lparr>ef_dispatch_started := True\<rparr> # vs, l @ [EvDispatch (ef_id e) (ef_attempt_count e)])"
| Retry: "ef_status e = EsRunning \<Longrightarrow> ef_attempt_count e < max m 1 \<Longrightarrow> same_key e e' \<Longrightarrow>
    ef_attempt_count e' = ef_attempt_count e \<Longrightarrow> ef_status e' = EsPending \<Longrightarrow>
    lane_step m (us @ e # vs, l) (us @ e' # vs, l @ [EvRetry (ef_id e) (ef_attempt_count e)])"

abbreviation lane_steps :: "nat \<Rightarrow> Effect list \<times> ef_event list \<Rightarrow> Effect list \<times> ef_event list \<Rightarrow> bool" where
  "lane_steps m \<equiv> (lane_step m)\<^sup>*\<^sup>*"

section \<open>The invariant of the lanes\<close>

definition waits_for :: "Effect \<Rightarrow> Effect \<Rightarrow> bool" where
  "waits_for a b \<longleftrightarrow> (live_in_lane a b \<and> 0 < ef_attempt_count b \<longrightarrow> terminal_row a)"

definition dispatches :: "string \<Rightarrow> ef_event list \<Rightarrow> nat" where
  "dispatches i l = length (filter (\<lambda>ev. case ev of EvDispatch j _ \<Rightarrow> j = i | _ \<Rightarrow> False) l)"

definition retries :: "string \<Rightarrow> ef_event list \<Rightarrow> nat" where
  "retries i l = length (filter (\<lambda>ev. case ev of EvRetry j _ \<Rightarrow> j = i | _ \<Rightarrow> False) l)"

lemma count_simps [simp]:
  "dispatches i [] = 0" "retries i [] = 0"
  "dispatches i (l @ [EvClaim j n]) = dispatches i l" "retries i (l @ [EvClaim j n]) = retries i l"
  "dispatches i (l @ [EvDispatch j n]) = dispatches i l + (if j = i then 1 else 0)"
  "retries i (l @ [EvDispatch j n]) = retries i l"
  "dispatches i (l @ [EvRetry j n]) = dispatches i l"
  "retries i (l @ [EvRetry j n]) = retries i l + (if j = i then 1 else 0)"
  by (simp_all add: dispatches_def retries_def)

text \<open>What the log says of one row.\<close>

definition row_inv :: "nat \<Rightarrow> ef_event list \<Rightarrow> Effect \<Rightarrow> bool" where
  "row_inv m l e \<longleftrightarrow>
     (active_row e \<longrightarrow> 0 < ef_attempt_count e) \<and>
     (\<forall>n. EvClaim (ef_id e) n \<in> set l \<longrightarrow> n \<le> ef_attempt_count e) \<and>
     (\<forall>n. EvDispatch (ef_id e) n \<in> set l \<longrightarrow> n \<le> ef_attempt_count e \<and>
        (n = ef_attempt_count e \<longrightarrow> ef_dispatch_started e \<or> ef_status e \<noteq> EsRunning)) \<and>
     (\<forall>n. EvRetry (ef_id e) n \<in> set l \<longrightarrow> n \<le> ef_attempt_count e \<and> 0 < n \<and> n < max m 1 \<and>
        (n = ef_attempt_count e \<longrightarrow> ef_status e \<noteq> EsRunning)) \<and>
     (process_bound (ef_request e) \<longrightarrow> dispatches (ef_id e) l \<le> retries (ef_id e) l + 1 \<and>
        (ef_status e = EsPending \<or> ef_status e = EsRunning \<and> \<not> ef_dispatch_started e \<longrightarrow>
           dispatches (ef_id e) l \<le> retries (ef_id e) l))"

fun event_id :: "ef_event \<Rightarrow> string" where
  "event_id (EvClaim i n) = i"
| "event_id (EvDispatch i n) = i"
| "event_id (EvRetry i n) = i"

definition lane_inv :: "nat \<Rightarrow> Effect list \<times> ef_event list \<Rightarrow> bool" where
  "lane_inv m st \<longleftrightarrow> (case st of (rows, l) \<Rightarrow>
     distinct (map ef_id rows) \<and> sorted_wrt waits_for rows \<and> (\<forall>e \<in> set rows. row_inv m l e) \<and>
     distinct l \<and> (\<forall>ev \<in> set l. event_id ev \<in> set (map ef_id rows)))"

lemma row_inv_quiet:
  assumes r: "row_inv m l e" and q: "quiet e e'"
  shows "row_inv m l e'"
proof -
  have k: "ef_id e' = ef_id e" "ef_request e' = ef_request e" "ef_attempt_count e' = ef_attempt_count e"
    using quiet_key [OF q] by (simp_all add: same_key_def)
  from q show ?thesis
  proof (cases rule: quiet_cases)
    case Same then show ?thesis using r by simp
  next
    case Ends
    then have "\<not> active_row e'" "ef_status e' \<noteq> EsPending" "ef_status e' \<noteq> EsRunning"
      using row_states by metis+
    then show ?thesis using r unfolding row_inv_def k by blast
  next
    case Loses
    then have "active_row e'" "ef_status e' \<noteq> EsPending" "ef_status e' \<noteq> EsRunning" by (simp_all add: active_row_def)
    then show ?thesis using r Loses unfolding row_inv_def k by blast
  next
    case Back
    then have "\<not> active_row e'" "ef_status e' \<noteq> EsRunning" by (simp_all add: active_row_def)
    then show ?thesis using r Back unfolding row_inv_def k by blast
  qed
qed

lemma same_lane: "same_key a a' \<Longrightarrow> same_key b b' \<Longrightarrow> live_in_lane a' b' = live_in_lane a b"
  by (simp add: same_key_def live_in_lane_def)

lemma waits_quiet:
  assumes w: "waits_for a b" and a: "quiet a a'" and b: "quiet b b'"
  shows "waits_for a' b'"
proof -
  have "live_in_lane a' b' = live_in_lane a b" using quiet_key [OF a] quiet_key [OF b] same_lane by blast
  moreover have "ef_attempt_count b' = ef_attempt_count b" using quiet_key [OF b] by blast
  ultimately show ?thesis using w quiet_terminal [OF a] unfolding waits_for_def by simp
qed

lemma quiet_member:
  assumes "list_all2 quiet rows rows'" "e' \<in> set rows'"
  obtains e where "e \<in> set rows" "quiet e e'"
  using assms by (metis in_set_conv_nth list_all2_conv_all_nth)

lemma sorted_quiet: "list_all2 quiet rows rows' \<Longrightarrow> sorted_wrt waits_for rows \<Longrightarrow> sorted_wrt waits_for rows'"
proof (induction rule: list_all2_induct)
  case (Cons a as b bs)
  have "waits_for b y" if y: "y \<in> set bs" for y
  proof -
    obtain x where "x \<in> set as" "quiet x y" using quiet_member [OF Cons.hyps(2) y] .
    moreover have "waits_for a x" using Cons.prems calculation(1) by simp
    ultimately show ?thesis using waits_quiet [OF _ Cons.hyps(1)] by blast
  qed
  then show ?case using Cons by simp
qed simp

lemma quiet_ids: "list_all2 quiet rows rows' \<Longrightarrow> map ef_id rows' = map ef_id rows"
  by (induction rule: list_all2_induct) (auto simp: quiet_def same_key_def)

text \<open>Events of other rows do not matter.\<close>

lemma row_inv_other: "row_inv m l e \<Longrightarrow> event_id ev \<noteq> ef_id e \<Longrightarrow> row_inv m (l @ [ev]) e"
  by (cases ev) (auto simp: row_inv_def)

lemma lane_inv_replace:
  assumes inv: "lane_inv m (us @ e # vs, l)" and k: "same_key e e'"
    and w: "0 < ef_attempt_count e' \<longrightarrow> (\<forall>a \<in> set us. live_in_lane e a \<longrightarrow> terminal_row a)"
    and t: "terminal_row e \<longrightarrow> terminal_row e'"
    and ev: "event_id ev = ef_id e" "ev \<notin> set l" and r: "row_inv m (l @ [ev]) e'"
  shows "lane_inv m (us @ e' # vs, l @ [ev])"
proof -
  have id: "ef_id e' = ef_id e" and lane: "live_in_lane a e' = live_in_lane a e" "live_in_lane e' a = live_in_lane e a"
      "live_in_lane a e = live_in_lane e a" for a
    using k by (auto simp: same_key_def live_in_lane_def)
  have d: "distinct (map ef_id (us @ e # vs))" and s: "sorted_wrt waits_for (us @ e # vs)"
      and rs: "\<forall>x \<in> set (us @ e # vs). row_inv m l x"
      and l: "distinct l" "\<forall>x \<in> set l. event_id x \<in> set (map ef_id (us @ e # vs))"
    using inv unfolding lane_inv_def prod.case by blast+
  have "row_inv m (l @ [ev]) x" if "x \<in> set us \<union> set vs" for x
  proof (rule row_inv_other)
    show "row_inv m l x" using rs that by auto
    show "event_id ev \<noteq> ef_id x" using d that ev(1) by (auto dest: image_eqI)
  qed
  moreover have "sorted_wrt waits_for (us @ e' # vs)"
    using s w t lane by (auto simp: sorted_wrt_append waits_for_def)
  moreover have ids: "map ef_id (us @ e' # vs) = map ef_id (us @ e # vs)" using id by simp
  moreover have "\<forall>x \<in> set (l @ [ev]). event_id x \<in> set (map ef_id (us @ e # vs))" using l(2) ev(1) by auto
  ultimately show ?thesis
    unfolding lane_inv_def prod.case ids using d l(1) r ev(2) by simp
qed

lemma lane_step_inv: "lane_step m st st' \<Longrightarrow> lane_inv m st \<Longrightarrow> lane_inv m st'"
proof (induction rule: lane_step.induct)
  case (Rest rows rows' l)
  have "row_inv m l e'" if "e' \<in> set rows'" for e'
    using quiet_member [OF Rest(1) that] Rest(2) row_inv_quiet by (metis (mono_tags, lifting) case_prod_conv lane_inv_def)
  then show ?case using Rest sorted_quiet by (simp add: lane_inv_def quiet_ids del: set_map)
next
  case (Append e rows l)
  have n: "EvClaim (ef_id e) n \<notin> set l" "EvDispatch (ef_id e) n \<notin> set l" "EvRetry (ef_id e) n \<notin> set l" for n
    using Append by (force simp: lane_inv_def)+
  then have "dispatches (ef_id e) l = 0"
    by (auto simp: dispatches_def filter_empty_conv split: ef_event.split)
  then have "row_inv m l e" using Append n by (simp add: row_inv_def active_row_def)
  then show ?case using Append by (auto simp: lane_inv_def sorted_wrt_append waits_for_def)
next
  case (Claim e us e' vs l)
  have r: "row_inv m l e" using Claim(7) by (simp add: lane_inv_def)
  show ?case
  proof (rule lane_inv_replace [OF Claim(7,3)])
    show "EvClaim (ef_id e) (ef_attempt_count e') \<notin> set l"
      using r Claim(4) by (auto simp: row_inv_def)
    show "row_inv m (l @ [EvClaim (ef_id e) (ef_attempt_count e')]) e'"
      using r Claim by (fastforce simp: row_inv_def same_key_def active_row_def)
  qed (use Claim in \<open>simp_all add: terminal_row_def\<close>)
next
  case (Begin e us vs l)
  have r: "row_inv m l e" and s: "sorted_wrt waits_for (us @ e # vs)" using Begin(3) by (simp_all add: lane_inv_def)
  show ?case
  proof (rule lane_inv_replace [OF Begin(3)])
    show "EvDispatch (ef_id e) (ef_attempt_count e) \<notin> set l"
      using r Begin by (auto simp: row_inv_def)
    show "row_inv m (l @ [EvDispatch (ef_id e) (ef_attempt_count e)]) (e\<lparr>ef_dispatch_started := True\<rparr>)"
      using r Begin by (auto simp: row_inv_def active_row_def)
    show "0 < ef_attempt_count (e\<lparr>ef_dispatch_started := True\<rparr>) \<longrightarrow>
        (\<forall>a \<in> set us. live_in_lane e a \<longrightarrow> terminal_row a)"
      using s by (auto simp: sorted_wrt_append waits_for_def live_in_lane_def)
  qed (simp_all add: same_key_def terminal_row_def)
next
  case (Retry e e' us vs l)
  have r: "row_inv m l e" and s: "sorted_wrt waits_for (us @ e # vs)" using Retry(6) by (simp_all add: lane_inv_def)
  show ?case
  proof (rule lane_inv_replace [OF Retry(6,3)])
    show "EvRetry (ef_id e) (ef_attempt_count e) \<notin> set l"
      using r Retry by (auto simp: row_inv_def)
    show "row_inv m (l @ [EvRetry (ef_id e) (ef_attempt_count e)]) e'"
      using r Retry by (auto simp: row_inv_def same_key_def active_row_def)
    show "0 < ef_attempt_count e' \<longrightarrow> (\<forall>a \<in> set us. live_in_lane e a \<longrightarrow> terminal_row a)"
      using s Retry(4) by (auto simp: sorted_wrt_append waits_for_def live_in_lane_def)
  qed (use Retry in \<open>simp_all add: terminal_row_def\<close>)
qed

lemma lane_steps_inv: "lane_steps m st st' \<Longrightarrow> lane_inv m st \<Longrightarrow> lane_inv m st'"
  by (induction rule: rtranclp_induct) (auto intro: lane_step_inv)

end
