(* ===== verification/Effect_Calls.thy ===== *)
theory Effect_Calls
  imports Effect_Steps
begin

text \<open>
  The calls of the outbox as one step relation: any number of workers enqueue, claim, begin, finish,
  abandon, cancel, resolve, confirm and recover, in any order, with any claim they ever held or made
  up. Each call is a sequence of lane steps, so what \<open>Effect_Steps\<close> shows of the lanes holds of every
  outbox the code can reach.
\<close>

section \<open>The calls\<close>

inductive effect_call :: "nat \<Rightarrow> Outbox \<times> ef_event list \<Rightarrow> Outbox \<times> ef_event list \<Rightarrow> bool" for m :: nat where
  Enqueue: "enqueue po i cmd thread r now s = Some s' \<Longrightarrow> effect_call m (s, l) (s', l)"
| NoClaim: "claim_effect w now lease s = (s', None) \<Longrightarrow> effect_call m (s, l) (s', l)"
| Claimed: "claim_effect w now lease s = (s', Some e) \<Longrightarrow>
    effect_call m (s, l) (s', l @ [EvClaim (ef_id e) (ef_attempt_count e)])"
| NotBegun: "begin_effect c now s = (s', False) \<Longrightarrow> effect_call m (s, l) (s', l)"
| Begun: "begin_effect c now s = (s', True) \<Longrightarrow>
    effect_call m (s, l) (s', l @ [EvDispatch (ef_id c) (ef_attempt_count c)])"
| Finished: "finish_effect c oc now m s = (s', ok) \<Longrightarrow>
    \<not> (ok \<and> map_option ef_status (effect (ef_id c) s') = Some EsPending) \<Longrightarrow> effect_call m (s, l) (s', l)"
| Retried: "finish_effect c oc now m s = (s', True) \<Longrightarrow>
    map_option ef_status (effect (ef_id c) s') = Some EsPending \<Longrightarrow>
    effect_call m (s, l) (s', l @ [EvRetry (ef_id c) (ef_attempt_count c)])"
| Abandon: "abandon_effect c now s = (s', ok) \<Longrightarrow> effect_call m (s, l) (s', l)"
| Cancel: "cancel_effect i now s = (s', ok) \<Longrightarrow> effect_call m (s, l) (s', l)"
| CancelProcess: "cancel_process thread now s = (s', ids) \<Longrightarrow> effect_call m (s, l) (s', l)"
| Resolve: "resolve_uncertain i accepted now s = (s', ok) \<Longrightarrow> effect_call m (s, l) (s', l)"
| Bind: "effect_call m (s, l) (bind_runtime thread t runtime s, l)"
| Confirm: "confirm p e now s = (s', ok) \<Longrightarrow> effect_call m (s, l) (s', l)"
| Accept: "effect_call m (s, l) (accept_input p run attempt msg now s, l)"
| Recover: "effect_call m (s, l) (recover_effects now s, l)"

abbreviation effect_calls :: "nat \<Rightarrow> Outbox \<times> ef_event list \<Rightarrow> Outbox \<times> ef_event list \<Rightarrow> bool" where
  "effect_calls m \<equiv> (effect_call m)\<^sup>*\<^sup>*"

section \<open>Quiet updates\<close>

lemma update_rows [simp]: "ob_rows (update_where P f s) = map (\<lambda>e. if P e then f e else e) (ob_rows s)"
  by (simp add: update_where_def)

lemma quiet_update:
  assumes "\<And>e. e \<in> set (ob_rows s) \<Longrightarrow> P e \<Longrightarrow> quiet e (f e)"
  shows "list_all2 quiet (ob_rows s) (ob_rows (update_where P f s))"
  using assms by (simp add: list_all2_conv_all_nth)

lemma release_sel [simp]:
  "ef_id (release e) = ef_id e" "ef_thread_id (release e) = ef_thread_id e" "ef_request (release e) = ef_request e"
  "ef_attempt_count (release e) = ef_attempt_count e" "ef_status (release e) = ef_status e"
  "ef_dispatch_started (release e) = ef_dispatch_started e" "ef_command_id (release e) = ef_command_id e"
  by (simp_all add: release_def)

lemma quiet_ends:
  "same_key e e' \<Longrightarrow> ef_attempt_count e' = ef_attempt_count e \<Longrightarrow> terminal_row e' \<Longrightarrow> \<not> terminal_row e \<Longrightarrow> quiet e e'"
  by (simp add: quiet_def)

lemma quiet_loses:
  "same_key e e' \<Longrightarrow> ef_attempt_count e' = ef_attempt_count e \<Longrightarrow> ef_status e' = EsUncertain \<Longrightarrow> active_row e \<Longrightarrow> quiet e e'"
  by (simp add: quiet_def)

lemma quiet_back:
  "same_key e e' \<Longrightarrow> ef_attempt_count e' = ef_attempt_count e \<Longrightarrow> ef_status e' = EsPending \<Longrightarrow> ef_status e = EsRunning \<Longrightarrow>
     (process_bound (ef_request e) \<Longrightarrow> \<not> ef_dispatch_started e) \<Longrightarrow> quiet e e'"
  by (simp add: quiet_def)

lemma quiet_expire: "expired now e \<Longrightarrow> quiet e (expire_row now e)"
  by (cases "process_bound (ef_request e) \<and> ef_dispatch_started e")
     (rule quiet_loses quiet_back; auto simp: expired_def expire_row_def same_key_def active_row_def)+

lemma quiet_expire_leases: "list_all2 quiet (ob_rows s) (ob_rows (expire_leases now s))"
  unfolding expire_leases_def by (rule quiet_update) (rule quiet_expire)

lemma quiet_cancel: "\<not> terminal_row e \<Longrightarrow> quiet e (cancel_row now why e)"
  by (rule quiet_ends) (simp_all add: cancel_row_def same_key_def terminal_row_def)

lemma quiet_cancel_effect: "list_all2 quiet (ob_rows s) (ob_rows (fst (cancel_effect i now s)))"
  unfolding cancel_effect_def Let_def fst_conv
  by (rule quiet_update) (rule quiet_cancel, auto simp: terminal_row_def)

lemma quiet_cancel_process: "list_all2 quiet (ob_rows s) (ob_rows (fst (cancel_process thread now s)))"
  unfolding cancel_process_def Let_def fst_conv
  by (rule quiet_update) (rule quiet_cancel, auto simp: terminal_row_def)

lemma quiet_resolve: "list_all2 quiet (ob_rows s) (ob_rows (fst (resolve_uncertain i accepted now s)))"
  unfolding resolve_uncertain_def Let_def fst_conv
  by (rule quiet_update) (rule quiet_ends; simp add: same_key_def terminal_row_def)

lemma quiet_abandon: "list_all2 quiet (ob_rows s) (ob_rows (fst (abandon_effect c now s)))"
proof (cases "is_steer (ef_request c) \<and> confirmed (ef_id c) s")
  case True
  then show ?thesis
    unfolding abandon_effect_def by simp (rule quiet_update [unfolded update_rows],
      rule quiet_ends; simp add: same_key_def terminal_row_def holds_claim_def)
next
  case False
  then have "list_all2 quiet (ob_rows s) (ob_rows (fst (abandon_effect c now s))) \<longleftrightarrow>
      list_all2 quiet (ob_rows s) (ob_rows (update_where (holds_claim c)
              (\<lambda>e. (release e)\<lparr>ef_status := (if process_bound (ef_request e) then EsUncertain else EsPending),
                 ef_available_at := now, ef_last_error := Some ''Worker lost lease after dispatch.''\<rparr>) s))"
    unfolding abandon_effect_def by (simp only: if_False fst_conv)
  also have "\<dots>"
  proof (rule quiet_update)
    fix e assume "holds_claim c e"
    then show "quiet e ((release e)\<lparr>ef_status := (if process_bound (ef_request e) then EsUncertain else EsPending),
                 ef_available_at := now, ef_last_error := Some ''Worker lost lease after dispatch.''\<rparr>)"
      by (cases "process_bound (ef_request e)")
         (rule quiet_loses quiet_back; simp add: same_key_def active_row_def holds_claim_def)+
  qed
  finally show ?thesis .
qed

lemma quiet_record_acceptance: "list_all2 quiet (ob_rows s) (ob_rows (record_acceptance i now s))"
  using quiet_update [of "s\<lparr>ob_accepted := a\<rparr>" for a] unfolding record_acceptance_def
  by (auto simp: list_all2_conv_all_nth intro!: quiet_ends simp: same_key_def terminal_row_def)

lemma quiet_confirm: "list_all2 quiet (ob_rows s) (ob_rows (fst (confirm p e now s)))"
  by (simp add: confirm_def quiet_record_acceptance split: option.split prod.split)

lemma quiet_fold:
  assumes "\<And>x s. list_all2 quiet (ob_rows s) (ob_rows (f x s))"
  shows "list_all2 quiet (ob_rows s) (ob_rows (fold f xs s))"
proof (induction xs arbitrary: s)
  case (Cons x xs)
  show ?case using quiet_list_trans [OF assms Cons.IH] by simp
qed simp

lemma quiet_accept_input: "list_all2 quiet (ob_rows s) (ob_rows (accept_input p run attempt msg now s))"
  unfolding accept_input_def
  by (rule quiet_fold) (simp add: quiet_confirm split: option.split)

lemma quiet_retire_one: "list_all2 quiet (ob_rows s) (ob_rows (retire_one p run now c s))"
proof -
  have "list_all2 quiet (ob_rows s) (ob_rows (update_where (\<lambda>e. ef_id e = fst c \<and> ef_status e = EsUncertain)
       (\<lambda>e. e\<lparr>ef_status := EsCancelled, ef_completed_at := Some now,
          ef_last_error := Some ''Unconfirmed steering retained for explicit follow-up.''\<rparr>) s))"
    by (rule quiet_update) (rule quiet_ends; simp add: same_key_def terminal_row_def)
  then show ?thesis
    by (cases "previous_over p run (snd c)") (simp_all add: retire_one_def del: update_rows)
qed

lemma quiet_retire_for_start: "list_all2 quiet (ob_rows s) (ob_rows (retire_for_start po thread i now s))"
  unfolding retire_for_start_def
  by (simp split: option.split add: quiet_fold quiet_retire_one)

lemma quiet_recover: "list_all2 quiet (ob_rows s) (ob_rows (recover_effects now s))"
proof -
  have 1: "list_all2 quiet (ob_rows s) (ob_rows (recover_receipts now s))" for s
    unfolding recover_receipts_def
    by (rule quiet_update) (rule quiet_ends; auto simp: same_key_def terminal_row_def)
  have 2: "list_all2 quiet (ob_rows s) (ob_rows (recover_uncertain s))" for s
    unfolding recover_uncertain_def
    by (rule quiet_update) (rule quiet_loses; simp add: same_key_def active_row_def)
  have 3: "list_all2 quiet (ob_rows s) (ob_rows (recover_retire now s))" for s
    unfolding recover_retire_def
    by (rule quiet_update) (rule quiet_cancel, auto simp: terminal_row_def)
  have 4: "list_all2 quiet (ob_rows s) (ob_rows (recover_steering now s))" for s
    unfolding recover_steering_def
    by (rule quiet_update) (rule quiet_ends; simp add: same_key_def terminal_row_def)
  have 5: "list_all2 quiet (ob_rows s) (ob_rows (recover_requeue now s))" for s
    unfolding recover_requeue_def
    by (rule quiet_update) (rule quiet_back; simp add: same_key_def)
  have rows: "ob_rows (recover_effects now s) =
      ob_rows (recover_requeue now (recover_steering now (recover_retire now (recover_uncertain (recover_receipts now s)))))"
    by (simp add: recover_effects_def)
  show ?thesis unfolding rows
    by (rule quiet_list_trans [OF 1 quiet_list_trans [OF 2 quiet_list_trans [OF 3 quiet_list_trans [OF 4 5]]]])
qed

section \<open>One row\<close>

lemma distinct_others:
  assumes d: "distinct (map f (us @ e # vs))" and x: "x \<in> set us \<union> set vs"
  shows "f x \<noteq> f e"
proof -
  have "f e \<notin> f ` (set us \<union> set vs)" using d by auto
  moreover have "f x \<in> f ` (set us \<union> set vs)" using x by (rule imageI)
  ultimately show ?thesis by metis
qed

lemma row_split:
  assumes "e \<in> set rows" "distinct (map ef_id rows)"
  obtains us vs where "rows = us @ e # vs" "\<forall>x \<in> set us \<union> set vs. ef_id x \<noteq> ef_id e"
proof -
  obtain us vs where r: "rows = us @ e # vs" using split_list [OF assms(1)] by blast
  have "\<forall>x \<in> set us \<union> set vs. ef_id x \<noteq> ef_id e"
    using distinct_others [OF assms(2) [unfolded r]] by blast
  then show ?thesis by (rule that [OF r])
qed

lemma update_one:
  assumes "\<forall>x \<in> set us \<union> set vs. ef_id x \<noteq> ef_id e" "\<And>x. P x \<Longrightarrow> ef_id x = ef_id e" "P e"
  shows "map (\<lambda>x. if P x then f x else x) (us @ e # vs) = us @ f e # vs"
    "filter P (us @ e # vs) = [e]"
proof -
  have "\<not> P x" if "x \<in> set us \<union> set vs" for x using assms(1,2) that by blast
  then show "map (\<lambda>x. if P x then f x else x) (us @ e # vs) = us @ f e # vs" "filter P (us @ e # vs) = [e]"
    using assms(3) by (simp_all add: map_idI filter_empty_conv)
qed

text \<open>An update of the claimed row either finds it, or changes nothing.\<close>

lemma update_claim:
  assumes d: "distinct (map ef_id (ob_rows s))" and i: "\<And>x. P x \<Longrightarrow> ef_id x = i"
  obtains (Miss) "count_where P s \<noteq> 1" "ob_rows (update_where P f s) = ob_rows s"
  | (Hit) us e vs where "ob_rows s = us @ e # vs" "\<forall>x \<in> set us \<union> set vs. ef_id x \<noteq> ef_id e" "P e"
      "count_where P s = 1" "ob_rows (update_where P f s) = us @ f e # vs"
proof (cases "\<exists>e \<in> set (ob_rows s). P e")
  case True
  then obtain e where e: "e \<in> set (ob_rows s)" "P e" by blast
  obtain us vs where r: "ob_rows s = us @ e # vs" "\<forall>x \<in> set us \<union> set vs. ef_id x \<noteq> ef_id e"
    using row_split [OF e(1) d] .
  have id: "ef_id x = ef_id e" if "P x" for x using i [OF that] i [OF e(2)] by simp
  have "ob_rows (update_where P f s) = us @ f e # vs" "count_where P s = 1"
    using update_one(1) [where P = P and f = f, OF r(2) id e(2)] update_one(2) [where P = P, OF r(2) id e(2)]
    by (simp_all add: count_where_def r(1))
  then show ?thesis using Hit [OF r e(2)] by blast
next
  case False
  then have "filter P (ob_rows s) = []" by (simp add: filter_empty_conv)
  moreover have "map (\<lambda>x. if P x then f x else x) (ob_rows s) = ob_rows s"
    by (rule map_idI) (use False in simp)
  ultimately show ?thesis using Miss by (simp add: count_where_def)
qed

lemma first_min_in: "first_min es = Some e \<Longrightarrow> e \<in> set es"
  by (induction es arbitrary: e) (auto split: option.splits if_splits)

lemma next_pendingD:
  assumes "next_pending rows = Some e"
  obtains i where "i < length rows" "e = rows ! i" "candidate rows i"
  using first_min_in [OF assms [unfolded next_pending_def]] by (auto simp: candidates_def)

lemma effect_find:
  "\<forall>x \<in> set us. ef_id x \<noteq> i \<Longrightarrow> ef_id e = i \<Longrightarrow> List.find (\<lambda>x. ef_id x = i) (us @ e # vs) = Some e"
  by (induction us) auto

lemma claim_step:
  assumes c: "claim_effect w now lease s = (s', Some e)" and d: "distinct (map ef_id (ob_rows s))"
  shows "lane_steps m (ob_rows s, l) (ob_rows s', l @ [EvClaim (ef_id e) (ef_attempt_count e)])"
proof -
  let ?s1 = "expire_leases now s"
  have d1: "distinct (map ef_id (ob_rows ?s1))" using d quiet_ids [OF quiet_expire_leases] by metis
  obtain p where p: "next_pending (ob_rows ?s1) = Some p" and av: "ef_available_at p \<le> now"
    using c by (auto simp: claim_effect_def Let_def split: option.splits if_splits)
  obtain i where i: "i < length (ob_rows ?s1)" "p = ob_rows ?s1 ! i" "candidate (ob_rows ?s1) i"
    using next_pendingD [OF p] .
  define us where "us = take i (ob_rows ?s1)"
  define vs where "vs = drop (Suc i) (ob_rows ?s1)"
  have r: "ob_rows ?s1 = us @ p # vs" 
    unfolding us_def vs_def i(2) by (rule id_take_nth_drop [OF i(1)])
  have oth: "\<forall>x \<in> set us \<union> set vs. ef_id x \<noteq> ef_id p"
    using distinct_others [OF d1 [unfolded r]] by blast
  let ?p' = "claim_row w now lease p"
  have "ob_rows (update_where (\<lambda>r. ef_id r = ef_id p) (claim_row w now lease) ?s1) = us @ ?p' # vs"
    using update_one(1) [OF oth, of "\<lambda>r. ef_id r = ef_id p"] by (simp add: r)
  moreover have k: "ef_id ?p' = ef_id p" by (simp add: claim_row_def)
  ultimately have s': "ob_rows s' = us @ ?p' # vs" "e = ?p'"
    using c p av effect_find [of us "ef_id p" ?p' vs] oth
    by (auto simp: claim_effect_def Let_def effect_def simp del: update_rows)
  have w: "\<forall>a \<in> set us. live_in_lane p a \<longrightarrow> terminal_row a"
  proof (intro ballI impI)
    fix a assume a: "a \<in> set us" "live_in_lane p a"
    moreover have "a \<in> set (ob_rows ?s1)" using a(1) r by simp
    ultimately have "ef_status a \<noteq> EsPending" "ef_status a \<noteq> EsRunning" "ef_status a \<noteq> EsUncertain"
      using i(3) unfolding candidate_def us_def i(2) [symmetric] by blast+
    then show "terminal_row a" by (cases "ef_status a") (simp_all add: terminal_row_def)
  qed
  have "lane_step m (us @ p # vs, l) (us @ ?p' # vs, l @ [EvClaim (ef_id p) (ef_attempt_count ?p')])"
    by (rule lane_step.Claim [OF _ w]) (use i in \<open>simp_all add: candidate_def claim_row_def same_key_def\<close>)
  then show ?thesis
    unfolding s' k r [symmetric] using lane_step.Rest [OF quiet_expire_leases]
    by (meson converse_rtranclp_into_rtranclp r_into_rtranclp)
qed

lemma no_claim_quiet: "claim_effect w now lease s = (s', None) \<Longrightarrow> s' = expire_leases now s"
proof -
  assume c: "claim_effect w now lease s = (s', None)"
  show ?thesis
  proof (rule ccontr)
    assume n: "s' \<noteq> expire_leases now s"
    then obtain p where p: "next_pending (ob_rows (expire_leases now s)) = Some p"
      and e: "effect (ef_id p) (update_where (\<lambda>r. ef_id r = ef_id p) (claim_row w now lease) (expire_leases now s)) = None"
      using c by (auto simp: claim_effect_def Let_def split: option.splits if_splits)
    obtain i where i: "i < length (ob_rows (expire_leases now s))" "p = ob_rows (expire_leases now s) ! i"
      using next_pendingD [OF p] .
    then have "p \<in> set (ob_rows (expire_leases now s))" by simp
    then have "claim_row w now lease p \<in> set (ob_rows (update_where (\<lambda>r. ef_id r = ef_id p) (claim_row w now lease) (expire_leases now s)))"
      by force
    then show False using e unfolding effect_def find_None_iff by (auto simp: claim_row_def simp del: update_rows)
  qed
qed

section \<open>Every call is lane steps\<close>

lemma holds_claim_id: "holds_claim c e \<Longrightarrow> ef_id e = ef_id c"
  by (simp add: holds_claim_def)

lemma lane_rest: "list_all2 quiet (ob_rows s) rows \<Longrightarrow> lane_steps m (ob_rows s, l) (rows, l)"
  by (rule r_into_rtranclp) (rule lane_step.Rest)

lemma begin_step:
  assumes b: "begin_effect c now s = (s', ok)" and d: "distinct (map ef_id (ob_rows s))"
  shows "lane_steps m (ob_rows s, l)
    (ob_rows s', if ok then l @ [EvDispatch (ef_id c) (ef_attempt_count c)] else l)"
proof -
  let ?P = "\<lambda>e. holds_claim c e \<and> sql_gt (ef_lease_expires_at e) now \<and> \<not> ef_dispatch_started e"
  let ?f = "\<lambda>e. e\<lparr>ef_dispatch_started := True\<rparr>"
  have s': "s' = update_where ?P ?f s" "ok = (count_where ?P s = 1)"
    using b by (auto simp: begin_effect_def Let_def)
  have id: "ef_id x = ef_id c" if "?P x" for x using that by (simp add: holds_claim_id)
  show ?thesis
  proof (rule update_claim [where P = ?P and f = ?f and i = "ef_id c", OF d id])
    assume "count_where ?P s \<noteq> 1" "ob_rows (update_where ?P ?f s) = ob_rows s"
    then show ?thesis unfolding s' by (simp del: update_rows)
  next
    fix us e vs
    assume r: "ob_rows s = us @ e # vs" and e: "?P e" and n: "count_where ?P s = 1"
      and u: "ob_rows (update_where ?P ?f s) = us @ ?f e # vs"
    have k: "ef_id c = ef_id e" "ef_attempt_count c = ef_attempt_count e" "ef_status e = EsRunning" "\<not> ef_dispatch_started e"
      using e by (simp_all add: holds_claim_def)
    show ?thesis
      unfolding s' u k(1,2) r using n lane_step.Begin [OF k(3,4)] by (simp add: r_into_rtranclp)
  qed
qed

lemma outcome_row_pending:
  "outcome_row oc n m now = (EsPending, available, err) \<Longrightarrow> n < max m 1"
  by (cases oc) (simp_all add: outcome_row_def split: if_splits)

lemma outcome_row_status:
  "outcome_row oc n m now = (st, available, err) \<Longrightarrow> st \<in> {EsPending, EsSucceeded, EsFailed, EsUncertain}"
  by (cases oc) (auto simp: outcome_row_def split: if_splits)

lemma settle_row_sel [simp]:
  "ef_id (settle_row st a err now e) = ef_id e" "ef_status (settle_row st a err now e) = st"
  "ef_attempt_count (settle_row st a err now e) = ef_attempt_count e" "same_key e (settle_row st a err now e)"
  by (simp_all add: settle_row_def same_key_def)

lemma finish_form:
  assumes "finish_effect c oc now m s = (s', ok)"
  obtains st available err P where
    "P = (\<lambda>e. holds_claim c e \<and> sql_gt (ef_lease_expires_at e) now)"
    "s' = update_where P (settle_row st available err now) s" "ok = (count_where P s = 1)"
    "st \<in> {EsPending, EsSucceeded, EsFailed, EsUncertain}" "st = EsPending \<longrightarrow> ef_attempt_count c < max m 1"
proof -
  obtain st a err where oc: "outcome_row oc (ef_attempt_count c) m now = (st, a, err)" by (metis prod_cases3)
  define won where "won \<longleftrightarrow> is_steer (ef_request c) \<and> confirmed (ef_id c) s"
  have "s' = update_where (\<lambda>e. holds_claim c e \<and> sql_gt (ef_lease_expires_at e) now)
      (settle_row (if won then EsSucceeded else st) a (if won then None else err) now) s"
    "ok = (count_where (\<lambda>e. holds_claim c e \<and> sql_gt (ef_lease_expires_at e) now) s = 1)"
    using assms unfolding finish_effect_def oc won_def [symmetric] Let_def by (auto split: if_splits)
  then show ?thesis
    by (rule that [OF refl]) (use outcome_row_status [OF oc] outcome_row_pending [of oc _ m now a err] oc
        in \<open>auto split: if_splits\<close>)
qed

lemma finish_step:
  assumes f: "finish_effect c oc now m s = (s', ok)" and d: "distinct (map ef_id (ob_rows s))"
  shows "lane_steps m (ob_rows s, l)
    (ob_rows s', if ok \<and> map_option ef_status (effect (ef_id c) s') = Some EsPending
       then l @ [EvRetry (ef_id c) (ef_attempt_count c)] else l)"
proof -
  obtain st a err P where P: "P = (\<lambda>e. holds_claim c e \<and> sql_gt (ef_lease_expires_at e) now)"
    and s': "s' = update_where P (settle_row st a err now) s" "ok = (count_where P s = 1)"
    and st: "st \<in> {EsPending, EsSucceeded, EsFailed, EsUncertain}" "st = EsPending \<longrightarrow> ef_attempt_count c < max m 1"
    using finish_form [OF f] .
  let ?f = "settle_row st a err now"
  have id: "ef_id x = ef_id c" if "P x" for x using that by (simp add: P holds_claim_id)
  show ?thesis
  proof (rule update_claim [where P = P and f = ?f and i = "ef_id c", OF d id])
    assume "count_where P s \<noteq> 1" "ob_rows (update_where P ?f s) = ob_rows s"
    then show ?thesis unfolding s' by (simp del: update_rows)
  next
    fix us e vs
    assume r: "ob_rows s = us @ e # vs" and oth: "\<forall>x \<in> set us \<union> set vs. ef_id x \<noteq> ef_id e" and e: "P e"
      and n: "count_where P s = 1" and u: "ob_rows (update_where P ?f s) = us @ ?f e # vs"
    have k: "ef_id c = ef_id e" "ef_attempt_count c = ef_attempt_count e" "ef_status e = EsRunning"
      using e by (simp_all add: P holds_claim_def)
    have found: "effect (ef_id e) (update_where P ?f s) = Some (?f e)"
      unfolding effect_def u by (rule effect_find) (use oth in auto)
    show ?thesis
    proof (cases "st = EsPending")
      case True
      have "lane_step m (us @ e # vs, l) (us @ ?f e # vs, l @ [EvRetry (ef_id e) (ef_attempt_count e)])"
        by (rule lane_step.Retry) (use k st True in simp_all)
      then show ?thesis unfolding s' u k(1,2) r using n found True by (simp add: r_into_rtranclp)
    next
      case False
      have "quiet e (?f e)"
      proof (cases "st = EsUncertain")
        case True
        show ?thesis by (rule quiet_loses) (use k True in \<open>simp_all add: active_row_def\<close>)
      next
        case f2: False
        show ?thesis by (rule quiet_ends) (use k st False f2 in \<open>auto simp: terminal_row_def\<close>)
      qed
      then have "list_all2 quiet (us @ e # vs) (us @ ?f e # vs)" by (simp add: list_all2_appendI)
      then have "lane_steps m (us @ e # vs, l) (us @ ?f e # vs, l)" by (simp add: lane_step.Rest r_into_rtranclp)
      then show ?thesis unfolding s' u k(1,2) r using n found False by simp
    qed
  qed
qed

lemma admit_rows [simp]: "ob_rows (admit po i thread r s) = ob_rows s"
  by (simp add: admit_def)

lemma effect_None: "effect i s = None \<longleftrightarrow> i \<notin> set (map ef_id (ob_rows s))"
  by (auto simp: effect_def find_None_iff)

lemma enqueue_step:
  assumes "enqueue po i cmd thread r now s = Some s'"
  shows "lane_steps m (ob_rows s, l) (ob_rows s', l)"
proof -
  define s1 where "s1 = (case r of ProviderTurnStart rid \<Rightarrow> retire_for_start po thread rid now s | _ \<Rightarrow> s)"
  have q: "list_all2 quiet (ob_rows s) (ob_rows s1)"
    by (cases r) (simp_all add: s1_def quiet_retire_for_start)
  have e: "effect i s1 = None" and s': "ob_rows s' = ob_rows s1 @ [new_row i cmd thread r now]"
    using assms unfolding enqueue_def s1_def [symmetric] Let_def by (auto split: if_splits)
  have "lane_step m (ob_rows s1, l) (ob_rows s', l)"
    unfolding s' by (rule lane_step.Append) (use e in \<open>simp_all add: effect_None new_row_def\<close>)
  then show ?thesis using lane_rest [OF q] by (meson rtranclp.rtrancl_into_rtrancl)
qed

theorem effect_call_lane:
  assumes "effect_call m (s, l) (s', l')" and d: "distinct (map ef_id (ob_rows s))"
  shows "lane_steps m (ob_rows s, l) (ob_rows s', l')"
  using assms(1)
proof cases
  case Enqueue then show ?thesis using enqueue_step by simp
next
  case NoClaim then show ?thesis using no_claim_quiet lane_rest [OF quiet_expire_leases] by blast
next
  case (Claimed w now lease e) then show ?thesis using claim_step [OF _ d] by simp
next
  case NotBegun then show ?thesis using begin_step [OF _ d] by fastforce
next
  case Begun then show ?thesis using begin_step [OF _ d] by fastforce
next
  case (Finished c oc now ok)
  then show ?thesis using finish_step [OF Finished(2) d] by (simp only: if_False)
next
  case (Retried c oc now)
  then show ?thesis using finish_step [OF Retried(2) d] by simp
next
  case Abandon then show ?thesis using lane_rest [OF quiet_abandon] by (metis fst_conv)
next
  case Cancel then show ?thesis using lane_rest [OF quiet_cancel_effect] by (metis fst_conv)
next
  case CancelProcess then show ?thesis using lane_rest [OF quiet_cancel_process] by (metis fst_conv)
next
  case Resolve then show ?thesis using lane_rest [OF quiet_resolve] by (metis fst_conv)
next
  case Bind then show ?thesis by (simp add: bind_runtime_def)
next
  case Confirm then show ?thesis using lane_rest [OF quiet_confirm] by (metis fst_conv)
next
  case Accept then show ?thesis using lane_rest [OF quiet_accept_input] by simp
next
  case Recover then show ?thesis using lane_rest [OF quiet_recover] by simp
qed

lemma effect_calls_inv:
  "effect_calls m (s, l) (s', l') \<Longrightarrow> lane_inv m (ob_rows s, l) \<Longrightarrow> lane_inv m (ob_rows s', l')"
proof (induction rule: rtranclp_induct2)
  case (step s1 l1 s2 l2)
  then have i: "lane_inv m (ob_rows s1, l1)" by blast
  then have "distinct (map ef_id (ob_rows s1))" by (simp add: lane_inv_def)
  then show ?case using effect_call_lane [OF step.hyps(2)] lane_steps_inv i by blast
qed simp

lemma lane_inv_start: "ob_rows s = [] \<Longrightarrow> lane_inv m (ob_rows s, [])"
  by (simp add: lane_inv_def)

end
