(* ===== verification/Effect_Safe.thy ===== *)
theory Effect_Safe
  imports Effect_Calls "HOL-Library.Code_Target_Nat"
begin

text \<open>
  What the outbox promises: no process-bound effect is dispatched more often than the executor's own
  safe retries allow, the lanes are worked in order and one at a time, the wake-up time is exact,
  and a restart leaves nothing that belonged to the dead process.
\<close>

section \<open>Counting\<close>

lemma retries_bound:
  assumes d: "distinct l" and r: "row_inv m l e"
  shows "retries (ef_id e) l < max m 1"
proof -
  let ?P = "\<lambda>ev. case ev of EvRetry j _ \<Rightarrow> j = ef_id e | _ \<Rightarrow> False"
  have sub: "set (filter ?P l) \<subseteq> EvRetry (ef_id e) ` {1..<max m 1}"
  proof
    fix ev assume "ev \<in> set (filter ?P l)"
    then obtain n where ev: "ev = EvRetry (ef_id e) n" "EvRetry (ef_id e) n \<in> set l"
      by (auto split: ef_event.splits)
    then have "0 < n" "n < max m 1" using r unfolding row_inv_def by blast+
    then show "ev \<in> EvRetry (ef_id e) ` {1..<max m 1}" using ev(1) by (intro image_eqI) auto
  qed
  have "retries (ef_id e) l = card (set (filter ?P l))"
    unfolding retries_def using distinct_card [OF distinct_filter [OF d]] by metis
  also have "\<dots> \<le> card (EvRetry (ef_id e) ` {1..<max m 1})" by (rule card_mono [OF _ sub]) simp
  also have "\<dots> \<le> max m 1 - 1" using card_image_le [of "{1..<max m 1}" "EvRetry (ef_id e)"] by simp
  finally show ?thesis by linarith
qed

lemma calls_inv:
  assumes "effect_calls m (s0, []) (s, l)" "ob_rows s0 = []"
  shows "lane_inv m (ob_rows s, l)"
  using effect_calls_inv [OF assms(1)] lane_inv_start [OF assms(2)] by blast

lemma calls_row:
  assumes "effect_calls m (s0, []) (s, l)" "ob_rows s0 = []" "e \<in> set (ob_rows s)"
  shows "row_inv m l e" "distinct l"
  using calls_inv [OF assms(1,2)] assms(3) by (simp_all add: lane_inv_def)

text \<open>C28: Dispatching. However workers, cancellations and restarts interleave, and whatever claims they
  present: no claim of a row is granted twice and no claim is dispatched twice; and an effect bound to
  the process (one whose lost acceptance cannot be repeated safely) is dispatched at most once more
  than the executor asked for a retry, which is fewer times than the budget of attempts.\<close>

theorem dispatches_are_paid_for:
  assumes run: "effect_calls m (s0, []) (s, l)" and start: "ob_rows s0 = []"
    and e: "e \<in> set (ob_rows s)" and pb: "process_bound (ef_request e)"
  shows "distinct l \<and> dispatches (ef_id e) l \<le> retries (ef_id e) l + 1 \<and>
    retries (ef_id e) l < max m 1 \<and> dispatches (ef_id e) l \<le> max m 1"
proof -
  note i = calls_row [OF run start e]
  have "dispatches (ef_id e) l \<le> retries (ef_id e) l + 1" using i(1) pb unfolding row_inv_def by blast
  then show ?thesis using retries_bound [OF i(2,1)] i(2) by linarith
qed

text \<open>C29: Order of the lanes. In every outbox the calls can reach, a row that was ever claimed has
  only finished rows of its thread and lane before it; so rows of a lane are worked in the order they
  were enqueued, and at most one of them is running or uncertain.\<close>

theorem lanes_in_order:
  assumes run: "effect_calls m (s0, []) (s, l)" and start: "ob_rows s0 = []"
    and ij: "i < j" "j < length (ob_rows s)" and lane: "live_in_lane (ob_rows s ! i) (ob_rows s ! j)"
  shows "(0 < ef_attempt_count (ob_rows s ! j) \<longrightarrow> terminal_row (ob_rows s ! i)) \<and>
    \<not> (active_row (ob_rows s ! i) \<and> active_row (ob_rows s ! j))"
proof -
  have s: "sorted_wrt waits_for (ob_rows s)" using calls_inv [OF run start] by (simp add: lane_inv_def)
  have w: "0 < ef_attempt_count (ob_rows s ! j) \<longrightarrow> terminal_row (ob_rows s ! i)"
    using sorted_wrt_nth_less [OF s ij] lane by (simp add: waits_for_def)
  have "active_row (ob_rows s ! j) \<longrightarrow> 0 < ef_attempt_count (ob_rows s ! j)"
    using calls_row(1) [OF run start nth_mem [OF ij(2)]] by (simp add: row_inv_def)
  then show ?thesis using w row_states(5) by blast
qed

section \<open>Waking up\<close>

lemma min_opt_le:
  "min_opt a b = Some t \<Longrightarrow> t \<le> n \<longleftrightarrow> sql_le a n \<or> sql_le b n"
  "min_opt a b = None \<longleftrightarrow> a = None \<and> b = None"
  by (cases a; cases b; auto simp: min_opt_def sql_le_def)+

lemma min_opt_sql: "sql_le (min_opt a b) n \<longleftrightarrow> sql_le a n \<or> sql_le b n"
  by (cases a; cases b) (auto simp: min_opt_def sql_le_def)

lemma fold_min_sql:
  "sql_le (fold (\<lambda>e m. min_opt m (f e)) es m) n \<longleftrightarrow> sql_le m n \<or> (\<exists>e \<in> set es. sql_le (f e) n)"
  by (induction es arbitrary: m) (auto simp: min_opt_sql)

lemma wake_due:
  "sql_le (next_effect_wake s) now \<longleftrightarrow>
     (\<exists>e. next_pending (ob_rows s) = Some e \<and> ef_available_at e \<le> now) \<or> (\<exists>e \<in> set (ob_rows s). expired now e)"
  unfolding next_effect_wake_def min_opt_sql fold_min_sql
  by (cases "next_pending (ob_rows s)") (auto simp: sql_le_def expired_def)

lemma expire_nothing: "\<not> (\<exists>e \<in> set (ob_rows s). expired now e) \<Longrightarrow> expire_leases now s = s"
proof -
  assume "\<not> (\<exists>e \<in> set (ob_rows s). expired now e)"
  then have "map (\<lambda>e. if expired now e then expire_row now e else e) (ob_rows s) = ob_rows s"
    by (intro map_idI) simp
  then show ?thesis by (simp add: expire_leases_def update_where_def)
qed

lemma expired_gone: "e \<in> set (ob_rows (expire_leases now s)) \<Longrightarrow> \<not> expired now e"
  by (auto simp: expire_leases_def expired_def expire_row_def split: if_splits)

text \<open>The rows after a claim, row by row.\<close>

lemma claim_rows:
  obtains i where "ob_rows (fst (claim_effect w now lease s)) =
      map (\<lambda>e. let e1 = (if expired now e then expire_row now e else e)
               in if i = Some (ef_id e1) then claim_row w now lease e1 else e1) (ob_rows s)"
    "\<forall>p. next_pending (ob_rows (expire_leases now s)) = Some p \<and> ef_available_at p \<le> now \<longrightarrow> i = Some (ef_id p)"
proof (cases "\<exists>p. next_pending (ob_rows (expire_leases now s)) = Some p \<and> ef_available_at p \<le> now")
  case True
  then obtain p where p: "next_pending (ob_rows (expire_leases now s)) = Some p" "ef_available_at p \<le> now" by blast
  then have "fst (claim_effect w now lease s) =
      update_where (\<lambda>r. ef_id r = ef_id p) (claim_row w now lease) (expire_leases now s)"
    by (simp add: claim_effect_def Let_def)
  then show ?thesis using p by (intro that [of "Some (ef_id p)"]) (auto simp: expire_leases_def Let_def)
next
  case False
  then have "fst (claim_effect w now lease s) = expire_leases now s"
    by (auto simp: claim_effect_def Let_def split: option.split)
  then show ?thesis using False by (intro that [of None]) (auto simp: expire_leases_def Let_def)
qed

lemma claim_changes:
  assumes due: "sql_le (next_effect_wake s) now"
  shows "fst (claim_effect w now lease s) \<noteq> s"
proof
  assume same: "fst (claim_effect w now lease s) = s"
  obtain i where r: "ob_rows (fst (claim_effect w now lease s)) =
      map (\<lambda>e. let e1 = (if expired now e then expire_row now e else e)
               in if i = Some (ef_id e1) then claim_row w now lease e1 else e1) (ob_rows s)"
    and i: "\<forall>p. next_pending (ob_rows (expire_leases now s)) = Some p \<and> ef_available_at p \<le> now \<longrightarrow> i = Some (ef_id p)"
    by (rule claim_rows)
  have fixed: "(let e1 = (if expired now e then expire_row now e else e)
      in if i = Some (ef_id e1) then claim_row w now lease e1 else e1) = e" if "e \<in> set (ob_rows s)" for e
    using r that unfolding same by (metis (mono_tags, lifting) map_eq_conv map_ident)
  have n: "\<not> expired now e" if e: "e \<in> set (ob_rows s)" for e
  proof
    assume x: "expired now e"
    have "ef_status (expire_row now e) \<noteq> ef_status e" "ef_attempt_count (claim_row w now lease (expire_row now e)) \<noteq> ef_attempt_count e"
      using x by (simp_all add: expired_def expire_row_def claim_row_def)
    then show False using fixed [OF e] x unfolding Let_def by (metis (full_types))
  qed
  then obtain p where p: "next_pending (ob_rows s) = Some p" "ef_available_at p \<le> now"
    using due wake_due by blast
  have ex: "expire_leases now s = s" using n expire_nothing by blast
  obtain k where "k < length (ob_rows s)" "p = ob_rows s ! k" using next_pendingD [OF p(1)] .
  then have e: "p \<in> set (ob_rows s)" by simp
  then have "claim_row w now lease p = p" using fixed [OF e] n [OF e] i p unfolding ex by (simp add: Let_def)
  then have "ef_attempt_count (claim_row w now lease p) = ef_attempt_count p" by simp
  then show False by (simp add: claim_row_def)
qed

lemma claim_not_due:
  assumes "\<not> sql_le (next_effect_wake s) now"
  shows "claim_effect w now lease s = (s, None)"
proof -
  have "expire_leases now s = s" using assms wake_due expire_nothing by blast
  moreover have "\<not> (next_pending (ob_rows s) = Some e \<and> ef_available_at e \<le> now)" for e
    using assms wake_due by blast
  ultimately show ?thesis by (auto simp: claim_effect_def Let_def split: option.split)
qed

lemma failed_claim_not_due:
  assumes c: "claim_effect w now lease s = (s', None)"
  shows "\<not> sql_le (next_effect_wake s') now"
proof
  assume due: "sql_le (next_effect_wake s') now"
  have s': "s' = expire_leases now s" using no_claim_quiet [OF c] .
  then have "expire_leases now s' = s'" using expire_nothing expired_gone by metis
  then have "claim_effect w now lease s' = claim_effect w now lease s"
    unfolding s' by (simp add: claim_effect_def)
  then show False using claim_changes [OF due, of w lease] c by simp
qed

text \<open>C30: The wake-up time is exact. Until \<open>next_effect_wake\<close> a claim finds nothing and changes
  nothing; from then on a claim does something; and after a claim that found nothing the worker sleeps
  for a positive time (a ready row behind a barrier never makes it spin), no longer than the repair
  interval and not past the deadline.\<close>

theorem wake_is_exact:
  "(\<not> sql_le (next_effect_wake s) now \<longrightarrow> claim_effect w now lease s = (s, None)) \<and>
   (sql_le (next_effect_wake s) now \<longrightarrow> fst (claim_effect w now lease s) \<noteq> s) \<and>
   (claim_effect w now lease s = (s', None) \<longrightarrow>
      0 < effect_delay (next_effect_wake s') now \<and> effect_delay (next_effect_wake s') now \<le> REPAIR_INTERVAL \<and>
      (\<forall>t. next_effect_wake s' = Some t \<longrightarrow> now + effect_delay (next_effect_wake s') now \<le> t))"
proof (intro conjI impI)
  assume "\<not> sql_le (next_effect_wake s) now"
  then show "claim_effect w now lease s = (s, None)" by (rule claim_not_due)
next
  assume "sql_le (next_effect_wake s) now"
  then show "fst (claim_effect w now lease s) \<noteq> s" by (rule claim_changes)
next
  assume c: "claim_effect w now lease s = (s', None)"
  note n = failed_claim_not_due [OF c]
  show "0 < effect_delay (next_effect_wake s') now"
    using n by (cases "next_effect_wake s'") (auto simp: effect_delay_def REPAIR_INTERVAL_def sql_le_def sat_add_def)
  show "effect_delay (next_effect_wake s') now \<le> REPAIR_INTERVAL" by (simp add: effect_delay_def)
  show "\<forall>t. next_effect_wake s' = Some t \<longrightarrow> now + effect_delay (next_effect_wake s') now \<le> t"
    using n by (auto simp: effect_delay_def REPAIR_INTERVAL_def sql_le_def sat_add_def)
qed

section \<open>Restart\<close>

lemma steer_bound: "is_steer r \<Longrightarrow> process_bound r"
  by (cases r) (simp_all add: is_steer_def process_bound_def)

definition rec_status :: "bool \<Rightarrow> Effect \<Rightarrow> EffectStatus" where
  "rec_status acc e =
     (if is_steer (ef_request e) \<and> active_row e \<and> acc then EsSucceeded
      else case ef_status e of
        EsPending \<Rightarrow> if process_bound (ef_request e) then EsCancelled else EsPending
      | EsRunning \<Rightarrow>
          if \<not> process_bound (ef_request e) then EsPending
          else if ef_dispatch_started e \<and> \<not> is_steer (ef_request e) then EsUncertain else EsCancelled
      | EsUncertain \<Rightarrow> if is_steer (ef_request e) then EsCancelled else EsUncertain
      | st \<Rightarrow> st)"

text \<open>The five updates of a restart, on one row.\<close>

definition rec_receipt :: "int \<Rightarrow> bool \<Rightarrow> Effect \<Rightarrow> Effect" where
  "rec_receipt now acc e = (if is_steer (ef_request e) \<and> ef_status e \<in> {EsRunning, EsUncertain} \<and> acc
     then (release e)\<lparr>ef_status := EsSucceeded, ef_completed_at := Some now, ef_last_error := None\<rparr> else e)"

definition rec_uncertain :: "Effect \<Rightarrow> Effect" where
  "rec_uncertain e = (if ef_status e = EsRunning \<and> process_bound (ef_request e) \<and> ef_dispatch_started e
     then (release e)\<lparr>ef_status := EsUncertain, ef_last_error := Some ''Process lost after dispatch began.''\<rparr> else e)"

definition rec_retire :: "int \<Rightarrow> Effect \<Rightarrow> Effect" where
  "rec_retire now e = (if process_bound (ef_request e) \<and> ef_status e \<in> {EsPending, EsRunning}
     then cancel_row now ''Process work retired on startup.'' e else e)"

definition rec_steering :: "int \<Rightarrow> Effect \<Rightarrow> Effect" where
  "rec_steering now e = (if is_steer (ef_request e) \<and> ef_status e = EsUncertain
     then e\<lparr>ef_status := EsCancelled, ef_completed_at := Some now,
       ef_last_error := Some ''Unconfirmed steering retained on startup.''\<rparr> else e)"

definition rec_requeue :: "int \<Rightarrow> Effect \<Rightarrow> Effect" where
  "rec_requeue now e = (if ef_status e = EsRunning \<and> \<not> process_bound (ef_request e)
     then (release e)\<lparr>ef_status := EsPending, ef_dispatch_started := False, ef_available_at := now,
       ef_last_error := Some ''Replay-safe work requeued on startup.''\<rparr> else e)"

definition rec_row :: "int \<Rightarrow> bool \<Rightarrow> Effect \<Rightarrow> Effect" where
  "rec_row now acc e = rec_requeue now (rec_steering now (rec_retire now (rec_uncertain (rec_receipt now acc e))))"

lemma recover_steps:
  "ob_rows (recover_receipts now s) = map (\<lambda>e. rec_receipt now (confirmed (ef_id e) s) e) (ob_rows s)"
  "ob_rows (recover_uncertain s) = map rec_uncertain (ob_rows s)"
  "ob_rows (recover_retire now s) = map (rec_retire now) (ob_rows s)"
  "ob_rows (recover_steering now s) = map (rec_steering now) (ob_rows s)"
  "ob_rows (recover_requeue now s) = map (rec_requeue now) (ob_rows s)"
  unfolding recover_receipts_def recover_uncertain_def recover_retire_def recover_steering_def
    recover_requeue_def update_rows rec_receipt_def rec_uncertain_def rec_retire_def rec_steering_def rec_requeue_def
  by simp_all

lemma recover_rows: "ob_rows (recover_effects now s) = map (\<lambda>e. rec_row now (confirmed (ef_id e) s) e) (ob_rows s)"
  by (simp add: recover_effects_def recover_steps rec_row_def)

lemma rec_steps_key:
  "ef_request (rec_receipt now acc e) = ef_request e" "ef_id (rec_receipt now acc e) = ef_id e"
  "ef_request (rec_uncertain e) = ef_request e" "ef_id (rec_uncertain e) = ef_id e"
  "ef_request (rec_retire now e) = ef_request e" "ef_id (rec_retire now e) = ef_id e"
  "ef_request (rec_steering now e) = ef_request e" "ef_id (rec_steering now e) = ef_id e"
  "ef_request (rec_requeue now e) = ef_request e" "ef_id (rec_requeue now e) = ef_id e"
  "ef_dispatch_started (rec_receipt now acc e) = ef_dispatch_started e"
  by (simp_all add: rec_receipt_def rec_uncertain_def rec_retire_def rec_steering_def rec_requeue_def cancel_row_def)

lemma rec_steps_status:
  "ef_status (rec_receipt now acc e) = (if is_steer (ef_request e) \<and> ef_status e \<in> {EsRunning, EsUncertain} \<and> acc
     then EsSucceeded else ef_status e)"
  "ef_status (rec_uncertain e) = (if ef_status e = EsRunning \<and> process_bound (ef_request e) \<and> ef_dispatch_started e
     then EsUncertain else ef_status e)"
  "ef_status (rec_retire now e) = (if process_bound (ef_request e) \<and> ef_status e \<in> {EsPending, EsRunning}
     then EsCancelled else ef_status e)"
  "ef_status (rec_steering now e) = (if is_steer (ef_request e) \<and> ef_status e = EsUncertain
     then EsCancelled else ef_status e)"
  "ef_status (rec_requeue now e) = (if ef_status e = EsRunning \<and> \<not> process_bound (ef_request e)
     then EsPending else ef_status e)"
  by (auto simp: rec_receipt_def rec_uncertain_def rec_retire_def rec_steering_def rec_requeue_def cancel_row_def)

lemma rec_row_status: "ef_status (rec_row now acc e) = rec_status acc e"
  unfolding rec_row_def rec_steps_status rec_steps_key rec_status_def active_row_def
  using steer_bound [of "ef_request e"]
  by (cases "ef_status e"; cases "is_steer (ef_request e)"; cases "process_bound (ef_request e)") auto

lemma rec_row_id: "ef_id (rec_row now acc e) = ef_id e" "ef_request (rec_row now acc e) = ef_request e"
  by (simp_all add: rec_row_def rec_steps_key)

definition rested :: "Effect \<Rightarrow> bool" where
  "rested e \<longleftrightarrow> ef_status e \<noteq> EsRunning \<and> (process_bound (ef_request e) \<longrightarrow> ef_status e \<noteq> EsPending) \<and>
     (is_steer (ef_request e) \<longrightarrow> ef_status e \<noteq> EsUncertain)"

lemma rec_row_rested: "rested (rec_row now acc e)"
  unfolding rested_def rec_row_id rec_row_status rec_status_def active_row_def
  using steer_bound [of "ef_request e"] by (cases "ef_status e") auto

lemma rested_fixed:
  assumes "rested e"
  shows "rec_row now acc e = e"
proof -
  have "rec_receipt now acc e = e" "rec_uncertain e = e" "rec_retire now e = e" "rec_steering now e = e" "rec_requeue now e = e"
    using assms unfolding rested_def rec_receipt_def rec_uncertain_def rec_retire_def rec_steering_def rec_requeue_def
    by auto
  then show ?thesis by (simp add: rec_row_def)
qed

text \<open>C31: Restart. Recovery gives every row the status \<open>rec_status\<close> says, in place and in order: a
  steering message with a receipt has succeeded; dispatched work of the dead process is uncertain and
  keeps its lane, undispatched work is cancelled and so is steering nobody confirmed; everything else
  that was running is pending again. No row is running, no pending row belongs to the process, no
  runtime is bound, and recovering again changes no row.\<close>

theorem recovery_settles:
  "map ef_id (ob_rows (recover_effects now s)) = map ef_id (ob_rows s) \<and>
   map ef_status (ob_rows (recover_effects now s)) = map (\<lambda>e. rec_status (confirmed (ef_id e) s) e) (ob_rows s) \<and>
   list_all rested (ob_rows (recover_effects now s)) \<and>
   ob_targets (recover_effects now s) = [] \<and> ob_epoch (recover_effects now s) = ob_epoch s + 1 \<and>
   ob_rows (recover_effects later (recover_effects now s)) = ob_rows (recover_effects now s)"
proof -
  have "ob_rows (recover_effects later (recover_effects now s)) = ob_rows (recover_effects now s)"
    unfolding recover_rows [of later] by (rule map_idI) (auto simp: recover_rows rec_row_rested intro: rested_fixed)
  then show ?thesis
    by (simp add: recover_rows rec_row_id rec_row_status rec_row_rested list_all_iff) (simp add: recover_effects_def)
qed

section \<open>Retries\<close>

lemma retry_delay: "100 \<le> retry_delay_ms n \<and> retry_delay_ms n \<le> 30000"
proof -
  have "(1::int) \<le> 2 ^ min (n - 1) 20" by simp
  then show ?thesis by (simp add: retry_delay_ms_def)
qed

lemma retry_delay_mono: "n \<le> k \<Longrightarrow> retry_delay_ms n \<le> retry_delay_ms k"
proof -
  assume "n \<le> k"
  then have "(2::int) ^ min (n - 1) 20 \<le> 2 ^ min (k - 1) 20" by (intro power_increasing) auto
  then show ?thesis unfolding retry_delay_ms_def by linarith
qed

section \<open>Stale claims\<close>

lemma update_missed:
  "\<forall>e \<in> set (ob_rows s). \<not> P e \<Longrightarrow> update_where P f s = s \<and> count_where P s \<noteq> 1"
proof -
  assume n: "\<forall>e \<in> set (ob_rows s). \<not> P e"
  then have "map (\<lambda>e. if P e then f e else e) (ob_rows s) = ob_rows s" by (intro map_idI) simp
  moreover have "filter P (ob_rows s) = []" using n by (simp add: filter_empty_conv)
  ultimately show ?thesis by (simp add: update_where_def count_where_def)
qed

lemma finish_stale:
  assumes n: "\<forall>e \<in> set (ob_rows s). \<not> holds_claim c e"
  shows "finish_effect c oc now m s = (s, False)"
proof (cases "finish_effect c oc now m s")
  case (Pair s' ok)
  obtain st a err P where P: "P = (\<lambda>e. holds_claim c e \<and> sql_gt (ef_lease_expires_at e) now)"
    and s': "s' = update_where P (settle_row st a err now) s" "ok = (count_where P s = 1)"
    using finish_form [OF Pair] by metis
  have "\<forall>e \<in> set (ob_rows s). \<not> P e" using n P by simp
  from update_missed [OF this] show ?thesis using s' Pair by simp
qed

lemma abandon_stale: "\<forall>e \<in> set (ob_rows s). \<not> holds_claim c e \<Longrightarrow> abandon_effect c now s = (s, False)"
  using update_missed [of s "holds_claim c"] by (simp add: abandon_effect_def)

lemma abandon_held:
  assumes "distinct (map ef_id (ob_rows s))" "e \<in> set (ob_rows s)" "holds_claim c e"
  shows "snd (abandon_effect c now s)"
proof -
  obtain us vs where r: "ob_rows s = us @ e # vs" "\<forall>x \<in> set us \<union> set vs. ef_id x \<noteq> ef_id e"
    using row_split [OF assms(2,1)] .
  have id: "ef_id x = ef_id e" if "holds_claim c x" for x
    using holds_claim_id [OF that] holds_claim_id [OF assms(3)] by simp
  have "count_where (holds_claim c) s = 1"
    using update_one(2) [where P = "holds_claim c", OF r(2) id assms(3)] by (simp add: count_where_def r(1))
  then show ?thesis by (simp add: abandon_effect_def)
qed

lemma finish_False:
  assumes "finish_effect c oc now m s = (s', False)" "distinct (map ef_id (ob_rows s))"
  shows "s' = s"
proof -
  obtain st a err P where P: "P = (\<lambda>e. holds_claim c e \<and> sql_gt (ef_lease_expires_at e) now)"
    and s': "s' = update_where P (settle_row st a err now) s" "\<not> count_where P s = 1"
    using finish_form [OF assms(1)] by metis
  have id: "ef_id x = ef_id c" if "P x" for x using that by (simp add: P holds_claim_id)
  show ?thesis
    by (rule update_claim [where P = P and f = "settle_row st a err now" and i = "ef_id c", OF assms(2) id])
       (use s' in \<open>simp_all add: update_where_def\<close>)
qed

lemma settle_held:
  assumes d: "distinct (map ef_id (ob_rows s))" and e: "e \<in> set (ob_rows s)" "holds_claim c e"
  shows "settle_execution c x now m s \<noteq> None"
proof (cases "execution_outcome (ef_request c) x")
  case (Some oc)
  show ?thesis
  proof (cases "finish_effect c oc now m s")
    case (Pair s1 ok)
    show ?thesis
    proof (cases ok)
      case False
      then have "s1 = s" using finish_False [OF _ d] Pair by simp
      moreover obtain s2 where "abandon_effect c now s = (s2, True)"
        using abandon_held [OF d e, of now] by (cases "abandon_effect c now s") auto
      ultimately show ?thesis using Some Pair by (simp add: settle_execution_def)
    qed (use Some Pair in \<open>simp add: settle_execution_def\<close>)
  qed
qed (simp add: settle_execution_def)

text \<open>C32: Fencing. A claim no row holds any more (another worker or another attempt owns the row, or it
  is no longer running) can neither begin, nor finish, nor abandon it: the outbox does not change, and
  the worker reports a lost lease unless the effect was cancelled. A claim that is still held can
  always be settled, even after its lease ran out.\<close>

theorem settling_is_fenced:
  assumes d: "distinct (map ef_id (ob_rows s))"
  shows "if list_ex (holds_claim c) (ob_rows s)
    then settle_execution c x now m s \<noteq> None
    else begin_effect c now s = (s, False) \<and> finish_effect c oc now m s = (s, False) \<and>
      abandon_effect c now s = (s, False) \<and>
      settle_execution c x now m s =
        (if x = ExCancelled \<or> map_option ef_status (effect (ef_id c) s) = Some EsCancelled then Some s else None)"
proof (cases "list_ex (holds_claim c) (ob_rows s)")
  case True
  then show ?thesis using settle_held [OF d] by (auto simp: list_ex_iff)
next
  case False
  then have n: "\<forall>e \<in> set (ob_rows s). \<not> holds_claim c e" by (simp add: list_ex_iff)
  then have "begin_effect c now s = (s, False)"
    using update_missed [of s "\<lambda>e. holds_claim c e \<and> sql_gt (ef_lease_expires_at e) now \<and> \<not> ef_dispatch_started e"]
    by (simp add: begin_effect_def)
  then show ?thesis
    using False finish_stale [OF n] abandon_stale [OF n]
    by (cases x) (simp_all add: settle_execution_def execution_outcome_def)
qed

section \<open>A run\<close>

text \<open>A start is claimed, dispatched and found safe to retry, then claimed and dispatched again, while
  a checkpoint of the same thread waits behind it.\<close>

definition run_start :: Outbox where
  "run_start = \<lparr>ob_rows = [], ob_accepted = [], ob_inputs = [], ob_controls = [], ob_targets = [], ob_epoch = 1\<rparr>"

definition run_queued :: Outbox where
  "run_queued = the (enqueue None ''e2'' ''c'' ''t'' (CheckpointCapture ''r'' ''k'') 0
     (the (enqueue None ''e1'' ''c'' ''t'' (ProviderTurnStart ''r'') 0 run_start)))"

definition run_claim1 :: "Outbox \<times> Effect option" where "run_claim1 = claim_effect ''w1'' 10 1000 run_queued"
definition run_begin1 :: "Outbox \<times> bool" where
  "run_begin1 = begin_effect (the (snd run_claim1)) 11 (fst run_claim1)"
definition run_retry :: "Outbox \<times> bool" where
  "run_retry = finish_effect (the (snd run_claim1)) OcRetry 20 5 (fst run_begin1)"
definition run_claim2 :: "Outbox \<times> Effect option" where "run_claim2 = claim_effect ''w2'' 200 1000 (fst run_retry)"
definition run_begin2 :: "Outbox \<times> bool" where
  "run_begin2 = begin_effect (the (snd run_claim2)) 201 (fst run_claim2)"

abbreviation run_log :: "ef_event list" where
  "run_log \<equiv> [EvClaim ''e1'' 1, EvDispatch ''e1'' 1, EvRetry ''e1'' 1, EvClaim ''e1'' 2, EvDispatch ''e1'' 2]"

lemma calls_enqueue: "enqueue po i cmd thread r now s \<noteq> None \<Longrightarrow> effect_calls m (s0, l0) (s, l) \<Longrightarrow>
    effect_calls m (s0, l0) (the (enqueue po i cmd thread r now s), l)"
  by (erule rtranclp.rtrancl_into_rtrancl) (auto intro: effect_call.Enqueue)

lemma calls_claim: "snd (claim_effect w now lease s) = Some e \<Longrightarrow> effect_calls m (s0, l0) (s, l) \<Longrightarrow>
    effect_calls m (s0, l0) (fst (claim_effect w now lease s), l @ [EvClaim (ef_id e) (ef_attempt_count e)])"
  by (erule rtranclp.rtrancl_into_rtrancl) (metis effect_call.Claimed prod.collapse)

lemma calls_begin: "snd (begin_effect c now s) \<Longrightarrow> effect_calls m (s0, l0) (s, l) \<Longrightarrow>
    effect_calls m (s0, l0) (fst (begin_effect c now s), l @ [EvDispatch (ef_id c) (ef_attempt_count c)])"
  by (erule rtranclp.rtrancl_into_rtrancl) (metis (full_types) effect_call.Begun prod.collapse)

lemma calls_retry: "snd (finish_effect c oc now m s) \<Longrightarrow>
    map_option ef_status (effect (ef_id c) (fst (finish_effect c oc now m s))) = Some EsPending \<Longrightarrow>
    effect_calls m (s0, l0) (s, l) \<Longrightarrow>
    effect_calls m (s0, l0) (fst (finish_effect c oc now m s), l @ [EvRetry (ef_id c) (ef_attempt_count c)])"
  by (erule rtranclp.rtrancl_into_rtrancl) (metis (full_types) effect_call.Retried prod.collapse)

lemma run_facts:
  "enqueue None ''e1'' ''c'' ''t'' (ProviderTurnStart ''r'') 0 run_start \<noteq> None"
  "enqueue None ''e2'' ''c'' ''t'' (CheckpointCapture ''r'' ''k'') 0
     (the (enqueue None ''e1'' ''c'' ''t'' (ProviderTurnStart ''r'') 0 run_start)) \<noteq> None"
  "snd run_claim1 \<noteq> None" "ef_id (the (snd run_claim1)) = ''e1''" "ef_attempt_count (the (snd run_claim1)) = 1"
  "snd run_begin1 = True" "snd run_retry = True"
  "map_option ef_status (effect ''e1'' (fst run_retry)) = Some EsPending"
  "snd run_claim2 \<noteq> None" "ef_id (the (snd run_claim2)) = ''e1''" "ef_attempt_count (the (snd run_claim2)) = 2"
  "snd run_begin2 = True"
  "length (ob_rows (fst run_begin2)) = 2"
  by code_simp+

lemma run_calls: "effect_calls 5 (run_start, []) (fst run_begin2, run_log)"
proof -
  have q: "effect_calls 5 (run_start, []) (run_queued, [])"
    unfolding run_queued_def by (intro calls_enqueue run_facts rtranclp.rtrancl_refl)
  have c1: "effect_calls 5 (run_start, []) (fst run_claim1, [EvClaim ''e1'' 1])"
    using calls_claim [OF option.collapse [OF run_facts(3) [unfolded run_claim1_def], symmetric] q] run_facts(4,5)
    by (simp add: run_claim1_def)
  have b1: "effect_calls 5 (run_start, []) (fst run_begin1, [EvClaim ''e1'' 1, EvDispatch ''e1'' 1])"
    using calls_begin [OF _ c1, of "the (snd run_claim1)" 11] run_facts(4,5,6) by (simp add: run_begin1_def)
  have r1: "effect_calls 5 (run_start, []) (fst run_retry, [EvClaim ''e1'' 1, EvDispatch ''e1'' 1, EvRetry ''e1'' 1])"
    using calls_retry [OF _ _ b1, of "the (snd run_claim1)" OcRetry 20] run_facts(4,5,7,8) by (simp add: run_retry_def)
  have c2: "effect_calls 5 (run_start, []) (fst run_claim2,
      [EvClaim ''e1'' 1, EvDispatch ''e1'' 1, EvRetry ''e1'' 1, EvClaim ''e1'' 2])"
    using calls_claim [OF option.collapse [OF run_facts(9) [unfolded run_claim2_def], symmetric] r1] run_facts(10,11)
    by (simp add: run_claim2_def)
  show ?thesis
    using calls_begin [OF _ c2, of "the (snd run_claim2)" 201] run_facts(10,11,12) by (simp add: run_begin2_def)
qed

lemma run_row:
  "ob_rows (fst run_begin2) ! 0 \<in> set (ob_rows (fst run_begin2))"
  "process_bound (ef_request (ob_rows (fst run_begin2) ! 0))"
  "live_in_lane (ob_rows (fst run_begin2) ! 0) (ob_rows (fst run_begin2) ! 1)"
  "ef_id (ob_rows (fst run_begin2) ! 0) = ''e1''"
  "ob_rows run_start = []"
  using run_facts(13) by (simp, code_simp+)

lemma dispatches_are_paid_for_witness:
  "dispatches ''e1'' run_log \<le> 5 \<and> dispatches ''e1'' run_log = 2 \<and> retries ''e1'' run_log = 1"
  using dispatches_are_paid_for [OF run_calls run_row(5,1,2)] run_row(4)
  by (simp add: dispatches_def retries_def)

lemma lanes_in_order_witness:
  "ef_attempt_count (ob_rows (fst run_begin2) ! 1) = 0 \<and> active_row (ob_rows (fst run_begin2) ! 0)"
proof -
  have a: "active_row (ob_rows (fst run_begin2) ! 0)" by code_simp
  have "0 < (1::nat)" "1 < length (ob_rows (fst run_begin2))" using run_facts(13) by simp_all
  from lanes_in_order [OF run_calls run_row(5) this run_row(3)] show ?thesis using a row_states(5) by blast
qed

lemma wake_is_exact_witness:
  "next_effect_wake (fst run_retry) = Some 120 \<and> claim_effect ''w2'' 119 1000 (fst run_retry) = (fst run_retry, None) \<and>
   fst run_claim2 \<noteq> fst run_retry \<and> effect_delay (next_effect_wake (fst run_retry)) 119 = 1"
proof -
  have w: "next_effect_wake (fst run_retry) = Some 120" by code_simp
  have c: "claim_effect ''w2'' 119 1000 (fst run_retry) = (fst run_retry, None)"
    using wake_is_exact [of "fst run_retry" 119] by (simp add: w sql_le_def)
  moreover have "fst run_claim2 \<noteq> fst run_retry"
    using wake_is_exact [of "fst run_retry" 200 "''w2''" 1000] by (simp add: w sql_le_def run_claim2_def)
  moreover have "effect_delay (next_effect_wake (fst run_retry)) 119 = 1"
    unfolding w by code_simp
  ultimately show ?thesis using w by blast
qed

lemma settling_is_fenced_witness:
  "finish_effect (the (snd run_claim1)) OcSucceeded 300 5 (fst run_begin2) = (fst run_begin2, False) \<and>
   settle_execution (the (snd run_claim2)) ExTimeout 99999 5 (fst run_begin2) \<noteq> None"
proof -
  have d: "distinct (map ef_id (ob_rows (fst run_begin2)))" by code_simp
  have "\<not> list_ex (holds_claim (the (snd run_claim1))) (ob_rows (fst run_begin2))" by code_simp
  moreover have "list_ex (holds_claim (the (snd run_claim2))) (ob_rows (fst run_begin2))" by code_simp
  ultimately show ?thesis
    using settling_is_fenced [OF d, of "the (snd run_claim1)" ExTimeout 300 5 OcSucceeded]
      settling_is_fenced [OF d, of "the (snd run_claim2)" ExTimeout 99999 5] by simp
qed

end
