(* ===== verification/Chat_Frames.thy ===== *)
theory Chat_Frames
  imports Json "HOL-Library.Sublist"
begin

text \<open>
  The wire frames of a chat room (\<open>crates/sync/src/chat_frames.rs\<close>): a type byte, the header's
  length as four little-endian bytes, the header as JSON, the payload. \<open>serde_json\<close>'s printer and
  reader of bytes are the parameters \<open>ser\<close> and \<open>des\<close>; the typed headers are decoded from the JSON
  value the way \<open>serde\<close> derives it. \<open>parse_body\<close> is the reader of an HTTP response, a sequence of
  frames each with its length in front.
\<close>

type_synonym bytes = "8 word list"

section \<open>Frame types\<close>

abbreviation HELLO :: "8 word" where "HELLO \<equiv> 1"
abbreviation STATE :: "8 word" where "STATE \<equiv> 2"
abbreviation ROWS_REQ :: "8 word" where "ROWS_REQ \<equiv> 3"
abbreviation ROW :: "8 word" where "ROW \<equiv> 4"
abbreviation ROWS_DONE :: "8 word" where "ROWS_DONE \<equiv> 5"
abbreviation PUSH :: "8 word" where "PUSH \<equiv> 6"
abbreviation ACK :: "8 word" where "ACK \<equiv> 7"
abbreviation PRESENCE :: "8 word" where "PRESENCE \<equiv> 8"
abbreviation PROBE :: "8 word" where "PROBE \<equiv> 9"
abbreviation PROBE_OK :: "8 word" where "PROBE_OK \<equiv> 10"
abbreviation ERROR_FRAME :: "8 word" where "ERROR_FRAME \<equiv> 11"

definition MAX_HEADER_BYTES :: nat where "MAX_HEADER_BYTES = 4096"

section \<open>Encoding\<close>

text \<open>\<open>u32::to_le_bytes\<close> of a length cast to \<open>u32\<close>, and back.\<close>

definition le4 :: "nat \<Rightarrow> bytes" where
  "le4 n = [of_nat n, of_nat (n div 2 ^ 8), of_nat (n div 2 ^ 16), of_nat (n div 2 ^ 24)]"

definition from_le4 :: "bytes \<Rightarrow> nat" where
  "from_le4 b = unat (b ! 0) + 2 ^ 8 * unat (b ! 1) + 2 ^ 16 * unat (b ! 2) + 2 ^ 24 * unat (b ! 3)"

record WireFrame =
  wf_kind :: "8 word"
  wf_header :: json
  wf_payload :: bytes

definition encode :: "(json \<Rightarrow> bytes) \<Rightarrow> 8 word \<Rightarrow> json \<Rightarrow> bytes \<Rightarrow> bytes" where
  "encode ser kind header payload =
     (let h = ser header in kind # le4 (length h) @ h @ payload)"

definition decode :: "(bytes \<Rightarrow> json option) \<Rightarrow> bytes \<Rightarrow> WireFrame option" where
  "decode des b =
     (if length b < 5 then None
      else (let n = from_le4 (take 4 (drop 1 b)) in
        if n > MAX_HEADER_BYTES \<or> 5 + n > length b then None
        else (case des (take n (drop 5 b)) of
            None \<Rightarrow> None
          | Some h \<Rightarrow> if is_obj h = None then None
              else Some \<lparr>wf_kind = b ! 0, wf_header = h, wf_payload = drop (5 + n) b\<rparr>)))"

text \<open>The frames of an HTTP response. A frame that does not decode is skipped, a truncated one ends
  the response.\<close>

function parse_body :: "(bytes \<Rightarrow> json option) \<Rightarrow> bytes \<Rightarrow> WireFrame list" where
  "parse_body des b =
     (if length b < 4 then []
      else (let n = from_le4 (take 4 b); rest = drop 4 b in
        if n > length rest then []
        else (case decode des (take n rest) of None \<Rightarrow> [] | Some f \<Rightarrow> [f]) @ parse_body des (drop n rest)))"
  by pat_completeness auto
termination by (relation "measure (length \<circ> snd)") auto

declare parse_body.simps [simp del]

section \<open>Headers\<close>

definition hello_header :: "nat \<Rightarrow> string \<Rightarrow> json" where
  "hello_header cursor device = JObj [(''cursor'', enc_u64 cursor), (''device'', JStr device)]"

definition rows_req_header :: "nat \<Rightarrow> bool \<Rightarrow> json" where
  "rows_req_header after exclude_own = JObj [(''after'', enc_u64 after), (''excludeOwn'', JBool exclude_own)]"

definition push_header :: "string \<Rightarrow> json" where
  "push_header batch_id = JObj [(''batchId'', JStr batch_id)]"

definition presence_out_header :: "int \<Rightarrow> json" where
  "presence_out_header at = JObj [(''at'', JInt at)]"

record StateHeader =
  sh_head_seq :: nat
  sh_seq_floor :: nat
  sh_checkpoint_seq :: nat
  sh_checkpoint_size :: nat
  sh_row_count :: nat
  sh_row_bytes :: nat

definition dec_state_header :: "json \<Rightarrow> StateHeader option" where
  "dec_state_header v = do {
     h \<leftarrow> req as_u64 ''headSeq'' v;
     f \<leftarrow> req as_u64 ''seqFloor'' v;
     c \<leftarrow> req as_u64 ''checkpointSeq'' v;
     z \<leftarrow> req as_u64 ''checkpointSize'' v;
     n \<leftarrow> dflt 0 as_u64 ''rowCount'' v;
     b \<leftarrow> dflt 0 as_u64 ''rowBytes'' v;
     Some \<lparr>sh_head_seq = h, sh_seq_floor = f, sh_checkpoint_seq = c, sh_checkpoint_size = z,
       sh_row_count = n, sh_row_bytes = b\<rparr>}"

record RowHeader =
  rh_seq :: nat
  rh_device :: string
  rh_batch_id :: string

definition dec_row_header :: "json \<Rightarrow> RowHeader option" where
  "dec_row_header v = do {
     s \<leftarrow> req as_u64 ''seq'' v;
     d \<leftarrow> req as_str ''device'' v;
     b \<leftarrow> req as_str ''batchId'' v;
     Some \<lparr>rh_seq = s, rh_device = d, rh_batch_id = b\<rparr>}"

definition dec_rows_done_header :: "json \<Rightarrow> nat option" where
  "dec_rows_done_header v = req as_u64 ''headSeq'' v"

record AckHeader =
  ah_batch_id :: string
  ah_seq :: nat
  ah_dup :: bool

definition dec_ack_header :: "json \<Rightarrow> AckHeader option" where
  "dec_ack_header v = do {
     b \<leftarrow> req as_str ''batchId'' v;
     s \<leftarrow> req as_u64 ''seq'' v;
     d \<leftarrow> dflt False as_bool ''dup'' v;
     Some \<lparr>ah_batch_id = b, ah_seq = s, ah_dup = d\<rparr>}"

definition dec_probe_ok_header :: "json \<Rightarrow> nat option" where
  "dec_probe_ok_header v = req as_u64 ''headSeq'' v"

section \<open>Round trips\<close>

lemma length_le4 [simp]: "length (le4 n) = 4"
  by (simp add: le4_def)

lemma from_le4_le4: "n < 2 ^ 32 \<Longrightarrow> from_le4 (le4 n) = n"
proof -
  assume n: "n < 2 ^ 32"
  define a b c where abc: "a = n div 256" "b = a div 256" "c = b div 256"
  have "n = 256 * a + n mod 256" "a = 256 * b + a mod 256" "b = 256 * c + b mod 256"
    unfolding abc by (rule mult_div_mod_eq [symmetric])+
  moreover have "n div 65536 = b" "n div 16777216 = c" by (simp_all add: abc div_mult2_eq [symmetric])
  ultimately have "n = n mod 2 ^ 8 + 2 ^ 8 * (n div 2 ^ 8 mod 2 ^ 8) + 2 ^ 16 * (n div 2 ^ 16 mod 2 ^ 8) + 2 ^ 24 * (n div 2 ^ 24)"
    by (simp flip: abc)
  moreover have "n div 2 ^ 24 < 2 ^ 8" using n by simp
  ultimately show ?thesis by (simp add: from_le4_def le4_def unat_of_nat)
qed

lemma take_le4 [simp]: "take 4 (le4 n @ b) = le4 n" "drop 4 (le4 n @ b) = b"
  by simp_all

lemma decode_encode:
  assumes "des (ser (JObj m)) = Some (JObj m)" "length (ser (JObj m)) \<le> MAX_HEADER_BYTES"
  shows "decode des (encode ser k (JObj m) p) = Some \<lparr>wf_kind = k, wf_header = JObj m, wf_payload = p\<rparr>"
proof -
  have "length (ser (JObj m)) < 2 ^ 32" using assms(2) by (simp add: MAX_HEADER_BYTES_def)
  note n = from_le4_le4 [OF this]
  show ?thesis using assms
    by (simp add: decode_def encode_def Let_def n drop_Cons')
qed

lemma length_encode: "length (encode ser k h p) = 5 + length (ser h) + length p"
  by (simp add: encode_def Let_def)

lemma parse_body_frame:
  assumes "length f < 2 ^ 32"
  shows "parse_body des (le4 (length f) @ f @ rest) =
    (case decode des f of None \<Rightarrow> [] | Some x \<Rightarrow> [x]) @ parse_body des rest"
  by (subst parse_body.simps) (simp add: Let_def from_le4_le4 [OF assms])

lemma parse_body_short: "length b < 4 \<Longrightarrow> parse_body des b = []"
  by (subst parse_body.simps) simp

text \<open>Reading a response that broke off gives the first of its frames.\<close>

lemma parse_body_prefix: "prefix (parse_body des (take k b)) (parse_body des b)"
proof (induction des b arbitrary: k rule: parse_body.induct)
  case (1 des b)
  show ?case
  proof (cases "length (take k b) < 4 \<or> from_le4 (take 4 b) > length (take k b) - 4")
    case True
    then have "parse_body des (take k b) = []"
      by (subst parse_body.simps) (auto simp: Let_def min_def)
    then show ?thesis by simp
  next
    case False
    let ?n = "from_le4 (take 4 b)"
    have k: "4 \<le> length b" "\<not> length b < 4" "4 + ?n \<le> k" "4 + ?n \<le> length b" "\<not> ?n > length (drop 4 b)" using False by auto
    have t: "take 4 (take k b) = take 4 b" using k by (simp add: min_def)
    have d: "take ?n (drop 4 (take k b)) = take ?n (drop 4 b)"
      using k by (simp add: drop_take min_def)
    have "parse_body des (take k b) = (case decode des (take ?n (drop 4 b)) of None \<Rightarrow> [] | Some f \<Rightarrow> [f]) @
        parse_body des (take (k - 4 - ?n) (drop ?n (drop 4 b)))"
      by (subst parse_body.simps) (use k False in \<open>simp add: Let_def t d drop_take add.commute [of 4]\<close>)
    moreover have "parse_body des b = (case decode des (take ?n (drop 4 b)) of None \<Rightarrow> [] | Some f \<Rightarrow> [f]) @
        parse_body des (drop ?n (drop 4 b))"
      by (subst parse_body.simps) (use k in \<open>simp add: Let_def\<close>)
    ultimately show ?thesis using "1.IH" [OF k(2) refl refl k(5)] by simp
  qed
qed

text \<open>C36: Frames. Whatever JSON printer and reader are used, if they agree on the headers sent (each an
  object of at most 4096 bytes): a frame decodes to its type, header and payload; a response of framed
  frames is read back in order; and a response cut off anywhere reads as a prefix of the frames, never
  as something else.\<close>

theorem frames_roundtrip:
  assumes "\<forall>f \<in> set fs. \<exists>m. wf_header f = JObj m \<and> des (ser (JObj m)) = Some (JObj m) \<and>
      length (ser (JObj m)) \<le> MAX_HEADER_BYTES \<and> length (wf_payload f) < 2 ^ 31"
  shows "map (\<lambda>f. decode des (encode ser (wf_kind f) (wf_header f) (wf_payload f))) fs = map Some fs \<and>
    parse_body des (concat (map (\<lambda>f. le4 (length (encode ser (wf_kind f) (wf_header f) (wf_payload f))) @
      encode ser (wf_kind f) (wf_header f) (wf_payload f)) fs)) = fs \<and>
    prefix (parse_body des (take k body)) (parse_body des body)"
proof -
  have d: "decode des (encode ser (wf_kind f) (wf_header f) (wf_payload f)) = Some f \<and>
      length (encode ser (wf_kind f) (wf_header f) (wf_payload f)) < 2 ^ 32" if "f \<in> set fs" for f
    using assms that by (fastforce simp: decode_encode length_encode MAX_HEADER_BYTES_def)
  then have "parse_body des (concat (map (\<lambda>f. le4 (length (encode ser (wf_kind f) (wf_header f) (wf_payload f))) @
      encode ser (wf_kind f) (wf_header f) (wf_payload f)) fs)) = fs"
    by (induction fs) (simp_all add: parse_body_short parse_body_frame)
  then show ?thesis using d parse_body_prefix by (simp add: map_eq_conv)
qed

definition demo_ser :: "json \<Rightarrow> bytes" where
  "demo_ser v = (case v of JObj [(k, JInt i)] \<Rightarrow> [of_int i] | _ \<Rightarrow> [])"

definition demo_des :: "bytes \<Rightarrow> json option" where
  "demo_des b = (case b of [x] \<Rightarrow> Some (JObj [(''headSeq'', JInt (uint x))]) | _ \<Rightarrow> None)"

lemma frames_roundtrip_witness:
  "parse_body demo_des (le4 8 @ encode demo_ser ROWS_DONE (JObj [(''headSeq'', JInt 7)]) [1, 2]) =
     [\<lparr>wf_kind = ROWS_DONE, wf_header = JObj [(''headSeq'', JInt 7)], wf_payload = [1, 2]\<rparr>]"
proof -
  let ?f = "\<lparr>wf_kind = ROWS_DONE, wf_header = JObj [(''headSeq'', JInt 7)], wf_payload = [1, 2]\<rparr>"
  have h: "\<forall>f \<in> set [?f]. \<exists>m. wf_header f = JObj m \<and> demo_des (demo_ser (JObj m)) = Some (JObj m) \<and>
      length (demo_ser (JObj m)) \<le> MAX_HEADER_BYTES \<and> length (wf_payload f) < 2 ^ 31"
    by (simp add: demo_ser_def demo_des_def MAX_HEADER_BYTES_def)
  have "length (encode demo_ser ROWS_DONE (JObj [(''headSeq'', JInt 7)]) [1, 2]) = 8"
    by (simp add: length_encode demo_ser_def)
  then show ?thesis using frames_roundtrip [OF h] by simp
qed

end
