(* ===== verification/Chat_Client.thy ===== *)
theory Chat_Client
  imports Chat_Frames
begin

text \<open>
  The chat room client (\<open>crates/sync/src/chat_client.rs\<close>): its shared state, the operations of the
  host on it, and what one inbound frame does. The document behind it is the trait \<open>ChatDocSink\<close>, a
  record of functions on a sink state \<open>'s\<close> of which the client knows nothing. A frame is handled in
  one piece; sent frames and lifecycle events are logged in order; the socket is open or closed. Times
  are milliseconds.
\<close>

section \<open>The document's side\<close>

datatype RowImportOutcome = RoApplied | RoPendingDependencies

text \<open>A fallible call answers whether it succeeded.\<close>

record 's ChatDocSink =
  sk_cursor_is_verified :: "'s \<Rightarrow> bool"
  sk_reset_cursor :: "nat \<Rightarrow> 's \<Rightarrow> 's"
  sk_pending_updates :: "'s \<Rightarrow> 's \<times> (string \<times> bytes) list option"
  sk_persist_update :: "string \<Rightarrow> bytes \<Rightarrow> 's \<Rightarrow> 's \<times> bool"
  sk_acknowledge_update :: "string \<Rightarrow> 's \<Rightarrow> 's \<times> bool"
  sk_reject_update :: "string \<Rightarrow> 's \<Rightarrow> 's \<times> bool"
  sk_apply_row :: "bytes \<Rightarrow> nat \<Rightarrow> 's \<Rightarrow> 's \<times> RowImportOutcome"
  sk_apply_replay_row :: "bytes \<Rightarrow> nat \<Rightarrow> 's \<Rightarrow> 's \<times> RowImportOutcome"
  sk_apply_checkpoint :: "bytes \<Rightarrow> nat \<Rightarrow> 's \<Rightarrow> 's \<times> bool"
  sk_contains_frontier :: "bytes \<Rightarrow> 's \<Rightarrow> bool"
  sk_advance_cursor :: "nat \<Rightarrow> 's \<Rightarrow> 's"

section \<open>Constants and state\<close>

definition MAX_PUSH_BYTES :: nat where "MAX_PUSH_BYTES = 1024 * 1024 - 4096"
definition PROBE_DEADLINE :: int where "PROBE_DEADLINE = 10000"
definition QUOTA_RETRY :: int where "QUOTA_RETRY = 5000"
definition BACKFILL_DEADLINE :: int where "BACKFILL_DEADLINE = 120000"
definition MAX_GAP_REPAIRS_PER_SESSION :: nat where "MAX_GAP_REPAIRS_PER_SESSION = 3"

datatype ChatEvent = CeConnected | CeCaughtUp nat | CeApplied | CeDisconnected | CePresence
  | CeServerReset | CePushRejected

record PendingPush =
  pp_batch_id :: string
  pp_bytes :: bytes
  pp_durable :: bool

record Shared =
  sd_cursor :: nat
  sd_caught_up :: bool
  sd_refresh_requested :: nat
  sd_refresh_completed :: nat
  sd_pending :: "PendingPush list"
  sd_server :: "StateHeader option"
  sd_retry_at :: "int option"
  sd_quota_blocked :: bool
  sd_gap_repair :: bool
  sd_rows_req_outstanding :: bool
  sd_replaying_gap :: bool
  sd_row_gap_generation :: nat
  sd_http_replay_epoch :: nat
  sd_http_live_epoch :: "nat option"
  sd_needs_checkpoint :: bool
  sd_causal_gap_generation :: nat

record ClientFlags =
  fl_connected :: bool
  fl_rejoins :: nat
  fl_disconnects :: nat
  fl_rejected :: nat
  fl_server_resets :: nat

text \<open>The frames the client sends; \<open>out_bytes\<close> is their encoding.\<close>

datatype OutFrame = OutHello nat string | OutRowsReq nat bool | OutPush string bytes
  | OutPresence int bytes | OutProbe

definition out_bytes :: "(json \<Rightarrow> bytes) \<Rightarrow> OutFrame \<Rightarrow> bytes" where
  "out_bytes ser f = (case f of
     OutHello cursor device \<Rightarrow> encode ser HELLO (hello_header cursor device) []
   | OutRowsReq after exclude_own \<Rightarrow> encode ser ROWS_REQ (rows_req_header after exclude_own) []
   | OutPush b bytes \<Rightarrow> encode ser PUSH (push_header b) bytes
   | OutPresence at payload \<Rightarrow> encode ser PRESENCE (presence_out_header at) payload
   | OutProbe \<Rightarrow> encode ser PROBE (JObj []) [])"

text \<open>\<open>cl_ready\<close>: the construction still waits for the first join, as it does without an HTTPS transport.\<close>

record 's Client =
  cl_shared :: Shared
  cl_sink :: 's
  cl_flags :: ClientFlags
  cl_events :: "ChatEvent list"
  cl_sent :: "OutFrame list"
  cl_open :: bool
  cl_amnesty_done :: bool
  cl_resumed :: bool
  cl_ready :: bool

abbreviation on_shared :: "(Shared \<Rightarrow> Shared) \<Rightarrow> 's Client \<Rightarrow> 's Client" where
  "on_shared f c \<equiv> c\<lparr>cl_shared := f (cl_shared c)\<rparr>"

abbreviation on_flags :: "(ClientFlags \<Rightarrow> ClientFlags) \<Rightarrow> 's Client \<Rightarrow> 's Client" where
  "on_flags f c \<equiv> c\<lparr>cl_flags := f (cl_flags c)\<rparr>"

abbreviation emit :: "ChatEvent \<Rightarrow> 's Client \<Rightarrow> 's Client" where
  "emit ev c \<equiv> c\<lparr>cl_events := cl_events c @ [ev]\<rparr>"

text \<open>\<open>pipe.tx.send\<close>: fails once the socket is gone.\<close>

definition send_frame :: "OutFrame \<Rightarrow> 's Client \<Rightarrow> 's Client \<times> bool" where
  "send_frame f c = (if cl_open c then (c\<lparr>cl_sent := cl_sent c @ [f]\<rparr>, True) else (c, False))"

definition wrap_succ :: "nat \<Rightarrow> nat" where
  "wrap_succ n = (n + 1) mod 2 ^ 64"

definition flag_gap :: "Shared \<Rightarrow> Shared" where
  "flag_gap s = s\<lparr>sd_gap_repair := True, sd_row_gap_generation := wrap_succ (sd_row_gap_generation s)\<rparr>"

definition retire :: "string \<Rightarrow> Shared \<Rightarrow> Shared" where
  "retire b s = s\<lparr>sd_pending := filter (\<lambda>p. pp_batch_id p \<noteq> b) (sd_pending s)\<rparr>"

section \<open>Catch-up planning\<close>

datatype CatchUpPlan = RowsOnly nat | CheckpointThenRows nat

definition plan_catch_up :: "nat \<Rightarrow> StateHeader \<Rightarrow> bool \<Rightarrow> CatchUpPlan" where
  "plan_catch_up cursor st frontier_contained =
     (let cursor = (if cursor > sh_head_seq st then 0 else cursor) in
      if sh_checkpoint_size st = 0 then RowsOnly cursor
      else if frontier_contained then RowsOnly (max cursor (sh_checkpoint_seq st))
      else CheckpointThenRows (sh_checkpoint_seq st))"

definition plan_after :: "CatchUpPlan \<Rightarrow> nat" where
  "plan_after p = (case p of RowsOnly a \<Rightarrow> a | CheckpointThenRows a \<Rightarrow> a)"

section \<open>Shared operations\<close>

fun mark_durable :: "string \<Rightarrow> PendingPush list \<Rightarrow> PendingPush list" where
  "mark_durable b [] = []"
| "mark_durable b (p # ps) = (if pp_batch_id p = b then p\<lparr>pp_durable := True\<rparr> # ps else p # mark_durable b ps)"

definition ensure_durable :: "'s ChatDocSink \<Rightarrow> PendingPush \<Rightarrow> 's Client \<Rightarrow> 's Client \<times> bool" where
  "ensure_durable K push c =
     (if pp_durable push then (c, True)
      else (case List.find (\<lambda>p. pp_batch_id p = pp_batch_id push) (sd_pending (cl_shared c)) of
          None \<Rightarrow> (c, True)
        | Some p \<Rightarrow>
            if pp_durable p then (c, True)
            else (case sk_persist_update K (pp_batch_id p) (pp_bytes p) (cl_sink c) of
                (s, True) \<Rightarrow> (on_shared (\<lambda>sd. sd\<lparr>sd_pending := mark_durable (pp_batch_id push) (sd_pending sd)\<rparr>)
                    (c\<lparr>cl_sink := s\<rparr>), True)
              | (s, False) \<Rightarrow> (c\<lparr>cl_sink := s\<rparr>, False))))"

definition apply_cursor_amnesty :: "'s ChatDocSink \<Rightarrow> StateHeader \<Rightarrow> 's Client \<Rightarrow> 's Client" where
  "apply_cursor_amnesty K st c =
     (if cl_amnesty_done c \<or> sk_cursor_is_verified K (cl_sink c) then c\<lparr>cl_amnesty_done := True\<rparr>
      else (let c = c\<lparr>cl_amnesty_done := True\<rparr>;
                clamp_to = (if sh_checkpoint_size st > 0 then sh_checkpoint_seq st else 0) in
        if sd_cursor (cl_shared c) > clamp_to
        then on_shared (\<lambda>sd. sd\<lparr>sd_cursor := clamp_to\<rparr>) (c\<lparr>cl_sink := sk_reset_cursor K 0 (cl_sink c)\<rparr>)
        else c))"

text \<open>The cursor a row proposes: the row's own number when it is the next, else where we are.\<close>

definition sat_succ :: "nat \<Rightarrow> nat" where
  "sat_succ n = min (2 ^ 64 - 1) (n + 1)"

definition propose_row :: "nat \<Rightarrow> Shared \<Rightarrow> Shared \<times> nat" where
  "propose_row seq sd =
     (if seq > sat_succ (sd_cursor sd) then (flag_gap sd, sd_cursor sd) else (sd, max (sd_cursor sd) seq))"

definition apply_remote_row :: "'s ChatDocSink \<Rightarrow> bytes \<Rightarrow> nat \<Rightarrow> bool \<Rightarrow> 's Client \<Rightarrow> 's Client" where
  "apply_remote_row K b seq replay c =
     (case propose_row seq (cl_shared c) of (sd, cursor) \<Rightarrow>
      case (if replay then sk_apply_replay_row K else sk_apply_row K) b cursor (cl_sink c) of
        (s, RoApplied) \<Rightarrow> c\<lparr>cl_sink := s, cl_shared := sd\<lparr>sd_cursor := max (sd_cursor sd) cursor\<rparr>\<rparr>
      | (s, RoPendingDependencies) \<Rightarrow> c\<lparr>cl_sink := s, cl_shared := sd\<lparr>sd_needs_checkpoint := True,
          sd_causal_gap_generation := wrap_succ (sd_causal_gap_generation sd)\<rparr>\<rparr>)"

section \<open>The host's calls\<close>

definition initial_shared :: "nat \<Rightarrow> (string \<times> bytes) list \<Rightarrow> Shared" where
  "initial_shared cursor pending = \<lparr>sd_cursor = cursor, sd_caught_up = False, sd_refresh_requested = 0,
     sd_refresh_completed = 0,
     sd_pending = map (\<lambda>(b, bytes). \<lparr>pp_batch_id = b, pp_bytes = bytes, pp_durable = True\<rparr>) pending,
     sd_server = None, sd_retry_at = None, sd_quota_blocked = False, sd_gap_repair = False,
     sd_rows_req_outstanding = False, sd_replaying_gap = False, sd_row_gap_generation = 0,
     sd_http_replay_epoch = 0, sd_http_live_epoch = None, sd_needs_checkpoint = False,
     sd_causal_gap_generation = 0\<rparr>"

definition connect_client :: "'s ChatDocSink \<Rightarrow> bool \<Rightarrow> nat \<Rightarrow> 's \<Rightarrow> 's Client option" where
  "connect_client K transport cursor s = (case sk_pending_updates K s of
     (s, None) \<Rightarrow> None
   | (s, Some pending) \<Rightarrow> Some \<lparr>cl_shared = initial_shared cursor pending, cl_sink = s,
       cl_flags = \<lparr>fl_connected = False, fl_rejoins = 0, fl_disconnects = 0, fl_rejected = 0, fl_server_resets = 0\<rparr>,
       cl_events = [], cl_sent = [], cl_open = False, cl_amnesty_done = False, cl_resumed = False,
       cl_ready = (\<not> transport)\<rparr>)"

definition enqueue_batch :: "'s ChatDocSink \<Rightarrow> string \<Rightarrow> bytes \<Rightarrow> 's Client \<Rightarrow> 's Client" where
  "enqueue_batch K b bytes c =
     (case sk_persist_update K b bytes (cl_sink c) of (s, durable) \<Rightarrow>
       (let c = c\<lparr>cl_sink := s\<rparr> in
        if length bytes > MAX_PUSH_BYTES
        then emit CePushRejected (on_flags (\<lambda>f. f\<lparr>fl_rejected := fl_rejected f + 1\<rparr>)
               (c\<lparr>cl_sink := fst (sk_reject_update K b (cl_sink c))\<rparr>))
        else if \<exists>p \<in> set (sd_pending (cl_shared c)). pp_batch_id p = b then c
        else on_shared (\<lambda>sd. sd\<lparr>sd_pending := sd_pending sd @
               [\<lparr>pp_batch_id = b, pp_bytes = bytes, pp_durable = durable\<rparr>]\<rparr>) c))"

definition probe_room :: "Shared \<Rightarrow> Shared" where
  "probe_room sd = sd\<lparr>sd_http_replay_epoch := wrap_succ (sd_http_replay_epoch sd)\<rparr>"

definition request_catch_up :: "Shared \<Rightarrow> Shared \<times> nat" where
  "request_catch_up sd = (sd\<lparr>sd_refresh_requested := sd_refresh_requested sd + 1\<rparr>, sd_refresh_requested sd + 1)"

definition catch_up_completed :: "nat \<Rightarrow> Shared \<Rightarrow> bool" where
  "catch_up_completed ticket sd \<longleftrightarrow> sd_refresh_completed sd \<ge> ticket \<and> sd_caught_up sd \<and>
     \<not> sd_needs_checkpoint sd \<and> \<not> sd_gap_repair sd"

definition note_checkpoint :: "nat \<Rightarrow> nat \<Rightarrow> Shared \<Rightarrow> Shared" where
  "note_checkpoint seq_covered byte_size sd = sd\<lparr>sd_server := map_option (\<lambda>h. h\<lparr>sh_checkpoint_seq := seq_covered,
     sh_checkpoint_size := byte_size, sh_seq_floor := seq_covered, sh_row_count := 0, sh_row_bytes := 0\<rparr>) (sd_server sd)\<rparr>"

definition delivery_live :: "'s Client \<Rightarrow> bool" where
  "delivery_live c = (let sd = cl_shared c in sd_caught_up sd \<and> \<not> sd_needs_checkpoint sd \<and> \<not> sd_gap_repair sd \<and>
     (fl_connected (cl_flags c) \<or> sd_http_live_epoch sd = Some (sd_http_replay_epoch sd)))"

definition caught_up :: "Shared \<Rightarrow> bool" where
  "caught_up sd \<longleftrightarrow> sd_caught_up sd \<and> \<not> sd_needs_checkpoint sd \<and> \<not> sd_gap_repair sd \<and>
     sd_refresh_completed sd \<ge> sd_refresh_requested sd"

record ChatStats =
  st_connected :: bool
  st_server_known :: bool
  st_cursor :: nat
  st_server :: StateHeader
  st_pending_pushes :: nat
  st_rejoins :: nat
  st_disconnects :: nat
  st_rejected :: nat
  st_server_resets :: nat

definition stats :: "'s Client \<Rightarrow> ChatStats" where
  "stats c = (let sd = cl_shared c; f = cl_flags c in
     \<lparr>st_connected = fl_connected f, st_server_known = (sd_server sd \<noteq> None), st_cursor = sd_cursor sd,
      st_server = (case sd_server sd of Some h \<Rightarrow> h | None \<Rightarrow> \<lparr>sh_head_seq = 0, sh_seq_floor = 0,
        sh_checkpoint_seq = 0, sh_checkpoint_size = 0, sh_row_count = 0, sh_row_bytes = 0\<rparr>),
      st_pending_pushes = length (sd_pending sd), st_rejoins = fl_rejoins f, st_disconnects = fl_disconnects f,
      st_rejected = fl_rejected f, st_server_resets = fl_server_resets f\<rparr>)"

section \<open>One inbound frame\<close>

definition on_row :: "'s ChatDocSink \<Rightarrow> WireFrame \<Rightarrow> bool \<Rightarrow> 's Client \<Rightarrow> 's Client \<times> bool" where
  "on_row K f replay c = (case dec_row_header (wf_header f) of
     None \<Rightarrow> (c, False)
   | Some row \<Rightarrow> (emit CeApplied
       (apply_remote_row K (wf_payload f) (rh_seq row) (replay \<or> sd_replaying_gap (cl_shared c)) c), True))"

text \<open>The cursor after an acknowledgement: the same contiguity rule as for rows.\<close>

definition ack_cursor :: "nat \<Rightarrow> Shared \<Rightarrow> Shared" where
  "ack_cursor seq sd = (if seq > wrap_succ (sd_cursor sd) then flag_gap sd
     else sd\<lparr>sd_cursor := max (sd_cursor sd) seq\<rparr>)"

definition quota_drain :: "int \<Rightarrow> Shared \<Rightarrow> Shared" where
  "quota_drain now sd = (if \<not> sd_quota_blocked sd then sd
     else if sd_pending sd = [] then sd\<lparr>sd_quota_blocked := False\<rparr>
     else sd\<lparr>sd_retry_at := Some now\<rparr>)"

definition on_ack :: "'s ChatDocSink \<Rightarrow> int \<Rightarrow> WireFrame \<Rightarrow> 's Client \<Rightarrow> 's Client \<times> bool" where
  "on_ack K now f c = (case dec_ack_header (wf_header f) of
     None \<Rightarrow> (c, False)
   | Some ack \<Rightarrow>
       (case sk_acknowledge_update K (ah_batch_id ack) (cl_sink c) of (s, ok) \<Rightarrow>
         (let sd1 = (if ok then retire (ah_batch_id ack) (cl_shared c)
                     else (cl_shared c)\<lparr>sd_retry_at := Some (now + QUOTA_RETRY)\<rparr>);
              sd2 = ack_cursor (ah_seq ack) sd1;
              sd3 = quota_drain now sd2
          in (emit CeApplied (c\<lparr>cl_shared := sd3, cl_sink := sk_advance_cursor K (sd_cursor sd2) s\<rparr>), True))))"

definition on_error :: "'s ChatDocSink \<Rightarrow> int \<Rightarrow> WireFrame \<Rightarrow> 's Client \<Rightarrow> 's Client \<times> bool" where
  "on_error K now f c =
     (let c = on_flags (\<lambda>g. g\<lparr>fl_rejected := fl_rejected g + 1\<rparr>) c;
          code = (case as_str (json_index (wf_header f) ''code'') of None \<Rightarrow> ''?'' | Some s \<Rightarrow> s);
          batch = (case as_str (json_index (wf_header f) ''batchId'') of None \<Rightarrow> [] | Some s \<Rightarrow> s)
      in if (code = ''too_large'' \<or> code = ''empty'' \<or> code = ''bad_push'') \<and> batch \<noteq> []
         then (case sk_reject_update K batch (cl_sink c) of
             (s, False) \<Rightarrow> (c\<lparr>cl_sink := s\<rparr>, False)
           | (s, True) \<Rightarrow>
               (let dropped = (\<exists>p \<in> set (sd_pending (cl_shared c)). pp_batch_id p = batch);
                    c = on_shared (retire batch) (c\<lparr>cl_sink := s\<rparr>)
                in (if dropped then emit CePushRejected c else c, True)))
         else if code = ''quota''
         then (on_shared (\<lambda>sd. sd\<lparr>sd_quota_blocked := True, sd_retry_at := Some (now + QUOTA_RETRY)\<rparr>) c, True)
         else (c, True))"

definition handle_frame_with_replay ::
  "'s ChatDocSink \<Rightarrow> int \<Rightarrow> WireFrame \<Rightarrow> bool \<Rightarrow> 's Client \<Rightarrow> 's Client \<times> bool" where
  "handle_frame_with_replay K now f replay c =
     (let k = wf_kind f in
      if k = ROW then on_row K f replay c
      else if k = ACK then on_ack K now f c
      else if k = PRESENCE then (emit CePresence c, True)
      else if k = ROWS_DONE
      then (on_shared (\<lambda>sd. sd\<lparr>sd_replaying_gap := False, sd_rows_req_outstanding := False\<rparr>) c, True)
      else if k = PROBE_OK
      then (case dec_probe_ok_header (wf_header f) of
          None \<Rightarrow> (c, True)
        | Some h \<Rightarrow> (on_shared (\<lambda>sd. sd\<lparr>sd_server := map_option (\<lambda>st. st\<lparr>sh_head_seq := max (sh_head_seq st) h\<rparr>)
              (sd_server sd)\<rparr>) c, True))
      else if k = STATE
      then (case dec_state_header (wf_header f) of
          None \<Rightarrow> (c, True)
        | Some st \<Rightarrow> (on_shared (\<lambda>sd. sd\<lparr>sd_server := Some st\<rparr>) c, True))
      else if k = ERROR_FRAME then on_error K now f c
      else (c, True))"

definition handle_frame :: "'s ChatDocSink \<Rightarrow> int \<Rightarrow> WireFrame \<Rightarrow> 's Client \<Rightarrow> 's Client \<times> bool" where
  "handle_frame K now f c = handle_frame_with_replay K now f False c"

section \<open>Pushing and repairing\<close>

text \<open>The batches of one round, until the outbox or the socket fails; with the ids sent.\<close>

fun push_batches :: "'s ChatDocSink \<Rightarrow> PendingPush list \<Rightarrow> string list \<Rightarrow> 's Client \<Rightarrow> ('s Client \<times> string list) \<times> bool" where
  "push_batches K [] in_flight c = ((c, in_flight), True)"
| "push_batches K (p # ps) in_flight c =
     (case ensure_durable K p c of
        (c, False) \<Rightarrow> ((c, in_flight), False)
      | (c, True) \<Rightarrow>
          (case send_frame (OutPush (pp_batch_id p) (pp_bytes p)) c of
             (c, False) \<Rightarrow> ((c, in_flight), False)
           | (c, True) \<Rightarrow> push_batches K ps (in_flight @ [pp_batch_id p]) c))"

definition push_pending :: "'s ChatDocSink \<Rightarrow> string list \<Rightarrow> 's Client \<Rightarrow> ('s Client \<times> string list) \<times> bool" where
  "push_pending K in_flight c =
     (let sd = cl_shared c;
          in_flight = filter (\<lambda>i. \<exists>p \<in> set (sd_pending sd). pp_batch_id p = i) in_flight
      in if sd_quota_blocked sd then ((c, in_flight), True)
         else push_batches K (filter (\<lambda>p. pp_batch_id p \<notin> set in_flight) (sd_pending sd)) in_flight c)"

definition push_head :: "'s ChatDocSink \<Rightarrow> 's Client \<Rightarrow> 's Client \<times> bool" where
  "push_head K c = (case sd_pending (cl_shared c) of
     [] \<Rightarrow> (c, True)
   | push # _ \<Rightarrow> (case ensure_durable K push c of
        (c, False) \<Rightarrow> (c, False)
      | (c, True) \<Rightarrow> send_frame (OutPush (pp_batch_id push) (pp_bytes push)) c))"

definition maybe_repair_gap :: "nat \<Rightarrow> 's Client \<Rightarrow> ('s Client \<times> nat) \<times> bool" where
  "maybe_repair_gap repairs c =
     (let sd = cl_shared c in
      if sd_needs_checkpoint sd then ((c, repairs), False)
      else if sd_rows_req_outstanding sd then ((c, repairs), True)
      else if \<not> sd_gap_repair sd then ((c, repairs), True)
      else (let after = sd_cursor sd;
                c = on_shared (\<lambda>sd. sd\<lparr>sd_gap_repair := False, sd_replaying_gap := True, sd_rows_req_outstanding := True\<rparr>) c;
                repairs = repairs + 1
            in if repairs > MAX_GAP_REPAIRS_PER_SESSION then ((c, repairs), False)
               else (case send_frame (OutRowsReq after False) c of (c, ok) \<Rightarrow> ((c, repairs), ok))))"

definition send_probe :: "int \<Rightarrow> int option \<Rightarrow> 's Client \<Rightarrow> ('s Client \<times> int option) \<times> bool" where
  "send_probe now probe_deadline c = (case send_frame OutProbe c of
     (c, False) \<Rightarrow> ((c, probe_deadline), False)
   | (c, True) \<Rightarrow> ((c, (case probe_deadline of None \<Rightarrow> Some (now + PROBE_DEADLINE) | Some d \<Rightarrow> Some d)), True))"

end
