(* ===== verification/Chat_Session.thy ===== *)
theory Chat_Session
  imports Chat_Client
begin

text \<open>
  The client's transports as state machines. \<open>ws_step\<close> is \<open>Actor::run_session\<close>: what the session
  does with each input of its \<open>select!\<close> loops, from the handshake through the checkpoint and the
  backfill to the steady state. \<open>pull_step\<close> is the HTTPS cycle of \<open>spawn_offline_sync\<close>, which runs
  beside the session on the same shared state. A phase holds the local variables of the code at that
  point; an input that a phase does not listen to changes nothing.
\<close>

section \<open>The socket session\<close>

record SteadyLocals =
  sl_in_flight :: "string list"
  sl_gap_repairs :: nat
  sl_refresh_in_flight :: "(nat \<times> int) option"
  sl_refresh_gap_deadline :: "int option"
  sl_probe_deadline :: "int option"
  sl_last_frame :: int

text \<open>Waiting for a state frame; fetching the checkpoint of a state, with the generation of the causal
  gap it repairs, the ticket it serves, the ids in flight and the frames received meanwhile; waiting for
  the end of the backfill; steady.\<close>

datatype WsPhase =
  WsDown
| WsStopped
| WsHello
| WsCheckpoint StateHeader nat nat "string list" "WireFrame list"
| WsBackfill nat "string list"
| WsSteady SteadyLocals

datatype WsInput =
  InOpen | InFrame "WireFrame option" | InClosed | InCheckpoint "bytes option" | InNudge
| InPresence int bytes | InProbe | InRedial | InRetryTimer | InQuietTimer | InDeadline | InShutdown

text \<open>\<open>SessionEnd::Reconnect\<close>, and what \<open>run\<close> does with it: a client that never joined gives up, its
  owner retries.\<close>

definition ws_reconnect :: "'s Client \<Rightarrow> WsPhase \<times> 's Client" where
  "ws_reconnect c =
     (let joined = fl_connected (cl_flags c);
          c = on_flags (\<lambda>f. f\<lparr>fl_connected := False, fl_disconnects := fl_disconnects f + 1\<rparr>) (c\<lparr>cl_open := False\<rparr>);
          c = (if joined then on_shared (\<lambda>sd. sd\<lparr>sd_http_replay_epoch := wrap_succ (sd_http_replay_epoch sd)\<rparr>) c else c)
      in (if cl_ready c then WsStopped else WsDown, emit CeDisconnected c))"

definition clear_rows_req :: "Shared \<Rightarrow> Shared" where
  "clear_rows_req sd = sd\<lparr>sd_replaying_gap := False, sd_rows_req_outstanding := False\<rparr>"

definition ws_open :: "string \<Rightarrow> 's Client \<Rightarrow> WsPhase \<times> 's Client" where
  "ws_open device c =
     (let c = on_shared clear_rows_req (c\<lparr>cl_open := True\<rparr>) in
      (WsHello, fst (send_frame (OutHello (sd_cursor (cl_shared c)) device) c)))"

text \<open>The top of the steady loop: a wake-up's read, unless a rows request is outstanding.\<close>

definition steady_top :: "int \<Rightarrow> SteadyLocals \<Rightarrow> 's Client \<Rightarrow> WsPhase \<times> 's Client" where
  "steady_top now l c =
     (let sd = cl_shared c;
          pending = sl_refresh_in_flight l = None \<and> sd_refresh_requested sd > sd_refresh_completed sd;
          l = l\<lparr>sl_refresh_gap_deadline := (if pending \<and> sd_rows_req_outstanding sd
                then (case sl_refresh_gap_deadline l of None \<Rightarrow> Some (now + BACKFILL_DEADLINE) | Some d \<Rightarrow> Some d)
                else None)\<rparr>
      in if pending \<and> \<not> sd_rows_req_outstanding sd
         then (case send_frame (OutRowsReq (sd_cursor sd) False)
                 (on_shared (\<lambda>sd. sd\<lparr>sd_rows_req_outstanding := True\<rparr>) c) of
             (c, False) \<Rightarrow> ws_reconnect c
           | (c, True) \<Rightarrow>
               (WsSteady (l\<lparr>sl_refresh_in_flight := Some (sd_refresh_requested sd, now + BACKFILL_DEADLINE)\<rparr>), c))
         else (WsSteady l, c))"

definition steady_or_reconnect :: "int \<Rightarrow> SteadyLocals \<Rightarrow> 's Client \<times> bool \<Rightarrow> WsPhase \<times> 's Client" where
  "steady_or_reconnect now l r = (if snd r then steady_top now l (fst r) else ws_reconnect (fst r))"

text \<open>The end of the backfill: caught up, then into the steady state.\<close>

definition finish_ticket :: "nat \<Rightarrow> nat \<Rightarrow> Shared \<Rightarrow> Shared" where
  "finish_ticket head ticket sd = (if \<not> sd_gap_repair sd \<and> sd_cursor sd \<ge> head
     then sd\<lparr>sd_refresh_completed := max (sd_refresh_completed sd) ticket\<rparr> else sd)"

definition ws_backfilled :: "int \<Rightarrow> nat \<Rightarrow> nat \<Rightarrow> string list \<Rightarrow> 's Client \<Rightarrow> WsPhase \<times> 's Client" where
  "ws_backfilled now head ticket in_flight c =
     (let c = c\<lparr>cl_resumed := True, cl_ready := False\<rparr>;
          c = (if \<not> sd_needs_checkpoint (cl_shared c)
               then emit (CeCaughtUp head) (on_shared (\<lambda>sd. finish_ticket head ticket (sd\<lparr>sd_caught_up := True\<rparr>)) c)
               else c)
      in case maybe_repair_gap 0 c of ((c, repairs), ok) \<Rightarrow>
         steady_or_reconnect now \<lparr>sl_in_flight = in_flight, sl_gap_repairs = repairs, sl_refresh_in_flight = None,
           sl_refresh_gap_deadline = None, sl_probe_deadline = None, sl_last_frame = now\<rparr> (c, ok))"

text \<open>The buffered frames: those before the end of the backfill replay history, those after it are
  live.\<close>

fun replay_buffered :: "'s ChatDocSink \<Rightarrow> int \<Rightarrow> WireFrame list \<Rightarrow> nat option \<Rightarrow> 's Client \<Rightarrow> ('s Client \<times> nat option) \<times> bool" where
  "replay_buffered K now [] head c = ((c, head), True)"
| "replay_buffered K now (f # fs) head c =
     (if head = None \<and> wf_kind f = ROWS_DONE
      then (case dec_rows_done_header (wf_header f) of
          None \<Rightarrow> ((c, head), False)
        | Some h \<Rightarrow> replay_buffered K now fs (Some h) c)
      else (case handle_frame_with_replay K now f (head = None) c of
          (c, False) \<Rightarrow> ((c, head), False)
        | (c, True) \<Rightarrow> replay_buffered K now fs head c))"

definition clear_needs_checkpoint :: "nat \<Rightarrow> Shared \<Rightarrow> Shared" where
  "clear_needs_checkpoint generation sd =
     (if sd_causal_gap_generation sd = generation then sd\<lparr>sd_needs_checkpoint := False\<rparr> else sd)"

definition ws_replay ::
  "'s ChatDocSink \<Rightarrow> int \<Rightarrow> nat \<Rightarrow> nat \<Rightarrow> string list \<Rightarrow> WireFrame list \<Rightarrow> 's Client \<Rightarrow> WsPhase \<times> 's Client" where
  "ws_replay K now generation ticket in_flight buffered c =
     (case replay_buffered K now buffered None (on_shared (clear_needs_checkpoint generation) c) of
        ((c, _), False) \<Rightarrow> ws_reconnect c
      | ((c, None), True) \<Rightarrow> (WsBackfill ticket in_flight, c)
      | ((c, Some head), True) \<Rightarrow> ws_backfilled now head ticket in_flight c)"

text \<open>The state frame: reset detection, cursor repair, the plan, the rows request and the outbox.\<close>

definition ws_state :: "'s ChatDocSink \<Rightarrow> int \<Rightarrow> StateHeader \<Rightarrow> bytes \<Rightarrow> 's Client \<Rightarrow> WsPhase \<times> 's Client" where
  "ws_state K now st frontier c =
     (let c = on_shared (\<lambda>sd. clear_rows_req (sd\<lparr>sd_server := Some st\<rparr>)) c;
          c = (if sd_cursor (cl_shared c) > sh_head_seq st
               then emit CeServerReset (on_flags (\<lambda>f. f\<lparr>fl_server_resets := fl_server_resets f + 1\<rparr>)
                      (c\<lparr>cl_sink := sk_reset_cursor K 0 (cl_sink c)\<rparr>))
               else c);
          c = apply_cursor_amnesty K st c;
          c = emit CeConnected (on_flags (\<lambda>f. f\<lparr>fl_connected := True,
                fl_rejoins := (if cl_ready c then fl_rejoins f else fl_rejoins f + 1)\<rparr>) c);
          repair = sd_needs_checkpoint (cl_shared c);
          generation = sd_causal_gap_generation (cl_shared c);
          contained = (sh_checkpoint_size st = 0 \<or> (\<not> repair \<and> sk_contains_frontier K frontier (cl_sink c)));
          plan = plan_catch_up (sd_cursor (cl_shared c)) st contained;
          after = plan_after plan;
          c = on_shared (\<lambda>sd. sd\<lparr>sd_cursor := after\<rparr>) c;
          ticket = sd_refresh_requested (cl_shared c)
      in case send_frame (OutRowsReq after (cl_resumed c \<and> \<not> repair)) c of
         (c, False) \<Rightarrow> ws_reconnect c
       | (c, True) \<Rightarrow>
           (case push_pending K [] c of
              ((c, _), False) \<Rightarrow> ws_reconnect c
            | ((c, in_flight), True) \<Rightarrow>
                (case plan of
                   CheckpointThenRows _ \<Rightarrow> (WsCheckpoint st generation ticket in_flight [], c)
                 | RowsOnly _ \<Rightarrow> ws_replay K now generation ticket in_flight [] c)))"

text \<open>A live frame: whatever it does, and the end of a wake-up's read.\<close>

definition refreshed :: "nat \<Rightarrow> nat \<Rightarrow> Shared \<Rightarrow> Shared" where
  "refreshed head ticket sd =
     (if sd_cursor sd \<ge> head \<and> \<not> sd_needs_checkpoint sd \<and> \<not> sd_gap_repair sd
      then sd\<lparr>sd_refresh_completed := max (sd_refresh_completed sd) ticket\<rparr>
      else if sd_cursor sd < head then flag_gap sd else sd)"

definition steady_frame ::
  "'s ChatDocSink \<Rightarrow> int \<Rightarrow> WireFrame \<Rightarrow> SteadyLocals \<Rightarrow> 's Client \<Rightarrow> WsPhase \<times> 's Client" where
  "steady_frame K now f l c =
     (let l = l\<lparr>sl_last_frame := now, sl_probe_deadline := None\<rparr>;
          head = (if wf_kind f = ROWS_DONE then dec_rows_done_header (wf_header f) else None)
      in case handle_frame K now f c of
         (c, False) \<Rightarrow> ws_reconnect c
       | (c, True) \<Rightarrow>
           (case (case (head, sl_refresh_in_flight l) of
                (Some h, Some (ticket, _)) \<Rightarrow> (l\<lparr>sl_refresh_in_flight := None\<rparr>, on_shared (refreshed h ticket) c)
              | _ \<Rightarrow> (l, c)) of
              (l, c) \<Rightarrow>
                (case maybe_repair_gap (sl_gap_repairs l) c of ((c, repairs), ok) \<Rightarrow>
                   steady_or_reconnect now (l\<lparr>sl_gap_repairs := repairs\<rparr>) (c, ok))))"

definition ws_steady ::
  "'s ChatDocSink \<Rightarrow> int \<Rightarrow> SteadyLocals \<Rightarrow> WsInput \<Rightarrow> 's Client \<Rightarrow> WsPhase \<times> 's Client" where
  "ws_steady K now l i c = (case i of
     InFrame (Some f) \<Rightarrow> steady_frame K now f l c
   | InNudge \<Rightarrow> (case push_pending K (sl_in_flight l) c of
        ((c, in_flight), ok) \<Rightarrow> steady_or_reconnect now (l\<lparr>sl_in_flight := in_flight\<rparr>) (c, ok))
   | InPresence at payload \<Rightarrow> steady_or_reconnect now l (send_frame (OutPresence at payload) c)
   | InProbe \<Rightarrow> (case send_probe now (sl_probe_deadline l) c of
        ((c, d), ok) \<Rightarrow> steady_or_reconnect now (l\<lparr>sl_probe_deadline := d\<rparr>) (c, ok))
   | InRetryTimer \<Rightarrow> steady_or_reconnect now l (push_head K (on_shared (\<lambda>sd. sd\<lparr>sd_retry_at := None\<rparr>) c))
   | InQuietTimer \<Rightarrow> (case send_probe now (sl_probe_deadline l) c of
        ((c, d), ok) \<Rightarrow> steady_or_reconnect now (l\<lparr>sl_probe_deadline := d, sl_last_frame := now\<rparr>) (c, ok))
   | InOpen \<Rightarrow> (WsSteady l, c)
   | InCheckpoint _ \<Rightarrow> (WsSteady l, c)
   | _ \<Rightarrow> ws_reconnect c)"

definition ws_step :: "'s ChatDocSink \<Rightarrow> string \<Rightarrow> int \<Rightarrow> WsInput \<Rightarrow> WsPhase \<times> 's Client \<Rightarrow> WsPhase \<times> 's Client" where
  "ws_step K device now i pc = (if i = InShutdown then (WsStopped, snd pc) else case pc of
     (WsStopped, c) \<Rightarrow> (WsStopped, c)
   | (WsDown, c) \<Rightarrow> (case i of InOpen \<Rightarrow> ws_open device c | _ \<Rightarrow> (WsDown, c))
   | (WsHello, c) \<Rightarrow> (case i of
        InFrame (Some f) \<Rightarrow>
          if wf_kind f \<noteq> STATE then (WsHello, c)
          else (case dec_state_header (wf_header f) of
              None \<Rightarrow> ws_reconnect c
            | Some st \<Rightarrow> ws_state K now st (wf_payload f) c)
      | InFrame None \<Rightarrow> ws_reconnect c
      | InClosed \<Rightarrow> ws_reconnect c
      | InDeadline \<Rightarrow> ws_reconnect c
      | _ \<Rightarrow> (WsHello, c))
   | (WsCheckpoint st generation ticket in_flight buffered, c) \<Rightarrow> (case i of
        InFrame (Some f) \<Rightarrow> (WsCheckpoint st generation ticket in_flight (buffered @ [f]), c)
      | InCheckpoint (Some bytes) \<Rightarrow>
          (case sk_apply_checkpoint K bytes (sh_checkpoint_seq st) (cl_sink c) of
             (s, False) \<Rightarrow> ws_reconnect (c\<lparr>cl_sink := s\<rparr>)
           | (s, True) \<Rightarrow> ws_replay K now generation ticket in_flight buffered
               (emit CeApplied (on_shared (\<lambda>sd. sd\<lparr>sd_cursor := max (sd_cursor sd) (sh_checkpoint_seq st)\<rparr>)
                 (c\<lparr>cl_sink := s\<rparr>))))
      | InFrame None \<Rightarrow> ws_reconnect c
      | InCheckpoint None \<Rightarrow> ws_reconnect c
      | InClosed \<Rightarrow> ws_reconnect c
      | InDeadline \<Rightarrow> ws_reconnect c
      | _ \<Rightarrow> (WsCheckpoint st generation ticket in_flight buffered, c))
   | (WsBackfill ticket in_flight, c) \<Rightarrow> (case i of
        InFrame (Some f) \<Rightarrow>
          if wf_kind f = ROWS_DONE
          then (case dec_rows_done_header (wf_header f) of
              None \<Rightarrow> ws_reconnect c
            | Some head \<Rightarrow> ws_backfilled now head ticket in_flight c)
          else (case handle_frame_with_replay K now f True c of
              (c, False) \<Rightarrow> ws_reconnect c
            | (c, True) \<Rightarrow> (WsBackfill ticket in_flight, c))
      | InFrame None \<Rightarrow> ws_reconnect c
      | InClosed \<Rightarrow> ws_reconnect c
      | InDeadline \<Rightarrow> ws_reconnect c
      | _ \<Rightarrow> (WsBackfill ticket in_flight, c))
   | (WsSteady l, c) \<Rightarrow> ws_steady K now l i c)"

section \<open>The HTTPS cycle\<close>

text \<open>Pushing the outbox; waiting for the answer to a pull, with the cursor, replay epoch, liveness,
  ticket and gap generation it started from; fetching the checkpoint; applying the rows.\<close>

record PullLocals =
  pl_cursor :: nat
  pl_replay_epoch :: nat
  pl_was_live :: bool
  pl_ticket :: nat
  pl_gap_generation :: nat
  pl_applied :: bool

datatype PullPhase =
  PullIdle
| PullPush "PendingPush list"
| PullRows PullLocals
| PullCheckpoint PullLocals StateHeader nat nat "WireFrame list"
| PullApply PullLocals "WireFrame list"

datatype PullInput = PiStart | PiPushed "json option" | PiBody "WireFrame list option" | PiCheckpoint "bytes option" | PiNext

text \<open>The acknowledgement of a batch posted over HTTPS.\<close>

definition pull_ack :: "'s ChatDocSink \<Rightarrow> json \<Rightarrow> 's Client \<Rightarrow> 's Client" where
  "pull_ack K v c = (case (as_str (json_index v ''batchId''), as_u64 (json_index v ''seq'')) of
     (Some b, Some seq) \<Rightarrow>
       (case sk_acknowledge_update K b (cl_sink c) of (s, ok) \<Rightarrow>
         (let sd1 = (if ok then retire b (cl_shared c) else cl_shared c);
              sd2 = (if seq \<le> wrap_succ (sd_cursor sd1) then sd1\<lparr>sd_cursor := max (sd_cursor sd1) seq\<rparr> else sd1)
          in emit CeApplied (c\<lparr>cl_shared := sd2, cl_sink := sk_advance_cursor K (sd_cursor sd2) s\<rparr>)))
   | _ \<Rightarrow> c)"

text \<open>Posting goes on while the outbox is durable; then the pull starts.\<close>

definition pull_rows :: "'s Client \<Rightarrow> PullPhase \<times> 's Client" where
  "pull_rows c =
     (let sd = cl_shared c;
          l = \<lparr>pl_cursor = sd_cursor sd, pl_replay_epoch = sd_http_replay_epoch sd,
               pl_was_live = (sd_http_live_epoch sd = Some (sd_http_replay_epoch sd)),
               pl_ticket = sd_refresh_requested sd, pl_gap_generation = sd_row_gap_generation sd,
               pl_applied = False\<rparr>
      in (PullRows l, on_shared (\<lambda>sd. sd\<lparr>sd_http_live_epoch := None\<rparr>) c))"

definition pull_push :: "'s ChatDocSink \<Rightarrow> PendingPush list \<Rightarrow> 's Client \<Rightarrow> PullPhase \<times> 's Client" where
  "pull_push K batches c = (case batches of
     [] \<Rightarrow> pull_rows c
   | p # ps \<Rightarrow> (case ensure_durable K p c of
        (c, False) \<Rightarrow> pull_rows c
      | (c, True) \<Rightarrow> (PullPush (p # ps), c)))"

text \<open>The state of an answer, once its checkpoint is in: the cursor the plan allows.\<close>

definition pull_cursor :: "StateHeader \<Rightarrow> nat \<Rightarrow> nat \<Rightarrow> Shared \<Rightarrow> Shared" where
  "pull_cursor st after generation sd = clear_needs_checkpoint generation
     (sd\<lparr>sd_cursor := (if sd_cursor sd > sh_head_seq st then after else max (sd_cursor sd) after)\<rparr>)"

definition pull_state ::
  "'s ChatDocSink \<Rightarrow> PullLocals \<Rightarrow> StateHeader \<Rightarrow> bytes \<Rightarrow> WireFrame list \<Rightarrow> 's Client \<Rightarrow> PullPhase \<times> 's Client" where
  "pull_state K l st frontier rows c =
     (let c = apply_cursor_amnesty K st (on_shared (\<lambda>sd. sd\<lparr>sd_server := Some st\<rparr>) c);
          cursor = pl_cursor l
      in if sd_cursor (cl_shared c) < cursor \<and> cursor \<le> sh_head_seq st then (PullIdle, c)
         else (let repair = sd_needs_checkpoint (cl_shared c);
                   generation = sd_causal_gap_generation (cl_shared c);
                   contained = (sh_checkpoint_size st = 0 \<or> (\<not> repair \<and> sk_contains_frontier K frontier (cl_sink c)));
                   plan = plan_catch_up cursor st contained;
                   l = (if repair \<or> cursor > sh_head_seq st then l\<lparr>pl_was_live := False\<rparr> else l);
                   c = (if cursor > sh_head_seq st then c\<lparr>cl_sink := sk_reset_cursor K 0 (cl_sink c)\<rparr> else c)
               in case plan of
                  CheckpointThenRows after \<Rightarrow> (PullCheckpoint (l\<lparr>pl_was_live := False\<rparr>) st after generation rows, c)
                | RowsOnly after \<Rightarrow> (PullApply l rows, on_shared (pull_cursor st after generation) c)))"

definition pull_body :: "'s ChatDocSink \<Rightarrow> PullLocals \<Rightarrow> WireFrame list \<Rightarrow> 's Client \<Rightarrow> PullPhase \<times> 's Client" where
  "pull_body K l frames c = (case frames of
     [] \<Rightarrow> (PullIdle, c)
   | f # rows \<Rightarrow>
       if wf_kind f \<noteq> STATE then (PullApply l rows, c)
       else (case dec_state_header (wf_header f) of
           None \<Rightarrow> (PullApply l rows, c)
         | Some st \<Rightarrow> pull_state K l st (wf_payload f) rows c))"

definition pull_done :: "PullLocals \<Rightarrow> nat \<Rightarrow> Shared \<Rightarrow> Shared" where
  "pull_done l head sd =
     (if sd_http_replay_epoch sd = pl_replay_epoch l \<and> sd_cursor sd \<ge> head \<and> \<not> sd_needs_checkpoint sd
      then (let sd = sd\<lparr>sd_http_live_epoch := Some (pl_replay_epoch l), sd_caught_up := True\<rparr>;
                sd = (if sd_row_gap_generation sd = pl_gap_generation l then sd\<lparr>sd_gap_repair := False\<rparr> else sd)
            in if \<not> sd_gap_repair sd then sd\<lparr>sd_refresh_completed := max (sd_refresh_completed sd) (pl_ticket l)\<rparr> else sd)
      else sd)"

definition pull_frame :: "'s ChatDocSink \<Rightarrow> PullLocals \<Rightarrow> WireFrame \<Rightarrow> 's Client \<Rightarrow> PullLocals \<times> 's Client" where
  "pull_frame K l f c =
     (if wf_kind f = ROW
      then (case dec_row_header (wf_header f) of
          None \<Rightarrow> (l, c)
        | Some row \<Rightarrow>
            (let sd = cl_shared c;
                 replay = (\<not> pl_was_live l \<or> sd_http_replay_epoch sd \<noteq> pl_replay_epoch l \<or> sd_needs_checkpoint sd)
             in (l\<lparr>pl_applied := True\<rparr>, apply_remote_row K (wf_payload f) (rh_seq row) replay c)))
      else if wf_kind f = ROWS_DONE
      then (case dec_rows_done_header (wf_header f) of
          None \<Rightarrow> (l, c)
        | Some head \<Rightarrow> (l, on_shared (pull_done l head) c))
      else (l, c))"

definition pull_step :: "'s ChatDocSink \<Rightarrow> PullInput \<Rightarrow> PullPhase \<times> 's Client \<Rightarrow> PullPhase \<times> 's Client" where
  "pull_step K i pc = (case pc of
     (PullIdle, c) \<Rightarrow> (case i of PiStart \<Rightarrow> pull_push K (sd_pending (cl_shared c)) c | _ \<Rightarrow> (PullIdle, c))
   | (PullPush batches, c) \<Rightarrow> (case i of
        PiPushed (Some v) \<Rightarrow> pull_push K (tl batches) (pull_ack K v c)
      | PiPushed None \<Rightarrow> pull_rows c
      | _ \<Rightarrow> (PullPush batches, c))
   | (PullRows l, c) \<Rightarrow> (case i of
        PiBody None \<Rightarrow> (PullIdle, on_shared (\<lambda>sd. sd\<lparr>sd_http_replay_epoch := wrap_succ (sd_http_replay_epoch sd)\<rparr>) c)
      | PiBody (Some frames) \<Rightarrow> pull_body K l frames c
      | _ \<Rightarrow> (PullRows l, c))
   | (PullCheckpoint l st after generation rows, c) \<Rightarrow> (case i of
        PiCheckpoint (Some bytes) \<Rightarrow>
          (case sk_apply_checkpoint K bytes (sh_checkpoint_seq st) (cl_sink c) of
             (s, False) \<Rightarrow> (PullIdle, c\<lparr>cl_sink := s\<rparr>)
           | (s, True) \<Rightarrow> (PullApply l rows, on_shared (pull_cursor st after generation) (emit CeApplied (c\<lparr>cl_sink := s\<rparr>))))
      | PiCheckpoint None \<Rightarrow> (PullIdle, c)
      | _ \<Rightarrow> (PullCheckpoint l st after generation rows, c))
   | (PullApply l rows, c) \<Rightarrow> (case i of
        PiNext \<Rightarrow> (case rows of
            [] \<Rightarrow> (PullIdle, if pl_applied l then emit CeApplied c else c)
          | f # fs \<Rightarrow> (case pull_frame K l f c of (l, c) \<Rightarrow> (PullApply l fs, c)))
      | _ \<Rightarrow> (PullApply l rows, c)))"

end
