(* ===== verification/Docs_Store.thy ===== *)
theory Docs_Store
  imports Chat_Frames
begin

text \<open>
  The document store (\<open>crates/sync/src/store.rs\<close>) and the durable sync jobs
  (\<open>crates/sync/src/sync_jobs.rs\<close>): snapshots with their room cursor, the outbox of chat updates, the
  replay markers, the jobs with their version clock. A table is the list of its rows in insertion
  order. A call is a transaction: while SQLite fails (\<open>ds_failing\<close>) it changes nothing and answers
  an error, except that a failed outbox write is remembered in memory.
\<close>

section \<open>Tables\<close>

record SnapshotRow =
  sn_bytes :: bytes
  sn_cursor :: "nat option"
  sn_epoch :: "nat option"
  sn_verified :: bool

record OutboxRow =
  ox_doc_id :: string
  ox_batch_id :: string
  ox_bytes :: bytes
  ox_needs_checkpoint :: bool

record SyncJob =
  sj_doc_id :: string
  sj_kind :: string
  sj_version :: int
  sj_cursor :: string

record DocsStore =
  ds_snapshots :: "(string \<times> SnapshotRow) list"
  ds_outbox :: "OutboxRow list"
  ds_initialized :: "string list"
  ds_jobs :: "SyncJob list"
  ds_clock :: int
  ds_failed_publications :: "string list"
  ds_failing :: bool

text \<open>A transaction.\<close>

definition sql :: "(DocsStore \<Rightarrow> DocsStore) \<Rightarrow> DocsStore \<Rightarrow> DocsStore \<times> bool" where
  "sql f s = (if ds_failing s then (s, False) else (f s, True))"

definition sql_read :: "(DocsStore \<Rightarrow> 'a) \<Rightarrow> DocsStore \<Rightarrow> 'a option" where
  "sql_read f s = (if ds_failing s then None else Some (f s))"

section \<open>The chat outbox\<close>

definition enqueue_chat_update :: "string \<Rightarrow> string \<Rightarrow> bytes \<Rightarrow> DocsStore \<Rightarrow> DocsStore \<times> bool" where
  "enqueue_chat_update doc batch bytes s =
     (if ds_failing s then (s\<lparr>ds_failed_publications := List.insert doc (ds_failed_publications s)\<rparr>, False)
      else (if \<exists>r \<in> set (ds_outbox s). ox_batch_id r = batch then s
            else s\<lparr>ds_outbox := ds_outbox s @ [\<lparr>ox_doc_id = doc, ox_batch_id = batch, ox_bytes = bytes,
                   ox_needs_checkpoint = False\<rparr>]\<rparr>, True))"

definition outbox_of :: "string \<Rightarrow> DocsStore \<Rightarrow> OutboxRow list" where
  "outbox_of doc s = filter (\<lambda>r. ox_doc_id r = doc) (ds_outbox s)"

definition pending_chat_updates :: "string \<Rightarrow> DocsStore \<Rightarrow> (string \<times> bytes) list option" where
  "pending_chat_updates doc = sql_read (\<lambda>s. map (\<lambda>r. (ox_batch_id r, ox_bytes r)) (outbox_of doc s))"

definition has_pending_chat_updates :: "string \<Rightarrow> DocsStore \<Rightarrow> bool option" where
  "has_pending_chat_updates doc = sql_read (\<lambda>s. \<exists>r \<in> set (ds_outbox s). ox_doc_id r = doc)"

definition reject_chat_update :: "string \<Rightarrow> string \<Rightarrow> DocsStore \<Rightarrow> DocsStore \<times> bool" where
  "reject_chat_update doc batch = sql (\<lambda>s. s\<lparr>ds_outbox := map (\<lambda>r.
     if ox_doc_id r = doc \<and> ox_batch_id r = batch then r\<lparr>ox_needs_checkpoint := True\<rparr> else r) (ds_outbox s)\<rparr>)"

definition rejected_chat_updates :: "string \<Rightarrow> DocsStore \<Rightarrow> (string \<times> bytes) list option" where
  "rejected_chat_updates doc =
     sql_read (\<lambda>s. map (\<lambda>r. (ox_batch_id r, ox_bytes r)) (filter ox_needs_checkpoint (outbox_of doc s)))"

definition acknowledge_chat_update :: "string \<Rightarrow> string \<Rightarrow> DocsStore \<Rightarrow> DocsStore \<times> bool" where
  "acknowledge_chat_update doc batch = sql (\<lambda>s. s\<lparr>ds_outbox :=
     filter (\<lambda>r. \<not> (ox_doc_id r = doc \<and> ox_batch_id r = batch)) (ds_outbox s)\<rparr>)"

definition chat_outbox_initialized :: "string \<Rightarrow> DocsStore \<Rightarrow> bool option" where
  "chat_outbox_initialized doc = sql_read (\<lambda>s. doc \<in> set (ds_initialized s))"

text \<open>The fresh ids of the replayed updates are given.\<close>

definition initialize_chat_outbox :: "string \<Rightarrow> (string \<times> bytes) list \<Rightarrow> DocsStore \<Rightarrow> DocsStore \<times> bool" where
  "initialize_chat_outbox doc updates = sql (\<lambda>s.
     if doc \<in> set (ds_initialized s) then s
     else s\<lparr>ds_initialized := ds_initialized s @ [doc],
       ds_outbox := ds_outbox s @ map (\<lambda>(b, bytes). \<lparr>ox_doc_id = doc, ox_batch_id = b, ox_bytes = bytes,
         ox_needs_checkpoint = False\<rparr>) updates\<rparr>)"

section \<open>Snapshots\<close>

definition invalidate_failed_publication :: "string \<Rightarrow> DocsStore \<Rightarrow> DocsStore" where
  "invalidate_failed_publication doc s =
     (if doc \<in> set (ds_failed_publications s)
      then s\<lparr>ds_initialized := filter (\<lambda>d. d \<noteq> doc) (ds_initialized s)\<rparr> else s)"

definition upsert_snapshot :: "string \<Rightarrow> SnapshotRow \<Rightarrow> DocsStore \<Rightarrow> DocsStore" where
  "upsert_snapshot doc r s = invalidate_failed_publication doc (s\<lparr>ds_snapshots := oinsert doc r (ds_snapshots s)\<rparr>)"

text \<open>A plain save keeps the cursor, the epoch and the verified mark of an older row.\<close>

definition save_snapshot :: "string \<Rightarrow> bytes \<Rightarrow> DocsStore \<Rightarrow> DocsStore \<times> bool" where
  "save_snapshot doc bytes = sql (\<lambda>s. upsert_snapshot doc
     (case map_of (ds_snapshots s) doc of
        None \<Rightarrow> \<lparr>sn_bytes = bytes, sn_cursor = None, sn_epoch = None, sn_verified = False\<rparr>
      | Some r \<Rightarrow> r\<lparr>sn_bytes := bytes\<rparr>) s)"

definition save_snapshot_with_cursor :: "string \<Rightarrow> bytes \<Rightarrow> nat \<Rightarrow> nat \<Rightarrow> DocsStore \<Rightarrow> DocsStore \<times> bool" where
  "save_snapshot_with_cursor doc bytes cursor epoch = sql (upsert_snapshot doc
     \<lparr>sn_bytes = bytes, sn_cursor = Some cursor, sn_epoch = Some epoch, sn_verified = False\<rparr>)"

definition save_verified_snapshot_with_cursor :: "string \<Rightarrow> bytes \<Rightarrow> nat \<Rightarrow> nat \<Rightarrow> DocsStore \<Rightarrow> DocsStore \<times> bool" where
  "save_verified_snapshot_with_cursor doc bytes cursor epoch = sql (upsert_snapshot doc
     \<lparr>sn_bytes = bytes, sn_cursor = Some cursor, sn_epoch = Some epoch, sn_verified = True\<rparr>)"

definition load_snapshot :: "string \<Rightarrow> DocsStore \<Rightarrow> bytes option option" where
  "load_snapshot doc = sql_read (\<lambda>s. map_option sn_bytes (map_of (ds_snapshots s) doc))"

definition nz :: "nat option \<Rightarrow> nat" where
  "nz x = (case x of None \<Rightarrow> 0 | Some n \<Rightarrow> n)"

definition snapshot_cursor :: "string \<Rightarrow> DocsStore \<Rightarrow> nat option" where
  "snapshot_cursor doc = sql_read (\<lambda>s. case map_of (ds_snapshots s) doc of None \<Rightarrow> 0 | Some r \<Rightarrow> nz (sn_cursor r))"

definition snapshot_cursor_verified :: "string \<Rightarrow> DocsStore \<Rightarrow> bool option" where
  "snapshot_cursor_verified doc =
     sql_read (\<lambda>s. case map_of (ds_snapshots s) doc of None \<Rightarrow> False | Some r \<Rightarrow> sn_verified r)"

definition snapshot_epoch :: "string \<Rightarrow> DocsStore \<Rightarrow> nat option" where
  "snapshot_epoch doc = sql_read (\<lambda>s. case map_of (ds_snapshots s) doc of None \<Rightarrow> 0 | Some r \<Rightarrow> nz (sn_epoch r))"

definition load_snapshot_with_cursor :: "string \<Rightarrow> DocsStore \<Rightarrow> (bytes \<times> nat \<times> nat) option option" where
  "load_snapshot_with_cursor doc = sql_read (\<lambda>s.
     map_option (\<lambda>r. (sn_bytes r, nz (sn_cursor r), nz (sn_epoch r))) (map_of (ds_snapshots s) doc))"

definition delete_snapshot :: "string \<Rightarrow> DocsStore \<Rightarrow> DocsStore \<times> bool" where
  "delete_snapshot doc = sql (\<lambda>s. s\<lparr>ds_snapshots := oremove doc (ds_snapshots s),
     ds_outbox := filter (\<lambda>r. ox_doc_id r \<noteq> doc) (ds_outbox s),
     ds_jobs := filter (\<lambda>j. sj_doc_id j \<noteq> doc) (ds_jobs s),
     ds_initialized := filter (\<lambda>d. d \<noteq> doc) (ds_initialized s)\<rparr>)"

definition has_snapshot :: "string \<Rightarrow> DocsStore \<Rightarrow> bool option" where
  "has_snapshot doc = sql_read (\<lambda>s. map_of (ds_snapshots s) doc \<noteq> None)"

section \<open>Sync jobs\<close>

definition is_job :: "string \<Rightarrow> string \<Rightarrow> SyncJob \<Rightarrow> bool" where
  "is_job doc kind j \<longleftrightarrow> sj_doc_id j = doc \<and> sj_kind j = kind"

definition find_job :: "string \<Rightarrow> string \<Rightarrow> DocsStore \<Rightarrow> SyncJob option" where
  "find_job doc kind s = List.find (is_job doc kind) (ds_jobs s)"

text \<open>\<open>INSERT ... ON CONFLICT DO UPDATE\<close> of one job.\<close>

definition upsert_job :: "string \<Rightarrow> string \<Rightarrow> int \<Rightarrow> (SyncJob \<Rightarrow> SyncJob) \<Rightarrow> SyncJob list \<Rightarrow> SyncJob list" where
  "upsert_job doc kind version f js =
     (if list_ex (is_job doc kind) js
      then map (\<lambda>j. if is_job doc kind j then f (j\<lparr>sj_version := version\<rparr>) else j) js
      else js @ [\<lparr>sj_doc_id = doc, sj_kind = kind, sj_version = version, sj_cursor = []\<rparr>])"

definition tick :: "DocsStore \<Rightarrow> DocsStore" where
  "tick s = s\<lparr>ds_clock := ds_clock s + 1\<rparr>"

definition schedule_sync_job :: "string \<Rightarrow> string \<Rightarrow> DocsStore \<Rightarrow> DocsStore \<times> bool" where
  "schedule_sync_job doc kind = sql (\<lambda>s. let s = tick s in
     s\<lparr>ds_jobs := upsert_job doc kind (ds_clock s) (\<lambda>j. j\<lparr>sj_cursor := []\<rparr>) (ds_jobs s)\<rparr>)"

definition reconciliation_progress :: "DocsStore \<Rightarrow> (int \<times> string) option option" where
  "reconciliation_progress = sql_read (\<lambda>s. map_option (\<lambda>j. (sj_version j, sj_cursor j)) (find_job ''*'' ''reconcile'' s))"

definition reconcile_page :: "int \<Rightarrow> string list \<Rightarrow> DocsStore \<Rightarrow> DocsStore \<times> bool" where
  "reconcile_page version ids = sql (\<lambda>s.
     if map_option sj_version (find_job ''*'' ''reconcile'' s) \<noteq> Some version then s
     else if ids = [] then s\<lparr>ds_jobs := filter (\<lambda>j. \<not> is_job ''*'' ''reconcile'' j) (ds_jobs s)\<rparr>
     else (let s = tick s in
       s\<lparr>ds_jobs := map (\<lambda>j. if is_job ''*'' ''reconcile'' j then j\<lparr>sj_cursor := last ids\<rparr> else j)
          (fold (\<lambda>i. upsert_job i ''wake'' (ds_clock s) (\<lambda>j. j)) ids (ds_jobs s))\<rparr>))"

definition sync_job_version :: "string \<Rightarrow> string \<Rightarrow> DocsStore \<Rightarrow> int option option" where
  "sync_job_version doc kind = sql_read (\<lambda>s. map_option sj_version (find_job doc kind s))"

definition complete_sync_job :: "string \<Rightarrow> string \<Rightarrow> int \<Rightarrow> DocsStore \<Rightarrow> DocsStore \<times> bool" where
  "complete_sync_job doc kind version = sql (\<lambda>s.
     s\<lparr>ds_jobs := filter (\<lambda>j. \<not> (is_job doc kind j \<and> sj_version j = version)) (ds_jobs s)\<rparr>)"

text \<open>One page of a sorted column: the keys after a key, at most 64 of them.\<close>

definition page :: "string \<Rightarrow> nat \<Rightarrow> string list \<Rightarrow> string list" where
  "page after limit ids = take (min limit 64) (filter (\<lambda>d. after < d) (sort ids))"

definition pending_sync_jobs :: "string \<Rightarrow> string \<Rightarrow> nat \<Rightarrow> DocsStore \<Rightarrow> string list option" where
  "pending_sync_jobs kind after limit =
     sql_read (\<lambda>s. page after limit (map sj_doc_id (filter (\<lambda>j. sj_kind j = kind) (ds_jobs s))))"

definition sync_docs :: "DocsStore \<Rightarrow> string list" where
  "sync_docs s = remdups (map ox_doc_id (ds_outbox s) @ map sj_doc_id (filter (\<lambda>j. sj_kind j = ''wake'') (ds_jobs s)))"

definition pending_sync_docs :: "string \<Rightarrow> nat \<Rightarrow> DocsStore \<Rightarrow> string list option" where
  "pending_sync_docs after limit = sql_read (\<lambda>s. page after limit (sync_docs s))"

definition sync_work_counts :: "DocsStore \<Rightarrow> (nat \<times> nat) option" where
  "sync_work_counts = sql_read (\<lambda>s. (length (ds_outbox s), length (ds_jobs s)))"

section \<open>Jobs under every call\<close>

text \<open>The calls that write jobs; the others do not touch them.\<close>

datatype JobCall =
  JcSchedule string string
| JcReconcile int "string list"
| JcComplete string string int
| JcFailing bool

fun job_call :: "JobCall \<Rightarrow> DocsStore \<Rightarrow> DocsStore" where
  "job_call (JcSchedule doc kind) s = fst (schedule_sync_job doc kind s)"
| "job_call (JcReconcile version ids) s = fst (reconcile_page version ids s)"
| "job_call (JcComplete doc kind version) s = fst (complete_sync_job doc kind version s)"
| "job_call (JcFailing b) s = s\<lparr>ds_failing := b\<rparr>"

text \<open>Completing a job with a version of at least \<open>v\<close>.\<close>

definition completes :: "string \<Rightarrow> string \<Rightarrow> int \<Rightarrow> JobCall \<Rightarrow> bool" where
  "completes doc kind v c = (case c of
     JcComplete d k w \<Rightarrow> d = doc \<and> k = kind \<and> v \<le> w
   | JcReconcile w ids \<Rightarrow> doc = ''*'' \<and> kind = ''reconcile'' \<and> v \<le> w \<and> ids = []
   | _ \<Rightarrow> False)"

definition has_job :: "string \<Rightarrow> string \<Rightarrow> int \<Rightarrow> SyncJob list \<Rightarrow> bool" where
  "has_job doc kind v js \<longleftrightarrow> (\<exists>j \<in> set js. is_job doc kind j \<and> v \<le> sj_version j)"

definition job_keys :: "SyncJob list \<Rightarrow> (string \<times> string) list" where
  "job_keys js = map (\<lambda>j. (sj_doc_id j, sj_kind j)) js"

text \<open>One row per job, none ahead of the clock.\<close>

definition jobs_ok :: "int \<Rightarrow> SyncJob list \<Rightarrow> bool" where
  "jobs_ok clock js \<longleftrightarrow> distinct (job_keys js) \<and> (\<forall>j \<in> set js. sj_version j \<le> clock)"

lemma is_job_iff: "is_job doc kind j \<longleftrightarrow> (sj_doc_id j, sj_kind j) = (doc, kind)"
  by (simp add: is_job_def)

lemma upsert_job_keys:
  assumes "\<And>j. sj_doc_id (f j) = sj_doc_id j \<and> sj_kind (f j) = sj_kind j"
  shows "job_keys (upsert_job doc kind v f js) =
    (if list_ex (is_job doc kind) js then job_keys js else job_keys js @ [(doc, kind)])"
  using assms by (auto simp: upsert_job_def job_keys_def)

lemma jobs_ok_upsert:
  assumes ok: "jobs_ok clock js" and v: "v \<le> clock"
    and f: "\<And>j. sj_doc_id (f j) = sj_doc_id j \<and> sj_kind (f j) = sj_kind j \<and> sj_version (f j) = sj_version j"
  shows "jobs_ok clock (upsert_job doc kind v f js)"
proof -
  have "distinct (job_keys (upsert_job doc kind v f js))"
    using ok by (subst upsert_job_keys) (auto simp: f jobs_ok_def list_ex_iff is_job_iff job_keys_def)
  moreover have "\<forall>j \<in> set (upsert_job doc kind v f js). sj_version j \<le> clock"
    using ok v by (auto simp: upsert_job_def jobs_ok_def f)
  ultimately show ?thesis by (simp add: jobs_ok_def)
qed

lemma jobs_ok_clock: "jobs_ok clock js \<Longrightarrow> clock \<le> c \<Longrightarrow> jobs_ok c js"
  by (auto simp: jobs_ok_def)

lemma jobs_ok_filter: "jobs_ok clock js \<Longrightarrow> jobs_ok clock (filter P js)"
  by (auto simp: jobs_ok_def job_keys_def distinct_map intro: inj_on_subset)

lemma jobs_ok_fold: "jobs_ok clock js \<Longrightarrow> v \<le> clock \<Longrightarrow> jobs_ok clock (fold (\<lambda>i. upsert_job i ''wake'' v (\<lambda>j. j)) ids js)"
  by (induction ids arbitrary: js) (simp_all add: jobs_ok_upsert)

lemma has_jobI: "j \<in> set js \<Longrightarrow> is_job doc kind j \<Longrightarrow> v \<le> sj_version j \<Longrightarrow> has_job doc kind v js"
  by (auto simp: has_job_def)

lemma has_job_upsert:
  assumes h: "has_job doc kind v js" and w: "v \<le> w"
    and f: "\<And>j. sj_doc_id (f j) = sj_doc_id j \<and> sj_kind (f j) = sj_kind j \<and> sj_version (f j) = sj_version j"
  shows "has_job doc kind v (upsert_job d k w f js)"
proof -
  obtain j where j: "j \<in> set js" "is_job doc kind j" "v \<le> sj_version j" using h by (auto simp: has_job_def)
  show ?thesis
  proof (cases "list_ex (is_job d k) js")
    case True
    let ?g = "\<lambda>j. if is_job d k j then f (j\<lparr>sj_version := w\<rparr>) else j"
    have "is_job doc kind (?g j) \<and> v \<le> sj_version (?g j)" using j w f by (simp add: is_job_def)
    moreover have "?g j \<in> set (map ?g js)" unfolding set_map using j(1) by (rule imageI)
    ultimately have "has_job doc kind v (map ?g js)" using has_jobI by blast
    then show ?thesis using True by (simp only: upsert_job_def if_True)
  next
    case False
    then show ?thesis using j by (auto simp: has_job_def upsert_job_def)
  qed
qed

lemma upsert_job_version:
  "j \<in> set (upsert_job doc kind w (\<lambda>j. j\<lparr>sj_cursor := x\<rparr>) js) \<Longrightarrow> is_job doc kind j \<Longrightarrow> sj_version j = w"
  by (cases "list_ex (is_job doc kind) js") (auto simp: upsert_job_def list_ex_iff)

lemma has_job_fold: "has_job doc kind v js \<Longrightarrow> v \<le> w \<Longrightarrow> has_job doc kind v (fold (\<lambda>i. upsert_job i ''wake'' w (\<lambda>j. j)) ids js)"
  by (induction ids arbitrary: js) (simp_all add: has_job_upsert)

lemma has_job_map:
  "has_job doc kind v js \<Longrightarrow> has_job doc kind v (map (\<lambda>j. if P j then j\<lparr>sj_cursor := x\<rparr> else j) js)"
proof -
  assume "has_job doc kind v js"
  then obtain j where j: "j \<in> set js" "is_job doc kind j" "v \<le> sj_version j" by (auto simp: has_job_def)
  let ?g = "\<lambda>j. if P j then j\<lparr>sj_cursor := x\<rparr> else j"
  have "?g j \<in> set (map ?g js)" unfolding set_map using j(1) by (rule imageI)
  then show ?thesis by (rule has_jobI) (use j in \<open>simp_all add: is_job_def\<close>)
qed

lemma find_job_row: "jobs_ok c js \<Longrightarrow> j \<in> set js \<Longrightarrow> is_job doc kind j \<Longrightarrow> List.find (is_job doc kind) js = Some j"
proof (induction js)
  case (Cons x xs)
  have ok: "jobs_ok c xs" using Cons.prems(1) by (simp add: jobs_ok_def job_keys_def)
  show ?case
  proof (cases "is_job doc kind x")
    case True
    have "x = j"
    proof (rule ccontr)
      assume "x \<noteq> j"
      then have "j \<in> set xs" using Cons.prems(2) by simp
      then have "(doc, kind) \<in> set (job_keys xs)" using Cons.prems(3) by (force simp: job_keys_def is_job_def)
      then show False using Cons.prems(1) True by (simp add: jobs_ok_def job_keys_def is_job_def)
    qed
    then show ?thesis using True by simp
  next
    case False
    then show ?thesis using Cons ok by auto
  qed
qed simp

lemma job_call_ok: "jobs_ok (ds_clock s) (ds_jobs s) \<Longrightarrow> jobs_ok (ds_clock (job_call c s)) (ds_jobs (job_call c s))"
proof (induction c s rule: job_call.induct)
  case (1 doc kind s)
  then show ?case
    by (simp add: schedule_sync_job_def sql_def tick_def Let_def jobs_ok_upsert jobs_ok_clock)
next
  case (2 version ids s)
  have "jobs_ok (ds_clock s + 1) (map (\<lambda>j. if is_job ''*'' ''reconcile'' j then j\<lparr>sj_cursor := last ids\<rparr> else j)
      (fold (\<lambda>i. upsert_job i ''wake'' (ds_clock s + 1) (\<lambda>j. j)) ids (ds_jobs s)))"
    using jobs_ok_fold [OF jobs_ok_clock [OF 2], of "ds_clock s + 1" "ds_clock s + 1" ids]
    by (auto simp: jobs_ok_def job_keys_def comp_def if_distrib [of sj_doc_id] if_distrib [of sj_kind] cong: if_cong)
  then show ?case using 2
    by (simp add: reconcile_page_def sql_def tick_def Let_def jobs_ok_filter)
next
  case (3 doc kind version s)
  then show ?case by (simp add: complete_sync_job_def sql_def jobs_ok_filter)
qed simp

lemma job_call_keeps:
  assumes ok: "jobs_ok (ds_clock s) (ds_jobs s)" and h: "has_job doc kind v (ds_jobs s)" and n: "\<not> completes doc kind v c"
  shows "has_job doc kind v (ds_jobs (job_call c s))"
proof (cases c)
  case (JcSchedule d k)
  have "v \<le> ds_clock s" using ok h by (force simp: jobs_ok_def has_job_def)
  then show ?thesis using h JcSchedule
    by (simp add: schedule_sync_job_def sql_def tick_def Let_def has_job_upsert)
next
  case (JcReconcile w ids)
  have v: "v \<le> ds_clock s + 1" using ok h by (force simp: jobs_ok_def has_job_def)
  show ?thesis
  proof (cases "ids = [] \<and> map_option sj_version (find_job ''*'' ''reconcile'' s) = Some w")
    case True
    obtain j where j: "j \<in> set (ds_jobs s)" "is_job doc kind j" "v \<le> sj_version j" using h by (auto simp: has_job_def)
    have "\<not> is_job ''*'' ''reconcile'' j"
    proof
      assume r: "is_job ''*'' ''reconcile'' j"
      then have "sj_version j = w" using True find_job_row [OF ok j(1) r] by (simp add: find_job_def)
      then show False using n j r True JcReconcile by (simp add: completes_def is_job_def)
    qed
    then show ?thesis using j JcReconcile True by (auto simp: reconcile_page_def sql_def has_job_def)
  next
    case False
    then show ?thesis using h v JcReconcile
      by (auto simp: reconcile_page_def sql_def tick_def Let_def has_job_fold has_job_map)
  qed
next
  case (JcComplete d k w)
  obtain j where j: "j \<in> set (ds_jobs s)" "is_job doc kind j" "v \<le> sj_version j" using h by (auto simp: has_job_def)
  then have "\<not> (is_job d k j \<and> sj_version j = w)" using n JcComplete by (auto simp: completes_def is_job_def)
  then show ?thesis using j JcComplete by (auto simp: complete_sync_job_def sql_def has_job_def)
next
  case (JcFailing b)
  then show ?thesis using h by simp
qed

lemma job_calls_keep:
  assumes "jobs_ok (ds_clock s) (ds_jobs s)" "has_job doc kind v (ds_jobs s)" "list_all (\<lambda>c. \<not> completes doc kind v c) cs"
  shows "has_job doc kind v (ds_jobs (fold job_call cs s)) \<and>
    jobs_ok (ds_clock (fold job_call cs s)) (ds_jobs (fold job_call cs s))"
  using assms by (induction cs arbitrary: s) (simp_all add: job_call_ok job_call_keeps)

text \<open>C37: A wake-up is never lost. After a job is scheduled, whatever jobs are scheduled, reconciled or
  completed in whatever order and however SQLite fails, the job is still there with at least its
  version, until someone completes it with that version or a later one: a worker that finishes an older
  catch-up cannot erase the newer wake-up. A worker that read the version before the scheduling has an
  older one.\<close>

theorem wake_survives_old_completions:
  assumes ok: "jobs_ok (ds_clock s) (ds_jobs s)" and up: "\<not> ds_failing s"
    and v: "sync_job_version doc kind (fst (schedule_sync_job doc kind s)) = Some (Some v)"
    and cs: "list_all (\<lambda>c. \<not> completes doc kind v c) cs"
  shows "(case sync_job_version doc kind ((fold job_call cs (fst (schedule_sync_job doc kind s)))\<lparr>ds_failing := False\<rparr>) of
      Some (Some w) \<Rightarrow> v \<le> w | _ \<Rightarrow> False) \<and>
    (case sync_job_version doc kind s of Some (Some old) \<Rightarrow> old < v | _ \<Rightarrow> True)"
proof -
  let ?s1 = "fst (schedule_sync_job doc kind s)"
  have ok1: "jobs_ok (ds_clock ?s1) (ds_jobs ?s1)" using job_call_ok [OF ok, of "JcSchedule doc kind"] by simp
  have up1: "\<not> ds_failing ?s1" using up by (simp add: schedule_sync_job_def sql_def tick_def Let_def)
  obtain j where fj: "List.find (is_job doc kind) (ds_jobs ?s1) = Some j" and jv: "sj_version j = v"
    using v up1 by (auto simp: sync_job_version_def sql_read_def find_job_def)
  have j: "j \<in> set (ds_jobs ?s1)" "is_job doc kind j" using find_SomeD [OF fj] by simp_all
  have "has_job doc kind v (ds_jobs ?s1)" using j jv by (auto simp: has_job_def)
  note k = job_calls_keep [OF ok1 this cs]
  let ?s2 = "fold job_call cs ?s1"
  obtain x where x: "x \<in> set (ds_jobs ?s2)" "is_job doc kind x" "v \<le> sj_version x" using k by (auto simp: has_job_def)
  have "find_job doc kind (?s2\<lparr>ds_failing := False\<rparr>) = Some x"
    using find_job_row [OF conjunct2 [OF k] x(1,2)] by (simp add: find_job_def)
  then have 1: "case sync_job_version doc kind (?s2\<lparr>ds_failing := False\<rparr>) of Some (Some w) \<Rightarrow> v \<le> w | _ \<Rightarrow> False"
    using x(3) by (simp add: sync_job_version_def sql_read_def)
  have jobs: "ds_jobs ?s1 = upsert_job doc kind (ds_clock s + 1) (\<lambda>j. j\<lparr>sj_cursor := []\<rparr>) (ds_jobs s)"
    using up by (simp add: schedule_sync_job_def sql_def tick_def Let_def)
  have "v = ds_clock s + 1" using upsert_job_version [OF j [unfolded jobs]] jv by simp
  moreover have "sj_version y \<le> ds_clock s" if "find_job doc kind s = Some y" for y
    using that ok find_SomeD by (fastforce simp: find_job_def jobs_ok_def)
  moreover have "sync_job_version doc kind s = Some (map_option sj_version (find_job doc kind s))"
    using up by (simp add: sync_job_version_def sql_read_def)
  ultimately have "case sync_job_version doc kind s of Some (Some old) \<Rightarrow> old < v | _ \<Rightarrow> True"
    by (cases "find_job doc kind s") simp_all
  then show ?thesis using 1 by blast
qed

definition demo_store :: DocsStore where
  "demo_store = \<lparr>ds_snapshots = [], ds_outbox = [],
     ds_initialized = [], ds_jobs = [\<lparr>sj_doc_id = ''c1'', sj_kind = ''wake'', sj_version = 4, sj_cursor = []\<rparr>],
     ds_clock = 6, ds_failed_publications = [], ds_failing = False\<rparr>"

lemma wake_survives_old_completions_witness:
  "map_option (map_option (\<lambda>w. 7 \<le> w)) (sync_job_version ''c1'' ''wake'' ((fold job_call
     [JcFailing True, JcComplete ''c1'' ''wake'' 4, JcFailing False, JcComplete ''c1'' ''wake'' 4]
     (fst (schedule_sync_job ''c1'' ''wake'' demo_store)))\<lparr>ds_failing := False\<rparr>)) = Some (Some True)"
proof -
  have ok: "jobs_ok (ds_clock demo_store) (ds_jobs demo_store)" "\<not> ds_failing demo_store"
    by (simp_all add: demo_store_def jobs_ok_def job_keys_def)
  have v: "sync_job_version ''c1'' ''wake'' (fst (schedule_sync_job ''c1'' ''wake'' demo_store)) = Some (Some 7)"
    by code_simp
  have cs: "list_all (\<lambda>c. \<not> completes ''c1'' ''wake'' 7 c)
      [JcFailing True, JcComplete ''c1'' ''wake'' 4, JcFailing False, JcComplete ''c1'' ''wake'' 4]"
    by (simp add: completes_def)
  show ?thesis
    using wake_survives_old_completions [OF ok v cs] by (auto split: option.splits)
qed

section \<open>Paging\<close>

text \<open>The documents with work, page after page.\<close>

fun all_pages :: "nat \<Rightarrow> string \<Rightarrow> nat \<Rightarrow> DocsStore \<Rightarrow> string list" where
  "all_pages 0 after limit s = []"
| "all_pages (Suc n) after limit s = (case pending_sync_docs after limit s of
     None \<Rightarrow> []
   | Some [] \<Rightarrow> []
   | Some p \<Rightarrow> p @ all_pages n (last p) limit s)"

lemma filter_after_take:
  assumes s: "sorted xs" "distinct xs" and k: "0 < k" "k \<le> length xs"
  shows "filter (\<lambda>d. xs ! (k - 1) < d) xs = drop k xs"
proof -
  have "filter (\<lambda>d. xs ! (k - 1) < d) (take k xs @ drop k xs) = drop k xs"
  proof -
    have a: "\<not> xs ! (k - 1) < d" if "d \<in> set (take k xs)" for d
    proof -
      obtain i where i: "i < k" "i < length xs" "d = xs ! i" using \<open>d \<in> set (take k xs)\<close> by (auto simp: in_set_conv_nth)
      then have "xs ! i \<le> xs ! (k - 1)" using s(1) k by (intro sorted_nth_mono) auto
      then show ?thesis using i by simp
    qed
    have b: "xs ! (k - 1) < d" if "d \<in> set (drop k xs)" for d
    proof -
      obtain i where i0: "i < length (drop k xs)" "drop k xs ! i = d"
        using \<open>d \<in> set (drop k xs)\<close> unfolding in_set_conv_nth by blast
      then have i: "i < length xs - k" "d = xs ! (k + i)" using k by auto
      have "xs ! (k - 1) \<le> xs ! (k + i)" using s(1) i by (intro sorted_nth_mono) auto
      moreover have "xs ! (k - 1) \<noteq> xs ! (k + i)" using s(2) i k by (simp add: nth_eq_iff_index_eq)
      ultimately show ?thesis using i by simp
    qed
    have "filter (\<lambda>d. xs ! (k - 1) < d) (take k xs) = []" using a by (simp only: filter_empty_conv) blast
    moreover have "filter (\<lambda>d. xs ! (k - 1) < d) (drop k xs) = drop k xs" using b by (simp only: filter_id_conv) blast
    ultimately show ?thesis by (simp only: filter_append append_Nil)
  qed
  then show ?thesis by (simp only: append_take_drop_id)
qed

lemma filter_after_after:
  fixes xs :: "string list"
  assumes s: "sorted xs" "distinct xs" and p: "p = take k (filter (\<lambda>d. after < d) xs)" "p \<noteq> []"
  shows "filter (\<lambda>d. last p < d) xs = drop k (filter (\<lambda>d. after < d) xs)"
proof -
  let ?ys = "filter (\<lambda>d. after < d) xs"
  let ?k = "min k (length ?ys)"
  have k: "0 < ?k" "?k \<le> length ?ys" using p by auto
  have l: "last p = ?ys ! (?k - 1)" using p k by (simp add: last_conv_nth min_def)
  have "?ys ! (?k - 1) \<in> set ?ys" by (rule nth_mem) (use k in linarith)
  then have lt: "after < last p" unfolding l by (simp only: set_filter mem_Collect_eq)
  have "filter (\<lambda>d. last p < d) xs = filter (\<lambda>d. last p < d) ?ys"
    using lt by (auto simp: intro!: filter_cong)
  also have "\<dots> = drop ?k ?ys"
    unfolding l using s k by (intro filter_after_take) (simp_all add: sorted_filter [of "\<lambda>x. x", simplified])
  also have "\<dots> = drop k ?ys" by (simp add: min_def)
  finally show ?thesis .
qed

text \<open>Discovery of work. Paging through the documents with work, each page starting after the last
  document of the page before, gives every document that has outbox rows or a wake-up, once each and in
  order, whatever the page size; as many pages as documents are enough.\<close>

theorem paging_is_complete:
  assumes "0 < limit" "\<not> ds_failing s" "length (sync_docs s) < n"
  shows "all_pages n after limit s = filter (\<lambda>d. after < d) (sort (sync_docs s))"
proof -
  let ?xs = "sort (sync_docs s)"
  have xs: "sorted ?xs" "distinct ?xs" by (simp_all add: sync_docs_def)
  have "length (filter (\<lambda>d. after < d) ?xs) < n" 
    using assms(3) length_filter_le [of "\<lambda>d. after < d" ?xs] by simp
  then show ?thesis
  proof (induction n arbitrary: after)
    case (Suc n)
    let ?ys = "filter (\<lambda>d. after < d) ?xs"
    let ?k = "min limit 64"
    have p: "pending_sync_docs after limit s = Some (take ?k ?ys)"
      using assms(2) by (simp add: pending_sync_docs_def sql_read_def page_def)
    show ?case
    proof (cases "take ?k ?ys")
      case Nil
      then show ?thesis using p assms(1) by (cases ?ys) auto
    next
      case (Cons a p')
      have r: "filter (\<lambda>d. last (take ?k ?ys) < d) ?xs = drop ?k ?ys"
        by (rule filter_after_after [OF xs refl]) (simp add: Cons)
      have "0 < ?k" "0 < length ?ys" using assms(1) Cons by (auto simp del: length_filter_conv_card)
      then have "length (drop ?k ?ys) < n" using Suc.prems unfolding length_drop by linarith
      then have "all_pages n (last (take ?k ?ys)) limit s = drop ?k ?ys" using Suc.IH r by metis
      then have "all_pages (Suc n) after limit s = take ?k ?ys @ drop ?k ?ys" using p Cons by simp
      then show ?thesis by (simp only: append_take_drop_id)
    qed
  qed simp
qed

lemma paging_is_complete_witness: "all_pages 2 [] 1 demo_store = [''c1'']"
proof -
  have "0 < (1::nat)" "\<not> ds_failing demo_store" "length (sync_docs demo_store) < 2" by code_simp+
  note paging_is_complete [OF this, of "[]"]
  moreover have "filter (\<lambda>d. [] < d) (sort (sync_docs demo_store)) = [''c1'']" by code_simp
  ultimately show ?thesis by simp
qed

end
