(* ===== verification/Chat_Sink.thy ===== *)
theory Chat_Sink
  imports Chat_Session Docs_Store
begin

text \<open>
  The engine's side of a chat room: \<open>EngineChatSink\<close>
  (\<open>crates/engine/src/chat2_host.rs\<close>) over \<open>ChatPersistence\<close>
  (\<open>crates/engine/src/chat_persistence.rs\<close>), which keeps the applied cursor and saves it with the
  snapshot. The Loro document is a parameter: a record of its import, its version vectors and its
  export. A save is two steps, the cursor sampled in the first and the document exported in the
  second, so that imports may come between; the debouncing task that triggers saves is any schedule
  of them. The origin tag of a replayed import only reaches the document's observers.
\<close>

section \<open>The document\<close>

text \<open>An import answers an error, or whether operations stay parked on missing history.\<close>

record ('d, 'v) LoroApi =
  lo_import :: "bytes \<Rightarrow> 'd \<Rightarrow> 'd \<times> bool option"
  lo_decode_vv :: "bytes \<Rightarrow> 'v option"
  lo_vv_is_empty :: "'v \<Rightarrow> bool"
  lo_includes_vv :: "'d \<Rightarrow> 'v \<Rightarrow> bool"
  lo_export :: "'d \<Rightarrow> bytes option"

section \<open>Persistence\<close>

record 'd EngineSink =
  es_doc :: "'d option"
  es_store :: DocsStore
  es_cursor :: nat
  es_generation :: nat
  es_saved :: nat
  es_urgent :: bool
  es_initial_cursor_verified :: bool

definition new_sink :: "string \<Rightarrow> 'd \<Rightarrow> DocsStore \<Rightarrow> nat \<Rightarrow> 'd EngineSink" where
  "new_sink chat d store cursor =
     (let verified = (case snapshot_cursor_verified chat store of None \<Rightarrow> False | Some v \<Rightarrow> v)
      in \<lparr>es_doc = Some d, es_store = store, es_cursor = (if verified then cursor else 0), es_generation = 0,
          es_saved = 0, es_urgent = False, es_initial_cursor_verified = verified\<rparr>)"

definition dirty :: "bool \<Rightarrow> 'd EngineSink \<Rightarrow> 'd EngineSink" where
  "dirty immediate s = s\<lparr>es_generation := es_generation s + 1, es_urgent := es_urgent s \<or> immediate\<rparr>"

definition applied :: "nat \<Rightarrow> bool \<Rightarrow> 'd EngineSink \<Rightarrow> 'd EngineSink" where
  "applied cursor immediate s = dirty immediate (s\<lparr>es_cursor := max (es_cursor s) cursor\<rparr>)"

definition persist_reset_cursor :: "nat \<Rightarrow> 'd EngineSink \<Rightarrow> 'd EngineSink" where
  "persist_reset_cursor cursor s =
     (let s' = s\<lparr>es_cursor := cursor\<rparr> in if es_cursor s \<noteq> cursor then dirty True s' else s')"

definition is_clean :: "'d EngineSink \<Rightarrow> bool" where
  "is_clean s \<longleftrightarrow> es_saved s = es_generation s"

definition durable_through :: "nat \<Rightarrow> 'd EngineSink \<Rightarrow> bool" where
  "durable_through generation s \<longleftrightarrow> es_saved s \<ge> generation"

definition CHAT2_DOC_EPOCH :: nat where "CHAT2_DOC_EPOCH = 2"

text \<open>\<open>flush_sync\<close>: the generation and the cursor, then the export and the save.\<close>

definition flush_begin :: "'d EngineSink \<Rightarrow> (nat \<times> nat) option" where
  "flush_begin s = (if es_generation s = es_saved s \<or> es_doc s = None then None
     else Some (es_generation s, es_cursor s))"

definition flush_end :: "('d, 'v) LoroApi \<Rightarrow> string \<Rightarrow> nat \<times> nat \<Rightarrow> 'd EngineSink \<Rightarrow> 'd EngineSink" where
  "flush_end L chat gc s = (case Option.bind (es_doc s) (lo_export L) of
     None \<Rightarrow> s
   | Some bytes \<Rightarrow>
       (case save_verified_snapshot_with_cursor chat bytes (snd gc) CHAT2_DOC_EPOCH (es_store s) of
          (store, True) \<Rightarrow> s\<lparr>es_store := store, es_saved := fst gc\<rparr>
        | (store, False) \<Rightarrow> s\<lparr>es_store := store\<rparr>))"

section \<open>The sink\<close>

definition import_row :: "('d, 'v) LoroApi \<Rightarrow> bytes \<Rightarrow> nat \<Rightarrow> 'd EngineSink \<Rightarrow> 'd EngineSink \<times> RowImportOutcome" where
  "import_row L b cursor s = (case es_doc s of
     None \<Rightarrow> (s, RoApplied)
   | Some d \<Rightarrow> (case lo_import L b d of
        (d', Some True) \<Rightarrow> (s\<lparr>es_doc := Some d'\<rparr>, RoPendingDependencies)
      | (d', _) \<Rightarrow> (applied cursor False (s\<lparr>es_doc := Some d'\<rparr>), RoApplied)))"

definition persist_with_cursor :: "nat \<Rightarrow> 'd EngineSink \<Rightarrow> 'd EngineSink" where
  "persist_with_cursor cursor = applied cursor True"

definition import_checkpoint :: "('d, 'v) LoroApi \<Rightarrow> bytes \<Rightarrow> nat \<Rightarrow> 'd EngineSink \<Rightarrow> 'd EngineSink \<times> bool" where
  "import_checkpoint L b cursor s = (case es_doc s of
     None \<Rightarrow> (s, False)
   | Some d \<Rightarrow> (case lo_import L b d of
        (d', Some False) \<Rightarrow> (persist_with_cursor cursor (s\<lparr>es_doc := Some d'\<rparr>), True)
      | (d', _) \<Rightarrow> (s\<lparr>es_doc := Some d'\<rparr>, False)))"

definition frontier_contained :: "('d, 'v) LoroApi \<Rightarrow> bytes \<Rightarrow> 'd EngineSink \<Rightarrow> bool" where
  "frontier_contained L f s = (case es_doc s of
     None \<Rightarrow> True
   | Some d \<Rightarrow> (case lo_decode_vv L f of
        None \<Rightarrow> False
      | Some v \<Rightarrow> if lo_vv_is_empty L v then False else lo_includes_vv L d v))"

definition on_store :: "(DocsStore \<Rightarrow> DocsStore \<times> bool) \<Rightarrow> 'd EngineSink \<Rightarrow> 'd EngineSink \<times> bool" where
  "on_store f s = (case f (es_store s) of (store, ok) \<Rightarrow> (s\<lparr>es_store := store\<rparr>, ok))"

text \<open>The oversized batches are rejected on the way, until SQLite fails.\<close>

fun replayable :: "string \<Rightarrow> string list \<Rightarrow> (string \<times> bytes) list \<Rightarrow> DocsStore \<Rightarrow> DocsStore \<times> (string \<times> bytes) list option" where
  "replayable chat rejected [] store = (store, Some [])"
| "replayable chat rejected ((i, b) # us) store =
     (if length b > MAX_PUSH_BYTES
      then (case reject_chat_update chat i store of
          (store, False) \<Rightarrow> (store, None)
        | (store, True) \<Rightarrow> replayable chat rejected us store)
      else (case replayable chat rejected us store of
          (store, None) \<Rightarrow> (store, None)
        | (store, Some r) \<Rightarrow> (store, Some (if i \<in> set rejected then r else (i, b) # r))))"

definition pending_updates :: "string \<Rightarrow> 'd EngineSink \<Rightarrow> 'd EngineSink \<times> (string \<times> bytes) list option" where
  "pending_updates chat s =
     (case (rejected_chat_updates chat (es_store s), pending_chat_updates chat (es_store s)) of
        (Some rejected, Some pending) \<Rightarrow>
          (case replayable chat (map fst rejected) pending (es_store s) of (store, r) \<Rightarrow> (s\<lparr>es_store := store\<rparr>, r))
      | _ \<Rightarrow> (s, None))"

definition engine_sink :: "('d, 'v) LoroApi \<Rightarrow> string \<Rightarrow> 'd EngineSink ChatDocSink" where
  "engine_sink L chat = \<lparr>
     sk_cursor_is_verified = es_initial_cursor_verified,
     sk_reset_cursor = persist_reset_cursor,
     sk_pending_updates = pending_updates chat,
     sk_persist_update = (\<lambda>i b. on_store (enqueue_chat_update chat i b)),
     sk_acknowledge_update = (\<lambda>i. on_store (acknowledge_chat_update chat i)),
     sk_reject_update = (\<lambda>i. on_store (reject_chat_update chat i)),
     sk_apply_row = import_row L,
     sk_apply_replay_row = import_row L,
     sk_apply_checkpoint = import_checkpoint L,
     sk_contains_frontier = frontier_contained L,
     sk_advance_cursor = persist_with_cursor\<rparr>"

section \<open>The room and the document's laws\<close>

text \<open>A room without resets: the bytes of each row, which blobs are checkpoints of the rows up to a
  number, which payloads are such a checkpoint's frontier, and which batches it ever answers.\<close>

record Room =
  rm_row :: "nat \<Rightarrow> bytes"
  rm_checkpoint :: "bytes \<Rightarrow> nat \<Rightarrow> bool"
  rm_frontier :: "bytes \<Rightarrow> nat \<Rightarrow> bool"
  rm_answered :: "string \<Rightarrow> bool"

text \<open>What Loro documents: \<open>has d q\<close>, the document holds the operations of row \<open>q\<close>; \<open>snap b q\<close>, an
  exported snapshot does. Imports only add; an import that parks nothing holds everything it was given
  (bytes that do not parse have nothing to give); a version vector that includes a frontier includes
  what the frontier's checkpoint covers; an export holds what the document holds.\<close>

definition loro_laws ::
  "('d, 'v) LoroApi \<Rightarrow> ('d \<Rightarrow> nat \<Rightarrow> bool) \<Rightarrow> (bytes \<Rightarrow> nat \<Rightarrow> bool) \<Rightarrow> Room \<Rightarrow> bool" where
  "loro_laws L has snap R \<longleftrightarrow>
     (\<forall>b d q. has d q \<longrightarrow> has (fst (lo_import L b d)) q) \<and>
     (\<forall>d q. snd (lo_import L (rm_row R q) d) \<noteq> Some True \<longrightarrow> has (fst (lo_import L (rm_row R q) d)) q) \<and>
     (\<forall>b n d q. rm_checkpoint R b n \<and> snd (lo_import L b d) = Some False \<and> 0 < q \<and> q \<le> n \<longrightarrow>
        has (fst (lo_import L b d)) q) \<and>
     (\<forall>f n v d q. rm_frontier R f n \<and> lo_decode_vv L f = Some v \<and> \<not> lo_vv_is_empty L v \<and> lo_includes_vv L d v \<and>
        0 < q \<and> q \<le> n \<longrightarrow> has d q) \<and>
     (\<forall>d b q. lo_export L d = Some b \<longrightarrow> snap b q = has d q)"

text \<open>A row is in the document, as far as there still is one.\<close>

definition holds :: "('d \<Rightarrow> nat \<Rightarrow> bool) \<Rightarrow> 'd EngineSink \<Rightarrow> nat \<Rightarrow> bool" where
  "holds has s q \<longleftrightarrow> (case es_doc s of None \<Rightarrow> True | Some d \<Rightarrow> has d q)"

text \<open>Every row up to a number is in the document, except those up to a debt.\<close>

definition covered :: "(nat \<Rightarrow> bool) \<Rightarrow> nat \<Rightarrow> nat \<Rightarrow> bool" where
  "covered h debt n \<longleftrightarrow> (\<forall>q. 0 < q \<and> q \<le> n \<longrightarrow> h q \<or> q \<le> debt)"

text \<open>The saved cursor of a verified snapshot, and the one to be saved next, are covered.\<close>

definition snapshot_ok :: "(bytes \<Rightarrow> nat \<Rightarrow> bool) \<Rightarrow> string \<Rightarrow> nat \<Rightarrow> DocsStore \<Rightarrow> bool" where
  "snapshot_ok snap chat debt store \<longleftrightarrow> (case map_of (ds_snapshots store) chat of
     None \<Rightarrow> True
   | Some r \<Rightarrow> sn_verified r \<longrightarrow> covered (snap (sn_bytes r)) debt (nz (sn_cursor r)))"

definition sink_ok :: "('d \<Rightarrow> nat \<Rightarrow> bool) \<Rightarrow> (bytes \<Rightarrow> nat \<Rightarrow> bool) \<Rightarrow> string \<Rightarrow> nat \<Rightarrow> 'd EngineSink \<Rightarrow> bool" where
  "sink_ok has snap chat debt s \<longleftrightarrow> covered (holds has s) debt (es_cursor s) \<and> snapshot_ok snap chat debt (es_store s)"

end
