(* ===== verification/Chat_Room.thy ===== *)
theory Chat_Room
  imports Chat_Sink
begin

text \<open>
  The cursor of a chat client is honest: what the client, its sink and the saved snapshot claim to
  have of the room is in the document. This theory shows it of one operation at a time, for any sink
  that keeps the laws \<open>sink_laws\<close>, and that the engine's sink keeps them.
\<close>

section \<open>What a sink promises\<close>

text \<open>\<open>h s q\<close>: row \<open>q\<close> is in the document of \<open>s\<close>; \<open>ok D s\<close>: what the sink keeps about its cursor, given
  rows up to \<open>D\<close> may be missing.\<close>

definition sink_keeps :: "('s \<Rightarrow> nat \<Rightarrow> bool) \<Rightarrow> (nat \<Rightarrow> 's \<Rightarrow> bool) \<Rightarrow> 's \<Rightarrow> 's \<Rightarrow> bool" where
  "sink_keeps h ok s s' \<longleftrightarrow> (\<forall>q. h s q \<longrightarrow> h s' q) \<and> (\<forall>D. ok D s \<longrightarrow> ok D s')"

definition debt_law :: "(nat \<Rightarrow> 's \<Rightarrow> bool) \<Rightarrow> bool" where
  "debt_law ok \<longleftrightarrow> (\<forall>s D D'. ok D s \<longrightarrow> D \<le> D' \<longrightarrow> ok D' s)"

definition keep_law :: "('s \<Rightarrow> nat \<Rightarrow> bool) \<Rightarrow> (nat \<Rightarrow> 's \<Rightarrow> bool) \<Rightarrow> ('s \<Rightarrow> 's) \<Rightarrow> bool" where
  "keep_law h ok f \<longleftrightarrow> (\<forall>s. sink_keeps h ok s (f s))"

definition advance_law :: "('s \<Rightarrow> nat \<Rightarrow> bool) \<Rightarrow> (nat \<Rightarrow> 's \<Rightarrow> bool) \<Rightarrow> (nat \<Rightarrow> 's \<Rightarrow> 's) \<Rightarrow> bool" where
  "advance_law h ok f \<longleftrightarrow> (\<forall>n s. (\<forall>q. h s q \<longrightarrow> h (f n s) q) \<and> (\<forall>D. ok D s \<longrightarrow> covered (h s) D n \<longrightarrow> ok D (f n s)))"

definition row_law ::
  "('s \<Rightarrow> nat \<Rightarrow> bool) \<Rightarrow> (nat \<Rightarrow> 's \<Rightarrow> bool) \<Rightarrow> Room \<Rightarrow> (bytes \<Rightarrow> nat \<Rightarrow> 's \<Rightarrow> 's \<times> RowImportOutcome) \<Rightarrow> bool" where
  "row_law h ok R f \<longleftrightarrow> (\<forall>b n s s' r. f b n s = (s', r) \<longrightarrow>
     (\<forall>q. h s q \<longrightarrow> h s' q) \<and> (\<forall>q. b = rm_row R q \<longrightarrow> r = RoApplied \<longrightarrow> h s' q) \<and>
     (\<forall>D. ok D s \<longrightarrow> (r = RoApplied \<longrightarrow> covered (h s') D n) \<longrightarrow> ok D s'))"

definition checkpoint_law ::
  "('s \<Rightarrow> nat \<Rightarrow> bool) \<Rightarrow> (nat \<Rightarrow> 's \<Rightarrow> bool) \<Rightarrow> Room \<Rightarrow> (bytes \<Rightarrow> nat \<Rightarrow> 's \<Rightarrow> 's \<times> bool) \<Rightarrow> bool" where
  "checkpoint_law h ok R f \<longleftrightarrow> (\<forall>b n s s' r. f b n s = (s', r) \<longrightarrow>
     (\<forall>q. h s q \<longrightarrow> h s' q) \<and>
     (rm_checkpoint R b n \<longrightarrow> (r \<longrightarrow> (\<forall>q. 0 < q \<and> q \<le> n \<longrightarrow> h s' q)) \<and> (\<forall>D. ok D s \<longrightarrow> ok D s')))"

definition frontier_law :: "('s \<Rightarrow> nat \<Rightarrow> bool) \<Rightarrow> Room \<Rightarrow> (bytes \<Rightarrow> 's \<Rightarrow> bool) \<Rightarrow> bool" where
  "frontier_law h R f \<longleftrightarrow> (\<forall>b n s q. rm_frontier R b n \<longrightarrow> f b s \<longrightarrow> 0 < q \<longrightarrow> q \<le> n \<longrightarrow> h s q)"

definition sink_laws :: "'s ChatDocSink \<Rightarrow> ('s \<Rightarrow> nat \<Rightarrow> bool) \<Rightarrow> (nat \<Rightarrow> 's \<Rightarrow> bool) \<Rightarrow> Room \<Rightarrow> bool" where
  "sink_laws K h ok R \<longleftrightarrow> debt_law ok \<and> keep_law h ok (sk_reset_cursor K 0) \<and>
     (\<forall>i b. keep_law h ok (\<lambda>s. fst (sk_persist_update K i b s))) \<and>
     (\<forall>i. keep_law h ok (\<lambda>s. fst (sk_acknowledge_update K i s))) \<and>
     (\<forall>i. keep_law h ok (\<lambda>s. fst (sk_reject_update K i s))) \<and>
     advance_law h ok (sk_advance_cursor K) \<and> row_law h ok R (sk_apply_row K) \<and>
     row_law h ok R (sk_apply_replay_row K) \<and> checkpoint_law h ok R (sk_apply_checkpoint K) \<and>
     frontier_law h R (sk_contains_frontier K)"

text \<open>The laws one by one.\<close>

lemma law_debt: "sink_laws K h ok R \<Longrightarrow> ok D s \<Longrightarrow> D \<le> D' \<Longrightarrow> ok D' s"
  unfolding sink_laws_def debt_law_def by blast

lemma laws_keep:
  assumes "sink_laws K h ok R"
  shows "sink_keeps h ok s (sk_reset_cursor K 0 s)" "sink_keeps h ok s (fst (sk_persist_update K i b s))"
    "sink_keeps h ok s (fst (sk_acknowledge_update K i s))" "sink_keeps h ok s (fst (sk_reject_update K i s))"
  using assms by (simp_all add: sink_laws_def keep_law_def)

lemma law_advance:
  assumes "sink_laws K h ok R"
  shows "h s q \<Longrightarrow> h (sk_advance_cursor K n s) q"
    "ok D s \<Longrightarrow> covered (h s) D n \<Longrightarrow> ok D (sk_advance_cursor K n s)"
  using assms by (simp_all add: sink_laws_def advance_law_def)

lemma law_row:
  assumes "sink_laws K h ok R" "(if replay then sk_apply_replay_row K else sk_apply_row K) b n s = (s', r)"
  shows "h s q \<Longrightarrow> h s' q" "b = rm_row R q \<Longrightarrow> r = RoApplied \<Longrightarrow> h s' q"
    "ok D s \<Longrightarrow> (r = RoApplied \<Longrightarrow> covered (h s') D n) \<Longrightarrow> ok D s'"
proof -
  have "row_law h ok R (if replay then sk_apply_replay_row K else sk_apply_row K)"
    using assms(1) by (simp add: sink_laws_def)
  note l = this [unfolded row_law_def, rule_format, OF assms(2)]
  show "h s q \<Longrightarrow> h s' q" "b = rm_row R q \<Longrightarrow> r = RoApplied \<Longrightarrow> h s' q"
    "ok D s \<Longrightarrow> (r = RoApplied \<Longrightarrow> covered (h s') D n) \<Longrightarrow> ok D s'"
    using l by blast+
qed

lemma law_checkpoint:
  assumes "sink_laws K h ok R" "sk_apply_checkpoint K b n s = (s', r)"
  shows "h s q \<Longrightarrow> h s' q" "rm_checkpoint R b n \<Longrightarrow> r \<Longrightarrow> 0 < q \<Longrightarrow> q \<le> n \<Longrightarrow> h s' q"
    "ok D s \<Longrightarrow> rm_checkpoint R b n \<Longrightarrow> ok D s'"
proof -
  have "checkpoint_law h ok R (sk_apply_checkpoint K)" using assms(1) by (simp add: sink_laws_def)
  note l = this [unfolded checkpoint_law_def, rule_format, OF assms(2)]
  show "h s q \<Longrightarrow> h s' q" "rm_checkpoint R b n \<Longrightarrow> r \<Longrightarrow> 0 < q \<Longrightarrow> q \<le> n \<Longrightarrow> h s' q"
    "ok D s \<Longrightarrow> rm_checkpoint R b n \<Longrightarrow> ok D s'"
    using l by blast+
qed

lemma law_frontier:
  "sink_laws K h ok R \<Longrightarrow> rm_frontier R f n \<Longrightarrow> sk_contains_frontier K f s \<Longrightarrow> 0 < q \<Longrightarrow> q \<le> n \<Longrightarrow> h s q"
  unfolding sink_laws_def frontier_law_def by blast

lemma sink_keeps_trans: "sink_keeps h ok a b \<Longrightarrow> sink_keeps h ok b c \<Longrightarrow> sink_keeps h ok a c"
  by (simp add: sink_keeps_def)

lemma covered_mono: "covered h D n \<Longrightarrow> (\<And>q. h q \<Longrightarrow> h' q) \<Longrightarrow> D \<le> D' \<Longrightarrow> n' \<le> n \<Longrightarrow> covered h' D' n'"
  unfolding covered_def by (meson le_trans)

lemma covered_0 [simp]: "covered h D 0"
  by (simp add: covered_def)

lemma covered_le: "n \<le> D \<Longrightarrow> covered h D n"
  by (auto simp: covered_def)

lemma covered_max: "covered h D (max a b) \<longleftrightarrow> covered h D a \<and> covered h D b"
  by (auto simp: covered_def le_max_iff_disj)

lemma covered_next: "covered h D n \<Longrightarrow> q \<le> n + 1 \<Longrightarrow> q = 0 \<or> h q \<Longrightarrow> covered h D q"
proof -
  assume c: "covered h D n" and q: "q \<le> n + 1" "q = 0 \<or> h q"
  have "h p \<or> p \<le> D" if "0 < p" "p \<le> q" for p
  proof (cases "p = q")
    case False
    then have "p \<le> n" using that q(1) by simp
    then show ?thesis using c that(1) by (simp add: covered_def)
  qed (use q that in auto)
  then show ?thesis by (simp add: covered_def)
qed

section \<open>The client\<close>

definition client_ok :: "('s \<Rightarrow> nat \<Rightarrow> bool) \<Rightarrow> (nat \<Rightarrow> 's \<Rightarrow> bool) \<Rightarrow> nat \<Rightarrow> 's Client \<Rightarrow> bool" where
  "client_ok h ok D c \<longleftrightarrow> covered (h (cl_sink c)) D (sd_cursor (cl_shared c)) \<and> ok D (cl_sink c)"

text \<open>An operation keeps the document's rows and the honesty of the cursors, for every debt.\<close>

definition keeps :: "('s \<Rightarrow> nat \<Rightarrow> bool) \<Rightarrow> (nat \<Rightarrow> 's \<Rightarrow> bool) \<Rightarrow> 's Client \<Rightarrow> 's Client \<Rightarrow> bool" where
  "keeps h ok c c' \<longleftrightarrow> (\<forall>q. h (cl_sink c) q \<longrightarrow> h (cl_sink c') q) \<and> (\<forall>D. client_ok h ok D c \<longrightarrow> client_ok h ok D c')"

lemma honest_refl [simp]: "keeps h ok c c"
  by (simp add: keeps_def)

lemma honest_trans: "keeps h ok a b \<Longrightarrow> keeps h ok b c \<Longrightarrow> keeps h ok a c"
  by (simp add: keeps_def)

text \<open>Changing the sink lawfully and never raising the cursor.\<close>

lemma keeps_sink:
  assumes "sink_keeps h ok (cl_sink c) (cl_sink c')" "sd_cursor (cl_shared c') \<le> sd_cursor (cl_shared c)"
  shows "keeps h ok c c'"
proof -
  have m: "h (cl_sink c) q \<Longrightarrow> h (cl_sink c') q" for q using assms(1) by (simp add: sink_keeps_def)
  have "client_ok h ok D c'" if "client_ok h ok D c" for D
  proof -
    have "covered (h (cl_sink c)) D (sd_cursor (cl_shared c))" using that by (simp add: client_ok_def)
    from covered_mono [OF this m order_refl assms(2)] show ?thesis
      using that assms(1) by (simp add: client_ok_def sink_keeps_def)
  qed
  then show ?thesis using m by (simp add: keeps_def)
qed

lemma keeps_same: "cl_sink c' = cl_sink c \<Longrightarrow> sd_cursor (cl_shared c') \<le> sd_cursor (cl_shared c) \<Longrightarrow> keeps h ok c c'"
  by (rule keeps_sink) (simp_all add: sink_keeps_def)

text \<open>A frame says the truth about the room, and an acknowledged batch is one of this document.\<close>

definition row_true :: "Room \<Rightarrow> WireFrame \<Rightarrow> bool" where
  "row_true R f \<longleftrightarrow> wf_kind f = ROW \<longrightarrow> (case dec_row_header (wf_header f) of
     None \<Rightarrow> True | Some row \<Rightarrow> wf_payload f = rm_row R (rh_seq row))"

definition ack_true :: "('s \<Rightarrow> nat \<Rightarrow> bool) \<Rightarrow> 's Client \<Rightarrow> WireFrame \<Rightarrow> bool" where
  "ack_true h c f \<longleftrightarrow> wf_kind f = ACK \<longrightarrow> (case dec_ack_header (wf_header f) of
     None \<Rightarrow> True | Some ack \<Rightarrow> ah_seq ack = 0 \<or> h (cl_sink c) (ah_seq ack))"

definition answer_true :: "Room \<Rightarrow> WireFrame \<Rightarrow> bool" where
  "answer_true R f \<longleftrightarrow>
     (wf_kind f = ACK \<longrightarrow> (case dec_ack_header (wf_header f) of None \<Rightarrow> True | Some ack \<Rightarrow> rm_answered R (ah_batch_id ack))) \<and>
     (wf_kind f = ERROR_FRAME \<longrightarrow> (case as_str (json_index (wf_header f) ''batchId'') of None \<Rightarrow> True | Some b \<Rightarrow> rm_answered R b))"

definition frame_true :: "('s \<Rightarrow> nat \<Rightarrow> bool) \<Rightarrow> Room \<Rightarrow> 's Client \<Rightarrow> WireFrame \<Rightarrow> bool" where
  "frame_true h R c f \<longleftrightarrow> row_true R f \<and> ack_true h c f \<and> answer_true R f"

lemma frame_true_keeps: "frame_true h R c f \<Longrightarrow> keeps h ok c c' \<Longrightarrow> frame_true h R c' f"
  by (auto simp: frame_true_def ack_true_def keeps_def split: option.splits)

lemma keeps_row:
  assumes K: "sink_laws K h ok R" and b: "b = rm_row R seq"
  shows "keeps h ok c (apply_remote_row K b seq replay c)"
proof -
  let ?f = "if replay then sk_apply_replay_row K else sk_apply_row K"
  define sd cur where sc: "sd = fst (propose_row seq (cl_shared c))" "cur = snd (propose_row seq (cl_shared c))"
  define s o' where so: "s = fst (?f b cur (cl_sink c))" "o' = snd (?f b cur (cl_sink c))"
  have p: "propose_row seq (cl_shared c) = (sd, cur)" "?f b cur (cl_sink c) = (s, o')" by (simp_all add: sc so)
  have sdc: "sd_cursor sd = sd_cursor (cl_shared c)"
    by (simp add: sc propose_row_def flag_gap_def)
  have cur: "cur = sd_cursor sd \<or> cur = max (sd_cursor sd) seq \<and> seq \<le> sd_cursor sd + 1"
    by (auto simp: sc sdc propose_row_def sat_succ_def flag_gap_def)
  have L: "\<And>q. h (cl_sink c) q \<Longrightarrow> h s q" "o' = RoApplied \<Longrightarrow> h s seq"
    "\<And>D. ok D (cl_sink c) \<Longrightarrow> (o' = RoApplied \<Longrightarrow> covered (h s) D cur) \<Longrightarrow> ok D s"
    using law_row [OF K p(2)] b by blast+
  have cov: "covered (h s) D cur" if c: "covered (h (cl_sink c)) D (sd_cursor sd)" and o: "o' = RoApplied" for D
  proof -
    have c': "covered (h s) D (sd_cursor sd)" using covered_mono [OF c L(1) order_refl order_refl] .
    from cur show ?thesis
    proof
      assume "cur = sd_cursor sd" then show ?thesis using c' by simp
    next
      assume "cur = max (sd_cursor sd) seq \<and> seq \<le> sd_cursor sd + 1"
      then show ?thesis using c' covered_next [OF c'] L(2) [OF o] by (simp add: covered_max)
    qed
  qed
  have "client_ok h ok D (apply_remote_row K b seq replay c)" if "client_ok h ok D c" for D
  proof (cases o')
    case RoApplied
    have c: "covered (h (cl_sink c)) D (sd_cursor sd)" "ok D (cl_sink c)" using that by (simp_all add: client_ok_def sdc)
    have "covered (h s) D (max (sd_cursor sd) cur)"
      using covered_mono [OF c(1) L(1) order_refl order_refl] cov [OF c(1) RoApplied] by (simp add: covered_max)
    then show ?thesis using L(3) [OF c(2)] cov [OF c(1)] by (simp add: client_ok_def apply_remote_row_def p RoApplied)
  next
    case RoPendingDependencies
    have c: "covered (h (cl_sink c)) D (sd_cursor sd)" "ok D (cl_sink c)" using that by (simp_all add: client_ok_def sdc)
    then show ?thesis using covered_mono [OF c(1) L(1) order_refl order_refl] L(3) [OF c(2)]
      by (simp add: client_ok_def apply_remote_row_def p RoPendingDependencies)
  qed
  then show ?thesis using L(1) by (cases o') (simp_all add: keeps_def apply_remote_row_def p)
qed

text \<open>The end of an acknowledgement, over the socket or over HTTPS: a contiguous cursor, told to the
  sink.\<close>

lemma keeps_ack:
  assumes K: "sink_laws K h ok R" and seq: "seq = 0 \<or> h (cl_sink c) seq"
    and s: "sink_keeps h ok (cl_sink c) s"
    and n: "n = sd_cursor (cl_shared c) \<or> n = max (sd_cursor (cl_shared c)) seq \<and> seq \<le> sd_cursor (cl_shared c) + 1"
    and c': "cl_sink c' = sk_advance_cursor K n s" "sd_cursor (cl_shared c') = n"
  shows "keeps h ok c c'"
proof -
  have m: "h (cl_sink c) q \<Longrightarrow> h s q" for q using s by (simp add: sink_keeps_def)
  note a = law_advance [OF K, where s = s and n = n]
  have "covered (h s) D n" if c: "covered (h (cl_sink c)) D (sd_cursor (cl_shared c))" for D
  proof -
    have cs: "covered (h s) D (sd_cursor (cl_shared c))" using covered_mono [OF c m order_refl order_refl] .
    then show ?thesis using n covered_next [OF cs, of seq] seq m by (auto simp: covered_max)
  qed
  note cov = this
  have "client_ok h ok D c'" if "client_ok h ok D c" for D
  proof -
    have cD: "covered (h s) D n" using cov that by (simp add: client_ok_def)
    have "ok D s" using that s by (simp add: client_ok_def sink_keeps_def)
    then have "ok D (sk_advance_cursor K n s)" using a(2) cD by blast
    then show ?thesis using covered_mono [OF cD a(1) order_refl order_refl] by (simp add: client_ok_def c')
  qed
  moreover have "h (cl_sink c) q \<Longrightarrow> h (cl_sink c') q" for q using m a(1) by (simp add: c')
  ultimately show ?thesis by (simp add: keeps_def)
qed

lemma wrap_succ_le: "wrap_succ n \<le> n + 1"
  by (simp add: wrap_succ_def)

lemma keeps_on_ack:
  assumes K: "sink_laws K h ok R" and a: "wf_kind f = ACK" "ack_true h c f"
  shows "keeps h ok c (fst (on_ack K now f c))"
proof (cases "dec_ack_header (wf_header f)")
  case (Some ack)
  define s g where sg: "s = fst (sk_acknowledge_update K (ah_batch_id ack) (cl_sink c))"
    "g = snd (sk_acknowledge_update K (ah_batch_id ack) (cl_sink c))"
  have p: "sk_acknowledge_update K (ah_batch_id ack) (cl_sink c) = (s, g)" by (simp add: sg)
  define sd1 where "sd1 = (if g then retire (ah_batch_id ack) (cl_shared c)
      else (cl_shared c)\<lparr>sd_retry_at := Some (now + QUOTA_RETRY)\<rparr>)"
  define sd2 where "sd2 = ack_cursor (ah_seq ack) sd1"
  have cur1: "sd_cursor sd1 = sd_cursor (cl_shared c)" by (simp add: sd1_def retire_def)
  have cur2: "sd_cursor sd2 = sd_cursor (cl_shared c) \<or>
      sd_cursor sd2 = max (sd_cursor (cl_shared c)) (ah_seq ack) \<and> ah_seq ack \<le> sd_cursor (cl_shared c) + 1"
    using wrap_succ_le [of "sd_cursor (cl_shared c)"] by (auto simp: sd2_def ack_cursor_def cur1 flag_gap_def)
  have cur3: "sd_cursor (quota_drain now sd2) = sd_cursor sd2" by (simp add: quota_drain_def)
  have seq: "ah_seq ack = 0 \<or> h (cl_sink c) (ah_seq ack)" using a Some by (simp add: ack_true_def)
  have c': "fst (on_ack K now f c) = emit CeApplied (c\<lparr>cl_shared := quota_drain now sd2, cl_sink := sk_advance_cursor K (sd_cursor sd2) s\<rparr>)"
    by (simp add: on_ack_def Some p sd2_def sd1_def Let_def)
  show ?thesis
    by (rule keeps_ack [OF K seq, of s "sd_cursor sd2"]) (use laws_keep(3) [OF K] cur2 in \<open>simp_all add: c' cur3 sg\<close>)
qed (simp add: on_ack_def)

lemma keeps_on_error: "sink_laws K h ok R \<Longrightarrow> keeps h ok c (fst (on_error K now f c))"
proof -
  assume K: "sink_laws K h ok R"
  define batch where "batch = (case as_str (json_index (wf_header f) ''batchId'') of None \<Rightarrow> [] | Some s \<Rightarrow> s)"
  define s g where sg: "s = fst (sk_reject_update K batch (cl_sink c))" "g = snd (sk_reject_update K batch (cl_sink c))"
  have p: "sk_reject_update K batch (cl_sink c) = (s, g)" by (simp add: sg)
  have "(cl_sink (fst (on_error K now f c)) = s \<or> cl_sink (fst (on_error K now f c)) = cl_sink c) \<and>
      sd_cursor (cl_shared (fst (on_error K now f c))) = sd_cursor (cl_shared c)"
    unfolding on_error_def Let_def batch_def [symmetric]
    by (cases g) (simp_all add: p retire_def)
  then show ?thesis
    using keeps_sink [of h ok c "fst (on_error K now f c)"] keeps_same [of "fst (on_error K now f c)" c h ok] laws_keep(4) [OF K] sg(1)
    by auto
qed

lemma keeps_handle:
  assumes K: "sink_laws K h ok R" and f: "frame_true h R c f"
  shows "keeps h ok c (fst (handle_frame_with_replay K now f replay c))"
proof -
  have row: "keeps h ok c (fst (on_row K f r c))" if "wf_kind f = ROW" for r
  proof (cases "dec_row_header (wf_header f)")
    case (Some row)
    have "wf_payload f = rm_row R (rh_seq row)" using f that Some by (simp add: frame_true_def row_true_def)
    from keeps_row [OF K this, of c "r \<or> sd_replaying_gap (cl_shared c)"] show ?thesis
      by (rule honest_trans) (simp add: on_row_def Some keeps_same)
  qed (simp add: on_row_def)
  have ack: "keeps h ok c (fst (on_ack K now f c))" if "wf_kind f = ACK"
    using keeps_on_ack [OF K that] f by (simp add: frame_true_def)
  show ?thesis
    unfolding handle_frame_with_replay_def Let_def
    by (simp add: row ack keeps_on_error [OF K] keeps_same split: option.split)
qed

end
