(* ===== verification/Chat_Machine.thy ===== *)
theory Chat_Machine
  imports Chat_Room
begin

text \<open>
  A chat client in its room: the socket session, the HTTPS cycle, the host's calls, local edits and
  the saves of the snapshot, interleaved in any order, with inputs that tell the truth about a room
  that is not reset. The invariant is that the cursors are honest.
\<close>

section \<open>Helpers keep the cursors honest\<close>

lemma keeps_send: "keeps h ok c (fst (send_frame f c))"
  by (simp add: send_frame_def keeps_same)

lemma keeps_ensure: "sink_laws K h ok R \<Longrightarrow> keeps h ok c (fst (ensure_durable K p c))"
proof -
  assume K: "sink_laws K h ok R"
  have "(cl_sink (fst (ensure_durable K p c)) = cl_sink c \<or>
      (\<exists>i b. cl_sink (fst (ensure_durable K p c)) = fst (sk_persist_update K i b (cl_sink c)))) \<and>
     sd_cursor (cl_shared (fst (ensure_durable K p c))) = sd_cursor (cl_shared c)"
    unfolding ensure_durable_def
    by (simp split: option.split prod.split bool.split) (metis fst_conv)
  then show ?thesis
  proof (elim conjE disjE exE)
    assume "cl_sink (fst (ensure_durable K p c)) = cl_sink c"
      "sd_cursor (cl_shared (fst (ensure_durable K p c))) = sd_cursor (cl_shared c)"
    then show ?thesis by (simp add: keeps_same)
  next
    fix i b assume "cl_sink (fst (ensure_durable K p c)) = fst (sk_persist_update K i b (cl_sink c))"
      "sd_cursor (cl_shared (fst (ensure_durable K p c))) = sd_cursor (cl_shared c)"
    then show ?thesis using laws_keep(2) [OF K, of "cl_sink c" i b] by (intro keeps_sink) simp_all
  qed
qed

lemma keeps_push_batches: "sink_laws K h ok R \<Longrightarrow> keeps h ok c (fst (fst (push_batches K ps infl c)))"
proof (induction ps arbitrary: infl c)
  case (Cons p ps)
  obtain c1 b1 where e: "ensure_durable K p c = (c1, b1)" by fastforce
  obtain c2 b2 where s: "send_frame (OutPush (pp_batch_id p) (pp_bytes p)) c1 = (c2, b2)" by fastforce
  have "keeps h ok c c1" using keeps_ensure [OF Cons.prems, of c p] e by simp
  moreover have "keeps h ok c1 c2" using keeps_send [of h ok c1 "OutPush (pp_batch_id p) (pp_bytes p)"] s by simp
  moreover note Cons.IH [OF Cons.prems, of c2 "infl @ [pp_batch_id p]"]
  ultimately show ?case by (cases b1; cases b2) (auto simp: e s intro: honest_trans)
qed simp

lemma keeps_push_pending: "sink_laws K h ok R \<Longrightarrow> keeps h ok c (fst (fst (push_pending K infl c)))"
  by (simp add: push_pending_def Let_def keeps_push_batches)

lemma keeps_push_head: "sink_laws K h ok R \<Longrightarrow> keeps h ok c (fst (push_head K c))"
proof (cases "sd_pending (cl_shared c)")
  case (Cons p ps)
  assume K: "sink_laws K h ok R"
  obtain c1 b1 where e: "ensure_durable K p c = (c1, b1)" by fastforce
  have "keeps h ok c c1" using keeps_ensure [OF K, of c p] e by simp
  then show ?thesis using honest_trans [OF _ keeps_send] by (cases b1) (simp_all add: push_head_def Cons e)
qed (simp add: push_head_def)

lemma keeps_repair: "keeps h ok c (fst (fst (maybe_repair_gap n c)))"
proof -
  have "cl_sink (fst (fst (maybe_repair_gap n c))) = cl_sink c \<and>
      sd_cursor (cl_shared (fst (fst (maybe_repair_gap n c)))) = sd_cursor (cl_shared c)"
    by (simp add: maybe_repair_gap_def Let_def send_frame_def)
  then show ?thesis by (simp add: keeps_same)
qed

lemma keeps_probe: "keeps h ok c (fst (fst (send_probe now d c)))"
proof -
  have "cl_sink (fst (fst (send_probe now d c))) = cl_sink c \<and>
      sd_cursor (cl_shared (fst (fst (send_probe now d c)))) = sd_cursor (cl_shared c)"
    by (simp add: send_probe_def send_frame_def)
  then show ?thesis by (simp add: keeps_same)
qed

lemma keeps_amnesty: "sink_laws K h ok R \<Longrightarrow> keeps h ok c (apply_cursor_amnesty K st c)"
  by (rule keeps_sink) (auto simp: apply_cursor_amnesty_def Let_def sink_keeps_def laws_keep [unfolded sink_keeps_def])

lemma keeps_enqueue: "sink_laws K h ok R \<Longrightarrow> keeps h ok c (enqueue_batch K i b c)"
proof -
  assume K: "sink_laws K h ok R"
  obtain s d where p: "sk_persist_update K i b (cl_sink c) = (s, d)" by fastforce
  have s: "sink_keeps h ok (cl_sink c) s" using laws_keep(2) [OF K, of "cl_sink c" i b] p by simp
  have "sink_keeps h ok (cl_sink c) (fst (sk_reject_update K i s))"
    using sink_keeps_trans [OF s laws_keep(4) [OF K]] .
  then show ?thesis using s by (auto simp: enqueue_batch_def p Let_def intro!: keeps_sink)
qed

lemma keeps_reconnect: "keeps h ok c (snd (ws_reconnect c))"
proof -
  have "cl_sink (snd (ws_reconnect c)) = cl_sink c \<and> sd_cursor (cl_shared (snd (ws_reconnect c))) = sd_cursor (cl_shared c)"
    by (simp add: ws_reconnect_def Let_def)
  then show ?thesis by (simp add: keeps_same)
qed

lemma keeps_steady_top: "keeps h ok c (snd (steady_top now l c))"
proof -
  have "cl_sink (snd (steady_top now l c)) = cl_sink c \<and> sd_cursor (cl_shared (snd (steady_top now l c))) = sd_cursor (cl_shared c)"
    by (simp add: steady_top_def Let_def send_frame_def ws_reconnect_def)
  then show ?thesis by (simp add: keeps_same)
qed

lemma keeps_steady: "keeps h ok c (fst r) \<Longrightarrow> keeps h ok c (snd (steady_or_reconnect now l r))"
  by (simp add: steady_or_reconnect_def honest_trans [OF _ keeps_steady_top] honest_trans [OF _ keeps_reconnect])

text \<open>What phase a step ends in.\<close>

definition settled_phase :: "WsPhase \<Rightarrow> bool" where
  "settled_phase w \<longleftrightarrow> (case w of WsCheckpoint _ _ _ _ _ \<Rightarrow> False | _ \<Rightarrow> True)"

lemma settled_reconnect [simp]: "settled_phase (fst (ws_reconnect c))"
  by (simp add: ws_reconnect_def Let_def settled_phase_def)

lemma settled_top [simp]: "settled_phase (fst (steady_top now l c))"
  by (simp add: steady_top_def Let_def send_frame_def settled_reconnect) (simp add: settled_phase_def)

lemma settled_steady [simp]: "settled_phase (fst (steady_or_reconnect now l r))"
  by (simp add: steady_or_reconnect_def)

lemma keeps_backfilled: "keeps h ok c (snd (ws_backfilled now head ticket infl c)) \<and> settled_phase (fst (ws_backfilled now head ticket infl c))"
proof -
  let ?c0 = "c\<lparr>cl_resumed := True, cl_ready := False\<rparr>"
  define c1 where "c1 = (if \<not> sd_needs_checkpoint (cl_shared ?c0)
      then emit (CeCaughtUp head) (on_shared (\<lambda>sd. finish_ticket head ticket (sd\<lparr>sd_caught_up := True\<rparr>)) ?c0) else ?c0)"
  obtain c2 n ok2 where r: "maybe_repair_gap 0 c1 = ((c2, n), ok2)" by (metis prod.collapse)
  have "keeps h ok c c1" by (simp add: keeps_same c1_def finish_ticket_def)
  moreover have "keeps h ok c1 c2" using keeps_repair [of h ok c1 0] r by simp
  ultimately have "keeps h ok c c2" by (rule honest_trans)
  then show ?thesis unfolding ws_backfilled_def Let_def c1_def [symmetric] r by (simp add: keeps_steady)
qed

lemma keeps_replay:
  assumes K: "sink_laws K h ok R"
  shows "\<forall>f \<in> set fs. frame_true h R c f \<Longrightarrow> keeps h ok c (fst (fst (replay_buffered K now fs head c)))"
proof (induction fs arbitrary: head c)
  case (Cons f fs)
  obtain c1 b1 where e: "handle_frame_with_replay K now f (head = None) c = (c1, b1)" by fastforce
  have k: "keeps h ok c c1" using keeps_handle [OF K, of c f now "head = None"] Cons.prems e by simp
  have "\<forall>f \<in> set fs. frame_true h R c1 f" using Cons.prems k frame_true_keeps by fastforce
  then have "keeps h ok c (fst (fst (replay_buffered K now fs head c1)))" using Cons.IH k honest_trans by blast
  moreover have "keeps h ok c (fst (fst (replay_buffered K now fs (Some x) c)))" for x using Cons by simp
  ultimately show ?case using k by (auto simp: e split: option.splits bool.splits)
qed simp

lemma keeps_ws_replay:
  assumes K: "sink_laws K h ok R" and fs: "\<forall>f \<in> set fs. frame_true h R c f"
  shows "keeps h ok c (snd (ws_replay K now g t infl fs c)) \<and> settled_phase (fst (ws_replay K now g t infl fs c))"
proof -
  let ?c0 = "on_shared (clear_needs_checkpoint g) c"
  have k0: "keeps h ok c ?c0" by (simp add: keeps_same clear_needs_checkpoint_def)
  obtain c1 hd b where r: "replay_buffered K now fs None ?c0 = ((c1, hd), b)" by (metis prod.collapse)
  have "\<forall>f \<in> set fs. frame_true h R ?c0 f" using fs k0 frame_true_keeps by blast
  then have "keeps h ok ?c0 c1" using keeps_replay [OF K, of fs ?c0 now None] r by simp
  then have k1: "keeps h ok c c1" using k0 honest_trans by blast
  show ?thesis
  proof (cases b)
    case True
    show ?thesis
    proof (cases hd)
      case None
      then show ?thesis using k1 True by (simp add: ws_replay_def r settled_phase_def)
    next
      case (Some x)
      then show ?thesis using k1 True keeps_backfilled [of h ok c1 now x t infl] honest_trans by (fastforce simp: ws_replay_def r)
    qed
  next
    case False
    then have "ws_replay K now g t infl fs c = ws_reconnect c1" by (cases hd) (simp_all add: ws_replay_def r)
    then show ?thesis using honest_trans [OF k1 keeps_reconnect] by simp
  qed
qed

lemma keeps_steady_frame:
  assumes K: "sink_laws K h ok R" and f: "frame_true h R c f"
  shows "keeps h ok c (snd (steady_frame K now f l c)) \<and> settled_phase (fst (steady_frame K now f l c))"
proof -
  obtain c1 b where e: "handle_frame K now f c = (c1, b)" by fastforce
  have k1: "keeps h ok c c1" using keeps_handle [OF K f, of now False] e by (simp add: handle_frame_def)
  define l0 where "l0 = l\<lparr>sl_last_frame := now, sl_probe_deadline := None\<rparr>"
  define hd where "hd = (if wf_kind f = ROWS_DONE then dec_rows_done_header (wf_header f) else None)"
  define lc where "lc = (case (hd, sl_refresh_in_flight l0) of
      (Some h, Some (ticket, _)) \<Rightarrow> (l0\<lparr>sl_refresh_in_flight := None\<rparr>, on_shared (refreshed h ticket) c1) | _ \<Rightarrow> (l0, c1))"
  have "cl_sink (snd lc) = cl_sink c1 \<and> sd_cursor (cl_shared (snd lc)) = sd_cursor (cl_shared c1)"
    by (auto simp: lc_def refreshed_def flag_gap_def split: option.split)
  then have k2: "keeps h ok c (snd lc)" using k1 honest_trans keeps_same [of "snd lc" c1 h ok] by fastforce
  obtain c3 n ok3 where r: "maybe_repair_gap (sl_gap_repairs (fst lc)) (snd lc) = ((c3, n), ok3)" by (metis prod.collapse)
  have k3: "keeps h ok c c3" using k2 keeps_repair [of h ok "snd lc" "sl_gap_repairs (fst lc)"] r honest_trans by fastforce
  show ?thesis
  proof (cases b)
    case True
    have "steady_frame K now f l c = (case lc of (l, c) \<Rightarrow> (case maybe_repair_gap (sl_gap_repairs l) c of ((c, repairs), ok) \<Rightarrow>
         steady_or_reconnect now (l\<lparr>sl_gap_repairs := repairs\<rparr>) (c, ok)))"
      unfolding steady_frame_def Let_def l0_def [symmetric] hd_def [symmetric] e lc_def using True by simp
    then show ?thesis using k3 r by (simp add: split_beta keeps_steady)
  next
    case False
    then show ?thesis using k1 keeps_reconnect [of h ok c1] honest_trans by (fastforce simp: steady_frame_def Let_def e)
  qed
qed

lemma keeps_ws_steady:
  assumes K: "sink_laws K h ok R" and f: "\<And>f. i = InFrame (Some f) \<Longrightarrow> frame_true h R c f"
  shows "keeps h ok c (snd (ws_steady K now l i c)) \<and> settled_phase (fst (ws_steady K now l i c))"
proof (cases i)
  case (InFrame fo)
  then show ?thesis using keeps_steady_frame [OF K f] by (cases fo) (simp_all add: ws_steady_def keeps_reconnect)
next
  case InNudge
  obtain c1 n b where p: "push_pending K (sl_in_flight l) c = ((c1, n), b)" by (metis prod.collapse)
  have "keeps h ok c c1" using keeps_push_pending [OF K, of c "sl_in_flight l"] p by simp
  then show ?thesis using InNudge by (simp add: ws_steady_def p keeps_steady)
next
  case (InPresence at payload)
  then show ?thesis by (simp add: ws_steady_def keeps_steady keeps_send)
next
  case InProbe
  obtain c1 n b where p: "send_probe now (sl_probe_deadline l) c = ((c1, n), b)" by (metis prod.collapse)
  have "keeps h ok c c1" using keeps_probe [of h ok c now "sl_probe_deadline l"] p by simp
  then show ?thesis using InProbe by (simp add: ws_steady_def p keeps_steady)
next
  case InQuietTimer
  obtain c1 n b where p: "send_probe now (sl_probe_deadline l) c = ((c1, n), b)" by (metis prod.collapse)
  have "keeps h ok c c1" using keeps_probe [of h ok c now "sl_probe_deadline l"] p by simp
  then show ?thesis using InQuietTimer by (simp add: ws_steady_def p keeps_steady)
next
  case InRetryTimer
  let ?c0 = "on_shared (\<lambda>sd. sd\<lparr>sd_retry_at := None\<rparr>) c"
  have "keeps h ok c ?c0" by (simp add: keeps_same)
  then have "keeps h ok c (fst (push_head K ?c0))" using keeps_push_head [OF K] honest_trans by blast
  then show ?thesis using InRetryTimer by (simp add: ws_steady_def keeps_steady)
qed (simp_all add: ws_steady_def keeps_reconnect, simp_all add: settled_phase_def)

end
