(* ===== verification/Chat_Honest.thy ===== *)
theory Chat_Honest
  imports Chat_Machine
begin

text \<open>
  The invariant of the whole chat client, over every interleaving of its transports, its host and its
  saves, and what it says of the engine's sink.
\<close>

section \<open>The handshake\<close>

text \<open>A state frame of the room: its checkpoint is never older than one already announced.\<close>

definition state_true :: "Room \<Rightarrow> nat \<Rightarrow> StateHeader \<Rightarrow> bytes \<Rightarrow> bool" where
  "state_true R D st frontier \<longleftrightarrow>
     (if sh_checkpoint_size st = 0 then D = 0 else D \<le> sh_checkpoint_seq st \<and> rm_frontier R frontier (sh_checkpoint_seq st))"

text \<open>Rows the client may count on getting from the announced checkpoint.\<close>

definition state_debt :: "nat \<Rightarrow> StateHeader \<Rightarrow> nat" where
  "state_debt D st = (if sh_checkpoint_size st = 0 then D else max D (sh_checkpoint_seq st))"

definition settled :: "('s \<Rightarrow> nat \<Rightarrow> bool) \<Rightarrow> nat \<Rightarrow> 's Client \<Rightarrow> bool" where
  "settled h D c \<longleftrightarrow> (\<forall>q. 0 < q \<and> q \<le> D \<longrightarrow> h (cl_sink c) q)"

lemma settled_keeps: "settled h D c \<Longrightarrow> keeps h ok c c' \<Longrightarrow> settled h D c'"
  by (simp add: settled_def keeps_def)

definition phase_ok :: "('s \<Rightarrow> nat \<Rightarrow> bool) \<Rightarrow> Room \<Rightarrow> nat \<Rightarrow> WsPhase \<times> 's Client \<Rightarrow> bool" where
  "phase_ok h R D pc \<longleftrightarrow> (case fst pc of
     WsCheckpoint st _ _ _ buffered \<Rightarrow> D \<le> sh_checkpoint_seq st \<and> (\<forall>f \<in> set buffered. frame_true h R (snd pc) f)
   | WsBackfill _ _ \<Rightarrow> settled h D (snd pc)
   | WsSteady _ \<Rightarrow> settled h D (snd pc)
   | _ \<Rightarrow> True)"

lemma phase_ok_settled: "settled h D c \<Longrightarrow> settled_phase w \<Longrightarrow> phase_ok h R D (w, c)"
  by (simp add: phase_ok_def settled_phase_def split: WsPhase.splits)

lemma phase_ok_keeps:
  assumes "phase_ok h R D (w, c)" "keeps h ok c c'"
  shows "phase_ok h R D (w, c')"
  using assms settled_keeps [OF _ assms(2)] frame_true_keeps [OF _ assms(2)]
  by (cases w) (auto simp: phase_ok_def)

lemma phase_ok_down: "settled_phase w \<Longrightarrow> (case w of WsBackfill _ _ \<Rightarrow> False | WsSteady _ \<Rightarrow> False | _ \<Rightarrow> True) \<Longrightarrow> phase_ok h R D (w, c)"
  by (cases w) (simp_all add: phase_ok_def settled_phase_def)

lemma reconnect_down: "phase_ok h R D (ws_reconnect c)"
  by (simp add: ws_reconnect_def Let_def phase_ok_def)

text \<open>What the plan leaves to be done.\<close>

lemma plan_covered:
  assumes st: "state_true R D st frontier" and cov: "covered (h (cl_sink c)) D cur"
    and K: "sink_laws K h ok R"
    and plan: "plan = plan_catch_up cur st (sh_checkpoint_size st = 0 \<or> (\<not> repair \<and> sk_contains_frontier K frontier (cl_sink c)))"
  shows "covered (h (cl_sink c)) (state_debt D st) (plan_after plan)"
    and "case plan of RowsOnly _ \<Rightarrow> settled h (state_debt D st) c | CheckpointThenRows a \<Rightarrow> state_debt D st \<le> sh_checkpoint_seq st"
proof -
  let ?cur = "if cur > sh_head_seq st then 0 else cur"
  have c: "covered (h (cl_sink c)) D ?cur" using cov by simp
  consider (none) "sh_checkpoint_size st = 0" "D = 0" "plan = RowsOnly ?cur"
    | (has) "sh_checkpoint_size st \<noteq> 0" "D \<le> sh_checkpoint_seq st" "plan = RowsOnly (max ?cur (sh_checkpoint_seq st))"
        "\<And>q. 0 < q \<Longrightarrow> q \<le> sh_checkpoint_seq st \<Longrightarrow> h (cl_sink c) q"
    | (fetch) "sh_checkpoint_size st \<noteq> 0" "D \<le> sh_checkpoint_seq st" "plan = CheckpointThenRows (sh_checkpoint_seq st)"
    using st law_frontier [OF K, of frontier "sh_checkpoint_seq st" "cl_sink c"] plan
    by (auto simp: state_true_def plan_catch_up_def Let_def split: if_splits)
  then have "covered (h (cl_sink c)) (state_debt D st) (plan_after plan) \<and>
    (case plan of RowsOnly _ \<Rightarrow> settled h (state_debt D st) c | CheckpointThenRows a \<Rightarrow> state_debt D st \<le> sh_checkpoint_seq st)"
  proof cases
    case none
    then show ?thesis using c by (simp add: plan_after_def state_debt_def settled_def)
  next
    case has
    have "covered (h (cl_sink c)) (sh_checkpoint_seq st) ?cur" using covered_mono [OF c _ has(2) order_refl] by simp
    then show ?thesis using has by (simp add: plan_after_def state_debt_def settled_def covered_max covered_le)
  next
    case fetch
    then show ?thesis by (simp add: plan_after_def state_debt_def covered_le)
  qed
  then show "covered (h (cl_sink c)) (state_debt D st) (plan_after plan)"
    "case plan of RowsOnly _ \<Rightarrow> settled h (state_debt D st) c | CheckpointThenRows a \<Rightarrow> state_debt D st \<le> sh_checkpoint_seq st"
    by blast+
qed

definition run_ok :: "('s \<Rightarrow> nat \<Rightarrow> bool) \<Rightarrow> (nat \<Rightarrow> 's \<Rightarrow> bool) \<Rightarrow> Room \<Rightarrow> nat \<Rightarrow> WsPhase \<times> 's Client \<Rightarrow> bool" where
  "run_ok h ok R D pc \<longleftrightarrow> client_ok h ok D (snd pc) \<and> phase_ok h R D pc"

text \<open>Documents only grow.\<close>

definition grows :: "('s \<Rightarrow> nat \<Rightarrow> bool) \<Rightarrow> 's Client \<Rightarrow> 's Client \<Rightarrow> bool" where
  "grows h c c' \<longleftrightarrow> (\<forall>q. h (cl_sink c) q \<longrightarrow> h (cl_sink c') q)"

lemma keeps_grows: "keeps h ok c c' \<Longrightarrow> grows h c c'"
  by (simp add: keeps_def grows_def)

lemma grows_trans: "grows h a b \<Longrightarrow> grows h b c \<Longrightarrow> grows h a c"
  by (simp add: grows_def)

lemma keeps_ok: "keeps h ok c c' \<Longrightarrow> client_ok h ok D c \<Longrightarrow> client_ok h ok D c'"
  by (simp add: keeps_def)

lemma ws_state_ok:
  assumes K: "sink_laws K h ok R" and st: "state_true R D st frontier" and c: "client_ok h ok D c"
  shows "run_ok h ok R (state_debt D st) (ws_state K now st frontier c) \<and> grows h c (snd (ws_state K now st frontier c))"
proof -
  define c1 where "c1 = on_shared (\<lambda>sd. clear_rows_req (sd\<lparr>sd_server := Some st\<rparr>)) c"
  define c2 where "c2 = (if sd_cursor (cl_shared c1) > sh_head_seq st
     then emit CeServerReset (on_flags (\<lambda>f. f\<lparr>fl_server_resets := fl_server_resets f + 1\<rparr>)
            (c1\<lparr>cl_sink := sk_reset_cursor K 0 (cl_sink c1)\<rparr>)) else c1)"
  define c3 where "c3 = apply_cursor_amnesty K st c2"
  define c4 where "c4 = emit CeConnected (on_flags (\<lambda>f. f\<lparr>fl_connected := True,
      fl_rejoins := (if cl_ready c3 then fl_rejoins f else fl_rejoins f + 1)\<rparr>) c3)"
  define repair where "repair = sd_needs_checkpoint (cl_shared c4)"
  define gen where "gen = sd_causal_gap_generation (cl_shared c4)"
  define plan where "plan = plan_catch_up (sd_cursor (cl_shared c4)) st
      (sh_checkpoint_size st = 0 \<or> (\<not> repair \<and> sk_contains_frontier K frontier (cl_sink c4)))"
  define c5 where "c5 = on_shared (\<lambda>sd. sd\<lparr>sd_cursor := plan_after plan\<rparr>) c4"
  define tk where "tk = sd_refresh_requested (cl_shared c5)"
  define D' where "D' = state_debt D st"
  obtain c6 b6 where s6: "send_frame (OutRowsReq (plan_after plan) (cl_resumed c5 \<and> \<not> repair)) c5 = (c6, b6)" by fastforce
  obtain c7 infl b7 where s7: "push_pending K [] c6 = ((c7, infl), b7)" by (metis prod.collapse)
  have r: "ws_state K now st frontier c = (if \<not> b6 then ws_reconnect c6 else if \<not> b7 then ws_reconnect c7
      else case plan of CheckpointThenRows _ \<Rightarrow> (WsCheckpoint st gen tk infl [], c7)
        | RowsOnly _ \<Rightarrow> ws_replay K now gen tk infl [] c7)"
    unfolding ws_state_def Let_def c1_def [symmetric] c2_def [symmetric] c3_def [symmetric] c4_def [symmetric]
      repair_def [symmetric] gen_def [symmetric] plan_def [symmetric] c5_def [symmetric] tk_def [symmetric] s6
    by (cases b6; cases b7) (simp_all add: s7)
  have k1: "keeps h ok c c1" by (simp add: c1_def clear_rows_req_def keeps_same)
  have k2: "keeps h ok c1 c2" by (rule keeps_sink) (use laws_keep(1) [OF K] in \<open>simp_all add: c2_def sink_keeps_def\<close>)
  have k3: "keeps h ok c2 c3" by (simp add: c3_def keeps_amnesty [OF K])
  have k4: "keeps h ok c3 c4" by (simp add: c4_def keeps_same)
  have k: "keeps h ok c c4" using k1 k2 k3 k4 honest_trans by blast
  have o4: "client_ok h ok D c4" using keeps_ok [OF k c] .
  have cov: "covered (h (cl_sink c4)) D (sd_cursor (cl_shared c4))" using o4 by (simp add: client_ok_def)
  note pl = plan_covered [OF st cov K plan_def]
  have DD: "D \<le> D'" by (simp add: D'_def state_debt_def)
  have o5: "client_ok h ok D' c5" using pl(1) law_debt [OF K _ DD] o4 by (simp add: client_ok_def c5_def D'_def)
  have g5: "grows h c c5" using keeps_grows [OF k] by (simp add: grows_def c5_def)
  have k56: "keeps h ok c5 c6" using keeps_send [of h ok c5] s6 by (metis fst_conv)
  have k67: "keeps h ok c6 c7" using keeps_push_pending [OF K, of c6 "[]"] s7 by simp
  have k57: "keeps h ok c5 c7" using k56 k67 honest_trans by blast
  have o: "client_ok h ok D' c6" "client_ok h ok D' c7" using keeps_ok o5 k56 k57 by blast+
  have g: "grows h c c6" "grows h c c7" using grows_trans [OF g5] keeps_grows k56 k57 by blast+
  have rec: "run_ok h ok R D' (ws_reconnect x) \<and> grows h c (snd (ws_reconnect x))" if "client_ok h ok D' x" "grows h c x" for x
    using keeps_ok [OF keeps_reconnect that(1)] grows_trans [OF that(2) keeps_grows [OF keeps_reconnect [of h ok]]]
    by (simp add: run_ok_def reconnect_down)
  show ?thesis
  proof (cases "b6 \<and> b7")
    case True
    show ?thesis
    proof (cases plan)
      case (RowsOnly a)
      have "settled h D' c4" using pl(2) RowsOnly by (simp add: D'_def)
      then have "settled h D' c5" by (simp add: settled_def c5_def)
      then have s7': "settled h D' c7" using settled_keeps k57 by blast
      have kr: "keeps h ok c7 (snd (ws_replay K now gen tk infl [] c7)) \<and> settled_phase (fst (ws_replay K now gen tk infl [] c7))"
        using keeps_ws_replay [OF K, of "[]"] by simp
      have "phase_ok h R D' (ws_replay K now gen tk infl [] c7)"
        using phase_ok_settled [OF settled_keeps [OF s7' conjunct1 [OF kr]] conjunct2 [OF kr], of R] by simp
      then show ?thesis using kr o g keeps_ok keeps_grows grows_trans RowsOnly True unfolding r D'_def [symmetric] run_ok_def by simp blast
    next
      case (CheckpointThenRows a)
      then show ?thesis using True o g pl(2) by (simp add: r run_ok_def phase_ok_def D'_def)
    qed
  next
    case False
    then show ?thesis using rec [OF o(1) g(1)] rec [OF o(2) g(2)] by (simp add: r D'_def)
  qed
qed


section \<open>The session\<close>

text \<open>The input tells the truth about the room.\<close>

definition ws_true :: "('s \<Rightarrow> nat \<Rightarrow> bool) \<Rightarrow> Room \<Rightarrow> nat \<Rightarrow> WsInput \<Rightarrow> WsPhase \<times> 's Client \<Rightarrow> bool" where
  "ws_true h R D i pc \<longleftrightarrow> (case i of
     InFrame (Some f) \<Rightarrow> frame_true h R (snd pc) f \<and>
       (wf_kind f = STATE \<longrightarrow> (case dec_state_header (wf_header f) of
          None \<Rightarrow> True | Some st \<Rightarrow> state_true R D st (wf_payload f)))
   | InCheckpoint (Some b) \<Rightarrow> (case fst pc of
        WsCheckpoint st _ _ _ _ \<Rightarrow> rm_checkpoint R b (sh_checkpoint_seq st) | _ \<Rightarrow> True)
   | _ \<Rightarrow> True)"

definition ws_debt :: "nat \<Rightarrow> WsInput \<Rightarrow> WsPhase \<Rightarrow> nat" where
  "ws_debt D i w = (case (w, i) of
     (WsHello, InFrame (Some f)) \<Rightarrow> if wf_kind f \<noteq> STATE then D
       else (case dec_state_header (wf_header f) of None \<Rightarrow> D | Some st \<Rightarrow> state_debt D st)
   | _ \<Rightarrow> D)"

text \<open>What a step must show.\<close>

definition ws_good :: "('s \<Rightarrow> nat \<Rightarrow> bool) \<Rightarrow> (nat \<Rightarrow> 's \<Rightarrow> bool) \<Rightarrow> Room \<Rightarrow> nat \<Rightarrow> 's Client \<Rightarrow> WsPhase \<times> 's Client \<Rightarrow> bool" where
  "ws_good h ok R D c r \<longleftrightarrow> run_ok h ok R D r \<and> grows h c (snd r)"

lemma ws_good_reconnect: "client_ok h ok D c' \<Longrightarrow> grows h c c' \<Longrightarrow> ws_good h ok R D c (ws_reconnect c')"
  using keeps_ok [OF keeps_reconnect, of h ok D c'] grows_trans [OF _ keeps_grows [OF keeps_reconnect [of h ok c']]]
  by (simp add: ws_good_def run_ok_def reconnect_down)

lemma ws_good_same: "client_ok h ok D c \<Longrightarrow> phase_ok h R D (w, c) \<Longrightarrow> ws_good h ok R D c (w, c)"
  by (simp add: ws_good_def run_ok_def grows_def)

lemma ws_good_settled:
  assumes "client_ok h ok D c" "settled h D c" "keeps h ok c (snd r) \<and> settled_phase (fst r)"
  shows "ws_good h ok R D c r"
proof -
  have k: "keeps h ok c (snd r)" "settled_phase (fst r)" using assms(3) by simp_all
  have "phase_ok h R D (fst r, snd r)" using settled_keeps [OF assms(2) k(1)] k(2) by (rule phase_ok_settled)
  then show ?thesis using keeps_ok [OF k(1) assms(1)] keeps_grows [OF k(1)] by (simp add: ws_good_def run_ok_def)
qed

lemma ws_good_grows: "grows h c c' \<Longrightarrow> ws_good h ok R D c' r \<Longrightarrow> ws_good h ok R D c r"
  by (auto simp: ws_good_def grows_def)

lemma ws_open_good: "client_ok h ok D c \<Longrightarrow> ws_good h ok R D c (ws_open device c)"
proof -
  assume c: "client_ok h ok D c"
  have "keeps h ok c (snd (ws_open device c))"
    by (rule keeps_same) (simp_all add: ws_open_def Let_def send_frame_def clear_rows_req_def)
  moreover have "phase_ok h R D (ws_open device c)" by (simp add: ws_open_def Let_def phase_ok_def)
  ultimately show ?thesis using keeps_ok [OF _ c] keeps_grows by (auto simp: ws_good_def run_ok_def)
qed

lemma ws_checkpoint_good:
  assumes K: "sink_laws K h ok R" and c: "client_ok h ok D c" and D: "D \<le> sh_checkpoint_seq st"
    and fs: "\<forall>f \<in> set fs. frame_true h R c f" and b: "rm_checkpoint R b (sh_checkpoint_seq st)"
  shows "ws_good h ok R D c (ws_step K device now (InCheckpoint (Some b)) (WsCheckpoint st g t infl fs, c))"
proof -
  obtain s r where p: "sk_apply_checkpoint K b (sh_checkpoint_seq st) (cl_sink c) = (s, r)" by fastforce
  have m: "h (cl_sink c) q \<Longrightarrow> h s q" for q using law_checkpoint(1) [OF K p] .
  have oks: "ok D s" using law_checkpoint(3) [OF K p _ b] c by (simp add: client_ok_def)
  have cs: "covered (h s) D (sd_cursor (cl_shared c))"
  proof -
    have "covered (h (cl_sink c)) D (sd_cursor (cl_shared c))" using c by (simp add: client_ok_def)
    from covered_mono [OF this m order_refl order_refl] show ?thesis .
  qed
  show ?thesis
  proof (cases r)
    case False
    have "client_ok h ok D (c\<lparr>cl_sink := s\<rparr>)" "grows h c (c\<lparr>cl_sink := s\<rparr>)" using oks cs m by (simp_all add: client_ok_def grows_def)
    then show ?thesis using False by (simp add: ws_step_def p ws_good_reconnect)
  next
    case True
    define c1 where "c1 = emit CeApplied (on_shared (\<lambda>sd. sd\<lparr>sd_cursor := max (sd_cursor sd) (sh_checkpoint_seq st)\<rparr>) (c\<lparr>cl_sink := s\<rparr>))"
    have h: "0 < q \<Longrightarrow> q \<le> sh_checkpoint_seq st \<Longrightarrow> h s q" for q using law_checkpoint(2) [OF K p b True] .
    have c1: "client_ok h ok D c1" using oks cs h by (simp add: client_ok_def c1_def covered_max) (simp add: covered_def)
    have s1: "settled h D c1" using h D by (simp add: settled_def c1_def)
    have g1: "grows h c c1" using m by (simp add: grows_def c1_def)
    have "\<forall>f \<in> set fs. frame_true h R c1 f"
      using fs m by (auto simp: frame_true_def ack_true_def c1_def split: option.splits)
    from ws_good_settled [OF c1 s1 keeps_ws_replay [OF K this]] have "ws_good h ok R D c1 (ws_replay K now g t infl fs c1)" .
    then show ?thesis using ws_good_grows [OF g1] True by (simp add: ws_step_def p c1_def)
  qed
qed

lemma ws_backfill_good:
  assumes K: "sink_laws K h ok R" and c: "client_ok h ok D c" and s: "settled h D c" and f: "frame_true h R c f"
  shows "ws_good h ok R D c (ws_step K device now (InFrame (Some f)) (WsBackfill t infl, c))"
proof (cases "wf_kind f = ROWS_DONE")
  case True
  then show ?thesis using c s ws_good_settled [OF c s keeps_backfilled] ws_good_reconnect [OF c]
    by (auto simp: ws_step_def grows_def split: option.split)
next
  case False
  obtain c1 b where e: "handle_frame_with_replay K now f True c = (c1, b)" by fastforce
  have k: "keeps h ok c c1" using keeps_handle [OF K f, of now True] e by simp
  have c1: "client_ok h ok D c1" "grows h c c1" "settled h D c1"
    using k c s keeps_ok keeps_grows settled_keeps by blast+
  show ?thesis using False c1 ws_good_reconnect [OF c1(1,2)]
    by (cases b) (simp_all add: ws_step_def e ws_good_def run_ok_def phase_ok_def)
qed

lemma ws_step_good:
  assumes K: "sink_laws K h ok R" and pc: "run_ok h ok R D (w, c)" and i: "ws_true h R D i (w, c)"
  shows "ws_good h ok R (ws_debt D i w) c (ws_step K device now i (w, c))"
proof -
  have c: "client_ok h ok D c" and ph: "phase_ok h R D (w, c)" using pc by (simp_all add: run_ok_def)
  have g: "grows h c c" by (simp add: grows_def)
  note rec = ws_good_reconnect [OF c g]
  show ?thesis
  proof (cases "i = InShutdown")
    case True
    then show ?thesis using c by (simp add: ws_step_def ws_debt_def ws_good_def run_ok_def phase_ok_def grows_def split: WsPhase.split)
  next
    case ns: False
    show ?thesis
    proof (cases w)
      case WsDown
      then show ?thesis using ns ws_open_good [OF c] ws_good_same [OF c ph] by (cases i) (simp_all add: ws_step_def ws_debt_def)
    next
      case WsStopped
      then show ?thesis using ns ws_good_same [OF c ph] by (simp add: ws_step_def ws_debt_def)
    next
      case WsHello
      show ?thesis
      proof (cases "\<exists>f. i = InFrame (Some f) \<and> wf_kind f = STATE")
        case True
        then obtain f where f: "i = InFrame (Some f)" "wf_kind f = STATE" by blast
        show ?thesis using i rec WsHello f ws_state_ok [OF K _ c]
          by (cases "dec_state_header (wf_header f)") (simp_all add: ws_step_def ws_debt_def ws_true_def ws_good_def)
      next
        case False
        then have "ws_debt D i w = D" using WsHello by (auto simp: ws_debt_def split: WsInput.splits option.splits)
        moreover have "ws_step K device now i (w, c) = (w, c) \<or> ws_step K device now i (w, c) = ws_reconnect c"
          using False WsHello ns by (auto simp: ws_step_def split: WsInput.splits option.splits)
        ultimately show ?thesis using rec ws_good_same [OF c ph] by auto
      qed
    next
      case (WsCheckpoint st g t infl fs)
      have D: "D \<le> sh_checkpoint_seq st" "\<forall>f \<in> set fs. frame_true h R c f" using ph WsCheckpoint by (simp_all add: phase_ok_def)
      have d: "ws_debt D i w = D" using WsCheckpoint by (simp add: ws_debt_def)
      consider (cp) b where "i = InCheckpoint (Some b)" | (fr) f where "i = InFrame (Some f)"
        | (no) "ws_step K device now i (w, c) = (w, c)" | (rc) "ws_step K device now i (w, c) = ws_reconnect c"
      proof (cases i)
        case (InFrame fo)
        then show ?thesis using that WsCheckpoint by (cases fo) (simp_all add: ws_step_def)
      next
        case (InCheckpoint bo)
        then show ?thesis using that WsCheckpoint by (cases bo) (simp_all add: ws_step_def)
      qed (use that WsCheckpoint ns in \<open>simp_all add: ws_step_def\<close>)
      then show ?thesis
      proof cases
        case cp
        then show ?thesis using ws_checkpoint_good [OF K c D] i WsCheckpoint d by (simp add: ws_true_def)
      next
        case fr
        then have "ws_step K device now i (w, c) = (WsCheckpoint st g t infl (fs @ [f]), c)" using WsCheckpoint by (simp add: ws_step_def)
        moreover have "phase_ok h R D (WsCheckpoint st g t infl (fs @ [f]), c)" using D i fr by (auto simp: phase_ok_def ws_true_def)
        ultimately show ?thesis using ws_good_same [OF c] d by simp
      next
        case no
        then show ?thesis using ws_good_same [OF c ph] d by simp
      next
        case rc
        then show ?thesis using rec d by simp
      qed
    next
      case (WsBackfill t infl)
      have s: "settled h D c" using ph WsBackfill by (simp add: phase_ok_def)
      have d: "ws_debt D i w = D" using WsBackfill by (simp add: ws_debt_def)
      consider (fr) f where "i = InFrame (Some f)"
        | (no) "ws_step K device now i (w, c) = (w, c)" | (rc) "ws_step K device now i (w, c) = ws_reconnect c"
      proof (cases i)
        case (InFrame fo)
        then show ?thesis using that WsBackfill by (cases fo) (simp_all add: ws_step_def)
      qed (use that WsBackfill ns in \<open>simp_all add: ws_step_def\<close>)
      then show ?thesis
      proof cases
        case fr
        then show ?thesis using ws_backfill_good [OF K c s] i WsBackfill d by (simp add: ws_true_def)
      qed (use ws_good_same [OF c ph] rec d in simp_all)
    next
      case (WsSteady l)
      have s: "settled h D c" using ph WsSteady by (simp add: phase_ok_def)
      have "keeps h ok c (snd (ws_steady K now l i c)) \<and> settled_phase (fst (ws_steady K now l i c))"
        using i by (intro keeps_ws_steady [OF K]) (simp add: ws_true_def)
      then show ?thesis using ws_good_settled [OF c s] WsSteady ns by (simp add: ws_step_def ws_debt_def)
    qed
  qed
qed

end
