(* ===== verification/Chat_Pull.thy ===== *)
theory Chat_Pull
  imports Chat_Honest
begin

text \<open>
  The HTTPS cycle keeps the cursors honest at every step, for every debt; and the engine's sink keeps
  the laws a sink must.
\<close>

section \<open>The cycle\<close>

definition pull_ok :: "Room \<Rightarrow> PullPhase \<Rightarrow> bool" where
  "pull_ok R p \<longleftrightarrow> (case p of
     PullCheckpoint l st after g rows \<Rightarrow> after = sh_checkpoint_seq st \<and> (\<forall>f \<in> set rows. row_true R f)
   | PullApply l rows \<Rightarrow> \<forall>f \<in> set rows. row_true R f
   | _ \<Rightarrow> True)"

text \<open>An answer tells the truth: the acknowledged row is one of this document, the rows are the
  room's, and the state's frontier is its checkpoint's.\<close>

definition pushed_true :: "('s \<Rightarrow> nat \<Rightarrow> bool) \<Rightarrow> Room \<Rightarrow> 's Client \<Rightarrow> json \<Rightarrow> bool" where
  "pushed_true h R c v \<longleftrightarrow> (case as_u64 (json_index v ''seq'') of None \<Rightarrow> True | Some seq \<Rightarrow> seq = 0 \<or> h (cl_sink c) seq) \<and>
     (case as_str (json_index v ''batchId'') of None \<Rightarrow> True | Some b \<Rightarrow> rm_answered R b)"

definition body_state_true :: "Room \<Rightarrow> WireFrame \<Rightarrow> bool" where
  "body_state_true R f \<longleftrightarrow> wf_kind f = STATE \<longrightarrow> (case dec_state_header (wf_header f) of
     None \<Rightarrow> True
   | Some st \<Rightarrow> sh_checkpoint_size st \<noteq> 0 \<longrightarrow> rm_frontier R (wf_payload f) (sh_checkpoint_seq st))"

definition pull_true :: "('s \<Rightarrow> nat \<Rightarrow> bool) \<Rightarrow> Room \<Rightarrow> PullInput \<Rightarrow> PullPhase \<times> 's Client \<Rightarrow> bool" where
  "pull_true h R i pc \<longleftrightarrow> (case i of
     PiPushed (Some v) \<Rightarrow> pushed_true h R (snd pc) v
   | PiBody (Some frames) \<Rightarrow> \<forall>f \<in> set frames. row_true R f \<and> body_state_true R f
   | PiCheckpoint (Some b) \<Rightarrow> (case fst pc of
        PullCheckpoint _ st _ _ _ \<Rightarrow> rm_checkpoint R b (sh_checkpoint_seq st) | _ \<Rightarrow> True)
   | _ \<Rightarrow> True)"

definition pull_good :: "('s \<Rightarrow> nat \<Rightarrow> bool) \<Rightarrow> (nat \<Rightarrow> 's \<Rightarrow> bool) \<Rightarrow> Room \<Rightarrow> 's Client \<Rightarrow> PullPhase \<times> 's Client \<Rightarrow> bool" where
  "pull_good h ok R c r \<longleftrightarrow> keeps h ok c (snd r) \<and> pull_ok R (fst r)"

lemma pull_good_trans: "keeps h ok c c' \<Longrightarrow> pull_good h ok R c' r \<Longrightarrow> pull_good h ok R c r"
  by (auto simp: pull_good_def intro: honest_trans)

lemma pull_rows_good: "pull_good h ok R c (pull_rows c)"
  by (simp add: pull_good_def pull_rows_def Let_def keeps_same pull_ok_def)

lemma pull_push_good:
  assumes K: "sink_laws K h ok R" shows "pull_good h ok R c (pull_push K batches c)"
proof (cases batches)
  case (Cons p ps)
  obtain c1 b where e: "ensure_durable K p c = (c1, b)" by fastforce
  have "keeps h ok c c1" using keeps_ensure [OF K, of c p] e by simp
  then show ?thesis using pull_good_trans [OF _ pull_rows_good]
    by (cases b) (simp_all add: pull_push_def Cons e pull_good_def pull_ok_def)
qed (simp add: pull_push_def pull_rows_good)

lemma keeps_pull_ack:
  assumes K: "sink_laws K h ok R" and v: "pushed_true h R c v"
  shows "keeps h ok c (pull_ack K v c)"
proof (cases "as_str (json_index v ''batchId'')")
  case b: (Some b)
  show ?thesis
  proof (cases "as_u64 (json_index v ''seq'')")
    case (Some seq)
    obtain s g where p: "sk_acknowledge_update K b (cl_sink c) = (s, g)" by fastforce
    define sd1 where "sd1 = (if g then retire b (cl_shared c) else cl_shared c)"
    define sd2 where "sd2 = (if seq \<le> wrap_succ (sd_cursor sd1) then sd1\<lparr>sd_cursor := max (sd_cursor sd1) seq\<rparr> else sd1)"
    have c': "pull_ack K v c = emit CeApplied (c\<lparr>cl_shared := sd2, cl_sink := sk_advance_cursor K (sd_cursor sd2) s\<rparr>)"
      by (simp add: pull_ack_def b Some p sd1_def sd2_def Let_def)
    have "sd_cursor sd1 = sd_cursor (cl_shared c)" by (simp add: sd1_def retire_def)
    then have n: "sd_cursor sd2 = sd_cursor (cl_shared c) \<or>
        sd_cursor sd2 = max (sd_cursor (cl_shared c)) seq \<and> seq \<le> sd_cursor (cl_shared c) + 1"
      using wrap_succ_le [of "sd_cursor (cl_shared c)"] by (auto simp: sd2_def)
    have "seq = 0 \<or> h (cl_sink c) seq" using v Some by (simp add: pushed_true_def)
    moreover have "sink_keeps h ok (cl_sink c) s" using laws_keep(3) [OF K, of "cl_sink c" b] p by simp
    ultimately show ?thesis by (rule keeps_ack [OF K _ _ n]) (simp_all add: c')
  qed (simp add: pull_ack_def b)
qed (simp add: pull_ack_def)

lemma pull_state_good:
  assumes K: "sink_laws K h ok R" and st: "sh_checkpoint_size st \<noteq> 0 \<longrightarrow> rm_frontier R frontier (sh_checkpoint_seq st)"
    and rows: "\<forall>f \<in> set rows. row_true R f"
  shows "pull_good h ok R c (pull_state K l st frontier rows c)"
proof -
  define c1 where "c1 = apply_cursor_amnesty K st (on_shared (\<lambda>sd. sd\<lparr>sd_server := Some st\<rparr>) c)"
  define repair where "repair = sd_needs_checkpoint (cl_shared c1)"
  define gen where "gen = sd_causal_gap_generation (cl_shared c1)"
  define contained where "contained = (sh_checkpoint_size st = 0 \<or> (\<not> repair \<and> sk_contains_frontier K frontier (cl_sink c1)))"
  define l1 where "l1 = (if repair \<or> pl_cursor l > sh_head_seq st then l\<lparr>pl_was_live := False\<rparr> else l)"
  define c2 where "c2 = (if pl_cursor l > sh_head_seq st then c1\<lparr>cl_sink := sk_reset_cursor K 0 (cl_sink c1)\<rparr> else c1)"
  let ?plan = "plan_catch_up (pl_cursor l) st contained"
  have r: "pull_state K l st frontier rows c =
     (if sd_cursor (cl_shared c1) < pl_cursor l \<and> pl_cursor l \<le> sh_head_seq st then (PullIdle, c1)
      else case ?plan of
        CheckpointThenRows after \<Rightarrow> (PullCheckpoint (l1\<lparr>pl_was_live := False\<rparr>) st after gen rows, c2)
      | RowsOnly after \<Rightarrow> (PullApply l1 rows, on_shared (pull_cursor st after gen) c2))"
    unfolding pull_state_def Let_def c1_def [symmetric] repair_def [symmetric] gen_def [symmetric]
      contained_def [symmetric] l1_def [symmetric] c2_def [symmetric] by (rule refl)
  have "keeps h ok c (on_shared (\<lambda>sd. sd\<lparr>sd_server := Some st\<rparr>) c)" by (simp add: keeps_same)
  then have k1: "keeps h ok c c1" unfolding c1_def using keeps_amnesty [OF K] by (rule honest_trans)
  have k12: "keeps h ok c1 c2" by (rule keeps_sink) (use laws_keep(1) [OF K] in \<open>simp_all add: c2_def sink_keeps_def\<close>)
  then have k2: "keeps h ok c c2" using k1 honest_trans by blast
  have cur2: "sd_cursor (cl_shared c2) = sd_cursor (cl_shared c1)" by (simp add: c2_def)
  show ?thesis
  proof (cases "sd_cursor (cl_shared c1) < pl_cursor l \<and> pl_cursor l \<le> sh_head_seq st")
    case True
    then show ?thesis using k1 by (simp add: r pull_good_def pull_ok_def)
  next
    case False
    show ?thesis
    proof (cases ?plan)
      case (CheckpointThenRows after)
      then have "after = sh_checkpoint_seq st" by (simp add: plan_catch_up_def Let_def split: if_splits)
      then show ?thesis using k1 k2 rows CheckpointThenRows by (simp add: r pull_good_def pull_ok_def)
    next
      case (RowsOnly after)
      let ?c3 = "on_shared (pull_cursor st after gen) c2"
      have has: "h (cl_sink c2) q" if "sh_checkpoint_size st \<noteq> 0" "0 < q" "q \<le> sh_checkpoint_seq st" for q
      proof -
        have "contained" using RowsOnly that by (auto simp: plan_catch_up_def Let_def split: if_splits)
        then have "sk_contains_frontier K frontier (cl_sink c1)" using that by (simp add: contained_def)
        then have "h (cl_sink c1) q" using law_frontier [OF K _ _ that(2,3)] st that(1) by blast
        then show ?thesis using k12 by (simp add: keeps_def)
      qed
      have after: "after = (if pl_cursor l > sh_head_seq st then 0 else pl_cursor l) \<or>
          sh_checkpoint_size st \<noteq> 0 \<and> after = max (if pl_cursor l > sh_head_seq st then 0 else pl_cursor l) (sh_checkpoint_seq st)"
        using RowsOnly by (auto simp: plan_catch_up_def Let_def split: if_splits)
      have low: "pl_cursor l > sh_head_seq st \<or> pl_cursor l \<le> sd_cursor (cl_shared c2)" using False cur2 by linarith
      have cov: "covered (h (cl_sink c2)) D (sd_cursor (cl_shared ?c3))" if c: "covered (h (cl_sink c2)) D (sd_cursor (cl_shared c2))" for D
      proof -
        have a: "covered (h (cl_sink c2)) D (if pl_cursor l > sh_head_seq st then 0 else pl_cursor l)"
          using low covered_mono [OF c, of "h (cl_sink c2)" D] by auto
        have b: "covered (h (cl_sink c2)) D (sh_checkpoint_seq st)" if "sh_checkpoint_size st \<noteq> 0"
          using has [OF that] by (simp add: covered_def)
        have "covered (h (cl_sink c2)) D after" using after a b by (auto simp: covered_max)
        then show ?thesis using c by (simp add: pull_cursor_def clear_needs_checkpoint_def covered_max)
      qed
      have "keeps h ok c2 ?c3" using cov by (simp add: keeps_def client_ok_def)
      with k2 have "keeps h ok c ?c3" by (rule honest_trans)
      then show ?thesis using k1 RowsOnly rows by (simp add: r pull_good_def pull_ok_def)
    qed
  qed
qed

lemma pull_frame_good:
  assumes K: "sink_laws K h ok R" and f: "row_true R f"
  shows "keeps h ok c (snd (pull_frame K l f c))"
proof (cases "wf_kind f = ROW")
  case True
  then show ?thesis using f keeps_row [OF K]
    by (cases "dec_row_header (wf_header f)") (simp_all add: pull_frame_def row_true_def Let_def)
next
  case False
  then show ?thesis by (simp add: pull_frame_def keeps_same pull_done_def Let_def split: option.split)
qed

lemma pull_checkpoint_good:
  assumes K: "sink_laws K h ok R" and b: "rm_checkpoint R b (sh_checkpoint_seq st)" and rows: "\<forall>f \<in> set rows. row_true R f"
  shows "pull_good h ok R c (pull_step K (PiCheckpoint (Some b)) (PullCheckpoint l st (sh_checkpoint_seq st) g rows, c))"
proof -
  obtain s r where p: "sk_apply_checkpoint K b (sh_checkpoint_seq st) (cl_sink c) = (s, r)" by fastforce
  have m: "h (cl_sink c) q \<Longrightarrow> h s q" for q using law_checkpoint(1) [OF K p] .
  have oks: "ok D (cl_sink c) \<Longrightarrow> ok D s" for D using law_checkpoint(3) [OF K p _ b] .
  have cs: "covered (h (cl_sink c)) D n \<Longrightarrow> covered (h s) D n" for D n by (erule covered_mono [OF _ m order_refl order_refl])
  show ?thesis
  proof (cases r)
    case False
    then show ?thesis using m oks cs by (simp add: pull_step_def p pull_good_def pull_ok_def keeps_def client_ok_def)
  next
    case True
    have "covered (h s) D (sh_checkpoint_seq st)" for D using law_checkpoint(2) [OF K p b True] by (simp add: covered_def)
    then show ?thesis using True m oks cs rows
      by (simp add: pull_step_def p pull_good_def pull_ok_def keeps_def client_ok_def pull_cursor_def
          clear_needs_checkpoint_def covered_max)
  qed
qed

lemma pull_step_good:
  assumes K: "sink_laws K h ok R" and p: "pull_ok R p" and i: "pull_true h R i (p, c)"
  shows "pull_good h ok R c (pull_step K i (p, c))"
proof (cases p)
  case PullIdle
  then show ?thesis using pull_push_good [OF K] by (cases i) (simp_all add: pull_step_def pull_good_def pull_ok_def)
next
  case (PullPush batches)
  show ?thesis
  proof (cases i)
    case (PiPushed vo)
    show ?thesis
    proof (cases vo)
      case (Some v)
      have "keeps h ok c (pull_ack K v c)" using keeps_pull_ack [OF K] i PiPushed Some by (simp add: pull_true_def)
      from pull_good_trans [OF this pull_push_good [OF K]] show ?thesis by (simp add: pull_step_def PullPush PiPushed Some)
    qed (simp add: pull_step_def PullPush PiPushed pull_rows_good)
  qed (simp_all add: pull_step_def PullPush pull_good_def pull_ok_def)
next
  case (PullRows l)
  show ?thesis
  proof (cases i)
    case (PiBody fo)
    show ?thesis
    proof (cases fo)
      case (Some frames)
      show ?thesis
      proof (cases frames)
        case Nil
        then show ?thesis by (simp add: pull_step_def PullRows PiBody Some pull_body_def pull_good_def pull_ok_def)
      next
        case (Cons f rows)
        have fs: "row_true R f" "body_state_true R f" "\<forall>f \<in> set rows. row_true R f"
          using i PiBody Some Cons by (simp_all add: pull_true_def)
        have ap: "pull_good h ok R c (PullApply l rows, c)" using fs by (simp add: pull_good_def pull_ok_def)
        show ?thesis
          using ap fs pull_state_good [OF K _ fs(3)]
          by (cases "dec_state_header (wf_header f)")
            (simp_all add: pull_step_def PullRows PiBody Some pull_body_def Cons body_state_true_def)
      qed
    qed (simp add: pull_step_def PullRows PiBody pull_good_def pull_ok_def keeps_same)
  qed (simp_all add: pull_step_def PullRows pull_good_def pull_ok_def)
next
  case (PullCheckpoint l st after g rows)
  show ?thesis
  proof (cases i)
    case (PiCheckpoint bo)
    then show ?thesis using pull_checkpoint_good [OF K] p i PullCheckpoint
      by (cases bo) (simp_all add: pull_ok_def pull_true_def, simp add: pull_step_def pull_good_def pull_ok_def)
  qed (use p in \<open>simp_all add: pull_step_def PullCheckpoint pull_good_def pull_ok_def\<close>)
next
  case (PullApply l rows)
  show ?thesis
  proof (cases i)
    case PiNext
    then show ?thesis using p pull_frame_good [OF K]
      by (cases rows) (simp_all add: pull_step_def PullApply pull_good_def pull_ok_def keeps_same split_beta)
  qed (use p in \<open>simp_all add: pull_step_def PullApply pull_good_def pull_ok_def\<close>)
qed

section \<open>The engine's sink keeps the laws\<close>

lemma holds_store [simp]: "holds has (s\<lparr>es_store := x\<rparr>) = holds has s"
  by (rule ext) (simp add: holds_def)

lemma applied_simps [simp]:
  "es_doc (applied n b s) = es_doc s" "es_store (applied n b s) = es_store s" "es_cursor (applied n b s) = max (es_cursor s) n"
  by (simp_all add: applied_def dirty_def)

lemma holds_applied [simp]: "holds has (applied n b s) = holds has s"
  by (rule ext) (simp add: holds_def)

lemma sink_ok_applied:
  "sink_ok has snap chat D s \<Longrightarrow> covered (holds has s) D n \<Longrightarrow> sink_ok has snap chat D (applied n b s)"
  by (simp add: sink_ok_def covered_max)

text \<open>Outbox calls leave the snapshots alone.\<close>

lemma outbox_calls_snapshots [simp]:
  "ds_snapshots (fst (enqueue_chat_update doc i b st)) = ds_snapshots st"
  "ds_snapshots (fst (acknowledge_chat_update doc i st)) = ds_snapshots st"
  "ds_snapshots (fst (reject_chat_update doc i st)) = ds_snapshots st"
  by (simp_all add: enqueue_chat_update_def acknowledge_chat_update_def reject_chat_update_def sql_def)

lemma keeps_on_store:
  "ds_snapshots (fst (f (es_store s))) = ds_snapshots (es_store s) \<Longrightarrow>
   sink_keeps (holds has) (sink_ok has snap chat) s (fst (on_store f s))"
  by (simp add: on_store_def sink_keeps_def sink_ok_def snapshot_ok_def split_beta)


lemma covered_holds_mono:
  "covered (holds has s) D n \<Longrightarrow> (\<And>q. holds has s q \<Longrightarrow> holds has s' q) \<Longrightarrow> covered (holds has s') D n"
  by (erule covered_mono) simp_all

lemma sink_ok_doc:
  assumes "\<And>q. holds has s q \<Longrightarrow> holds has (s\<lparr>es_doc := x\<rparr>) q" "sink_ok has snap chat D s"
  shows "sink_ok has snap chat D (s\<lparr>es_doc := x\<rparr>)"
proof -
  have "covered (holds has s) D (es_cursor s)" using assms(2) by (simp add: sink_ok_def)
  from covered_holds_mono [OF this assms(1)] show ?thesis using assms(2) by (simp add: sink_ok_def)
qed

text \<open>An import of anything keeps the rows; one of a row or a checkpoint, parked nothing, adds them.\<close>

lemma import_row_law:
  assumes L: "loro_laws L has snap R"
  shows "row_law (holds has) (sink_ok has snap chat) R (import_row L)"
proof -
  have "(\<forall>q. holds has s q \<longrightarrow> holds has s' q) \<and> (\<forall>q. b = rm_row R q \<longrightarrow> r = RoApplied \<longrightarrow> holds has s' q) \<and>
     (\<forall>D. sink_ok has snap chat D s \<longrightarrow> (r = RoApplied \<longrightarrow> covered (holds has s') D n) \<longrightarrow> sink_ok has snap chat D s')"
    if e: "import_row L b n s = (s', r)" for b n s s' r
  proof (cases "es_doc s")
    case None
    then have "s' = s" using e by (simp add: import_row_def)
    then show ?thesis using None by (simp add: holds_def)
  next
    case (Some d)
    obtain d' o' where i: "lo_import L b d = (d', o')" by fastforce
    let ?s = "s\<lparr>es_doc := Some d'\<rparr>"
    have m: "holds has s q \<Longrightarrow> holds has ?s q" for q
      using L i Some by (auto simp: loro_laws_def holds_def) (metis fst_conv)
    have row: "o' \<noteq> Some True \<Longrightarrow> b = rm_row R q \<Longrightarrow> has d' q" for q
      using L i unfolding loro_laws_def by (metis fst_conv snd_conv)
    have ok: "sink_ok has snap chat D s \<Longrightarrow> sink_ok has snap chat D ?s" for D
      by (rule sink_ok_doc [OF m])
    show ?thesis
    proof (cases "o' = Some True")
      case True
      then have "s' = ?s" "r = RoPendingDependencies" using e i Some by (simp_all add: import_row_def)
      then show ?thesis using m ok by simp
    next
      case False
      then have sr: "s' = applied n False ?s" "r = RoApplied"
        using e i Some by (auto simp: import_row_def split: option.splits bool.splits)
      show ?thesis using m ok row [OF False] unfolding sr
        by (simp add: sink_ok_applied) (simp add: holds_def)
    qed
  qed
  then show ?thesis unfolding row_law_def by blast
qed

lemma import_checkpoint_law:
  assumes L: "loro_laws L has snap R"
  shows "checkpoint_law (holds has) (sink_ok has snap chat) R (import_checkpoint L)"
proof -
  have "(\<forall>q. holds has s q \<longrightarrow> holds has s' q) \<and>
     (rm_checkpoint R b n \<longrightarrow> (r \<longrightarrow> (\<forall>q. 0 < q \<and> q \<le> n \<longrightarrow> holds has s' q)) \<and>
       (\<forall>D. sink_ok has snap chat D s \<longrightarrow> sink_ok has snap chat D s'))"
    if e: "import_checkpoint L b n s = (s', r)" for b n s s' r
  proof (cases "es_doc s")
    case None
    then have "s' = s" "r = False" using e by (simp_all add: import_checkpoint_def)
    then show ?thesis by simp
  next
    case (Some d)
    obtain d' o' where i: "lo_import L b d = (d', o')" by fastforce
    let ?s = "s\<lparr>es_doc := Some d'\<rparr>"
    have m: "holds has s q \<Longrightarrow> holds has ?s q" for q
      using L i Some by (auto simp: loro_laws_def holds_def) (metis fst_conv)
    have ok: "sink_ok has snap chat D s \<Longrightarrow> sink_ok has snap chat D ?s" for D
      by (rule sink_ok_doc [OF m])
    show ?thesis
    proof (cases "o' = Some False")
      case True
      have sr: "s' = persist_with_cursor n ?s" "r" using e i Some True by (simp_all add: import_checkpoint_def)
      have all: "rm_checkpoint R b n \<Longrightarrow> 0 < q \<Longrightarrow> q \<le> n \<Longrightarrow> holds has ?s q" for q
        using L i True unfolding loro_laws_def holds_def by simp (metis fst_conv snd_conv)
      have "rm_checkpoint R b n \<Longrightarrow> covered (holds has ?s) D n" for D using all by (simp add: covered_def)
      then show ?thesis using m ok all unfolding sr(1) persist_with_cursor_def by (simp add: sink_ok_applied)
    next
      case False
      then have "s' = ?s" "r = False"
        using e i Some by (auto simp: import_checkpoint_def split: option.splits bool.splits)
      then show ?thesis using m ok by simp
    qed
  qed
  then show ?thesis unfolding checkpoint_law_def by blast
qed

lemma frontier_contained_law:
  assumes L: "loro_laws L has snap R"
  shows "frontier_law (holds has) R (frontier_contained L)"
proof -
  have "holds has s q" if a: "rm_frontier R f n" "frontier_contained L f s" "0 < q" "q \<le> n" for f n s q
  proof (cases "es_doc s")
    case (Some d)
    then obtain v where "lo_decode_vv L f = Some v" "\<not> lo_vv_is_empty L v" "lo_includes_vv L d v"
      using a(2) by (auto simp: frontier_contained_def split: option.splits if_splits)
    then have "has d q" using L a unfolding loro_laws_def by blast
    then show ?thesis using Some by (simp add: holds_def)
  qed (simp add: holds_def)
  then show ?thesis unfolding frontier_law_def by blast
qed

lemma engine_sink_laws:
  assumes L: "loro_laws L has snap R"
  shows "sink_laws (engine_sink L chat) (holds has) (sink_ok has snap chat) R"
proof -
  have debt: "debt_law (sink_ok has snap chat)"
    by (auto simp: debt_law_def sink_ok_def snapshot_ok_def covered_def split: option.splits)
  have reset: "sink_keeps (holds has) (sink_ok has snap chat) s (persist_reset_cursor 0 s)" for s
    by (simp add: sink_keeps_def persist_reset_cursor_def Let_def dirty_def sink_ok_def holds_def)
  have advance: "advance_law (holds has) (sink_ok has snap chat) persist_with_cursor"
    by (simp add: advance_law_def persist_with_cursor_def sink_ok_applied)
  show ?thesis
    unfolding sink_laws_def engine_sink_def
    by (simp add: debt reset advance keep_law_def keeps_on_store import_row_law [OF L] import_checkpoint_law [OF L]
        frontier_contained_law [OF L])
qed

end
