(* ===== verification/Chat_Safe.thy ===== *)
theory Chat_Safe
  imports Chat_Pull
begin

text \<open>
  A chat client in its room as one step relation: the socket session, the HTTPS cycle, the host's
  calls, local edits, eviction, the saves of the snapshot and restarts of the process, interleaved in
  any order, over the engine's sink and a room that is not reset. The cursors stay honest.
\<close>

section \<open>The steps\<close>

text \<open>\<open>cr_debt\<close>: the newest checkpoint the room has announced at a handshake; rows up to it need not be
  held while the checkpoint is being fetched. \<open>cr_saving\<close>: a save under way.\<close>

record 'd ChatRun =
  cr_ws :: WsPhase
  cr_pull :: PullPhase
  cr_debt :: nat
  cr_saving :: "(nat \<times> nat) option"
  cr_client :: "'d EngineSink Client"

abbreviation on_client :: "('d EngineSink Client \<Rightarrow> 'd EngineSink Client) \<Rightarrow> 'd ChatRun \<Rightarrow> 'd ChatRun" where
  "on_client f x \<equiv> x\<lparr>cr_client := f (cr_client x)\<rparr>"

abbreviation on_sink :: "('s \<Rightarrow> 's) \<Rightarrow> 's Client \<Rightarrow> 's Client" where
  "on_sink f c \<equiv> c\<lparr>cl_sink := f (cl_sink c)\<rparr>"

definition ws_moves :: "('d, 'v) LoroApi \<Rightarrow> string \<Rightarrow> string \<Rightarrow> int \<Rightarrow> WsInput \<Rightarrow> 'd ChatRun \<Rightarrow> 'd ChatRun" where
  "ws_moves L chat device now i x = (case ws_step (engine_sink L chat) device now i (cr_ws x, cr_client x) of
     (w, c) \<Rightarrow> x\<lparr>cr_ws := w, cr_client := c, cr_debt := ws_debt (cr_debt x) i (cr_ws x)\<rparr>)"

definition pull_moves :: "('d, 'v) LoroApi \<Rightarrow> string \<Rightarrow> PullInput \<Rightarrow> 'd ChatRun \<Rightarrow> 'd ChatRun" where
  "pull_moves L chat i x = (case pull_step (engine_sink L chat) i (cr_pull x, cr_client x) of
     (p, c) \<Rightarrow> x\<lparr>cr_pull := p, cr_client := c\<rparr>)"

text \<open>A process starts on the stored snapshot: it holds what the snapshot holds. A cursor that was never
  verified is only considered where there is none yet.\<close>

definition loads :: "('d \<Rightarrow> nat \<Rightarrow> bool) \<Rightarrow> (bytes \<Rightarrow> nat \<Rightarrow> bool) \<Rightarrow> string \<Rightarrow> DocsStore \<Rightarrow> 'd \<Rightarrow> nat \<Rightarrow> bool" where
  "loads has snap chat store d cursor \<longleftrightarrow> (case map_of (ds_snapshots store) chat of
     None \<Rightarrow> cursor = 0
   | Some r \<Rightarrow> sn_verified r \<and> cursor = nz (sn_cursor r) \<and> (\<forall>q. snap (sn_bytes r) q \<longrightarrow> has d q))"

definition opened :: "('d, 'v) LoroApi \<Rightarrow> string \<Rightarrow> bool \<Rightarrow> DocsStore \<Rightarrow> 'd \<Rightarrow> nat \<Rightarrow> 'd EngineSink Client option" where
  "opened L chat transport store d cursor =
     connect_client (engine_sink L chat) transport cursor (new_sink chat d store cursor)"

definition started :: "nat \<Rightarrow> 'd EngineSink Client \<Rightarrow> 'd ChatRun" where
  "started debt c = \<lparr>cr_ws = WsDown, cr_pull = PullIdle, cr_debt = debt, cr_saving = None, cr_client = c\<rparr>"

text \<open>An id stands for one update: the host's ids are fresh UUIDs, or those of stored rows.\<close>

definition names_one :: "string \<Rightarrow> string \<Rightarrow> bytes \<Rightarrow> 'd EngineSink Client \<Rightarrow> bool" where
  "names_one chat b bytes c \<longleftrightarrow>
     list_all (\<lambda>r. ox_batch_id r = b \<longrightarrow> ox_doc_id r = chat \<and> ox_bytes r = bytes) (ds_outbox (es_store (cl_sink c))) \<and>
     list_all (\<lambda>p. pp_batch_id p = b \<longrightarrow> pp_bytes p = bytes) (sd_pending (cl_shared c))"

inductive chat_step ::
  "('d, 'v) LoroApi \<Rightarrow> ('d \<Rightarrow> nat \<Rightarrow> bool) \<Rightarrow> (bytes \<Rightarrow> nat \<Rightarrow> bool) \<Rightarrow> Room \<Rightarrow> string \<Rightarrow> string \<Rightarrow> 'd ChatRun \<Rightarrow> 'd ChatRun \<Rightarrow> bool"
  for L has snap R chat device where
  csWs: "ws_true (holds has) R (cr_debt x) i (cr_ws x, cr_client x) \<Longrightarrow>
    chat_step L has snap R chat device x (ws_moves L chat device now i x)"
| csPull: "pull_true (holds has) R i (cr_pull x, cr_client x) \<Longrightarrow>
    chat_step L has snap R chat device x (pull_moves L chat i x)"
| csLost: "chat_step L has snap R chat device x (on_client (\<lambda>c. c\<lparr>cl_open := False\<rparr>) x)"
| csEnqueue: "names_one chat b bytes (cr_client x) \<Longrightarrow>
    chat_step L has snap R chat device x (on_client (enqueue_batch (engine_sink L chat) b bytes) x)"
| csProbe: "chat_step L has snap R chat device x (on_client (on_shared probe_room) x)"
| csCatchUp: "chat_step L has snap R chat device x (on_client (on_shared (\<lambda>sd. fst (request_catch_up sd))) x)"
| csCheckpoint: "chat_step L has snap R chat device x (on_client (on_shared (note_checkpoint q n)) x)"
| csEdit: "es_doc (cl_sink (cr_client x)) = Some d \<Longrightarrow> (\<And>q. has d q \<Longrightarrow> has d' q) \<Longrightarrow>
    chat_step L has snap R chat device x (on_client (on_sink (\<lambda>s. dirty u (s\<lparr>es_doc := Some d'\<rparr>))) x)"
| csEvict: "chat_step L has snap R chat device x (on_client (on_sink (\<lambda>s. s\<lparr>es_doc := None\<rparr>)) x)"
| csStore: "map_of (ds_snapshots store) chat = map_of (ds_snapshots (es_store (cl_sink (cr_client x)))) chat \<Longrightarrow>
    outbox_of chat store = outbox_of chat (es_store (cl_sink (cr_client x))) \<Longrightarrow>
    chat_step L has snap R chat device x (on_client (on_sink (\<lambda>s. s\<lparr>es_store := store\<rparr>)) x)"
| csSave: "chat_step L has snap R chat device x (x\<lparr>cr_saving := flush_begin (cl_sink (cr_client x))\<rparr>)"
| csSaved: "cr_saving x = Some gc \<Longrightarrow>
    chat_step L has snap R chat device x (on_client (on_sink (flush_end L chat gc)) (x\<lparr>cr_saving := None\<rparr>))"
| csRestart: "loads has snap chat (es_store (cl_sink (cr_client x))) d cursor \<Longrightarrow>
    opened L chat transport (es_store (cl_sink (cr_client x))) d cursor = Some c \<Longrightarrow>
    chat_step L has snap R chat device x (started (cr_debt x) c)"

section \<open>The invariant\<close>

definition chat_ok :: "('d \<Rightarrow> nat \<Rightarrow> bool) \<Rightarrow> (bytes \<Rightarrow> nat \<Rightarrow> bool) \<Rightarrow> Room \<Rightarrow> string \<Rightarrow> 'd ChatRun \<Rightarrow> bool" where
  "chat_ok has snap R chat x \<longleftrightarrow>
     run_ok (holds has) (sink_ok has snap chat) R (cr_debt x) (cr_ws x, cr_client x) \<and> pull_ok R (cr_pull x) \<and>
     (case cr_saving x of None \<Rightarrow> True | Some gc \<Rightarrow> covered (holds has (cl_sink (cr_client x))) (cr_debt x) (snd gc))"

text \<open>A step of the client alone that keeps the cursors honest.\<close>

lemma chat_ok_keeps:
  assumes x: "chat_ok has snap R chat x" and k: "keeps (holds has) (sink_ok has snap chat) (cr_client x) c" and p: "pull_ok R p"
  shows "chat_ok has snap R chat (x\<lparr>cr_pull := p, cr_client := c\<rparr>)"
proof -
  let ?h = "holds has" and ?ok = "sink_ok has snap chat"
  have m: "?h (cl_sink (cr_client x)) q \<Longrightarrow> ?h (cl_sink c) q" for q using k by (simp add: keeps_def)
  have "run_ok ?h ?ok R (cr_debt x) (cr_ws x, c)"
    using x keeps_ok [OF k] phase_ok_keeps [OF _ k] by (simp add: chat_ok_def run_ok_def)
  then show ?thesis using x p covered_holds_mono [of has _ "cr_debt x", OF _ m]
    by (auto simp: chat_ok_def split: option.splits)
qed

lemma chat_ok_client:
  "chat_ok has snap R chat x \<Longrightarrow> keeps (holds has) (sink_ok has snap chat) (cr_client x) (f (cr_client x)) \<Longrightarrow>
   chat_ok has snap R chat (on_client f x)"
  using chat_ok_keeps [of has snap R chat x "f (cr_client x)" "cr_pull x"] by (simp add: chat_ok_def)

lemma chat_ok_sink:
  assumes "chat_ok has snap R chat x" "sink_keeps (holds has) (sink_ok has snap chat) (cl_sink (cr_client x)) (f (cl_sink (cr_client x)))"
  shows "chat_ok has snap R chat (on_client (on_sink f) x)"
  by (rule chat_ok_client [OF assms(1)], rule keeps_sink) (simp_all add: assms(2))

lemma chat_ok_ws:
  assumes L: "loro_laws L has snap R" and x: "chat_ok has snap R chat x"
    and i: "ws_true (holds has) R (cr_debt x) i (cr_ws x, cr_client x)"
  shows "chat_ok has snap R chat (ws_moves L chat device now i x)"
proof -
  let ?h = "holds has" and ?ok = "sink_ok has snap chat" and ?D = "ws_debt (cr_debt x) i (cr_ws x)"
  obtain w c where p: "ws_step (engine_sink L chat) device now i (cr_ws x, cr_client x) = (w, c)" by fastforce
  have "run_ok ?h ?ok R (cr_debt x) (cr_ws x, cr_client x)" using x by (simp add: chat_ok_def)
  from ws_step_good [OF engine_sink_laws [OF L] this i, of device now]
  have g: "run_ok ?h ?ok R ?D (w, c)" "grows ?h (cr_client x) c" by (simp_all add: p ws_good_def)
  have D: "cr_debt x \<le> ?D" by (simp add: ws_debt_def state_debt_def split: WsPhase.split WsInput.split option.split)
  have "covered (?h (cl_sink c)) ?D n" if "covered (?h (cl_sink (cr_client x))) (cr_debt x) n" for n
    using covered_mono [OF that _ D order_refl, of "?h (cl_sink c)"] g(2) by (simp add: grows_def)
  then show ?thesis using x g(1) by (auto simp: chat_ok_def ws_moves_def p split: option.splits)
qed

lemma chat_ok_pull:
  assumes L: "loro_laws L has snap R" and x: "chat_ok has snap R chat x"
    and i: "pull_true (holds has) R i (cr_pull x, cr_client x)"
  shows "chat_ok has snap R chat (pull_moves L chat i x)"
proof -
  obtain p c where p: "pull_step (engine_sink L chat) i (cr_pull x, cr_client x) = (p, c)" by fastforce
  have "pull_good (holds has) (sink_ok has snap chat) R (cr_client x) (p, c)"
    using pull_step_good [OF engine_sink_laws [OF L, where chat = chat] _ i] x p by (simp add: chat_ok_def)
  then show ?thesis using chat_ok_keeps [OF x] by (simp add: pull_moves_def p pull_good_def)
qed

lemma flush_end_keeps:
  assumes L: "loro_laws L has snap R" and gc: "covered (holds has s) D (snd gc)" and s: "sink_ok has snap chat D s"
  shows "sink_ok has snap chat D (flush_end L chat gc s) \<and> es_doc (flush_end L chat gc s) = es_doc s"
proof (cases "Option.bind (es_doc s) (lo_export L)")
  case None
  then show ?thesis using s by (simp add: flush_end_def)
next
  case (Some bytes)
  then obtain d where d: "es_doc s = Some d" "lo_export L d = Some bytes" by (auto simp: bind_eq_Some_conv)
  then have "snap bytes q = has d q" for q using L unfolding loro_laws_def by blast
  then have "covered (snap bytes) D (snd gc)" using gc d(1) by (simp add: covered_def holds_def)
  moreover have "holds has (s\<lparr>es_store := x, es_saved := n\<rparr>) = holds has s" for x n by (rule ext) (simp add: holds_def)
  ultimately show ?thesis using s Some
    by (simp add: flush_end_def save_verified_snapshot_with_cursor_def sql_def upsert_snapshot_def
        invalidate_failed_publication_def sink_ok_def snapshot_ok_def nz_def)
qed

lemma replayable_snapshots: "ds_snapshots (fst (replayable chat rejected us st)) = ds_snapshots st"
proof (induction chat rejected us st rule: replayable.induct)
  case (2 chat rejected i b us store)
  show ?case
  proof (cases "length b > MAX_PUSH_BYTES")
    case True
    obtain st ok where r: "reject_chat_update chat i store = (st, ok)" by fastforce
    have "ds_snapshots st = ds_snapshots store" using outbox_calls_snapshots(3) [of chat i store] r by simp
    then show ?thesis using True 2(1) [OF True r [symmetric]] by (cases ok) (simp_all add: r)
  next
    case False
    obtain st r where "replayable chat rejected us store = (st, r)" by fastforce
    then show ?thesis using False 2(2) [OF False] by (cases r) simp_all
  qed
qed simp

lemma pending_updates_sink:
  "pending_updates chat s = (s', r) \<Longrightarrow> \<exists>store. s' = s\<lparr>es_store := store\<rparr> \<and> ds_snapshots store = ds_snapshots (es_store s)"
proof -
  assume p: "pending_updates chat s = (s', r)"
  show ?thesis
  proof (cases "rejected_chat_updates chat (es_store s)")
    case None
    then have "s' = s" using p by (simp add: pending_updates_def)
    then show ?thesis by (intro exI [of _ "es_store s"]) simp
  next
    case rej: (Some rejected)
    show ?thesis
    proof (cases "pending_chat_updates chat (es_store s)")
      case None
      then have "s' = s" using p rej by (simp add: pending_updates_def)
      then show ?thesis by (intro exI [of _ "es_store s"]) simp
    next
      case (Some pending)
      then have "s' = s\<lparr>es_store := fst (replayable chat (map fst rejected) pending (es_store s))\<rparr>"
        using p rej by (simp add: pending_updates_def split_beta)
      then show ?thesis using replayable_snapshots by blast
    qed
  qed
qed

lemma chat_ok_started:
  assumes l: "loads has snap chat store d cursor" and ok: "snapshot_ok snap chat D store"
    and o': "opened L chat transport store d cursor = Some c"
  shows "chat_ok has snap R chat (started D c)"
proof -
  obtain s r where p: "pending_updates chat (new_sink chat d store cursor) = (s, Some r)"
    and c: "cl_shared c = initial_shared cursor r" "cl_sink c = s"
    using o' by (auto simp: opened_def connect_client_def engine_sink_def split: prod.splits option.splits)
  obtain st where s: "s = (new_sink chat d store cursor)\<lparr>es_store := st\<rparr>" "ds_snapshots st = ds_snapshots store"
  proof -
    have "es_store (new_sink chat d store cursor) = store" by (simp add: new_sink_def Let_def)
    then show thesis using pending_updates_sink [OF p] that by auto
  qed
  have "covered (has d) D cursor" using l ok
    by (auto simp: loads_def snapshot_ok_def covered_def split: option.splits)
  then have cov: "covered (holds has s) D cursor" by (simp add: s holds_def covered_def new_sink_def Let_def)
  have "es_cursor s = cursor \<or> es_cursor s = 0" by (simp add: s new_sink_def Let_def)
  then have "sink_ok has snap chat D s" using cov ok s(2) by (auto simp: sink_ok_def s snapshot_ok_def new_sink_def Let_def)
  then show ?thesis using cov c
    by (simp add: chat_ok_def started_def run_ok_def client_ok_def phase_ok_def pull_ok_def initial_shared_def)
qed

lemma chat_ok_step:
  assumes L: "loro_laws L has snap R"
  shows "chat_step L has snap R chat device x y \<Longrightarrow> chat_ok has snap R chat x \<Longrightarrow> chat_ok has snap R chat y"
proof (induction rule: chat_step.induct)
  case (csWs x i now)
  then show ?case using chat_ok_ws [OF L] by blast
next
  case (csPull i x)
  then show ?case using chat_ok_pull [OF L] by blast
next
  case (csEnqueue b bytes x)
  then show ?case by (intro chat_ok_client keeps_enqueue [OF engine_sink_laws [OF L]])
next
  case (csEdit x d d' u)
  have d: "holds has (dirty u s) = holds has s" "sink_ok has snap chat D (dirty u s) = sink_ok has snap chat D s" for D s
  proof -
    show h: "holds has (dirty u s) = holds has s" by (rule ext) (simp add: holds_def dirty_def)
    show "sink_ok has snap chat D (dirty u s) = sink_ok has snap chat D s" unfolding sink_ok_def h by (simp add: dirty_def)
  qed
  have "sink_ok has snap chat D s \<Longrightarrow> es_doc s = Some d \<Longrightarrow> sink_ok has snap chat D (s\<lparr>es_doc := Some d'\<rparr>)" for D s
    using csEdit.hyps(2) by (intro sink_ok_doc) (simp_all add: holds_def)
  then have "sink_keeps (holds has) (sink_ok has snap chat) (cl_sink (cr_client x)) (dirty u ((cl_sink (cr_client x))\<lparr>es_doc := Some d'\<rparr>))"
    using csEdit.hyps unfolding sink_keeps_def d by (simp add: holds_def)
  then show ?case using csEdit.prems by (intro chat_ok_sink)
next
  case (csEvict x)
  then show ?case by (intro chat_ok_sink) (simp_all add: sink_keeps_def sink_ok_def holds_def covered_def)
next
  case (csStore store x)
  then show ?case by (intro chat_ok_sink) (simp_all add: sink_keeps_def sink_ok_def snapshot_ok_def)
next
  case (csSave x)
  then show ?case
    by (simp add: chat_ok_def flush_begin_def run_ok_def client_ok_def sink_ok_def)
next
  case (csSaved x gc)
  let ?s = "cl_sink (cr_client x)"
  have o': "sink_ok has snap chat (cr_debt x) ?s" "covered (holds has ?s) (cr_debt x) (snd gc)"
    using csSaved by (simp_all add: chat_ok_def run_ok_def client_ok_def)
  note f = flush_end_keeps [OF L o'(2,1)]
  then have h: "holds has (flush_end L chat gc ?s) = holds has ?s" by (intro ext) (simp add: holds_def)
  have g: "frame_true (holds has) R (on_sink (flush_end L chat gc) (cr_client x)) g = frame_true (holds has) R (cr_client x) g" for g
    by (simp add: frame_true_def ack_true_def h split: option.split)
  show ?case using csSaved.prems f h g
    by (simp add: chat_ok_def run_ok_def client_ok_def phase_ok_def settled_def split: WsPhase.splits)
next
  case (csRestart x d cursor transport c)
  then show ?case by (intro chat_ok_started) (auto simp: chat_ok_def run_ok_def client_ok_def sink_ok_def)
qed (intro chat_ok_client keeps_same, simp_all add: probe_room_def request_catch_up_def note_checkpoint_def)+


text \<open>A client whose saved cursor was never verified starts its sink at 0. An acknowledged post tells
  the sink the client's cursor, verified or not, and the next save writes it as verified.\<close>

lemma post_certifies_legacy_cursor:
  assumes ack: "as_str (json_index v ''batchId'') = Some b" "as_u64 (json_index v ''seq'') = Some seq"
    and d: "es_doc (cl_sink c) = Some d" "lo_export L d = Some bytes"
    and up: "\<not> ds_failing (es_store (cl_sink c))" "es_saved (cl_sink c) \<le> es_generation (cl_sink c)"
  shows "\<exists>gc n. flush_begin (cl_sink (pull_ack (engine_sink L chat) v c)) = Some gc \<and> sd_cursor (cl_shared c) \<le> n \<and>
    map_of (ds_snapshots (es_store (flush_end L chat gc (cl_sink (pull_ack (engine_sink L chat) v c))))) chat =
      Some \<lparr>sn_bytes = bytes, sn_cursor = Some n, sn_epoch = Some CHAT2_DOC_EPOCH, sn_verified = True\<rparr>"
proof -
  let ?c = "pull_ack (engine_sink L chat) v c"
  let ?s = "cl_sink ?c"
  have a: "cl_sink ?c = persist_with_cursor (sd_cursor (cl_shared ?c)) (fst (on_store (acknowledge_chat_update chat b) (cl_sink c)))"
    by (simp add: pull_ack_def ack engine_sink_def split_beta Let_def)
  have st: "es_doc ?s = Some d" "\<not> ds_failing (es_store ?s)" "es_generation ?s \<noteq> es_saved ?s" "sd_cursor (cl_shared ?c) \<le> es_cursor ?s"
    using d up unfolding a by (simp_all add: persist_with_cursor_def applied_def dirty_def on_store_def acknowledge_chat_update_def sql_def split_beta)
  have "sd_cursor (cl_shared c) \<le> sd_cursor (cl_shared ?c)"
    by (simp add: pull_ack_def ack split_beta Let_def retire_def)
  then have le: "sd_cursor (cl_shared c) \<le> es_cursor ?s" using st(4) by (rule le_trans)
  have f: "flush_begin ?s = Some (es_generation ?s, es_cursor ?s)" using st by (simp add: flush_begin_def)
  have "map_of (ds_snapshots (es_store (flush_end L chat (es_generation ?s, es_cursor ?s) ?s))) chat =
      Some \<lparr>sn_bytes = bytes, sn_cursor = Some (es_cursor ?s), sn_epoch = Some CHAT2_DOC_EPOCH, sn_verified = True\<rparr>"
    using st d by (simp add: flush_end_def save_verified_snapshot_with_cursor_def sql_def upsert_snapshot_def invalidate_failed_publication_def)
  then show ?thesis using f le by blast
qed

section \<open>The cursors are honest\<close>

definition joined :: "WsPhase \<Rightarrow> bool" where
  "joined w \<longleftrightarrow> (case w of WsBackfill _ _ \<Rightarrow> True | WsSteady _ \<Rightarrow> True | _ \<Rightarrow> False)"

lemma chat_ok_run:
  assumes L: "loro_laws L has snap R"
  shows "(chat_step L has snap R chat device)\<^sup>*\<^sup>* x y \<Longrightarrow> chat_ok has snap R chat x \<Longrightarrow> chat_ok has snap R chat y"
  by (induction rule: rtranclp_induct) (use chat_ok_step [OF L] in blast)+

text \<open>C33: A chat client's cursors are honest. Start a client on a chat that has no snapshot, and let the
  socket session, the HTTPS cycle, the host, local edits, eviction, other users of the store, SQLite
  failures, saves and restarts of the process interleave in any way, in a room that is not reset and
  answers truthfully. Then every row up to the client's cursor, and up to the cursor the next save will
  write, is in the document; while the session is not past the checkpoint, except rows the newest
  checkpoint announced covers. And a snapshot saved as verified holds every row up to its saved cursor,
  except such rows; the next handshake fetches that checkpoint.\<close>

theorem cursor_is_honest:
  assumes L: "loro_laws L has snap R" and n: "map_of (ds_snapshots store) chat = None"
    and c: "opened L chat transport store d 0 = Some c"
    and r: "(chat_step L has snap R chat device)\<^sup>*\<^sup>* (started 0 c) x"
  shows "covered (holds has (cl_sink (cr_client x))) (if joined (cr_ws x) then 0 else cr_debt x)
      (max (sd_cursor (cl_shared (cr_client x))) (es_cursor (cl_sink (cr_client x)))) \<and>
    snapshot_ok snap chat (cr_debt x) (es_store (cl_sink (cr_client x)))"
proof -
  have "chat_ok has snap R chat (started 0 c)"
    by (rule chat_ok_started [OF _ _ c]) (simp_all add: loads_def snapshot_ok_def n)
  then have ok: "chat_ok has snap R chat x" using chat_ok_run [OF L r] by simp
  let ?h = "holds has (cl_sink (cr_client x))"
  let ?n = "max (sd_cursor (cl_shared (cr_client x))) (es_cursor (cl_sink (cr_client x)))"
  have s: "covered ?h (cr_debt x) ?n" "snapshot_ok snap chat (cr_debt x) (es_store (cl_sink (cr_client x)))"
    using ok by (simp_all add: chat_ok_def run_ok_def client_ok_def sink_ok_def covered_max)
  have "settled (holds has) (cr_debt x) (cr_client x)" if "joined (cr_ws x)"
    using ok that by (simp add: chat_ok_def run_ok_def phase_ok_def joined_def split: WsPhase.splits)
  then have "covered ?h 0 ?n" if "joined (cr_ws x)"
    using s(1) that unfolding covered_def settled_def by blast
  then show ?thesis using s by simp
qed

text \<open>A document that is the rows' bytes in a row, and a room with a checkpoint of its first row.\<close>

definition demo_has :: "bytes \<Rightarrow> nat \<Rightarrow> bool" where
  "demo_has d q \<longleftrightarrow> of_nat q \<in> set d"

definition demo_covers :: "bytes \<Rightarrow> nat \<Rightarrow> bool" where
  "demo_covers b n \<longleftrightarrow> list_all (demo_has b) [1..<n + 1]"

definition demo_loro :: "(bytes, bytes) LoroApi" where
  "demo_loro = \<lparr>lo_import = (\<lambda>b d. (d @ b, Some False)), lo_decode_vv = Some, lo_vv_is_empty = (\<lambda>v. v = []),
     lo_includes_vv = (\<lambda>d v. list_all (\<lambda>x. x \<in> set d) v), lo_export = Some\<rparr>"

definition demo_room :: Room where
  "demo_room = \<lparr>rm_row = (\<lambda>q. [of_nat q]), rm_checkpoint = demo_covers, rm_frontier = demo_covers,
     rm_answered = (\<lambda>b. b \<noteq> ''b7'')\<rparr>"

lemma demo_laws: "loro_laws demo_loro demo_has demo_has demo_room"
proof -
  have c: "demo_covers b n \<Longrightarrow> 0 < q \<Longrightarrow> q \<le> n \<Longrightarrow> demo_has b q" for b n q
    unfolding demo_covers_def list_all_iff by (drule bspec [of _ _ q]) (simp_all, linarith)
  have m: "list_all (\<lambda>x. x \<in> set d) v \<Longrightarrow> demo_has v q \<Longrightarrow> demo_has d q" for d v q by (simp add: demo_has_def list_all_iff)
  have a: "demo_has b q \<Longrightarrow> demo_has (d @ b) q" "demo_has d q \<Longrightarrow> demo_has (d @ b) q" for d b q by (simp_all add: demo_has_def)
  have r: "demo_has (d @ [of_nat q]) q" for d q by (simp add: demo_has_def)
  show ?thesis unfolding loro_laws_def demo_loro_def demo_room_def using c m a r by simp blast
qed

definition demo_client :: "bytes EngineSink Client" where
  "demo_client = the (opened demo_loro ''c1'' True demo_store [] 0)"

definition demo_state :: WireFrame where
  "demo_state = \<lparr>wf_kind = STATE, wf_header = JObj [(''headSeq'', JInt 2), (''seqFloor'', JInt 1),
     (''checkpointSeq'', JInt 1), (''checkpointSize'', JInt 9)], wf_payload = [1]\<rparr>"

definition demo_row :: WireFrame where
  "demo_row = \<lparr>wf_kind = ROW, wf_header = JObj [(''seq'', JInt 2), (''device'', JStr ''d2''), (''batchId'', JStr ''b2'')],
     wf_payload = [2]\<rparr>"

definition demo_run :: "WsInput list \<Rightarrow> bytes ChatRun" where
  "demo_run is = fold (\<lambda>i. ws_moves demo_loro ''c1'' ''d1'' 0 i) is (started 0 demo_client)"

lemma engine_sink_sels: "sk_cursor_is_verified (engine_sink L chat) = es_initial_cursor_verified"
  "sk_reset_cursor (engine_sink L chat) = persist_reset_cursor"
  "sk_pending_updates (engine_sink L chat) = pending_updates chat"
  "sk_apply_row (engine_sink L chat) = import_row L"
  "sk_apply_replay_row (engine_sink L chat) = import_row L"
  "sk_apply_checkpoint (engine_sink L chat) = import_checkpoint L"
  "sk_contains_frontier (engine_sink L chat) = frontier_contained L"
  by (simp_all add: engine_sink_def)
definition demo_header :: StateHeader where
  "demo_header = \<lparr>sh_head_seq = 2, sh_seq_floor = 1, sh_checkpoint_seq = 1, sh_checkpoint_size = 9,
     sh_row_count = 0, sh_row_bytes = 0\<rparr>"

lemma demo_header_sels: "sh_head_seq demo_header = 2" "sh_checkpoint_seq demo_header = 1" "sh_checkpoint_size demo_header = 9"
  by (simp_all add: demo_header_def)

lemma demo_state_header: "dec_state_header (wf_header demo_state) = Some demo_header"
  unfolding demo_header_def by code_simp
lemma demo_row_header: "dec_row_header (wf_header demo_row) = Some \<lparr>rh_seq = 2, rh_device = ''d2'', rh_batch_id = ''b2''\<rparr>" by code_simp

lemma demo_client_eq: "demo_client = \<lparr>cl_shared = initial_shared 0 [], cl_sink = \<lparr>es_doc = Some [], es_store = demo_store, es_cursor = 0,
  es_generation = 0, es_saved = 0, es_urgent = False, es_initial_cursor_verified = False\<rparr>,
  cl_flags = \<lparr>fl_connected = False, fl_rejoins = 0, fl_disconnects = 0, fl_rejected = 0, fl_server_resets = 0\<rparr>,
  cl_events = [], cl_sent = [], cl_open = False, cl_amnesty_done = False, cl_resumed = False, cl_ready = False\<rparr>"
  by code_simp

lemma demo_frames: "wf_kind demo_state = STATE" "wf_payload demo_state = [1]" "wf_kind demo_row = ROW" "wf_payload demo_row = [2]"
  by (simp_all add: demo_state_def demo_row_def)
lemma demo_loro_sels: "lo_import demo_loro b d = (d @ b, Some False)" "lo_decode_vv demo_loro = Some" "lo_vv_is_empty demo_loro v = (v = [])"
  "lo_includes_vv demo_loro d v = list_all (\<lambda>x. x \<in> set d) v" "lo_export demo_loro = Some"
  by (simp_all add: demo_loro_def)
lemmas demo_eval = ws_moves_def started_def ws_step_def ws_open_def send_frame_def clear_rows_req_def demo_client_eq initial_shared_def Let_def demo_state_header demo_row_header
  ws_state_def apply_cursor_amnesty_def engine_sink_sels frontier_contained_def plan_catch_up_def plan_after_def push_pending_def ws_debt_def state_debt_def
  import_checkpoint_def persist_with_cursor_def applied_def dirty_def ws_replay_def clear_needs_checkpoint_def handle_frame_with_replay_def on_row_def
  apply_remote_row_def propose_row_def sat_succ_def import_row_def demo_frames demo_loro_sels demo_header_sels

abbreviation demo_steps :: "bytes ChatRun \<Rightarrow> bytes ChatRun \<Rightarrow> bool" where
  "demo_steps \<equiv> (chat_step demo_loro demo_has demo_has demo_room ''c1'' ''d1'')\<^sup>*\<^sup>*"

lemma demo_snoc:
  assumes "demo_steps (started 0 demo_client) (demo_run is)"
    and "ws_true (holds demo_has) demo_room (cr_debt (demo_run is)) i (cr_ws (demo_run is), cr_client (demo_run is))"
    and "js = is @ [i]"
  shows "demo_steps (started 0 demo_client) (demo_run js)"
proof -
  have "demo_run js = ws_moves demo_loro ''c1'' ''d1'' 0 i (demo_run is)" by (simp add: demo_run_def assms(3))
  then show ?thesis using rtranclp.rtrancl_into_rtrancl [OF assms(1) csWs [OF assms(2)]] by simp
qed

text \<open>The run: the checkpoint of row 1 is fetched while row 2 arrives.\<close>

lemma demo_run1: "demo_run [InOpen] = (started 0 (demo_client\<lparr>cl_open := True, cl_sent := [OutHello 0 ''d1'']\<rparr>))\<lparr>cr_ws := WsHello\<rparr>"
  by (simp add: demo_run_def demo_eval cong: let_weak_cong)

lemma demo_run_snoc: "demo_run (is @ [i]) = ws_moves demo_loro ''c1'' ''d1'' 0 i (demo_run is)"
  by (simp add: demo_run_def)

lemma demo_run2: "demo_run [InOpen, InFrame (Some demo_state)] = \<lparr>cr_ws = WsCheckpoint demo_header 0 0 [] [], cr_pull = PullIdle, cr_debt = 1, cr_saving = None,
     cr_client = \<lparr>cl_shared = (initial_shared 1 [])\<lparr>sd_server := Some demo_header\<rparr>, cl_sink = \<lparr>es_doc = Some [], es_store = demo_store, es_cursor = 0, es_generation = 0,
         es_saved = 0, es_urgent = False, es_initial_cursor_verified = False\<rparr>,
       cl_flags = \<lparr>fl_connected = True, fl_rejoins = 1, fl_disconnects = 0, fl_rejected = 0, fl_server_resets = 0\<rparr>,
       cl_events = [CeConnected], cl_sent = [OutHello 0 ''d1'', OutRowsReq 1 False],
       cl_open = True, cl_amnesty_done = True, cl_resumed = False, cl_ready = False\<rparr>\<rparr>"
  using demo_run_snoc [of "[InOpen]" "InFrame (Some demo_state)"]
  by (simp add: demo_run1 demo_eval cong: let_weak_cong)

lemma demo_run3: "demo_run [InOpen, InFrame (Some demo_state), InFrame (Some demo_row)] = \<lparr>cr_ws = WsCheckpoint demo_header 0 0 [] [demo_row], cr_pull = PullIdle, cr_debt = 1, cr_saving = None,
     cr_client = \<lparr>cl_shared = (initial_shared 1 [])\<lparr>sd_server := Some demo_header\<rparr>, cl_sink = \<lparr>es_doc = Some [], es_store = demo_store, es_cursor = 0, es_generation = 0,
         es_saved = 0, es_urgent = False, es_initial_cursor_verified = False\<rparr>,
       cl_flags = \<lparr>fl_connected = True, fl_rejoins = 1, fl_disconnects = 0, fl_rejected = 0, fl_server_resets = 0\<rparr>,
       cl_events = [CeConnected], cl_sent = [OutHello 0 ''d1'', OutRowsReq 1 False],
       cl_open = True, cl_amnesty_done = True, cl_resumed = False, cl_ready = False\<rparr>\<rparr>"
  using demo_run_snoc [of "[InOpen, InFrame (Some demo_state)]" "InFrame (Some demo_row)"]
  by (simp add: demo_run2 ws_moves_def ws_step_def ws_debt_def)

lemma demo_run4: "demo_run [InOpen, InFrame (Some demo_state), InFrame (Some demo_row), InCheckpoint (Some [1])] =
   \<lparr>cr_ws = WsBackfill 0 [], cr_pull = PullIdle, cr_debt = 1, cr_saving = None,
     cr_client = \<lparr>cl_shared = (initial_shared 2 [])\<lparr>sd_server := Some demo_header\<rparr>, cl_sink = \<lparr>es_doc = Some [1, 2], es_store = demo_store, es_cursor = 2, es_generation = 2,
         es_saved = 0, es_urgent = True, es_initial_cursor_verified = False\<rparr>,
       cl_flags = \<lparr>fl_connected = True, fl_rejoins = 1, fl_disconnects = 0, fl_rejected = 0, fl_server_resets = 0\<rparr>,
       cl_events = [CeConnected, CeApplied, CeApplied], cl_sent = [OutHello 0 ''d1'', OutRowsReq 1 False],
       cl_open = True, cl_amnesty_done = True, cl_resumed = False, cl_ready = False\<rparr>\<rparr>"
  using demo_run_snoc [of "[InOpen, InFrame (Some demo_state), InFrame (Some demo_row)]" "InCheckpoint (Some [1])"]
  by (simp add: demo_run3 demo_eval cong: let_weak_cong)

lemmas demo_runs = demo_run1 demo_run2 demo_run3 demo_run4

lemma cursor_is_honest_witness:
  "\<exists>x. demo_steps (started 0 demo_client) x \<and> joined (cr_ws x) \<and> sd_cursor (cl_shared (cr_client x)) = 2 \<and>
     covered (holds demo_has (cl_sink (cr_client x))) 0 2 \<and>
     map_option sn_cursor (map_of (ds_snapshots (es_store (cl_sink (cr_client x)))) ''c1'') = Some (Some 2) \<and>
     snapshot_ok demo_has ''c1'' 1 (es_store (cl_sink (cr_client x)))"
proof -
  let ?i2 = "[InOpen, InFrame (Some demo_state)]"
  let ?is = "[InOpen, InFrame (Some demo_state), InFrame (Some demo_row), InCheckpoint (Some [1])]"
  note t = ws_true_def frame_true_def row_true_def ack_true_def answer_true_def state_true_def demo_room_def demo_covers_def demo_has_def demo_eval demo_runs holds_def
  have 0: "demo_steps (started 0 demo_client) (demo_run [])" by (simp add: demo_run_def)
  have 1: "demo_steps (started 0 demo_client) (demo_run [InOpen])"
    by (rule demo_snoc [OF 0, of InOpen]) (simp_all add: ws_true_def)
  have 2: "demo_steps (started 0 demo_client) (demo_run ?i2)"
    by (rule demo_snoc [OF 1, of "InFrame (Some demo_state)"]) (simp_all add: t cong: let_weak_cong)
  have 3: "demo_steps (started 0 demo_client) (demo_run (?i2 @ [InFrame (Some demo_row)]))"
    by (rule demo_snoc [OF 2, of "InFrame (Some demo_row)"]) (simp_all add: t cong: let_weak_cong)
  have r: "demo_steps (started 0 demo_client) (demo_run ?is)"
    by (rule demo_snoc [OF 3, of "InCheckpoint (Some [1])"]) (simp_all add: t cong: let_weak_cong)
  define x where "x = (demo_run ?is)\<lparr>cr_saving := flush_begin (cl_sink (cr_client (demo_run ?is)))\<rparr>"
  define y where "y = on_client (on_sink (flush_end demo_loro ''c1'' (2, 2))) (x\<lparr>cr_saving := None\<rparr>)"
  note f = flush_begin_def flush_end_def save_verified_snapshot_with_cursor_def sql_def upsert_snapshot_def
    invalidate_failed_publication_def demo_store_def joined_def demo_run4 demo_loro_sels initial_shared_def
  have s: "cr_saving x = Some (2, 2)" by (simp add: x_def f)
  have "demo_steps (started 0 demo_client) x"
    unfolding x_def by (rule rtranclp.rtrancl_into_rtrancl [OF r csSave])
  from rtranclp.rtrancl_into_rtrancl [OF this csSaved [OF s]] have y: "demo_steps (started 0 demo_client) y"
    unfolding y_def .
  have c: "opened demo_loro ''c1'' True demo_store [] 0 = Some demo_client" unfolding demo_client_eq by code_simp
  have n: "map_of (ds_snapshots demo_store) ''c1'' = None" by (simp add: demo_store_def)
  have e: "joined (cr_ws y)" "cr_debt y = 1" "sd_cursor (cl_shared (cr_client y)) = 2" "es_cursor (cl_sink (cr_client y)) = 2"
    "map_option sn_cursor (map_of (ds_snapshots (es_store (cl_sink (cr_client y)))) ''c1'') = Some (Some 2)"
    by (simp_all add: y_def x_def f)
  note h = cursor_is_honest [OF demo_laws n c y]
  have "covered (holds demo_has (cl_sink (cr_client y))) 0 2" "snapshot_ok demo_has ''c1'' 1 (es_store (cl_sink (cr_client y)))"
    using h by (simp_all only: e if_True max.idem)
  then show ?thesis using e(1,3,5) y by blast
qed

end
