(* ===== verification/Chat_Tickets.thy ===== *)
theory Chat_Tickets
  imports Chat_Safe
begin

text \<open>
  Catch-up tickets. A wake-up asks for a catch-up and gets a ticket; both transports read the room and
  complete the ticket their read was started for. No read that was under way before the wake-up can
  complete it.
\<close>

section \<open>Reads and tickets\<close>

definition is_read :: "OutFrame \<Rightarrow> bool" where
  "is_read f \<longleftrightarrow> (case f of OutRowsReq _ _ \<Rightarrow> True | _ \<Rightarrow> False)"

definition reads :: "'s Client \<Rightarrow> nat" where
  "reads c = length (filter is_read (cl_sent c))"

abbreviation asked :: "'s Client \<Rightarrow> nat" where "asked c \<equiv> sd_refresh_requested (cl_shared c)"
abbreviation done_up_to :: "'s Client \<Rightarrow> nat" where "done_up_to c \<equiv> sd_refresh_completed (cl_shared c)"

text \<open>The tickets of the reads under way are at most \<open>T\<close>.\<close>

definition ws_tickets :: "nat \<Rightarrow> WsPhase \<Rightarrow> bool" where
  "ws_tickets T w \<longleftrightarrow> (case w of
     WsCheckpoint _ _ t _ _ \<Rightarrow> t \<le> T
   | WsBackfill t _ \<Rightarrow> t \<le> T
   | WsSteady l \<Rightarrow> (case sl_refresh_in_flight l of None \<Rightarrow> True | Some (t, _) \<Rightarrow> t \<le> T)
   | _ \<Rightarrow> True)"

definition pull_tickets :: "nat \<Rightarrow> PullPhase \<Rightarrow> bool" where
  "pull_tickets T p \<longleftrightarrow> (case p of
     PullRows l \<Rightarrow> pl_ticket l \<le> T | PullCheckpoint l _ _ _ _ \<Rightarrow> pl_ticket l \<le> T | PullApply l _ \<Rightarrow> pl_ticket l \<le> T
   | _ \<Rightarrow> True)"

text \<open>A step that asks for nothing, completes nothing and forgets no read.\<close>

definition calm :: "'s Client \<Rightarrow> 's Client \<Rightarrow> bool" where
  "calm c c' \<longleftrightarrow> asked c' = asked c \<and> done_up_to c' = done_up_to c \<and> reads c \<le> reads c'"

lemma calm_refl [simp]: "calm c c"
  by (simp add: calm_def)

lemma calm_trans: "calm a b \<Longrightarrow> calm b c \<Longrightarrow> calm a c"
  by (simp add: calm_def)

text \<open>A transition, when it starts no read or may take any ticket asked for.\<close>

definition ticks :: "nat \<Rightarrow> 's Client \<Rightarrow> WsPhase \<times> 's Client \<Rightarrow> bool" where
  "ticks T c r \<longleftrightarrow> asked (snd r) = asked c \<and> reads c \<le> reads (snd r) \<and>
     (reads (snd r) = reads c \<or> T = asked c \<longrightarrow> done_up_to (snd r) \<le> T \<and> ws_tickets T (fst r))"

lemma ticks_calm: "calm c c' \<Longrightarrow> ticks T c' r \<Longrightarrow> ticks T c r"
  by (auto simp: calm_def ticks_def)

lemma ticks_same: "done_up_to c \<le> T \<Longrightarrow> ws_tickets T w \<Longrightarrow> ticks T c (w, c)"
  by (simp add: ticks_def)

lemma calm_send: "calm c (fst (send_frame f c))"
  by (simp add: calm_def send_frame_def reads_def)

lemma calm_ensure: "calm c (fst (ensure_durable K p c))"
  by (simp add: calm_def ensure_durable_def reads_def split: option.split prod.split bool.split)

lemma calm_push_batches: "calm c (fst (fst (push_batches K ps infl c)))"
proof (induction ps arbitrary: infl c)
  case (Cons p ps)
  obtain c1 b1 where e: "ensure_durable K p c = (c1, b1)" by fastforce
  obtain c2 b2 where s: "send_frame (OutPush (pp_batch_id p) (pp_bytes p)) c1 = (c2, b2)" by fastforce
  have "calm c c1" using calm_ensure [of c K p] e by simp
  moreover have "calm c1 c2" using calm_send [of c1 "OutPush (pp_batch_id p) (pp_bytes p)"] s by simp
  moreover note Cons.IH [of c2 "infl @ [pp_batch_id p]"]
  ultimately show ?case by (cases b1; cases b2) (auto simp: e s intro: calm_trans)
qed simp

lemma calm_push_pending: "calm c (fst (fst (push_pending K infl c)))"
  by (simp add: push_pending_def Let_def calm_push_batches)

lemma calm_push_head: "calm c (fst (push_head K c))"
proof (cases "sd_pending (cl_shared c)")
  case (Cons p ps)
  obtain c1 b1 where e: "ensure_durable K p c = (c1, b1)" by fastforce
  have "calm c c1" using calm_ensure [of c K p] e by simp
  then show ?thesis using calm_trans [OF _ calm_send] by (cases b1) (simp_all add: push_head_def Cons e)
qed (simp add: push_head_def)

lemma calm_repair: "calm c (fst (fst (maybe_repair_gap n c)))"
  by (simp add: calm_def maybe_repair_gap_def Let_def send_frame_def reads_def)

lemma calm_probe: "calm c (fst (fst (send_probe now d c)))"
  by (simp add: calm_def send_probe_def send_frame_def reads_def)

lemma calm_amnesty: "calm c (apply_cursor_amnesty K st c)"
  by (simp add: calm_def apply_cursor_amnesty_def Let_def reads_def)

lemma calm_row: "calm c (apply_remote_row K b seq replay c)"
  by (simp add: calm_def apply_remote_row_def propose_row_def flag_gap_def reads_def
      split: prod.split RowImportOutcome.split)

lemma calm_on_ack: "calm c (fst (on_ack K now f c))"
  by (simp add: calm_def on_ack_def reads_def Let_def quota_drain_def ack_cursor_def flag_gap_def retire_def
      split: option.split prod.split)

lemma calm_on_error: "calm c (fst (on_error K now f c))"
  by (simp add: calm_def on_error_def reads_def Let_def retire_def split: option.split prod.split bool.split)

lemma calm_on_row: "calm c (fst (on_row K f replay c))"
proof (cases "dec_row_header (wf_header f)")
  case (Some row)
  have "calm c (emit CeApplied (apply_remote_row K b seq r c))" for b seq r
    using calm_row [of c K b seq r] by (simp add: calm_def reads_def)
  then show ?thesis by (simp add: on_row_def Some)
qed (simp add: on_row_def)

lemma calm_handle: "calm c (fst (handle_frame_with_replay K now f replay c))"
  unfolding handle_frame_with_replay_def Let_def
  by (simp add: calm_on_row calm_on_ack calm_on_error) (simp add: calm_def reads_def split: option.split)

lemma calm_enqueue: "calm c (enqueue_batch K b bytes c)"
  by (simp add: calm_def enqueue_batch_def reads_def Let_def split: prod.split)

section \<open>The session\<close>

lemma ticks_reconnect: "done_up_to c \<le> T \<Longrightarrow> ticks T c (ws_reconnect c)"
  by (simp add: ticks_def ws_reconnect_def Let_def reads_def ws_tickets_def)

lemma ticks_steady_top:
  assumes d: "done_up_to c \<le> T" and l: "ws_tickets T (WsSteady l)"
  shows "ticks T c (steady_top now l c)"
proof -
  define c1 where "c1 = on_shared (\<lambda>sd. sd\<lparr>sd_rows_req_outstanding := True\<rparr>) c"
  have k: "calm c c1" by (simp add: c1_def calm_def reads_def)
  have dl: "ws_tickets T (WsSteady (l\<lparr>sl_refresh_gap_deadline := x\<rparr>))" for x using l by (simp add: ws_tickets_def)
  have r: "ticks T c (ws_reconnect c1)" using ticks_calm [OF k ticks_reconnect] d by (simp add: c1_def)
  have s: "ticks T c (WsSteady (l\<lparr>sl_refresh_gap_deadline := x, sl_refresh_in_flight := Some (asked c, y)\<rparr>),
      c1\<lparr>cl_sent := cl_sent c1 @ [OutRowsReq n b]\<rparr>)" for x y n b
    using d by (simp add: ticks_def c1_def reads_def is_read_def ws_tickets_def)
  show ?thesis
    using r s ticks_same [OF d dl]
    by (simp add: steady_top_def Let_def send_frame_def c1_def [symmetric])
qed

lemma ticks_steady:
  assumes "calm c (fst r)" "done_up_to c \<le> T" "ws_tickets T (WsSteady l)"
  shows "ticks T c (steady_or_reconnect now l r)"
proof -
  have d: "done_up_to (fst r) \<le> T" using assms by (simp add: calm_def)
  show ?thesis
    using ticks_calm [OF assms(1) ticks_steady_top [OF d assms(3)]] ticks_calm [OF assms(1) ticks_reconnect [OF d]]
    by (simp add: steady_or_reconnect_def)
qed

text \<open>A read that ends completes its own ticket at most.\<close>

lemma done_le_calm: "calm c c' \<Longrightarrow> done_up_to c \<le> T \<Longrightarrow> done_up_to c' \<le> T"
  by (simp add: calm_def)

lemma ticks_after:
  assumes "asked c' = asked c" "reads c' = reads c" "done_up_to c' \<le> T" "ticks T c' r" shows "ticks T c r"
  using assms by (simp add: ticks_def)

lemma ticks_backfilled:
  assumes d: "done_up_to c \<le> T" and t: "t \<le> T"
  shows "ticks T c (ws_backfilled now head t infl c)"
proof -
  let ?c0 = "c\<lparr>cl_resumed := True, cl_ready := False\<rparr>"
  define c1 where "c1 = (if \<not> sd_needs_checkpoint (cl_shared ?c0)
      then emit (CeCaughtUp head) (on_shared (\<lambda>sd. finish_ticket head t (sd\<lparr>sd_caught_up := True\<rparr>)) ?c0) else ?c0)"
  obtain c2 n ok2 where r: "maybe_repair_gap 0 c1 = ((c2, n), ok2)" by (metis prod.collapse)
  have c1: "asked c1 = asked c" "reads c1 = reads c" "done_up_to c1 \<le> T"
    using d t by (simp_all add: c1_def finish_ticket_def reads_def)
  have k: "calm c1 c2" using calm_repair [of c1 0] r by simp
  have "ticks T c1 (ws_backfilled now head t infl c)"
    unfolding ws_backfilled_def Let_def c1_def [symmetric] r prod.case
    by (rule ticks_steady) (use k c1(3) in \<open>simp_all add: ws_tickets_def\<close>)
  with c1 show ?thesis by (rule ticks_after)
qed

lemma calm_replay: "calm c (fst (fst (replay_buffered K now fs head c)))"
proof (induction fs arbitrary: head c)
  case (Cons f fs)
  obtain c1 b1 where e: "handle_frame_with_replay K now f (head = None) c = (c1, b1)" by fastforce
  have k: "calm c c1" using calm_handle [of c K now f "head = None"] e by simp
  have "calm c (fst (fst (replay_buffered K now fs hd c1)))" for hd using calm_trans [OF k Cons.IH] .
  then show ?case using k Cons.IH by (auto simp: e split: option.splits bool.splits)
qed simp

lemma ticks_ws_replay:
  assumes d: "done_up_to c \<le> T" and t: "t \<le> T"
  shows "ticks T c (ws_replay K now g t infl fs c)"
proof -
  let ?c0 = "on_shared (clear_needs_checkpoint g) c"
  have k0: "calm c ?c0" by (simp add: calm_def clear_needs_checkpoint_def reads_def)
  obtain c1 hd b where r: "replay_buffered K now fs None ?c0 = ((c1, hd), b)" by (metis prod.collapse)
  have k1: "calm c c1" using calm_trans [OF k0 calm_replay [of ?c0 K now fs None]] r by simp
  note d1 = done_le_calm [OF k1 d]
  show ?thesis
    using ticks_calm [OF k1 ticks_reconnect [OF d1]] ticks_calm [OF k1 ticks_backfilled [OF d1 t]]
      ticks_calm [OF k1 ticks_same [OF d1]] t
    by (cases b; cases hd) (simp_all add: ws_replay_def r ws_tickets_def)
qed

lemma ticks_ws_state:
  assumes d: "done_up_to c \<le> T"
  shows "ticks T c (ws_state K now st frontier c)"
proof -
  define c1 where "c1 = on_shared (\<lambda>sd. clear_rows_req (sd\<lparr>sd_server := Some st\<rparr>)) c"
  define c2 where "c2 = (if sd_cursor (cl_shared c1) > sh_head_seq st
     then emit CeServerReset (on_flags (\<lambda>f. f\<lparr>fl_server_resets := fl_server_resets f + 1\<rparr>)
            (c1\<lparr>cl_sink := sk_reset_cursor K 0 (cl_sink c1)\<rparr>)) else c1)"
  define c3 where "c3 = apply_cursor_amnesty K st c2"
  define c4 where "c4 = emit CeConnected (on_flags (\<lambda>f. f\<lparr>fl_connected := True,
      fl_rejoins := (if cl_ready c3 then fl_rejoins f else fl_rejoins f + 1)\<rparr>) c3)"
  define repair where "repair = sd_needs_checkpoint (cl_shared c4)"
  define gen where "gen = sd_causal_gap_generation (cl_shared c4)"
  define plan where "plan = plan_catch_up (sd_cursor (cl_shared c4)) st
      (sh_checkpoint_size st = 0 \<or> (\<not> repair \<and> sk_contains_frontier K frontier (cl_sink c4)))"
  define c5 where "c5 = on_shared (\<lambda>sd. sd\<lparr>sd_cursor := plan_after plan\<rparr>) c4"
  define tk where "tk = asked c5"
  obtain c6 b6 where s6: "send_frame (OutRowsReq (plan_after plan) (cl_resumed c5 \<and> \<not> repair)) c5 = (c6, b6)" by fastforce
  obtain c7 infl b7 where s7: "push_pending K [] c6 = ((c7, infl), b7)" by (metis prod.collapse)
  have r: "ws_state K now st frontier c = (if \<not> b6 then ws_reconnect c6 else if \<not> b7 then ws_reconnect c7
      else case plan of CheckpointThenRows _ \<Rightarrow> (WsCheckpoint st gen tk infl [], c7)
        | RowsOnly _ \<Rightarrow> ws_replay K now gen tk infl [] c7)"
    unfolding ws_state_def Let_def c1_def [symmetric] c2_def [symmetric] c3_def [symmetric] c4_def [symmetric]
      repair_def [symmetric] gen_def [symmetric] plan_def [symmetric] c5_def [symmetric] tk_def [symmetric] s6
    by (cases b6; cases b7) (simp_all add: s7)
  have k1: "calm c c1" by (simp add: c1_def clear_rows_req_def calm_def reads_def)
  have k2: "calm c1 c2" by (simp add: c2_def calm_def reads_def)
  have k3: "calm c2 c3" by (simp add: c3_def calm_amnesty)
  have k4: "calm c3 c4" by (simp add: c4_def calm_def reads_def)
  have "calm c4 c5" by (simp add: c5_def calm_def reads_def)
  then have k5: "calm c c5" using k1 k2 k3 k4 calm_trans by blast
  have k56: "calm c5 c6" using calm_send [of c5] s6 by (metis fst_conv)
  have k67: "calm c6 c7" using calm_push_pending [of c6 K "[]"] s7 by simp
  have k: "calm c c6" "calm c c7" using calm_trans k5 k56 k67 by blast+
  note dd = done_le_calm [OF k(1) d] done_le_calm [OF k(2) d]
  show ?thesis
  proof (cases "b6 \<and> b7")
    case False
    then show ?thesis using ticks_calm [OF k(1) ticks_reconnect [OF dd(1)]] ticks_calm [OF k(2) ticks_reconnect [OF dd(2)]]
      by (simp add: r)
  next
    case True
    have "reads c6 = reads c5 + 1" using s6 True by (auto simp: send_frame_def reads_def is_read_def split: if_splits)
    then have more: "reads c < reads c7" using k5 k67 by (simp add: calm_def)
    have tk: "tk = asked c" using k5 by (simp add: tk_def calm_def)
    have "ticks T c7 (case plan of CheckpointThenRows _ \<Rightarrow> (WsCheckpoint st gen tk infl [], c7)
        | RowsOnly _ \<Rightarrow> ws_replay K now gen tk infl [] c7)" if "T = asked c"
      using that ticks_ws_replay [OF dd(2), of tk] ticks_same [OF dd(2)] tk
      by (simp add: ws_tickets_def split: CatchUpPlan.split)
    moreover have "asked (snd (ws_state K now st frontier c)) = asked c \<and> reads c < reads (snd (ws_state K now st frontier c))"
      using ticks_ws_replay [of c7 "max (done_up_to c7) tk" tk K now gen infl "[]"] True more k(2)
      by (simp add: r ticks_def calm_def split: CatchUpPlan.split)
    ultimately show ?thesis using True k(2) by (auto simp: r ticks_def calm_def)
  qed
qed

lemma ticks_steady_frame:
  assumes d: "done_up_to c \<le> T" and l: "ws_tickets T (WsSteady l)"
  shows "ticks T c (steady_frame K now f l c)"
proof -
  obtain c1 b where e: "handle_frame K now f c = (c1, b)" by fastforce
  have k1: "calm c c1" using calm_handle [of c K now f False] e by (simp add: handle_frame_def)
  define l0 where "l0 = l\<lparr>sl_last_frame := now, sl_probe_deadline := None\<rparr>"
  define hd where "hd = (if wf_kind f = ROWS_DONE then dec_rows_done_header (wf_header f) else None)"
  define lc where "lc = (case (hd, sl_refresh_in_flight l0) of
      (Some h, Some (ticket, _)) \<Rightarrow> (l0\<lparr>sl_refresh_in_flight := None\<rparr>, on_shared (refreshed h ticket) c1) | _ \<Rightarrow> (l0, c1))"
  have l0: "ws_tickets T (WsSteady l0)" using l by (simp add: ws_tickets_def l0_def)
  have d1: "done_up_to c1 \<le> T" by (rule done_le_calm [OF k1 d])
  have lc: "asked (snd lc) = asked c1" "reads (snd lc) = reads c1" "done_up_to (snd lc) \<le> T" "ws_tickets T (WsSteady (fst lc))"
    using d1 l0 by (auto simp: lc_def refreshed_def flag_gap_def reads_def ws_tickets_def split: option.splits)
  obtain c3 n ok3 where r: "maybe_repair_gap (sl_gap_repairs (fst lc)) (snd lc) = ((c3, n), ok3)" by (metis prod.collapse)
  have k3: "calm (snd lc) c3" using calm_repair [of "snd lc" "sl_gap_repairs (fst lc)"] r by simp
  have "ws_tickets T (WsSteady ((fst lc)\<lparr>sl_gap_repairs := n\<rparr>))" using lc(4) by (simp add: ws_tickets_def)
  then have "ticks T (snd lc) (steady_or_reconnect now ((fst lc)\<lparr>sl_gap_repairs := n\<rparr>) (c3, ok3))"
    by (intro ticks_steady) (simp_all add: k3 lc(3))
  from ticks_after [OF lc(1,2,3) this] have t: "ticks T c (steady_or_reconnect now ((fst lc)\<lparr>sl_gap_repairs := n\<rparr>) (c3, ok3))"
    by (rule ticks_calm [OF k1])
  show ?thesis
  proof (cases b)
    case True
    have "steady_frame K now f l c = (case lc of (l, c) \<Rightarrow> (case maybe_repair_gap (sl_gap_repairs l) c of ((c, repairs), ok) \<Rightarrow>
         steady_or_reconnect now (l\<lparr>sl_gap_repairs := repairs\<rparr>) (c, ok)))"
      unfolding steady_frame_def Let_def l0_def [symmetric] hd_def [symmetric] e lc_def using True by simp
    then show ?thesis using t r by (simp add: split_beta)
  next
    case False
    then show ?thesis using ticks_calm [OF k1 ticks_reconnect [OF d1]] by (simp add: steady_frame_def Let_def e)
  qed
qed


lemma ticks_ws_steady:
  assumes d: "done_up_to c \<le> T" and l: "ws_tickets T (WsSteady l)"
  shows "ticks T c (ws_steady K now l i c)"
proof (cases i)
  case (InFrame fo)
  then show ?thesis using ticks_steady_frame [OF d l] ticks_reconnect [OF d] by (cases fo) (simp_all add: ws_steady_def)
next
  case InNudge
  obtain c1 n b where p: "push_pending K (sl_in_flight l) c = ((c1, n), b)" by (metis prod.collapse)
  have "calm c c1" using calm_push_pending [of c K "sl_in_flight l"] p by simp
  then have "ticks T c (steady_or_reconnect now (l\<lparr>sl_in_flight := n\<rparr>) (c1, b))"
    using d l by (intro ticks_steady) (simp_all add: ws_tickets_def)
  then show ?thesis using InNudge by (simp add: ws_steady_def p)
next
  case (InPresence at payload)
  then show ?thesis using ticks_steady [OF calm_send d l] by (simp add: ws_steady_def)
next
  case InProbe
  obtain c1 n b where p: "send_probe now (sl_probe_deadline l) c = ((c1, n), b)" by (metis prod.collapse)
  have "calm c c1" using calm_probe [of c now "sl_probe_deadline l"] p by simp
  then have "ticks T c (steady_or_reconnect now (l\<lparr>sl_probe_deadline := n\<rparr>) (c1, b))"
    using d l by (intro ticks_steady) (simp_all add: ws_tickets_def)
  then show ?thesis using InProbe by (simp add: ws_steady_def p)
next
  case InQuietTimer
  obtain c1 n b where p: "send_probe now (sl_probe_deadline l) c = ((c1, n), b)" by (metis prod.collapse)
  have "calm c c1" using calm_probe [of c now "sl_probe_deadline l"] p by simp
  then have "ticks T c (steady_or_reconnect now (l\<lparr>sl_probe_deadline := n, sl_last_frame := now\<rparr>) (c1, b))"
    using d l by (intro ticks_steady) (simp_all add: ws_tickets_def)
  then show ?thesis using InQuietTimer by (simp add: ws_steady_def p)
next
  case InRetryTimer
  have "calm c (on_shared (\<lambda>sd. sd\<lparr>sd_retry_at := None\<rparr>) c)" by (simp add: calm_def reads_def)
  from ticks_steady [OF calm_trans [OF this calm_push_head] d l] InRetryTimer show ?thesis by (simp add: ws_steady_def)
qed (use ticks_reconnect [OF d] ticks_same [OF d l] in \<open>simp_all add: ws_steady_def\<close>)

lemma ticks_ws_step:
  assumes d: "done_up_to c \<le> T" and w: "ws_tickets T w"
  shows "ticks T c (ws_step K device now i (w, c))"
proof -
  note rec = ticks_reconnect [OF d]
  note same = ticks_same [OF d w]
  show ?thesis
  proof (cases "i = InShutdown")
    case True
    then show ?thesis using ticks_same [OF d, of WsStopped] by (simp add: ws_step_def ws_tickets_def)
  next
    case ns: False
    show ?thesis
    proof (cases w)
      case WsDown
      let ?c = "on_shared clear_rows_req (c\<lparr>cl_open := True\<rparr>)"
      have "calm c ?c" by (simp add: calm_def clear_rows_req_def reads_def)
      then have "calm c (snd (ws_open device c))" using calm_trans [OF _ calm_send] by (simp add: ws_open_def Let_def)
      then have "ticks T c (ws_open device c)"
        using done_le_calm [OF _ d] by (auto simp: ticks_def calm_def ws_open_def ws_tickets_def Let_def)
      then show ?thesis using same WsDown ns by (cases i) (simp_all add: ws_step_def)
    next
      case WsStopped
      then show ?thesis using same ns by (simp add: ws_step_def)
    next
      case WsHello
      show ?thesis
      proof (cases "\<exists>f. i = InFrame (Some f) \<and> wf_kind f = STATE")
        case True
        then obtain f where f: "i = InFrame (Some f)" "wf_kind f = STATE" by blast
        show ?thesis using rec WsHello f ticks_ws_state [OF d]
          by (cases "dec_state_header (wf_header f)") (simp_all add: ws_step_def)
      next
        case False
        then have "ws_step K device now i (w, c) = (w, c) \<or> ws_step K device now i (w, c) = ws_reconnect c"
          using WsHello ns by (auto simp: ws_step_def split: WsInput.splits option.splits)
        then show ?thesis using rec same by auto
      qed
    next
      case (WsCheckpoint st g t infl fs)
      have t: "t \<le> T" using w WsCheckpoint by (simp add: ws_tickets_def)
      show ?thesis
      proof (cases i)
        case (InFrame fo)
        then show ?thesis using rec ticks_same [OF d, of "WsCheckpoint st g t infl (fs @ [the fo])"] t WsCheckpoint
          by (cases fo) (simp_all add: ws_step_def ws_tickets_def)
      next
        case (InCheckpoint bo)
        show ?thesis
        proof (cases bo)
          case (Some b)
          obtain s r where p: "sk_apply_checkpoint K b (sh_checkpoint_seq st) (cl_sink c) = (s, r)" by fastforce
          define c1 where "c1 = c\<lparr>cl_sink := s\<rparr>"
          define c2 where "c2 = emit CeApplied (on_shared (\<lambda>sd. sd\<lparr>sd_cursor := max (sd_cursor sd) (sh_checkpoint_seq st)\<rparr>) c1)"
          have k: "calm c c1" "calm c c2" by (simp_all add: c1_def c2_def calm_def reads_def)
          have "ticks T c (ws_reconnect c1)" "ticks T c (ws_replay K now g t infl fs c2)"
            using ticks_calm [OF k(1) ticks_reconnect [OF done_le_calm [OF k(1) d]]]
              ticks_calm [OF k(2) ticks_ws_replay [OF done_le_calm [OF k(2) d] t]] by blast+
          then show ?thesis using WsCheckpoint InCheckpoint Some by (cases r) (simp_all add: ws_step_def p c1_def c2_def)
        qed (use rec WsCheckpoint InCheckpoint in \<open>simp add: ws_step_def\<close>)
      qed (use rec same WsCheckpoint ns in \<open>simp_all add: ws_step_def\<close>)
    next
      case (WsBackfill t infl)
      have t: "t \<le> T" using w WsBackfill by (simp add: ws_tickets_def)
      show ?thesis
      proof (cases i)
        case (InFrame fo)
        show ?thesis
        proof (cases fo)
          case (Some f)
          obtain c1 b where e: "handle_frame_with_replay K now f True c = (c1, b)" by fastforce
          have k: "calm c c1" using calm_handle [of c K now f True] e by simp
          note d1 = done_le_calm [OF k d]
          show ?thesis
            using rec ticks_backfilled [OF d t] ticks_calm [OF k ticks_reconnect [OF d1]] ticks_calm [OF k ticks_same [OF d1 w]]
              WsBackfill InFrame Some
            by (cases b; cases "dec_rows_done_header (wf_header f)") (simp_all add: ws_step_def e)
        qed (use rec WsBackfill InFrame in \<open>simp add: ws_step_def\<close>)
      qed (use rec same WsBackfill ns in \<open>simp_all add: ws_step_def\<close>)
    next
      case (WsSteady l)
      then show ?thesis using ticks_ws_steady [OF d] w ns by (simp add: ws_step_def)
    qed
  qed
qed

section \<open>The HTTPS cycle\<close>

text \<open>A pull starts when the cycle comes to wait for rows.\<close>

definition pull_starts :: "PullPhase \<Rightarrow> PullPhase \<Rightarrow> bool" where
  "pull_starts p p' \<longleftrightarrow> (case p' of PullRows l \<Rightarrow> p' \<noteq> p | _ \<Rightarrow> False)"

definition pull_ticks :: "nat \<Rightarrow> PullPhase \<times> 's Client \<Rightarrow> PullPhase \<times> 's Client \<Rightarrow> bool" where
  "pull_ticks T pc r \<longleftrightarrow> asked (snd r) = asked (snd pc) \<and> reads (snd r) = reads (snd pc) \<and> done_up_to (snd r) \<le> T \<and>
     (\<not> pull_starts (fst pc) (fst r) \<or> T = asked (snd pc) \<longrightarrow> pull_tickets T (fst r))"

text \<open>Nothing in the cycle writes to the socket.\<close>

lemma pull_ack_same: "asked (pull_ack K v c) = asked c" "done_up_to (pull_ack K v c) = done_up_to c" "cl_sent (pull_ack K v c) = cl_sent c"
  by (simp_all add: pull_ack_def Let_def retire_def split: option.split prod.split)

lemma ensure_same:
  "asked (fst (ensure_durable K p c)) = asked c" "done_up_to (fst (ensure_durable K p c)) = done_up_to c"
  "cl_sent (fst (ensure_durable K p c)) = cl_sent c"
  by (simp_all add: ensure_durable_def split: option.split prod.split bool.split)

lemma amnesty_same:
  "asked (apply_cursor_amnesty K st c) = asked c" "done_up_to (apply_cursor_amnesty K st c) = done_up_to c"
  "cl_sent (apply_cursor_amnesty K st c) = cl_sent c"
  by (simp_all add: apply_cursor_amnesty_def Let_def)

lemma row_same:
  "asked (apply_remote_row K b q r c) = asked c" "done_up_to (apply_remote_row K b q r c) = done_up_to c"
  "cl_sent (apply_remote_row K b q r c) = cl_sent c"
  by (simp_all add: apply_remote_row_def propose_row_def flag_gap_def split: prod.split RowImportOutcome.split)

lemma pull_rows_ticks:
  "asked c' = asked c \<Longrightarrow> cl_sent c' = cl_sent c \<Longrightarrow> done_up_to c' \<le> T \<Longrightarrow> \<forall>l. p \<noteq> PullRows l \<Longrightarrow> pull_ticks T (p, c) (pull_rows c')"
  by (auto simp: pull_ticks_def pull_rows_def Let_def reads_def pull_starts_def pull_tickets_def)

lemma pull_push_ticks:
  assumes "asked c' = asked c" "cl_sent c' = cl_sent c" "done_up_to c' \<le> T" "\<forall>l. p \<noteq> PullRows l"
  shows "pull_ticks T (p, c) (pull_push K batches c')"
proof (cases batches)
  case (Cons q qs)
  obtain c1 b where e: "ensure_durable K q c' = (c1, b)" by fastforce
  have "asked c1 = asked c" "cl_sent c1 = cl_sent c" "done_up_to c1 \<le> T"
    using ensure_same [of K q c'] e assms(1-3) by simp_all
  then show ?thesis using pull_rows_ticks [OF _ _ _ assms(4)]
    by (cases b) (simp_all add: pull_push_def Cons e pull_ticks_def reads_def pull_tickets_def)
qed (use pull_rows_ticks [OF assms] in \<open>simp add: pull_push_def\<close>)

lemma pull_ticks_to:
  "asked c' = asked c \<Longrightarrow> cl_sent c' = cl_sent c \<Longrightarrow> done_up_to c' \<le> T \<Longrightarrow> pull_tickets T p' \<Longrightarrow> pull_ticks T (p, c) (p', c')"
  by (simp add: pull_ticks_def reads_def)

lemma pull_state_ticks:
  assumes "done_up_to c \<le> T" "pl_ticket l \<le> T"
  shows "pull_ticks T (p, c) (pull_state K l st frontier rows c)"
  using assms
  by (auto simp: pull_state_def Let_def amnesty_same pull_ticks_def reads_def pull_tickets_def pull_cursor_def
      clear_needs_checkpoint_def split: CatchUpPlan.split)

lemma pull_frame_ticks:
  assumes "done_up_to c \<le> T" "pl_ticket l \<le> T"
  shows "pull_ticks T (p, c) (case pull_frame K l f c of (l, c) \<Rightarrow> (PullApply l fs, c))"
  using assms
  by (auto simp: pull_frame_def Let_def row_same pull_ticks_def reads_def pull_tickets_def pull_done_def
      split: option.split)

lemma pull_step_ticks:
  assumes d: "done_up_to c \<le> T" and p: "pull_tickets T p"
  shows "pull_ticks T (p, c) (pull_step K i (p, c))"
proof -
  have same: "pull_ticks T (p, c) (p, c)" using d p by (simp add: pull_ticks_def)
  have idle: "pull_ticks T (p, c) (PullIdle, c)" using d by (simp add: pull_ticks_def pull_tickets_def)
  show ?thesis
  proof (cases p)
    case PullIdle
    then show ?thesis using same pull_push_ticks [OF refl refl d] by (cases i) (simp_all add: pull_step_def)
  next
    case (PullPush batches)
    show ?thesis
    proof (cases i)
      case (PiPushed vo)
      have "pull_ticks T (p, c) (pull_push K (tl batches) (pull_ack K (the vo) c))"
        by (rule pull_push_ticks) (simp_all add: pull_ack_same d PullPush)
      then show ?thesis using PullPush PiPushed pull_rows_ticks [OF refl refl d, of p] by (cases vo) (simp_all add: pull_step_def)
    qed (use same PullPush in \<open>simp_all add: pull_step_def\<close>)
  next
    case (PullRows l)
    have l: "pl_ticket l \<le> T" using p PullRows by (simp add: pull_tickets_def)
    show ?thesis
    proof (cases i)
      case (PiBody fo)
      show ?thesis
      proof (cases fo)
        case None
        then show ?thesis using PullRows PiBody d by (simp add: pull_step_def pull_ticks_to pull_tickets_def)
      next
        case (Some frames)
        have ap: "pull_ticks T (p, c) (PullApply l rows, c)" for rows using d l by (simp add: pull_ticks_to pull_tickets_def)
        have "pull_ticks T (p, c) (pull_body K l frames c)"
          using idle ap pull_state_ticks [OF d l] by (simp add: pull_body_def split: list.split option.split)
        then show ?thesis using PullRows PiBody Some by (simp add: pull_step_def)
      qed
    qed (use same PullRows in \<open>simp_all add: pull_step_def\<close>)
  next
    case (PullCheckpoint l st after g rows)
    have l: "pl_ticket l \<le> T" using p PullCheckpoint by (simp add: pull_tickets_def)
    show ?thesis
    proof (cases i)
      case (PiCheckpoint bo)
      show ?thesis
      proof (cases bo)
        case (Some b)
        obtain s r where q: "sk_apply_checkpoint K b (sh_checkpoint_seq st) (cl_sink c) = (s, r)" by fastforce
        show ?thesis using PullCheckpoint PiCheckpoint Some d l
          by (cases r) (simp_all add: pull_step_def q pull_ticks_to pull_tickets_def pull_cursor_def clear_needs_checkpoint_def)
      qed (use idle PullCheckpoint PiCheckpoint in \<open>simp add: pull_step_def\<close>)
    qed (use same PullCheckpoint in \<open>simp_all add: pull_step_def\<close>)
  next
    case (PullApply l rows)
    have l: "pl_ticket l \<le> T" using p PullApply by (simp add: pull_tickets_def)
    show ?thesis
    proof (cases i)
      case PiNext
      have "pull_ticks T (p, c) (PullIdle, if pl_applied l then emit CeApplied c else c)"
        using d by (simp add: pull_ticks_to pull_tickets_def)
      then show ?thesis using PullApply PiNext pull_frame_ticks [OF d l] by (cases rows) (simp_all add: pull_step_def)
    qed (use same PullApply in \<open>simp_all add: pull_step_def\<close>)
  qed
qed


section \<open>The whole client\<close>

definition tickets_ok :: "nat \<Rightarrow> 'd ChatRun \<Rightarrow> bool" where
  "tickets_ok T x \<longleftrightarrow> done_up_to (cr_client x) \<le> T \<and> ws_tickets T (cr_ws x) \<and> pull_tickets T (cr_pull x)"

text \<open>A step that starts no read: no rows request is sent, and no pull starts.\<close>

definition quiet :: "'d ChatRun \<Rightarrow> 'd ChatRun \<Rightarrow> bool" where
  "quiet x y \<longleftrightarrow> reads (cr_client y) \<le> reads (cr_client x) \<and> \<not> pull_starts (cr_pull x) (cr_pull y)"

definition quiet_step ::
  "('d, 'v) LoroApi \<Rightarrow> ('d \<Rightarrow> nat \<Rightarrow> bool) \<Rightarrow> (bytes \<Rightarrow> nat \<Rightarrow> bool) \<Rightarrow> Room \<Rightarrow> string \<Rightarrow> string \<Rightarrow> 'd ChatRun \<Rightarrow> 'd ChatRun \<Rightarrow> bool" where
  "quiet_step L has snap R chat device x y \<longleftrightarrow> chat_step L has snap R chat device x y \<and> quiet x y"

lemma ws_tickets_mono: "ws_tickets T w \<Longrightarrow> T \<le> T' \<Longrightarrow> ws_tickets T' w"
  by (auto simp: ws_tickets_def split: WsPhase.splits option.splits)

lemma pull_tickets_mono: "pull_tickets T p \<Longrightarrow> T \<le> T' \<Longrightarrow> pull_tickets T' p"
  by (auto simp: pull_tickets_def split: PullPhase.splits)

lemma tickets_ok_mono: "tickets_ok T x \<Longrightarrow> T \<le> T' \<Longrightarrow> tickets_ok T' x"
  using ws_tickets_mono pull_tickets_mono by (fastforce simp: tickets_ok_def)

lemma tickets_ok_client:
  "tickets_ok T x \<Longrightarrow> done_up_to (f (cr_client x)) = done_up_to (cr_client x) \<Longrightarrow> tickets_ok T (on_client f x)"
  by (simp add: tickets_ok_def)

lemma opened_fresh:
  assumes "opened L chat transport store d cursor = Some c" shows "asked c = 0" "done_up_to c = 0"
  using assms by (auto simp: opened_def connect_client_def initial_shared_def split: prod.splits option.splits)

lemma tickets_ok_started: "opened L chat transport store d cursor = Some c \<Longrightarrow> tickets_ok T (started D c)"
  using opened_fresh [of L chat transport store d cursor c]
  by (simp add: tickets_ok_def started_def ws_tickets_def pull_tickets_def)

lemma tickets_ok_step:
  "chat_step L has snap R chat device x y \<Longrightarrow> tickets_ok T x \<Longrightarrow> quiet x y \<or> T = asked (cr_client x) \<Longrightarrow> tickets_ok T y"
proof (induction rule: chat_step.induct)
  case (csWs x i now)
  obtain w c where p: "ws_step (engine_sink L chat) device now i (cr_ws x, cr_client x) = (w, c)" by fastforce
  have "ticks T (cr_client x) (w, c)"
    using ticks_ws_step [of "cr_client x" T "cr_ws x" "engine_sink L chat" device now i] csWs.prems(1) p
    by (simp add: tickets_ok_def)
  then show ?case using csWs.prems by (auto simp: ws_moves_def p tickets_ok_def ticks_def quiet_def)
next
  case (csPull i x)
  obtain q c where p: "pull_step (engine_sink L chat) i (cr_pull x, cr_client x) = (q, c)" by fastforce
  have "pull_ticks T (cr_pull x, cr_client x) (q, c)"
    using pull_step_ticks [of "cr_client x" T "cr_pull x" "engine_sink L chat" i] csPull.prems(1) p
    by (simp add: tickets_ok_def)
  then show ?case using csPull.prems by (auto simp: pull_moves_def p tickets_ok_def pull_ticks_def quiet_def)
next
  case (csEnqueue b bytes x)
  then show ?case using calm_enqueue [of "cr_client x" "engine_sink L chat" b bytes] by (simp add: tickets_ok_def calm_def)
next
  case (csRestart x d cursor transport c)
  show ?case by (rule tickets_ok_started [OF csRestart.hyps(2)])
qed (simp_all add: tickets_ok_def probe_room_def request_catch_up_def note_checkpoint_def)

lemma asked_grows:
  "chat_step L has snap R chat device x y \<Longrightarrow> asked (cr_client x) \<le> asked (cr_client y) \<or> tickets_ok 0 y"
proof (induction rule: chat_step.induct)
  case (csWs x i now)
  have "ticks T (cr_client x) (ws_step (engine_sink L chat) device now i (cr_ws x, cr_client x))"
    if "done_up_to (cr_client x) \<le> T" "ws_tickets T (cr_ws x)" for T using ticks_ws_step [OF that] .
  moreover have "\<exists>T. done_up_to (cr_client x) \<le> T \<and> ws_tickets T (cr_ws x)"
  proof (cases "cr_ws x")
    case (WsCheckpoint st g t infl fs)
    then show ?thesis by (intro exI [of _ "max (done_up_to (cr_client x)) t"]) (simp add: ws_tickets_def)
  next
    case (WsBackfill t infl)
    then show ?thesis by (intro exI [of _ "max (done_up_to (cr_client x)) t"]) (simp add: ws_tickets_def)
  next
    case (WsSteady l)
    then show ?thesis
      by (intro exI [of _ "max (done_up_to (cr_client x)) (case sl_refresh_in_flight l of None \<Rightarrow> 0 | Some (t, _) \<Rightarrow> t)"])
        (simp add: ws_tickets_def split: option.split)
  qed (auto simp: ws_tickets_def)
  ultimately show ?case by (auto simp: ws_moves_def ticks_def split_beta)
next
  case (csPull i x)
  have "pull_ticks T (cr_pull x, cr_client x) (pull_step (engine_sink L chat) i (cr_pull x, cr_client x))"
    if "done_up_to (cr_client x) \<le> T" "pull_tickets T (cr_pull x)" for T using pull_step_ticks [OF that] .
  moreover have "\<exists>T. done_up_to (cr_client x) \<le> T \<and> pull_tickets T (cr_pull x)"
    by (intro exI [of _ "max (done_up_to (cr_client x)) (case cr_pull x of PullRows l \<Rightarrow> pl_ticket l
        | PullCheckpoint l _ _ _ _ \<Rightarrow> pl_ticket l | PullApply l _ \<Rightarrow> pl_ticket l | _ \<Rightarrow> 0)"])
      (simp add: pull_tickets_def split: PullPhase.split)
  ultimately show ?case by (auto simp: pull_moves_def pull_ticks_def split_beta)
next
  case (csEnqueue b bytes x)
  then show ?case using calm_enqueue [of "cr_client x" "engine_sink L chat" b bytes] by (simp add: calm_def)
next
  case (csRestart x d cursor transport c)
  show ?case by (rule disjI2, rule tickets_ok_started [OF csRestart.hyps(2)])
qed (simp_all add: probe_room_def request_catch_up_def note_checkpoint_def)

lemma tickets_ok_run:
  "(chat_step L has snap R chat device)\<^sup>*\<^sup>* x y \<Longrightarrow> tickets_ok (asked (cr_client x)) x \<Longrightarrow> tickets_ok (asked (cr_client y)) y"
proof (induction rule: rtranclp_induct)
  case (step y z)
  have "tickets_ok (asked (cr_client y)) z" using tickets_ok_step [OF step.hyps(2)] step.IH step.prems by blast
  then show ?case using asked_grows [OF step.hyps(2)] tickets_ok_mono by blast
qed

lemma tickets_ok_quiet:
  "(quiet_step L has snap R chat device)\<^sup>*\<^sup>* x y \<Longrightarrow> tickets_ok T x \<Longrightarrow> tickets_ok T y"
proof (induction rule: rtranclp_induct)
  case (step y z)
  have "chat_step L has snap R chat device y z" "quiet y z" using step.hyps(2) by (simp_all add: quiet_step_def)
  then show ?case using tickets_ok_step [OF _ step.IH [OF step.prems]] by blast
qed



end
