(* ===== verification/Chat_Outbox.thy ===== *)
theory Chat_Outbox
  imports Chat_Safe
begin

text \<open>
  The outbox of a chat client: a batch the room has not answered stays stored and stays pending,
  through every step of the transports and across restarts.
\<close>

section \<open>A batch in the store and in the client\<close>

definition batch_row :: "string \<Rightarrow> string \<Rightarrow> bytes \<Rightarrow> OutboxRow" where
  "batch_row chat b bytes = \<lparr>ox_doc_id = chat, ox_batch_id = b, ox_bytes = bytes, ox_needs_checkpoint = False\<rparr>"

definition stored_once :: "string \<Rightarrow> string \<Rightarrow> bytes \<Rightarrow> DocsStore \<Rightarrow> bool" where
  "stored_once chat b bytes st \<longleftrightarrow> filter (\<lambda>r. ox_batch_id r = b) (outbox_of chat st) = [batch_row chat b bytes]"

definition is_pending :: "string \<Rightarrow> bytes \<Rightarrow> PendingPush list \<Rightarrow> bool" where
  "is_pending b bytes ps \<longleftrightarrow> list_ex (\<lambda>p. pp_batch_id p = b) ps \<and> list_all (\<lambda>p. pp_batch_id p = b \<longrightarrow> pp_bytes p = bytes) ps"

definition batch_kept :: "string \<Rightarrow> string \<Rightarrow> bytes \<Rightarrow> 'd EngineSink Client \<Rightarrow> bool" where
  "batch_kept chat b bytes c \<longleftrightarrow> stored_once chat b bytes (es_store (cl_sink c)) \<and> is_pending b bytes (sd_pending (cl_shared c))"

definition spares :: "string \<Rightarrow> string \<Rightarrow> bytes \<Rightarrow> 'd EngineSink Client \<Rightarrow> 'd EngineSink Client \<Rightarrow> bool" where
  "spares chat b bytes c c' \<longleftrightarrow> batch_kept chat b bytes c \<longrightarrow> batch_kept chat b bytes c'"

lemma spares_refl [simp]: "spares chat b bytes c c"
  by (simp add: spares_def)

lemma spares_trans: "spares chat b bytes x y \<Longrightarrow> spares chat b bytes y z \<Longrightarrow> spares chat b bytes x z"
  by (simp add: spares_def)

lemma spares_same:
  "es_store (cl_sink c') = es_store (cl_sink c) \<Longrightarrow> sd_pending (cl_shared c') = sd_pending (cl_shared c) \<Longrightarrow> spares chat b bytes c c'"
  by (simp add: spares_def batch_kept_def)

section \<open>Store calls\<close>

lemma stored_enqueue:
  assumes s: "stored_once chat b bytes st" shows "stored_once chat b bytes (fst (enqueue_chat_update chat i x st))"
proof (cases "i = b")
  case True
  have "batch_row chat b bytes \<in> set (filter (\<lambda>r. ox_batch_id r = b) (outbox_of chat st))" using s by (simp add: stored_once_def)
  then have "\<exists>r \<in> set (ds_outbox st). ox_batch_id r = b" by (auto simp: outbox_of_def)
  then show ?thesis using s True by (simp add: enqueue_chat_update_def stored_once_def outbox_of_def)
qed (use s in \<open>simp add: enqueue_chat_update_def stored_once_def outbox_of_def\<close>)

lemma stored_acknowledge:
  assumes "stored_once chat b bytes st" "i \<noteq> b" shows "stored_once chat b bytes (fst (acknowledge_chat_update chat i st))"
proof -
  have "filter (\<lambda>r. ox_batch_id r = b) (filter (\<lambda>r. ox_doc_id r = chat) (filter (\<lambda>r. \<not> (ox_doc_id r = chat \<and> ox_batch_id r = i)) rs)) =
      filter (\<lambda>r. ox_batch_id r = b) (filter (\<lambda>r. ox_doc_id r = chat) rs)" for rs
    using assms(2) by (induction rs) auto
  from this [of "ds_outbox st"] show ?thesis using assms by (simp add: acknowledge_chat_update_def sql_def stored_once_def outbox_of_def)
qed

lemma stored_reject:
  assumes "stored_once chat b bytes st" "i \<noteq> b" shows "stored_once chat b bytes (fst (reject_chat_update chat i st))"
proof -
  have "filter (\<lambda>r. ox_batch_id r = b) (filter (\<lambda>r. ox_doc_id r = chat)
        (map (\<lambda>r. if ox_doc_id r = chat \<and> ox_batch_id r = i then r\<lparr>ox_needs_checkpoint := True\<rparr> else r) rs)) =
      filter (\<lambda>r. ox_batch_id r = b) (filter (\<lambda>r. ox_doc_id r = chat) rs)" for rs
    using assms(2) by (induction rs) auto
  from this [of "ds_outbox st"] show ?thesis using assms by (simp add: reject_chat_update_def sql_def stored_once_def outbox_of_def)
qed

lemma pending_retire: "is_pending b bytes ps \<Longrightarrow> i \<noteq> b \<Longrightarrow> is_pending b bytes (filter (\<lambda>p. pp_batch_id p \<noteq> i) ps)"
  by (auto simp: is_pending_def list_ex_iff list_all_iff)

lemma mark_durable_ids: "map (\<lambda>p. (pp_batch_id p, pp_bytes p)) (mark_durable i ps) = map (\<lambda>p. (pp_batch_id p, pp_bytes p)) ps"
  by (induction i ps rule: mark_durable.induct) simp_all

lemma is_pending_ids: "is_pending b bytes ps \<longleftrightarrow> list_ex (\<lambda>(i, x). i = b) (map (\<lambda>p. (pp_batch_id p, pp_bytes p)) ps) \<and>
    list_all (\<lambda>(i, x). i = b \<longrightarrow> x = bytes) (map (\<lambda>p. (pp_batch_id p, pp_bytes p)) ps)"
  by (auto simp: is_pending_def list_ex_iff list_all_iff)

lemma pending_mark: "is_pending b bytes (mark_durable i ps) = is_pending b bytes ps"
  by (simp only: is_pending_ids mark_durable_ids)

section \<open>One transition\<close>

text \<open>The engine's sink, for a batch the room never answers and small enough to be sent.\<close>

lemma spares_send: "spares chat b bytes c (fst (send_frame f c))"
  by (rule spares_same) (simp_all add: send_frame_def)

lemma sink_store_same [simp]:
  "es_store (sk_reset_cursor (engine_sink L chat) n s) = es_store s"
  "es_store (sk_advance_cursor (engine_sink L chat) n s) = es_store s"
  "es_store (fst (sk_apply_row (engine_sink L chat) x n s)) = es_store s"
  "es_store (fst (sk_apply_replay_row (engine_sink L chat) x n s)) = es_store s"
  "es_store (fst (sk_apply_checkpoint (engine_sink L chat) x n s)) = es_store s"
  by (simp_all add: engine_sink_def persist_reset_cursor_def Let_def dirty_def persist_with_cursor_def import_row_def
      import_checkpoint_def split: option.split prod.split bool.split)

lemma spares_ensure: "spares chat b bytes c (fst (ensure_durable (engine_sink L chat) p c))"
proof (cases "pp_durable p \<or> List.find (\<lambda>q. pp_batch_id q = pp_batch_id p) (sd_pending (cl_shared c)) = None")
  case True
  then have "fst (ensure_durable (engine_sink L chat) p c) = c" by (auto simp: ensure_durable_def)
  then show ?thesis by simp
next
  case False
  then obtain q where q: "List.find (\<lambda>q. pp_batch_id q = pp_batch_id p) (sd_pending (cl_shared c)) = Some q" "\<not> pp_durable p" by auto
  obtain st r where s: "enqueue_chat_update chat (pp_batch_id q) (pp_bytes q) (es_store (cl_sink c)) = (st, r)" by fastforce
  have "stored_once chat b bytes (es_store (cl_sink c)) \<Longrightarrow> stored_once chat b bytes st"
    using stored_enqueue [of chat b bytes "es_store (cl_sink c)" "pp_batch_id q" "pp_bytes q"] s by simp
  then show ?thesis
    by (cases r) (simp_all add: ensure_durable_def q spares_def batch_kept_def engine_sink_def on_store_def s pending_mark)
qed

lemma spares_push_batches: "spares chat b bytes c (fst (fst (push_batches (engine_sink L chat) ps infl c)))"
proof (induction ps arbitrary: infl c)
  case (Cons p ps)
  let ?K = "engine_sink L chat"
  obtain c1 b1 where e: "ensure_durable ?K p c = (c1, b1)" by fastforce
  obtain c2 b2 where s: "send_frame (OutPush (pp_batch_id p) (pp_bytes p)) c1 = (c2, b2)" by fastforce
  have "spares chat b bytes c c1" using spares_ensure [of chat b bytes c L p] e by simp
  moreover have "spares chat b bytes c1 c2" using spares_send [of chat b bytes c1 "OutPush (pp_batch_id p) (pp_bytes p)"] s by simp
  moreover note Cons.IH [of c2 "infl @ [pp_batch_id p]"]
  ultimately show ?case by (cases b1; cases b2) (auto simp: e s intro: spares_trans)
qed simp

lemma spares_push_pending: "spares chat b bytes c (fst (fst (push_pending (engine_sink L chat) infl c)))"
  by (simp add: push_pending_def Let_def spares_push_batches)

lemma spares_push_head: "spares chat b bytes c (fst (push_head (engine_sink L chat) c))"
proof (cases "sd_pending (cl_shared c)")
  case (Cons p ps)
  obtain c1 b1 where e: "ensure_durable (engine_sink L chat) p c = (c1, b1)" by fastforce
  have "spares chat b bytes c c1" using spares_ensure [of chat b bytes c L p] e by simp
  then show ?thesis using spares_trans [OF _ spares_send] by (cases b1) (simp_all add: push_head_def Cons e)
qed (simp add: push_head_def)

lemma spares_repair: "spares chat b bytes c (fst (fst (maybe_repair_gap n c)))"
  by (rule spares_same) (simp_all add: maybe_repair_gap_def Let_def send_frame_def)

lemma spares_probe: "spares chat b bytes c (fst (fst (send_probe now d c)))"
  by (rule spares_same) (simp_all add: send_probe_def send_frame_def)

lemma spares_amnesty: "spares chat b bytes c (apply_cursor_amnesty (engine_sink L chat) st c)"
  by (rule spares_same) (simp_all add: apply_cursor_amnesty_def Let_def)

lemma spares_row: "spares chat b bytes c (apply_remote_row (engine_sink L chat) x seq replay c)"
proof -
  let ?f = "if replay then sk_apply_replay_row (engine_sink L chat) else sk_apply_row (engine_sink L chat)"
  obtain sd cur where p: "propose_row seq (cl_shared c) = (sd, cur)" by fastforce
  obtain s r where f: "?f x cur (cl_sink c) = (s, r)" by fastforce
  have "es_store (fst (?f x cur (cl_sink c))) = es_store (cl_sink c)" by simp
  moreover have "sd_pending sd = sd_pending (cl_shared c)" using p by (auto simp: propose_row_def flag_gap_def split: if_splits)
  ultimately show ?thesis by (cases r) (auto intro!: spares_same simp: apply_remote_row_def p f)
qed

lemma spares_on_row: "spares chat b bytes c (fst (on_row (engine_sink L chat) f replay c))"
proof (cases "dec_row_header (wf_header f)")
  case (Some row)
  have "spares chat b bytes c (emit CeApplied (apply_remote_row (engine_sink L chat) x q r c))" for x q r
    by (rule spares_trans [OF spares_row spares_same]) simp_all
  then show ?thesis by (simp add: on_row_def Some)
qed (simp add: on_row_def)

lemma spares_ack:
  assumes i: "i \<noteq> b"
    and s: "es_store (cl_sink c') = fst (acknowledge_chat_update chat i (es_store (cl_sink c)))"
    and p: "sd_pending (cl_shared c') = sd_pending (cl_shared c) \<or> sd_pending (cl_shared c') = filter (\<lambda>p. pp_batch_id p \<noteq> i) (sd_pending (cl_shared c))"
  shows "spares chat b bytes c c'"
  using p stored_acknowledge [OF _ i] pending_retire [OF _ i] by (auto simp: spares_def batch_kept_def s)

lemma spares_on_ack:
  assumes R: "\<not> rm_answered R b" and a: "wf_kind f = ACK" "answer_true R f"
  shows "spares chat b bytes c (fst (on_ack (engine_sink L chat) now f c))"
proof (cases "dec_ack_header (wf_header f)")
  case (Some ack)
  have "ah_batch_id ack \<noteq> b" using R a Some by (auto simp: answer_true_def)
  then show ?thesis
    by (rule spares_ack) (simp_all add: on_ack_def Some engine_sink_def on_store_def split_beta Let_def persist_with_cursor_def
        quota_drain_def ack_cursor_def flag_gap_def retire_def)
qed (simp add: on_ack_def)

lemma spares_on_error:
  assumes R: "\<not> rm_answered R b" and a: "wf_kind f = ERROR_FRAME" "answer_true R f"
  shows "spares chat b bytes c (fst (on_error (engine_sink L chat) now f c))"
proof (cases "as_str (json_index (wf_header f) ''batchId'')")
  case None
  then show ?thesis by (intro spares_same) (simp_all add: on_error_def Let_def)
next
  case (Some i)
  have i: "i \<noteq> b" using R a Some by (auto simp: answer_true_def)
  let ?c = "fst (on_error (engine_sink L chat) now f c)"
  have "(es_store (cl_sink ?c) = es_store (cl_sink c) \<or> es_store (cl_sink ?c) = fst (reject_chat_update chat i (es_store (cl_sink c)))) \<and>
      (sd_pending (cl_shared ?c) = sd_pending (cl_shared c) \<or> sd_pending (cl_shared ?c) = filter (\<lambda>p. pp_batch_id p \<noteq> i) (sd_pending (cl_shared c)))"
  proof -
    obtain s g where p: "sk_reject_update (engine_sink L chat) i (cl_sink c) = (s, g)" by fastforce
    have "es_store s = fst (reject_chat_update chat i (es_store (cl_sink c)))"
      using p by (auto simp: engine_sink_def on_store_def split: prod.splits)
    then show ?thesis by (cases g) (simp_all add: on_error_def Let_def Some p retire_def)
  qed
  then show ?thesis using stored_reject [OF _ i] pending_retire [OF _ i] by (auto simp: spares_def batch_kept_def)
qed

lemma spares_handle:
  assumes R: "\<not> rm_answered R b" and f: "answer_true R f"
  shows "spares chat b bytes c (fst (handle_frame_with_replay (engine_sink L chat) now f replay c))"
  unfolding handle_frame_with_replay_def Let_def
  by (simp add: spares_on_row spares_on_ack [OF R _ f] spares_on_error [OF R _ f] spares_same split: option.split)

lemma spares_enqueue:
  assumes n: "names_one chat i x c" and len: "length bytes \<le> MAX_PUSH_BYTES"
  shows "spares chat b bytes c (enqueue_batch (engine_sink L chat) i x c)"
proof -
  obtain st r where s: "enqueue_chat_update chat i x (es_store (cl_sink c)) = (st, r)" by fastforce
  have "batch_kept chat b bytes (enqueue_batch (engine_sink L chat) i x c)" if k: "batch_kept chat b bytes c"
  proof -
    have st: "stored_once chat b bytes st"
      using stored_enqueue [of chat b bytes "es_store (cl_sink c)" i x] s k by (simp add: batch_kept_def)
    have p: "is_pending b bytes (sd_pending (cl_shared c))" using k by (simp add: batch_kept_def)
    obtain q where "q \<in> set (sd_pending (cl_shared c))" "pp_batch_id q = b" "pp_bytes q = bytes"
      using p by (auto simp: is_pending_def list_ex_iff list_all_iff)
    then have x: "i = b \<Longrightarrow> x = bytes" using n by (auto simp: names_one_def list_all_iff)
    show ?thesis
    proof (cases "length x > MAX_PUSH_BYTES")
      case True
      then have "i \<noteq> b" using x len by auto
      then show ?thesis using True st p stored_reject [of chat b bytes st i]
        by (simp add: enqueue_batch_def engine_sink_def on_store_def s Let_def batch_kept_def split_beta)
    next
      case False
      have "is_pending b bytes (sd_pending (cl_shared c) @ [\<lparr>pp_batch_id = i, pp_bytes = x, pp_durable = r\<rparr>])"
        using p x by (simp add: is_pending_def)
      then show ?thesis using False st p
        by (simp add: enqueue_batch_def engine_sink_def on_store_def s Let_def batch_kept_def)
    qed
  qed
  then show ?thesis by (simp add: spares_def)
qed


section \<open>The session and the cycle\<close>

definition buffer_ok :: "Room \<Rightarrow> WsPhase \<Rightarrow> bool" where
  "buffer_ok R w \<longleftrightarrow> (case w of WsCheckpoint _ _ _ _ fs \<Rightarrow> \<forall>f \<in> set fs. answer_true R f | _ \<Rightarrow> True)"

definition ws_spares :: "Room \<Rightarrow> string \<Rightarrow> string \<Rightarrow> bytes \<Rightarrow> 'd EngineSink Client \<Rightarrow> WsPhase \<times> 'd EngineSink Client \<Rightarrow> bool" where
  "ws_spares R chat b bytes c r \<longleftrightarrow> spares chat b bytes c (snd r) \<and> buffer_ok R (fst r)"

lemma ws_spares_after: "spares chat b bytes c c' \<Longrightarrow> ws_spares R chat b bytes c' r \<Longrightarrow> ws_spares R chat b bytes c r"
  using spares_trans by (auto simp: ws_spares_def)

lemma ws_spares_same: "buffer_ok R w \<Longrightarrow> ws_spares R chat b bytes c (w, c)"
  by (simp add: ws_spares_def)

lemma ws_spares_reconnect: "ws_spares R chat b bytes c (ws_reconnect c)"
proof -
  have "spares chat b bytes c (snd (ws_reconnect c))" by (rule spares_same) (simp_all add: ws_reconnect_def Let_def)
  then show ?thesis by (simp add: ws_spares_def ws_reconnect_def Let_def buffer_ok_def)
qed

lemma ws_spares_steady:
  assumes "spares chat b bytes c (fst r)" shows "ws_spares R chat b bytes c (steady_or_reconnect now l r)"
proof -
  have top: "ws_spares R chat b bytes c (steady_top now l c)" for c :: "'a EngineSink Client"
  proof -
    have "spares chat b bytes c (snd (steady_top now l c))"
      by (rule spares_same) (simp_all add: steady_top_def Let_def send_frame_def ws_reconnect_def)
    then show ?thesis by (simp add: ws_spares_def steady_top_def Let_def send_frame_def ws_reconnect_def buffer_ok_def)
  qed
  show ?thesis
    using ws_spares_after [OF assms top] ws_spares_after [OF assms ws_spares_reconnect] by (simp add: steady_or_reconnect_def)
qed

lemma ws_spares_backfilled: "ws_spares R chat b bytes c (ws_backfilled now head t infl c)"
proof -
  let ?c0 = "c\<lparr>cl_resumed := True, cl_ready := False\<rparr>"
  define c1 where "c1 = (if \<not> sd_needs_checkpoint (cl_shared ?c0)
      then emit (CeCaughtUp head) (on_shared (\<lambda>sd. finish_ticket head t (sd\<lparr>sd_caught_up := True\<rparr>)) ?c0) else ?c0)"
  obtain c2 n ok2 where r: "maybe_repair_gap 0 c1 = ((c2, n), ok2)" by (metis prod.collapse)
  have "spares chat b bytes c c1" by (rule spares_same) (simp_all add: c1_def finish_ticket_def)
  moreover have "spares chat b bytes c1 c2" using spares_repair [of chat b bytes c1 0] r by simp
  ultimately have "spares chat b bytes c (fst (c2, ok2))" using spares_trans by auto
  then show ?thesis unfolding ws_backfilled_def Let_def c1_def [symmetric] r prod.case by (rule ws_spares_steady)
qed

lemma spares_replay:
  assumes R: "\<not> rm_answered R b"
  shows "\<forall>f \<in> set fs. answer_true R f \<Longrightarrow> spares chat b bytes c (fst (fst (replay_buffered (engine_sink L chat) now fs head c)))"
proof (induction fs arbitrary: head c)
  case (Cons f fs)
  let ?K = "engine_sink L chat"
  obtain c1 b1 where e: "handle_frame_with_replay ?K now f (head = None) c = (c1, b1)" by fastforce
  have f: "answer_true R f" "\<forall>f \<in> set fs. answer_true R f" using Cons.prems by simp_all
  have k: "spares chat b bytes c c1" using spares_handle [OF R f(1), of chat bytes c L now "head = None"] e by simp
  have 1: "spares chat b bytes c (fst (fst (replay_buffered ?K now fs hd c1)))" for hd using spares_trans [OF k Cons.IH [OF f(2)]] .
  have 2: "spares chat b bytes c (fst (fst (replay_buffered ?K now fs hd c)))" for hd using Cons.IH [OF f(2)] .
  show ?case using k 1 2 by (auto simp: e split: option.splits bool.splits)
qed simp

lemma ws_spares_replay:
  assumes R: "\<not> rm_answered R b" and fs: "\<forall>f \<in> set fs. answer_true R f"
  shows "ws_spares R chat b bytes c (ws_replay (engine_sink L chat) now g t infl fs c)"
proof -
  let ?c0 = "on_shared (clear_needs_checkpoint g) c"
  obtain c1 hd ok1 where r: "replay_buffered (engine_sink L chat) now fs None ?c0 = ((c1, hd), ok1)" by (metis prod.collapse)
  have "spares chat b bytes c ?c0" by (rule spares_same) (simp_all add: clear_needs_checkpoint_def)
  moreover have "spares chat b bytes ?c0 c1" using spares_replay [OF R fs, of chat bytes ?c0 L now None] r by simp
  ultimately have k: "spares chat b bytes c c1" by (rule spares_trans)
  have "ws_spares R chat b bytes c (WsBackfill t infl, c1)" using k by (simp add: ws_spares_def buffer_ok_def)
  then show ?thesis
    using ws_spares_after [OF k ws_spares_reconnect] ws_spares_after [OF k ws_spares_backfilled]
    by (cases ok1; cases hd) (simp_all add: ws_replay_def r)
qed

lemma ws_spares_state:
  assumes R: "\<not> rm_answered R b"
  shows "ws_spares R chat b bytes c (ws_state (engine_sink L chat) now st frontier c)"
proof -
  let ?K = "engine_sink L chat"
  define c1 where "c1 = on_shared (\<lambda>sd. clear_rows_req (sd\<lparr>sd_server := Some st\<rparr>)) c"
  define c2 where "c2 = (if sd_cursor (cl_shared c1) > sh_head_seq st
     then emit CeServerReset (on_flags (\<lambda>f. f\<lparr>fl_server_resets := fl_server_resets f + 1\<rparr>)
            (c1\<lparr>cl_sink := sk_reset_cursor ?K 0 (cl_sink c1)\<rparr>)) else c1)"
  define c3 where "c3 = apply_cursor_amnesty ?K st c2"
  define c4 where "c4 = emit CeConnected (on_flags (\<lambda>f. f\<lparr>fl_connected := True,
      fl_rejoins := (if cl_ready c3 then fl_rejoins f else fl_rejoins f + 1)\<rparr>) c3)"
  define repair where "repair = sd_needs_checkpoint (cl_shared c4)"
  define gen where "gen = sd_causal_gap_generation (cl_shared c4)"
  define plan where "plan = plan_catch_up (sd_cursor (cl_shared c4)) st
      (sh_checkpoint_size st = 0 \<or> (\<not> repair \<and> sk_contains_frontier ?K frontier (cl_sink c4)))"
  define c5 where "c5 = on_shared (\<lambda>sd. sd\<lparr>sd_cursor := plan_after plan\<rparr>) c4"
  define tk where "tk = sd_refresh_requested (cl_shared c5)"
  obtain c6 b6 where s6: "send_frame (OutRowsReq (plan_after plan) (cl_resumed c5 \<and> \<not> repair)) c5 = (c6, b6)" by fastforce
  obtain c7 infl b7 where s7: "push_pending ?K [] c6 = ((c7, infl), b7)" by (metis prod.collapse)
  have r: "ws_state ?K now st frontier c = (if \<not> b6 then ws_reconnect c6 else if \<not> b7 then ws_reconnect c7
      else case plan of CheckpointThenRows _ \<Rightarrow> (WsCheckpoint st gen tk infl [], c7)
        | RowsOnly _ \<Rightarrow> ws_replay ?K now gen tk infl [] c7)"
    unfolding ws_state_def Let_def c1_def [symmetric] c2_def [symmetric] c3_def [symmetric] c4_def [symmetric]
      repair_def [symmetric] gen_def [symmetric] plan_def [symmetric] c5_def [symmetric] tk_def [symmetric] s6
    by (cases b6; cases b7) (simp_all add: s7)
  have k1: "spares chat b bytes c c1" by (rule spares_same) (simp_all add: c1_def clear_rows_req_def)
  have k2: "spares chat b bytes c1 c2" by (rule spares_same) (simp_all add: c2_def)
  have k3: "spares chat b bytes c2 c3" by (simp add: c3_def spares_amnesty)
  have k5: "spares chat b bytes c3 c5" by (rule spares_same) (simp_all add: c4_def c5_def)
  have k6: "spares chat b bytes c5 c6" using spares_send [of chat b bytes c5] s6 by (metis fst_conv)
  have k67: "spares chat b bytes c6 c7" using spares_push_pending [of chat b bytes c6 L "[]"] s7 by simp
  have k: "spares chat b bytes c c6" "spares chat b bytes c c7" using k1 k2 k3 k5 k6 k67 spares_trans by blast+
  have "ws_spares R chat b bytes c (WsCheckpoint st gen tk infl [], c7)" using k(2) by (simp add: ws_spares_def buffer_ok_def)
  moreover have "ws_spares R chat b bytes c (ws_replay ?K now gen tk infl [] c7)"
    by (rule ws_spares_after [OF k(2) ws_spares_replay [OF R]]) simp
  ultimately show ?thesis
    using ws_spares_after [OF k(1) ws_spares_reconnect] ws_spares_after [OF k(2) ws_spares_reconnect]
    by (simp add: r split: CatchUpPlan.split)
qed

lemma ws_spares_steady_frame:
  assumes R: "\<not> rm_answered R b" and f: "answer_true R f"
  shows "ws_spares R chat b bytes c (steady_frame (engine_sink L chat) now f l c)"
proof -
  let ?K = "engine_sink L chat"
  obtain c1 b1 where e: "handle_frame ?K now f c = (c1, b1)" by fastforce
  have k1: "spares chat b bytes c c1" using spares_handle [OF R f, of chat bytes c L now False] e by (simp add: handle_frame_def)
  define l0 where "l0 = l\<lparr>sl_last_frame := now, sl_probe_deadline := None\<rparr>"
  define hd where "hd = (if wf_kind f = ROWS_DONE then dec_rows_done_header (wf_header f) else None)"
  define lc where "lc = (case (hd, sl_refresh_in_flight l0) of
      (Some h, Some (ticket, _)) \<Rightarrow> (l0\<lparr>sl_refresh_in_flight := None\<rparr>, on_shared (refreshed h ticket) c1) | _ \<Rightarrow> (l0, c1))"
  have k2: "spares chat b bytes c1 (snd lc)"
    by (rule spares_same) (auto simp: lc_def refreshed_def flag_gap_def split: option.split)
  obtain c3 n ok3 where r: "maybe_repair_gap (sl_gap_repairs (fst lc)) (snd lc) = ((c3, n), ok3)" by (metis prod.collapse)
  have "spares chat b bytes (snd lc) c3" using spares_repair [of chat b bytes "snd lc" "sl_gap_repairs (fst lc)"] r by simp
  from spares_trans [OF k1 spares_trans [OF k2 this]] have "spares chat b bytes c (fst (c3, ok3))" by simp
  from ws_spares_steady [OF this] have t: "ws_spares R chat b bytes c (steady_or_reconnect now ((fst lc)\<lparr>sl_gap_repairs := n\<rparr>) (c3, ok3))" .
  show ?thesis
  proof (cases b1)
    case True
    have "steady_frame ?K now f l c = (case lc of (l, c) \<Rightarrow> (case maybe_repair_gap (sl_gap_repairs l) c of ((c, repairs), ok) \<Rightarrow>
         steady_or_reconnect now (l\<lparr>sl_gap_repairs := repairs\<rparr>) (c, ok)))"
      unfolding steady_frame_def Let_def l0_def [symmetric] hd_def [symmetric] e lc_def using True by simp
    then show ?thesis using t r by (simp add: split_beta)
  next
    case False
    then show ?thesis using ws_spares_after [OF k1 ws_spares_reconnect] by (simp add: steady_frame_def Let_def e)
  qed
qed


lemma ws_spares_in_steady:
  assumes R: "\<not> rm_answered R b" and i: "\<And>f. i = InFrame (Some f) \<Longrightarrow> answer_true R f"
  shows "ws_spares R chat b bytes c (ws_steady (engine_sink L chat) now l i c)"
proof (cases i)
  case (InFrame fo)
  show ?thesis
  proof (cases fo)
    case (Some f)
    then show ?thesis using ws_spares_steady_frame [OF R i, of f] InFrame by (simp add: ws_steady_def)
  qed (simp add: ws_steady_def InFrame ws_spares_reconnect)
next
  case InNudge
  obtain c1 n ok1 where p: "push_pending (engine_sink L chat) (sl_in_flight l) c = ((c1, n), ok1)" by (metis prod.collapse)
  have "spares chat b bytes c c1" using spares_push_pending [of chat b bytes c L "sl_in_flight l"] p by simp
  then show ?thesis using InNudge by (simp add: ws_steady_def p ws_spares_steady)
next
  case (InPresence at payload)
  then show ?thesis by (simp add: ws_steady_def ws_spares_steady spares_send)
next
  case InProbe
  obtain c1 n ok1 where p: "send_probe now (sl_probe_deadline l) c = ((c1, n), ok1)" by (metis prod.collapse)
  have "spares chat b bytes c c1" using spares_probe [of chat b bytes c now "sl_probe_deadline l"] p by simp
  then show ?thesis using InProbe by (simp add: ws_steady_def p ws_spares_steady)
next
  case InQuietTimer
  obtain c1 n ok1 where p: "send_probe now (sl_probe_deadline l) c = ((c1, n), ok1)" by (metis prod.collapse)
  have "spares chat b bytes c c1" using spares_probe [of chat b bytes c now "sl_probe_deadline l"] p by simp
  then show ?thesis using InQuietTimer by (simp add: ws_steady_def p ws_spares_steady)
next
  case InRetryTimer
  let ?c = "on_shared (\<lambda>sd. sd\<lparr>sd_retry_at := None\<rparr>) c"
  have "spares chat b bytes c ?c" by (rule spares_same) simp_all
  from ws_spares_steady [OF spares_trans [OF this spares_push_head]] InRetryTimer show ?thesis by (simp add: ws_steady_def)
qed (simp_all add: ws_steady_def ws_spares_reconnect, simp_all add: ws_spares_def buffer_ok_def)

lemma ws_spares_step:
  assumes R: "\<not> rm_answered R b" and w: "buffer_ok R w" and i: "\<And>f. i = InFrame (Some f) \<Longrightarrow> answer_true R f"
  shows "ws_spares R chat b bytes c (ws_step (engine_sink L chat) device now i (w, c))"
proof -
  let ?K = "engine_sink L chat"
  note rec = ws_spares_reconnect [of R chat b bytes]
  note same = ws_spares_same [OF w, of chat b bytes c]
  show ?thesis
  proof (cases "i = InShutdown")
    case True
    then show ?thesis by (simp add: ws_step_def ws_spares_def buffer_ok_def)
  next
    case ns: False
    show ?thesis
    proof (cases w)
      case WsDown
      have "spares chat b bytes c (snd (ws_open device c))"
        by (rule spares_same) (simp_all add: ws_open_def Let_def send_frame_def clear_rows_req_def)
      then have "ws_spares R chat b bytes c (ws_open device c)" by (simp add: ws_spares_def ws_open_def Let_def buffer_ok_def)
      then show ?thesis using same WsDown ns by (cases i) (simp_all add: ws_step_def)
    next
      case WsStopped
      then show ?thesis using same ns by (simp add: ws_step_def)
    next
      case WsHello
      show ?thesis
      proof (cases "\<exists>f. i = InFrame (Some f) \<and> wf_kind f = STATE")
        case True
        then obtain f where f: "i = InFrame (Some f)" "wf_kind f = STATE" by blast
        show ?thesis using rec WsHello f ws_spares_state [OF R]
          by (cases "dec_state_header (wf_header f)") (simp_all add: ws_step_def)
      next
        case False
        then have "ws_step ?K device now i (w, c) = (w, c) \<or> ws_step ?K device now i (w, c) = ws_reconnect c"
          using WsHello ns by (auto simp: ws_step_def split: WsInput.splits option.splits)
        then show ?thesis using rec same by auto
      qed
    next
      case (WsCheckpoint st g t infl fs)
      have fs: "\<forall>f \<in> set fs. answer_true R f" using w WsCheckpoint by (simp add: buffer_ok_def)
      show ?thesis
      proof (cases i)
        case (InFrame fo)
        have "fo = Some f \<Longrightarrow> ws_spares R chat b bytes c (WsCheckpoint st g t infl (fs @ [f]), c)" for f
          using fs i InFrame by (simp add: ws_spares_def buffer_ok_def)
        then show ?thesis using rec WsCheckpoint InFrame by (cases fo) (simp_all add: ws_step_def)
      next
        case (InCheckpoint bo)
        show ?thesis
        proof (cases bo)
          case (Some x)
          obtain s r where p: "sk_apply_checkpoint ?K x (sh_checkpoint_seq st) (cl_sink c) = (s, r)" by fastforce
          have st: "es_store s = es_store (cl_sink c)" using sink_store_same(5) [of L chat x "sh_checkpoint_seq st" "cl_sink c"] p by simp
          define c1 where "c1 = c\<lparr>cl_sink := s\<rparr>"
          define c2 where "c2 = emit CeApplied (on_shared (\<lambda>sd. sd\<lparr>sd_cursor := max (sd_cursor sd) (sh_checkpoint_seq st)\<rparr>) c1)"
          have k: "spares chat b bytes c c1" "spares chat b bytes c c2" by (rule spares_same; simp add: c1_def c2_def st)+
          have "ws_spares R chat b bytes c (ws_reconnect c1)" "ws_spares R chat b bytes c (ws_replay ?K now g t infl fs c2)"
            using ws_spares_after [OF k(1) rec] ws_spares_after [OF k(2) ws_spares_replay [OF R fs]] by blast+
          then show ?thesis using WsCheckpoint InCheckpoint Some by (cases r) (simp_all add: ws_step_def p c1_def c2_def)
        qed (use rec WsCheckpoint InCheckpoint in \<open>simp add: ws_step_def\<close>)
      qed (use rec same WsCheckpoint ns in \<open>simp_all add: ws_step_def\<close>)
    next
      case (WsBackfill t infl)
      show ?thesis
      proof (cases i)
        case (InFrame fo)
        show ?thesis
        proof (cases fo)
          case (Some f)
          obtain c1 ok1 where e: "handle_frame_with_replay ?K now f True c = (c1, ok1)" by fastforce
          have f: "answer_true R f" using i InFrame Some by simp
          have k: "spares chat b bytes c c1" using spares_handle [OF R f, of chat bytes c L now True] e by simp
          have "ws_spares R chat b bytes c (WsBackfill t infl, c1)" using k by (simp add: ws_spares_def buffer_ok_def)
          then show ?thesis
            using ws_spares_backfilled [of R chat b bytes c] ws_spares_after [OF k rec] WsBackfill InFrame Some
            by (cases ok1; cases "dec_rows_done_header (wf_header f)") (simp_all add: ws_step_def e ws_spares_reconnect)
        qed (use rec WsBackfill InFrame in \<open>simp add: ws_step_def\<close>)
      qed (use rec same WsBackfill ns in \<open>simp_all add: ws_step_def\<close>)
    next
      case (WsSteady l)
      then show ?thesis using ws_spares_in_steady [OF R i] ns by (simp add: ws_step_def)
    qed
  qed
qed

lemma spares_pull_ack:
  assumes R: "\<not> rm_answered R b" and v: "pushed_true h R c v"
  shows "spares chat b bytes c (pull_ack (engine_sink L chat) v c)"
proof (cases "as_str (json_index v ''batchId'')")
  case (Some i)
  have i: "i \<noteq> b" using R v Some by (auto simp: pushed_true_def)
  show ?thesis
  proof (cases "as_u64 (json_index v ''seq'')")
    case (Some seq)
    show ?thesis
      by (rule spares_ack [OF i]) (simp_all add: pull_ack_def \<open>as_str _ = _\<close> Some engine_sink_def on_store_def split_beta Let_def
        persist_with_cursor_def retire_def)
  qed (simp add: pull_ack_def Some)
qed (simp add: pull_ack_def)

lemma spares_pull_rows: "spares chat b bytes c (snd (pull_rows c))"
  by (rule spares_same) (simp_all add: pull_rows_def Let_def)

lemma spares_pull_push: "spares chat b bytes c (snd (pull_push (engine_sink L chat) batches c))"
proof (cases batches)
  case (Cons p ps)
  obtain c1 ok1 where e: "ensure_durable (engine_sink L chat) p c = (c1, ok1)" by fastforce
  have "spares chat b bytes c c1" using spares_ensure [of chat b bytes c L p] e by simp
  then show ?thesis using spares_trans [OF _ spares_pull_rows] by (cases ok1) (simp_all add: pull_push_def Cons e)
qed (simp add: pull_push_def spares_pull_rows)

lemma spares_pull_body: "spares chat b bytes c (snd (pull_body (engine_sink L chat) l frames c))"
proof -
  let ?K = "engine_sink L chat"
  have am: "es_store (cl_sink (apply_cursor_amnesty ?K st x)) = es_store (cl_sink x)"
    "sd_pending (cl_shared (apply_cursor_amnesty ?K st x)) = sd_pending (cl_shared x)" for st x
    by (simp_all add: apply_cursor_amnesty_def Let_def)
  have "spares chat b bytes c (snd (pull_state ?K l st frontier rows c))" for st frontier rows
    by (rule spares_same)
      (simp_all add: pull_state_def Let_def am pull_cursor_def clear_needs_checkpoint_def split: CatchUpPlan.split)
  then show ?thesis by (simp add: pull_body_def split: list.split option.split)
qed

lemma spares_pull_step:
  assumes R: "\<not> rm_answered R b" and i: "pull_true h R i (p, c)"
  shows "spares chat b bytes c (snd (pull_step (engine_sink L chat) i (p, c)))"
proof (cases p)
  case PullIdle
  then show ?thesis using spares_pull_push by (cases i) (simp_all add: pull_step_def)
next
  case (PullPush batches)
  show ?thesis
  proof (cases i)
    case (PiPushed vo)
    have "vo = Some v \<Longrightarrow> spares chat b bytes c (snd (pull_push (engine_sink L chat) (tl batches) (pull_ack (engine_sink L chat) v c)))" for v
      using spares_trans [OF spares_pull_ack [OF R] spares_pull_push] i PiPushed by (fastforce simp: pull_true_def)
    then show ?thesis using PullPush PiPushed spares_pull_rows by (cases vo) (simp_all add: pull_step_def)
  qed (simp_all add: pull_step_def PullPush)
next
  case (PullRows l)
  show ?thesis
  proof (cases i)
    case (PiBody fo)
    then show ?thesis using PullRows spares_pull_body by (cases fo) (simp_all add: pull_step_def spares_same)
  qed (simp_all add: pull_step_def PullRows)
next
  case (PullCheckpoint l st after g rows)
  show ?thesis
  proof (cases i)
    case (PiCheckpoint bo)
    show ?thesis
    proof (cases bo)
      case (Some x)
      obtain s r where q: "sk_apply_checkpoint (engine_sink L chat) x (sh_checkpoint_seq st) (cl_sink c) = (s, r)" by fastforce
      have "es_store s = es_store (cl_sink c)" using sink_store_same(5) [of L chat x "sh_checkpoint_seq st" "cl_sink c"] q by simp
      then show ?thesis using PullCheckpoint PiCheckpoint Some
        by (cases r) (auto intro!: spares_same simp: pull_step_def q pull_cursor_def clear_needs_checkpoint_def)
    qed (simp add: pull_step_def PullCheckpoint PiCheckpoint)
  qed (simp_all add: pull_step_def PullCheckpoint)
next
  case (PullApply l rows)
  show ?thesis
  proof (cases i)
    case PiNext
    have "spares chat b bytes c (snd (pull_frame (engine_sink L chat) l f c))" for f
    proof -
      have "spares chat b bytes c (on_shared (pull_done l head) c)" for head
        by (rule spares_same) (simp_all add: pull_done_def Let_def)
      then show ?thesis by (simp add: pull_frame_def Let_def spares_row split: option.split)
    qed
    then show ?thesis using PullApply PiNext by (cases rows) (simp_all add: pull_step_def split_beta spares_same)
  qed (simp_all add: pull_step_def PullApply)
qed


section \<open>Across restarts\<close>

lemma replayable_keeps:
  assumes "replayable chat rejected us st = (st', Some r)" "stored_once chat b bytes st" "length bytes \<le> MAX_PUSH_BYTES"
    and "list_all (\<lambda>(i, x). i = b \<longrightarrow> x = bytes) us"
  shows "stored_once chat b bytes st' \<and> list_all (\<lambda>(i, x). i = b \<longrightarrow> x = bytes) r \<and>
    ((b, bytes) \<in> set us \<and> b \<notin> set rejected \<longrightarrow> (b, bytes) \<in> set r)"
  using assms
proof (induction chat rejected us st arbitrary: r rule: replayable.induct)
  case (2 chat rejected i x us store)
  have us: "list_all (\<lambda>(i, x). i = b \<longrightarrow> x = bytes) us" and ix: "i = b \<Longrightarrow> x = bytes" using 2(6) by simp_all
  show ?case
  proof (cases "length x > MAX_PUSH_BYTES")
    case True
    then have ib: "i \<noteq> b" using ix 2(5) by auto
    obtain st ok1 where j: "reject_chat_update chat i store = (st, ok1)" by fastforce
    have st: "stored_once chat b bytes st" using stored_reject [OF 2(4) ib] j by simp
    have ok1: "ok1" "replayable chat rejected us st = (st', Some r)" using 2(3) True j by (cases ok1; simp)+
    then show ?thesis using 2(1) [OF True j [symmetric]] st 2(5) us ib by simp
  next
    case False
    obtain r' where r': "replayable chat rejected us store = (st', Some r')" "r = (if i \<in> set rejected then r' else (i, x) # r')"
      using 2(3) False by (auto split: prod.splits option.splits)
    then show ?thesis using 2(2) [OF False r'(1) 2(4,5) us] ix by auto
  qed
qed simp

lemma stored_rows:
  assumes "stored_once chat b bytes st"
  shows "r \<in> set (outbox_of chat st) \<Longrightarrow> ox_batch_id r = b \<Longrightarrow> r = batch_row chat b bytes"
    and "batch_row chat b bytes \<in> set (outbox_of chat st)"
proof -
  have f: "set (filter (\<lambda>r. ox_batch_id r = b) (outbox_of chat st)) = {batch_row chat b bytes}"
    using assms by (simp add: stored_once_def)
  then show "batch_row chat b bytes \<in> set (outbox_of chat st)" by auto
  assume "r \<in> set (outbox_of chat st)" "ox_batch_id r = b"
  then have "r \<in> set (filter (\<lambda>r. ox_batch_id r = b) (outbox_of chat st))" by simp
  then show "r = batch_row chat b bytes" unfolding f by simp
qed

lemma opened_keeps:
  assumes o': "opened L chat transport store d cursor = Some c" and s: "stored_once chat b bytes store"
    and len: "length bytes \<le> MAX_PUSH_BYTES"
  shows "batch_kept chat b bytes c"
proof -
  have st: "es_store (new_sink chat d store cursor) = store" by (simp add: new_sink_def Let_def)
  obtain sk ps where p: "pending_updates chat (new_sink chat d store cursor) = (sk, Some ps)"
    and c: "cl_shared c = initial_shared cursor ps" "cl_sink c = sk"
    using o' by (auto simp: opened_def connect_client_def engine_sink_def split: prod.splits option.splits)
  obtain rej us where l: "rejected_chat_updates chat store = Some rej" "pending_chat_updates chat store = Some us"
    using p by (auto simp: pending_updates_def st split: option.splits)
  obtain st' where r: "replayable chat (map fst rej) us store = (st', Some ps)" "es_store sk = st'"
    using p l by (auto simp: pending_updates_def st split: prod.splits)
  have us: "us = map (\<lambda>r. (ox_batch_id r, ox_bytes r)) (outbox_of chat store)"
    and rej: "rej = map (\<lambda>r. (ox_batch_id r, ox_bytes r)) (filter ox_needs_checkpoint (outbox_of chat store))"
    using l by (auto simp: pending_chat_updates_def rejected_chat_updates_def sql_read_def split: if_splits)
  have "list_all (\<lambda>(i, x). i = b \<longrightarrow> x = bytes) us"
  proof -
    have "ox_bytes r = bytes" if "r \<in> set (outbox_of chat store)" "ox_batch_id r = b" for r
      using stored_rows(1) [OF s that] by (simp add: batch_row_def)
    then show ?thesis by (auto simp: us list_all_iff)
  qed
  moreover have "b \<notin> set (map fst rej)"
  proof -
    have "\<not> ox_needs_checkpoint r" if "r \<in> set (outbox_of chat store)" "ox_batch_id r = b" for r
      using stored_rows(1) [OF s that] by (simp add: batch_row_def)
    then show ?thesis by (auto simp: rej)
  qed
  moreover have "(b, bytes) \<in> set us"
    using stored_rows(2) [OF s] unfolding us set_map by (intro image_eqI) (simp_all add: batch_row_def)
  ultimately have k: "stored_once chat b bytes st'" "list_all (\<lambda>(i, x). i = b \<longrightarrow> x = bytes) ps" "(b, bytes) \<in> set ps"
    using replayable_keeps [OF r(1) s len] by blast+
  have "is_pending b bytes (sd_pending (initial_shared cursor ps))"
    using k(2,3) by (force simp: is_pending_def initial_shared_def list_ex_iff list_all_iff)
  then show ?thesis using k(1) c r(2) by (simp add: batch_kept_def)
qed

text \<open>A fresh batch is stored and pending at once.\<close>

definition fresh_batch :: "string \<Rightarrow> 'd EngineSink Client \<Rightarrow> bool" where
  "fresh_batch b c \<longleftrightarrow> list_all (\<lambda>r. ox_batch_id r \<noteq> b) (ds_outbox (es_store (cl_sink c))) \<and>
     list_all (\<lambda>p. pp_batch_id p \<noteq> b) (sd_pending (cl_shared c))"

lemma enqueue_fresh:
  assumes f: "fresh_batch b c" and up: "\<not> ds_failing (es_store (cl_sink c))" and len: "length bytes \<le> MAX_PUSH_BYTES"
  shows "batch_kept chat b bytes (enqueue_batch (engine_sink L chat) b bytes c)"
proof -
  let ?st = "es_store (cl_sink c)"
  have n: "\<not> (\<exists>r \<in> set (ds_outbox ?st). ox_batch_id r = b)" "\<not> (\<exists>p \<in> set (sd_pending (cl_shared c)). pp_batch_id p = b)"
    using f by (auto simp: fresh_batch_def list_all_iff)
  have "filter (\<lambda>r. ox_doc_id r = chat \<and> ox_batch_id r = b) (ds_outbox ?st) = []" using n(1) by (auto simp: filter_empty_conv)
  then have "stored_once chat b bytes (?st\<lparr>ds_outbox := ds_outbox ?st @ [batch_row chat b bytes]\<rparr>)"
    by (simp add: stored_once_def outbox_of_def batch_row_def)
  moreover have "is_pending b bytes (sd_pending (cl_shared c) @ [\<lparr>pp_batch_id = b, pp_bytes = bytes, pp_durable = True\<rparr>])"
    using n(2) by (auto simp: is_pending_def list_all_iff)
  ultimately show ?thesis using n len up
    by (simp add: batch_kept_def enqueue_batch_def engine_sink_def on_store_def enqueue_chat_update_def Let_def batch_row_def)
qed

section \<open>The whole client\<close>

lemma outbox_step:
  assumes R: "\<not> rm_answered R b" and len: "length bytes \<le> MAX_PUSH_BYTES"
  shows "chat_step L has snap R chat device x y \<Longrightarrow> buffer_ok R (cr_ws x) \<Longrightarrow>
    buffer_ok R (cr_ws y) \<and> spares chat b bytes (cr_client x) (cr_client y)"
proof (induction rule: chat_step.induct)
  case (csWs x i now)
  have "answer_true R f" if "i = InFrame (Some f)" for f using csWs.hyps that by (simp add: ws_true_def frame_true_def)
  from ws_spares_step [OF R csWs.prems this, where chat = chat and bytes = bytes and c = "cr_client x" and L = L and device = device and now = now] show ?case
    by (simp add: ws_moves_def ws_spares_def split_beta)
next
  case (csPull i x)
  from spares_pull_step [OF R csPull.hyps, of chat bytes L] csPull.prems show ?case by (simp add: pull_moves_def split_beta)
next
  case (csEnqueue i x' x)
  then show ?case using spares_enqueue [OF _ len] by simp
next
  case (csStore store x)
  then show ?case by (simp add: spares_def batch_kept_def stored_once_def)
next
  case (csSaved x gc)
  have "outbox_of chat (es_store (flush_end L chat gc s)) = outbox_of chat (es_store s)" for s
    by (simp add: flush_end_def save_verified_snapshot_with_cursor_def sql_def upsert_snapshot_def
        invalidate_failed_publication_def outbox_of_def split: option.split)
  then show ?case using csSaved.prems by (simp add: spares_def batch_kept_def stored_once_def)
next
  case (csRestart x d cursor transport c)
  then show ?case using opened_keeps [OF csRestart.hyps(2) _ len, of b]
    by (simp add: started_def buffer_ok_def spares_def batch_kept_def)
qed (auto intro!: spares_same simp: probe_room_def request_catch_up_def note_checkpoint_def dirty_def)

lemma outbox_run:
  assumes R: "\<not> rm_answered R b" and len: "length bytes \<le> MAX_PUSH_BYTES"
  shows "(chat_step L has snap R chat device)\<^sup>*\<^sup>* x y \<Longrightarrow> buffer_ok R (cr_ws x) \<Longrightarrow>
    buffer_ok R (cr_ws y) \<and> spares chat b bytes (cr_client x) (cr_client y)"
proof (induction rule: rtranclp_induct)
  case (step y z)
  then show ?case using outbox_step [OF R len step.hyps(2)] spares_trans by blast
qed simp

text \<open>C34: No edit is forgotten before the room has answered it. Take a client anywhere in any run of its
  transports, its host, saves, store failures and restarts, and enqueue a batch with a fresh id, of a
  size the room takes, while the store works. As long as the room neither acknowledges nor refuses that
  batch, whatever the client goes through, the store holds the batch's row, once and unrejected, and
  the running client has the batch pending with its bytes, ready to be pushed again.\<close>

theorem unanswered_batch_survives:
  assumes c: "opened L chat transport store d 0 = Some c"
    and r: "(chat_step L has snap R chat device)\<^sup>*\<^sup>* (started 0 c) x"
    and f: "fresh_batch b (cr_client x)" and up: "\<not> ds_failing (es_store (cl_sink (cr_client x)))"
    and len: "length bytes \<le> MAX_PUSH_BYTES" and R: "\<not> rm_answered R b"
    and q: "(chat_step L has snap R chat device)\<^sup>*\<^sup>* (on_client (enqueue_batch (engine_sink L chat) b bytes) x) y"
  shows "batch_kept chat b bytes (cr_client y)"
proof -
  have "buffer_ok R (cr_ws (started 0 c))" by (simp add: started_def buffer_ok_def)
  then have "buffer_ok R (cr_ws x)" using outbox_run [OF R len r] by blast
  then have "spares chat b bytes (enqueue_batch (engine_sink L chat) b bytes (cr_client x)) (cr_client y)"
    using outbox_run [OF R len q] by simp
  then show ?thesis using enqueue_fresh [OF f up len, of chat L] by (simp add: spares_def)
qed

text \<open>An edit, then a restart of the process.\<close>

lemma unanswered_batch_survives_witness:
  "\<exists>c. opened demo_loro ''c1'' True (es_store (cl_sink (enqueue_batch (engine_sink demo_loro ''c1'') ''b7'' [7] demo_client))) [] 0 = Some c \<and>
     batch_kept ''c1'' ''b7'' [7] c"
proof -
  let ?x = "started 0 demo_client"
  let ?x1 = "on_client (enqueue_batch (engine_sink demo_loro ''c1'') ''b7'' [7]) ?x"
  let ?st = "es_store (cl_sink (cr_client ?x1))"
  have st: "?st = demo_store\<lparr>ds_outbox := [batch_row ''c1'' ''b7'' [7]]\<rparr>"
    by (simp add: started_def demo_client_eq enqueue_batch_def engine_sink_def on_store_def enqueue_chat_update_def Let_def
        demo_store_def initial_shared_def batch_row_def MAX_PUSH_BYTES_def)
  have o': "opened demo_loro ''c1'' True demo_store [] 0 = Some demo_client" unfolding demo_client_eq by code_simp
  have f: "fresh_batch ''b7'' (cr_client ?x)" "\<not> ds_failing (es_store (cl_sink (cr_client ?x)))"
    by (simp_all add: fresh_batch_def started_def demo_client_eq demo_store_def initial_shared_def)
  have len: "length [7::8 word] \<le> MAX_PUSH_BYTES" by (simp add: MAX_PUSH_BYTES_def)
  have R: "\<not> rm_answered demo_room ''b7''" by (simp add: demo_room_def)
  have l: "loads demo_has demo_has ''c1'' ?st [] 0" unfolding st by (simp add: loads_def demo_store_def)
  have "opened demo_loro ''c1'' True (demo_store\<lparr>ds_outbox := [batch_row ''c1'' ''b7'' [7]]\<rparr>) [] 0 \<noteq> None"
    by (simp add: opened_def connect_client_def engine_sink_sels pending_updates_def new_sink_def Let_def demo_store_def
        rejected_chat_updates_def pending_chat_updates_def sql_read_def outbox_of_def batch_row_def MAX_PUSH_BYTES_def)
  then obtain c where c: "opened demo_loro ''c1'' True ?st [] 0 = Some c" unfolding st by auto
  have "chat_step demo_loro demo_has demo_has demo_room ''c1'' ''d1'' ?x1 (started (cr_debt ?x1) c)"
    by (rule csRestart [OF l c])
  then have q: "demo_steps ?x1 (started (cr_debt ?x1) c)" by (rule r_into_rtranclp)
  from unanswered_batch_survives [OF o' rtranclp.rtrancl_refl f len R q] have "batch_kept ''c1'' ''b7'' [7] c"
    by (simp add: started_def)
  then show ?thesis using c by (auto simp: started_def)
qed

end
