(* ===== verification/Preview_Mux.thy ===== *)
theory Preview_Mux
  imports Chat_Frames Ordered_Map
begin

text \<open>
  The stream multiplexer of previews (\<open>crates/preview/src/mux.rs\<close>): frames, their socket form, and one
  end of a connection as a state machine. Every \<open>await\<close> of the code is a point where other tasks run,
  so an operation here is what one task does between two of them. A task that waits (for room in the
  queue of outgoing frames, for permits, for the application) is an operation that does nothing yet.
  The application's half of a stream is its side of the in-memory pipe; how much of the pipe's buffer
  the application has drained decides when and how much a \<open>write_all\<close> may write, so that is an input.
\<close>

section \<open>Frames\<close>

definition CHUNK :: nat where "CHUNK = 8192"
definition WINDOW :: nat where "WINDOW = 65536"
definition MAX_STREAMS :: nat where "MAX_STREAMS = 64"
definition OUT_QUEUE :: nat where "OUT_QUEUE = 64"

abbreviation OPEN :: "8 word" where "OPEN \<equiv> 1"
abbreviation DATA :: "8 word" where "DATA \<equiv> 2"
abbreviation END :: "8 word" where "END \<equiv> 3"
abbreviation CANCEL :: "8 word" where "CANCEL \<equiv> 4"
abbreviation WS_OPEN :: "8 word" where "WS_OPEN \<equiv> 5"
abbreviation WS_DATA :: "8 word" where "WS_DATA \<equiv> 6"
abbreviation WS_CLOSE :: "8 word" where "WS_CLOSE \<equiv> 7"
abbreviation CREDIT :: "8 word" where "CREDIT \<equiv> 8"
abbreviation READY :: "8 word" where "READY \<equiv> 9"

record MuxFrame =
  mf_kind :: "8 word"
  mf_id :: "32 word"
  mf_data :: bytes

definition frame :: "8 word \<Rightarrow> 32 word \<Rightarrow> bytes \<Rightarrow> MuxFrame" where
  "frame k i d = \<lparr>mf_kind = k, mf_id = i, mf_data = d\<rparr>"

text \<open>\<open>u32::to_be_bytes\<close> and \<open>from_be_bytes\<close>.\<close>

definition be4 :: "32 word \<Rightarrow> bytes" where
  "be4 w = rev (le4 (unat w))"

definition from_be4 :: "bytes \<Rightarrow> 32 word" where
  "from_be4 b = of_nat (from_le4 (rev b))"

definition mux_encode :: "MuxFrame \<Rightarrow> bytes" where
  "mux_encode f = mf_kind f # be4 (mf_id f) @ mf_data f"

definition mux_decode :: "bytes \<Rightarrow> string + MuxFrame" where
  "mux_decode b =
     (if \<not> (5 \<le> length b \<and> length b \<le> CHUNK + 5) then Inl ''invalid preview frame size''
      else Inr (frame (b ! 0) (from_be4 (take 4 (drop 1 b))) (drop 5 b)))"

text \<open>\<open>SocketTransport\<close>: a length in front of each message. \<open>socket_receive\<close> reads one message off the
  bytes that have arrived; \<open>None\<close> is a read that still waits (or ends with the socket).\<close>

definition socket_send :: "bytes \<Rightarrow> bytes" where
  "socket_send b = be4 (of_nat (length b)) @ b"

definition socket_receive :: "bytes \<Rightarrow> (string + bytes \<times> bytes) option" where
  "socket_receive s =
     (if length s < 4 then None
      else (let size = unat (from_be4 (take 4 s)) in
        if \<not> (5 \<le> size \<and> size \<le> CHUNK + 5) then Some (Inl ''invalid preview frame size'')
        else if length (drop 4 s) < size then None
        else Some (Inr (take size (drop 4 s), drop size (drop 4 s)))))"

text \<open>The messages a reader gets off a socket, until it waits or fails.\<close>

function socket_messages :: "bytes \<Rightarrow> bytes list" where
  "socket_messages s =
     (case socket_receive s of
        None \<Rightarrow> []
      | Some (Inl _) \<Rightarrow> []
      | Some (Inr (b, rest)) \<Rightarrow> b # socket_messages rest)"
  by pat_completeness auto
termination
  by (relation "measure length") (auto simp: socket_receive_def Let_def split: if_splits)

declare socket_messages.simps [simp del]

text \<open>\<open>String::from_utf8\<close>: the well-formed byte sequences of the Unicode standard.\<close>

definition utf8_tail :: "8 word \<Rightarrow> bool" where
  "utf8_tail b \<longleftrightarrow> 0x80 \<le> b \<and> b \<le> 0xBF"

fun utf8_ok :: "bytes \<Rightarrow> bool" where
  "utf8_ok [] = True"
| "utf8_ok (a # s) =
     (if a \<le> 0x7F then utf8_ok s
      else if 0xC2 \<le> a \<and> a \<le> 0xDF then
        (case s of b # s' \<Rightarrow> utf8_tail b \<and> utf8_ok s' | _ \<Rightarrow> False)
      else if 0xE0 \<le> a \<and> a \<le> 0xEF then
        (case s of b # c # s' \<Rightarrow>
           (if a = 0xE0 then 0xA0 else 0x80) \<le> b \<and> b \<le> (if a = 0xED then 0x9F else 0xBF) \<and>
           utf8_tail c \<and> utf8_ok s'
         | _ \<Rightarrow> False)
      else if 0xF0 \<le> a \<and> a \<le> 0xF4 then
        (case s of b # c # d # s' \<Rightarrow>
           (if a = 0xF0 then 0x90 else 0x80) \<le> b \<and> b \<le> (if a = 0xF4 then 0x8F else 0xBF) \<and>
           utf8_tail c \<and> utf8_tail d \<and> utf8_ok s'
         | _ \<Rightarrow> False)
      else False)"

section \<open>The state of one end\<close>

text \<open>The two halves of a stream's task: \<open>sending\<close> holds what it has read and not yet sent, and
  \<open>receiving\<close> the frame it is writing (all of it, and the rest to write) or the credit it owes.\<close>

datatype SendPhase = SpReading | SpAcquiring bytes | SpSending bytes | SpEnding | SpSent

datatype RecvPhase = RpReceiving | RpWriting bytes bytes | RpCrediting nat | RpReceived

text \<open>\<open>Slot\<close>, and the locals of its task. \<open>ms_ready\<close>: the sender of the answer is still there.\<close>

record MuxSlot =
  ms_websocket :: bool
  ms_incoming :: "MuxFrame list"
  ms_credit :: nat
  ms_cancelled :: bool
  ms_ready :: bool
  ms_receive_credit :: nat
  ms_send :: SendPhase
  ms_recv :: RecvPhase

text \<open>Who holds the \<open>Stream\<close>: \<open>open\<close> before its OPEN is queued or while it waits for the answer, the
  task of an accepted stream while it connects or announces itself, the application, or nobody.\<close>

datatype Holder = Opening bytes | Waiting | Connecting bytes | Announcing | Held | Dropped

text \<open>The application's end: all it has written, what of that the task has not read, whether it has shut
  down its direction, all that was written to it, whether that direction was shut down, and whether
  it has seen an end of file.\<close>

record AppEnd =
  ap_holder :: Holder
  ap_answer :: "bool option"
  ap_written :: bytes
  ap_unread :: bytes
  ap_shut :: bool
  ap_received :: bytes
  ap_eof :: bool
  ap_saw_eof :: bool

text \<open>\<open>Inner\<close>. \<open>mx_aborts\<close>: tasks that have removed their slot and wait to queue a CANCEL;
  \<open>mx_refusing\<close>: the reader waits to queue a CANCEL for an OPEN it refused.\<close>

record MuxEnd =
  mx_slots :: "(32 word, MuxSlot) bmap"
  mx_apps :: "(32 word, AppEnd) bmap"
  mx_out :: "MuxFrame list"
  mx_ids :: "32 word"
  mx_parity :: "32 word"
  mx_stopped :: bool
  mx_aborts :: "32 word list"
  mx_refusing :: "32 word option"

definition mux_start :: "bool \<Rightarrow> MuxEnd" where
  "mux_start initiator = \<lparr>mx_slots = [], mx_apps = [], mx_out = [], mx_ids = (if initiator then 1 else 2),
     mx_parity = (if initiator then 1 else 0), mx_stopped = False, mx_aborts = [], mx_refusing = None\<rparr>"

abbreviation get_slot :: "32 word \<Rightarrow> MuxEnd \<Rightarrow> MuxSlot option" where
  "get_slot i e \<equiv> map_of (mx_slots e) i"

abbreviation get_app :: "32 word \<Rightarrow> MuxEnd \<Rightarrow> AppEnd option" where
  "get_app i e \<equiv> map_of (mx_apps e) i"

definition put_slot :: "32 word \<Rightarrow> MuxSlot \<Rightarrow> MuxEnd \<Rightarrow> MuxEnd" where
  "put_slot i x e = e\<lparr>mx_slots := binsert i x (mx_slots e)\<rparr>"

definition put_app :: "32 word \<Rightarrow> AppEnd \<Rightarrow> MuxEnd \<Rightarrow> MuxEnd" where
  "put_app i a e = e\<lparr>mx_apps := binsert i a (mx_apps e)\<rparr>"

definition drop_slot :: "32 word \<Rightarrow> MuxEnd \<Rightarrow> MuxEnd" where
  "drop_slot i e = e\<lparr>mx_slots := bremove i (mx_slots e)\<rparr>"

section \<open>Operations\<close>

definition mux_close :: "MuxEnd \<Rightarrow> MuxEnd" where
  "mux_close e = e\<lparr>mx_stopped := True, mx_slots := []\<rparr>"

text \<open>\<open>Mux::send\<close>, once there is room; \<open>None\<close> while it waits.\<close>

definition mux_send :: "MuxFrame \<Rightarrow> MuxEnd \<Rightarrow> MuxEnd option" where
  "mux_send f e =
     (if mx_stopped e \<or> OUT_QUEUE \<le> length (mx_out e) then None else Some (e\<lparr>mx_out := mx_out e @ [f]\<rparr>))"

definition fresh_slot :: "bool \<Rightarrow> bool \<Rightarrow> MuxSlot" where
  "fresh_slot websocket cancelled = \<lparr>ms_websocket = websocket, ms_incoming = [], ms_credit = WINDOW,
     ms_cancelled = cancelled, ms_ready = True, ms_receive_credit = WINDOW, ms_send = SpReading,
     ms_recv = RpReceiving\<rparr>"

definition fresh_app :: "Holder \<Rightarrow> AppEnd" where
  "fresh_app h = \<lparr>ap_holder = h, ap_answer = None, ap_written = [], ap_unread = [], ap_shut = False,
     ap_received = [], ap_eof = False, ap_saw_eof = False\<rparr>"

definition mux_stream :: "32 word \<Rightarrow> bool \<Rightarrow> Holder \<Rightarrow> MuxEnd \<Rightarrow> string + MuxEnd" where
  "mux_stream i websocket h e =
     (if \<not> (length (mx_slots e) < MAX_STREAMS \<and> \<not> bcontains (mx_slots e) i)
      then Inl ''preview stream limit reached''
      else Inr (put_app i (fresh_app h) (put_slot i (fresh_slot websocket (mx_stopped e)) e)))"

text \<open>\<open>Mux::open\<close> up to its first wait.\<close>

definition mux_open :: "bytes \<Rightarrow> bool \<Rightarrow> MuxEnd \<Rightarrow> MuxEnd \<times> (string + 32 word)" where
  "mux_open service websocket e =
     (if \<not> (service \<noteq> [] \<and> length service \<le> 128) then (e, Inl ''invalid preview service id'')
      else (let i = mx_ids e; e1 = e\<lparr>mx_ids := i + 2\<rparr> in
        if \<not> i < 0xFFFFFFFF - 2 then (e1, Inl ''preview stream ids exhausted'')
        else (case mux_stream i websocket (Opening service) e1 of
            Inl x \<Rightarrow> (e1, Inl x)
          | Inr e2 \<Rightarrow> (e2, Inr i))))"

text \<open>The OPEN is queued.\<close>

definition open_send :: "32 word \<Rightarrow> MuxEnd \<Rightarrow> MuxEnd" where
  "open_send i e =
     (case (get_slot i e, get_app i e) of
        (Some x, Some a) \<Rightarrow>
          (case ap_holder a of
             Opening service \<Rightarrow>
               (case mux_send (frame (if ms_websocket x then WS_OPEN else OPEN) i service) e of
                  None \<Rightarrow> e
                | Some e1 \<Rightarrow> put_app i (a\<lparr>ap_holder := Waiting\<rparr>) e1)
           | _ \<Rightarrow> e)
      | _ \<Rightarrow> e)"

text \<open>\<open>Drop for Stream\<close>.\<close>

definition cancel_slot :: "32 word \<Rightarrow> MuxEnd \<Rightarrow> MuxEnd" where
  "cancel_slot i e =
     (case get_slot i e of None \<Rightarrow> e | Some x \<Rightarrow> put_slot i (x\<lparr>ms_cancelled := True\<rparr>) e)"

definition stream_drop :: "32 word \<Rightarrow> MuxEnd \<Rightarrow> MuxEnd" where
  "stream_drop i e =
     (case get_app i e of
        None \<Rightarrow> e
      | Some a \<Rightarrow>
          let e1 = put_app i (a\<lparr>ap_holder := Dropped\<rparr>) e in
          if ap_holder a = Dropped then e
          else if ap_saw_eof a \<and> ap_shut a then e1 else cancel_slot i e1)"

text \<open>\<open>open\<close> gets its answer: the stream goes to the application, or is dropped. Its timeout of ten
  seconds and the loss of its future are \<open>stream_drop\<close>.\<close>

definition open_done :: "32 word \<Rightarrow> MuxEnd \<Rightarrow> MuxEnd" where
  "open_done i e =
     (case get_app i e of
        None \<Rightarrow> e
      | Some a \<Rightarrow>
          if ap_holder a \<noteq> Waiting then e
          else (case ap_answer a of
              None \<Rightarrow> e
            | Some True \<Rightarrow> put_app i (a\<lparr>ap_holder := Held\<rparr>) e
            | Some False \<Rightarrow> stream_drop i e))"

text \<open>The task of an accepted stream: the service is connected, or not; then READY is queued and the two
  are joined.\<close>

definition connect_done :: "32 word \<Rightarrow> bool \<Rightarrow> MuxEnd \<Rightarrow> MuxEnd" where
  "connect_done i ok e =
     (case get_app i e of
        None \<Rightarrow> e
      | Some a \<Rightarrow>
          (case ap_holder a of
             Connecting service \<Rightarrow>
               if ok then put_app i (a\<lparr>ap_holder := Announcing\<rparr>) e else stream_drop i e
           | _ \<Rightarrow> e))"

definition ready_send :: "32 word \<Rightarrow> MuxEnd \<Rightarrow> MuxEnd" where
  "ready_send i e =
     (case get_app i e of
        None \<Rightarrow> e
      | Some a \<Rightarrow>
          if ap_holder a \<noteq> Announcing then e
          else (case mux_send (frame READY i []) e of
              None \<Rightarrow> e
            | Some e1 \<Rightarrow> put_app i (a\<lparr>ap_holder := Held\<rparr>) e1))"

subsection \<open>The task of a stream\<close>

text \<open>\<open>sending\<close>: a read of at most \<open>n\<close> bytes, at the end of the input none; the permits; the frame.\<close>

definition app_closed :: "AppEnd \<Rightarrow> bool" where
  "app_closed a \<longleftrightarrow> ap_shut a \<or> ap_holder a = Dropped"

definition send_read :: "32 word \<Rightarrow> nat \<Rightarrow> MuxEnd \<Rightarrow> MuxEnd" where
  "send_read i n e =
     (case (get_slot i e, get_app i e) of
        (Some x, Some a) \<Rightarrow>
          if ms_send x \<noteq> SpReading then e
          else if ap_unread a = [] then
            (if app_closed a then put_slot i (x\<lparr>ms_send := SpEnding\<rparr>) e else e)
          else if n = 0 then e
          else (let k = min n CHUNK in
            put_app i (a\<lparr>ap_unread := drop k (ap_unread a)\<rparr>)
              (put_slot i (x\<lparr>ms_send := SpAcquiring (take k (ap_unread a))\<rparr>) e))
      | _ \<Rightarrow> e)"

definition send_acquire :: "32 word \<Rightarrow> MuxEnd \<Rightarrow> MuxEnd" where
  "send_acquire i e =
     (case get_slot i e of
        None \<Rightarrow> e
      | Some x \<Rightarrow>
          (case ms_send x of
             SpAcquiring b \<Rightarrow>
               if ms_credit x < length b then e
               else put_slot i (x\<lparr>ms_credit := ms_credit x - length b, ms_send := SpSending b\<rparr>) e
           | _ \<Rightarrow> e))"

definition send_frame_out :: "32 word \<Rightarrow> MuxEnd \<Rightarrow> MuxEnd" where
  "send_frame_out i e =
     (case get_slot i e of
        None \<Rightarrow> e
      | Some x \<Rightarrow>
          (case ms_send x of
             SpSending b \<Rightarrow>
               (case mux_send (frame (if ms_websocket x then WS_DATA else DATA) i b) e of
                  None \<Rightarrow> e
                | Some e1 \<Rightarrow> put_slot i (x\<lparr>ms_send := SpReading\<rparr>) e1)
           | SpEnding \<Rightarrow>
               (case mux_send (frame (if ms_websocket x then WS_CLOSE else END) i []) e of
                  None \<Rightarrow> e
                | Some e1 \<Rightarrow> put_slot i (x\<lparr>ms_send := SpSent\<rparr>) e1)
           | _ \<Rightarrow> e))"

text \<open>\<open>receiving\<close>: the next frame; some of its bytes; once all are written, the receive window grows and
  the credit is queued.\<close>

definition is_end :: "MuxFrame \<Rightarrow> bool" where
  "is_end f \<longleftrightarrow> mf_kind f = END \<or> mf_kind f = WS_CLOSE"

definition is_data :: "MuxFrame \<Rightarrow> bool" where
  "is_data f \<longleftrightarrow> mf_kind f = DATA \<or> mf_kind f = WS_DATA"

definition recv_next :: "32 word \<Rightarrow> MuxEnd \<Rightarrow> MuxEnd" where
  "recv_next i e =
     (case (get_slot i e, get_app i e) of
        (Some x, Some a) \<Rightarrow>
          if ms_recv x \<noteq> RpReceiving then e
          else (case ms_incoming x of
              [] \<Rightarrow> e
            | f # fs \<Rightarrow>
                if is_end f then
                  put_app i (a\<lparr>ap_eof := True\<rparr>)
                    (put_slot i (x\<lparr>ms_incoming := fs, ms_recv := RpReceived\<rparr>) e)
                else put_slot i (x\<lparr>ms_incoming := fs, ms_recv := RpWriting (mf_data f) (mf_data f)\<rparr>) e)
      | _ \<Rightarrow> e)"

definition recv_write :: "32 word \<Rightarrow> nat \<Rightarrow> MuxEnd \<Rightarrow> MuxEnd" where
  "recv_write i n e =
     (case (get_slot i e, get_app i e) of
        (Some x, Some a) \<Rightarrow>
          (case ms_recv x of
             RpWriting b rest \<Rightarrow>
               if rest = [] then
                 put_slot i (x\<lparr>ms_receive_credit := ms_receive_credit x + length b,
                   ms_recv := RpCrediting (length b)\<rparr>) e
               else if ap_holder a = Dropped then e
               else put_app i (a\<lparr>ap_received := ap_received a @ take n rest\<rparr>)
                      (put_slot i (x\<lparr>ms_recv := RpWriting b (drop n rest)\<rparr>) e)
           | _ \<Rightarrow> e)
      | _ \<Rightarrow> e)"

definition recv_credit :: "32 word \<Rightarrow> MuxEnd \<Rightarrow> MuxEnd" where
  "recv_credit i e =
     (case get_slot i e of
        None \<Rightarrow> e
      | Some x \<Rightarrow>
          (case ms_recv x of
             RpCrediting n \<Rightarrow>
               (case mux_send (frame CREDIT i (be4 (of_nat n))) e of
                  None \<Rightarrow> e
                | Some e1 \<Rightarrow> put_slot i (x\<lparr>ms_recv := RpReceiving\<rparr>) e1)
           | _ \<Rightarrow> e))"

text \<open>The end of the task: with both halves done it is graceful, unless the cancellation is seen first;
  an ungraceful end queues a CANCEL once there is room.\<close>

definition task_end :: "32 word \<Rightarrow> bool \<Rightarrow> MuxEnd \<Rightarrow> MuxEnd" where
  "task_end i graceful e =
     (case get_slot i e of
        None \<Rightarrow> e
      | Some x \<Rightarrow>
          if graceful then
            (if ms_send x = SpSent \<and> ms_recv x = RpReceived then drop_slot i e else e)
          else if ms_cancelled x then (drop_slot i e)\<lparr>mx_aborts := mx_aborts e @ [i]\<rparr>
          else e)"

definition abort_send :: "32 word \<Rightarrow> MuxEnd \<Rightarrow> MuxEnd" where
  "abort_send i e =
     (if i \<in> set (mx_aborts e) then
        (case mux_send (frame CANCEL i []) e of
           None \<Rightarrow> e
         | Some e1 \<Rightarrow> e1\<lparr>mx_aborts := remove1 i (mx_aborts e)\<rparr>)
      else e)"

definition refuse_send :: "MuxEnd \<Rightarrow> MuxEnd" where
  "refuse_send e =
     (case mx_refusing e of
        None \<Rightarrow> e
      | Some i \<Rightarrow>
          (case mux_send (frame CANCEL i []) e of
             None \<Rightarrow> e
           | Some e1 \<Rightarrow> e1\<lparr>mx_refusing := None\<rparr>))"

subsection \<open>The application\<close>

text \<open>A write goes into the pipe's buffer as far as there is room; without the task's half it fails. The
  end of file is an END that was passed on, or the loss of the other half.\<close>

definition app_write :: "32 word \<Rightarrow> bytes \<Rightarrow> MuxEnd \<Rightarrow> MuxEnd" where
  "app_write i b e =
     (case (get_slot i e, get_app i e) of
        (Some x, Some a) \<Rightarrow>
          if ap_holder a \<noteq> Held \<or> ap_shut a then e
          else (let k = take (WINDOW - length (ap_unread a)) b in
            put_app i (a\<lparr>ap_written := ap_written a @ k, ap_unread := ap_unread a @ k\<rparr>) e)
      | _ \<Rightarrow> e)"

definition app_shutdown :: "32 word \<Rightarrow> MuxEnd \<Rightarrow> MuxEnd" where
  "app_shutdown i e =
     (case get_app i e of
        None \<Rightarrow> e
      | Some a \<Rightarrow> if ap_holder a \<noteq> Held then e else put_app i (a\<lparr>ap_shut := True\<rparr>) e)"

definition app_read_eof :: "32 word \<Rightarrow> MuxEnd \<Rightarrow> MuxEnd" where
  "app_read_eof i e =
     (case get_app i e of
        None \<Rightarrow> e
      | Some a \<Rightarrow>
          if ap_holder a = Held \<and> (ap_eof a \<or> get_slot i e = None)
          then put_app i (a\<lparr>ap_saw_eof := True\<rparr>) e else e)"

section \<open>Inbound frames\<close>

text \<open>\<open>Mux::dispatch\<close>; an error ends the reader, which closes the connection.\<close>

definition answer_open :: "32 word \<Rightarrow> bool \<Rightarrow> MuxSlot \<Rightarrow> MuxEnd \<Rightarrow> MuxEnd" where
  "answer_open i ok x e =
     (if ms_ready x then
        (case get_app i e of
           None \<Rightarrow> put_slot i (x\<lparr>ms_ready := False\<rparr>) e
         | Some a \<Rightarrow> put_app i (a\<lparr>ap_answer := Some ok\<rparr>) (put_slot i (x\<lparr>ms_ready := False\<rparr>) e))
      else put_slot i x e)"

definition dispatch_open :: "MuxFrame \<Rightarrow> MuxEnd \<Rightarrow> string + MuxEnd" where
  "dispatch_open f e =
     (if \<not> (mf_id f \<noteq> 0 \<and> mf_id f mod 2 \<noteq> mx_parity e \<and>
          1 \<le> length (mf_data f) \<and> length (mf_data f) \<le> 128) then Inl ''invalid preview OPEN''
      else if \<not> utf8_ok (mf_data f) then Inl ''invalid utf-8 sequence''
      else (case mux_stream (mf_id f) (mf_kind f = WS_OPEN) (Connecting (mf_data f)) e of
          Inl _ \<Rightarrow> Inr (e\<lparr>mx_refusing := Some (mf_id f)\<rparr>)
        | Inr e1 \<Rightarrow> Inr e1))"

definition dispatch_credit :: "MuxFrame \<Rightarrow> MuxSlot \<Rightarrow> MuxEnd \<Rightarrow> string + MuxEnd" where
  "dispatch_credit f x e =
     (if length (mf_data f) \<noteq> 4 then Inl ''invalid preview credit''
      else (let count = unat (from_be4 (mf_data f)) in
        if \<not> (0 < count \<and> count \<le> WINDOW \<and> ms_credit x + count \<le> WINDOW)
        then Inl ''invalid preview receive window''
        else Inr (put_slot (mf_id f) (x\<lparr>ms_credit := ms_credit x + count\<rparr>) e)))"

definition queue_incoming :: "MuxFrame \<Rightarrow> MuxSlot \<Rightarrow> MuxSlot" where
  "queue_incoming f x =
     (if length (ms_incoming x) < WINDOW + 2 then x\<lparr>ms_incoming := ms_incoming x @ [f]\<rparr>
      else x\<lparr>ms_cancelled := True\<rparr>)"

definition dispatch_data :: "MuxFrame \<Rightarrow> MuxSlot \<Rightarrow> MuxEnd \<Rightarrow> string + MuxEnd" where
  "dispatch_data f x e =
     (if is_data f then
        (if mf_data f \<noteq> [] \<and> length (mf_data f) \<le> ms_receive_credit x
         then Inr (put_slot (mf_id f)
                (queue_incoming f (x\<lparr>ms_receive_credit := ms_receive_credit x - length (mf_data f)\<rparr>)) e)
         else Inl ''preview receive window exceeded'')
      else Inr (put_slot (mf_id f) (queue_incoming f x) e))"

definition mux_dispatch :: "MuxFrame \<Rightarrow> MuxEnd \<Rightarrow> string + MuxEnd" where
  "mux_dispatch f e =
     (if mf_kind f = OPEN \<or> mf_kind f = WS_OPEN then dispatch_open f e
      else (case get_slot (mf_id f) e of
          None \<Rightarrow> Inr e
        | Some x \<Rightarrow>
            if mf_kind f = READY then Inr (answer_open (mf_id f) True x e)
            else if mf_kind f = CANCEL then
              Inr (answer_open (mf_id f) False (x\<lparr>ms_cancelled := True\<rparr>) e)
            else if mf_kind f = CREDIT then dispatch_credit f x e
            else if is_data f \<or> is_end f then dispatch_data f x e
            else Inl ''unknown preview frame''))"

section \<open>Two ends and the wires between them\<close>

datatype mux_action =
  AOpen bytes bool
| AOpenSend "32 word"
| AOpenDone "32 word"
| AConnect "32 word" bool
| AReady "32 word"
| ARead "32 word" nat
| AAcquire "32 word"
| ASend "32 word"
| ARecv "32 word"
| AWrite "32 word" nat
| ACredit "32 word"
| ATaskEnd "32 word" bool
| AAbort "32 word"
| ARefuse
| AAppWrite "32 word" bytes
| AAppShutdown "32 word"
| AAppReadEof "32 word"
| AAppDrop "32 word"
| AClose

text \<open>A service id is a Rust string.\<close>

fun mux_act :: "mux_action \<Rightarrow> MuxEnd \<Rightarrow> MuxEnd" where
  "mux_act (AOpen service websocket) e = (if utf8_ok service then fst (mux_open service websocket e) else e)"
| "mux_act (AOpenSend i) e = open_send i e"
| "mux_act (AOpenDone i) e = open_done i e"
| "mux_act (AConnect i ok) e = connect_done i ok e"
| "mux_act (AReady i) e = ready_send i e"
| "mux_act (ARead i n) e = send_read i n e"
| "mux_act (AAcquire i) e = send_acquire i e"
| "mux_act (ASend i) e = send_frame_out i e"
| "mux_act (ARecv i) e = recv_next i e"
| "mux_act (AWrite i n) e = recv_write i n e"
| "mux_act (ACredit i) e = recv_credit i e"
| "mux_act (ATaskEnd i graceful) e = task_end i graceful e"
| "mux_act (AAbort i) e = abort_send i e"
| "mux_act ARefuse e = refuse_send e"
| "mux_act (AAppWrite i b) e = app_write i b e"
| "mux_act (AAppShutdown i) e = app_shutdown i e"
| "mux_act (AAppReadEof i) e = app_read_eof i e"
| "mux_act (AAppDrop i) e = stream_drop i e"
| "mux_act AClose e = mux_close e"

text \<open>A side is \<open>True\<close> for the initiator; \<open>pr_wire s\<close> is what side \<open>s\<close> has sent and the other has not
  received.\<close>

record MuxPair =
  pr_end :: "bool \<Rightarrow> MuxEnd"
  pr_wire :: "bool \<Rightarrow> bytes list"

definition pair_start :: MuxPair where
  "pair_start = \<lparr>pr_end = mux_start, pr_wire = (\<lambda>_. [])\<rparr>"

datatype pair_event = Act bool mux_action | Flush bool | Deliver bool

text \<open>The writer's task.\<close>

definition pair_flush :: "bool \<Rightarrow> MuxPair \<Rightarrow> MuxPair" where
  "pair_flush s p =
     (case mx_out (pr_end p s) of
        [] \<Rightarrow> p
      | f # fs \<Rightarrow>
          if mx_stopped (pr_end p s) then p
          else p\<lparr>pr_end := (pr_end p)(s := (pr_end p s)\<lparr>mx_out := fs\<rparr>),
                 pr_wire := (pr_wire p)(s := pr_wire p s @ [mux_encode f])\<rparr>)"

text \<open>The reader's task of the side that gets what \<open>s\<close> sent.\<close>

definition read_message :: "bytes \<Rightarrow> MuxEnd \<Rightarrow> MuxEnd" where
  "read_message b e =
     (case rbind (mux_decode b) (\<lambda>f. mux_dispatch f e) of Inl _ \<Rightarrow> mux_close e | Inr e1 \<Rightarrow> e1)"

definition pair_deliver :: "bool \<Rightarrow> MuxPair \<Rightarrow> MuxPair" where
  "pair_deliver s p =
     (case pr_wire p s of
        [] \<Rightarrow> p
      | b # bs \<Rightarrow>
          if mx_stopped (pr_end p (\<not> s)) \<or> mx_refusing (pr_end p (\<not> s)) \<noteq> None then p
          else p\<lparr>pr_end := (pr_end p)(\<not> s := read_message b (pr_end p (\<not> s))),
                 pr_wire := (pr_wire p)(s := bs)\<rparr>)"

fun pair_step :: "pair_event \<Rightarrow> MuxPair \<Rightarrow> MuxPair" where
  "pair_step (Act s a) p = p\<lparr>pr_end := (pr_end p)(s := mux_act a (pr_end p s))\<rparr>"
| "pair_step (Flush s) p = pair_flush s p"
| "pair_step (Deliver s) p = pair_deliver s p"

definition pair_run :: "pair_event list \<Rightarrow> MuxPair \<Rightarrow> MuxPair" where
  "pair_run es p = fold pair_step es p"

text \<open>How often a side has opened a stream.\<close>

definition opens_of :: "bool \<Rightarrow> pair_event list \<Rightarrow> nat" where
  "opens_of s es = length (filter (\<lambda>ev. case ev of Act s' (AOpen _ _) \<Rightarrow> s' = s | _ \<Rightarrow> False) es)"

end
