(* ===== verification/Preview_Flow.thy ===== *)
theory Preview_Flow
  imports Preview_Mux
begin

text \<open>
  One stream between two ends: what an end may do to its half of a stream (\<open>lstep\<close>, \<open>lrecv\<close>), and
  the invariants of a stream: the window accounts for every byte, the bytes stay in order, an END is
  the last of them, and nothing but a CANCEL precedes the acceptance.
\<close>

section \<open>Measures\<close>

definition dat :: "MuxFrame list \<Rightarrow> bytes" where
  "dat fs = concat (map (\<lambda>f. if is_data f then mf_data f else []) fs)"

definition ends :: "MuxFrame list \<Rightarrow> nat" where
  "ends fs = length (filter is_end fs)"

definition is_open :: "MuxFrame \<Rightarrow> bool" where
  "is_open f \<longleftrightarrow> mf_kind f = OPEN \<or> mf_kind f = WS_OPEN"

definition openings :: "MuxFrame list \<Rightarrow> nat" where
  "openings fs = length (filter is_open fs)"

definition credits :: "MuxFrame list \<Rightarrow> nat" where
  "credits fs = sum_list (map (\<lambda>f. if mf_kind f = CREDIT then unat (from_be4 (mf_data f)) else 0) fs)"

fun end_last :: "MuxFrame list \<Rightarrow> bool" where
  "end_last [] = True"
| "end_last (f # fs) = ((is_end f \<longrightarrow> dat fs = []) \<and> end_last fs)"

definition only_cancel :: "MuxFrame list \<Rightarrow> bool" where
  "only_cancel fs \<longleftrightarrow> (\<forall>f \<in> set fs. mf_kind f = CANCEL)"

named_theorems measure_simps

lemma measures_Nil [measure_simps]:
  "dat [] = []" "ends [] = 0" "openings [] = 0" "credits [] = 0" "only_cancel []"
  by (simp_all add: dat_def ends_def openings_def credits_def only_cancel_def)

lemma measures_Cons [measure_simps]:
  "dat (f # fs) = (if is_data f then mf_data f else []) @ dat fs"
  "ends (f # fs) = (if is_end f then 1 else 0) + ends fs"
  "openings (f # fs) = (if is_open f then 1 else 0) + openings fs"
  "credits (f # fs) = (if mf_kind f = CREDIT then unat (from_be4 (mf_data f)) else 0) + credits fs"
  "only_cancel (f # fs) \<longleftrightarrow> mf_kind f = CANCEL \<and> only_cancel fs"
  by (simp_all add: dat_def ends_def openings_def credits_def only_cancel_def)

lemma measures_append [measure_simps]:
  "dat (fs @ gs) = dat fs @ dat gs" "ends (fs @ gs) = ends fs + ends gs"
  "openings (fs @ gs) = openings fs + openings gs" "credits (fs @ gs) = credits fs + credits gs"
  "only_cancel (fs @ gs) \<longleftrightarrow> only_cancel fs \<and> only_cancel gs"
  by (auto simp: dat_def ends_def openings_def credits_def only_cancel_def)

lemma end_last_append:
  "end_last (fs @ gs) \<longleftrightarrow> end_last fs \<and> end_last gs \<and> (0 < ends fs \<longrightarrow> dat gs = [])"
  by (induction fs) (auto simp: measure_simps)

lemma only_cancel_none:
  assumes "only_cancel fs"
  shows "dat fs = []" "ends fs = 0" "credits fs = 0" "openings fs = 0"
  using assms by (induction fs) (auto simp: measure_simps is_data_def is_end_def is_open_def)

text \<open>What one end holds of a stream.\<close>

definition held :: "MuxSlot \<Rightarrow> bytes" where
  "held x = (case ms_send x of SpAcquiring b \<Rightarrow> b | SpSending b \<Rightarrow> b | _ \<Rightarrow> [])"

definition paid :: "MuxSlot \<Rightarrow> nat" where
  "paid x = (case ms_send x of SpSending b \<Rightarrow> length b | _ \<Rightarrow> 0)"

definition unwritten :: "MuxSlot \<Rightarrow> bytes" where
  "unwritten x = (case ms_recv x of RpWriting b rest \<Rightarrow> rest | _ \<Rightarrow> [])"

definition queued :: "MuxSlot \<Rightarrow> nat" where
  "queued x = length (dat (ms_incoming x)) + (case ms_recv x of RpWriting b rest \<Rightarrow> length b | _ \<Rightarrow> 0)"

definition owed :: "MuxSlot \<Rightarrow> nat" where
  "owed x = (case ms_recv x of RpCrediting n \<Rightarrow> n | _ \<Rightarrow> 0)"

definition incoming :: "MuxSlot option \<Rightarrow> MuxFrame list" where
  "incoming y = (case y of None \<Rightarrow> [] | Some x \<Rightarrow> ms_incoming x)"

definition wrote :: "AppEnd option \<Rightarrow> bytes" where
  "wrote a = (case a of None \<Rightarrow> [] | Some x \<Rightarrow> ap_written x)"

definition unread :: "AppEnd option \<Rightarrow> bytes" where
  "unread a = (case a of None \<Rightarrow> [] | Some x \<Rightarrow> ap_unread x)"

definition received :: "AppEnd option \<Rightarrow> bytes" where
  "received a = (case a of None \<Rightarrow> [] | Some x \<Rightarrow> ap_received x)"

definition saw_end :: "AppEnd option \<Rightarrow> bool" where
  "saw_end a = (case a of None \<Rightarrow> False | Some x \<Rightarrow> ap_eof x)"

definition closed_end :: "AppEnd option \<Rightarrow> bool" where
  "closed_end a = (case a of None \<Rightarrow> False | Some x \<Rightarrow> app_closed x)"

lemmas holds_def = held_def paid_def unwritten_def queued_def owed_def

lemma half_simps [simp]:
  "incoming None = []" "incoming (Some x) = ms_incoming x"
  "wrote None = []" "wrote (Some a) = ap_written a" "unread None = []" "unread (Some a) = ap_unread a"
  "received None = []" "received (Some a) = ap_received a"
  "saw_end None = False" "saw_end (Some a) = ap_eof a"
  "closed_end None = False" "closed_end (Some a) = app_closed a"
  by (simp_all add: incoming_def wrote_def unread_def received_def saw_end_def closed_end_def)

section \<open>What an end does to a stream\<close>

definition service_ok :: "bytes \<Rightarrow> bool" where
  "service_ok s \<longleftrightarrow> s \<noteq> [] \<and> length s \<le> 128 \<and> utf8_ok s"

abbreviation half :: "32 word \<Rightarrow> MuxEnd \<Rightarrow> MuxSlot option \<times> AppEnd option" where
  "half i e \<equiv> (get_slot i e, get_app i e)"

text \<open>\<open>own\<close>: this end opens the streams of this id.\<close>

inductive lstep :: "bool \<Rightarrow> 32 word \<Rightarrow> MuxSlot option \<times> AppEnd option \<Rightarrow> MuxFrame list \<Rightarrow>
    MuxSlot option \<times> AppEnd option \<Rightarrow> bool" for own i where
  Same: "lstep own i h [] h"
| Gone: "lstep own i (x, a) [] (None, a)"
| Opened: "own \<Longrightarrow> service_ok sv \<Longrightarrow>
    lstep own i (None, None) [] (Some (fresh_slot w c), Some (fresh_app (Opening sv)))"
| SentOpen: "ap_holder a = Opening sv \<Longrightarrow> k \<in> {OPEN, WS_OPEN} \<Longrightarrow>
    lstep own i (x, Some a) [frame k i sv] (x, Some (a\<lparr>ap_holder := Waiting\<rparr>))"
| GotReady: "ap_holder a = Waiting \<Longrightarrow> ap_answer a = Some True \<Longrightarrow>
    lstep own i (x, Some a) [] (x, Some (a\<lparr>ap_holder := Held\<rparr>))"
| DroppedStream: "ap_holder a \<noteq> Dropped \<Longrightarrow> x' \<in> {x, map_option (ms_cancelled_update (\<lambda>_. True)) x} \<Longrightarrow>
    lstep own i (x, Some a) [] (x', Some (a\<lparr>ap_holder := Dropped\<rparr>))"
| Connected: "ap_holder a = Connecting sv \<Longrightarrow>
    lstep own i (x, Some a) [] (x, Some (a\<lparr>ap_holder := Announcing\<rparr>))"
| SentReady: "ap_holder a = Announcing \<Longrightarrow>
    lstep own i (x, Some a) [frame READY i []] (x, Some (a\<lparr>ap_holder := Held\<rparr>))"
| ReadEnd: "ms_send x = SpReading \<Longrightarrow> ap_unread a = [] \<Longrightarrow> app_closed a \<Longrightarrow>
    lstep own i (Some x, Some a) [] (Some (x\<lparr>ms_send := SpEnding\<rparr>), Some a)"
| Read: "ms_send x = SpReading \<Longrightarrow> ap_unread a \<noteq> [] \<Longrightarrow> 0 < k \<Longrightarrow> k \<le> CHUNK \<Longrightarrow>
    lstep own i (Some x, Some a) [] (Some (x\<lparr>ms_send := SpAcquiring (take k (ap_unread a))\<rparr>),
      Some (a\<lparr>ap_unread := drop k (ap_unread a)\<rparr>))"
| Acquired: "ms_send x = SpAcquiring b \<Longrightarrow> length b \<le> ms_credit x \<Longrightarrow>
    lstep own i (Some x, a) []
      (Some (x\<lparr>ms_credit := ms_credit x - length b, ms_send := SpSending b\<rparr>), a)"
| SentData: "ms_send x = SpSending b \<Longrightarrow> k \<in> {DATA, WS_DATA} \<Longrightarrow>
    lstep own i (Some x, a) [frame k i b] (Some (x\<lparr>ms_send := SpReading\<rparr>), a)"
| SentEnd: "ms_send x = SpEnding \<Longrightarrow> k \<in> {END, WS_CLOSE} \<Longrightarrow>
    lstep own i (Some x, a) [frame k i []] (Some (x\<lparr>ms_send := SpSent\<rparr>), a)"
| TookEnd: "ms_recv x = RpReceiving \<Longrightarrow> ms_incoming x = f # fs \<Longrightarrow> is_end f \<Longrightarrow>
    lstep own i (Some x, Some a) [] (Some (x\<lparr>ms_incoming := fs, ms_recv := RpReceived\<rparr>),
      Some (a\<lparr>ap_eof := True\<rparr>))"
| TookData: "ms_recv x = RpReceiving \<Longrightarrow> ms_incoming x = f # fs \<Longrightarrow> \<not> is_end f \<Longrightarrow>
    lstep own i (Some x, a) []
      (Some (x\<lparr>ms_incoming := fs, ms_recv := RpWriting (mf_data f) (mf_data f)\<rparr>), a)"
| Wrote: "ms_recv x = RpWriting b rest \<Longrightarrow>
    lstep own i (Some x, Some a) [] (Some (x\<lparr>ms_recv := RpWriting b (drop n rest)\<rparr>),
      Some (a\<lparr>ap_received := ap_received a @ take n rest\<rparr>))"
| WroteAll: "ms_recv x = RpWriting b [] \<Longrightarrow>
    lstep own i (Some x, a) [] (Some (x\<lparr>ms_receive_credit := ms_receive_credit x + length b,
      ms_recv := RpCrediting (length b)\<rparr>), a)"
| SentCredit: "ms_recv x = RpCrediting n \<Longrightarrow>
    lstep own i (Some x, a) [frame CREDIT i (be4 (of_nat n))] (Some (x\<lparr>ms_recv := RpReceiving\<rparr>), a)"
| SentCancel: "lstep own i h [frame CANCEL i []] h"
| AppWrote: "ap_holder a = Held \<Longrightarrow> \<not> ap_shut a \<Longrightarrow>
    lstep own i (Some x, Some a) []
      (Some x, Some (a\<lparr>ap_written := ap_written a @ b, ap_unread := ap_unread a @ b\<rparr>))"
| AppShut: "ap_holder a = Held \<Longrightarrow> lstep own i (x, Some a) [] (x, Some (a\<lparr>ap_shut := True\<rparr>))"
| AppSawEof: "lstep own i (x, Some a) [] (x, Some (a\<lparr>ap_saw_eof := True\<rparr>))"

inductive lrecv :: "MuxFrame \<Rightarrow> MuxSlot option \<times> AppEnd option \<Rightarrow> MuxSlot option \<times> AppEnd option \<Rightarrow> bool"
  for f where
  Late: "\<not> is_open f \<Longrightarrow> lrecv f (None, a) (None, a)"
| Accept: "is_open f \<Longrightarrow> lrecv f (None, a)
    (Some (fresh_slot w c), Some (fresh_app (Connecting (mf_data f))))"
| Refuse: "is_open f \<Longrightarrow> lrecv f h h"
| GotAnswer: "mf_kind f \<in> {READY, CANCEL} \<Longrightarrow> x' \<in> {x, x\<lparr>ms_ready := False\<rparr>, x\<lparr>ms_cancelled := True\<rparr>,
      x\<lparr>ms_cancelled := True, ms_ready := False\<rparr>} \<Longrightarrow>
    a' \<in> {a, map_option (ap_answer_update (\<lambda>_. Some (mf_kind f = READY))) a} \<Longrightarrow>
    lrecv f (Some x, a) (Some x', a')"
| GotCredit: "mf_kind f = CREDIT \<Longrightarrow>
    lrecv f (Some x, a) (Some (x\<lparr>ms_credit := ms_credit x + unat (from_be4 (mf_data f))\<rparr>), a)"
| GotData: "is_data f \<Longrightarrow> length (mf_data f) \<le> ms_receive_credit x \<Longrightarrow>
    lrecv f (Some x, a) (Some (x\<lparr>ms_receive_credit := ms_receive_credit x - length (mf_data f),
      ms_incoming := ms_incoming x @ [f]\<rparr>), a)"
| GotEnd: "is_end f \<Longrightarrow> lrecv f (Some x, a) (Some (x\<lparr>ms_incoming := ms_incoming x @ [f]\<rparr>), a)"

section \<open>The invariants of a stream\<close>

text \<open>In one direction: \<open>x\<close>, \<open>a\<close> is the half that sends the data, \<open>y\<close>, \<open>b\<close> the other; \<open>cs\<close> is on its way
  with the data, \<open>cr\<close> against it.\<close>

text \<open>\<open>spend\<close>: the permits of the sender, and those it has paid for data still in its hands; \<open>room\<close>: the
  receive window, what is queued, what is owed.\<close>

definition spend :: "MuxSlot option \<Rightarrow> nat option" where
  "spend x = map_option (\<lambda>sx. ms_credit sx + paid sx) x"

definition room :: "MuxSlot option \<Rightarrow> (nat \<times> nat \<times> nat) option" where
  "room y = map_option (\<lambda>sy. (ms_receive_credit sy, queued sy, owed sy)) y"

definition ledger :: "nat option \<Rightarrow> (nat \<times> nat \<times> nat) option \<Rightarrow> nat \<Rightarrow> nat \<Rightarrow> bool" where
  "ledger sp wi d c \<longleftrightarrow>
     (case sp of
        None \<Rightarrow> True
      | Some s \<Rightarrow> (case wi of None \<Rightarrow> s + d + c \<le> WINDOW | Some (r, q, ow) \<Rightarrow> s + d + q + ow + c = WINDOW)) \<and>
     (case wi of None \<Rightarrow> True | Some (r, q, ow) \<Rightarrow> r + q = WINDOW \<and> d \<le> r)"

definition credit_ok :: "MuxSlot option \<Rightarrow> MuxSlot option \<Rightarrow> MuxFrame list \<Rightarrow> MuxFrame list \<Rightarrow> bool" where
  "credit_ok x y cs cr \<longleftrightarrow> ledger (spend x) (room y) (length (dat cs)) (credits cr)"

definition order_ok :: "MuxSlot option \<Rightarrow> AppEnd option \<Rightarrow> MuxSlot option \<Rightarrow> AppEnd option \<Rightarrow>
    MuxFrame list \<Rightarrow> bool" where
  "order_ok x a y b cs \<longleftrightarrow>
     (case y of
        None \<Rightarrow> prefix (received b) (wrote a)
      | Some sy \<Rightarrow>
          (case x of
             None \<Rightarrow> prefix (received b @ unwritten sy @ dat (ms_incoming sy) @ dat cs) (wrote a)
           | Some sx \<Rightarrow>
               received b @ unwritten sy @ dat (ms_incoming sy) @ dat cs @ held sx @ unread a = wrote a))"

definition end_ok :: "MuxSlot option \<Rightarrow> AppEnd option \<Rightarrow> MuxSlot option \<Rightarrow> AppEnd option \<Rightarrow>
    MuxFrame list \<Rightarrow> bool" where
  "end_ok x a y b cs \<longleftrightarrow>
     (\<forall>sx. x = Some sx \<longrightarrow>
        (ms_send sx \<in> {SpEnding, SpSent} \<longrightarrow> unread a = [] \<and> closed_end a) \<and>
        (ms_send sx \<noteq> SpSent \<longrightarrow> ends (incoming y @ cs) = 0 \<and> \<not> saw_end b)) \<and>
     ends (incoming y @ cs) \<le> 1 \<and> end_last (incoming y @ cs) \<and>
     (ends (incoming y @ cs) = 1 \<longrightarrow> closed_end a \<and> (\<forall>sy. y = Some sy \<longrightarrow>
        received b @ unwritten sy @ dat (ms_incoming sy) @ dat cs = wrote a)) \<and>
     (saw_end b \<longrightarrow> closed_end a \<and> received b = wrote a)"

text \<open>The slot and the frames of an honest end.\<close>

definition frame_ok :: "MuxFrame \<Rightarrow> bool" where
  "frame_ok f \<longleftrightarrow>
     mf_kind f \<in> {OPEN, DATA, END, CANCEL, WS_OPEN, WS_DATA, WS_CLOSE, CREDIT, READY} \<and>
     length (mf_data f) \<le> CHUNK \<and> (is_data f \<longrightarrow> mf_data f \<noteq> []) \<and>
     (mf_kind f = CREDIT \<longrightarrow> length (mf_data f) = 4 \<and> 0 < unat (from_be4 (mf_data f))) \<and>
     (is_open f \<longrightarrow> service_ok (mf_data f))"

definition chunk_ok :: "bytes \<Rightarrow> bool" where
  "chunk_ok b \<longleftrightarrow> b \<noteq> [] \<and> length b \<le> CHUNK"

definition slot_ok :: "MuxSlot \<Rightarrow> bool" where
  "slot_ok x \<longleftrightarrow>
     (\<forall>f \<in> set (ms_incoming x). frame_ok f \<and> (is_data f \<or> is_end f)) \<and>
     (case ms_send x of SpAcquiring b \<Rightarrow> chunk_ok b | SpSending b \<Rightarrow> chunk_ok b | _ \<Rightarrow> True) \<and>
     (case ms_recv x of RpWriting b rest \<Rightarrow> chunk_ok b | RpCrediting n \<Rightarrow> 0 < n \<and> n \<le> CHUNK | _ \<Rightarrow> True)"

definition holder_ok :: "AppEnd \<Rightarrow> bool" where
  "holder_ok a \<longleftrightarrow> (case ap_holder a of Opening sv \<Rightarrow> service_ok sv | _ \<Rightarrow> True)"

definition half_ok :: "MuxSlot option \<times> AppEnd option \<Rightarrow> bool" where
  "half_ok h \<longleftrightarrow> (case fst h of None \<Rightarrow> True | Some x \<Rightarrow> slot_ok x \<and> snd h \<noteq> None) \<and>
     (case snd h of None \<Rightarrow> True | Some a \<Rightarrow> holder_ok a)"

text \<open>\<open>x\<close>, \<open>a\<close> is the half of the end that opened the stream.\<close>

definition opening_side :: "AppEnd option \<Rightarrow> bool" where
  "opening_side a \<longleftrightarrow> (case a of None \<Rightarrow> False | Some ax \<Rightarrow> (\<exists>sv. ap_holder ax = Opening sv))"

definition waiting_side :: "AppEnd option \<Rightarrow> bool" where
  "waiting_side a \<longleftrightarrow> (case a of None \<Rightarrow> False | Some ax \<Rightarrow> ap_holder ax = Waiting)"

definition accepting_side :: "AppEnd option \<Rightarrow> bool" where
  "accepting_side a \<longleftrightarrow>
     (case a of None \<Rightarrow> False | Some ax \<Rightarrow> ap_holder ax = Announcing \<or> (\<exists>sv. ap_holder ax = Connecting sv))"

definition untouched_app :: "AppEnd option \<Rightarrow> bool" where
  "untouched_app a \<longleftrightarrow>
     (case a of
        None \<Rightarrow> True
      | Some ax \<Rightarrow> ap_holder ax \<noteq> Held \<and> ap_answer ax \<noteq> Some True \<and> ap_written ax = [] \<and>
          ap_unread ax = [] \<and> ap_received ax = [] \<and> \<not> ap_eof ax)"

definition untouched_slot :: "MuxSlot option \<Rightarrow> bool" where
  "untouched_slot x \<longleftrightarrow>
     (case x of
        None \<Rightarrow> True
      | Some sx \<Rightarrow> ms_credit sx = WINDOW \<and> ms_receive_credit sx = WINDOW \<and>
          ms_send sx \<in> {SpReading, SpEnding, SpSent} \<and> ms_recv sx = RpReceiving \<and> ms_incoming sx = [])"

definition quiet :: "MuxSlot option \<Rightarrow> AppEnd option \<Rightarrow> MuxSlot option \<Rightarrow> MuxFrame list \<Rightarrow> MuxFrame list \<Rightarrow> bool" where
  "quiet x a y cs cr \<longleftrightarrow> y = None \<and> only_cancel cr \<and> dat cs = [] \<and> credits cs = 0 \<and>
     untouched_app a \<and> untouched_slot x"

definition open_ok :: "MuxSlot option \<Rightarrow> AppEnd option \<Rightarrow> AppEnd option \<Rightarrow> MuxSlot option \<Rightarrow>
    MuxFrame list \<Rightarrow> MuxFrame list \<Rightarrow> bool" where
  "open_ok x a b y cs cr \<longleftrightarrow>
     openings cr = 0 \<and> openings cs \<le> 1 \<and> (openings cs = 1 \<longrightarrow> b = None) \<and>
     (a = None \<longrightarrow> b = None \<and> openings cs = 0) \<and>
     \<not> accepting_side a \<and> (opening_side a \<longrightarrow> b = None \<and> openings cs = 0) \<and>
     \<not> opening_side b \<and> \<not> waiting_side b \<and> (b = None \<longrightarrow> quiet x a y cs cr)"

section \<open>Every step keeps them\<close>

lemma is_frame [measure_simps]:
  "mf_kind (frame k i d) = k" "mf_id (frame k i d) = i" "mf_data (frame k i d) = d"
  by (simp_all add: frame_def)

lemma length_be4 [simp]: "length (be4 w) = 4"
  by (simp add: be4_def)

lemma from_be4_be4 [simp]: "from_be4 (be4 w) = w"
proof -
  have "unat w < 2 ^ 32" using unsigned_less [of w] by simp
  then show ?thesis by (simp add: from_be4_def be4_def from_le4_le4)
qed

lemma credit_small: "n \<le> CHUNK \<Longrightarrow> unat (of_nat n :: 32 word) = n"
  by (simp add: unat_of_nat CHUNK_def)

lemmas kind_defs = is_data_def is_end_def is_open_def

lemma frame_kinds [measure_simps]:
  "is_data (frame k i d) \<longleftrightarrow> k = DATA \<or> k = WS_DATA" "is_end (frame k i d) \<longleftrightarrow> k = END \<or> k = WS_CLOSE"
  "is_open (frame k i d) \<longleftrightarrow> k = OPEN \<or> k = WS_OPEN"
  by (simp_all add: kind_defs frame_def)

lemma half_ok_Some [simp]:
  "half_ok (Some x, a) \<longleftrightarrow> slot_ok x \<and> a \<noteq> None \<and> half_ok (None, a)"
  "half_ok (y, Some b) \<longleftrightarrow> holder_ok b \<and> (\<forall>sx. y = Some sx \<longrightarrow> slot_ok sx)"
  "half_ok (None, None)"
  by (auto simp: half_ok_def split: option.splits)

lemma slot_ok_send:
  "slot_ok x \<Longrightarrow> ms_send x = SpAcquiring b \<or> ms_send x = SpSending b \<Longrightarrow> chunk_ok b"
  "slot_ok x \<Longrightarrow> ms_recv x = RpWriting b rest \<Longrightarrow> chunk_ok b"
  "slot_ok x \<Longrightarrow> ms_recv x = RpCrediting n \<Longrightarrow> 0 < n \<and> n \<le> CHUNK"
  by (auto simp: slot_ok_def)

lemma incoming_data: "slot_ok x \<Longrightarrow> ms_incoming x = f # fs \<Longrightarrow> \<not> is_end f \<Longrightarrow> is_data f"
  by (auto simp: slot_ok_def)

lemma end_not_data: "is_end f \<Longrightarrow> \<not> is_data f"
  by (auto simp: kind_defs)

lemma cancel_opt [measure_simps]:
  "map_option (ms_cancelled_update f) x = Some z \<longleftrightarrow> (\<exists>y. x = Some y \<and> z = ms_cancelled_update f y)"
  by (cases x) auto

lemma held_cancel [simp]: "held (ms_cancelled_update f x) = held x" "unwritten (ms_cancelled_update f x) = unwritten x"
  by (simp_all add: held_def unwritten_def)

lemma cancel_room [simp]:
  "spend (map_option (ms_cancelled_update f) x) = spend x" "room (map_option (ms_cancelled_update f) x) = room x"
  by (cases x; simp add: spend_def room_def paid_def queued_def owed_def)+

lemma spend_opt [simp]: "spend None = None" "spend (Some x) = Some (ms_credit x + paid x)"
  by (simp_all add: spend_def)

lemma room_opt [simp]: "room None = None" "room (Some y) = Some (ms_receive_credit y, queued y, owed y)"
  by (simp_all add: room_def)

lemma lstep_spend:
  assumes "lstep own i (x, a) fs (x', a')"
  shows "spend x' = None \<and> dat fs = [] \<or> (\<exists>s. spend x = Some (s + length (dat fs)) \<and> spend x' = Some s) \<or>
    own \<and> x = None \<and> a = None \<and> fs = [] \<and> spend x' = Some WINDOW"
  using assms
proof (cases rule: lstep.cases)
  case (DroppedStream a)
  then show ?thesis by (cases x) (auto simp: paid_def measure_simps)
qed (cases x; auto simp: paid_def fresh_slot_def measure_simps; fail)+

lemma lstep_room:
  assumes "lstep own i (y, b) fs (y', b')" and h: "half_ok (y, b)"
  shows "room y' = None \<and> credits fs = 0 \<or>
    (\<exists>r q ow r' q' ow'. room y = Some (r, q, ow) \<and> room y' = Some (r', q', ow') \<and> r' + q' = r + q \<and>
       q' + ow' + credits fs = q + ow \<and> r \<le> r') \<or>
    own \<and> y = None \<and> b = None \<and> fs = [] \<and> room y' = Some (WINDOW, 0, 0)"
  using assms(1)
proof (cases rule: lstep.cases)
  case (TookData x f fs)
  then show ?thesis using h incoming_data [of x f fs]
    by (auto simp: queued_def owed_def measure_simps)
next
  case (TookEnd x f fs)
  then show ?thesis by (auto simp: queued_def owed_def measure_simps end_not_data)
next
  case (SentCredit sx n)
  then have "n \<le> CHUNK" using h by (auto dest: slot_ok_send)
  then show ?thesis using SentCredit
    by (auto simp: queued_def owed_def measure_simps credit_small)
next
  case (WroteAll sx bb)
  then show ?thesis by (auto simp: queued_def owed_def measure_simps)
next
  case (Wrote sx bb rest ax n)
  then show ?thesis by (auto simp: queued_def owed_def measure_simps)
next
  case (Opened sv w c)
  then show ?thesis by (simp add: queued_def owed_def measure_simps fresh_slot_def)
qed (cases y; auto simp: queued_def owed_def measure_simps; fail)+

lemma credit_step_from:
  assumes l: "lstep own i (x, a) fs (x', a')" and c: "credit_ok x y cs cr" and h: "half_ok (x, a)"
    and o: "own \<Longrightarrow> open_ok x a b y cs cr"
  shows "credit_ok x' y (cs @ fs) cr"
  using lstep_spend [OF l]
proof (elim disjE exE conjE)
  assume "spend x' = None" "dat fs = []"
  then show ?thesis using c
    by (auto simp: credit_ok_def ledger_def measure_simps split: option.splits)
next
  fix s assume "spend x = Some (s + length (dat fs))" "spend x' = Some s"
  then show ?thesis using c by (auto simp: credit_ok_def ledger_def measure_simps split: option.splits)
next
  assume "own" "a = None" "fs = []" "spend x' = Some WINDOW"
  then show ?thesis using o
    by (auto simp: credit_ok_def ledger_def open_ok_def quiet_def room_def only_cancel_none)
qed

lemma credit_step_to:
  assumes l: "lstep own i (y, b) fs (y', b')" and c: "credit_ok x y cs cr" and h: "half_ok (y, b)"
    and o: "own \<Longrightarrow> open_ok y b a x cr cs"
  shows "credit_ok x y' cs (cr @ fs)"
  using lstep_room [OF l h]
proof (elim disjE exE conjE)
  assume "room y' = None" "credits fs = 0"
  then show ?thesis using c
    by (auto simp: credit_ok_def ledger_def measure_simps split: option.splits)
next
  fix r q ow r' q' ow'
  assume "room y = Some (r, q, ow)" "room y' = Some (r', q', ow')" "r' + q' = r + q"
    "q' + ow' + credits fs = q + ow" "r \<le> r'"
  then show ?thesis using c by (auto simp: credit_ok_def ledger_def measure_simps split: option.splits)
next
  assume "own" "b = None" "fs = []" "room y' = Some (WINDOW, 0, 0)"
  then show ?thesis using o
    by (auto simp: credit_ok_def ledger_def open_ok_def quiet_def spend_def only_cancel_none)
qed

lemmas fresh_defs = fresh_slot_def fresh_app_def

lemma order_step_from:
  assumes l: "lstep own i (x, a) fs (x', a')" and c: "order_ok x a y b cs" and h: "half_ok (x, a)"
    and o: "own \<Longrightarrow> open_ok x a b y cs cr"
  shows "order_ok x' a' y b (cs @ fs)"
  using l
proof (cases rule: lstep.cases)
  case (Opened sv w c)
  then show ?thesis using o [OF \<open>own\<close>] by (auto simp: order_ok_def open_ok_def quiet_def)
next
  case Gone
  then show ?thesis using c
    by (auto simp: order_ok_def split: option.splits) (metis append_assoc prefixI)
next
  case (DroppedStream a)
  then show ?thesis using c by (cases x) (auto simp: order_ok_def split: option.splits)
qed (use c in \<open>auto simp: order_ok_def held_def measure_simps split: option.splits\<close>)

lemma order_step_to:
  assumes l: "lstep own i (y, b) fs (y', b')" and c: "order_ok x a y b cs" and h: "half_ok (y, b)"
    and o: "own \<Longrightarrow> open_ok y b a x cr cs"
  shows "order_ok x a y' b' cs"
  using l
proof (cases rule: lstep.cases)
  case (Opened sv w c)
  then show ?thesis using o [OF \<open>own\<close>]
    by (auto simp: order_ok_def open_ok_def quiet_def fresh_defs unwritten_def measure_simps only_cancel_none)
next
  case (TookData x f fs)
  then show ?thesis using c h incoming_data [of x f fs]
    by (auto simp: order_ok_def unwritten_def measure_simps split: option.splits)
next
  case (TookEnd x f fs)
  then show ?thesis using c
    by (auto simp: order_ok_def unwritten_def measure_simps end_not_data split: option.splits)
next
  case (Wrote sx bb rest ax n)
  have w: "take n rest @ drop n rest @ r = rest @ r" for r
    by (simp flip: append_assoc)
  show ?thesis using c Wrote
    by (auto simp: order_ok_def unwritten_def w split: option.splits)
next
  case Gone
  then show ?thesis using c
    by (auto simp: order_ok_def split: option.splits) (meson append_prefixD, metis prefixI)
next
  case (DroppedStream a)
  then show ?thesis using c by (cases y) (auto simp: order_ok_def split: option.splits)
qed (use c in \<open>auto simp: order_ok_def unwritten_def measure_simps split: option.splits\<close>)

lemma end_same:
  assumes "end_ok x a y b cs" "\<And>sx'. x' = Some sx' \<Longrightarrow> \<exists>sx. x = Some sx \<and> ms_send sx' = ms_send sx"
    "unread a' = unread a" "closed_end a \<Longrightarrow> closed_end a'" "wrote a' = wrote a" "ends fs = 0" "dat fs = []"
  shows "end_ok x' a' y b (cs @ fs)"
proof -
  have "end_last fs" using assms(6) by (induction fs) (auto simp: measure_simps)
  then show ?thesis using assms
    by (auto simp: end_ok_def end_last_append measure_simps; blast)
qed

lemma end_step_from:
  assumes l: "lstep own i (x, a) fs (x', a')" and c: "end_ok x a y b cs" and h: "half_ok (x, a)"
    and q: "order_ok x a y b cs" and o: "own \<Longrightarrow> open_ok x a b y cs cr"
  shows "end_ok x' a' y b (cs @ fs)"
  using l
proof (cases rule: lstep.cases)
  case (Opened sv w c)
  then show ?thesis using o [OF \<open>own\<close>] c
    by (auto simp: end_ok_def open_ok_def quiet_def fresh_defs measure_simps)
next
  case (SentData sx d k)
  then show ?thesis using c q
    by (auto simp: end_ok_def end_last_append measure_simps split: option.splits)
next
  case (SentEnd sx k)
  then show ?thesis using c q
    by (auto simp: end_ok_def order_ok_def held_def end_last_append measure_simps split: option.splits)
next
  case (DroppedStream ax)
  then show ?thesis using c by (cases x) (auto simp: end_ok_def app_closed_def measure_simps)
next
  case (AppWrote ax sx d)
  then show ?thesis using c by (auto simp: end_ok_def app_closed_def)
next
  case (ReadEnd sx ax)
  then show ?thesis using c by (auto simp: end_ok_def)
next
  case (Read sx ax k)
  then show ?thesis using c by (auto simp: end_ok_def)
next
  case (Acquired sx d)
  then show ?thesis using c by (auto simp: end_ok_def)
qed (rule end_same [OF c]; auto simp: app_closed_def measure_simps; fail)+

lemma end_step_to:
  assumes l: "lstep own i (y, b) fs (y', b')" and c: "end_ok x a y b cs" and h: "half_ok (y, b)"
    and q: "order_ok x a y b cs" and o: "own \<Longrightarrow> open_ok y b a x cr cs"
  shows "end_ok x a y' b' cs"
  using l
proof (cases rule: lstep.cases)
  case (Opened sv w c)
  then show ?thesis using o [OF \<open>own\<close>] c
    by (auto simp: end_ok_def open_ok_def quiet_def fresh_defs unwritten_def measure_simps only_cancel_none)
next
  case (TookData x f fs)
  then show ?thesis using c h incoming_data [of x f fs]
    by (auto simp: end_ok_def unwritten_def measure_simps)
next
  case (TookEnd x f fs)
  then show ?thesis using c
    by (auto simp: end_ok_def unwritten_def measure_simps end_not_data)
next
  case (Wrote sx bb rest ax n)
  have w: "take n rest @ drop n rest @ r = rest @ r" for r
    by (simp flip: append_assoc)
  show ?thesis using c q Wrote
    by (auto simp: end_ok_def order_ok_def unwritten_def w split: option.splits)
next
  case (DroppedStream ax)
  then show ?thesis using c by (cases y) (auto simp: end_ok_def measure_simps)
next
  case Gone
  then show ?thesis using c by (cases y) (auto simp: end_ok_def end_last_append measure_simps)
qed (use c in \<open>auto simp: end_ok_def unwritten_def measure_simps\<close>)

text \<open>The opening of a stream: the steps of its owner, and of the other end.\<close>

lemmas half_defs = opening_side_def waiting_side_def accepting_side_def untouched_app_def untouched_slot_def

lemma open_step_from:
  assumes l: "lstep True i (x, a) fs (x', a')" and c: "open_ok x a b y cs cr" and h: "half_ok (x, a)"
  shows "open_ok x' a' b y (cs @ fs) cr"
  using l
proof (cases rule: lstep.cases)
  case (DroppedStream ax)
  then show ?thesis using c
    by (cases x; cases b) (auto simp: open_ok_def quiet_def half_defs measure_simps)
next
  case (Opened sv w c)
  then show ?thesis using c
    by (simp add: open_ok_def quiet_def half_defs fresh_defs measure_simps)
next
  case (SentOpen ax sv k)
  then show ?thesis using c by (auto simp: open_ok_def quiet_def half_defs measure_simps)
qed (use c in \<open>cases b; auto simp: open_ok_def quiet_def half_defs measure_simps; fail\<close>)+

lemma open_step_to:
  assumes l: "lstep False i (y, b) fs (y', b')" and c: "open_ok x a b y cs cr" and h: "half_ok (y, b)"
  shows "open_ok x a b' y' cs (cr @ fs)"
  using l
proof (cases rule: lstep.cases)
  case (SentOpen ax sv k)
  then show ?thesis using c by (auto simp: open_ok_def half_defs)
next
  case SentCancel
  then show ?thesis using c by (auto simp: open_ok_def quiet_def measure_simps)
qed (use c h in \<open>cases b; auto simp: open_ok_def quiet_def half_defs measure_simps; fail\<close>)+

lemma slot_ok_chunk: "frame_ok f \<Longrightarrow> is_data f \<Longrightarrow> chunk_ok (mf_data f)"
  by (simp add: frame_ok_def chunk_ok_def)

lemma half_step:
  assumes l: "lstep own i (x, a) fs (x', a')" and h: "half_ok (x, a)"
  shows "half_ok (x', a')"
  using l
proof (cases rule: lstep.cases)
  case (Opened sv w c)
  then show ?thesis by (simp add: slot_ok_def holder_ok_def fresh_defs)
next
  case (DroppedStream ax)
  then show ?thesis using h by (cases x) (auto simp: slot_ok_def holder_ok_def)
next
  case (TookData sx f fs)
  then show ?thesis using h incoming_data [of sx f fs]
    by (simp add: slot_ok_def slot_ok_chunk)
next
  case (Read sx ax k)
  then show ?thesis using h by (auto simp: slot_ok_def chunk_ok_def holder_ok_def)
next
  case (WroteAll sx d)
  then show ?thesis using h by (auto simp: slot_ok_def chunk_ok_def)
next
  case Gone
  then show ?thesis using h by (cases x) auto
qed (use h in \<open>auto simp: slot_ok_def holder_ok_def; fail\<close>)+

lemma frames_step:
  assumes l: "lstep own i (x, a) fs (x', a')" and h: "half_ok (x, a)"
  shows "\<forall>f \<in> set fs. frame_ok f \<and> mf_id f = i"
  using l
proof (cases rule: lstep.cases)
  case (SentCredit sx n)
  then show ?thesis using h slot_ok_send(3) [of sx n]
    by (auto simp: frame_ok_def measure_simps credit_small) (simp add: CHUNK_def)
next
  case (SentOpen ax sv k)
  then show ?thesis using h
    by (auto simp: holder_ok_def frame_ok_def service_ok_def measure_simps CHUNK_def)
next
  case (SentData sx d k)
  then show ?thesis using h slot_ok_send(1) [of sx d]
    by (auto simp: frame_ok_def chunk_ok_def measure_simps)
qed (use h in \<open>auto simp: frame_ok_def measure_simps; fail\<close>)+

section \<open>Every frame received keeps them\<close>

lemma half_sides [simp]:
  "ms_credit (fresh_slot w c) = WINDOW" "ms_receive_credit (fresh_slot w c) = WINDOW"
  "paid (fresh_slot w c) = 0" "queued (fresh_slot w c) = 0" "owed (fresh_slot w c) = 0"
  "ms_incoming (fresh_slot w c) = []" "ms_send (fresh_slot w c) = SpReading"
  "ms_recv (fresh_slot w c) = RpReceiving"
  "ap_written (fresh_app h) = []" "ap_unread (fresh_app h) = []" "ap_received (fresh_app h) = []"
  "\<not> ap_eof (fresh_app h)" "ap_holder (fresh_app h) = h"
  "unwritten (fresh_slot w c) = []" "held (fresh_slot w c) = []"
  by (simp_all add: fresh_defs paid_def queued_def owed_def unwritten_def held_def measure_simps)

lemma kinds_apart:
  "is_open f \<Longrightarrow> \<not> is_data f \<and> \<not> is_end f \<and> mf_kind f \<noteq> CREDIT \<and> mf_kind f \<noteq> CANCEL"
  "is_data f \<Longrightarrow> \<not> is_open f \<and> \<not> is_end f \<and> mf_kind f \<noteq> CREDIT \<and> mf_kind f \<noteq> CANCEL"
  "is_end f \<Longrightarrow> \<not> is_open f \<and> \<not> is_data f \<and> mf_kind f \<noteq> CREDIT \<and> mf_kind f \<noteq> CANCEL"
  "mf_kind f = CREDIT \<Longrightarrow> \<not> is_open f \<and> \<not> is_data f \<and> \<not> is_end f"
  "mf_kind f = READY \<or> mf_kind f = CANCEL \<Longrightarrow> \<not> is_open f \<and> \<not> is_data f \<and> \<not> is_end f \<and> mf_kind f \<noteq> CREDIT"
  by (auto simp: kind_defs)

lemma opened_quiet:
  assumes f: "is_open f" and c: "open_ok x a b y (f # cs) cr"
  shows "b = None \<and> a \<noteq> None \<and> openings cs = 0 \<and> quiet x a y cs cr"
proof -
  have n: "openings (f # cs) = Suc (openings cs)" "dat (f # cs) = dat cs" "credits (f # cs) = credits cs"
    using f kinds_apart(1) [OF f] by (simp_all add: measure_simps)
  then have "b = None" "a \<noteq> None" "openings cs = 0" using c unfolding open_ok_def by auto
  moreover have "quiet x a y cs cr" using c \<open>b = None\<close> n by (simp add: open_ok_def quiet_def)
  ultimately show ?thesis by simp
qed

lemma quiet_simps:
  assumes "quiet x a y cs cr"
  shows "y = None" "dat cs = []" "credits cs = 0" "dat cr = []" "credits cr = 0" "ends cr = 0"
    "openings cr = 0" "wrote a = []" "unread a = []" "received a = []" "\<not> saw_end a" "incoming x = []"
    "spend x = None \<or> spend x = Some WINDOW" "room x = None \<or> room x = Some (WINDOW, 0, 0)"
    "x = Some sx \<Longrightarrow> held sx = [] \<and> unwritten sx = []"
  using assms only_cancel_none [of cr]
  by (auto simp: quiet_def untouched_app_def untouched_slot_def paid_def queued_def owed_def held_def
      unwritten_def measure_simps split: option.splits)

text \<open>An answer to an open, or a cancellation, touches neither the data nor the credit.\<close>

lemma answer_slot:
  assumes "x' \<in> {x, x\<lparr>ms_ready := False\<rparr>, x\<lparr>ms_cancelled := True\<rparr>, x\<lparr>ms_cancelled := True, ms_ready := False\<rparr>}"
  shows "ms_send x' = ms_send x" "ms_recv x' = ms_recv x" "ms_incoming x' = ms_incoming x"
    "ms_credit x' = ms_credit x" "ms_receive_credit x' = ms_receive_credit x"
    "held x' = held x" "unwritten x' = unwritten x" "spend (Some x') = spend (Some x)"
    "room (Some x') = room (Some x)"
  using assms by (auto simp: holds_def)

lemma answer_app:
  assumes "a' \<in> {a, map_option (ap_answer_update g) a}"
  shows "wrote a' = wrote a" "unread a' = unread a" "received a' = received a" "saw_end a' = saw_end a"
    "closed_end a' = closed_end a" "opening_side a' = opening_side a" "waiting_side a' = waiting_side a"
    "accepting_side a' = accepting_side a" "a' = None \<longleftrightarrow> a = None"
  using assms by (cases a; auto simp: app_closed_def opening_side_def waiting_side_def accepting_side_def)+

lemma credit_recv_to:
  assumes l: "lrecv f (y, b) (y', b')" and c: "credit_ok x y (f # cs) cr"
    and o: "is_open f \<Longrightarrow> open_ok x a b y (f # cs) cr"
  shows "credit_ok x y' cs cr"
  using l
proof (cases rule: lrecv.cases)
  case (Accept w c)
  then have "quiet x a y cs cr" using opened_quiet [OF _ o] by blast
  note quiet_simps [OF this]
  then show ?thesis using Accept by (auto simp: credit_ok_def ledger_def)
next
  case (GotAnswer x' x)
  then show ?thesis using c kinds_apart(5) [of f] answer_slot(9) [OF GotAnswer(4)]
    by (auto simp: credit_ok_def measure_simps)
next
  case (GotData sx)
  then show ?thesis using c kinds_apart(2) [of f]
    by (auto simp: credit_ok_def ledger_def measure_simps queued_def owed_def split: option.splits)
next
  case (GotEnd sx)
  then show ?thesis using c kinds_apart(3) [of f]
    by (auto simp: credit_ok_def ledger_def measure_simps queued_def owed_def split: option.splits)
next
  case (GotCredit sx)
  then show ?thesis using c kinds_apart(4) [of f]
    by (auto simp: credit_ok_def ledger_def measure_simps queued_def owed_def split: option.splits)
next
  case Refuse
  then show ?thesis using c kinds_apart(1) [of f] by (auto simp: credit_ok_def measure_simps)
qed (use c in \<open>auto simp: credit_ok_def ledger_def measure_simps split: option.splits\<close>)

lemma credit_recv_from:
  assumes l: "lrecv f (y, b) (y', b')" and c: "credit_ok y x cs (f # cr)"
    and o: "is_open f \<Longrightarrow> open_ok x a b y (f # cr) cs"
  shows "credit_ok y' x cs cr"
  using l
proof (cases rule: lrecv.cases)
  case (Accept w c)
  then have "quiet x a y cr cs" using opened_quiet [OF _ o] by blast
  note quiet_simps [OF this]
  then show ?thesis using Accept by (auto simp: credit_ok_def ledger_def)
next
  case (GotAnswer x' x)
  then show ?thesis using c kinds_apart(5) [of f] answer_slot(8) [OF GotAnswer(4)]
    by (auto simp: credit_ok_def measure_simps)
next
  case (GotData sx)
  then show ?thesis using c kinds_apart(2) [of f]
    by (auto simp: credit_ok_def measure_simps paid_def)
next
  case (GotEnd sx)
  then show ?thesis using c kinds_apart(3) [of f]
    by (auto simp: credit_ok_def measure_simps paid_def)
next
  case (GotCredit sx)
  then show ?thesis using c
    by (auto simp: credit_ok_def ledger_def measure_simps paid_def split: option.splits)
next
  case Late
  then show ?thesis using c by (auto simp: credit_ok_def ledger_def measure_simps)
next
  case Refuse
  then show ?thesis using c kinds_apart(1) [of f] by (auto simp: credit_ok_def measure_simps)
qed

lemma order_recv_to:
  assumes l: "lrecv f (y, b) (y', b')" and c: "order_ok x a y b (f # cs)"
    and o: "is_open f \<Longrightarrow> open_ok x a b y (f # cs) cr"
  shows "order_ok x a y' b' cs"
  using l
proof (cases rule: lrecv.cases)
  case (Accept w c)
  then have q: "quiet x a y cs cr" using opened_quiet [OF _ o] by blast
  show ?thesis using Accept quiet_simps(2,8,9) [OF q] quiet_simps(15) [OF q]
    by (auto simp: order_ok_def measures_Nil split: option.splits)
next
  case (GotAnswer x' x)
  then show ?thesis using c kinds_apart(5) [of f]
    by (auto simp: order_ok_def measure_simps answer_slot [OF GotAnswer(4)] answer_app [OF GotAnswer(5)]
        split: option.splits simp del: insert_iff)
next
  case (GotData sx)
  then show ?thesis using c
    by (auto simp: order_ok_def measure_simps unwritten_def split: option.splits)
next
  case (GotEnd sx)
  then show ?thesis using c kinds_apart(3) [of f]
    by (auto simp: order_ok_def measure_simps unwritten_def split: option.splits)
next
  case (GotCredit sx)
  then show ?thesis using c kinds_apart(4) [of f]
    by (auto simp: order_ok_def measure_simps unwritten_def split: option.splits)
next
  case Refuse
  then show ?thesis using c kinds_apart(1) [of f]
    by (auto simp: order_ok_def measure_simps split: option.splits)
next
  case Late
  then show ?thesis using c by (auto simp: order_ok_def)
qed

lemma order_recv_from:
  assumes l: "lrecv f (y, b) (y', b')" and c: "order_ok y b x a cs"
    and o: "is_open f \<Longrightarrow> open_ok x a b y (f # cr) cs"
  shows "order_ok y' b' x a cs"
  using l
proof (cases rule: lrecv.cases)
  case (Accept w c)
  then have q: "quiet x a y cr cs" using opened_quiet [OF _ o] by blast
  show ?thesis using Accept quiet_simps(4,10,12) [OF q] quiet_simps(15) [OF q]
    by (auto simp: order_ok_def measure_simps split: option.splits)
next
  case (GotAnswer x' x)
  show ?thesis using c unfolding GotAnswer(1,2)
    by (auto simp: order_ok_def answer_slot [OF GotAnswer(4)] answer_app [OF GotAnswer(5)]
        split: option.splits)
next
  case Late
  then show ?thesis using c by simp
next
  case Refuse
  then show ?thesis using c by simp
qed (use c in \<open>auto simp: order_ok_def held_def split: option.splits; fail\<close>)+

lemma end_recv_to:
  assumes l: "lrecv f (y, b) (y', b')" and c: "end_ok x a y b (f # cs)"
    and o: "is_open f \<Longrightarrow> open_ok x a b y (f # cs) cr"
  shows "end_ok x a y' b' cs"
  using l
proof (cases rule: lrecv.cases)
  case (Accept w c)
  then have q: "quiet x a y cs cr" using opened_quiet [OF _ o] by blast
  show ?thesis using c Accept quiet_simps [OF q] kinds_apart(1) [of f]
    by (auto simp: end_ok_def measure_simps)
next
  case (GotAnswer x' x)
  then have k: "\<not> is_end f" "\<not> is_data f" using kinds_apart(5) [of f] by auto
  show ?thesis using c unfolding GotAnswer(1,2)
    by (simp add: end_ok_def measure_simps k end_last_append answer_slot [OF GotAnswer(4)] answer_app [OF GotAnswer(5)])
next
  case (GotData sx)
  then show ?thesis using c kinds_apart(2) [of f]
    by (auto simp: end_ok_def measure_simps unwritten_def end_last_append)
next
  case (GotEnd sx)
  then show ?thesis using c kinds_apart(3) [of f]
    by (auto simp: end_ok_def measure_simps unwritten_def end_last_append)
next
  case (GotCredit sx)
  then show ?thesis using c kinds_apart(4) [of f]
    by (auto simp: end_ok_def measure_simps unwritten_def end_last_append)
next
  case Refuse
  then show ?thesis using c kinds_apart(1) [of f]
    by (auto simp: end_ok_def measure_simps end_last_append)
next
  case Late
  then show ?thesis using c by (auto simp: end_ok_def measure_simps)
qed

lemma end_recv_from:
  assumes l: "lrecv f (y, b) (y', b')" and c: "end_ok y b x a cs"
    and o: "is_open f \<Longrightarrow> open_ok x a b y (f # cr) cs"
  shows "end_ok y' b' x a cs"
  using l
proof (cases rule: lrecv.cases)
  case (Accept w c)
  then have q: "quiet x a y cr cs" using opened_quiet [OF _ o] by blast
  show ?thesis using c Accept quiet_simps [OF q]
    by (auto simp: end_ok_def measure_simps)
next
  case (GotAnswer x' x)
  show ?thesis using c unfolding GotAnswer(1,2)
    by (simp add: end_ok_def answer_slot [OF GotAnswer(4)] answer_app [OF GotAnswer(5)]) blast
next
  case Late
  then show ?thesis using c by simp
next
  case Refuse
  then show ?thesis using c by simp
qed (use c in \<open>auto simp: end_ok_def; fail\<close>)+

lemma untouched_answer:
  assumes "mf_kind f = CANCEL" "x' \<in> {x, x\<lparr>ms_ready := False\<rparr>, x\<lparr>ms_cancelled := True\<rparr>, x\<lparr>ms_cancelled := True, ms_ready := False\<rparr>}"
    "a' \<in> {a, map_option (ap_answer_update (\<lambda>_. Some (mf_kind f = READY))) a}"
    "untouched_slot (Some x)" "untouched_app a"
  shows "untouched_slot (Some x')" "untouched_app a'"
  using assms by (cases a; auto simp: untouched_slot_def untouched_app_def)+

lemma open_recv_from:
  assumes l: "lrecv f (x, a) (x', a')" and c: "open_ok x a b y cs (f # cr)"
  shows "open_ok x' a' b y cs cr"
  using l
proof (cases rule: lrecv.cases)
  case (GotAnswer x' x)
  have "b = None \<Longrightarrow> quiet (Some x') a' y cs cr"
    using c untouched_answer [OF _ GotAnswer(4,5)] GotAnswer(1)
    by (auto simp: open_ok_def quiet_def measure_simps)
  then show ?thesis using c unfolding GotAnswer(1,2)
    by (auto simp: open_ok_def measure_simps answer_app [OF GotAnswer(5)] split: if_splits)
next
  case (Accept w c)
  then show ?thesis using c by (simp add: open_ok_def measure_simps)
next
  case Refuse
  then show ?thesis using c by (simp add: open_ok_def measure_simps)
next
  case Late
  then show ?thesis using c by (auto simp: open_ok_def quiet_def measure_simps)
next
  case (GotCredit sx)
  then show ?thesis using c by (auto simp: open_ok_def quiet_def measure_simps split: if_splits)
next
  case (GotData sx)
  then show ?thesis using c kinds_apart(2) [of f]
    by (auto simp: open_ok_def quiet_def measure_simps split: if_splits)
next
  case (GotEnd sx)
  then show ?thesis using c kinds_apart(3) [of f]
    by (auto simp: open_ok_def quiet_def measure_simps split: if_splits)
qed

lemma open_recv_to:
  assumes l: "lrecv f (y, b) (y', b')" and c: "open_ok x a b y (f # cs) cr" and h: "half_ok (y, b)"
  shows "open_ok x a b' y' cs cr"
  using l
proof (cases rule: lrecv.cases)
  case (Accept w c)
  note o = opened_quiet [OF \<open>is_open f\<close> c]
  show ?thesis using o c Accept
    by (auto simp: open_ok_def opening_side_def waiting_side_def measure_simps)
next
  case (GotAnswer x' sx)
  then have "b \<noteq> None" using h by simp
  then show ?thesis using c unfolding GotAnswer(1,2)
    by (auto simp: open_ok_def measure_simps answer_app [OF GotAnswer(5)])
next
  case Refuse
  then show ?thesis using c opened_quiet [OF _ c] by (simp add: open_ok_def measure_simps)
next
  case Late
  then show ?thesis using c by (auto simp: open_ok_def quiet_def measure_simps split: if_splits)
qed (use c h in \<open>auto simp: open_ok_def measure_simps; fail\<close>)+

lemma half_recv:
  assumes l: "lrecv f (y, b) (y', b')" and h: "half_ok (y, b)" and f: "frame_ok f"
  shows "half_ok (y', b')"
  using l
proof (cases rule: lrecv.cases)
  case (Accept w c)
  then show ?thesis by (simp add: slot_ok_def holder_ok_def)
next
  case (GotAnswer x' sx)
  have "slot_ok x'" using h unfolding GotAnswer(1)
    by (simp add: slot_ok_def answer_slot [OF GotAnswer(4)])
  moreover have "half_ok (None, b')" "b' \<noteq> None"
    using h GotAnswer(1,5) by (cases b; auto simp: holder_ok_def)+
  ultimately show ?thesis using GotAnswer by simp
next
  case Late
  then show ?thesis using h by simp
next
  case Refuse
  then show ?thesis using h by simp
qed (use h f in \<open>auto simp: slot_ok_def; fail\<close>)+

section \<open>The socket\<close>

lemma socket_receive_send:
  assumes "5 \<le> length b" "length b \<le> CHUNK + 5"
  shows "socket_receive (socket_send b @ r) = Some (Inr (b, r))"
proof -
  have "unat (of_nat (length b) :: 32 word) = length b" using assms by (simp add: unat_of_nat CHUNK_def)
  then show ?thesis using assms by (simp add: socket_receive_def socket_send_def Let_def)
qed

text \<open>What one end puts on a socket the other gets off it, frame by frame.\<close>

lemma socket_frames:
  assumes "\<forall>f \<in> set fs. length (mf_data f) \<le> CHUNK"
  shows "map mux_decode (socket_messages (concat (map (\<lambda>f. socket_send (mux_encode f)) fs))) = map Inr fs"
  using assms
proof (induction fs)
  case Nil
  then show ?case by (simp add: socket_messages.simps socket_receive_def)
next
  case (Cons f fs)
  have "5 \<le> length (mux_encode f)" "length (mux_encode f) \<le> CHUNK + 5"
    using Cons.prems by (simp_all add: mux_encode_def)
  note r = socket_receive_send [OF this]
  have "mux_decode (mux_encode f) = Inr f"
    using Cons.prems by (cases f) (simp add: mux_decode_def mux_encode_def frame_def drop_Cons')
  then show ?case using Cons by (simp add: socket_messages.simps [of "socket_send (mux_encode f) @ _"] r)
qed

end
