(* ===== verification/Preview_Pair.thy ===== *)
theory Preview_Pair
  imports Preview_Flow
begin

text \<open>
  The connection: every operation of an end is a step of one stream and leaves the others alone, and
  the invariants of all streams hold in every state two honest ends can reach.
\<close>

section \<open>Operations are steps of one stream\<close>

definition same_rest :: "MuxEnd \<Rightarrow> MuxEnd \<Rightarrow> bool" where
  "same_rest e e' \<longleftrightarrow> mx_ids e' = mx_ids e \<and> mx_parity e' = mx_parity e"

definition touches :: "bool \<Rightarrow> 32 word \<Rightarrow> MuxEnd \<Rightarrow> MuxEnd \<Rightarrow> bool" where
  "touches own i e e' \<longleftrightarrow>
     (\<exists>fs. mx_out e' = mx_out e @ fs \<and> lstep own i (half i e) fs (half i e')) \<and>
     (\<forall>j. j \<noteq> i \<longrightarrow> half j e' = half j e) \<and> same_rest e e'"

lemma put_simps [simp]:
  "get_slot j (put_slot i x e) = (if j = i then Some x else get_slot j e)"
  "get_app j (put_slot i x e) = get_app j e"
  "get_app j (put_app i a e) = (if j = i then Some a else get_app j e)"
  "get_slot j (put_app i a e) = get_slot j e"
  "get_slot j (drop_slot i e) = (if j = i then None else get_slot j e)"
  "get_app j (drop_slot i e) = get_app j e"
  "mx_out (put_slot i x e) = mx_out e" "mx_out (put_app i a e) = mx_out e" "mx_out (drop_slot i e) = mx_out e"
  "mx_stopped (put_slot i x e) = mx_stopped e" "mx_stopped (put_app i a e) = mx_stopped e"
  "mx_stopped (drop_slot i e) = mx_stopped e"
  by (simp_all add: put_slot_def put_app_def drop_slot_def bmap_simps)

lemma rest_simps [simp]:
  "same_rest e (put_slot i x e') \<longleftrightarrow> same_rest e e'" "same_rest e (put_app i a e') \<longleftrightarrow> same_rest e e'"
  "same_rest e (drop_slot i e') \<longleftrightarrow> same_rest e e'" "same_rest e e"
  "same_rest e (e'\<lparr>mx_out := out\<rparr>) \<longleftrightarrow> same_rest e e'" "same_rest e (e'\<lparr>mx_aborts := ab\<rparr>) \<longleftrightarrow> same_rest e e'"
  "same_rest e (e'\<lparr>mx_refusing := rf\<rparr>) \<longleftrightarrow> same_rest e e'" "same_rest e (e'\<lparr>mx_stopped := st\<rparr>) \<longleftrightarrow> same_rest e e'"
  "same_rest e (e'\<lparr>mx_slots := sl\<rparr>) \<longleftrightarrow> same_rest e e'"
  by (simp_all add: same_rest_def put_slot_def put_app_def drop_slot_def)

lemma sent_simps:
  "mux_send f e = Some e1 \<longleftrightarrow>
     \<not> mx_stopped e \<and> length (mx_out e) < OUT_QUEUE \<and> e1 = e\<lparr>mx_out := mx_out e @ [f]\<rparr>"
  by (auto simp: mux_send_def)

lemma touches_refl [simp]: "touches own i e e"
  unfolding touches_def by (auto intro: lstep.Same)

lemma touches_quiet:
  assumes "lstep own i (half i e) [] (half i e')" "mx_out e' = mx_out e" "same_rest e e'"
    "\<And>j. j \<noteq> i \<Longrightarrow> get_slot j e' = get_slot j e" "\<And>j. j \<noteq> i \<Longrightarrow> get_app j e' = get_app j e"
  shows "touches own i e e'"
  using assms unfolding touches_def by auto

lemma touches_frame:
  assumes "mux_send f e = Some e1" "lstep own i (half i e) [f] (half i e')" "mx_out e' = mx_out e1" "same_rest e1 e'"
    "\<And>j. j \<noteq> i \<Longrightarrow> get_slot j e' = get_slot j e1" "\<And>j. j \<noteq> i \<Longrightarrow> get_app j e' = get_app j e1"
  shows "touches own i e e'"
  using assms unfolding touches_def by (auto simp: sent_simps same_rest_def)

lemma sent_half:
  assumes "mux_send f e = Some e1"
  shows "get_slot i e1 = get_slot i e" "get_app i e1 = get_app i e" "same_rest e1 e1"
    "half i e1 = half i e"
  using assms by (auto simp: sent_simps)

lemma cancel_slot_half:
  "get_app j (cancel_slot i e) = get_app j e"
  "get_slot j (cancel_slot i e) =
     (if j = i then map_option (ms_cancelled_update (\<lambda>_. True)) (get_slot i e) else get_slot j e)"
  "mx_out (cancel_slot i e) = mx_out e" "same_rest e' (cancel_slot i e) \<longleftrightarrow> same_rest e' e"
  by (auto simp: cancel_slot_def split: option.splits)

lemma touches_open_send: "touches own i e (open_send i e)"
proof (cases "open_send i e = e")
  case False
  then obtain x a sv e1 where "get_slot i e = Some x" "get_app i e = Some a" "ap_holder a = Opening sv"
    "mux_send (frame (if ms_websocket x then WS_OPEN else OPEN) i sv) e = Some e1"
    "open_send i e = put_app i (a\<lparr>ap_holder := Waiting\<rparr>) e1"
    by (auto simp: open_send_def split: option.splits Holder.splits)
  note r = this
  show ?thesis by (rule touches_frame [OF r(4)]) (auto simp: r sent_half [OF r(4)] intro!: lstep.SentOpen)
qed simp

lemma touches_stream_drop: "touches own i e (stream_drop i e)"
proof (cases "get_app i e")
  case (Some a)
  show ?thesis
  proof (cases "ap_holder a = Dropped")
    case False
    show ?thesis
      by (rule touches_quiet)
         (use Some False in \<open>auto simp: stream_drop_def Let_def cancel_slot_half intro!: lstep.DroppedStream\<close>)
  qed (simp add: stream_drop_def Some)
qed (simp add: stream_drop_def)

lemma touches_open_done: "touches own i e (open_done i e)"
proof (cases "get_app i e")
  case (Some a)
  show ?thesis
  proof (cases "ap_holder a = Waiting \<and> ap_answer a = Some True")
    case True
    show ?thesis
      by (rule touches_quiet) (use Some True in \<open>auto simp: open_done_def intro!: lstep.GotReady\<close>)
  next
    case False
    then have "open_done i e = e \<or> open_done i e = stream_drop i e"
      by (auto simp: open_done_def Some split: option.splits bool.splits)
    then show ?thesis using touches_stream_drop by auto
  qed
qed (simp add: open_done_def)

lemma touches_connect_done: "touches own i e (connect_done i ok e)"
proof (cases "connect_done i ok e = e \<or> connect_done i ok e = stream_drop i e")
  case False
  then obtain a sv where r: "get_app i e = Some a" "ap_holder a = Connecting sv"
    "connect_done i ok e = put_app i (a\<lparr>ap_holder := Announcing\<rparr>) e"
    by (auto simp: connect_done_def split: option.splits Holder.splits if_splits)
  show ?thesis by (rule touches_quiet) (auto simp: r intro!: lstep.Connected)
qed (use touches_stream_drop in auto)

lemma touches_ready_send: "touches own i e (ready_send i e)"
proof (cases "ready_send i e = e")
  case False
  then obtain a e1 where r: "get_app i e = Some a" "ap_holder a = Announcing" "mux_send (frame READY i []) e = Some e1"
    "ready_send i e = put_app i (a\<lparr>ap_holder := Held\<rparr>) e1"
    by (auto simp: ready_send_def split: option.splits if_splits)
  show ?thesis by (rule touches_frame [OF r(3)]) (auto simp: r sent_half [OF r(3)] intro!: lstep.SentReady)
qed simp

lemma touches_send_read: "touches own i e (send_read i n e)"
proof (cases "send_read i n e = e")
  case False
  then obtain x a where r: "get_slot i e = Some x" "get_app i e = Some a" "ms_send x = SpReading"
    and c: "ap_unread a = [] \<and> app_closed a \<and> send_read i n e = put_slot i (x\<lparr>ms_send := SpEnding\<rparr>) e \<or>
      ap_unread a \<noteq> [] \<and> n \<noteq> 0 \<and> send_read i n e = put_app i (a\<lparr>ap_unread := drop (min n CHUNK) (ap_unread a)\<rparr>)
        (put_slot i (x\<lparr>ms_send := SpAcquiring (take (min n CHUNK) (ap_unread a))\<rparr>) e)"
    by (auto simp: send_read_def Let_def split: option.splits if_splits)
  from c show ?thesis
  proof (elim disjE conjE)
    assume "ap_unread a = []" "app_closed a" and s: "send_read i n e = put_slot i (x\<lparr>ms_send := SpEnding\<rparr>) e"
    then show ?thesis unfolding s by (intro touches_quiet) (auto simp: r intro!: lstep.ReadEnd)
  next
    assume "ap_unread a \<noteq> []" "n \<noteq> 0"
      and s: "send_read i n e = put_app i (a\<lparr>ap_unread := drop (min n CHUNK) (ap_unread a)\<rparr>)
        (put_slot i (x\<lparr>ms_send := SpAcquiring (take (min n CHUNK) (ap_unread a))\<rparr>) e)"
    moreover have "0 < CHUNK" by (simp add: CHUNK_def)
    ultimately show ?thesis unfolding s by (intro touches_quiet) (auto simp: r intro!: lstep.Read)
  qed
qed simp

lemma touches_send_acquire: "touches own i e (send_acquire i e)"
proof (cases "send_acquire i e = e")
  case False
  then obtain x b where r: "get_slot i e = Some x" "ms_send x = SpAcquiring b" "length b \<le> ms_credit x"
    "send_acquire i e = put_slot i (x\<lparr>ms_credit := ms_credit x - length b, ms_send := SpSending b\<rparr>) e"
    by (auto simp: send_acquire_def not_less split: option.splits SendPhase.splits if_splits)
  show ?thesis unfolding r(4) by (rule touches_quiet) (auto simp: r(1-3) intro!: lstep.Acquired)
qed simp

lemma touches_send_frame_out: "touches own i e (send_frame_out i e)"
proof (cases "send_frame_out i e = e")
  case False
  then consider x b e1 where "get_slot i e = Some x" "ms_send x = SpSending b"
      "mux_send (frame (if ms_websocket x then WS_DATA else DATA) i b) e = Some e1"
      "send_frame_out i e = put_slot i (x\<lparr>ms_send := SpReading\<rparr>) e1"
    | x e1 where "get_slot i e = Some x" "ms_send x = SpEnding"
      "mux_send (frame (if ms_websocket x then WS_CLOSE else END) i []) e = Some e1"
      "send_frame_out i e = put_slot i (x\<lparr>ms_send := SpSent\<rparr>) e1"
    by (auto simp: send_frame_out_def split: option.splits SendPhase.splits)
  then show ?thesis
  proof cases
    case r: (1 x b e1)
    show ?thesis unfolding r(4)
      by (rule touches_frame [OF r(3)]) (auto simp: r(1,2) sent_half [OF r(3)] intro!: lstep.SentData)
  next
    case r: (2 x e1)
    show ?thesis unfolding r(4)
      by (rule touches_frame [OF r(3)]) (auto simp: r(1,2) sent_half [OF r(3)] intro!: lstep.SentEnd)
  qed
qed simp

lemma touches_recv_next: "touches own i e (recv_next i e)"
proof (cases "recv_next i e = e")
  case False
  then consider x a f fs where "get_slot i e = Some x" "get_app i e = Some a" "ms_recv x = RpReceiving"
      "ms_incoming x = f # fs" "is_end f" "recv_next i e = put_app i (a\<lparr>ap_eof := True\<rparr>)
        (put_slot i (x\<lparr>ms_incoming := fs, ms_recv := RpReceived\<rparr>) e)"
    | x a f fs where "get_slot i e = Some x" "get_app i e = Some a" "ms_recv x = RpReceiving"
      "ms_incoming x = f # fs" "\<not> is_end f"
      "recv_next i e = put_slot i (x\<lparr>ms_incoming := fs, ms_recv := RpWriting (mf_data f) (mf_data f)\<rparr>) e"
    by (auto simp: recv_next_def split: option.splits list.splits if_splits)
  then show ?thesis
  proof cases
    case r: (1 x a f fs)
    show ?thesis unfolding r(6) by (rule touches_quiet) (auto simp: r(1,2) intro!: lstep.TookEnd r(3-5))
  next
    case r: (2 x a f fs)
    show ?thesis unfolding r(6) by (rule touches_quiet) (auto simp: r(1,2) intro!: lstep.TookData r(3-5))
  qed
qed simp

lemma touches_recv_write: "touches own i e (recv_write i n e)"
proof (cases "recv_write i n e = e")
  case False
  then consider x a b where "get_slot i e = Some x" "get_app i e = Some a" "ms_recv x = RpWriting b []"
      "recv_write i n e = put_slot i (x\<lparr>ms_receive_credit := ms_receive_credit x + length b,
         ms_recv := RpCrediting (length b)\<rparr>) e"
    | x a b rest where "get_slot i e = Some x" "get_app i e = Some a" "ms_recv x = RpWriting b rest"
      "recv_write i n e = put_app i (a\<lparr>ap_received := ap_received a @ take n rest\<rparr>)
         (put_slot i (x\<lparr>ms_recv := RpWriting b (drop n rest)\<rparr>) e)"
    by (auto simp: recv_write_def split: option.splits RecvPhase.splits if_splits)
  then show ?thesis
  proof cases
    case r: (1 x a b)
    show ?thesis unfolding r(4) by (rule touches_quiet) (auto simp: r(1,2) intro!: lstep.WroteAll r(3))
  next
    case r: (2 x a b rest)
    show ?thesis unfolding r(4) by (rule touches_quiet) (auto simp: r(1,2) intro!: lstep.Wrote r(3))
  qed
qed simp

lemma touches_recv_credit: "touches own i e (recv_credit i e)"
proof (cases "recv_credit i e = e")
  case False
  then obtain x n e1 where r: "get_slot i e = Some x" "ms_recv x = RpCrediting n"
    "mux_send (frame CREDIT i (be4 (of_nat n))) e = Some e1"
    "recv_credit i e = put_slot i (x\<lparr>ms_recv := RpReceiving\<rparr>) e1"
    by (auto simp: recv_credit_def split: option.splits RecvPhase.splits)
  show ?thesis unfolding r(4)
    by (rule touches_frame [OF r(3)]) (auto simp: r(1,2) sent_half [OF r(3)] intro!: lstep.SentCredit)
qed simp

lemma touches_task_end: "touches own i e (task_end i g e)"
proof (cases "task_end i g e = e")
  case False
  then obtain ab where "task_end i g e = drop_slot i e \<or> task_end i g e = (drop_slot i e)\<lparr>mx_aborts := ab\<rparr>"
    by (auto simp: task_end_def split: option.splits if_splits)
  then have "half i (task_end i g e) = (None, get_app i e)" "mx_out (task_end i g e) = mx_out e"
    "same_rest e (task_end i g e)" "\<And>j. j \<noteq> i \<Longrightarrow> half j (task_end i g e) = half j e"
    by (auto simp: drop_slot_def bmap_simps)
  then show ?thesis by (intro touches_quiet) (auto intro!: lstep.Gone)
qed simp

lemma touches_abort_send: "touches own i e (abort_send i e)"
proof (cases "abort_send i e = e")
  case False
  then obtain e1 where r: "mux_send (frame CANCEL i []) e = Some e1"
    "abort_send i e = e1\<lparr>mx_aborts := remove1 i (mx_aborts e)\<rparr>"
    by (auto simp: abort_send_def split: option.splits if_splits)
  show ?thesis unfolding r(2)
    by (rule touches_frame [OF r(1)]) (auto simp: sent_half [OF r(1)] intro!: lstep.SentCancel)
qed simp

lemma touches_refuse_send: "\<exists>i. touches (own i) i e (refuse_send e)"
proof (cases "refuse_send e = e")
  case False
  then obtain i e1 where r: "mux_send (frame CANCEL i []) e = Some e1" "refuse_send e = e1\<lparr>mx_refusing := None\<rparr>"
    by (auto simp: refuse_send_def split: option.splits)
  have "touches (own i) i e (refuse_send e)" unfolding r(2)
    by (rule touches_frame [OF r(1)]) (auto simp: sent_half [OF r(1)] intro!: lstep.SentCancel)
  then show ?thesis ..
qed (auto intro: touches_refl)

lemma touches_app_write: "touches own i e (app_write i b e)"
proof (cases "app_write i b e = e")
  case False
  then obtain x a k where r: "get_slot i e = Some x" "get_app i e = Some a" "ap_holder a = Held" "\<not> ap_shut a"
    "app_write i b e = put_app i (a\<lparr>ap_written := ap_written a @ k, ap_unread := ap_unread a @ k\<rparr>) e"
    by (auto simp: app_write_def Let_def split: option.splits if_splits)
  show ?thesis unfolding r(5) by (rule touches_quiet) (auto simp: r(1,2) intro!: lstep.AppWrote r(3,4))
qed simp

lemma touches_app_shutdown: "touches own i e (app_shutdown i e)"
proof (cases "app_shutdown i e = e")
  case False
  then obtain a where r: "get_app i e = Some a" "ap_holder a = Held"
    "app_shutdown i e = put_app i (a\<lparr>ap_shut := True\<rparr>) e"
    by (auto simp: app_shutdown_def split: option.splits if_splits)
  show ?thesis unfolding r(3) by (rule touches_quiet) (auto simp: r(1) intro!: lstep.AppShut r(2))
qed simp

lemma touches_app_read_eof: "touches own i e (app_read_eof i e)"
proof (cases "app_read_eof i e = e")
  case False
  then obtain a where r: "get_app i e = Some a" "app_read_eof i e = put_app i (a\<lparr>ap_saw_eof := True\<rparr>) e"
    by (auto simp: app_read_eof_def split: option.splits if_splits)
  show ?thesis unfolding r(2) by (rule touches_quiet) (auto simp: r(1) intro!: lstep.AppSawEof)
qed simp

text \<open>What every operation of an end is to its streams; only \<open>open\<close> takes an id.\<close>

definition local_step :: "(32 word \<Rightarrow> bool) \<Rightarrow> MuxEnd \<Rightarrow> MuxEnd \<Rightarrow> bool" where
  "local_step own e e' \<longleftrightarrow>
     (\<exists>fs. mx_out e' = mx_out e @ fs \<and>
       (\<forall>j. \<exists>gs. lstep (own j) j (half j e) gs (half j e') \<and> (filter (\<lambda>f. mf_id f = j) fs = gs))) \<and>
     mx_parity e' = mx_parity e"

lemma lstep_ids: "lstep own i h fs h' \<Longrightarrow> f \<in> set fs \<Longrightarrow> mf_id f = i"
  by (induction rule: lstep.induct) (auto simp: measure_simps)

lemma touches_local: "touches (own i) i e e' \<Longrightarrow> local_step own e e' \<and> mx_ids e' = mx_ids e"
proof -
  assume t: "touches (own i) i e e'"
  then obtain fs where fs: "mx_out e' = mx_out e @ fs" "lstep (own i) i (half i e) fs (half i e')"
    and o: "\<And>j. j \<noteq> i \<Longrightarrow> half j e' = half j e" "same_rest e e'" unfolding touches_def by blast
  have "lstep (own j) j (half j e) (filter (\<lambda>f. mf_id f = j) fs) (half j e')" for j
  proof (cases "j = i")
    case True
    then have "filter (\<lambda>f. mf_id f = j) fs = fs" using lstep_ids [OF fs(2)] by (auto intro: filter_True)
    then show ?thesis using fs(2) True by simp
  next
    case False
    then have "filter (\<lambda>f. mf_id f = j) fs = []" using lstep_ids [OF fs(2)] by (auto simp: filter_empty_conv)
    then show ?thesis using o(1) [OF False] by (simp add: lstep.Same)
  qed
  then show ?thesis using fs(1) o(2) unfolding local_step_def same_rest_def by auto
qed

lemma close_local: "local_step own e (mux_close e) \<and> mx_ids (mux_close e) = mx_ids e"
  unfolding local_step_def mux_close_def by (auto intro: lstep.Gone)

fun is_opening :: "mux_action \<Rightarrow> bool" where
  "is_opening (AOpen _ _) = True"
| "is_opening _ = False"

lemma act_local:
  assumes "\<not> is_opening a"
  shows "local_step own e (mux_act a e) \<and> mx_ids (mux_act a e) = mx_ids e"
proof (cases a)
  case ARefuse
  then show ?thesis using touches_refuse_send [of own e] touches_local by auto
next
  case (AOpen s w)
  then show ?thesis using assms by simp
next
  case AClose
  then show ?thesis using close_local by simp
qed (simp only: mux_act.simps, rule touches_local, rule touches_open_send touches_open_done
    touches_connect_done touches_ready_send touches_send_read touches_send_acquire touches_send_frame_out
    touches_recv_next touches_recv_write touches_recv_credit touches_task_end touches_abort_send
    touches_app_write touches_app_shutdown touches_app_read_eof touches_stream_drop)+

lemma open_local:
  assumes "get_app (mx_ids e) e = None" "own (mx_ids e)"
  shows "local_step own e (mux_act (AOpen sv w) e) \<and>
    (mux_act (AOpen sv w) e = e \<or> mx_ids (mux_act (AOpen sv w) e) = mx_ids e + 2 \<and>
      (\<forall>j. get_app j (mux_act (AOpen sv w) e) \<noteq> None \<longrightarrow> get_app j e \<noteq> None \<or> j = mx_ids e))"
proof -
  let ?e = "mux_act (AOpen sv w) e"
  have same: "local_step own e (e\<lparr>mx_ids := n\<rparr>)" for n unfolding local_step_def by (auto intro: lstep.Same)
  consider "?e = e" | "?e = e\<lparr>mx_ids := mx_ids e + 2\<rparr>"
    | "service_ok sv" "get_slot (mx_ids e) e = None" "?e = put_app (mx_ids e) (fresh_app (Opening sv))
        (put_slot (mx_ids e) (fresh_slot w (mx_stopped e)) (e\<lparr>mx_ids := mx_ids e + 2\<rparr>))"
  proof (cases "service_ok sv")
    case True
    let ?e1 = "e\<lparr>mx_ids := mx_ids e + 2\<rparr>"
    show ?thesis
    proof (cases "mx_ids e < 0xFFFFFFFF - 2 \<and> length (mx_slots e) < MAX_STREAMS \<and> get_slot (mx_ids e) e = None")
      case ok: True
      then have "mux_stream (mx_ids e) w (Opening sv) ?e1 = Inr (put_app (mx_ids e) (fresh_app (Opening sv))
          (put_slot (mx_ids e) (fresh_slot w (mx_stopped e)) ?e1))"
        by (simp add: mux_stream_def bcontains_iff)
      then have "?e = put_app (mx_ids e) (fresh_app (Opening sv))
          (put_slot (mx_ids e) (fresh_slot w (mx_stopped e)) ?e1)"
        using ok True by (simp add: mux_open_def Let_def service_ok_def)
      then show ?thesis using ok True by (intro that(3)) simp_all
    next
      case False
      then have "?e = ?e1"
        using True by (auto simp: mux_open_def mux_stream_def Let_def service_ok_def bcontains_iff)
      then show ?thesis using that(2) by blast
    qed
  next
    case False
    then have "?e = e" by (auto simp: mux_open_def service_ok_def)
    then show ?thesis using that(1) by blast
  qed
  then show ?thesis
  proof cases
    case 1
    then show ?thesis using same [of "mx_ids e"] by simp
  next
    case 2
    then show ?thesis using same [of "mx_ids e + 2"] by simp
  next
    case 3
    have "lstep (own j) j (half j e) [] (half j ?e)" for j
      unfolding 3(3) using assms 3(1,2)
      by (cases "j = mx_ids e") (auto simp: put_slot_def put_app_def bmap_simps intro: lstep.Same lstep.Opened)
    then show ?thesis unfolding local_step_def 3(3) by (auto simp: put_slot_def put_app_def bmap_simps)
  qed
qed

section \<open>A frame received is a step of its stream\<close>

definition recv_local :: "MuxFrame \<Rightarrow> MuxEnd \<Rightarrow> MuxEnd \<Rightarrow> bool" where
  "recv_local f e e' \<longleftrightarrow>
     lrecv f (half (mf_id f) e) (half (mf_id f) e') \<and> (\<forall>j. j \<noteq> mf_id f \<longrightarrow> half j e' = half j e) \<and>
     mx_out e' = mx_out e \<and> same_rest e e'"

lemma answer_open_half:
  "half j (answer_open i ok x e) =
     (if j = i then (Some (if ms_ready x then x\<lparr>ms_ready := False\<rparr> else x),
        (if ms_ready x then map_option (ap_answer_update (\<lambda>_. Some ok)) (get_app i e) else get_app i e))
      else half j e)"
  "mx_out (answer_open i ok x e) = mx_out e" "same_rest e (answer_open i ok x e)"
  by (auto simp: answer_open_def split: option.splits)

lemma queue_room: "length (ms_incoming x) < WINDOW + 2 \<Longrightarrow> queue_incoming f x = x\<lparr>ms_incoming := ms_incoming x @ [f]\<rparr>"
  by (simp add: queue_incoming_def)

lemma dispatch_recv:
  assumes "mux_dispatch f e = Inr e'"
    and r: "\<And>x. get_slot (mf_id f) e = Some x \<Longrightarrow> length (ms_incoming x) < WINDOW + 2"
  shows "recv_local f e e'"
proof (cases "is_open f")
  case True
  then have d: "dispatch_open f e = Inr e'" using assms(1) by (simp add: mux_dispatch_def is_open_def)
  show ?thesis
  proof (cases "mux_stream (mf_id f) (mf_kind f = WS_OPEN) (Connecting (mf_data f)) e")
    case (Inl m)
    then have "e' = e\<lparr>mx_refusing := Some (mf_id f)\<rparr>" using d by (auto simp: dispatch_open_def split: if_splits)
    then show ?thesis using True by (auto simp: recv_local_def intro: lrecv.Refuse)
  next
    case (Inr e1)
    then have "e' = e1" using d by (auto simp: dispatch_open_def split: if_splits)
    then show ?thesis using Inr True
      by (auto simp: recv_local_def mux_stream_def bcontains_iff split: if_splits intro: lrecv.Accept)
  qed
next
  case open_no: False
  show ?thesis
  proof (cases "get_slot (mf_id f) e")
    case None
    then have "e' = e" using assms(1) open_no by (auto simp: mux_dispatch_def is_open_def split: if_splits)
    then show ?thesis using None open_no by (auto simp: recv_local_def intro: lrecv.Late)
  next
    case (Some x)
    note q = queue_room [of _ f] r [OF Some]
    consider "mf_kind f = READY" "e' = answer_open (mf_id f) True x e"
      | "mf_kind f = CANCEL" "e' = answer_open (mf_id f) False (x\<lparr>ms_cancelled := True\<rparr>) e"
      | "mf_kind f = CREDIT" "dispatch_credit f x e = Inr e'"
      | "is_data f \<or> is_end f" "dispatch_data f x e = Inr e'"
      using assms(1) open_no Some by (auto simp: mux_dispatch_def is_open_def split: if_splits)
    then show ?thesis
    proof cases
      case 1
      then show ?thesis
        by (auto simp: recv_local_def answer_open_half Some intro!: lrecv.GotAnswer)
    next
      case 2
      then show ?thesis
        by (auto simp: recv_local_def answer_open_half Some intro!: lrecv.GotAnswer)
    next
      case 3
      then show ?thesis
        by (auto simp: recv_local_def dispatch_credit_def Let_def Some split: if_splits intro!: lrecv.GotCredit)
    next
      case 4
      then show ?thesis using r [OF Some]
        by (auto simp: recv_local_def dispatch_data_def queue_incoming_def Some split: if_splits
            dest: end_not_data intro!: lrecv.GotData lrecv.GotEnd)
    qed
  qed
qed

section \<open>The invariant of a connection\<close>

definition owner :: "32 word \<Rightarrow> bool" where
  "owner i \<longleftrightarrow> odd (unat i)"

definition chan :: "bool \<Rightarrow> MuxPair \<Rightarrow> 32 word \<Rightarrow> MuxFrame list" where
  "chan s p i = filter (\<lambda>f. mf_id f = i)
     (map (\<lambda>b. projr (mux_decode b)) (pr_wire p s) @ mx_out (pr_end p s))"

abbreviation slot_of :: "bool \<Rightarrow> MuxPair \<Rightarrow> 32 word \<Rightarrow> MuxSlot option" where
  "slot_of s p i \<equiv> get_slot i (pr_end p s)"

abbreviation app_of :: "bool \<Rightarrow> MuxPair \<Rightarrow> 32 word \<Rightarrow> AppEnd option" where
  "app_of s p i \<equiv> get_app i (pr_end p s)"

definition link_ok :: "bool \<Rightarrow> 32 word \<Rightarrow> MuxPair \<Rightarrow> bool" where
  "link_ok s i p \<longleftrightarrow>
     credit_ok (slot_of s p i) (slot_of (\<not> s) p i) (chan s p i) (chan (\<not> s) p i) \<and>
     order_ok (slot_of s p i) (app_of s p i) (slot_of (\<not> s) p i) (app_of (\<not> s) p i) (chan s p i) \<and>
     end_ok (slot_of s p i) (app_of s p i) (slot_of (\<not> s) p i) (app_of (\<not> s) p i) (chan s p i)"

definition opened_ok :: "bool \<Rightarrow> 32 word \<Rightarrow> MuxPair \<Rightarrow> bool" where
  "opened_ok s i p \<longleftrightarrow> open_ok (slot_of s p i) (app_of s p i) (app_of (\<not> s) p i) (slot_of (\<not> s) p i)
     (chan s p i) (chan (\<not> s) p i)"

definition side_ok :: "bool \<Rightarrow> MuxPair \<Rightarrow> bool" where
  "side_ok s p \<longleftrightarrow> (\<forall>f \<in> set (mx_out (pr_end p s)). frame_ok f) \<and>
     (\<forall>b \<in> set (pr_wire p s). \<exists>f. frame_ok f \<and> b = mux_encode f) \<and>
     mx_parity (pr_end p s) = (if s then 1 else 0)"

definition pair_ok :: "MuxPair \<Rightarrow> bool" where
  "pair_ok p \<longleftrightarrow>
     (\<forall>s i. link_ok s i p \<and> (owner i = s \<longrightarrow> opened_ok s i p) \<and> half_ok (half i (pr_end p s))) \<and>
     (\<forall>s. side_ok s p)"

text \<open>\<open>n\<close>: how often side \<open>s\<close> has called \<open>open\<close>.\<close>

definition side_ids :: "nat \<Rightarrow> bool \<Rightarrow> MuxEnd \<Rightarrow> bool" where
  "side_ids n s e \<longleftrightarrow>
     (\<exists>k \<le> n. unat (mx_ids e) = (if s then 1 else 2) + 2 * k) \<and>
     (\<forall>i. owner i = s \<longrightarrow> unat (mx_ids e) \<le> unat i \<or> i = 0 \<longrightarrow> get_app i e = None)"

definition ids_ok :: "(bool \<Rightarrow> nat) \<Rightarrow> MuxPair \<Rightarrow> bool" where
  "ids_ok n p \<longleftrightarrow> (\<forall>s. side_ids (n s) s (pr_end p s))"

lemma pair_okD:
  assumes "pair_ok p"
  shows "link_ok t i p" "owner i = t \<Longrightarrow> opened_ok t i p" "half_ok (half i (pr_end p t))" "side_ok t p"
  using assms unfolding pair_ok_def by blast+

lemma decode_mux: "length (mf_data f) \<le> CHUNK \<Longrightarrow> mux_decode (mux_encode f) = Inr f"
  by (cases f) (simp add: mux_decode_def mux_encode_def frame_def drop_Cons')

lemma frame_ok_length: "frame_ok f \<Longrightarrow> length (mf_data f) \<le> CHUNK"
  by (simp add: frame_ok_def)

lemma not_not_s: "(\<not> s) = t \<longleftrightarrow> s = (\<not> t)"
  by auto

lemma pair_act_ok:
  assumes p: "pair_ok p" and l: "local_step (\<lambda>i. owner i = s) (pr_end p s) e'"
  shows "pair_ok (p\<lparr>pr_end := (pr_end p)(s := e')\<rparr>)"
proof -
  let ?p = "p\<lparr>pr_end := (pr_end p)(s := e')\<rparr>"
  obtain fs where fs: "mx_out e' = mx_out (pr_end p s) @ fs"
    and ls: "\<And>i. lstep (owner i = s) i (half i (pr_end p s)) (filter (\<lambda>f. mf_id f = i) fs) (half i e')"
    and par: "mx_parity e' = mx_parity (pr_end p s)"
    using l unfolding local_step_def by auto
  have ch: "chan s ?p i = chan s p i @ filter (\<lambda>f. mf_id f = i) fs" "chan (\<not> s) ?p i = chan (\<not> s) p i" for i
    by (simp_all add: chan_def fs)
  have h: "half_ok (half i (pr_end p t))" and lk: "link_ok t i p" and op: "owner i = t \<Longrightarrow> opened_ok t i p" for t i
    using p unfolding pair_ok_def by blast+
  have own: "owner i = s \<Longrightarrow> open_ok (slot_of s p i) (app_of s p i) (app_of (\<not> s) p i) (slot_of (\<not> s) p i)
     (chan s p i) (chan (\<not> s) p i)" for i
    using op [of i s] unfolding opened_ok_def by simp
  have lk1: "link_ok s i ?p" for i
    using lk [of s i] credit_step_from [OF ls _ h own] order_step_from [OF ls _ h own]
      end_step_from [OF ls _ h _ own]
    unfolding link_ok_def ch by simp
  have lk2: "link_ok (\<not> s) i ?p" for i
    using lk [of "\<not> s" i] credit_step_to [OF ls _ h own] order_step_to [OF ls _ h own]
      end_step_to [OF ls _ h _ own]
    unfolding link_ok_def by (simp add: ch)
  have op1: "owner i = s \<Longrightarrow> opened_ok s i ?p" for i
    using open_step_from [of i _ _ "filter (\<lambda>f. mf_id f = i) fs"] ls [of i] own [of i] h [of s i]
    unfolding opened_ok_def ch by auto
  have op2: "owner i = (\<not> s) \<Longrightarrow> opened_ok (\<not> s) i ?p" for i
    using open_step_to [of i _ _ "filter (\<lambda>f. mf_id f = i) fs"] ls [of i] op [of i "\<not> s"] h [of s i]
    unfolding opened_ok_def by (auto simp: ch)
  have h': "half_ok (half i e')" for i using half_step [OF ls h] .
  have fs': "\<forall>f \<in> set fs. frame_ok f"
  proof
    fix f assume "f \<in> set fs"
    then show "frame_ok f" using frames_step [OF ls [of "mf_id f"] h] by auto
  qed
  have "link_ok t i ?p \<and> (owner i = t \<longrightarrow> opened_ok t i ?p)" for t i
  proof (cases "t = s")
    case True
    show ?thesis unfolding True using lk1 [of i] op1 [of i] by (intro conjI impI)
  next
    case False
    then have t: "t = (\<not> s)" by auto
    show ?thesis unfolding t using lk2 [of i] op2 [of i] by (intro conjI impI)
  qed
  moreover have "half_ok (half i (pr_end ?p t))" for t i using h h' by simp
  moreover have "side_ok t ?p" for t
  proof -
    have "side_ok t p" using p unfolding pair_ok_def by blast
    then show ?thesis using fs' by (cases "t = s") (auto simp: side_ok_def fs par)
  qed
  ultimately show ?thesis unfolding pair_ok_def by blast
qed

section \<open>An honest frame is never refused\<close>

lemma mod_two: "(i :: 32 word) mod 2 = (if owner i then 1 else 0)"
proof -
  have "unat (i mod 2) = unat i mod 2" by (simp add: unat_mod)
  then show ?thesis by (cases "owner i") (auto simp: owner_def word_unat_eq_iff odd_iff_mod_2_eq_one)
qed

lemma incoming_bound:
  assumes "\<forall>f \<in> set fs. frame_ok f \<and> (is_data f \<or> is_end f)"
  shows "length fs \<le> length (dat fs) + ends fs"
  using assms
proof (induction fs)
  case (Cons f fs)
  then show ?case by (cases "mf_data f") (auto simp: measure_simps frame_ok_def end_not_data)
qed (simp add: measure_simps)

lemma chan_head:
  assumes "pr_wire p s = mux_encode f # bs" "length (mf_data f) \<le> CHUNK"
  shows "mx_out (E s) = mx_out (pr_end p s) \<Longrightarrow>
      chan s p (mf_id f) = f # chan s (p\<lparr>pr_end := E, pr_wire := (pr_wire p)(s := bs)\<rparr>) (mf_id f)"
    "j \<noteq> mf_id f \<Longrightarrow> mx_out (E s) = mx_out (pr_end p s) \<Longrightarrow>
      chan s (p\<lparr>pr_end := E, pr_wire := (pr_wire p)(s := bs)\<rparr>) j = chan s p j"
    "mx_out (E (\<not> s)) = mx_out (pr_end p (\<not> s)) \<Longrightarrow>
      chan (\<not> s) (p\<lparr>pr_end := E, pr_wire := (pr_wire p)(s := bs)\<rparr>) j = chan (\<not> s) p j"
  using assms by (auto simp: chan_def decode_mux)

lemma slot_room:
  assumes "pair_ok p" "slot_of (\<not> s) p j = Some y"
  shows "length (ms_incoming y) < WINDOW + 2"
proof -
  have l: "link_ok s j p" and h: "half_ok (half j (pr_end p (\<not> s)))" using assms(1) unfolding pair_ok_def by blast+
  have "queued y \<le> WINDOW" "ends (ms_incoming y) \<le> 1"
    using l assms(2) unfolding link_ok_def credit_ok_def end_ok_def ledger_def by (auto simp: measure_simps)
  moreover have "length (dat (ms_incoming y)) \<le> queued y" by (simp add: queued_def)
  moreover have "length (ms_incoming y) \<le> length (dat (ms_incoming y)) + ends (ms_incoming y)"
    using h assms(2) by (intro incoming_bound) (simp add: slot_ok_def)
  ultimately show ?thesis by simp
qed

lemma honest_dispatch:
  assumes p: "pair_ok p" and z: "app_of s p 0 = None" and c: "chan s p (mf_id f) = f # cs" and f: "frame_ok f"
  shows "\<exists>e'. mux_dispatch f (pr_end p (\<not> s)) = Inr e'"
proof -
  let ?j = "mf_id f"
  have lk: "link_ok t ?j p" and op: "owner ?j = t \<Longrightarrow> opened_ok t ?j p" for t
    using p unfolding pair_ok_def by blast+
  show ?thesis
  proof (cases "is_open f")
    case True
    have "owner ?j = s"
    proof (rule ccontr)
      assume "owner ?j \<noteq> s"
      then have "owner ?j = (\<not> s)" by auto
      from op [OF this] show False using True c by (simp add: opened_ok_def open_ok_def measure_simps)
    qed
    with op have "app_of s p ?j \<noteq> None"
      using True c by (auto simp: opened_ok_def open_ok_def measure_simps)
    then have "?j \<noteq> 0" using z by metis
    moreover have "?j mod 2 \<noteq> mx_parity (pr_end p (\<not> s))"
      using p \<open>owner ?j = s\<close> unfolding pair_ok_def side_ok_def mod_two by (cases s) auto
    moreover have "service_ok (mf_data f)" using f True by (simp add: frame_ok_def)
    ultimately show ?thesis using True
      by (auto simp: mux_dispatch_def is_open_def dispatch_open_def service_ok_def Suc_le_eq split: sum.split)
  next
    case no_open: False
    show ?thesis
    proof (cases "slot_of (\<not> s) p ?j")
      case None
      then show ?thesis using no_open by (auto simp: mux_dispatch_def is_open_def)
    next
      case (Some y)
      have d: "is_data f \<Longrightarrow> length (mf_data f) \<le> ms_receive_credit y"
        using lk [of s] Some c unfolding link_ok_def credit_ok_def ledger_def
        by (auto simp: measure_simps split: option.splits)
      have k: "mf_kind f = CREDIT \<Longrightarrow> ms_credit y + unat (from_be4 (mf_data f)) \<le> WINDOW"
        using lk [of "\<not> s"] Some c unfolding link_ok_def credit_ok_def ledger_def
        by (auto simp: measure_simps split: option.splits)
      show ?thesis using f no_open d k Some
        by (auto simp: mux_dispatch_def frame_ok_def is_open_def is_data_def is_end_def dispatch_credit_def
            dispatch_data_def Let_def)
    qed
  qed
qed

section \<open>Every event keeps the invariant\<close>

lemma same_stream:
  assumes "\<And>u. half i (pr_end p' u) = half i (pr_end p u)" "\<And>u. chan u p' i = chan u p i"
  shows "link_ok t i p' \<longleftrightarrow> link_ok t i p" "opened_ok t i p' \<longleftrightarrow> opened_ok t i p"
    "half_ok (half i (pr_end p' t)) \<longleftrightarrow> half_ok (half i (pr_end p t))"
proof -
  have "get_slot i (pr_end p' u) = get_slot i (pr_end p u)" "get_app i (pr_end p' u) = get_app i (pr_end p u)" for u
    using assms(1) [of u] by simp_all
  then show "link_ok t i p' \<longleftrightarrow> link_ok t i p" "opened_ok t i p' \<longleftrightarrow> opened_ok t i p"
    "half_ok (half i (pr_end p' t)) \<longleftrightarrow> half_ok (half i (pr_end p t))"
    unfolding link_ok_def opened_ok_def assms(2) by simp_all
qed

lemma pair_recv_ok:
  assumes p: "pair_ok p" and w: "pr_wire p s = mux_encode f # bs" and f: "frame_ok f"
    and d: "recv_local f (pr_end p (\<not> s)) e'"
  shows "pair_ok (p\<lparr>pr_end := (pr_end p)(\<not> s := e'), pr_wire := (pr_wire p)(s := bs)\<rparr>)"
proof -
  let ?p = "p\<lparr>pr_end := (pr_end p)(\<not> s := e'), pr_wire := (pr_wire p)(s := bs)\<rparr>"
  let ?j = "mf_id f"
  have l: "lrecv f (half ?j (pr_end p (\<not> s))) (half ?j e')"
    and o: "\<And>i. i \<noteq> ?j \<Longrightarrow> half i e' = half i (pr_end p (\<not> s))"
    and out: "mx_out e' = mx_out (pr_end p (\<not> s))" and par: "mx_parity e' = mx_parity (pr_end p (\<not> s))"
    using d unfolding recv_local_def same_rest_def by blast+
  note len = frame_ok_length [OF f]
  have cs: "chan s p ?j = f # chan s ?p ?j" using chan_head(1) [OF w len, of "(pr_end p)(\<not> s := e')"] by simp
  have cs': "chan s ?p i = chan s p i" if "i \<noteq> ?j" for i
    using chan_head(2) [OF w len that, of "(pr_end p)(\<not> s := e')"] by simp
  have cr: "chan (\<not> s) ?p i = chan (\<not> s) p i" for i
    using chan_head(3) [OF w len, of "(pr_end p)(\<not> s := e')"] out by simp
  have h: "half_ok (half i (pr_end p t))" and lk: "link_ok t i p" and op: "owner i = t \<Longrightarrow> opened_ok t i p" for t i
    using p unfolding pair_ok_def by blast+
  have opn: "is_open f \<Longrightarrow> open_ok (slot_of s p ?j) (app_of s p ?j) (app_of (\<not> s) p ?j) (slot_of (\<not> s) p ?j)
     (f # chan s ?p ?j) (chan (\<not> s) p ?j)"
  proof -
    assume f': "is_open f"
    have "owner ?j = s"
    proof (rule ccontr)
      assume "owner ?j \<noteq> s"
      then have "owner ?j = (\<not> s)" by auto
      from op [OF this] show False using f' cs by (simp add: opened_ok_def open_ok_def measure_simps)
    qed
    from op [OF this] show ?thesis unfolding opened_ok_def cs .
  qed
  have lk1: "link_ok s ?j ?p"
    using lk [of s ?j] credit_recv_to [OF l _ opn] order_recv_to [OF l _ opn] end_recv_to [OF l _ opn]
    unfolding link_ok_def cs by (simp add: cr)
  have lk2: "link_ok (\<not> s) ?j ?p"
    using lk [of "\<not> s" ?j] credit_recv_from [OF l _ opn] order_recv_from [OF l _ opn] end_recv_from [OF l _ opn]
    unfolding link_ok_def by (simp add: cs cr)
  have op1: "owner ?j = s \<Longrightarrow> opened_ok s ?j ?p"
    using open_recv_to [OF l _ h] op [of ?j s] unfolding opened_ok_def cs by (simp add: cr)
  have op2: "owner ?j = (\<not> s) \<Longrightarrow> opened_ok (\<not> s) ?j ?p"
    using open_recv_from [OF l] op [of ?j "\<not> s"] unfolding opened_ok_def by (simp add: cs cr)
  have rest: "link_ok t i ?p \<and> (owner i = t \<longrightarrow> opened_ok t i ?p)" if i: "i \<noteq> ?j" for t i
  proof -
    have "half i (pr_end ?p u) = half i (pr_end p u)" "chan u ?p i = chan u p i" for u
      using o [OF i] cs' [OF i] cr [of i] by (cases "u = s"; auto)+
    then have "link_ok t i ?p \<longleftrightarrow> link_ok t i p" "opened_ok t i ?p \<longleftrightarrow> opened_ok t i p"
      by (rule same_stream(1), rule same_stream(2))
    then show ?thesis using lk [of t i] op [of i t] by blast
  qed
  have "link_ok t i ?p \<and> (owner i = t \<longrightarrow> opened_ok t i ?p)" for t i
  proof (cases "i = ?j")
    case i: True
    show ?thesis
    proof (cases "t = s")
      case True
      show ?thesis unfolding True i using lk1 op1 by (intro conjI impI)
    next
      case False
      then have t: "t = (\<not> s)" by auto
      show ?thesis unfolding t i using lk2 op2 by (intro conjI impI)
    qed
  qed (rule rest)
  moreover have "half_ok (half i (pr_end ?p t))" for t i
    using h [of t i] half_recv [OF l h f] o [of i] by (cases "i = ?j") auto
  moreover have "side_ok t ?p" for t
  proof -
    have "side_ok t p" using p unfolding pair_ok_def by blast
    then show ?thesis using w out par by (cases "t = s"; cases "t = (\<not> s)") (auto simp: side_ok_def)
  qed
  ultimately show ?thesis unfolding pair_ok_def by blast
qed

lemma pair_deliver_ok:
  assumes p: "pair_ok p" and z: "app_of s p 0 = None"
  shows "pair_ok (pair_deliver s p)"
    and "pr_wire p s = b # bs \<Longrightarrow> \<exists>f e'. mux_decode b = Inr f \<and> mux_dispatch f (pr_end p (\<not> s)) = Inr e' \<and>
      recv_local f (pr_end p (\<not> s)) e'"
proof -
  have head: "\<exists>f e'. frame_ok f \<and> b = mux_encode f \<and> mux_decode b = Inr f \<and>
      mux_dispatch f (pr_end p (\<not> s)) = Inr e' \<and> recv_local f (pr_end p (\<not> s)) e'"
    if w: "pr_wire p s = b # bs" for b bs
  proof -
    have "b \<in> set (pr_wire p s)" using w by simp
    then obtain f where f: "frame_ok f" "b = mux_encode f" using p unfolding pair_ok_def side_ok_def by blast
    have "mux_decode b = Inr f" using f frame_ok_length decode_mux by blast
    moreover have "chan s p (mf_id f) = f # chan s (p\<lparr>pr_end := pr_end p, pr_wire := (pr_wire p)(s := bs)\<rparr>) (mf_id f)"
      using chan_head(1) [of p s f bs "pr_end p"] w f frame_ok_length by simp
    then obtain e' where "mux_dispatch f (pr_end p (\<not> s)) = Inr e'" using honest_dispatch [OF p z _ f(1)] by blast
    moreover then have "recv_local f (pr_end p (\<not> s)) e'" using slot_room [OF p] by (rule dispatch_recv)
    ultimately show ?thesis using f by blast
  qed
  then show "pr_wire p s = b # bs \<Longrightarrow> \<exists>f e'. mux_decode b = Inr f \<and> mux_dispatch f (pr_end p (\<not> s)) = Inr e' \<and>
      recv_local f (pr_end p (\<not> s)) e'" by blast
  show "pair_ok (pair_deliver s p)"
  proof (cases "pr_wire p s")
    case Nil
    then show ?thesis using p by (simp add: pair_deliver_def)
  next
    case (Cons b bs)
    with head obtain f e' where r: "frame_ok f" "b = mux_encode f" "mux_decode b = Inr f"
      "mux_dispatch f (pr_end p (\<not> s)) = Inr e'" "recv_local f (pr_end p (\<not> s)) e'" by blast
    then have "read_message b (pr_end p (\<not> s)) = e'" by (simp add: read_message_def)
    then show ?thesis using pair_recv_ok [OF p _ r(1) r(5)] Cons r(2) p by (simp add: pair_deliver_def)
  qed
qed

lemma pair_flush_ok:
  assumes p: "pair_ok p"
  shows "pair_ok (pair_flush s p)"
proof (cases "pair_flush s p = p")
  case False
  then obtain f fs where o: "mx_out (pr_end p s) = f # fs"
    and e: "pair_flush s p = p\<lparr>pr_end := (pr_end p)(s := (pr_end p s)\<lparr>mx_out := fs\<rparr>),
                 pr_wire := (pr_wire p)(s := pr_wire p s @ [mux_encode f])\<rparr>"
    by (auto simp: pair_flush_def split: list.splits if_splits)
  have f: "frame_ok f" "\<forall>g \<in> set fs. frame_ok g" using p o unfolding pair_ok_def side_ok_def by (metis list.set_intros)+
  have ch: "chan t (pair_flush s p) i = chan t p i" for t i
    using f(1) unfolding e by (cases "t = s") (auto simp: chan_def o decode_mux frame_ok_length)
  have hf: "half i (pr_end (pair_flush s p) t) = half i (pr_end p t)" for i t unfolding e by simp
  have "link_ok t i (pair_flush s p) \<and> (owner i = t \<longrightarrow> opened_ok t i (pair_flush s p)) \<and>
      half_ok (half i (pr_end (pair_flush s p) t))" for t i
    using p unfolding same_stream [OF hf ch] pair_ok_def by (intro conjI impI) simp_all
  moreover have "side_ok t (pair_flush s p)" for t
  proof -
    have "side_ok t p" using p unfolding pair_ok_def by blast
    then show ?thesis using f unfolding e by (cases "t = s") (auto simp: side_ok_def)
  qed
  ultimately show ?thesis unfolding pair_ok_def by blast
qed (simp add: p)

end
