(* ===== verification/Preview_Safe.thy ===== *)
theory Preview_Safe
  imports Preview_Pair
begin

text \<open>
  What a connection of previews promises: honest ends never cut each other off, a stream delivers
  what was written to it in order and ends only when all of it has arrived, and no peer whatever can
  queue more data than the window. The ends of the promises are shown as well: what ends of file carry
  is not counted, and exhausted ids come back.
\<close>

section \<open>Ids\<close>

lemma lstep_no_new_app: "lstep False i h fs h' \<Longrightarrow> snd h = None \<Longrightarrow> snd h' = None"
  by (induction rule: lstep.induct) auto

lemma local_no_new_app:
  assumes "local_step (\<lambda>_. False) e e'" "get_app i e = None"
  shows "get_app i e' = None"
proof -
  obtain fs where "lstep False i (half i e) fs (half i e')" using assms(1) unfolding local_step_def by blast
  from lstep_no_new_app [OF this] assms(2) show ?thesis by simp
qed

lemma lrecv_no_new_app: "lrecv f h h' \<Longrightarrow> \<not> is_open f \<Longrightarrow> snd h = None \<Longrightarrow> snd h' = None"
  by (induction rule: lrecv.induct) auto

lemma opens_of_Nil [simp]: "opens_of s [] = 0"
  by (simp add: opens_of_def)

lemma opens_of_snoc:
  "opens_of s (es @ [ev]) = opens_of s es + (if \<exists>sv w. ev = Act s (AOpen sv w) then 1 else 0)"
  by (auto simp: opens_of_def split: pair_event.splits mux_action.splits)

lemma side_ids_keep:
  assumes "side_ids n s e" "mx_ids e' = mx_ids e" "\<And>i. owner i = s \<Longrightarrow> get_app i e = None \<Longrightarrow> get_app i e' = None"
  shows "side_ids n s e'"
  using assms unfolding side_ids_def by auto

lemma ids_put: "ids_ok n p \<Longrightarrow> side_ids k s e \<Longrightarrow> ids_ok (n(s := k)) (p\<lparr>pr_end := (pr_end p)(s := e)\<rparr>)"
  by (simp add: ids_ok_def)

lemma side_act:
  assumes "side_ids n s e" "\<not> is_opening a"
  shows "side_ids n s (mux_act a e)"
proof (rule side_ids_keep [OF assms(1)])
  have l: "local_step (\<lambda>_. False) e (mux_act a e) \<and> mx_ids (mux_act a e) = mx_ids e"
    by (rule act_local [OF assms(2)])
  then show "mx_ids (mux_act a e) = mx_ids e" ..
  show "get_app i e = None \<Longrightarrow> get_app i (mux_act a e) = None" for i
    by (rule local_no_new_app [OF conjunct1 [OF l]])
qed

lemma side_now:
  assumes "side_ids n s e"
  shows "owner (mx_ids e) = s" "get_app (mx_ids e) e = None" "unat (mx_ids e) \<noteq> 0"
    "owner j = s \<Longrightarrow> unat (mx_ids e) \<le> unat j \<or> j = 0 \<Longrightarrow> get_app j e = None"
proof -
  obtain k where k: "unat (mx_ids e) = (if s then 1 else 2) + 2 * k" using assms unfolding side_ids_def by blast
  then show o: "owner (mx_ids e) = s" unfolding owner_def by (cases s) auto
  show "unat (mx_ids e) \<noteq> 0" using k by (cases s) auto
  have all: "\<forall>j. owner j = s \<longrightarrow> unat (mx_ids e) \<le> unat j \<or> j = 0 \<longrightarrow> get_app j e = None"
    using assms unfolding side_ids_def by (rule conjunct2)
  show "owner j = s \<Longrightarrow> unat (mx_ids e) \<le> unat j \<or> j = 0 \<Longrightarrow> get_app j e = None"
    using all [rule_format, of j] by simp
  show "get_app (mx_ids e) e = None" using all [rule_format, OF o] by simp
qed

lemma side_open:
  assumes i: "side_ids n s e" and b: "n < 2 ^ 31 - 2"
  shows "side_ids (Suc n) s (mux_act (AOpen sv w) e)"
proof -
  let ?e = "mux_act (AOpen sv w) e"
  note now = side_now [OF i]
  obtain k where k: "k \<le> n" "unat (mx_ids e) = (if s then 1 else 2) + 2 * k" using i unfolding side_ids_def by blast
  have "unat (mx_ids e) + 2 < 2 ^ 32" using k b by (cases s) simp_all
  then have u: "unat (mx_ids e + 2) = unat (mx_ids e) + 2" by (simp add: unat_add_lem [THEN iffD1])
  show ?thesis
  proof (cases "?e = e")
    case True
    show ?thesis unfolding True side_ids_def
      using k le_SucI [OF k(1)] now(4) by (intro conjI exI [of _ k] allI impI) simp_all
  next
    case False
    have o: "mx_ids ?e = mx_ids e + 2" "\<And>j. get_app j ?e \<noteq> None \<Longrightarrow> get_app j e \<noteq> None \<or> j = mx_ids e"
      using open_local [OF now(2), of "\<lambda>_. True" sv w] False by blast+
    have "get_app j ?e = None" if j: "owner j = s" "unat (mx_ids ?e) \<le> unat j \<or> j = 0" for j
    proof (rule ccontr)
      assume "get_app j ?e \<noteq> None"
      from o(2) [OF this] show False
      proof
        assume a: "get_app j e \<noteq> None"
        have "unat (mx_ids e) \<le> unat j \<or> j = 0" using j(2) unfolding o(1) u by linarith
        from now(4) [OF j(1) this] a show False by simp
      next
        assume "j = mx_ids e"
        then show False using j(2) now(3) unfolding o(1) u by auto
      qed
    qed
    moreover have "unat (mx_ids ?e) = (if s then 1 else 2) + 2 * Suc k" using k(2) unfolding o(1) u by simp
    ultimately show ?thesis using k(1) unfolding side_ids_def by blast
  qed
qed

lemma ids_flush: "ids_ok n p \<Longrightarrow> ids_ok n (pair_flush s p)"
proof (cases "pair_flush s p = p")
  case False
  assume i: "ids_ok n p"
  obtain f fs where e: "pair_flush s p = p\<lparr>pr_end := (pr_end p)(s := (pr_end p s)\<lparr>mx_out := fs\<rparr>),
                 pr_wire := (pr_wire p)(s := pr_wire p s @ [mux_encode f])\<rparr>"
    using False by (auto simp: pair_flush_def split: list.splits if_splits)
  have "side_ids (n s) s ((pr_end p s)\<lparr>mx_out := fs\<rparr>)"
    using i unfolding ids_ok_def by (auto intro: side_ids_keep)
  then show ?thesis using i unfolding e ids_ok_def by simp
qed simp

lemma zero_unopened:
  assumes p: "pair_ok p" and i: "ids_ok n p"
  shows "app_of s p 0 = None"
proof -
  have o: "owner 0 = False" by (simp add: owner_def)
  have "side_ids (n False) False (pr_end p False)" using i unfolding ids_ok_def by blast
  then have z: "app_of False p 0 = None" by (rule side_now(4)) (simp_all add: o)
  have "opened_ok False 0 p" using p o unfolding pair_ok_def by blast
  then have "app_of True p 0 = None" using z unfolding opened_ok_def open_ok_def by simp
  then show ?thesis using z by (cases s) simp_all
qed

lemma ids_deliver:
  assumes p: "pair_ok p" and i: "ids_ok n p"
  shows "ids_ok n (pair_deliver s p)"
proof (cases "pair_deliver s p = p")
  case False
  then obtain b bs where w: "pr_wire p s = b # bs"
    and e: "pair_deliver s p = p\<lparr>pr_end := (pr_end p)(\<not> s := read_message b (pr_end p (\<not> s))),
                 pr_wire := (pr_wire p)(s := bs)\<rparr>"
    by (auto simp: pair_deliver_def split: list.splits if_splits)
  note z = zero_unopened [OF p i]
  obtain f e' where d: "mux_decode b = Inr f" "mux_dispatch f (pr_end p (\<not> s)) = Inr e'"
    and l: "recv_local f (pr_end p (\<not> s)) e'" using pair_deliver_ok(2) [OF p z w] by blast
  have r: "read_message b (pr_end p (\<not> s)) = e'" using d by (simp add: read_message_def)
  have app: "get_app j e' = None" if j: "owner j = (\<not> s)" "app_of (\<not> s) p j = None" for j
  proof (cases "j = mf_id f \<and> is_open f")
    case True
    have "b \<in> set (pr_wire p s)" using w by simp
    then obtain g where g: "frame_ok g" "b = mux_encode g" using p unfolding pair_ok_def side_ok_def by blast
    then have "g = f" using d(1) decode_mux [OF frame_ok_length [OF g(1)]] by simp
    then have "chan s p j = f # chan s (p\<lparr>pr_end := pr_end p, pr_wire := (pr_wire p)(s := bs)\<rparr>) j"
      using chan_head(1) [of p s f bs "pr_end p"] w g True frame_ok_length by simp
    moreover have "opened_ok (\<not> s) j p" by (rule pair_okD(2) [OF p j(1)])
    ultimately show ?thesis using True by (simp add: opened_ok_def open_ok_def measure_simps)
  next
    case False
    have lr: "lrecv f (half (mf_id f) (pr_end p (\<not> s))) (half (mf_id f) e')"
      and o: "j \<noteq> mf_id f \<Longrightarrow> half j e' = half j (pr_end p (\<not> s))" using l unfolding recv_local_def by simp_all
    show ?thesis
    proof (cases "j = mf_id f")
      case True
      have "\<not> is_open f" using False True by blast
      from lrecv_no_new_app [OF lr this] j(2) show ?thesis unfolding True snd_conv .
    next
      case False
      from o [OF this] have "get_app j e' = app_of (\<not> s) p j" unfolding prod.inject by (rule conjunct2)
      then show ?thesis using j(2) by (rule trans)
    qed
  qed
  have ids: "mx_ids e' = mx_ids (pr_end p (\<not> s))" using l unfolding recv_local_def same_rest_def by simp
  have "side_ids (n (\<not> s)) (\<not> s) (pr_end p (\<not> s))" using i unfolding ids_ok_def by (rule spec)
  then have "side_ids (n (\<not> s)) (\<not> s) e'" by (rule side_ids_keep [OF _ ids app])
  then show ?thesis using i unfolding e r ids_ok_def by simp
qed (simp add: i)

section \<open>Every reachable connection\<close>

lemma pair_start_ok: "pair_ok pair_start" "ids_ok (\<lambda>_. 0) pair_start"
proof -
  have "chan s pair_start i = []" for s i by (simp add: chan_def pair_start_def mux_start_def)
  then show "pair_ok pair_start"
    by (simp add: pair_ok_def side_ok_def link_ok_def opened_ok_def pair_start_def mux_start_def credit_ok_def
        ledger_def order_ok_def end_ok_def open_ok_def quiet_def half_defs measures_Nil)
  show "ids_ok (\<lambda>_. 0) pair_start" by (simp add: ids_ok_def side_ids_def pair_start_def mux_start_def)
qed

lemma reachable_ok:
  assumes "\<forall>s. opens_of s es \<le> 2 ^ 31 - 2"
  shows "pair_ok (pair_run es pair_start) \<and> ids_ok (\<lambda>s. opens_of s es) (pair_run es pair_start)"
  using assms
proof (induction es rule: rev_induct)
  case Nil
  then show ?case using pair_start_ok by (simp add: pair_run_def)
next
  case (snoc ev es)
  let ?p = "pair_run es pair_start"
  have b: "\<forall>s. opens_of s es \<le> 2 ^ 31 - 2"
  proof
    fix s
    have "opens_of s es \<le> opens_of s (es @ [ev])" by (simp add: opens_of_snoc)
    then show "opens_of s es \<le> 2 ^ 31 - 2" using snoc.prems [rule_format, of s] by (rule le_trans)
  qed
  with snoc.IH have p: "pair_ok ?p" and i: "ids_ok (\<lambda>s. opens_of s es) ?p" by blast+
  have sd: "side_ids (opens_of s es) s (pr_end ?p s)" for s using i unfolding ids_ok_def by blast
  have e: "pair_run (es @ [ev]) pair_start = pair_step ev ?p" by (simp add: pair_run_def)
  show ?case
  proof (cases ev)
    case (Act s a)
    show ?thesis
    proof (cases "is_opening a")
      case True
      then obtain sv w where a: "a = AOpen sv w" by (cases a) auto
      have n: "opens_of s es < 2 ^ 31 - 2" using snoc.prems [rule_format, of s] by (auto simp: opens_of_snoc Act a)
      have "local_step (\<lambda>i. owner i = s) (pr_end ?p s) (mux_act a (pr_end ?p s))"
        unfolding a by (intro conjunct1 [OF open_local] side_now [OF sd])
      moreover have "(\<lambda>t. opens_of t (es @ [ev])) = (\<lambda>t. opens_of t es)(s := Suc (opens_of s es))"
        by (auto simp: opens_of_snoc Act a fun_eq_iff)
      ultimately show ?thesis unfolding e unfolding Act pair_step.simps
        using pair_act_ok [OF p] ids_put [OF i side_open [OF sd n]] by (simp only: a simp_thms)
    next
      case False
      have "local_step (\<lambda>i. owner i = s) (pr_end ?p s) (mux_act a (pr_end ?p s))"
        using act_local [OF False] by blast
      moreover have "(\<lambda>t. opens_of t (es @ [ev])) = (\<lambda>t. opens_of t es)(s := opens_of s es)"
        using False by (auto simp: opens_of_snoc Act fun_eq_iff)
      ultimately show ?thesis unfolding e unfolding Act pair_step.simps
        using pair_act_ok [OF p] ids_put [OF i side_act [OF sd False]] by (simp only: simp_thms)
    qed
  next
    case (Flush s)
    have "(\<lambda>t. opens_of t (es @ [ev])) = (\<lambda>t. opens_of t es)" by (auto simp: opens_of_snoc Flush)
    then show ?thesis unfolding e unfolding Flush using pair_flush_ok [OF p] ids_flush [OF i] by simp
  next
    case (Deliver s)
    have "(\<lambda>t. opens_of t (es @ [ev])) = (\<lambda>t. opens_of t es)" by (auto simp: opens_of_snoc Deliver)
    then show ?thesis unfolding e unfolding Deliver
      using pair_deliver_ok(1) [OF p zero_unopened [OF p i]] ids_deliver [OF p i] by simp
  qed
qed

section \<open>What a frame does to the other streams\<close>

lemma answer_open_slot:
  "get_slot j (answer_open i ok x e) =
     (if j = i then Some (if ms_ready x then x\<lparr>ms_ready := False\<rparr> else x) else get_slot j e)"
  using answer_open_half(1) [where j = j and i = i and ok = ok and x = x and e = e] by (cases "j = i") simp_all

lemma dispatch_cancels:
  assumes "mux_dispatch f e = Inr e'" "mf_kind f \<noteq> CANCEL" "get_slot i e' = Some x" "ms_cancelled x"
    and room: "\<And>y. get_slot (mf_id f) e = Some y \<Longrightarrow> length (ms_incoming y) < WINDOW + 2"
  shows "mx_stopped e \<or> (\<exists>y. get_slot i e = Some y \<and> ms_cancelled y)"
proof (cases "is_open f")
  case True
  then show ?thesis using assms(1,3,4)
    by (auto simp: mux_dispatch_def is_open_def dispatch_open_def mux_stream_def fresh_slot_def bcontains_iff
        split: if_splits sum.splits)
next
  case False
  show ?thesis
  proof (cases "get_slot (mf_id f) e")
    case None
    then show ?thesis using assms False by (auto simp: mux_dispatch_def is_open_def)
  next
    case (Some y)
    then show ?thesis using assms(1-4) room [OF Some] False
      by (auto simp: mux_dispatch_def is_open_def answer_open_slot dispatch_credit_def dispatch_data_def Let_def
          queue_room split: if_splits)
  qed
qed

section \<open>The promises\<close>

text \<open>C38: Whatever two honest ends of a connection do and however their frames interleave, a frame that
  arrives decodes and is accepted (the reader never closes the connection over it), and only a CANCEL
  cancels a stream. Each end may call \<open>open\<close> as often as there are ids.\<close>

theorem honest_ends_never_cut:
  assumes "\<forall>t. opens_of t es \<le> 2 ^ 31 - 2" and "pr_wire (pair_run es pair_start) s = b # bs"
  shows "\<exists>f e'. mux_decode b = Inr f \<and> mux_dispatch f (pr_end (pair_run es pair_start) (\<not> s)) = Inr e' \<and>
    (mf_kind f = CANCEL \<or> mx_stopped (pr_end (pair_run es pair_start) (\<not> s)) \<or>
     (\<forall>i x. get_slot i e' = Some x \<and> ms_cancelled x \<longrightarrow>
        (\<exists>y. slot_of (\<not> s) (pair_run es pair_start) i = Some y \<and> ms_cancelled y)))"
proof -
  have r: "pair_ok (pair_run es pair_start)" "ids_ok (\<lambda>s. opens_of s es) (pair_run es pair_start)"
    using reachable_ok [OF assms(1)] by blast+
  from pair_deliver_ok(2) [OF r(1) zero_unopened [OF r] assms(2)]
  obtain f e' where "mux_decode b = Inr f" "mux_dispatch f (pr_end (pair_run es pair_start) (\<not> s)) = Inr e'" by blast
  note d = this
  have "mx_stopped (pr_end (pair_run es pair_start) (\<not> s)) \<or>
      (\<exists>y. slot_of (\<not> s) (pair_run es pair_start) i = Some y \<and> ms_cancelled y)"
    if "mf_kind f \<noteq> CANCEL" "get_slot i e' = Some x" "ms_cancelled x" for i x
    using that by (rule dispatch_cancels [OF d(2)]) (rule slot_room [OF r(1)])
  then show ?thesis using d by blast
qed


section \<open>Any peer\<close>

text \<open>One end with a peer that may send anything: its own operations, and messages.\<close>

definition any_step :: "mux_action + bytes \<Rightarrow> MuxEnd \<Rightarrow> MuxEnd" where
  "any_step ev e =
     (case ev of
        Inl a \<Rightarrow> mux_act a e
      | Inr b \<Rightarrow> if mx_stopped e \<or> mx_refusing e \<noteq> None then e else read_message b e)"

definition slot_bound :: "MuxSlot \<Rightarrow> bool" where
  "slot_bound x \<longleftrightarrow> ms_receive_credit x + queued x \<le> WINDOW \<and> length (ms_incoming x) \<le> WINDOW + 2 \<and>
     ms_credit x \<le> WINDOW \<and> (\<forall>f \<in> set (ms_incoming x). is_data f \<or> is_end f)"

lemma bound_fresh: "slot_bound (fresh_slot w c)"
  by (simp add: slot_bound_def)

lemma bound_update [simp]:
  "slot_bound (ms_ready_update g y) \<longleftrightarrow> slot_bound y" "slot_bound (ms_cancelled_update g y) \<longleftrightarrow> slot_bound y"
  "slot_bound y \<Longrightarrow> slot_bound (ms_credit_update (\<lambda>_. n) y) \<longleftrightarrow> n \<le> WINDOW"
  by (auto simp: slot_bound_def queued_def)

lemma bound_queue:
  "slot_bound y \<Longrightarrow> is_data f \<Longrightarrow> length (mf_data f) \<le> ms_receive_credit y \<Longrightarrow>
     slot_bound (queue_incoming f (y\<lparr>ms_receive_credit := ms_receive_credit y - length (mf_data f)\<rparr>))"
  "slot_bound y \<Longrightarrow> is_end f \<Longrightarrow> slot_bound (queue_incoming f y)"
  by (auto simp: queue_incoming_def slot_bound_def queued_def measure_simps end_not_data)

lemma bound_step:
  assumes "lstep own i (x, a) fs (Some x', a')" "\<And>sx. x = Some sx \<Longrightarrow> slot_bound sx"
  shows "slot_bound x'"
  using assms(1)
proof (cases rule: lstep.cases)
  case (Opened sv w c)
  then show ?thesis using bound_fresh by simp
next
  case (TookData sx f fs)
  then show ?thesis using assms(2) [of sx] by (auto simp: slot_bound_def queued_def measure_simps)
next
  case (TookEnd sx f fs)
  then show ?thesis using assms(2) [of sx] by (auto simp: slot_bound_def queued_def measure_simps end_not_data)
next
  case (DroppedStream ax)
  then show ?thesis using assms(2) by (cases x) (auto simp: slot_bound_def queued_def)
qed (use assms(2) in \<open>auto simp: slot_bound_def queued_def; fail\<close>)+

lemma bound_dispatch:
  assumes "mux_dispatch f e = Inr e'" "\<And>i x. get_slot i e = Some x \<Longrightarrow> slot_bound x" "get_slot i e' = Some x"
  shows "slot_bound x"
proof (cases "is_open f")
  case True
  then show ?thesis using assms
    by (auto simp: mux_dispatch_def is_open_def dispatch_open_def mux_stream_def bound_fresh
        split: if_splits sum.splits)
next
  case False
  show ?thesis
  proof (cases "get_slot (mf_id f) e")
    case None
    then show ?thesis using assms False by (auto simp: mux_dispatch_def is_open_def)
  next
    case (Some y)
    note y = assms(2) [OF Some]
    have "e' = answer_open (mf_id f) True y e \<or> e' = answer_open (mf_id f) False (y\<lparr>ms_cancelled := True\<rparr>) e \<or>
        dispatch_credit f y e = Inr e' \<or> (is_data f \<or> is_end f) \<and> dispatch_data f y e = Inr e'"
      using assms(1) False Some by (auto simp: mux_dispatch_def is_open_def split: if_splits)
    then show ?thesis
    proof (elim disjE conjE)
      assume "e' = answer_open (mf_id f) True y e"
      then show ?thesis using assms(2) [of i x] assms(3) y by (auto simp: answer_open_slot split: if_splits)
    next
      assume "e' = answer_open (mf_id f) False (y\<lparr>ms_cancelled := True\<rparr>) e"
      then show ?thesis using assms(2) [of i x] assms(3) y by (auto simp: answer_open_slot split: if_splits)
    next
      assume "dispatch_credit f y e = Inr e'"
      then show ?thesis using assms(2) [of i x] assms(3) y
        by (auto simp: dispatch_credit_def Let_def split: if_splits)
    next
      assume "dispatch_data f y e = Inr e'" "is_data f"
      then show ?thesis using assms(2) [of i x] assms(3) bound_queue(1) [OF y]
        by (auto simp: dispatch_data_def split: if_splits)
    next
      assume "dispatch_data f y e = Inr e'" "is_end f"
      then show ?thesis using assms(2) [of i x] assms(3) bound_queue(2) [OF y]
        by (auto simp: dispatch_data_def end_not_data split: if_splits)
    qed
  qed
qed

lemma bound_act:
  assumes "\<And>i x. get_slot i e = Some x \<Longrightarrow> slot_bound x" "get_slot i (mux_act a e) = Some x"
  shows "slot_bound x"
proof (cases "is_opening a")
  case True
  then obtain sv w where a: "a = AOpen sv w" by (cases a) auto
  have "get_slot i e = Some x \<or> x = fresh_slot w (mx_stopped e)"
    using assms(2) unfolding a
    by (auto simp: mux_open_def mux_stream_def Let_def put_slot_def put_app_def bmap_simps split: if_splits sum.splits)
  then show ?thesis using assms(1) bound_fresh by auto
next
  case False
  from act_local [OF False, of "\<lambda>_. False" e] obtain fs
    where "lstep False i (half i e) fs (half i (mux_act a e))" unfolding local_step_def by blast
  then show ?thesis unfolding assms(2) by (rule bound_step) (rule assms(1))
qed

lemma any_step_cases:
  "any_step ev e = e \<or> any_step ev e = mux_close e \<or> (\<exists>a. any_step ev e = mux_act a e) \<or>
   (\<exists>f. mux_dispatch f e = Inr (any_step ev e))"
proof (cases ev)
  case (Inl a)
  then show ?thesis by (auto simp: any_step_def)
next
  case (Inr b)
  show ?thesis
  proof (cases "mx_stopped e \<or> mx_refusing e \<noteq> None")
    case True
    then show ?thesis using Inr by (simp add: any_step_def)
  next
    case False
    then have "any_step ev e = read_message b e" using Inr by (simp add: any_step_def)
    moreover have "read_message b e = mux_close e \<or> (\<exists>f. mux_dispatch f e = Inr (read_message b e))"
      by (cases "mux_decode b") (auto simp: read_message_def split: sum.split)
    ultimately show ?thesis by (elim disjE) simp_all
  qed
qed

lemma bound_any:
  assumes "\<And>i x. get_slot i e = Some x \<Longrightarrow> slot_bound x" "get_slot i (any_step ev e) = Some x"
  shows "slot_bound x"
  using any_step_cases [of ev e]
proof (elim disjE exE)
  assume "any_step ev e = e"
  with assms(2) show ?thesis by (simp add: assms(1))
next
  assume "any_step ev e = mux_close e"
  with assms(2) show ?thesis by (simp add: mux_close_def)
next
  fix a assume "any_step ev e = mux_act a e"
  with assms(2) have "get_slot i (mux_act a e) = Some x" by (simp del: mux_act.simps)
  with assms(1) show ?thesis by (rule bound_act)
next
  fix f assume "mux_dispatch f e = Inr (any_step ev e)"
  from this assms show ?thesis by (rule bound_dispatch)
qed

text \<open>C40: Whatever a peer sends, the data of a stream that waits at this end, together with the window it
  still grants, never exceeds 65536 bytes; neither do the permits for sending; and at most 65538 frames
  wait.\<close>

theorem inbound_data_bounded:
  assumes "get_slot i (fold any_step es (mux_start initiator)) = Some x"
  shows "ms_receive_credit x + queued x \<le> WINDOW \<and> ms_credit x \<le> WINDOW \<and> length (ms_incoming x) \<le> WINDOW + 2"
proof -
  have "get_slot i (fold any_step es (mux_start initiator)) = Some x \<Longrightarrow> slot_bound x" for i x
  proof (induction es arbitrary: i x rule: rev_induct)
    case Nil
    then show ?case by (simp add: mux_start_def)
  next
    case (snoc ev es)
    have "get_slot i (any_step ev (fold any_step es (mux_start initiator))) = Some x" using snoc.prems by simp
    with snoc.IH show ?case by (rule bound_any)
  qed
  from this [OF assms] show ?thesis unfolding slot_bound_def by blast
qed

section \<open>Where the promises end\<close>

text \<open>The payload of an END or a close frame is queued without being counted: any number of them up to
  the queue's capacity is taken, and the window this end still grants is unchanged.\<close>

lemma end_frames_escape_window:
  assumes "\<forall>f \<in> set fs. is_end f \<and> mf_id f = i" "get_slot i e = Some x"
    "length (ms_incoming x) + length fs \<le> WINDOW + 2"
  shows "\<exists>e' x'. foldl (\<lambda>r f. rbind r (mux_dispatch f)) (Inr e) fs = Inr e' \<and> get_slot i e' = Some x' \<and>
    ms_incoming x' = ms_incoming x @ fs \<and> ms_receive_credit x' = ms_receive_credit x"
  using assms
proof (induction fs arbitrary: e x)
  case (Cons f fs)
  let ?x = "x\<lparr>ms_incoming := ms_incoming x @ [f]\<rparr>"
  have "mux_dispatch f e = Inr (put_slot i ?x e)"
    using Cons.prems by (auto simp: mux_dispatch_def is_end_def is_data_def dispatch_data_def queue_incoming_def)
  moreover have "\<exists>e' x'. foldl (\<lambda>r f. rbind r (mux_dispatch f)) (Inr (put_slot i ?x e)) fs = Inr e' \<and>
      get_slot i e' = Some x' \<and> ms_incoming x' = ms_incoming ?x @ fs \<and> ms_receive_credit x' = ms_receive_credit ?x"
    using Cons.prems by (intro Cons.IH) auto
  ultimately show ?case by simp
qed simp

text \<open>Ids run out once: the next call fails, and the one after it starts again from 0, which the peer takes
  for a breach of the protocol.\<close>

lemma exhausted_ids_come_back:
  assumes "mx_ids e = 2 ^ 32 - 2" "length (mx_slots e) < MAX_STREAMS" "get_slot 0 e = None" "service_ok sv"
  shows "snd (mux_open sv w e) = Inl ''preview stream ids exhausted''"
    "snd (mux_open sv w (fst (mux_open sv w e))) = Inr 0"
    "mux_dispatch (frame (if w then WS_OPEN else OPEN) 0 sv) e2 = Inl ''invalid preview OPEN''"
proof -
  have z: "(4294967296 :: 32 word) = 0" by transfer simp
  show "snd (mux_open sv w e) = Inl ''preview stream ids exhausted''"
    "snd (mux_open sv w (fst (mux_open sv w e))) = Inr 0"
    "mux_dispatch (frame (if w then WS_OPEN else OPEN) 0 sv) e2 = Inl ''invalid preview OPEN''"
    using assms
    by (auto simp: z mux_open_def mux_stream_def Let_def service_ok_def bcontains_iff mux_dispatch_def
      dispatch_open_def frame_def)
qed

section \<open>A stream from end to end\<close>

abbreviation demo_open :: "pair_event list" where
  "demo_open \<equiv> [Act True (AOpen [97] False), Act True (AOpenSend 1), Flush True]"

abbreviation demo_accept :: "pair_event list" where
  "demo_accept \<equiv> [Deliver True, Act False (AConnect 1 True), Act False (AReady 1), Flush False, Deliver False,
     Act True (AOpenDone 1)]"

abbreviation demo_data :: "pair_event list" where
  "demo_data \<equiv> [Act True (AAppWrite 1 [7, 8]), Act True (AAppShutdown 1), Act True (ARead 1 5), Act True (AAcquire 1),
     Act True (ASend 1), Act True (ARead 1 5), Act True (ASend 1), Flush True, Flush True, Deliver True, Deliver True,
     Act False (ARecv 1), Act False (AWrite 1 9), Act False (AWrite 1 9), Act False (ACredit 1), Act False (ARecv 1)]"

lemmas open_run_defs = pair_run_def pair_start_def mux_start_def mux_open_def mux_stream_def Let_def bcontains_def
  fresh_defs put_slot_def put_app_def open_send_def mux_send_def OUT_QUEUE_def MAX_STREAMS_def pair_flush_def
  utf8_ok.simps CHUNK_def WINDOW_def

lemmas data_run_defs = pair_deliver_def read_message_def mux_dispatch_def dispatch_open_def dispatch_data_def
  dispatch_credit_def answer_open_def queue_incoming_def is_data_def is_end_def connect_done_def ready_send_def
  open_done_def decode_mux frame_def send_read_def send_acquire_def send_frame_out_def recv_next_def recv_write_def
  recv_credit_def app_write_def app_shutdown_def app_closed_def

lemma demo_opens: "\<forall>t. opens_of t demo_open \<le> 2 ^ 31 - 2" "\<forall>t. opens_of t (demo_open @ demo_accept @ demo_data) \<le> 2 ^ 31 - 2"
  by (simp_all add: opens_of_def)

lemma demo_wire: "pr_wire (pair_run demo_open pair_start) True = [mux_encode (frame OPEN 1 [97])]"
  by (simp add: open_run_defs cong: let_weak_cong)

lemma demo_received:
  "received (app_of False (pair_run (demo_open @ demo_accept @ demo_data) pair_start) 1) = [7, 8]"
  "saw_end (app_of False (pair_run (demo_open @ demo_accept @ demo_data) pair_start) 1)"
  by (simp_all add: open_run_defs data_run_defs cong: let_weak_cong)

lemma demo_any:
  "\<exists>x. get_slot 1 (fold any_step [Inr (mux_encode (frame OPEN 1 [97])), Inr (mux_encode (frame DATA 1 [7, 8]))]
     (mux_start False)) = Some x \<and> ms_incoming x = [frame DATA 1 [7, 8]] \<and> ms_receive_credit x = 65534"
  by (simp add: any_step_def open_run_defs data_run_defs cong: let_weak_cong)

theorem honest_ends_never_cut_witness:
  "\<exists>f e'. mux_decode (mux_encode (frame OPEN 1 [97])) = Inr f \<and>
     mux_dispatch f (pr_end (pair_run demo_open pair_start) False) = Inr e'"
  using honest_ends_never_cut [OF demo_opens(1) demo_wire] by auto


theorem inbound_data_bounded_witness:
  "\<exists>x. ms_incoming x = [frame DATA 1 [7, 8]] \<and> ms_receive_credit x = 65534 \<and> ms_receive_credit x + queued x \<le> WINDOW"
proof -
  obtain x where "get_slot 1 (fold any_step [Inr (mux_encode (frame OPEN 1 [97])), Inr (mux_encode (frame DATA 1 [7, 8]))]
     (mux_start False)) = Some x" "ms_incoming x = [frame DATA 1 [7, 8]]" "ms_receive_credit x = 65534"
    using demo_any by blast
  with inbound_data_bounded [OF this(1)] show ?thesis by blast
qed

end
