(* ===== verification/Spec2Isabelle.thy ===== *)
theory Spec2Isabelle
  imports Ordered_Map Command_Race Segment_Writer Parts_Fold Parts_Split Transcript_Delta Rebuild
    Queue_Doc Registry_Migration Workspace_Equiv Thread_Lifecycle Layout_Safe Effect_Safe Chat_Tickets Chat_Outbox
    Preview_Safe
begin

text \<open>
  A verification development of the core of Noches, a multi-device controller for coding agents. Every
  device runs an engine that keeps its sessions as documents; documents are synced row by row through a
  room per chat and a registry room per workspace. The development models the Rust code that decides
  what is in those documents, when a command runs, what reaches the other devices, and what the window
  shows of it, and proves what the code promises about it.

  The parts of the program, and the theories that hold them.

  Shared. \<open>Prelude\<close>: results (\<open>Result\<close> is a sum, \<open>?\<close> is \<open>rbind\<close>), Rust strings as their UTF-8 bytes,
  decimal texts. \<open>Ordered_Map\<close>: the contract of a map as the locales \<open>key_map\<close> and \<open>canonical_map\<close>, and
  \<open>BTreeMap\<close> as a sorted association list which interprets them. \<open>Json\<close>: \<open>serde_json::Value\<close> and the
  codecs \<open>serde\<close> derives; the locale \<open>json_codec\<close> states that a type reads back what it writes, and
  every wire type of the model interprets it.

  The session document (\<open>crates/doc\<close>). \<open>Agent\<close>: the events of a harness (\<open>proto/src/agent.rs\<close>). \<open>Parts\<close>,
  \<open>Parts_Fold\<close>, \<open>Parts_Split\<close>: the fold of events into the parts of a message, its privacy policy, and
  the splitting of long messages (\<open>parts.rs\<close>). \<open>Doc_Schema\<close>, \<open>Doc_Roundtrip\<close>: the layout of messages in
  the document, reading, salvage and joining; \<open>Segment_Writer\<close>: the incremental writer of a streaming
  message, which refines the fold; \<open>Session_Meta\<close>: the fenced orchestration register (locale
  \<open>fenced_register\<close>) and the context usage (all \<open>schema.rs\<close>). \<open>Transcript_Delta\<close>: the frames of the
  transcript watch (\<open>transcript_delta.rs\<close>). \<open>Rebuild\<close>: the rebuild of a fat document (\<open>rebuild.rs\<close>).
  \<open>Queue_Doc\<close>: the queue of pending messages (\<open>queue.rs\<close>), a refinement of a list of messages, with the
  locale \<open>delivery_queue\<close> for its consumers.

  Commands. \<open>Commands\<close>: the ledger and its evaluation (\<open>commands.rs\<close>). \<open>Command_Drain\<close>: the executor of
  \<open>engine/src/doc_host.rs\<close> with its processed ledger (\<open>sync/src/store.rs\<close>); \<open>Command_Race\<close>: its two
  roads, interleaved access by access.

  The registry (\<open>doc/src/registry.rs\<close>). \<open>Registry_Rows\<close>: hybrid logical clocks and the merge of an
  operation. \<open>Registry_Doc\<close>: a replica with its pending batches, server frames and overlay.
  \<open>Entities\<close>, \<open>Registry_Types\<close>, \<open>Registry_Api\<close>, \<open>Registry_Steps\<close>: the typed rows and calls (locale
  \<open>row_entity\<close>), and every history of them as a step relation. \<open>Registry_Migration\<close>,
  \<open>Workspace_Doc\<close>, \<open>Workspace_Equiv\<close>: the Loro document the registry replaced, the seeding from it, and
  a simulation between the two. \<open>Thread_Lifecycle\<close>: the lifecycle read off a thread.

  Chat sync. \<open>Chat_Frames\<close>: the wire (\<open>sync/src/chat_frames.rs\<close>). \<open>Docs_Store\<close>: the store of snapshots,
  cursors, outbox and sync jobs (\<open>store.rs\<close>, \<open>sync_jobs.rs\<close>), with a database that may fail at any call.
  \<open>Chat_Client\<close>, \<open>Chat_Session\<close>: the room client, its socket session and its HTTPS cycle as state machines
  on a shared state (\<open>chat_client.rs\<close>). \<open>Chat_Sink\<close>: the engine's side (\<open>chat2_host.rs\<close>,
  \<open>chat_persistence.rs\<close>). \<open>Chat_Room\<close>, \<open>Chat_Machine\<close>, \<open>Chat_Pull\<close>, \<open>Chat_Honest\<close>, \<open>Chat_Safe\<close>: the whole as one
  step relation, with saves and restarts, and the honesty of its cursors. \<open>Chat_Tickets\<close>,
  \<open>Chat_Outbox\<close>: catch-up tickets and the fate of unanswered batches.

  Orchestration (\<open>engine/src/orchestration\<close>). \<open>Thread_Projection\<close>: the parts of a thread the rest reads.
  \<open>Effect_Outbox\<close>, \<open>Steering\<close>: the outbox of external effects, its recovery and wake-up, targets of steering
  and stops (\<open>effects.rs\<close>, \<open>recovery.rs\<close>, \<open>wake.rs\<close>, \<open>steering.rs\<close>, \<open>controls.rs\<close>). \<open>Effect_Steps\<close>,
  \<open>Effect_Calls\<close>, \<open>Effect_Safe\<close>: every call is a sequence of lane steps, and what follows for the lanes.

  The window layout (\<open>crates/workspace\<close>). \<open>Split_Tree\<close>, \<open>Layout\<close>, \<open>Layout_Arrange\<close>, \<open>Layout_Ops\<close>: trees, views,
  tabs and panes with every operation and the transactions around them; \<open>Layout_Valid\<close>: what \<open>validate\<close>
  decides; \<open>Layout_Panes\<close>, \<open>Layout_Edits\<close>, \<open>Layout_Keeps\<close>: the panes as a multiset under every edit;
  \<open>Layout_Safe\<close>: no panic, and the tree operations as list operations.

  Previews. \<open>Preview_Mux\<close>: the stream multiplexer (\<open>preview/src/mux.rs\<close>); \<open>Preview_Flow\<close>: one stream between
  two ends; \<open>Preview_Pair\<close>: the connection; \<open>Preview_Safe\<close>: flow control, order, and any peer.

  How the code corresponds to the model. A struct is a record and an enum a datatype with the
  source's names; a record field carries a short prefix of its type. A method that mutates takes and
  returns the record; a \<open>Result\<close> is a sum, an \<open>unwrap\<close> or an index that would panic is an answer \<open>Panicked\<close>. A
  table is the list of its rows and an \<open>UPDATE\<close> an update of the rows its condition selects. What one
  asynchronous task does between two awaits is one operation, and concurrency is a step relation or a
  list of events in any order. Integers are exact where the code stays within their type by a check the
  model also makes, and words or explicit wrap-around elsewhere (command expiry, clock counters, stream
  ids). Times are milliseconds.

  What the lemmas show. Safety of the command roads (at most once, whatever crashes), of unacknowledged
  batches and outbox rows, of dispatched effects; invariants by rule induction over step relations (typed
  rows, lanes in order, honest cursors, flow control); refinement (the writer of the fold, the queue of a
  list, the tree of its leaves, a stream of its bytes); equivalences (the validation with its declarative
  account, the registry with the workspace document); round trips of documents, frames and rows;
  bounds of clocks and windows; error behaviour. Where the code does not do what a comment or document
  says of it, a lemma shows the difference; the manifest lists these as findings.

  Bounds and fuel. The only loop on fuel is the drain of commands: a unit per turn, and more units than
  the document has entries are enough (\<open>drain_returns\<close>). Everything else is total. The counts of opened
  streams are bounded by the ids there are, and \<open>Preview_Safe\<close> shows what happens beyond.

  Parameters stand for code outside the repository: \<open>similar\<close>'s line diff (\<open>ld\<close>), the length and the text
  of \<open>serde_json\<close> (\<open>jlen\<close>, \<open>ser\<close>, \<open>des\<close>), a hash (\<open>hx\<close>), \<open>chrono\<close>'s times (\<open>tm\<close>, \<open>rfc_ms\<close>, \<open>ms_of\<close>), the wall
  clock (\<open>now\<close>), and the Loro document (\<open>LoroApi\<close>: an import keeps what is there, an export of a document
  imports as that document). The merge of concurrent edits inside Loro is its own; where a document is
  edited, the model is its current value. Harnesses and executors are parameters too: whatever outcome
  they give.

  Not modelled, and why. The generated wire contracts of \<open>proto\<close> (\<open>orchestration.rs\<close>,
  \<open>orchestration_mcp.rs\<close>): declarations of hundreds of types without logic, of which the fields that
  modelled code reads are in \<open>Thread_Projection\<close>. The planners of the orchestration (\<open>task.rs\<close>, \<open>runner.rs\<close>,
  \<open>launch\<close>, \<open>queue\<close>, \<open>scheduler\<close>, \<open>threads\<close>, \<open>transfer\<close>, \<open>git_actions\<close>, \<open>pull_requests\<close>): each rewrites untyped JSON
  projections and drives \<open>git\<close>, providers and the network; what they hand to the outbox is modelled. The
  harness crates: processes and their line protocols. The user interface (\<open>crates/ui\<close>), themes and
  syntax: rendering with a third-party toolkit. RPC, dialing and backoff, signaling and peers: sockets and
  timers, which here are any schedule. Voice, dictation, browser, updates: devices and processes. SQL
  text, migrations and the connection of the store. The iOS app and the edge are Swift and TypeScript.
  Of the chat client, resets of a room and the abortion of tasks on drop; a frame is handled and a row
  applied in one piece, as the code does under its locks.
\<close>

end
